(* ===== verification/Nostr_Types.thy ===== *)
theory Nostr_Types
  imports Buzz_Prelude
begin

text \<open>
  The data of the \<open>nostr\<close> crate as the sources observe it, and the relay's wrapper
  \<open>StoredEvent\<close> (\<open>crates/buzz-core/src/event.rs\<close>). The crate itself is not part of the
  repository: each of its types is the record of the accessors the sources call, and nothing
  is assumed about how the accessors of one value relate to each other.
\<close>

text \<open>
  A tag: \<open>as_slice()\<close>, \<open>kind().to_string()\<close> and \<open>content()\<close>.
\<close>

record nostr_tag =
  tag_slice :: "string list"
  tag_kind :: string
  tag_content :: "string option"

text \<open>
  A signed event. \<open>Kind\<close> is a 16-bit number, \<open>created_at\<close> a number of seconds.
\<close>

record nostr_event =
  ev_id :: hex
  ev_pubkey :: hex
  ev_created_at :: nat
  ev_kind :: u16
  ev_tags :: "nostr_tag list"
  ev_content :: string

text \<open>
  A NIP-01 filter. The sets of the crate are lists in iteration order; \<open>generic_tags\<close> maps a
  one-letter tag name (printed by \<open>SingleLetterTag::to_string\<close>) to the values it accepts.
\<close>

record nostr_filter =
  f_ids :: "hex list option"
  f_authors :: "hex list option"
  f_kinds :: "u16 list option"
  f_since :: "nat option"
  f_until :: "nat option"
  f_generic_tags :: "(string, string list) hmap"

text \<open>\<open>StoredEvent\<close>: an event with the metadata the relay assigns.\<close>

record StoredEvent =
  se_event :: nostr_event
  se_received_at :: instant
  se_channel_id :: "uuid option"
  se_verified :: bool

definition StoredEvent_new :: "instant \<Rightarrow> nostr_event \<Rightarrow> uuid option \<Rightarrow> StoredEvent" where
  "StoredEvent_new now event channel_id =
     \<lparr>se_event = event, se_received_at = now, se_channel_id = channel_id, se_verified = False\<rparr>"

definition is_verified :: "StoredEvent \<Rightarrow> bool" where
  "is_verified self = se_verified self"

definition with_received_at ::
    "nostr_event \<Rightarrow> instant \<Rightarrow> uuid option \<Rightarrow> bool \<Rightarrow> StoredEvent" where
  "with_received_at event received_at channel_id verified =
     \<lparr>se_event = event, se_received_at = received_at, se_channel_id = channel_id,
      se_verified = verified\<rparr>"

text \<open>A tag built from its parts, as the crate builds tags from string vectors.\<close>

definition mk_tag :: "string \<Rightarrow> string list \<Rightarrow> nostr_tag" where
  "mk_tag name vals =
     \<lparr>tag_slice = name # vals, tag_kind = name,
      tag_content = (case vals of [] \<Rightarrow> None | v # _ \<Rightarrow> Some v)\<rparr>"

end
