(* ===== verification/Buzz_Kind.thy ===== *)
theory Buzz_Kind
  imports Nostr_Types
begin

text \<open>
  The kind registry \<open>crates/buzz-core/src/kind.rs\<close>: every kind number, the lists that gate
  reads, the registry list \<open>ALL_KINDS\<close>, the predicates the relay dispatches on and the
  shared-tag read gate. Kinds are \<open>u32\<close>, so \<open>32 word\<close>; an event carries a 16-bit kind.
\<close>

subsection \<open>Kind numbers\<close>

definition KIND_PROFILE :: u32 where [kind_consts]: "KIND_PROFILE = 0"
definition KIND_TEXT_NOTE :: u32 where [kind_consts]: "KIND_TEXT_NOTE = 1"
definition KIND_CONTACT_LIST :: u32 where [kind_consts]: "KIND_CONTACT_LIST = 3"
definition KIND_MUTE_LIST :: u32 where [kind_consts]: "KIND_MUTE_LIST = 10000"
definition KIND_PIN_LIST :: u32 where [kind_consts]: "KIND_PIN_LIST = 10001"
definition KIND_NIP65_RELAY_LIST_METADATA :: u32 where [kind_consts]: "KIND_NIP65_RELAY_LIST_METADATA = 10002"
definition KIND_BOOKMARK_LIST :: u32 where [kind_consts]: "KIND_BOOKMARK_LIST = 10003"
definition KIND_EMOJI_LIST :: u32 where [kind_consts]: "KIND_EMOJI_LIST = 10030"
definition KIND_FOLLOW_SET :: u32 where [kind_consts]: "KIND_FOLLOW_SET = 30000"
definition KIND_BOOKMARK_SET :: u32 where [kind_consts]: "KIND_BOOKMARK_SET = 30003"
definition KIND_EMOJI_SET :: u32 where [kind_consts]: "KIND_EMOJI_SET = 30030"
definition KIND_CHANNEL_METADATA :: u32 where [kind_consts]: "KIND_CHANNEL_METADATA = 41"
definition KIND_DELETION :: u32 where [kind_consts]: "KIND_DELETION = 5"
definition KIND_REACTION :: u32 where [kind_consts]: "KIND_REACTION = 7"
definition KIND_GIFT_WRAP :: u32 where [kind_consts]: "KIND_GIFT_WRAP = 1059"
definition KIND_FILE_METADATA :: u32 where [kind_consts]: "KIND_FILE_METADATA = 1063"
definition KIND_LONG_FORM :: u32 where [kind_consts]: "KIND_LONG_FORM = 30023"
definition KIND_USER_STATUS :: u32 where [kind_consts]: "KIND_USER_STATUS = 30315"
definition KIND_READ_STATE :: u32 where [kind_consts]: "KIND_READ_STATE = 30078"
definition KIND_AUTH :: u32 where [kind_consts]: "KIND_AUTH = 22242"
definition KIND_BLOSSOM_AUTH :: u32 where [kind_consts]: "KIND_BLOSSOM_AUTH = 24242"
definition KIND_NOSTR_IDENTITY_BINDING :: u32 where [kind_consts]: "KIND_NOSTR_IDENTITY_BINDING = 24243"
definition KIND_HTTP_AUTH :: u32 where [kind_consts]: "KIND_HTTP_AUTH = 27235"
definition KIND_AGENT_PROFILE :: u32 where [kind_consts]: "KIND_AGENT_PROFILE = 10100"
definition KIND_AGENT_ENGRAM :: u32 where [kind_consts]: "KIND_AGENT_ENGRAM = 30174"
definition KIND_EVENT_REMINDER :: u32 where [kind_consts]: "KIND_EVENT_REMINDER = 30300"
definition KIND_PUSH_LEASE :: u32 where [kind_consts]: "KIND_PUSH_LEASE = 30350"
definition KIND_PRIVATE_MANAGED_AGENT :: u32 where [kind_consts]: "KIND_PRIVATE_MANAGED_AGENT = 30179"
definition KIND_PERSONA :: u32 where [kind_consts]: "KIND_PERSONA = 30175"
definition KIND_TEAM :: u32 where [kind_consts]: "KIND_TEAM = 30176"
definition KIND_MANAGED_AGENT :: u32 where [kind_consts]: "KIND_MANAGED_AGENT = 30177"
definition KIND_TEAM_CATALOG :: u32 where [kind_consts]: "KIND_TEAM_CATALOG = 30178"
definition KIND_REPORT :: u32 where [kind_consts]: "KIND_REPORT = 1984"
definition KIND_PRODUCT_FEEDBACK :: u32 where [kind_consts]: "KIND_PRODUCT_FEEDBACK = 42000"
definition KIND_NIP29_PUT_USER :: u32 where [kind_consts]: "KIND_NIP29_PUT_USER = 9000"
definition KIND_NIP29_REMOVE_USER :: u32 where [kind_consts]: "KIND_NIP29_REMOVE_USER = 9001"
definition KIND_NIP29_EDIT_METADATA :: u32 where [kind_consts]: "KIND_NIP29_EDIT_METADATA = 9002"
definition KIND_NIP29_DELETE_EVENT :: u32 where [kind_consts]: "KIND_NIP29_DELETE_EVENT = 9005"
definition KIND_NIP29_CREATE_GROUP :: u32 where [kind_consts]: "KIND_NIP29_CREATE_GROUP = 9007"
definition KIND_NIP29_DELETE_GROUP :: u32 where [kind_consts]: "KIND_NIP29_DELETE_GROUP = 9008"
definition KIND_NIP29_CREATE_INVITE :: u32 where [kind_consts]: "KIND_NIP29_CREATE_INVITE = 9009"
definition KIND_NIP29_JOIN_REQUEST :: u32 where [kind_consts]: "KIND_NIP29_JOIN_REQUEST = 9021"
definition KIND_NIP29_LEAVE_REQUEST :: u32 where [kind_consts]: "KIND_NIP29_LEAVE_REQUEST = 9022"
definition KIND_MODERATION_BAN :: u32 where [kind_consts]: "KIND_MODERATION_BAN = 9040"
definition KIND_MODERATION_UNBAN :: u32 where [kind_consts]: "KIND_MODERATION_UNBAN = 9041"
definition KIND_MODERATION_TIMEOUT :: u32 where [kind_consts]: "KIND_MODERATION_TIMEOUT = 9042"
definition KIND_MODERATION_UNTIMEOUT :: u32 where [kind_consts]: "KIND_MODERATION_UNTIMEOUT = 9043"
definition KIND_MODERATION_RESOLVE_REPORT :: u32 where [kind_consts]: "KIND_MODERATION_RESOLVE_REPORT = 9044"
definition RELAY_ADMIN_ADD_MEMBER :: u32 where [kind_consts]: "RELAY_ADMIN_ADD_MEMBER = 9030"
definition RELAY_ADMIN_REMOVE_MEMBER :: u32 where [kind_consts]: "RELAY_ADMIN_REMOVE_MEMBER = 9031"
definition RELAY_ADMIN_CHANGE_ROLE :: u32 where [kind_consts]: "RELAY_ADMIN_CHANGE_ROLE = 9032"
definition RELAY_ADMIN_SET_WORKSPACE_PROFILE :: u32 where [kind_consts]: "RELAY_ADMIN_SET_WORKSPACE_PROFILE = 9033"
definition KIND_NIP43_MEMBERSHIP_LIST :: u32 where [kind_consts]: "KIND_NIP43_MEMBERSHIP_LIST = 13534"
definition KIND_NIP43_MEMBER_ADDED :: u32 where [kind_consts]: "KIND_NIP43_MEMBER_ADDED = 8000"
definition KIND_NIP43_MEMBER_REMOVED :: u32 where [kind_consts]: "KIND_NIP43_MEMBER_REMOVED = 8001"
definition KIND_NIP43_LEAVE_REQUEST :: u32 where [kind_consts]: "KIND_NIP43_LEAVE_REQUEST = 28936"
definition KIND_IA_ARCHIVE_REQUEST :: u32 where [kind_consts]: "KIND_IA_ARCHIVE_REQUEST = 9035"
definition KIND_IA_UNARCHIVE_REQUEST :: u32 where [kind_consts]: "KIND_IA_UNARCHIVE_REQUEST = 9036"
definition KIND_IA_ARCHIVED :: u32 where [kind_consts]: "KIND_IA_ARCHIVED = 8002"
definition KIND_IA_UNARCHIVED :: u32 where [kind_consts]: "KIND_IA_UNARCHIVED = 8003"
definition KIND_IA_ARCHIVED_LIST :: u32 where [kind_consts]: "KIND_IA_ARCHIVED_LIST = 13535"
definition KIND_NIP29_GROUP_METADATA :: u32 where [kind_consts]: "KIND_NIP29_GROUP_METADATA = 39000"
definition KIND_NIP29_GROUP_ADMINS :: u32 where [kind_consts]: "KIND_NIP29_GROUP_ADMINS = 39001"
definition KIND_NIP29_GROUP_MEMBERS :: u32 where [kind_consts]: "KIND_NIP29_GROUP_MEMBERS = 39002"
definition KIND_NIP29_GROUP_ROLES :: u32 where [kind_consts]: "KIND_NIP29_GROUP_ROLES = 39003"
definition KIND_THREAD_SUMMARY :: u32 where [kind_consts]: "KIND_THREAD_SUMMARY = 39005"
definition KIND_WINDOW_BOUNDS :: u32 where [kind_consts]: "KIND_WINDOW_BOUNDS = 39006"
definition KIND_WORKFLOW_DEF :: u32 where [kind_consts]: "KIND_WORKFLOW_DEF = 30620"
definition KIND_DM_VISIBILITY :: u32 where [kind_consts]: "KIND_DM_VISIBILITY = 30622"
definition PARAM_REPLACEABLE_KIND_MIN :: u32 where [kind_consts]: "PARAM_REPLACEABLE_KIND_MIN = 30000"
definition PARAM_REPLACEABLE_KIND_MAX :: u32 where [kind_consts]: "PARAM_REPLACEABLE_KIND_MAX = 39999"
definition EPHEMERAL_KIND_MIN :: u32 where [kind_consts]: "EPHEMERAL_KIND_MIN = 20000"
definition EPHEMERAL_KIND_MAX :: u32 where [kind_consts]: "EPHEMERAL_KIND_MAX = 29999"
definition KIND_PRESENCE_UPDATE :: u32 where [kind_consts]: "KIND_PRESENCE_UPDATE = 20001"
definition KIND_PAIRING :: u32 where [kind_consts]: "KIND_PAIRING = 24134"
definition KIND_TYPING_INDICATOR :: u32 where [kind_consts]: "KIND_TYPING_INDICATOR = 20002"
definition KIND_AGENT_OBSERVER_FRAME :: u32 where [kind_consts]: "KIND_AGENT_OBSERVER_FRAME = 24200"
definition KIND_HUDDLE_REACTION :: u32 where [kind_consts]: "KIND_HUDDLE_REACTION = 24810"
definition KIND_STREAM_MESSAGE :: u32 where [kind_consts]: "KIND_STREAM_MESSAGE = 9"
definition KIND_STREAM_MESSAGE_V2 :: u32 where [kind_consts]: "KIND_STREAM_MESSAGE_V2 = 40002"
definition KIND_STREAM_MESSAGE_EDIT :: u32 where [kind_consts]: "KIND_STREAM_MESSAGE_EDIT = 40003"
definition KIND_STREAM_MESSAGE_PINNED :: u32 where [kind_consts]: "KIND_STREAM_MESSAGE_PINNED = 40004"
definition KIND_STREAM_MESSAGE_BOOKMARKED :: u32 where [kind_consts]: "KIND_STREAM_MESSAGE_BOOKMARKED = 40005"
definition KIND_STREAM_MESSAGE_SCHEDULED :: u32 where [kind_consts]: "KIND_STREAM_MESSAGE_SCHEDULED = 40006"
definition KIND_STREAM_REMINDER :: u32 where [kind_consts]: "KIND_STREAM_REMINDER = 40007"
definition KIND_STREAM_MESSAGE_DIFF :: u32 where [kind_consts]: "KIND_STREAM_MESSAGE_DIFF = 40008"
definition KIND_CANVAS :: u32 where [kind_consts]: "KIND_CANVAS = 40100"
definition KIND_SYSTEM_MESSAGE :: u32 where [kind_consts]: "KIND_SYSTEM_MESSAGE = 40099"
definition KIND_CHANNEL_SUMMARY :: u32 where [kind_consts]: "KIND_CHANNEL_SUMMARY = 40901"
definition KIND_PRESENCE_SNAPSHOT :: u32 where [kind_consts]: "KIND_PRESENCE_SNAPSHOT = 40902"
definition KIND_DM_OPEN :: u32 where [kind_consts]: "KIND_DM_OPEN = 41010"
definition KIND_DM_ADD_MEMBER :: u32 where [kind_consts]: "KIND_DM_ADD_MEMBER = 41011"
definition KIND_DM_HIDE :: u32 where [kind_consts]: "KIND_DM_HIDE = 41012"
definition KIND_DM_CREATED :: u32 where [kind_consts]: "KIND_DM_CREATED = 41001"
definition KIND_JOB_REQUEST :: u32 where [kind_consts]: "KIND_JOB_REQUEST = 43001"
definition KIND_JOB_ACCEPTED :: u32 where [kind_consts]: "KIND_JOB_ACCEPTED = 43002"
definition KIND_JOB_PROGRESS :: u32 where [kind_consts]: "KIND_JOB_PROGRESS = 43003"
definition KIND_JOB_RESULT :: u32 where [kind_consts]: "KIND_JOB_RESULT = 43004"
definition KIND_JOB_CANCEL :: u32 where [kind_consts]: "KIND_JOB_CANCEL = 43005"
definition KIND_JOB_ERROR :: u32 where [kind_consts]: "KIND_JOB_ERROR = 43006"
definition KIND_MEMBER_ADDED_NOTIFICATION :: u32 where [kind_consts]: "KIND_MEMBER_ADDED_NOTIFICATION = 44100"
definition KIND_MEMBER_REMOVED_NOTIFICATION :: u32 where [kind_consts]: "KIND_MEMBER_REMOVED_NOTIFICATION = 44101"
definition KIND_AGENT_TURN_METRIC :: u32 where [kind_consts]: "KIND_AGENT_TURN_METRIC = 44200"
definition KIND_FORUM_POST :: u32 where [kind_consts]: "KIND_FORUM_POST = 45001"
definition KIND_FORUM_VOTE :: u32 where [kind_consts]: "KIND_FORUM_VOTE = 45002"
definition KIND_FORUM_COMMENT :: u32 where [kind_consts]: "KIND_FORUM_COMMENT = 45003"
definition KIND_WORKFLOW_TRIGGER :: u32 where [kind_consts]: "KIND_WORKFLOW_TRIGGER = 46020"
definition KIND_APPROVAL_GRANT :: u32 where [kind_consts]: "KIND_APPROVAL_GRANT = 46030"
definition KIND_APPROVAL_DENY :: u32 where [kind_consts]: "KIND_APPROVAL_DENY = 46031"
definition KIND_WORKFLOW_TRIGGERED :: u32 where [kind_consts]: "KIND_WORKFLOW_TRIGGERED = 46001"
definition KIND_WORKFLOW_STEP_STARTED :: u32 where [kind_consts]: "KIND_WORKFLOW_STEP_STARTED = 46002"
definition KIND_WORKFLOW_STEP_COMPLETED :: u32 where [kind_consts]: "KIND_WORKFLOW_STEP_COMPLETED = 46003"
definition KIND_WORKFLOW_STEP_FAILED :: u32 where [kind_consts]: "KIND_WORKFLOW_STEP_FAILED = 46004"
definition KIND_WORKFLOW_COMPLETED :: u32 where [kind_consts]: "KIND_WORKFLOW_COMPLETED = 46005"
definition KIND_WORKFLOW_FAILED :: u32 where [kind_consts]: "KIND_WORKFLOW_FAILED = 46006"
definition KIND_WORKFLOW_CANCELLED :: u32 where [kind_consts]: "KIND_WORKFLOW_CANCELLED = 46007"
definition KIND_WORKFLOW_APPROVAL_REQUESTED :: u32 where [kind_consts]: "KIND_WORKFLOW_APPROVAL_REQUESTED = 46010"
definition KIND_WORKFLOW_APPROVAL_GRANTED :: u32 where [kind_consts]: "KIND_WORKFLOW_APPROVAL_GRANTED = 46011"
definition KIND_WORKFLOW_APPROVAL_DENIED :: u32 where [kind_consts]: "KIND_WORKFLOW_APPROVAL_DENIED = 46012"
definition KIND_AUDIT_ENTRY :: u32 where [kind_consts]: "KIND_AUDIT_ENTRY = 48001"
definition KIND_HUDDLE_STARTED :: u32 where [kind_consts]: "KIND_HUDDLE_STARTED = 48100"
definition KIND_HUDDLE_PARTICIPANT_JOINED :: u32 where [kind_consts]: "KIND_HUDDLE_PARTICIPANT_JOINED = 48101"
definition KIND_HUDDLE_PARTICIPANT_LEFT :: u32 where [kind_consts]: "KIND_HUDDLE_PARTICIPANT_LEFT = 48102"
definition KIND_HUDDLE_ENDED :: u32 where [kind_consts]: "KIND_HUDDLE_ENDED = 48103"
definition KIND_HUDDLE_GUIDELINES :: u32 where [kind_consts]: "KIND_HUDDLE_GUIDELINES = 48106"
definition KIND_MEDIA_UPLOAD :: u32 where [kind_consts]: "KIND_MEDIA_UPLOAD = 49001"
definition KIND_BOARD :: u32 where [kind_consts]: "KIND_BOARD = 30623"
definition KIND_BOARD_CARD :: u32 where [kind_consts]: "KIND_BOARD_CARD = 30624"
definition KIND_BOARD_GOAL :: u32 where [kind_consts]: "KIND_BOARD_GOAL = 30625"
definition KIND_BOARD_FEED_RULE :: u32 where [kind_consts]: "KIND_BOARD_FEED_RULE = 30626"
definition KIND_BOARD_AUTONOMY_POLICY :: u32 where [kind_consts]: "KIND_BOARD_AUTONOMY_POLICY = 30627"
definition KIND_BOARD_APPROVAL_REQUESTED :: u32 where [kind_consts]: "KIND_BOARD_APPROVAL_REQUESTED = 50001"
definition KIND_BOARD_APPROVAL_GRANTED :: u32 where [kind_consts]: "KIND_BOARD_APPROVAL_GRANTED = 50002"
definition KIND_BOARD_APPROVAL_DENIED :: u32 where [kind_consts]: "KIND_BOARD_APPROVAL_DENIED = 50003"
definition KIND_GIT_REPO_ANNOUNCEMENT :: u32 where [kind_consts]: "KIND_GIT_REPO_ANNOUNCEMENT = 30617"
definition KIND_GIT_REPO_STATE :: u32 where [kind_consts]: "KIND_GIT_REPO_STATE = 30618"
definition KIND_GIT_PATCH :: u32 where [kind_consts]: "KIND_GIT_PATCH = 1617"
definition KIND_GIT_PULL_REQUEST :: u32 where [kind_consts]: "KIND_GIT_PULL_REQUEST = 1618"
definition KIND_GIT_PR_UPDATE :: u32 where [kind_consts]: "KIND_GIT_PR_UPDATE = 1619"
definition KIND_GIT_ISSUE :: u32 where [kind_consts]: "KIND_GIT_ISSUE = 1621"
definition KIND_GIT_STATUS_OPEN :: u32 where [kind_consts]: "KIND_GIT_STATUS_OPEN = 1630"
definition KIND_GIT_STATUS_MERGED :: u32 where [kind_consts]: "KIND_GIT_STATUS_MERGED = 1631"
definition KIND_GIT_STATUS_CLOSED :: u32 where [kind_consts]: "KIND_GIT_STATUS_CLOSED = 1632"
definition KIND_GIT_STATUS_DRAFT :: u32 where [kind_consts]: "KIND_GIT_STATUS_DRAFT = 1633"
definition KIND_PROJECT :: u32 where [kind_consts]: "KIND_PROJECT = 30621"

definition AUTHOR_ONLY_KINDS :: "u32 list" where
  [kind_classes]: "AUTHOR_ONLY_KINDS =
    [KIND_EVENT_REMINDER, KIND_PUSH_LEASE, KIND_PRIVATE_MANAGED_AGENT]"

definition RESULT_GATED_KINDS :: "u32 list" where
  [kind_classes]: "RESULT_GATED_KINDS =
    [KIND_DM_VISIBILITY, KIND_AGENT_TURN_METRIC]"

definition P_GATED_KINDS :: "u32 list" where
  [kind_classes]: "P_GATED_KINDS =
    [KIND_AGENT_OBSERVER_FRAME, KIND_MEMBER_ADDED_NOTIFICATION,
     KIND_MEMBER_REMOVED_NOTIFICATION, KIND_GIFT_WRAP, KIND_DM_VISIBILITY,
     KIND_AGENT_TURN_METRIC]"

definition SHARED_GATED_KINDS :: "u32 list" where
  [kind_classes]: "SHARED_GATED_KINDS =
    [KIND_PERSONA, KIND_TEAM_CATALOG]"

definition ALL_KINDS :: "u32 list" where
  [kind_classes]: "ALL_KINDS =
    [KIND_PROFILE, KIND_TEXT_NOTE, KIND_CONTACT_LIST, KIND_MUTE_LIST, KIND_PIN_LIST,
     KIND_NIP65_RELAY_LIST_METADATA, KIND_BOOKMARK_LIST, KIND_EMOJI_LIST, KIND_FOLLOW_SET,
     KIND_BOOKMARK_SET, KIND_EMOJI_SET, KIND_CHANNEL_METADATA, KIND_DELETION, KIND_REACTION,
     KIND_GIFT_WRAP, KIND_FILE_METADATA, KIND_AGENT_PROFILE, KIND_AGENT_ENGRAM,
     KIND_EVENT_REMINDER, KIND_PERSONA, KIND_TEAM, KIND_MANAGED_AGENT, KIND_TEAM_CATALOG,
     KIND_PRIVATE_MANAGED_AGENT, KIND_REPORT, KIND_PRODUCT_FEEDBACK, KIND_NIP29_PUT_USER,
     KIND_NIP29_REMOVE_USER, KIND_NIP29_EDIT_METADATA, KIND_NIP29_DELETE_EVENT,
     KIND_NIP29_CREATE_GROUP, KIND_NIP29_DELETE_GROUP, KIND_NIP29_CREATE_INVITE,
     KIND_NIP29_JOIN_REQUEST, KIND_NIP29_LEAVE_REQUEST, KIND_MODERATION_BAN,
     KIND_MODERATION_UNBAN, KIND_MODERATION_TIMEOUT, KIND_MODERATION_UNTIMEOUT,
     KIND_MODERATION_RESOLVE_REPORT, RELAY_ADMIN_ADD_MEMBER, RELAY_ADMIN_REMOVE_MEMBER,
     RELAY_ADMIN_CHANGE_ROLE, RELAY_ADMIN_SET_WORKSPACE_PROFILE, KIND_NIP43_MEMBERSHIP_LIST,
     KIND_NIP43_MEMBER_ADDED, KIND_NIP43_MEMBER_REMOVED, KIND_NIP43_LEAVE_REQUEST,
     KIND_IA_ARCHIVE_REQUEST, KIND_IA_UNARCHIVE_REQUEST, KIND_IA_ARCHIVED,
     KIND_IA_UNARCHIVED, KIND_IA_ARCHIVED_LIST, KIND_NIP29_GROUP_METADATA,
     KIND_NIP29_GROUP_ADMINS, KIND_NIP29_GROUP_MEMBERS, KIND_NIP29_GROUP_ROLES,
     KIND_THREAD_SUMMARY, KIND_WINDOW_BOUNDS, KIND_PRESENCE_UPDATE, KIND_TYPING_INDICATOR,
     KIND_HUDDLE_REACTION, KIND_BLOSSOM_AUTH, KIND_PAIRING, KIND_AGENT_OBSERVER_FRAME,
     KIND_HTTP_AUTH, KIND_STREAM_MESSAGE, KIND_STREAM_MESSAGE_V2, KIND_STREAM_MESSAGE_EDIT,
     KIND_STREAM_MESSAGE_PINNED, KIND_STREAM_MESSAGE_BOOKMARKED,
     KIND_STREAM_MESSAGE_SCHEDULED, KIND_STREAM_REMINDER, KIND_STREAM_MESSAGE_DIFF,
     KIND_CANVAS, KIND_SYSTEM_MESSAGE, KIND_CHANNEL_SUMMARY, KIND_PRESENCE_SNAPSHOT,
     KIND_DM_VISIBILITY, KIND_DM_OPEN, KIND_DM_ADD_MEMBER, KIND_DM_HIDE, KIND_DM_CREATED,
     KIND_JOB_REQUEST, KIND_JOB_ACCEPTED, KIND_JOB_PROGRESS, KIND_JOB_RESULT,
     KIND_JOB_CANCEL, KIND_JOB_ERROR, KIND_MEMBER_ADDED_NOTIFICATION,
     KIND_MEMBER_REMOVED_NOTIFICATION, KIND_AGENT_TURN_METRIC, KIND_WORKFLOW_DEF,
     KIND_LONG_FORM, KIND_USER_STATUS, KIND_READ_STATE, KIND_FORUM_POST, KIND_FORUM_VOTE,
     KIND_FORUM_COMMENT, KIND_WORKFLOW_TRIGGER, KIND_APPROVAL_GRANT, KIND_APPROVAL_DENY,
     KIND_WORKFLOW_TRIGGERED, KIND_WORKFLOW_STEP_STARTED, KIND_WORKFLOW_STEP_COMPLETED,
     KIND_WORKFLOW_STEP_FAILED, KIND_WORKFLOW_COMPLETED, KIND_WORKFLOW_FAILED,
     KIND_WORKFLOW_CANCELLED, KIND_WORKFLOW_APPROVAL_REQUESTED,
     KIND_WORKFLOW_APPROVAL_GRANTED, KIND_WORKFLOW_APPROVAL_DENIED, KIND_AUDIT_ENTRY,
     KIND_HUDDLE_STARTED, KIND_HUDDLE_PARTICIPANT_JOINED, KIND_HUDDLE_PARTICIPANT_LEFT,
     KIND_HUDDLE_ENDED, KIND_HUDDLE_GUIDELINES, KIND_MEDIA_UPLOAD, KIND_BOARD,
     KIND_BOARD_CARD, KIND_BOARD_GOAL, KIND_BOARD_FEED_RULE, KIND_BOARD_AUTONOMY_POLICY,
     KIND_BOARD_APPROVAL_REQUESTED, KIND_BOARD_APPROVAL_GRANTED, KIND_BOARD_APPROVAL_DENIED,
     KIND_GIT_REPO_ANNOUNCEMENT, KIND_GIT_REPO_STATE, KIND_GIT_PATCH, KIND_GIT_PULL_REQUEST,
     KIND_GIT_PR_UPDATE, KIND_GIT_ISSUE, KIND_GIT_STATUS_OPEN, KIND_GIT_STATUS_MERGED,
     KIND_GIT_STATUS_CLOSED, KIND_GIT_STATUS_DRAFT, KIND_PROJECT]"

subsection \<open>Predicates\<close>

definition is_shared_gated_kind :: "u32 \<Rightarrow> bool" where
  [kind_classes]: "is_shared_gated_kind kind \<longleftrightarrow> kind \<in> set SHARED_GATED_KINDS"

definition is_moderation_command_kind :: "u32 \<Rightarrow> bool" where
  [kind_classes]: "is_moderation_command_kind kind \<longleftrightarrow>
     kind \<in> {KIND_MODERATION_BAN, KIND_MODERATION_UNBAN, KIND_MODERATION_TIMEOUT,
             KIND_MODERATION_UNTIMEOUT, KIND_MODERATION_RESOLVE_REPORT}"

definition is_ephemeral :: "u32 \<Rightarrow> bool" where
  [kind_classes]: "is_ephemeral kind \<longleftrightarrow> kind \<ge> EPHEMERAL_KIND_MIN \<and> kind \<le> EPHEMERAL_KIND_MAX"

definition is_replaceable :: "u32 \<Rightarrow> bool" where
  [kind_classes]: "is_replaceable kind \<longleftrightarrow>
     kind = 0 \<or> kind = 3 \<or> kind = KIND_CHANNEL_METADATA \<or> (10000 \<le> kind \<and> kind \<le> 19999)"

definition is_parameterized_replaceable :: "u32 \<Rightarrow> bool" where
  [kind_classes]: "is_parameterized_replaceable kind \<longleftrightarrow>
     kind \<ge> PARAM_REPLACEABLE_KIND_MIN \<and> kind \<le> PARAM_REPLACEABLE_KIND_MAX"

definition is_workflow_execution_kind :: "u32 \<Rightarrow> bool" where
  [kind_classes]: "is_workflow_execution_kind kind \<longleftrightarrow>
     kind \<ge> KIND_WORKFLOW_TRIGGERED \<and> kind \<le> KIND_WORKFLOW_APPROVAL_DENIED"

definition is_relay_admin_kind :: "u32 \<Rightarrow> bool" where
  [kind_classes]: "is_relay_admin_kind kind \<longleftrightarrow>
     kind \<in> {RELAY_ADMIN_ADD_MEMBER, RELAY_ADMIN_REMOVE_MEMBER, RELAY_ADMIN_CHANGE_ROLE,
             RELAY_ADMIN_SET_WORKSPACE_PROFILE}"

definition is_identity_archive_request_kind :: "u32 \<Rightarrow> bool" where
  [kind_classes]: "is_identity_archive_request_kind kind \<longleftrightarrow>
     kind \<in> {KIND_IA_ARCHIVE_REQUEST, KIND_IA_UNARCHIVE_REQUEST}"

definition is_command_kind :: "u32 \<Rightarrow> bool" where
  [kind_classes]: "is_command_kind kind \<longleftrightarrow>
     kind \<in> {KIND_WORKFLOW_DEF, KIND_DM_OPEN, KIND_DM_ADD_MEMBER, KIND_DM_HIDE,
             KIND_WORKFLOW_TRIGGER, KIND_APPROVAL_GRANT, KIND_APPROVAL_DENY}"

definition is_relay_only_kind :: "u32 \<Rightarrow> bool" where
  [kind_classes]: "is_relay_only_kind kind \<longleftrightarrow>
     kind \<in> {KIND_NIP43_MEMBERSHIP_LIST, KIND_CHANNEL_SUMMARY, KIND_PRESENCE_SNAPSHOT,
             KIND_DM_VISIBILITY, KIND_THREAD_SUMMARY, KIND_WINDOW_BOUNDS}"

text \<open>\<open>event.kind.as_u16() as u32\<close> and \<open>as i32\<close>: both zero-extend.\<close>

definition event_kind_u32 :: "nostr_event \<Rightarrow> u32" where
  "event_kind_u32 event = ucast (ev_kind event)"

definition event_kind_i32 :: "nostr_event \<Rightarrow> 32 word" where
  "event_kind_i32 event = ucast (ev_kind event)"

subsection \<open>The shared-tag read gate\<close>

text \<open>The loop of \<open>event_is_shared\<close>, with its running \<open>count\<close> as \<open>n\<close> and its early returns.\<close>

fun event_is_shared_loop :: "nat \<Rightarrow> nostr_tag list \<Rightarrow> bool" where
  "event_is_shared_loop n [] \<longleftrightarrow> n = 1"
| "event_is_shared_loop n (tag # tags) \<longleftrightarrow>
     (let parts = tag_slice tag in
      if length parts = 2 \<and> parts ! 0 = ''shared'' then
        (if parts ! 1 \<noteq> ''true'' then False else event_is_shared_loop (n + 1) tags)
      else if parts \<noteq> [] \<and> parts ! 0 = ''shared'' then False
      else event_is_shared_loop n tags)"

definition event_is_shared :: "nostr_event \<Rightarrow> bool" where
  "event_is_shared event = event_is_shared_loop 0 (ev_tags event)"

text \<open>The requester is given by the hex text of its key bytes.\<close>

definition is_unshared_gated_event :: "nostr_event \<Rightarrow> hex \<Rightarrow> bool" where
  "is_unshared_gated_event event requester_pubkey =
     (let kind = ucast (ev_kind event) in
      if \<not> is_shared_gated_kind kind then False
      else if ev_pubkey event = requester_pubkey then False
      else \<not> event_is_shared event)"

subsection \<open>Lemmas\<close>

text \<open>The tags that name the \<open>shared\<close> marker at all, well-formed or not.\<close>

definition shared_tags :: "nostr_event \<Rightarrow> string list list" where
  "shared_tags event =
     filter (\<lambda>p. p \<noteq> [] \<and> hd p = ''shared'') (map tag_slice (ev_tags event))"

lemma event_is_shared_loop_iff:
  "event_is_shared_loop n tags \<longleftrightarrow>
     (let ps = filter (\<lambda>p. p \<noteq> [] \<and> hd p = ''shared'') (map tag_slice tags)
      in list_all (\<lambda>p. p = [''shared'', ''true'']) ps \<and> n + length ps = 1)"
proof (induction tags arbitrary: n)
  case Nil
  show ?case by simp
next
  case (Cons t ts)
  show ?case
  proof (cases "tag_slice t")
    case Nil
    with Cons show ?thesis by (simp add: Let_def)
  next
    case (Cons a as)
    with Cons.IH show ?thesis
      by (cases as; cases "tl as") (auto simp: Let_def length_Suc_conv)
  qed
qed

lemma event_is_shared_iff:
  "event_is_shared event \<longleftrightarrow> shared_tags event = [[''shared'', ''true'']]"
  by (auto simp: event_is_shared_def shared_tags_def event_is_shared_loop_iff Let_def
      length_Suc_conv)

lemma uint_ucast_u16_u32: "uint (ucast (k :: u16) :: u32) = uint k"
  by (rule uint_up_ucast) (simp add: is_up)

lemma sint_ucast_u16_u32: "sint (ucast (k :: u16) :: u32) = uint k"
proof -
  have a: "0 \<le> uint k" and b: "uint k < 65536" using uint_bounded [of k] by simp_all
  have "- (2 ^ 31) \<le> uint k" using a by (rule order_trans [rotated]) simp
  moreover have "uint k < 2 ^ 31" using b by simp
  ultimately have "signed_take_bit 31 (uint k) = uint k"
    by (rule signed_take_bit_int_eq_self)
  then show ?thesis by (simp add: sint_uint uint_ucast_u16_u32)
qed

text \<open>Duplicates are decided on the integer values, where comparing numerals is fast.\<close>

definition all_kind_values :: "int list" where
  "all_kind_values =
    [0, 1, 3, 10000, 10001, 10002, 10003, 10030, 30000, 30003, 30030, 41, 5, 7, 1059, 1063,
     10100, 30174, 30300, 30175, 30176, 30177, 30178, 30179, 1984, 42000, 9000, 9001, 9002,
     9005, 9007, 9008, 9009, 9021, 9022, 9040, 9041, 9042, 9043, 9044, 9030, 9031, 9032,
     9033, 13534, 8000, 8001, 28936, 9035, 9036, 8002, 8003, 13535, 39000, 39001, 39002,
     39003, 39005, 39006, 20001, 20002, 24810, 24242, 24134, 24200, 27235, 9, 40002, 40003,
     40004, 40005, 40006, 40007, 40008, 40100, 40099, 40901, 40902, 30622, 41010, 41011,
     41012, 41001, 43001, 43002, 43003, 43004, 43005, 43006, 44100, 44101, 44200, 30620,
     30023, 30315, 30078, 45001, 45002, 45003, 46020, 46030, 46031, 46001, 46002, 46003,
     46004, 46005, 46006, 46007, 46010, 46011, 46012, 48001, 48100, 48101, 48102, 48103,
     48106, 49001, 30623, 30624, 30625, 30626, 30627, 50001, 50002, 50003, 30617, 30618,
     1617, 1618, 1619, 1621, 1630, 1631, 1632, 1633, 30621]"

lemma ALL_KINDS_values: "ALL_KINDS = map word_of_int all_kind_values"
  by (simp add: kind_classes kind_consts all_kind_values_def)

lemma inj_on_word_of_int: "inj_on (word_of_int :: int \<Rightarrow> 'a::len word) {0..<2 ^ LENGTH('a)}"
  by (rule inj_onI) (metis atLeastLessThan_iff word_of_int_inverse)

lemma all_kind_values_bounds: "set all_kind_values \<subseteq> {0..<65536}"
  by (simp add: all_kind_values_def)

lemma all_kind_values_distinct: "distinct all_kind_values"
  by (simp add: all_kind_values_def)

lemma ALL_KINDS_distinct: "distinct ALL_KINDS"
proof -
  have "set all_kind_values \<subseteq> {0..<2 ^ LENGTH(32)}"
    by (rule subset_trans [OF all_kind_values_bounds]) simp
  then have "inj_on (word_of_int :: int \<Rightarrow> u32) (set all_kind_values)"
    by (rule inj_on_subset [OF inj_on_word_of_int])
  with all_kind_values_distinct show ?thesis
    by (simp only: ALL_KINDS_values distinct_map)
qed

subsection \<open>Properties\<close>

text \<open>
  The kind registry is sound: no number is registered twice and every registered number
  fits the 16 bits an event carries. The list is documented to hold all registered kinds;
  exactly \<open>KIND_AUTH\<close>, \<open>KIND_NOSTR_IDENTITY_BINDING\<close> and \<open>KIND_PUSH_LEASE\<close> are declared
  but absent, so the duplicate detection does not cover them.
\<close>

theorem all_kinds_registry:
  "distinct ALL_KINDS \<and> list_all (\<lambda>k. k \<le> 65535) ALL_KINDS \<and>
   {KIND_AUTH, KIND_NOSTR_IDENTITY_BINDING, KIND_PUSH_LEASE} \<inter> set ALL_KINDS = {}"
proof (intro conjI)
  show "distinct ALL_KINDS" by (rule ALL_KINDS_distinct)
  show "list_all (\<lambda>k. k \<le> 65535) ALL_KINDS" by (simp add: kind_classes kind_consts)
  show "{KIND_AUTH, KIND_NOSTR_IDENTITY_BINDING, KIND_PUSH_LEASE} \<inter> set ALL_KINDS = {}"
    by (simp add: kind_classes kind_consts)
qed

text \<open>
  The relay's dispatch is unambiguous: whatever the kind of an event, at most one of the
  storage classes (ephemeral, replaceable, parameterized replaceable) and at most one of the
  command routes (moderation, relay administration, identity archival, transactional command,
  relay-only, workflow execution) claims it.
\<close>

theorem kind_routes_unambiguous:
  "length (filter (\<lambda>p. p k) [is_ephemeral, is_replaceable, is_parameterized_replaceable]) \<le> 1 \<and>
   length (filter (\<lambda>p. p k) [is_moderation_command_kind, is_relay_admin_kind,
     is_identity_archive_request_kind, is_command_kind, is_relay_only_kind,
     is_workflow_execution_kind]) \<le> 1"
proof
  have "\<not> (is_ephemeral k \<and> is_replaceable k)"
       "\<not> (is_ephemeral k \<and> is_parameterized_replaceable k)"
       "\<not> (is_replaceable k \<and> is_parameterized_replaceable k)"
    by (auto simp: kind_classes kind_consts word_le_def)
  then show "length (filter (\<lambda>p. p k) [is_ephemeral, is_replaceable,
      is_parameterized_replaceable]) \<le> 1"
    by auto
  have "is_moderation_command_kind k \<or> is_relay_admin_kind k \<or>
      is_identity_archive_request_kind k \<or> is_command_kind k \<or> is_relay_only_kind k \<Longrightarrow>
      \<not> is_workflow_execution_kind k"
    by (auto simp: kind_classes kind_consts)
  moreover have "length (filter (\<lambda>p. p k) [is_moderation_command_kind, is_relay_admin_kind,
     is_identity_archive_request_kind, is_command_kind, is_relay_only_kind]) \<le> 1"
    by (auto simp: kind_classes kind_consts)
  ultimately show "length (filter (\<lambda>p. p k) [is_moderation_command_kind, is_relay_admin_kind,
     is_identity_archive_request_kind, is_command_kind, is_relay_only_kind,
     is_workflow_execution_kind]) \<le> 1"
    by (auto split: if_splits)
qed

text \<open>
  The shared-tag gate withholds an event exactly when its kind is gated, the reader is not
  its author, and the tags named \<open>shared\<close> are not exactly one well-formed
  \<open>["shared", "true"]\<close>: a second marker, another value or a longer tag fails closed.
\<close>

theorem unshared_gate_exact:
  "is_unshared_gated_event event requester \<longleftrightarrow>
     event_kind_u32 event \<in> {KIND_PERSONA, KIND_TEAM_CATALOG} \<and>
     requester \<noteq> ev_pubkey event \<and>
     shared_tags event \<noteq> [[''shared'', ''true'']]"
  by (auto simp: is_unshared_gated_event_def event_kind_u32_def is_shared_gated_kind_def
      SHARED_GATED_KINDS_def event_is_shared_iff Let_def)

end
