(* ===== verification/Nostr_Filter.thy ===== *)
theory Nostr_Filter
  imports Buzz_Kind
begin

text \<open>
  NIP-01 filter matching and the result-level read gate, \<open>crates/buzz-core/src/filter.rs\<close>.
  The matcher is written with the early returns of the source; \<open>filter_match_one_iff\<close> gives
  the declarative reading the subscription registry relies on.
\<close>

text \<open>One iteration of the loop over \<open>generic_tags\<close>: \<open>False\<close> is the early \<open>return false\<close>.\<close>

definition has_match :: "StoredEvent \<Rightarrow> string \<Rightarrow> string list \<Rightarrow> bool" where
  "has_match ev tag_key tag_values =
     list_ex (\<lambda>filter_val.
       list_ex (\<lambda>event_val. event_val = filter_val)
         (List.map_filter tag_content
            (filter (\<lambda>t. tag_kind t = tag_key) (ev_tags (se_event ev))))) tag_values"

definition generic_tag_match :: "StoredEvent \<Rightarrow> string \<Rightarrow> string list \<Rightarrow> bool" where
  "generic_tag_match ev tag_key tag_values =
     (if \<not> has_match ev tag_key tag_values \<and> tag_key = ''h'' then
        (let event_has_h_tags = list_ex (\<lambda>t. tag_kind t = ''h'') (ev_tags (se_event ev)) in
         if \<not> event_has_h_tags then
           (case se_channel_id ev of
              Some ch_id \<Rightarrow> list_ex (\<lambda>v. v = ch_id) tag_values
            | None \<Rightarrow> False)
         else False)
      else if \<not> has_match ev tag_key tag_values then False
      else True)"

fun generic_tags_match :: "StoredEvent \<Rightarrow> (string, string list) hmap \<Rightarrow> bool" where
  "generic_tags_match ev [] = True"
| "generic_tags_match ev ((tag_key, tag_values) # rest) =
     (if \<not> generic_tag_match ev tag_key tag_values then False else generic_tags_match ev rest)"

definition filter_match_one :: "nostr_filter \<Rightarrow> StoredEvent \<Rightarrow> bool" where
  "filter_match_one f ev =
     (if (case f_kinds f of Some kinds \<Rightarrow> ev_kind (se_event ev) \<notin> set kinds | None \<Rightarrow> False)
      then False
      else if (case f_authors f of Some authors \<Rightarrow> ev_pubkey (se_event ev) \<notin> set authors | None \<Rightarrow> False)
      then False
      else if (case f_since f of Some since \<Rightarrow> ev_created_at (se_event ev) < since | None \<Rightarrow> False)
      then False
      else if (case f_until f of Some until \<Rightarrow> ev_created_at (se_event ev) > until | None \<Rightarrow> False)
      then False
      else if (case f_ids f of
                 Some ids \<Rightarrow> \<not> list_ex (\<lambda>id. starts_with (ev_id (se_event ev)) id) ids
               | None \<Rightarrow> False)
      then False
      else generic_tags_match ev (f_generic_tags f))"

definition filters_match :: "nostr_filter list \<Rightarrow> StoredEvent \<Rightarrow> bool" where
  "filters_match filters event = list_ex (\<lambda>f. filter_match_one f event) filters"

definition reader_authorized_for_event :: "nostr_event \<Rightarrow> hex \<Rightarrow> bool" where
  "reader_authorized_for_event event reader_pubkey_hex =
     (let kind = event_kind_u32 event in
      if kind \<noteq> KIND_DM_VISIBILITY \<and> kind \<noteq> KIND_AGENT_TURN_METRIC then True
      else list_ex (\<lambda>t. tag_content t = Some reader_pubkey_hex)
             (filter (\<lambda>t. tag_kind t = ''p'') (ev_tags event)))"

subsection \<open>Lemmas\<close>

text \<open>The values an event carries under a tag name.\<close>

definition tag_vals :: "nostr_event \<Rightarrow> string \<Rightarrow> string set" where
  "tag_vals ev key = {v. \<exists>t \<in> set (ev_tags ev). tag_kind t = key \<and> tag_content t = Some v}"

lemma has_match_iff:
  "has_match ev key vals \<longleftrightarrow> set vals \<inter> tag_vals (se_event ev) key \<noteq> {}"
  by (auto simp: has_match_def tag_vals_def list_ex_iff)

lemma generic_tag_match_iff:
  "generic_tag_match ev key vals \<longleftrightarrow>
     set vals \<inter> tag_vals (se_event ev) key \<noteq> {} \<or>
     key = ''h'' \<and> (\<forall>t \<in> set (ev_tags (se_event ev)). tag_kind t \<noteq> ''h'') \<and>
     (\<exists>ch. se_channel_id ev = Some ch \<and> ch \<in> set vals)"
  by (auto simp: generic_tag_match_def has_match_iff list_ex_iff Let_def split: option.splits)

lemma generic_tags_match_iff:
  "generic_tags_match ev tags \<longleftrightarrow> (\<forall>(key, vals) \<in> set tags. generic_tag_match ev key vals)"
  by (induction tags) (auto split: if_splits)

lemma filters_match_iff: "filters_match fs ev \<longleftrightarrow> (\<exists>f \<in> set fs. filter_match_one f ev)"
  by (simp add: filters_match_def list_ex_iff)

lemma filter_match_one_kinds:
  "filter_match_one f ev \<Longrightarrow> f_kinds f = Some ks \<Longrightarrow> ev_kind (se_event ev) \<in> set ks"
  by (auto simp: filter_match_one_def split: if_splits)

lemma filter_match_one_tags:
  "filter_match_one f ev \<Longrightarrow> (key, vals) \<in> set (f_generic_tags f) \<Longrightarrow> generic_tag_match ev key vals"
  by (auto simp: filter_match_one_def generic_tags_match_iff split: if_splits)

text \<open>
  A filter selects exactly the events that satisfy all the constraints it states: the
  kind, author and id sets, the closed time interval, and for each tag name one of the listed
  values; the channel a reaction inherits stands in for a missing \<open>h\<close> tag, but never
  overrides an explicit one.
\<close>

theorem filter_match_one_iff:
  "filter_match_one f ev \<longleftrightarrow>
     (case f_kinds f of None \<Rightarrow> True | Some ks \<Rightarrow> ev_kind (se_event ev) \<in> set ks) \<and>
     (case f_authors f of None \<Rightarrow> True | Some as \<Rightarrow> ev_pubkey (se_event ev) \<in> set as) \<and>
     (case f_ids f of None \<Rightarrow> True | Some is \<Rightarrow> \<exists>i. i \<in> set is \<and> starts_with (ev_id (se_event ev)) i) \<and>
     (case f_since f of None \<Rightarrow> True | Some t \<Rightarrow> t \<le> ev_created_at (se_event ev)) \<and>
     (case f_until f of None \<Rightarrow> True | Some t \<Rightarrow> ev_created_at (se_event ev) \<le> t) \<and>
     set (f_generic_tags f) \<subseteq>
       {(key, vals). (\<exists>v. v \<in> set vals \<and> v \<in> tag_vals (se_event ev) key) \<or>
          key = ''h'' \<and> ''h'' \<notin> tag_kind ` set (ev_tags (se_event ev)) \<and>
          (\<exists>ch. se_channel_id ev = Some ch \<and> ch \<in> set vals)}"
proof -
  have no_h: "(\<forall>t \<in> set (ev_tags (se_event ev)). tag_kind t \<noteq> ''h'') \<longleftrightarrow>
      ''h'' \<notin> tag_kind ` set (ev_tags (se_event ev))"
    by force
  have meets: "set vals \<inter> T \<noteq> {} \<longleftrightarrow> (\<exists>v. v \<in> set vals \<and> v \<in> T)" for vals :: "string list" and T
    by blast
  have tags: "generic_tags_match ev (f_generic_tags f) \<longleftrightarrow>
     set (f_generic_tags f) \<subseteq>
       {(key, vals). (\<exists>v. v \<in> set vals \<and> v \<in> tag_vals (se_event ev) key) \<or>
          key = ''h'' \<and> ''h'' \<notin> tag_kind ` set (ev_tags (se_event ev)) \<and>
          (\<exists>ch. se_channel_id ev = Some ch \<and> ch \<in> set vals)}"
    unfolding generic_tags_match_iff generic_tag_match_iff no_h meets by (simp add: subset_eq)
  show ?thesis
    unfolding filter_match_one_def tags list_ex_iff Bex_def
    by (cases "f_kinds f"; cases "f_authors f"; cases "f_ids f"; cases "f_since f";
        cases "f_until f") (simp_all add: not_less)
qed

text \<open>
  The result-level read gate: an event of a result-gated kind reaches a reader only if
  the event names that reader in a \<open>p\<close> tag; every other kind passes.
\<close>

theorem reader_gate_exact:
  "reader_authorized_for_event event reader \<longleftrightarrow>
     (if event_kind_u32 event \<in> set RESULT_GATED_KINDS then reader \<in> tag_vals event ''p'' else True)"
  by (auto simp: reader_authorized_for_event_def RESULT_GATED_KINDS_def tag_vals_def list_ex_iff
      Let_def)

end
