(* ===== verification/Subscription_Registry.thy ===== *)
theory Subscription_Registry
  imports Nostr_Filter
begin

text \<open>
  The live subscription registry of the relay, \<open>crates/buzz-relay/src/subscription.rs\<close>:
  the authoritative table of subscriptions, five posting-list indexes over it, registration,
  removal, channel revocation and the indexed fan-out of an event. Each function here is one
  call from beginning to end with no other call in between; \<open>Registry_Calls\<close> has the calls at
  the granularity of their locks. The theory proves what each call does to the table and to the
  indexes, and that a fan-out never crosses communities, scopes or filters whatever the indexes
  hold.
\<close>

type_synonym ConnId = uuid
type_synonym SubId = string
type_synonym CommunityId = uuid

datatype SubscriptionScope = Global | Channels "uuid list"

type_synonym SubEntry = "nostr_filter list \<times> CommunityId \<times> SubscriptionScope"

fun matches_channel :: "SubscriptionScope \<Rightarrow> uuid option \<Rightarrow> bool" where
  "matches_channel Global None = True"
| "matches_channel (Channels channels) (Some channel_id) = (channel_id \<in> set channels)"
| "matches_channel _ _ = False"

fun channel_ids :: "SubscriptionScope \<Rightarrow> uuid list" where
  "channel_ids Global = []"
| "channel_ids (Channels channels) = channels"

definition is_global :: "SubscriptionScope \<Rightarrow> bool" where
  "is_global scope = (case scope of Global \<Rightarrow> True | _ \<Rightarrow> False)"

record IndexKey =
  ik_channel_id :: uuid
  ik_kind :: u16

record GlobalPKindIndexKey =
  gk_community_id :: CommunityId
  gk_kind :: u16
  gk_p :: string

record RemovedSubscription =
  rs_community_id :: CommunityId
  rs_scope :: SubscriptionScope

record ChannelSubscriptionUpdate =
  cu_sub_id :: SubId
  cu_removed :: bool

type_synonym posting = "(ConnId \<times> SubId) list"

text \<open>\<open>gauge\<close> is the \<open>buzz_subscriptions_active\<close> metric the operations adjust.\<close>

record SubscriptionRegistry =
  subs :: "(ConnId, (SubId, SubEntry) hmap) hmap"
  channel_kind_index :: "(CommunityId \<times> IndexKey, posting) hmap"
  channel_wildcard_index :: "(CommunityId \<times> uuid, posting) hmap"
  global_kind_index :: "(CommunityId \<times> u16, posting) hmap"
  global_p_kind_index :: "(GlobalPKindIndexKey, posting) hmap"
  global_wildcard_index :: "(CommunityId, posting) hmap"
  gauge :: int

definition SubscriptionRegistry_new :: SubscriptionRegistry where
  "SubscriptionRegistry_new =
     \<lparr>subs = [], channel_kind_index = [], channel_wildcard_index = [], global_kind_index = [],
      global_p_kind_index = [], global_wildcard_index = [], gauge = 0\<rparr>"

subsection \<open>Index keys of a subscription\<close>

definition p_tag :: string where
  "p_tag = ''p''"

fun extract_kinds_loop :: "u16 list \<Rightarrow> nostr_filter list \<Rightarrow> u16 list option" where
  "extract_kinds_loop kinds [] = Some kinds"
| "extract_kinds_loop kinds (f # fs) =
     (case f_kinds f of
        Some filter_kinds \<Rightarrow> extract_kinds_loop (push_new kinds filter_kinds) fs
      | None \<Rightarrow> None)"

definition extract_kinds_from_filters :: "nostr_filter list \<Rightarrow> u16 list option" where
  "extract_kinds_from_filters filters = extract_kinds_loop [] filters"

fun extract_global_p_loop ::
    "CommunityId \<Rightarrow> GlobalPKindIndexKey list \<Rightarrow> nostr_filter list \<Rightarrow> GlobalPKindIndexKey list option"
where
  "extract_global_p_loop community_id keys [] = Some keys"
| "extract_global_p_loop community_id keys (f # fs) =
     (case f_kinds f of
        None \<Rightarrow> None
      | Some kinds \<Rightarrow>
          if kinds = [] then extract_global_p_loop community_id keys fs
          else (case hm_get (f_generic_tags f) p_tag of
                  None \<Rightarrow> None
                | Some p_values \<Rightarrow>
                    if p_values = [] then None
                    else extract_global_p_loop community_id
                           (push_new keys
                              (concat (map (\<lambda>kind. map (\<lambda>p.
                                 \<lparr>gk_community_id = community_id, gk_kind = kind, gk_p = p\<rparr>)
                                 p_values) kinds))) fs))"

definition extract_global_p_kind_index_keys ::
    "CommunityId \<Rightarrow> nostr_filter list \<Rightarrow> GlobalPKindIndexKey list option" where
  "extract_global_p_kind_index_keys community_id filters =
     extract_global_p_loop community_id [] filters"

definition event_p_tag_values :: "StoredEvent \<Rightarrow> string list" where
  "event_p_tag_values event =
     push_new [] (List.map_filter tag_content
        (filter (\<lambda>tag. tag_kind tag = ''p'') (ev_tags (se_event event))))"

subsection \<open>Posting lists\<close>

text \<open>\<open>entry(key).or_default().push(e)\<close>.\<close>

definition ix_push :: "'k \<Rightarrow> 'e \<Rightarrow> ('k, 'e list) hmap \<Rightarrow> ('k, 'e list) hmap" where
  "ix_push key e index = hm_insert key (hm_list index key @ [e]) index"

text \<open>
  \<open>get_mut(key)\<close> and \<open>retain\<close> everything but \<open>e\<close>, under the guard of the key; the flag says that
  nothing is left. Only then, and after the guard is dropped, comes \<open>remove(key)\<close>: \<open>ix_drop\<close> is
  the two with nothing in between.
\<close>

definition ix_retain :: "'k \<Rightarrow> 'e \<Rightarrow> ('k, 'e list) hmap \<Rightarrow> ('k, 'e list) hmap \<times> bool" where
  "ix_retain key e index =
     (case hm_get index key of
        None \<Rightarrow> (index, False)
      | Some entries \<Rightarrow>
          let entries' = filter (\<lambda>x. x \<noteq> e) entries in (hm_insert key entries' index, entries' = []))"

definition ix_drop :: "'k \<Rightarrow> 'e \<Rightarrow> ('k, 'e list) hmap \<Rightarrow> ('k, 'e list) hmap" where
  "ix_drop key e index =
     (let (index', emptied) = ix_retain key e index
      in if emptied then hm_remove key index' else index')"

subsection \<open>Registration and removal\<close>

text \<open>
  The indexing half of \<open>register_with_scope\<close>, and its inverse. \<open>channel_kind_index_update f\<close>
  applies \<open>f\<close> to that field of the registry.
\<close>

definition add_to_index ::
    "(ConnId \<times> SubId) \<Rightarrow> nostr_filter list \<Rightarrow> CommunityId \<Rightarrow> SubscriptionScope \<Rightarrow>
     SubscriptionRegistry \<Rightarrow> SubscriptionRegistry" where
  "add_to_index e filters community_id scope r =
     (case scope of
        Channels chs \<Rightarrow>
          fold (\<lambda>ch_id.
            case extract_kinds_from_filters filters of
              None \<Rightarrow> channel_wildcard_index_update (ix_push (community_id, ch_id) e)
            | Some kinds \<Rightarrow>
                if kinds = [] then id
                else fold (\<lambda>kind. channel_kind_index_update
                       (ix_push (community_id, \<lparr>ik_channel_id = ch_id, ik_kind = kind\<rparr>) e)) kinds) chs r
      | Global \<Rightarrow>
          (case extract_global_p_kind_index_keys community_id filters of
             Some keys \<Rightarrow> fold (\<lambda>key. global_p_kind_index_update (ix_push key e)) keys r
           | None \<Rightarrow>
               (case extract_kinds_from_filters filters of
                  None \<Rightarrow> global_wildcard_index_update (ix_push community_id e) r
                | Some kinds \<Rightarrow>
                    if kinds = [] then r
                    else fold (\<lambda>kind. global_kind_index_update (ix_push (community_id, kind) e)) kinds r)))"

definition remove_from_index ::
    "ConnId \<Rightarrow> SubId \<Rightarrow> nostr_filter list \<Rightarrow> CommunityId \<Rightarrow> SubscriptionScope \<Rightarrow>
     SubscriptionRegistry \<Rightarrow> SubscriptionRegistry" where
  "remove_from_index conn_id sub_id filters community_id scope r =
     (case scope of
        Channels chs \<Rightarrow>
          fold (\<lambda>ch_id.
            case extract_kinds_from_filters filters of
              None \<Rightarrow> channel_wildcard_index_update (ix_drop (community_id, ch_id) (conn_id, sub_id))
            | Some kinds \<Rightarrow>
                if kinds = [] then id
                else fold (\<lambda>kind. channel_kind_index_update
                       (ix_drop (community_id, \<lparr>ik_channel_id = ch_id, ik_kind = kind\<rparr>) (conn_id, sub_id))) kinds) chs r
      | Global \<Rightarrow>
          (case extract_global_p_kind_index_keys community_id filters of
             Some keys \<Rightarrow> fold (\<lambda>key. global_p_kind_index_update (ix_drop key (conn_id, sub_id))) keys r
           | None \<Rightarrow>
               (case extract_kinds_from_filters filters of
                  None \<Rightarrow> global_wildcard_index_update (ix_drop community_id (conn_id, sub_id)) r
                | Some kinds \<Rightarrow>
                    if kinds = [] then r
                    else fold (\<lambda>kind. global_kind_index_update (ix_drop (community_id, kind) (conn_id, sub_id))) kinds r)))"

definition remove_subscription ::
    "SubscriptionRegistry \<Rightarrow> ConnId \<Rightarrow> SubId \<Rightarrow> SubscriptionRegistry \<times> RemovedSubscription option"
where
  "remove_subscription r conn_id sub_id =
     (case hm_get (subs r) conn_id of
        None \<Rightarrow> (r, None)
      | Some conn_subs \<Rightarrow>
          (case hm_get conn_subs sub_id of
             None \<Rightarrow> (r, None)
           | Some (filters, community_id, scope) \<Rightarrow>
               let r1 = r\<lparr>subs := hm_insert conn_id (hm_remove sub_id conn_subs) (subs r)\<rparr>;
                   r2 = remove_from_index conn_id sub_id filters community_id scope r1
               in (r2\<lparr>gauge := gauge r2 - 1\<rparr>,
                   Some \<lparr>rs_community_id = community_id, rs_scope = scope\<rparr>)))"

definition register_with_scope ::
    "SubscriptionRegistry \<Rightarrow> CommunityId \<Rightarrow> ConnId \<Rightarrow> SubId \<Rightarrow> nostr_filter list \<Rightarrow>
     SubscriptionScope \<Rightarrow> SubscriptionRegistry \<times> RemovedSubscription option" where
  "register_with_scope r community_id conn_id sub_id filters scope =
     (let (r1, removed) = remove_subscription r conn_id sub_id;
          r2 = r1\<lparr>subs := hm_insert conn_id
                   (hm_insert sub_id (filters, community_id, scope) (hm_list (subs r1) conn_id))
                   (subs r1),
                  gauge := gauge r1 + 1\<rparr>
      in (add_to_index (conn_id, sub_id) filters community_id scope r2, removed))"

definition register_scoped ::
    "SubscriptionRegistry \<Rightarrow> CommunityId \<Rightarrow> ConnId \<Rightarrow> SubId \<Rightarrow> nostr_filter list \<Rightarrow>
     uuid option \<Rightarrow> SubscriptionRegistry \<times> RemovedSubscription option" where
  "register_scoped r community_id conn_id sub_id filters channel_id =
     register_with_scope r community_id conn_id sub_id filters
       (case channel_id of Some ch \<Rightarrow> Channels [ch] | None \<Rightarrow> Global)"

definition register_channels_scoped ::
    "SubscriptionRegistry \<Rightarrow> CommunityId \<Rightarrow> ConnId \<Rightarrow> SubId \<Rightarrow> nostr_filter list \<Rightarrow>
     uuid list \<Rightarrow> SubscriptionRegistry \<times> RemovedSubscription option" where
  "register_channels_scoped r community_id conn_id sub_id filters chs =
     register_with_scope r community_id conn_id sub_id filters (Channels chs)"

definition remove_connection ::
    "SubscriptionRegistry \<Rightarrow> ConnId \<Rightarrow> SubscriptionRegistry \<times> RemovedSubscription list" where
  "remove_connection r conn_id =
     (case hm_get (subs r) conn_id of
        None \<Rightarrow> (r, [])
      | Some conn_subs \<Rightarrow>
          let r1 = r\<lparr>subs := hm_remove conn_id (subs r)\<rparr>;
              r2 = fold (\<lambda>(sub_id, filters, community_id, scope) r.
                     remove_from_index conn_id sub_id filters community_id scope r) conn_subs r1
          in (r2\<lparr>gauge := gauge r2 - int (length conn_subs)\<rparr>,
              map (\<lambda>(sub_id, filters, community_id, scope).
                \<lparr>rs_community_id = community_id, rs_scope = scope\<rparr>) conn_subs))"

text \<open>One revocation, after the guards of the loop body: drop the channel from the scope and the
  index, and the whole subscription when no channel is left.\<close>

definition revoke_entry ::
    "CommunityId \<Rightarrow> ConnId \<Rightarrow> uuid \<Rightarrow> SubscriptionRegistry \<Rightarrow> (SubId, SubEntry) hmap \<Rightarrow> SubId \<Rightarrow>
     nostr_filter list \<Rightarrow> CommunityId \<Rightarrow> uuid list \<Rightarrow> SubscriptionRegistry" where
  "revoke_entry community_id conn_id channel_id r conn_subs sub_id filters sub_community_id chs =
     (let chs' = filter (\<lambda>candidate. candidate \<noteq> channel_id) chs;
          r1 = r\<lparr>subs := hm_insert conn_id
                 (hm_insert sub_id (filters, sub_community_id, Channels chs') conn_subs) (subs r)\<rparr>;
          r2 = remove_from_index conn_id sub_id filters community_id (Channels [channel_id]) r1
      in if chs' = []
         then r2\<lparr>subs := hm_insert conn_id (hm_remove sub_id (hm_list (subs r2) conn_id)) (subs r2),
                 gauge := gauge r2 - 1\<rparr>
         else r2)"

text \<open>The revocation loop, with its \<open>break\<close> and \<open>continue\<close> exits.\<close>

fun revoke_loop ::
    "CommunityId \<Rightarrow> ConnId \<Rightarrow> uuid \<Rightarrow> SubscriptionRegistry \<Rightarrow> ChannelSubscriptionUpdate list \<Rightarrow>
     SubId list \<Rightarrow> SubscriptionRegistry \<times> ChannelSubscriptionUpdate list" where
  "revoke_loop community_id conn_id channel_id r updates [] = (r, updates)"
| "revoke_loop community_id conn_id channel_id r updates (sub_id # sub_ids) =
     (case hm_get (subs r) conn_id of
        None \<Rightarrow> (r, updates)
      | Some conn_subs \<Rightarrow>
          (case hm_get conn_subs sub_id of
             Some (filters, sub_community_id, Channels chs) \<Rightarrow>
               revoke_loop community_id conn_id channel_id
                 (revoke_entry community_id conn_id channel_id r conn_subs sub_id filters
                    sub_community_id chs)
                 (updates @ [\<lparr>cu_sub_id = sub_id,
                    cu_removed = (filter (\<lambda>candidate. candidate \<noteq> channel_id) chs = [])\<rparr>]) sub_ids
           | _ \<Rightarrow> revoke_loop community_id conn_id channel_id r updates sub_ids))"

definition remove_channel_subscriptions_scoped ::
    "SubscriptionRegistry \<Rightarrow> CommunityId \<Rightarrow> ConnId \<Rightarrow> uuid \<Rightarrow>
     SubscriptionRegistry \<times> ChannelSubscriptionUpdate list" where
  "remove_channel_subscriptions_scoped r community_id conn_id channel_id =
     (let sub_ids =
        (case hm_get (subs r) conn_id of
           None \<Rightarrow> []
         | Some conn_subs \<Rightarrow>
             map fst (filter (\<lambda>(sub_id, filters, sub_community_id, scope).
               sub_community_id = community_id \<and> channel_id \<in> set (channel_ids scope)) conn_subs))
      in revoke_loop community_id conn_id channel_id r [] sub_ids)"

subsection \<open>Queries\<close>

definition channel_subscriber_conns_scoped ::
    "SubscriptionRegistry \<Rightarrow> CommunityId \<Rightarrow> uuid \<Rightarrow> ConnId list" where
  "channel_subscriber_conns_scoped r community_id channel_id =
     (let conns = fold (\<lambda>(key, es) conns.
            if fst key = community_id \<and> ik_channel_id (snd key) = channel_id
            then push_new conns (map fst es) else conns) (channel_kind_index r) []
      in case hm_get (channel_wildcard_index r) (community_id, channel_id) of
           Some es \<Rightarrow> push_new conns (map fst es)
         | None \<Rightarrow> conns)"

text \<open>\<open>seen\<close> holds exactly the pairs already in \<open>results\<close>.\<close>

definition push_match ::
    "SubscriptionRegistry \<Rightarrow> CommunityId \<Rightarrow> StoredEvent \<Rightarrow> (ConnId \<times> SubId) \<Rightarrow> posting \<Rightarrow> posting" where
  "push_match r community_id event e results =
     (case hm_get (subs r) (fst e) of
        None \<Rightarrow> results
      | Some conn_subs \<Rightarrow>
          (case hm_get conn_subs (snd e) of
             None \<Rightarrow> results
           | Some (filters, sub_community_id, scope) \<Rightarrow>
               if sub_community_id = community_id \<and> matches_channel scope (se_channel_id event)
                  \<and> filters_match filters event
               then (if e \<in> set results then results else results @ [e])
               else results))"

definition fan_out_scoped ::
    "SubscriptionRegistry \<Rightarrow> CommunityId \<Rightarrow> StoredEvent \<Rightarrow> posting" where
  "fan_out_scoped r community_id event =
     (let push = push_match r community_id event; kind = ev_kind (se_event event) in
      case se_channel_id event of
        Some channel_id \<Rightarrow>
          (let res1 = fold push (hm_list (channel_kind_index r)
                        (community_id, \<lparr>ik_channel_id = channel_id, ik_kind = kind\<rparr>)) []
           in fold push (hm_list (channel_wildcard_index r) (community_id, channel_id)) res1)
      | None \<Rightarrow>
          (let res1 = fold (\<lambda>p. fold push (hm_list (global_p_kind_index r)
                        \<lparr>gk_community_id = community_id, gk_kind = kind, gk_p = p\<rparr>))
                        (event_p_tag_values event) [];
               res2 = fold push (hm_list (global_kind_index r) (community_id, kind)) res1
           in fold push (hm_list (global_wildcard_index r) community_id) res2))"

definition get_filters :: "SubscriptionRegistry \<Rightarrow> ConnId \<Rightarrow> SubId \<Rightarrow> nostr_filter list option" where
  "get_filters r conn_id sub_id =
     (case hm_get (subs r) conn_id of
        None \<Rightarrow> None
      | Some conn_subs \<Rightarrow> map_option fst (hm_get conn_subs sub_id))"

definition total_subscriptions :: "SubscriptionRegistry \<Rightarrow> nat" where
  "total_subscriptions r = sum_list (map (\<lambda>(conn_id, conn_subs). length conn_subs) (subs r))"

definition total_connections :: "SubscriptionRegistry \<Rightarrow> nat" where
  "total_connections r = length (subs r)"

definition per_community_subscriptions :: "SubscriptionRegistry \<Rightarrow> (CommunityId, nat) hmap" where
  "per_community_subscriptions r =
     fold (\<lambda>(conn_id, conn_subs). fold (\<lambda>(sub_id, filters, community_id, scope) counts.
         hm_insert community_id
           ((case hm_get counts community_id of None \<Rightarrow> 0 | Some n \<Rightarrow> n) + 1) counts) conn_subs)
       (subs r) []"

subsection \<open>The posting-index interface\<close>

text \<open>
  What the registry needs of an index: adding or dropping one posting changes the posting set
  of its own key only, and no key with an empty posting list is left behind.
\<close>

locale posting_index =
  fixes add :: "'k \<Rightarrow> 'e \<Rightarrow> 'i \<Rightarrow> 'i"
    and del :: "'k \<Rightarrow> 'e \<Rightarrow> 'i \<Rightarrow> 'i"
    and post :: "'i \<Rightarrow> 'k \<Rightarrow> 'e set"
  assumes post_add: "post (add k e i) k' = (if k' = k then insert e (post i k') else post i k')"
    and post_del: "post (del k e i) k' = (if k' = k then post i k' - {e} else post i k')"
begin

lemma post_add_all:
  "post (fold (\<lambda>k. add (f k) e) ks i) k' =
     (if k' \<in> f ` set ks then insert e (post i k') else post i k')"
  by (induction ks arbitrary: i) (auto simp: post_add)

lemma post_del_all:
  "post (fold (\<lambda>k. del (f k) e) ks i) k' =
     (if k' \<in> f ` set ks then post i k' - {e} else post i k')"
  by (induction ks arbitrary: i) (auto simp: post_del)

lemma post_add_nested:
  "post (fold (\<lambda>c. fold (\<lambda>k. add (f c k) e) ks) cs i) k' =
     (if k' \<in> (\<lambda>(c, k). f c k) ` (set cs \<times> set ks) then insert e (post i k') else post i k')"
  by (induction cs arbitrary: i) (auto simp: post_add_all)

lemma post_del_nested:
  "post (fold (\<lambda>c. fold (\<lambda>k. del (f c k) e) ks) cs i) k' =
     (if k' \<in> (\<lambda>(c, k). f c k) ` (set cs \<times> set ks) then post i k' - {e} else post i k')"
  by (induction cs arbitrary: i) (auto simp: post_del_all)

end

locale compact_index = posting_index +
  fixes compact :: "'i \<Rightarrow> bool"
  assumes compact_add: "compact i \<Longrightarrow> compact (add k e i)"
    and compact_del: "compact i \<Longrightarrow> compact (del k e i)"
begin

lemma compact_add_all: "compact i \<Longrightarrow> compact (fold (\<lambda>k. add (f k) e) ks i)"
  by (induction ks arbitrary: i) (auto simp: compact_add)

lemma compact_del_all: "compact i \<Longrightarrow> compact (fold (\<lambda>k. del (f k) e) ks i)"
  by (induction ks arbitrary: i) (auto simp: compact_del)

lemma compact_add_nested: "compact i \<Longrightarrow> compact (fold (\<lambda>c. fold (\<lambda>k. add (f c k) e) ks) cs i)"
  by (induction cs arbitrary: i) (auto simp: compact_add_all)

lemma compact_del_nested: "compact i \<Longrightarrow> compact (fold (\<lambda>c. fold (\<lambda>k. del (f c k) e) ks) cs i)"
  by (induction cs arbitrary: i) (auto simp: compact_del_all)

end

definition ix_compact :: "('k, 'e list) hmap \<Rightarrow> bool" where
  "ix_compact index \<longleftrightarrow> hm_wf index \<and> [] \<notin> snd ` set index"

lemma ix_compact_insert: "ix_compact index \<Longrightarrow> es \<noteq> [] \<Longrightarrow> ix_compact (hm_insert key es index)"
  unfolding ix_compact_def using hm_insert_set [of key es index] by auto

lemma ix_compact_remove: "ix_compact index \<Longrightarrow> ix_compact (hm_remove key index)"
  unfolding ix_compact_def using hm_remove_set [of key index] by auto

interpretation dash_ix: compact_index ix_push ix_drop "\<lambda>index key. set (hm_list index key)" ix_compact
proof
  show "set (hm_list (ix_push k e i) k') =
      (if k' = k then insert e (set (hm_list i k')) else set (hm_list i k'))" for k e i k'
    by (auto simp: ix_push_def)
  show "set (hm_list (ix_drop k e i) k') =
      (if k' = k then set (hm_list i k') - {e} else set (hm_list i k'))" for k e i k'
    by (cases "hm_get i k") (auto simp: ix_drop_def ix_retain_def hm_list_def Let_def filter_empty_conv)
  show "ix_compact i \<Longrightarrow> ix_compact (ix_push k e i)" for i k e
    by (simp add: ix_push_def ix_compact_insert)
  show "ix_compact i \<Longrightarrow> ix_compact (ix_drop k e i)" for i k e
  proof -
    assume i: "ix_compact i"
    have "hm_remove k (hm_insert k v i) = hm_remove k i" for v
      by (induction i) auto
    then show "ix_compact (ix_drop k e i)" using i
      by (cases "hm_get i k")
         (simp_all add: ix_drop_def ix_retain_def Let_def ix_compact_insert ix_compact_remove)
  qed
qed

subsection \<open>All five indexes as one\<close>

datatype ixkey =
    ChannelKind CommunityId IndexKey
  | ChannelWildcard CommunityId uuid
  | GlobalKind CommunityId u16
  | GlobalPKind GlobalPKindIndexKey
  | GlobalWildcard CommunityId

fun postings :: "SubscriptionRegistry \<Rightarrow> ixkey \<Rightarrow> (ConnId \<times> SubId) set" where
  "postings r (ChannelKind c key) = set (hm_list (channel_kind_index r) (c, key))"
| "postings r (ChannelWildcard c ch) = set (hm_list (channel_wildcard_index r) (c, ch))"
| "postings r (GlobalKind c k) = set (hm_list (global_kind_index r) (c, k))"
| "postings r (GlobalPKind key) = set (hm_list (global_p_kind_index r) key)"
| "postings r (GlobalWildcard c) = set (hm_list (global_wildcard_index r) c)"

text \<open>The keys under which a subscription is found.\<close>

fun entry_keys :: "SubEntry \<Rightarrow> ixkey set" where
  "entry_keys (filters, c, Channels chs) =
     (case extract_kinds_from_filters filters of
        None \<Rightarrow> ChannelWildcard c ` set chs
      | Some kinds \<Rightarrow>
          (\<lambda>(ch, k). ChannelKind c \<lparr>ik_channel_id = ch, ik_kind = k\<rparr>) ` (set chs \<times> set kinds))"
| "entry_keys (filters, c, Global) =
     (case extract_global_p_kind_index_keys c filters of
        Some keys \<Rightarrow> GlobalPKind ` set keys
      | None \<Rightarrow>
          (case extract_kinds_from_filters filters of
             None \<Rightarrow> {GlobalWildcard c}
           | Some kinds \<Rightarrow> GlobalKind c ` set kinds))"

lemma fold_channel_kind:
  "fold (\<lambda>x. channel_kind_index_update (g x)) xs = channel_kind_index_update (fold g xs)"
  by (induction xs) (auto simp: fun_eq_iff)

lemma fold_channel_wildcard:
  "fold (\<lambda>x. channel_wildcard_index_update (g x)) xs = channel_wildcard_index_update (fold g xs)"
  by (induction xs) (auto simp: fun_eq_iff)

lemma fold_global_kind:
  "fold (\<lambda>x. global_kind_index_update (g x)) xs = global_kind_index_update (fold g xs)"
  by (induction xs) (auto simp: fun_eq_iff)

lemma fold_global_p_kind:
  "fold (\<lambda>x. global_p_kind_index_update (g x)) xs = global_p_kind_index_update (fold g xs)"
  by (induction xs) (auto simp: fun_eq_iff)

lemma if_Nil_fold: "(if xs = [] then id else fold f xs) = fold f xs"
  by simp

lemmas fold_index = if_Nil_fold fold_channel_kind fold_channel_wildcard fold_global_kind fold_global_p_kind

lemma postings_add_to_index:
  "postings (add_to_index e filters c scope r) key =
     (if key \<in> entry_keys (filters, c, scope) then insert e (postings r key) else postings r key)"
proof (cases scope)
  case Global
  then show ?thesis
    by (cases key; cases "extract_global_p_kind_index_keys c filters";
        cases "extract_kinds_from_filters filters")
       (auto simp: add_to_index_def fold_index dash_ix.post_add dash_ix.post_add_all)
next
  case (Channels chs)
  then show ?thesis
    by (cases key; cases "extract_kinds_from_filters filters")
       (auto simp: add_to_index_def fold_index dash_ix.post_add_all dash_ix.post_add_nested)
qed

lemma postings_remove_from_index:
  "postings (remove_from_index conn sub filters c scope r) key =
     (if key \<in> entry_keys (filters, c, scope) then postings r key - {(conn, sub)}
      else postings r key)"
proof (cases scope)
  case Global
  then show ?thesis
    by (cases key; cases "extract_global_p_kind_index_keys c filters";
        cases "extract_kinds_from_filters filters")
       (auto simp: remove_from_index_def fold_index dash_ix.post_del dash_ix.post_del_all)
next
  case (Channels chs)
  then show ?thesis
    by (cases key; cases "extract_kinds_from_filters filters")
       (auto simp: remove_from_index_def fold_index dash_ix.post_del_all dash_ix.post_del_nested)
qed


lemma remove_from_index_frame [simp]:
  "subs (remove_from_index conn sub filters c scope r) = subs r"
  "gauge (remove_from_index conn sub filters c scope r) = gauge r"
  by (auto simp: remove_from_index_def fold_index split: SubscriptionScope.split option.split)

lemma add_to_index_frame [simp]:
  "subs (add_to_index e filters c scope r) = subs r"
  "gauge (add_to_index e filters c scope r) = gauge r"
  by (auto simp: add_to_index_def fold_index split: SubscriptionScope.split option.split)

text \<open>No index keeps a key without postings.\<close>

definition indexes_compact :: "SubscriptionRegistry \<Rightarrow> bool" where
  "indexes_compact r \<longleftrightarrow>
     ix_compact (channel_kind_index r) \<and> ix_compact (channel_wildcard_index r) \<and>
     ix_compact (global_kind_index r) \<and> ix_compact (global_p_kind_index r) \<and>
     ix_compact (global_wildcard_index r)"

lemmas compact_rules =
  dash_ix.compact_add dash_ix.compact_add_all dash_ix.compact_add_nested
  dash_ix.compact_del dash_ix.compact_del_all dash_ix.compact_del_nested

lemma indexes_compact_add: "indexes_compact r \<Longrightarrow> indexes_compact (add_to_index e filters c scope r)"
  by (simp add: indexes_compact_def add_to_index_def fold_index compact_rules
      split: SubscriptionScope.split option.split)

lemma indexes_compact_remove:
  "indexes_compact r \<Longrightarrow> indexes_compact (remove_from_index conn sub filters c scope r)"
  by (simp add: indexes_compact_def remove_from_index_def fold_index compact_rules
      split: SubscriptionScope.split option.split)

subsection \<open>The abstract table\<close>

text \<open>The subscription a client holds under an id: what the registry promises to manage.\<close>

definition sub_lookup :: "SubscriptionRegistry \<Rightarrow> ConnId \<Rightarrow> SubId \<Rightarrow> SubEntry option" where
  "sub_lookup r conn sub = (case hm_get (subs r) conn of None \<Rightarrow> None | Some m \<Rightarrow> hm_get m sub)"

definition agree :: "SubscriptionRegistry \<Rightarrow> bool" where
  "agree r \<longleftrightarrow> (\<forall>key conn sub. (conn, sub) \<in> postings r key \<longleftrightarrow>
     (\<exists>en. sub_lookup r conn sub = Some en \<and> key \<in> entry_keys en))"

definition tables_wf :: "SubscriptionRegistry \<Rightarrow> bool" where
  "tables_wf r \<longleftrightarrow> hm_wf (subs r) \<and> (\<forall>m \<in> snd ` set (subs r). hm_wf m)"

definition reg_inv :: "SubscriptionRegistry \<Rightarrow> bool" where
  "reg_inv r \<longleftrightarrow> tables_wf r \<and> agree r \<and> indexes_compact r \<and>
     gauge r = int (total_subscriptions r)"

lemma postings_subs [simp]:
  "postings (r\<lparr>subs := m\<rparr>) key = postings r key"
  "postings (r\<lparr>gauge := g\<rparr>) key = postings r key"
  by (cases key; simp)+

lemma indexes_compact_subs [simp]:
  "indexes_compact (r\<lparr>subs := m\<rparr>) = indexes_compact r"
  "indexes_compact (r\<lparr>gauge := g\<rparr>) = indexes_compact r"
  by (simp_all add: indexes_compact_def)

lemma sub_lookup_gauge [simp]: "sub_lookup (r\<lparr>gauge := g\<rparr>) conn sub = sub_lookup r conn sub"
  by (simp add: sub_lookup_def)

lemma sub_lookup_index [simp]:
  "sub_lookup (add_to_index e filters c scope r) conn sub = sub_lookup r conn sub"
  "sub_lookup (remove_from_index conn' sub' filters c scope r) conn sub = sub_lookup r conn sub"
  by (simp_all add: sub_lookup_def)

lemma sub_lookup_list: "sub_lookup r conn sub = hm_get (hm_list (subs r) conn) sub"
  by (simp add: sub_lookup_def hm_list_def split: option.split)

lemma sub_lookup_put:
  "sub_lookup (r\<lparr>subs := hm_insert c m (subs r)\<rparr>) conn sub =
     (if conn = c then hm_get m sub else sub_lookup r conn sub)"
  by (simp add: sub_lookup_def)

subsubsection \<open>Counting\<close>

lemma total_put:
  "int (total_subscriptions (r\<lparr>subs := hm_insert c m (subs r)\<rparr>)) =
     int (total_subscriptions r) - int (length (hm_list (subs r) c)) + int (length m)"
proof -
  have "int (sum_list (map (\<lambda>(_, x). length x) (hm_insert c m t))) =
      int (sum_list (map (\<lambda>(_, x). length x) t)) - int (length (hm_list t c)) + int (length m)"
    for t :: "(ConnId, (SubId, SubEntry) hmap) hmap"
    by (induction t) (auto simp: hm_list_def split: option.split)
  then show ?thesis by (simp add: total_subscriptions_def)
qed

lemma total_del:
  "hm_wf (subs r) \<Longrightarrow> int (total_subscriptions (r\<lparr>subs := hm_remove c (subs r)\<rparr>)) =
     int (total_subscriptions r) - int (length (hm_list (subs r) c))"
proof -
  have "hm_wf t \<Longrightarrow> int (sum_list (map (\<lambda>(_, x). length x) (hm_remove c t))) =
      int (sum_list (map (\<lambda>(_, x). length x) t)) - int (length (hm_list t c))"
    for t :: "(ConnId, (SubId, SubEntry) hmap) hmap"
    by (induction t)
       (auto simp: hm_list_def AList.delete_notin_dom rev_image_eqI split: option.split)
  then show "hm_wf (subs r) \<Longrightarrow> ?thesis" by (simp add: total_subscriptions_def)
qed

lemma total_gauge [simp]: "total_subscriptions (r\<lparr>gauge := g\<rparr>) = total_subscriptions r"
  by (simp add: total_subscriptions_def)

lemma total_index [simp]:
  "total_subscriptions (add_to_index e filters c scope r) = total_subscriptions r"
  "total_subscriptions (remove_from_index conn sub filters c scope r) = total_subscriptions r"
  by (simp_all add: total_subscriptions_def)

lemma length_hm_remove:
  "hm_wf m \<Longrightarrow> int (length (hm_remove k m)) = int (length m) - (if hm_get m k = None then 0 else 1)"
  by (induction m) (auto simp: AList.delete_notin_dom hm_get_None_iff rev_image_eqI)

lemma length_hm_insert:
  "int (length (hm_insert k v m)) = int (length m) + (if hm_get m k = None then 1 else 0)"
  by (induction m) auto

declare split_paired_Ex [simp del] split_paired_All [simp del]

subsection \<open>The operations against the abstract table\<close>

lemma agreeD: "agree r \<Longrightarrow> (conn, sub) \<in> postings r key \<longleftrightarrow>
    (\<exists>en. sub_lookup r conn sub = Some en \<and> key \<in> entry_keys en)"
  by (simp add: agree_def)

lemma tables_wf_list: "tables_wf r \<Longrightarrow> hm_wf (hm_list (subs r) conn)"
  by (force simp: tables_wf_def hm_list_def split: option.split dest: map_of_SomeD)

lemma tables_wf_put: "tables_wf r \<Longrightarrow> hm_wf m \<Longrightarrow> tables_wf (r\<lparr>subs := hm_insert c m (subs r)\<rparr>)"
  unfolding tables_wf_def using hm_insert_set [of c m "subs r"] by auto

lemma tables_wf_del: "tables_wf r \<Longrightarrow> tables_wf (r\<lparr>subs := hm_remove c (subs r)\<rparr>)"
  unfolding tables_wf_def using hm_remove_set [of c "subs r"] by auto

lemma tables_wf_frame [simp]:
  "tables_wf (add_to_index e filters c scope r) = tables_wf r"
  "tables_wf (remove_from_index conn sub filters c scope r) = tables_wf r"
  "tables_wf (r\<lparr>gauge := g\<rparr>) = tables_wf r"
  by (simp_all add: tables_wf_def)

text \<open>Removing: the entry disappears from the table, everything else stays.\<close>

lemma remove_subscription_None:
  "sub_lookup r conn sub = None \<Longrightarrow> remove_subscription r conn sub = (r, None)"
  by (auto simp: sub_lookup_def remove_subscription_def split: option.splits)

lemma remove_subscription_Some:
  assumes "sub_lookup r conn sub = Some (filters, c, scope)"
  shows "remove_subscription r conn sub =
    ((remove_from_index conn sub filters c scope
       (r\<lparr>subs := hm_insert conn (hm_remove sub (hm_list (subs r) conn)) (subs r)\<rparr>))
       \<lparr>gauge := gauge r - 1\<rparr>,
     Some \<lparr>rs_community_id = c, rs_scope = scope\<rparr>)"
  using assms
  by (auto simp: sub_lookup_def remove_subscription_def Let_def hm_list_def split: option.splits)

lemma remove_subscription_result:
  "snd (remove_subscription r conn sub) =
     map_option (\<lambda>(filters, c, scope). \<lparr>rs_community_id = c, rs_scope = scope\<rparr>) (sub_lookup r conn sub)"
  by (cases "sub_lookup r conn sub")
     (auto simp: remove_subscription_None remove_subscription_Some)

lemma sub_lookup_remove_subscription:
  "sub_lookup (fst (remove_subscription r conn sub)) conn' sub' =
     (if conn' = conn \<and> sub' = sub then None else sub_lookup r conn' sub')"
  by (cases "sub_lookup r conn sub")
     (auto simp: remove_subscription_None remove_subscription_Some sub_lookup_put
        sub_lookup_list [of r conn])

lemma agree_remove_subscription:
  assumes "agree r" shows "agree (fst (remove_subscription r conn sub))"
proof (cases "sub_lookup r conn sub")
  case (Some en)
  obtain filters c scope where en: "en = (filters, c, scope)" by (cases en)
  show ?thesis
    unfolding agree_def sub_lookup_remove_subscription
    using assms Some
    by (auto simp: remove_subscription_Some en postings_remove_from_index agreeD)
qed (simp add: remove_subscription_None assms)

lemma reg_inv_remove_subscription:
  assumes "reg_inv r" shows "reg_inv (fst (remove_subscription r conn sub))"
proof (cases "sub_lookup r conn sub")
  case (Some en)
  obtain filters c scope where en: "en = (filters, c, scope)" by (cases en)
  have wf: "tables_wf r" "hm_wf (hm_list (subs r) conn)" using assms
    by (simp_all add: reg_inv_def tables_wf_list)
  have "hm_get (hm_list (subs r) conn) sub = Some en" using Some by (simp add: sub_lookup_list)
  with wf assms Some agree_remove_subscription [of r conn sub] show ?thesis
    by (simp add: reg_inv_def remove_subscription_Some en tables_wf_put indexes_compact_remove
        total_put length_hm_remove)
qed (simp add: remove_subscription_None assms)

text \<open>Registering: the entry replaces whatever the client held under that id.\<close>

lemma sub_lookup_register:
  "sub_lookup (fst (register_with_scope r c conn sub filters scope)) conn' sub' =
     (if conn' = conn \<and> sub' = sub then Some (filters, c, scope) else sub_lookup r conn' sub')"
  using sub_lookup_remove_subscription [of r conn sub conn' sub']
  by (auto simp: register_with_scope_def case_prod_beta Let_def sub_lookup_list)

lemma register_result:
  "snd (register_with_scope r c conn sub filters scope) = snd (remove_subscription r conn sub)"
  by (simp add: register_with_scope_def case_prod_beta Let_def)

lemma reg_inv_register:
  assumes "reg_inv r" shows "reg_inv (fst (register_with_scope r c conn sub filters scope))"
proof -
  define r1 where "r1 = fst (remove_subscription r conn sub)"
  define r2 where "r2 = r1\<lparr>subs := hm_insert conn (hm_insert sub (filters, c, scope)
     (hm_list (subs r1) conn)) (subs r1), gauge := gauge r1 + 1\<rparr>"
  have inv1: "reg_inv r1" unfolding r1_def by (rule reg_inv_remove_subscription [OF assms])
  have gone: "sub_lookup r1 conn sub = None" by (simp add: r1_def sub_lookup_remove_subscription)
  have eq: "fst (register_with_scope r c conn sub filters scope) =
      add_to_index (conn, sub) filters c scope r2"
    by (simp add: register_with_scope_def case_prod_beta Let_def r1_def r2_def)
  have look: "sub_lookup r2 conn' sub' =
      (if conn' = conn \<and> sub' = sub then Some (filters, c, scope) else sub_lookup r1 conn' sub')"
    for conn' sub' by (simp add: r2_def sub_lookup_put sub_lookup_list)
  have "agree (add_to_index (conn, sub) filters c scope r2)"
    using inv1 gone unfolding agree_def sub_lookup_index look
    by (auto simp: reg_inv_def postings_add_to_index r2_def agreeD)
  moreover have "tables_wf r2" using inv1
    by (simp add: r2_def reg_inv_def tables_wf_put tables_wf_list)
  moreover have "indexes_compact r2" using inv1 by (simp add: r2_def reg_inv_def)
  moreover have "gauge r2 = int (total_subscriptions r2)"
    using inv1 gone by (simp add: r2_def reg_inv_def total_put length_hm_insert sub_lookup_list)
  ultimately show ?thesis by (simp add: eq reg_inv_def indexes_compact_add)
qed

text \<open>Disconnecting: every entry of the connection disappears.\<close>

lemma remove_all_frame [simp]:
  "subs (fold (\<lambda>(sub, filters, c, scope) r. remove_from_index conn sub filters c scope r) cs r) = subs r"
  "gauge (fold (\<lambda>(sub, filters, c, scope) r. remove_from_index conn sub filters c scope r) cs r) = gauge r"
  by (induction cs arbitrary: r; auto)+

lemma postings_remove_all:
  "postings (fold (\<lambda>(sub, filters, c, scope) r. remove_from_index conn sub filters c scope r) cs r) key =
     postings r key - {conn} \<times> {sub. \<exists>en. (sub, en) \<in> set cs \<and> key \<in> entry_keys en}"
proof (induction cs arbitrary: r)
  case (Cons p cs)
  obtain sub filters c scope where p: "p = (sub, filters, c, scope)" by (cases p)
  show ?case by (auto simp: p Cons.IH postings_remove_from_index)
qed simp

lemma indexes_compact_remove_all:
  "indexes_compact r \<Longrightarrow>
     indexes_compact (fold (\<lambda>(sub, filters, c, scope) r. remove_from_index conn sub filters c scope r) cs r)"
  by (induction cs arbitrary: r) (auto simp: indexes_compact_remove)

lemma sub_lookup_remove_connection:
  "sub_lookup (fst (remove_connection r conn)) conn' sub =
     (if conn' = conn then None else sub_lookup r conn' sub)"
  by (auto simp: remove_connection_def sub_lookup_def Let_def split: option.split)

lemma reg_inv_remove_connection:
  assumes inv: "reg_inv r" shows "reg_inv (fst (remove_connection r conn))"
proof (cases "hm_get (subs r) conn")
  case None
  then show ?thesis using inv by (simp add: remove_connection_def)
next
  case (Some m)
  define r' where "r' = fst (remove_connection r conn)"
  have l: "hm_list (subs r) conn = m" using Some by (simp add: hm_list_def)
  have wf: "tables_wf r" "hm_wf m" "hm_wf (subs r)"
    using inv tables_wf_list [of r conn] l by (simp_all add: reg_inv_def tables_wf_def)
  have m: "(sub, en) \<in> set m \<longleftrightarrow> sub_lookup r conn sub = Some en" for sub en
    using Some wf by (simp add: sub_lookup_def)
  have gone: "(\<exists>en. (sub, en) \<in> set m \<and> key \<in> entry_keys en) \<longleftrightarrow> (conn, sub) \<in> postings r key"
    for sub key using inv by (simp add: m reg_inv_def agreeD)
  have post: "(c, sub) \<in> postings r' key \<longleftrightarrow> (c, sub) \<in> postings r key \<and> c \<noteq> conn" for c sub key
    by (auto simp: r'_def remove_connection_def Some Let_def postings_remove_all gone)
  have look: "sub_lookup r' c sub = (if c = conn then None else sub_lookup r c sub)" for c sub
    by (simp add: r'_def sub_lookup_remove_connection)
  have "agree r'"
    unfolding agree_def post look using inv by (simp add: reg_inv_def agreeD)
  moreover have "tables_wf r'"
    using wf tables_wf_del [of r conn] by (simp add: r'_def remove_connection_def Some Let_def tables_wf_def)
  moreover have "indexes_compact r'" using inv
    by (simp add: r'_def remove_connection_def Some Let_def reg_inv_def indexes_compact_remove_all)
  moreover have "gauge r' = int (total_subscriptions r')"
    using inv total_del [OF wf(3), of conn]
    by (simp add: r'_def remove_connection_def Some Let_def reg_inv_def l total_subscriptions_def)
  ultimately show ?thesis unfolding reg_inv_def r'_def by blast
qed

text \<open>Revoking a channel: the channel leaves the scope, and the entry goes with its last channel.\<close>

definition in_channel :: "CommunityId \<Rightarrow> uuid \<Rightarrow> SubEntry \<Rightarrow> bool" where
  "in_channel community channel_id en \<longleftrightarrow>
     (case en of (filters, c, scope) \<Rightarrow> c = community \<and> channel_id \<in> set (channel_ids scope))"

fun revoked :: "uuid \<Rightarrow> SubEntry \<Rightarrow> SubEntry option" where
  "revoked channel_id (filters, c, Channels chs) =
     (let chs' = filter (\<lambda>x. x \<noteq> channel_id) chs
      in if chs' = [] then None else Some (filters, c, Channels chs'))"
| "revoked channel_id (filters, c, Global) = Some (filters, c, Global)"

lemma entry_keys_filter:
  "entry_keys (filters, c, Channels (filter (\<lambda>x. x \<noteq> ch) chs)) =
     entry_keys (filters, c, Channels chs) - entry_keys (filters, c, Channels [ch])"
  by (cases "extract_kinds_from_filters filters") auto

lemma entry_keys_covered:
  "filter (\<lambda>x. x \<noteq> ch) chs = [] \<Longrightarrow>
     entry_keys (filters, c, Channels chs) \<subseteq> entry_keys (filters, c, Channels [ch])"
  using entry_keys_filter [of filters c ch chs]
  by (cases "extract_kinds_from_filters filters") (auto simp: filter_empty_conv)

lemma revoke_entry_lookup:
  assumes "hm_get (subs r) conn = Some m"
  shows "sub_lookup (revoke_entry community conn ch r m sub filters c chs) conn' sub' =
    (if conn' = conn \<and> sub' = sub then revoked ch (filters, c, Channels chs)
     else sub_lookup r conn' sub')"
  using assms by (auto simp: revoke_entry_def Let_def sub_lookup_list hm_list_def)

lemma revoke_entry_postings:
  "postings (revoke_entry community conn ch r m sub filters c chs) key =
    (if key \<in> entry_keys (filters, community, Channels [ch]) then postings r key - {(conn, sub)}
     else postings r key)"
  by (simp add: revoke_entry_def Let_def postings_remove_from_index)

lemma revoke_entry_agree:
  assumes ag: "agree r" and m: "hm_get (subs r) conn = Some m"
    and en: "hm_get m sub = Some (filters, c, Channels chs)"
  shows "agree (revoke_entry c conn ch r m sub filters c chs)"
  unfolding agree_def
proof (intro allI)
  fix key conn' sub'
  have "sub_lookup r conn sub = Some (filters, c, Channels chs)"
    using m en by (simp add: sub_lookup_def)
  then show "((conn', sub') \<in> postings (revoke_entry c conn ch r m sub filters c chs) key) =
      (\<exists>en. sub_lookup (revoke_entry c conn ch r m sub filters c chs) conn' sub' = Some en \<and>
        key \<in> entry_keys en)"
    unfolding revoke_entry_lookup [OF m] revoke_entry_postings
    using ag entry_keys_covered [of ch chs filters c]
    by (auto simp: agreeD Let_def entry_keys_filter simp del: entry_keys.simps)
qed

lemma revoke_entry_subs:
  "subs (revoke_entry community conn ch r m sub filters c chs) =
     hm_insert conn (case revoked ch (filters, c, Channels chs) of
        None \<Rightarrow> hm_remove sub m | Some en \<Rightarrow> hm_insert sub en m) (subs r)"
  by (simp add: revoke_entry_def Let_def AList.delete_update_same)

lemma revoke_entry_gauge:
  "gauge (revoke_entry community conn ch r m sub filters c chs) =
     gauge r - (if revoked ch (filters, c, Channels chs) = None then 1 else 0)"
  by (simp add: revoke_entry_def Let_def)

lemma tables_wf_subs:
  "subs r' = hm_insert c m (subs r) \<Longrightarrow> tables_wf r \<Longrightarrow> hm_wf m \<Longrightarrow> tables_wf r'"
  using tables_wf_put [where r = r and c = c and m = m] by (simp add: tables_wf_def)

lemma total_subs:
  "subs r' = hm_insert c m (subs r) \<Longrightarrow> int (total_subscriptions r') =
     int (total_subscriptions r) - int (length (hm_list (subs r) c)) + int (length m)"
  using total_put [where r = r and c = c and m = m] by (simp add: total_subscriptions_def)

lemma length_hm_insert_same: "hm_get m k = Some v' \<Longrightarrow> length (hm_insert k v m) = length m"
  using length_hm_insert [of k v m] by simp

lemma revoke_entry_inv:
  assumes inv: "reg_inv r" and m: "hm_get (subs r) conn = Some m"
    and en: "hm_get m sub = Some (filters, c, Channels chs)"
  shows "reg_inv (revoke_entry c conn ch r m sub filters c chs)"
proof -
  let ?r' = "revoke_entry c conn ch r m sub filters c chs"
  have l: "hm_list (subs r) conn = m" using m by (simp add: hm_list_def)
  have wf: "tables_wf r" "hm_wf m" using inv tables_wf_list [of r conn] l by (simp_all add: reg_inv_def)
  have "tables_wf ?r'"
    by (rule tables_wf_subs [OF revoke_entry_subs wf(1)]) (simp add: wf split: option.split)
  moreover have "agree ?r'" using inv m en by (simp add: reg_inv_def revoke_entry_agree)
  moreover have "indexes_compact ?r'" using inv
    by (simp add: revoke_entry_def Let_def reg_inv_def indexes_compact_remove)
  moreover have "gauge ?r' = int (total_subscriptions ?r')"
    unfolding total_subs [OF revoke_entry_subs] revoke_entry_gauge
    using inv length_hm_remove [OF wf(2), of sub]
    by (simp add: l en reg_inv_def length_hm_insert_same [OF en] Let_def del: map_of_eq_Some_iff)
  ultimately show ?thesis unfolding reg_inv_def by blast
qed

text \<open>What a run of the loop does, as one statement for the induction.\<close>

definition revoke_ok ::
    "uuid \<Rightarrow> ConnId \<Rightarrow> SubscriptionRegistry \<Rightarrow> ChannelSubscriptionUpdate list \<Rightarrow> SubId list \<Rightarrow>
     SubscriptionRegistry \<times> ChannelSubscriptionUpdate list \<Rightarrow> bool" where
  "revoke_ok ch conn r updates sub_ids res \<longleftrightarrow>
     reg_inv (fst res) \<and>
     (\<forall>conn' sub. sub_lookup (fst res) conn' sub =
       (if conn' = conn \<and> sub \<in> set sub_ids then revoked ch (the (sub_lookup r conn' sub))
        else sub_lookup r conn' sub)) \<and>
     snd res = updates @ map (\<lambda>s. \<lparr>cu_sub_id = s,
       cu_removed = (revoked ch (the (sub_lookup r conn s)) = None)\<rparr>) sub_ids"

lemma revoke_loop_ok:
  assumes "reg_inv r" "distinct sub_ids"
    and "\<And>s. s \<in> set sub_ids \<Longrightarrow> \<exists>f chs. sub_lookup r conn s = Some (f, c, Channels chs)"
  shows "revoke_ok ch conn r updates sub_ids (revoke_loop c conn ch r updates sub_ids)"
  using assms
proof (induction sub_ids arbitrary: r updates)
  case Nil
  then show ?case by (simp add: revoke_ok_def)
next
  case (Cons s sub_ids)
  obtain f chs where look: "sub_lookup r conn s = Some (f, c, Channels chs)"
    using Cons.prems(3) [of s] by auto
  then obtain m where m: "hm_get (subs r) conn = Some m" and en: "hm_get m s = Some (f, c, Channels chs)"
    by (auto simp: sub_lookup_def split: option.splits)
  let ?r = "revoke_entry c conn ch r m s f c chs"
  let ?u = "updates @ [\<lparr>cu_sub_id = s, cu_removed = (filter (\<lambda>x. x \<noteq> ch) chs = [])\<rparr>]"
  have "revoke_ok ch conn ?r ?u sub_ids (revoke_loop c conn ch ?r ?u sub_ids)"
  proof (rule Cons.IH)
    show "reg_inv ?r" by (rule revoke_entry_inv [OF Cons.prems(1) m en])
    show "distinct sub_ids" using Cons.prems(2) by simp
    show "\<exists>f chs. sub_lookup ?r conn s' = Some (f, c, Channels chs)" if "s' \<in> set sub_ids" for s'
      using that Cons.prems(2,3) by (auto simp: revoke_entry_lookup [OF m])
  qed
  moreover have "revoke_loop c conn ch r updates (s # sub_ids) = revoke_loop c conn ch ?r ?u sub_ids"
    using m en by (simp del: map_of_eq_Some_iff)
  moreover have "map (\<lambda>s. \<lparr>cu_sub_id = s, cu_removed = (revoked ch (the (sub_lookup ?r conn s)) = None)\<rparr>) sub_ids
      = map (\<lambda>s. \<lparr>cu_sub_id = s, cu_removed = (revoked ch (the (sub_lookup r conn s)) = None)\<rparr>) sub_ids"
    using Cons.prems(2) by (auto simp: revoke_entry_lookup [OF m])
  ultimately show ?case
    using Cons.prems(2) look by (auto simp: revoke_ok_def revoke_entry_lookup [OF m] Let_def)
qed

lemma remove_channel_ok:
  assumes inv: "reg_inv r"
  shows "\<exists>sub_ids. distinct sub_ids \<and>
    set sub_ids = {s. \<exists>en. sub_lookup r conn s = Some en \<and> in_channel c ch en} \<and>
    revoke_ok ch conn r [] sub_ids (remove_channel_subscriptions_scoped r c conn ch)"
proof -
  define sub_ids where "sub_ids = map fst (filter (\<lambda>(sub_id, filters, sub_community_id, scope).
      sub_community_id = c \<and> ch \<in> set (channel_ids scope)) (hm_list (subs r) conn))"
  have wf: "hm_wf (hm_list (subs r) conn)" using inv by (simp add: reg_inv_def tables_wf_list)
  have mem: "s \<in> set sub_ids \<longleftrightarrow> (\<exists>en. sub_lookup r conn s = Some en \<and> in_channel c ch en)" for s
    using wf by (force simp: sub_ids_def sub_lookup_list in_channel_def)
  have run: "remove_channel_subscriptions_scoped r c conn ch = revoke_loop c conn ch r [] sub_ids"
    by (simp add: remove_channel_subscriptions_scoped_def sub_ids_def hm_list_def Let_def
        split: option.split)
  have "revoke_ok ch conn r [] sub_ids (revoke_loop c conn ch r [] sub_ids)"
  proof (rule revoke_loop_ok [OF inv])
    show "distinct sub_ids" using wf by (simp add: sub_ids_def)
    show "\<exists>f chs. sub_lookup r conn s = Some (f, c, Channels chs)" if s: "s \<in> set sub_ids" for s
    proof -
      obtain f c' scope where "sub_lookup r conn s = Some (f, c', scope)" "c' = c" "ch \<in> set (channel_ids scope)"
        using s mem [of s] by (auto simp: in_channel_def)
      then show ?thesis by (cases scope) auto
    qed
  qed
  moreover have "distinct sub_ids" using wf by (simp add: sub_ids_def)
  ultimately show ?thesis using mem run by (intro exI [of _ sub_ids]) auto
qed

lemma reg_inv_remove_channel:
  "reg_inv r \<Longrightarrow> reg_inv (fst (remove_channel_subscriptions_scoped r c conn ch))"
  using remove_channel_ok by (auto simp: revoke_ok_def)

lemma sub_lookup_remove_channel:
  "reg_inv r \<Longrightarrow> sub_lookup (fst (remove_channel_subscriptions_scoped r c conn ch)) conn' sub =
     Option.bind (sub_lookup r conn' sub)
       (\<lambda>en. if conn' = conn \<and> in_channel c ch en then revoked ch en else Some en)"
  using remove_channel_ok [of r conn c ch]
  by (cases "sub_lookup r conn' sub") (auto simp: revoke_ok_def)

subsection \<open>Reachable registries\<close>

inductive reg_step :: "SubscriptionRegistry \<Rightarrow> SubscriptionRegistry \<Rightarrow> bool" where
  step_register: "reg_step r (fst (register_scoped r c conn sub filters channel_id))"
| step_register_channels: "reg_step r (fst (register_channels_scoped r c conn sub filters chs))"
| step_remove: "reg_step r (fst (remove_subscription r conn sub))"
| step_disconnect: "reg_step r (fst (remove_connection r conn))"
| step_revoke: "reg_step r (fst (remove_channel_subscriptions_scoped r c conn ch))"

abbreviation reg_reach :: "SubscriptionRegistry \<Rightarrow> bool" where
  "reg_reach \<equiv> reach (\<lambda>r. r = SubscriptionRegistry_new) reg_step"

lemma reg_inv_new: "reg_inv SubscriptionRegistry_new"
proof -
  have "postings SubscriptionRegistry_new key = {}" for key
    by (cases key) (simp_all add: SubscriptionRegistry_new_def)
  then show ?thesis
    by (simp add: reg_inv_def agree_def sub_lookup_def SubscriptionRegistry_new_def tables_wf_def
        indexes_compact_def ix_compact_def total_subscriptions_def)
qed

interpretation registry: invariant_system "\<lambda>r. r = SubscriptionRegistry_new" reg_step reg_inv
proof
  show "reg_inv s" if "s = SubscriptionRegistry_new" for s using that reg_inv_new by simp
  show "reg_inv t" if "reg_step s t" "reg_inv s" for s t
    using that by cases (simp_all add: register_scoped_def register_channels_scoped_def
        reg_inv_register reg_inv_remove_subscription reg_inv_remove_connection reg_inv_remove_channel)
qed

subsection \<open>Fan-out\<close>

lemma extract_kinds_loop_None:
  "extract_kinds_loop ks fs = None \<longleftrightarrow> (\<exists>f \<in> set fs. f_kinds f = None)"
  by (induction fs arbitrary: ks) (auto split: option.split)

lemma extract_kinds_loop_Some:
  "extract_kinds_loop ks fs = Some ks' \<Longrightarrow>
     set ks' = set ks \<union> (\<Union>f \<in> set fs. case f_kinds f of None \<Rightarrow> {} | Some k \<Rightarrow> set k)"
  by (induction fs arbitrary: ks) (auto split: option.splits)

lemma extract_kinds_match:
  "extract_kinds_from_filters fs = Some ks \<Longrightarrow> filters_match fs ev \<Longrightarrow> ev_kind (se_event ev) \<in> set ks"
  using extract_kinds_loop_None [of "[]" fs] extract_kinds_loop_Some [of "[]" fs ks]
  by (force simp: extract_kinds_from_filters_def filters_match_iff dest: filter_match_one_kinds)

lemma extract_global_p_mono:
  "extract_global_p_loop c keys fs = Some keys' \<Longrightarrow> set keys \<subseteq> set keys'"
proof (induction fs arbitrary: keys)
  case (Cons f fs)
  from Cons.prems show ?case
    by (auto split: option.splits if_splits dest!: Cons.IH)
qed simp

lemma extract_global_p_loop_mem:
  "extract_global_p_loop c keys fs = Some keys' \<Longrightarrow> f \<in> set fs \<Longrightarrow> f_kinds f = Some ks \<Longrightarrow>
     k \<in> set ks \<Longrightarrow>
     \<exists>ps. hm_get (f_generic_tags f) p_tag = Some ps \<and>
       (\<forall>p \<in> set ps. \<lparr>gk_community_id = c, gk_kind = k, gk_p = p\<rparr> \<in> set keys')"
proof (induction fs arbitrary: keys)
  case (Cons g fs)
  show ?case
  proof (cases "f \<in> set fs")
    case True
    with Cons show ?thesis by (auto split: option.splits if_splits)
  next
    case False
    let ?new = "\<lambda>ps. concat (map (\<lambda>kind. map (\<lambda>p.
        \<lparr>gk_community_id = c, gk_kind = kind, gk_p = p\<rparr>) ps) ks)"
    from False Cons.prems obtain ps where ps: "hm_get (f_generic_tags f) p_tag = Some ps"
        and loop: "extract_global_p_loop c (push_new keys (?new ps)) fs = Some keys'"
      by (auto split: option.splits if_splits)
    from extract_global_p_mono [OF loop] have "set (?new ps) \<subseteq> set keys'" by simp
    with ps Cons.prems(4) show ?thesis by auto
  qed
qed simp

lemma extract_global_p_loop_kinds:
  "extract_global_p_loop c keys fs = Some keys' \<Longrightarrow> f \<in> set fs \<Longrightarrow> f_kinds f \<noteq> None"
  by (induction fs arbitrary: keys) (auto split: option.splits if_splits)

lemma set_event_p_tag_values: "set (event_p_tag_values ev) = tag_vals (se_event ev) ''p''"
  by (auto simp: event_p_tag_values_def tag_vals_def)

lemma extract_global_p_match:
  assumes keys: "extract_global_p_kind_index_keys c fs = Some keys" and "filters_match fs ev"
  shows "\<exists>p \<in> set (event_p_tag_values ev).
     \<lparr>gk_community_id = c, gk_kind = ev_kind (se_event ev), gk_p = p\<rparr> \<in> set keys"
proof -
  obtain f where f: "f \<in> set fs" "filter_match_one f ev" using assms by (auto simp: filters_match_iff)
  obtain ks where ks: "f_kinds f = Some ks" "ev_kind (se_event ev) \<in> set ks"
    using keys f extract_global_p_loop_kinds [of c "[]" fs keys f] filter_match_one_kinds [of f ev]
    by (auto simp: extract_global_p_kind_index_keys_def)
  obtain ps where ps: "hm_get (f_generic_tags f) p_tag = Some ps"
      "\<forall>p \<in> set ps. \<lparr>gk_community_id = c, gk_kind = ev_kind (se_event ev), gk_p = p\<rparr> \<in> set keys"
    using extract_global_p_loop_mem [of c "[]" fs keys f ks] keys f ks
    by (auto simp: extract_global_p_kind_index_keys_def)
  have "generic_tag_match ev ''p'' ps"
    using ps(1) f(2) filter_match_one_tags [of f ev p_tag ps] by (auto simp: p_tag_def dest: map_of_SomeD)
  then show ?thesis using ps(2) by (auto simp: generic_tag_match_iff set_event_p_tag_values)
qed

text \<open>The condition under which the authoritative table says a pair receives an event.\<close>

definition delivers :: "SubscriptionRegistry \<Rightarrow> CommunityId \<Rightarrow> StoredEvent \<Rightarrow> ConnId \<times> SubId \<Rightarrow> bool" where
  "delivers r c ev e \<longleftrightarrow>
     (case sub_lookup r (fst e) (snd e) of
        None \<Rightarrow> False
      | Some (filters, community_id, scope) \<Rightarrow>
          community_id = c \<and> matches_channel scope (se_channel_id ev) \<and> filters_match filters ev)"

lemma push_match_eq:
  "push_match r c ev e res = (if delivers r c ev e then push_new res [e] else res)"
  by (simp add: push_match_def delivers_def sub_lookup_def split: option.split prod.split)

lemma fold_push_match:
  "set (fold (push_match r c ev) es res) = set res \<union> {e \<in> set es. delivers r c ev e}"
  "distinct res \<Longrightarrow> distinct (fold (push_match r c ev) es res)"
  by (induction es arbitrary: res) (auto simp: push_match_eq simp del: push_new.simps)

text \<open>The index keys an event is looked up under.\<close>

definition consulted :: "CommunityId \<Rightarrow> StoredEvent \<Rightarrow> ixkey set" where
  "consulted c ev =
     (let k = ev_kind (se_event ev) in
      case se_channel_id ev of
        Some ch \<Rightarrow> {ChannelKind c \<lparr>ik_channel_id = ch, ik_kind = k\<rparr>, ChannelWildcard c ch}
      | None \<Rightarrow> {GlobalKind c k, GlobalWildcard c} \<union>
          (\<lambda>p. GlobalPKind \<lparr>gk_community_id = c, gk_kind = k, gk_p = p\<rparr>) ` set (event_p_tag_values ev))"

lemma fold_push_match_lists:
  "set (fold (\<lambda>p. fold (push_match r c ev) (g p)) ps res) =
     set res \<union> {e \<in> (\<Union>p \<in> set ps. set (g p)). delivers r c ev e}"
  "distinct res \<Longrightarrow> distinct (fold (\<lambda>p. fold (push_match r c ev) (g p)) ps res)"
  by (induction ps arbitrary: res) (auto simp: fold_push_match)

lemma set_fan_out:
  "set (fan_out_scoped r c ev) = {e \<in> (\<Union>key \<in> consulted c ev. postings r key). delivers r c ev e}"
  by (cases "se_channel_id ev")
     (auto simp: fan_out_scoped_def Let_def consulted_def fold_push_match fold_push_match_lists)

lemma distinct_fan_out: "distinct (fan_out_scoped r c ev)"
  by (simp add: fan_out_scoped_def Let_def fold_push_match fold_push_match_lists split: option.split)

lemma consulted_complete:
  assumes "matches_channel scope (se_channel_id ev)" "filters_match filters ev"
  shows "entry_keys (filters, c, scope) \<inter> consulted c ev \<noteq> {}"
proof (cases scope)
  case Global
  then have ch: "se_channel_id ev = None" using assms(1) by (cases "se_channel_id ev") auto
  show ?thesis
  proof (cases "extract_global_p_kind_index_keys c filters")
    case None
    then show ?thesis using Global ch assms(2)
      by (cases "extract_kinds_from_filters filters")
         (auto simp: consulted_def Let_def dest: extract_kinds_match)
  next
    case (Some keys)
    then show ?thesis using Global ch extract_global_p_match [OF Some assms(2)]
      by (auto simp: consulted_def Let_def)
  qed
next
  case (Channels chs)
  then obtain ch where "se_channel_id ev = Some ch" "ch \<in> set chs"
    using assms(1) by (cases "se_channel_id ev") auto
  then show ?thesis using Channels assms(2)
    by (cases "extract_kinds_from_filters filters")
       (auto simp: consulted_def Let_def dest: extract_kinds_match)
qed

text \<open>The reference the indexed fan-out is measured against: a scan of the whole table.\<close>

definition linear_scan :: "SubscriptionRegistry \<Rightarrow> CommunityId \<Rightarrow> StoredEvent \<Rightarrow> posting" where
  "linear_scan r c ev = filter (delivers r c ev)
     (concat (map (\<lambda>(conn, m). map (\<lambda>(sub, _). (conn, sub)) m) (subs r)))"

text \<open>The table of the registry as one map.\<close>

definition table :: "SubscriptionRegistry \<Rightarrow> ConnId \<times> SubId \<Rightarrow> SubEntry option" where
  "table r = (\<lambda>(conn, sub). sub_lookup r conn sub)"

lemma distinct_pairs:
  "hm_wf t \<Longrightarrow> (\<And>c m. (c, m) \<in> set t \<Longrightarrow> hm_wf m) \<Longrightarrow>
     distinct (concat (map (\<lambda>(c, m). map (\<lambda>(s, _). (c, s)) m) t))"
proof (induction t)
  case (Cons p t)
  obtain c m where p: "p = (c, m)" by (cases p)
  have inner: "map (\<lambda>(s, _). (c, s)) m = map (Pair c) (map fst m)" by (induction m) auto
  have "hm_wf m" using Cons.prems(2) [of c m] by (simp add: p)
  then have "distinct (map (\<lambda>(s, _). (c, s)) m)" by (simp add: inner distinct_map inj_on_def)
  moreover have "c \<notin> fst ` set t" using Cons.prems(1) by (simp add: p)
  then have "set (map (\<lambda>(s, _). (c, s)) m) \<inter>
      set (concat (map (\<lambda>(c, m). map (\<lambda>(s, _). (c, s)) m) t)) = {}" by force
  moreover have "distinct (concat (map (\<lambda>(c, m). map (\<lambda>(s, _). (c, s)) m) t))"
  proof (rule Cons.IH)
    show "hm_wf t" using Cons.prems(1) by simp
    show "hm_wf m" if "(c, m) \<in> set t" for c m using Cons.prems(2) [of c m] that by simp
  qed
  ultimately show ?case by (simp add: p)
qed simp

lemma linear_scan_spec:
  assumes "tables_wf r"
  shows "distinct (linear_scan r c ev)" "set (linear_scan r c ev) = {e. delivers r c ev e}"
proof -
  show "distinct (linear_scan r c ev)" unfolding linear_scan_def
    using assms by (intro distinct_filter distinct_pairs) (force simp: tables_wf_def)+
  have "(conn, sub) \<in> set (concat (map (\<lambda>(conn, m). map (\<lambda>(sub, _). (conn, sub)) m) (subs r)))"
    if "sub_lookup r conn sub = Some en" for conn sub en
    using that by (force simp: sub_lookup_def split: option.splits dest!: map_of_SomeD)
  then show "set (linear_scan r c ev) = {e. delivers r c ev e}"
    by (auto simp: linear_scan_def delivers_def simp del: set_concat split: option.splits)
qed

subsection \<open>Counting by community\<close>

lemma per_community_inner:
  "hm_get (fold (\<lambda>(sub, filters, c, scope) counts.
      hm_insert c ((case hm_get counts c of None \<Rightarrow> 0 | Some n \<Rightarrow> n) + 1) counts) m acc) c =
   (let k = length (filter (\<lambda>(sub, filters, c', scope). c' = c) m) in
    if k = 0 then hm_get acc c else Some ((case hm_get acc c of None \<Rightarrow> 0 | Some n \<Rightarrow> n) + k :: nat))"
  by (induction m arbitrary: acc) (auto simp: Let_def split: option.split)

lemma fold_concat_snd: "fold (\<lambda>(k, m). fold g m) t acc = fold g (concat (map snd t)) acc"
  by (induction t arbitrary: acc) auto

lemma per_community_get:
  "hm_get (per_community_subscriptions r) c =
   (let k = length (filter (\<lambda>(sub, filters, c', scope). c' = c) (concat (map snd (subs r))))
    in if k = 0 then None else Some k)"
  unfolding per_community_subscriptions_def fold_concat_snd per_community_inner by simp

lemma total_subscriptions_concat: "total_subscriptions r = length (concat (map snd (subs r)))"
  by (simp add: total_subscriptions_def length_concat comp_def case_prod_unfold)

subsection \<open>Channel subscribers\<close>

lemma fold_conns:
  "set (fold (\<lambda>(key, es) conns. if P key then push_new conns (map fst es) else conns) ix conns) =
     set conns \<union> {conn. \<exists>key es sub. (key, es) \<in> set ix \<and> P key \<and> (conn, sub) \<in> set es}"
proof (induction ix arbitrary: conns)
  case (Cons p ix)
  obtain key es where p: "p = (key, es)" by (cases p)
  have "{conn. \<exists>key' es' sub. (key', es') \<in> set (p # ix) \<and> P key' \<and> (conn, sub) \<in> set es'} =
      (if P key then fst ` set es else {}) \<union>
      {conn. \<exists>key es sub. (key, es) \<in> set ix \<and> P key \<and> (conn, sub) \<in> set es}"
    by (auto simp: p intro: rev_image_eqI; blast)
  then show ?case by (simp add: p Cons.IH Un_assoc)
qed simp

lemma distinct_fold_conns:
  "distinct conns \<Longrightarrow>
     distinct (fold (\<lambda>(key, es) conns. if P key then push_new conns (map fst es) else conns) ix conns)"
  by (induction ix arbitrary: conns) auto

lemma set_channel_conns:
  assumes "hm_wf (channel_kind_index r)"
  shows "set (channel_subscriber_conns_scoped r c ch) =
     {conn. \<exists>sub k. (conn, sub) \<in> postings r (ChannelKind c \<lparr>ik_channel_id = ch, ik_kind = k\<rparr>)} \<union>
     {conn. \<exists>sub. (conn, sub) \<in> postings r (ChannelWildcard c ch)}"
proof -
  have "(\<exists>key es sub. (key, es) \<in> set (channel_kind_index r) \<and>
        (fst key = c \<and> ik_channel_id (snd key) = ch) \<and> (conn, sub) \<in> set es) \<longleftrightarrow>
      (\<exists>sub k. (conn, sub) \<in> set (hm_list (channel_kind_index r) (c, \<lparr>ik_channel_id = ch, ik_kind = k\<rparr>)))"
    (is "?L \<longleftrightarrow> ?R") for conn
  proof
    assume ?L
    then obtain k es sub where es: "((c, \<lparr>ik_channel_id = ch, ik_kind = k\<rparr>), es) \<in> set (channel_kind_index r)"
        "(conn, sub) \<in> set es"
      by (metis IndexKey.surjective old.unit.exhaust prod.collapse)
    have "hm_list (channel_kind_index r) (c, \<lparr>ik_channel_id = ch, ik_kind = k\<rparr>) = es"
      using map_of_is_SomeI [OF assms es(1)] by (simp add: hm_list_def)
    then show ?R using es(2) by blast
  next
    assume ?R
    then obtain sub k es where es: "hm_get (channel_kind_index r) (c, \<lparr>ik_channel_id = ch, ik_kind = k\<rparr>) = Some es"
        "(conn, sub) \<in> set es"
      by (blast dest: hm_list_mem)
    show ?L
    proof (intro exI conjI)
      show "((c, \<lparr>ik_channel_id = ch, ik_kind = k\<rparr>), es) \<in> set (channel_kind_index r)"
        by (rule map_of_SomeD [OF es(1)])
      show "(conn, sub) \<in> set es" by (rule es(2))
    qed simp_all
  qed
  moreover have "conn \<in> fst ` set es \<longleftrightarrow> (\<exists>sub. (conn, sub) \<in> set es)" for conn and es :: posting
    by force
  ultimately show ?thesis
    by (cases "hm_get (channel_wildcard_index r) (c, ch)")
       (auto simp: channel_subscriber_conns_scoped_def Let_def fold_conns
          hm_list_def [of "channel_wildcard_index r"])
qed

lemma channel_conns_reachable:
  assumes "reg_inv r"
  shows "set (channel_subscriber_conns_scoped r c ch) =
     {conn. \<exists>sub filters chs. sub_lookup r conn sub = Some (filters, c, Channels chs) \<and>
        ch \<in> set chs \<and> extract_kinds_from_filters filters \<noteq> Some []}"
proof -
  have wf: "hm_wf (channel_kind_index r)"
    using assms by (simp add: reg_inv_def indexes_compact_def ix_compact_def)
  have keys: "(\<exists>k. ChannelKind c \<lparr>ik_channel_id = ch, ik_kind = k\<rparr> \<in> entry_keys en) \<or>
      ChannelWildcard c ch \<in> entry_keys en \<longleftrightarrow>
      (\<exists>filters chs. en = (filters, c, Channels chs) \<and> ch \<in> set chs \<and>
         extract_kinds_from_filters filters \<noteq> Some [])" for en
  proof (cases en rule: entry_keys.cases)
    case (1 filters c' chs)
    have "ks \<noteq> [] \<longleftrightarrow> (\<exists>k. k \<in> set ks)" for ks :: "u16 list" by (cases ks) auto
    with 1 show ?thesis by (auto simp: image_iff split: option.splits)
  qed (auto split: option.splits)
  have "conn \<in> set (channel_subscriber_conns_scoped r c ch) \<longleftrightarrow>
      (\<exists>sub en. sub_lookup r conn sub = Some en \<and>
        ((\<exists>k. ChannelKind c \<lparr>ik_channel_id = ch, ik_kind = k\<rparr> \<in> entry_keys en) \<or>
         ChannelWildcard c ch \<in> entry_keys en))" for conn
    unfolding set_channel_conns [OF wf] using assms
    by (simp add: reg_inv_def agreeD del: postings.simps) blast
  then show ?thesis unfolding keys by blast
qed

subsection \<open>Properties\<close>

text \<open>A registry with a channel subscription, a wildcard one and a global one, for the witnesses.\<close>

definition note_filter :: nostr_filter where
  "note_filter = \<lparr>f_ids = None, f_authors = None, f_kinds = Some [9, 7], f_since = None,
     f_until = None, f_generic_tags = []\<rparr>"

definition any_filter :: nostr_filter where
  "any_filter = \<lparr>f_ids = None, f_authors = None, f_kinds = None, f_since = None,
     f_until = None, f_generic_tags = []\<rparr>"

definition chat_event :: StoredEvent where
  "chat_event = \<lparr>se_event = \<lparr>ev_id = ''e1'', ev_pubkey = ''alice'', ev_created_at = 100, ev_kind = 9,
     ev_tags = [], ev_content = ''hi''\<rparr>, se_received_at = 0, se_channel_id = Some ''ch'',
     se_verified = True\<rparr>"

definition demo_registry :: SubscriptionRegistry where
  "demo_registry =
     fst (register_scoped
       (fst (register_channels_scoped
         (fst (register_scoped SubscriptionRegistry_new ''c1'' ''k1'' ''s1'' [note_filter] (Some ''ch'')))
         ''c1'' ''k2'' ''s2'' [any_filter] [''ch'', ''ch2'']))
       ''c1'' ''k3'' ''s3'' [any_filter] None)"

lemma demo_reachable: "reg_reach demo_registry"
  unfolding demo_registry_def
  by (intro reach_step [where step = reg_step, OF _ step_register] reach_step [where step = reg_step, OF _ step_register_channels] reach_init) simp

text \<open>
  C2. No delivery across scopes, whatever the indexes say: even when the posting lists consulted
  are stale or arbitrary, a pair is returned only if the authoritative table holds, at that
  moment, a subscription of the same community, whose scope covers the event's channel (global
  subscriptions for global events only) and whose filters match; and never twice.
\<close>

theorem fan_out_isolated:
  "set (fan_out_scoped r c ev) \<subseteq>
     {(conn, sub). \<exists>filters scope. sub_lookup r conn sub = Some (filters, c, scope) \<and>
        (case se_channel_id ev of None \<Rightarrow> scope = Global | Some ch \<Rightarrow> ch \<in> set (channel_ids scope)) \<and>
        filters_match filters ev} \<and>
   distinct (fan_out_scoped r c ev)"
proof -
  have "matches_channel scope ch \<longleftrightarrow>
      (case ch of None \<Rightarrow> scope = Global | Some ch \<Rightarrow> ch \<in> set (channel_ids scope))" for scope ch
    by (cases scope; cases ch) auto
  then show ?thesis
    by (auto simp: set_fan_out delivers_def distinct_fan_out split: option.splits)
qed

text \<open>
  C4. The registry refines a plain map from connection and subscription id to the subscription:
  registering overwrites, removing and disconnecting erase, and revoking a channel drops it
  from the scopes of that connection in that community, erasing a subscription with its last
  channel. The removed subscriptions are reported.
\<close>

theorem registry_refines_table:
  assumes "reg_reach r"
  shows "table (fst (register_with_scope r c conn sub filters scope)) =
           (table r)((conn, sub) \<mapsto> (filters, c, scope)) \<and>
         table (fst (remove_subscription r conn sub)) = (table r)((conn, sub) := None) \<and>
         table (fst (remove_connection r conn)) = table r |` (- ({conn} \<times> UNIV)) \<and>
         table (fst (remove_channel_subscriptions_scoped r c conn ch)) =
           (\<lambda>(conn', sub). Option.bind (table r (conn', sub))
              (\<lambda>en. if conn' = conn \<and> in_channel c ch en then revoked ch en else Some en)) \<and>
         snd (register_with_scope r c conn sub filters scope) = snd (remove_subscription r conn sub) \<and>
         snd (remove_subscription r conn sub) = map_option
           (\<lambda>(filters, c, scope). \<lparr>rs_community_id = c, rs_scope = scope\<rparr>) (table r (conn, sub))"
proof -
  have inv: "reg_inv r" by (rule registry.reach_inv [OF assms])
  show ?thesis
    by (auto simp: table_def fun_eq_iff restrict_map_def sub_lookup_register register_result
        sub_lookup_remove_subscription sub_lookup_remove_connection remove_subscription_result
        sub_lookup_remove_channel [OF inv] split: if_splits)
qed

theorem registry_refines_table_witness:
  "table (fst (remove_channel_subscriptions_scoped demo_registry ''c1'' ''k2'' ''ch'')) (''k2'', ''s2'') =
     Some ([any_filter], ''c1'', Channels [''ch2''])"
proof -
  have "table demo_registry (''k2'', ''s2'') = Some ([any_filter], ''c1'', Channels [''ch'', ''ch2''])"
    by code_simp
  then show ?thesis
    using registry_refines_table [OF demo_reachable, of "''c1''" "''k2''" "''s2''" "[]" Global "''ch''"]
    by (simp add: in_channel_def)
qed

text \<open>
  Counting by community partitions the table: each community is reported with its number of
  live subscriptions and a community without any is not reported.
\<close>

theorem per_community_exact:
  "hm_get (per_community_subscriptions r) c =
     (let entries = concat (map snd (subs r));
          k = length (filter (\<lambda>(sub, filters, c', scope). c' = c) entries)
      in if k = 0 then None else Some k) \<and>
   total_subscriptions r = length (concat (map snd (subs r)))"
  by (simp add: per_community_get total_subscriptions_concat Let_def)

text \<open>
  The connections reported for a channel are exactly those with a live subscription scoped
  to it in that community, except subscriptions all of whose filters state an empty kind list:
  those are filed nowhere and their connection is not reported on their account.
\<close>

theorem channel_subscribers_exact:
  assumes "reg_reach r"
  shows "set (channel_subscriber_conns_scoped r c ch) =
     {conn. \<exists>sub filters chs. sub_lookup r conn sub = Some (filters, c, Channels chs) \<and>
        ch \<in> set chs \<and> extract_kinds_from_filters filters \<noteq> Some []}"
  by (rule channel_conns_reachable [OF registry.reach_inv [OF assms]])

theorem channel_subscribers_exact_witness:
  "''k2'' \<in> {conn. \<exists>sub filters chs. sub_lookup demo_registry conn sub = Some (filters, ''c1'', Channels chs) \<and>
        ''ch'' \<in> set chs \<and> extract_kinds_from_filters filters \<noteq> Some []}"
proof -
  have "channel_subscriber_conns_scoped demo_registry ''c1'' ''ch'' = [''k1'', ''k2'']" by code_simp
  then show ?thesis using channel_subscribers_exact [OF demo_reachable, of "''c1''" "''ch''"] by auto
qed

text \<open>
  A connection whose last subscription was closed is still counted: the connection count is
  not the number of connections with at least one active subscription.
\<close>

theorem total_connections_counts_idle:
  "total_subscriptions (fst (remove_subscription
      (fst (register_scoped SubscriptionRegistry_new c conn sub filters channel_id)) conn sub)) = 0 \<and>
   total_connections (fst (remove_subscription
      (fst (register_scoped SubscriptionRegistry_new c conn sub filters channel_id)) conn sub)) = 1"
  by (simp add: register_scoped_def register_with_scope_def remove_subscription_def Let_def
      SubscriptionRegistry_new_def total_subscriptions_def total_connections_def hm_list_def)

end
