(* ===== verification/Registry_Calls.thy ===== *)
theory Registry_Calls
  imports Subscription_Registry
begin

text \<open>
  The calls of the subscription registry at the granularity of its locks
  (\<open>crates/buzz-relay/src/subscription.rs\<close>). A call is a list of instructions, each of which the
  code performs under one \<open>DashMap\<close> lock, and calls of any number of tasks interleave between
  instructions. \<open>remove_from_index\<close> retains under the guard of the posting list, drops that
  guard and removes the emptied key later; \<open>register_with_scope\<close> inserts into the table and
  pushes every posting separately; a removal and a revocation hold the guard of their
  connection's table entry while they unindex, a disconnect does not. The theory shows what
  survives overlap (index completeness outside the removal window, revocation), that the
  functions of \<open>Subscription_Registry\<close> are the calls run with nothing in between, and the
  posting that the window can lose. A guard blocks its own connection only; \<open>DashMap\<close> blocks the
  whole shard, so the interleavings of the code are among those here. The values the calls
  return are those of the functions of \<open>Subscription_Registry\<close> and are left out.
\<close>

subsection \<open>The steps of a call\<close>

text \<open>
  \<open>Take\<close>: \<open>subs.get_mut(conn)\<close> and \<open>remove(sub)\<close>; \<open>Put\<close>: \<open>subs.entry(conn).or_default().insert\<close>;
  \<open>Push\<close>: \<open>entry(key).or_default().push\<close> on one index; \<open>Retain\<close>: \<open>get_mut(key)\<close> and \<open>retain\<close>;
  \<open>DropKey\<close>: the later \<open>index.remove(key)\<close>; \<open>TakeConn\<close>: \<open>subs.remove(conn)\<close>; \<open>Collect\<close>: the read
  of the subscriptions a revocation has to visit; \<open>Revoke\<close>: one turn of its loop; \<open>Forget\<close>:
  \<open>conn_subs.remove(sub)\<close> under the guard the turn holds; \<open>Release\<close>: a table guard is dropped.
\<close>

datatype reg_instr =
    Take ConnId SubId
  | Put ConnId SubId SubEntry
  | Gauge int
  | Push ixkey "ConnId \<times> SubId"
  | Retain ixkey "ConnId \<times> SubId"
  | DropKey ixkey
  | Forget ConnId SubId
  | Release ConnId
  | TakeConn ConnId
  | Collect CommunityId ConnId uuid
  | Revoke CommunityId ConnId uuid "SubId list"

text \<open>The keys of a subscription in the order the loops of the code visit them.\<close>

fun entry_key_list :: "SubEntry \<Rightarrow> ixkey list" where
  "entry_key_list (filters, c, Channels chs) =
     concat (map (\<lambda>ch_id.
       case extract_kinds_from_filters filters of
         None \<Rightarrow> [ChannelWildcard c ch_id]
       | Some kinds \<Rightarrow>
           map (\<lambda>kind. ChannelKind c \<lparr>ik_channel_id = ch_id, ik_kind = kind\<rparr>) kinds) chs)"
| "entry_key_list (filters, c, Global) =
     (case extract_global_p_kind_index_keys c filters of
        Some keys \<Rightarrow> map GlobalPKind keys
      | None \<Rightarrow>
          (case extract_kinds_from_filters filters of
             None \<Rightarrow> [GlobalWildcard c]
           | Some kinds \<Rightarrow> map (GlobalKind c) kinds))"

text \<open>The three operations on the index a key belongs to.\<close>

fun push_key :: "ixkey \<Rightarrow> ConnId \<times> SubId \<Rightarrow> SubscriptionRegistry \<Rightarrow> SubscriptionRegistry" where
  "push_key (ChannelKind c key) e = channel_kind_index_update (ix_push (c, key) e)"
| "push_key (ChannelWildcard c ch) e = channel_wildcard_index_update (ix_push (c, ch) e)"
| "push_key (GlobalKind c kind) e = global_kind_index_update (ix_push (c, kind) e)"
| "push_key (GlobalPKind key) e = global_p_kind_index_update (ix_push key e)"
| "push_key (GlobalWildcard c) e = global_wildcard_index_update (ix_push c e)"

fun retain_key ::
    "ixkey \<Rightarrow> ConnId \<times> SubId \<Rightarrow> SubscriptionRegistry \<Rightarrow> SubscriptionRegistry \<times> bool" where
  "retain_key (ChannelKind c key) e r =
     (let (i, emptied) = ix_retain (c, key) e (channel_kind_index r)
      in (r\<lparr>channel_kind_index := i\<rparr>, emptied))"
| "retain_key (ChannelWildcard c ch) e r =
     (let (i, emptied) = ix_retain (c, ch) e (channel_wildcard_index r)
      in (r\<lparr>channel_wildcard_index := i\<rparr>, emptied))"
| "retain_key (GlobalKind c kind) e r =
     (let (i, emptied) = ix_retain (c, kind) e (global_kind_index r)
      in (r\<lparr>global_kind_index := i\<rparr>, emptied))"
| "retain_key (GlobalPKind key) e r =
     (let (i, emptied) = ix_retain key e (global_p_kind_index r)
      in (r\<lparr>global_p_kind_index := i\<rparr>, emptied))"
| "retain_key (GlobalWildcard c) e r =
     (let (i, emptied) = ix_retain c e (global_wildcard_index r)
      in (r\<lparr>global_wildcard_index := i\<rparr>, emptied))"

fun remove_key :: "ixkey \<Rightarrow> SubscriptionRegistry \<Rightarrow> SubscriptionRegistry" where
  "remove_key (ChannelKind c key) = channel_kind_index_update (hm_remove (c, key))"
| "remove_key (ChannelWildcard c ch) = channel_wildcard_index_update (hm_remove (c, ch))"
| "remove_key (GlobalKind c kind) = global_kind_index_update (hm_remove (c, kind))"
| "remove_key (GlobalPKind key) = global_p_kind_index_update (hm_remove key)"
| "remove_key (GlobalWildcard c) = global_wildcard_index_update (hm_remove c)"

text \<open>
  One instruction: the registry and the connections whose table entry is guarded, before and
  after, and the instructions it adds in front of the rest of its call. \<open>None\<close>: it has to wait
  for a guard.
\<close>

type_synonym call_state = "SubscriptionRegistry \<times> ConnId list"

fun exec :: "reg_instr \<Rightarrow> call_state \<Rightarrow> (call_state \<times> reg_instr list) option" where
  "exec (Take conn sub) (r, guards) =
     (if conn \<in> set guards then None
      else case hm_get (subs r) conn of
        None \<Rightarrow> Some ((r, guards), [])
      | Some conn_subs \<Rightarrow>
          (case hm_get conn_subs sub of
             None \<Rightarrow> Some ((r, guards), [])
           | Some en \<Rightarrow>
               Some ((r\<lparr>subs := hm_insert conn (hm_remove sub conn_subs) (subs r)\<rparr>, conn # guards),
                     map (\<lambda>key. Retain key (conn, sub)) (entry_key_list en) @
                     [Release conn, Gauge (- 1)])))"
| "exec (Put conn sub en) (r, guards) =
     (if conn \<in> set guards then None
      else Some ((r\<lparr>subs := hm_insert conn (hm_insert sub en (hm_list (subs r) conn)) (subs r)\<rparr>, guards),
                 Gauge 1 # map (\<lambda>key. Push key (conn, sub)) (entry_key_list en)))"
| "exec (Gauge n) (r, guards) = Some ((r\<lparr>gauge := gauge r + n\<rparr>, guards), [])"
| "exec (Push key e) (r, guards) = Some ((push_key key e r, guards), [])"
| "exec (Retain key e) (r, guards) =
     (let (r', emptied) = retain_key key e r
      in Some ((r', guards), if emptied then [DropKey key] else []))"
| "exec (DropKey key) (r, guards) = Some ((remove_key key r, guards), [])"
| "exec (Forget conn sub) (r, guards) =
     Some ((r\<lparr>subs := hm_insert conn (hm_remove sub (hm_list (subs r) conn)) (subs r)\<rparr>, guards), [])"
| "exec (Release conn) (r, guards) = Some ((r, remove1 conn guards), [])"
| "exec (TakeConn conn) (r, guards) =
     (if conn \<in> set guards then None
      else case hm_get (subs r) conn of
        None \<Rightarrow> Some ((r, guards), [])
      | Some conn_subs \<Rightarrow>
          Some ((r\<lparr>subs := hm_remove conn (subs r)\<rparr>, guards),
                concat (map (\<lambda>(sub, en). map (\<lambda>key. Retain key (conn, sub)) (entry_key_list en)) conn_subs)
                @ [Gauge (- int (length conn_subs))]))"
| "exec (Collect c conn ch) (r, guards) =
     (if conn \<in> set guards then None
      else Some ((r, guards),
        [Revoke c conn ch
           (case hm_get (subs r) conn of
              None \<Rightarrow> []
            | Some conn_subs \<Rightarrow>
                map fst (filter (\<lambda>(sub, filters, c', scope).
                  c' = c \<and> ch \<in> set (channel_ids scope)) conn_subs))]))"
| "exec (Revoke c conn ch []) (r, guards) = Some ((r, guards), [])"
| "exec (Revoke c conn ch (sub # sub_ids)) (r, guards) =
     (if conn \<in> set guards then None
      else case hm_get (subs r) conn of
        None \<Rightarrow> Some ((r, guards), [])
      | Some conn_subs \<Rightarrow>
          (case hm_get conn_subs sub of
             Some (filters, c', Channels chs) \<Rightarrow>
               let chs' = filter (\<lambda>candidate. candidate \<noteq> ch) chs in
               Some ((r\<lparr>subs := hm_insert conn (hm_insert sub (filters, c', Channels chs') conn_subs)
                          (subs r)\<rparr>, conn # guards),
                     map (\<lambda>key. Retain key (conn, sub)) (entry_key_list (filters, c, Channels [ch])) @
                     (if chs' = [] then [Forget conn sub, Gauge (- 1)] else []) @
                     [Release conn, Revoke c conn ch sub_ids])
           | _ \<Rightarrow> Some ((r, guards), [Revoke c conn ch sub_ids])))"

text \<open>The public calls.\<close>

definition register_call :: "CommunityId \<Rightarrow> ConnId \<Rightarrow> SubId \<Rightarrow> nostr_filter list \<Rightarrow> SubscriptionScope \<Rightarrow> reg_instr list" where
  "register_call c conn sub filters scope = [Take conn sub, Put conn sub (filters, c, scope)]"

definition remove_call :: "ConnId \<Rightarrow> SubId \<Rightarrow> reg_instr list" where
  "remove_call conn sub = [Take conn sub]"

definition disconnect_call :: "ConnId \<Rightarrow> reg_instr list" where
  "disconnect_call conn = [TakeConn conn]"

definition revoke_call :: "CommunityId \<Rightarrow> ConnId \<Rightarrow> uuid \<Rightarrow> reg_instr list" where
  "revoke_call c conn ch = [Collect c conn ch]"

inductive is_call :: "reg_instr list \<Rightarrow> bool" where
  "is_call (register_call c conn sub filters scope)"
| "is_call (remove_call conn sub)"
| "is_call (disconnect_call conn)"
| "is_call (revoke_call c conn ch)"

text \<open>The registry with all calls made so far, each with what it has still to do.\<close>

record reg_system =
  sy_reg :: SubscriptionRegistry
  sy_guards :: "ConnId list"
  sy_calls :: "reg_instr list list"

definition sys_new :: reg_system where
  "sys_new = \<lparr>sy_reg = SubscriptionRegistry_new, sy_guards = [], sy_calls = []\<rparr>"

definition begin_call :: "reg_instr list \<Rightarrow> reg_system \<Rightarrow> reg_system" where
  "begin_call p s = s\<lparr>sy_calls := sy_calls s @ [p]\<rparr>"

definition advance :: "nat \<Rightarrow> reg_system \<Rightarrow> reg_system option" where
  "advance i s =
     (if i < length (sy_calls s) then
        case sy_calls s ! i of
          [] \<Rightarrow> None
        | x # xs \<Rightarrow>
            (case exec x (sy_reg s, sy_guards s) of
               None \<Rightarrow> None
             | Some ((r, g), new) \<Rightarrow>
                 Some \<lparr>sy_reg = r, sy_guards = g, sy_calls = (sy_calls s)[i := new @ xs]\<rparr>)
      else None)"

definition pending :: "reg_system \<Rightarrow> reg_instr set" where
  "pending s = \<Union> (set ` set (sy_calls s))"

definition at_rest :: "reg_system \<Rightarrow> bool" where
  "at_rest s \<longleftrightarrow> (\<forall>p \<in> set (sy_calls s). p = [])"

inductive sys_step :: "reg_system \<Rightarrow> reg_system \<Rightarrow> bool" where
  sys_begin: "is_call p \<Longrightarrow> sys_step s (begin_call p s)"
| sys_advance: "advance i s = Some t \<Longrightarrow> sys_step s t"

text \<open>The next instruction of a call.\<close>

definition next_instr :: "nat \<Rightarrow> reg_system \<Rightarrow> reg_instr option" where
  "next_instr i s = (if i < length (sy_calls s) then
     (case sy_calls s ! i of [] \<Rightarrow> None | x # xs \<Rightarrow> Some x) else None)"

text \<open>
  The two overlaps that can lose a posting: a push under a key another call is about to remove,
  and an insertion of a subscription whose connection and id another call is still unindexing.
\<close>

fun unindexes :: "ConnId \<times> SubId \<Rightarrow> reg_instr \<Rightarrow> bool" where
  "unindexes e (Retain key e') \<longleftrightarrow> e' = e"
| "unindexes e _ \<longleftrightarrow> False"

fun disturbs :: "reg_system \<Rightarrow> reg_instr \<Rightarrow> bool" where
  "disturbs s (Push key e) \<longleftrightarrow> DropKey key \<in> pending s"
| "disturbs s (Put conn sub en) \<longleftrightarrow> (\<exists>x \<in> pending s. unindexes (conn, sub) x)"
| "disturbs s _ \<longleftrightarrow> False"

inductive orderly_step :: "reg_system \<Rightarrow> reg_system \<Rightarrow> bool" where
  orderly_begin: "is_call p \<Longrightarrow> orderly_step s (begin_call p s)"
| orderly_advance: "advance i s = Some t \<Longrightarrow> next_instr i s = Some x \<Longrightarrow> \<not> disturbs s x \<Longrightarrow> orderly_step s t"


subsection \<open>What one step does to the postings and to the table\<close>

lemma set_entry_key_list: "set (entry_key_list en) = entry_keys en"
  by (cases en rule: entry_keys.cases) (auto split: option.split)

lemma push_key_frame [simp]:
  "subs (push_key key e r) = subs r" "gauge (push_key key e r) = gauge r"
  by (cases key; simp)+

lemma remove_key_frame [simp]:
  "subs (remove_key key r) = subs r" "gauge (remove_key key r) = gauge r"
  by (cases key; simp)+

lemma retain_key_frame [simp]:
  "subs (fst (retain_key key e r)) = subs r" "gauge (fst (retain_key key e r)) = gauge r"
  by (cases key; simp split: prod.split)+

lemma postings_push_key:
  "postings (push_key key e r) key' =
     (if key' = key then insert e (postings r key') else postings r key')"
  by (cases key; cases key') (auto simp: dash_ix.post_add)

lemma hm_list_ix_retain:
  "set (hm_list (fst (ix_retain key e index)) key') =
     (if key' = key then set (hm_list index key') - {e} else set (hm_list index key'))"
  by (cases "hm_get index key") (auto simp: ix_retain_def hm_list_def Let_def)

lemma ix_retain_emptied:
  "snd (ix_retain key e index) \<Longrightarrow> set (hm_list (fst (ix_retain key e index)) key) = {}"
  by (cases "hm_get index key") (auto simp: ix_retain_def Let_def)

lemma postings_retain_key:
  "postings (fst (retain_key key e r)) key' =
     (if key' = key then postings r key' - {e} else postings r key')"
  by (cases key; cases key') (auto simp: hm_list_ix_retain case_prod_beta)

lemma retain_key_emptied:
  "snd (retain_key key e r) \<Longrightarrow> postings (fst (retain_key key e r)) key = {}"
  by (cases key) (use ix_retain_emptied in \<open>fastforce simp: case_prod_beta Let_def\<close>)+

lemma postings_remove_key:
  "postings (remove_key key r) key' = (if key' = key then {} else postings r key')"
  by (cases key; cases key') auto

lemmas postings_key = postings_push_key postings_retain_key postings_remove_key

lemma sub_lookup_key [simp]:
  "sub_lookup (push_key key e r) conn sub = sub_lookup r conn sub"
  "sub_lookup (fst (retain_key key e r)) conn sub = sub_lookup r conn sub"
  "sub_lookup (remove_key key r) conn sub = sub_lookup r conn sub"
  by (simp_all add: sub_lookup_def)

text \<open>How a step changes the posting lists.\<close>

lemma exec_postings:
  assumes "exec x (r, g) = Some ((r', g'), new)"
  shows "postings r' key =
    (case x of
       Push key' e \<Rightarrow> if key = key' then insert e (postings r key) else postings r key
     | Retain key' e \<Rightarrow> if key = key' then postings r key - {e} else postings r key
     | DropKey key' \<Rightarrow> if key = key' then {} else postings r key
     | _ \<Rightarrow> postings r key)"
  using assms
  by (cases "(x, (r, g))" rule: exec.cases)
     (auto simp: postings_key Let_def case_prod_beta
           split: if_splits option.splits SubscriptionScope.splits)

text \<open>How a step changes the subscription filed under a pair.\<close>

definition revoked_in :: "uuid \<Rightarrow> SubEntry \<Rightarrow> SubEntry" where
  "revoked_in ch en = (case en of (filters, c, Channels chs) \<Rightarrow>
     (filters, c, Channels (filter (\<lambda>candidate. candidate \<noteq> ch) chs)) | _ \<Rightarrow> en)"

lemma exec_lookup:
  assumes "exec x (r, g) = Some ((r', g'), new)"
  shows "sub_lookup r' conn sub =
    (case x of
       Take conn' sub' \<Rightarrow> if (conn, sub) = (conn', sub') then None else sub_lookup r conn sub
     | Put conn' sub' en \<Rightarrow> if (conn, sub) = (conn', sub') then Some en else sub_lookup r conn sub
     | Forget conn' sub' \<Rightarrow> if (conn, sub) = (conn', sub') then None else sub_lookup r conn sub
     | TakeConn conn' \<Rightarrow> if conn = conn' then None else sub_lookup r conn sub
     | Revoke c conn' ch (sub' # subs') \<Rightarrow>
         if (conn, sub) = (conn', sub') then map_option (revoked_in ch) (sub_lookup r conn sub)
         else sub_lookup r conn sub
     | _ \<Rightarrow> sub_lookup r conn sub)"
  using assms
  by (cases "(x, (r, g))" rule: exec.cases)
     (auto simp: sub_lookup_def hm_list_def revoked_in_def Let_def case_prod_beta
           split: if_splits option.splits SubscriptionScope.splits list.splits)

lemma tables_wf_key [simp]:
  "tables_wf (push_key key e r) = tables_wf r"
  "tables_wf (fst (retain_key key e r)) = tables_wf r"
  "tables_wf (remove_key key r) = tables_wf r"
  by (simp_all add: tables_wf_def)

lemma exec_tables_wf:
  assumes "exec x (r, g) = Some ((r', g'), new)" and "tables_wf r"
  shows "tables_wf r'"
proof -
  have m: "hm_wf m" if "hm_get (subs r) conn = Some m" for conn m
    using that assms(2) by (force simp: tables_wf_def dest: map_of_SomeD)
  show ?thesis using assms
    by (cases "(x, (r, g))" rule: exec.cases)
       (auto simp: tables_wf_put tables_wf_del tables_wf_list m tables_wf_subs Let_def case_prod_beta
             split: if_splits option.splits SubscriptionScope.splits
             intro!: tables_wf_put)
qed


text \<open>What a step leaves its call to do.\<close>

lemma exec_new_retain:
  assumes "exec x (r, g) = Some ((r', g'), new)" and "Retain key (conn, sub) \<in> set new"
  shows "\<nexists>en. sub_lookup r' conn sub = Some en \<and> key \<in> entry_keys en"
  using assms
  by (cases "(x, (r, g))" rule: exec.cases)
     (auto simp: sub_lookup_def set_entry_key_list Let_def case_prod_beta
           split: if_splits option.splits SubscriptionScope.splits)

lemma exec_new_drop:
  assumes "exec x (r, g) = Some ((r', g'), new)" and "DropKey key \<in> set new"
  shows "postings r' key = {}"
  using assms retain_key_emptied
  by (cases "(x, (r, g))" rule: exec.cases)
     (auto simp: Let_def case_prod_beta split: if_splits option.splits SubscriptionScope.splits)

lemma exec_put_pushes:
  assumes "exec (Put conn sub en) (r, g) = Some ((r', g'), new)"
  shows "Push key (conn, sub) \<in> set new \<longleftrightarrow> key \<in> entry_keys en"
  using assms by (auto simp: set_entry_key_list split: if_splits)

subsection \<open>Overlapping calls keep the index complete\<close>

text \<open>
  Every subscription of the table is found under each of its keys, unless a call has still to
  push the posting; no call is about to take out the posting of a subscription that is in the
  table, and no call is about to remove a key that has postings.
\<close>

definition index_complete :: "reg_system \<Rightarrow> bool" where
  "index_complete s \<longleftrightarrow> (\<forall>conn sub en key.
     sub_lookup (sy_reg s) conn sub = Some en \<longrightarrow> key \<in> entry_keys en \<longrightarrow>
       (conn, sub) \<in> postings (sy_reg s) key \<or> Push key (conn, sub) \<in> pending s)"

definition retains_stale :: "reg_system \<Rightarrow> bool" where
  "retains_stale s \<longleftrightarrow> (\<forall>conn sub en key.
     Retain key (conn, sub) \<in> pending s \<longrightarrow> sub_lookup (sy_reg s) conn sub = Some en \<longrightarrow>
       key \<notin> entry_keys en)"

definition drops_empty :: "reg_system \<Rightarrow> bool" where
  "drops_empty s \<longleftrightarrow> (\<forall>key. DropKey key \<in> pending s \<longrightarrow> postings (sy_reg s) key = {})"

definition sys_inv :: "reg_system \<Rightarrow> bool" where
  "sys_inv s \<longleftrightarrow> tables_wf (sy_reg s) \<and> index_complete s \<and> retains_stale s \<and> drops_empty s"

lemma pending_begin: "pending (begin_call p s) = pending s \<union> set p"
  by (auto simp: pending_def begin_call_def)

lemma pendingI: "p \<in> set (sy_calls s) \<Longrightarrow> set p \<subseteq> pending s"
  by (auto simp: pending_def)

lemma advanceE:
  assumes "advance i s = Some t"
  obtains x xs g new where "next_instr i s = Some x" "x \<in> pending s"
    "exec x (sy_reg s, sy_guards s) = Some ((sy_reg t, g), new)"
    "pending t \<subseteq> pending s \<union> set new" "pending s \<subseteq> insert x (pending t)" "set new \<subseteq> pending t"
    "i < length (sy_calls s)" "sy_calls s ! i = x # xs" "sy_calls t = (sy_calls s)[i := new @ xs]"
proof -
  obtain x xs where i: "i < length (sy_calls s)" and x: "sy_calls s ! i = x # xs"
    using assms by (auto simp: advance_def split: if_splits list.splits)
  obtain g new where e: "exec x (sy_reg s, sy_guards s) = Some ((sy_reg t, g), new)"
      and t: "sy_calls t = (sy_calls s)[i := new @ xs]"
    using assms i x by (auto simp: advance_def split: option.splits)
  have mem: "x # xs \<in> set (sy_calls s)" using i x by (metis nth_mem)
  have new: "new @ xs \<in> set (sy_calls t)" using i t by (simp add: set_update_memI)
  have sub: "set (sy_calls t) \<subseteq> insert (new @ xs) (set (sy_calls s))"
    by (simp add: t set_update_subset_insert)
  have sup: "set (sy_calls s) \<subseteq> insert (x # xs) (set (sy_calls t))"
  proof
    fix p assume "p \<in> set (sy_calls s)"
    then obtain j where "j < length (sy_calls s)" "p = sy_calls s ! j" by (auto simp: in_set_conv_nth)
    then show "p \<in> insert (x # xs) (set (sy_calls t))"
      using i x t by (cases "j = i") (auto simp: in_set_conv_nth intro!: exI [of _ j])
  qed
  show thesis
  proof (rule that [of x g new xs])
    show "next_instr i s = Some x" using i x by (simp add: next_instr_def)
    show "x \<in> pending s" using pendingI [OF mem] by simp
    show "pending t \<subseteq> pending s \<union> set new" 
    proof -
      have "pending t \<subseteq> \<Union> (set ` insert (new @ xs) (set (sy_calls s)))"
        unfolding pending_def using sub by blast
      moreover have "set xs \<subseteq> pending s" using pendingI [OF mem] by simp
      ultimately show ?thesis by (auto simp: pending_def)
    qed
    show "pending s \<subseteq> insert x (pending t)" 
    proof -
      have "pending s \<subseteq> \<Union> (set ` insert (x # xs) (set (sy_calls t)))"
        unfolding pending_def using sup by blast
      moreover have "set xs \<subseteq> pending t" using pendingI [OF new] by simp
      ultimately show ?thesis by (auto simp: pending_def)
    qed
    show "set new \<subseteq> pending t" using pendingI [OF new] by simp
  qed (use i x e t in auto)
qed

lemma entry_keys_revoked_in: "entry_keys (revoked_in ch en) \<subseteq> entry_keys en"
  by (cases en rule: entry_keys.cases) (auto simp: revoked_in_def split: option.split)

text \<open>Where a subscription comes from: from a \<open>Put\<close>, or it was there with at least these keys.\<close>

lemma exec_lookup_origin:
  assumes "exec x (r, g) = Some ((r', g'), new)" and "sub_lookup r' conn sub = Some en"
    and "key \<in> entry_keys en"
  shows "x = Put conn sub en \<or> (\<exists>en'. sub_lookup r conn sub = Some en' \<and> key \<in> entry_keys en')"
  using assms(2,3) entry_keys_revoked_in
  unfolding exec_lookup [OF assms(1)]
  by (fastforce split: reg_instr.splits if_splits list.splits)

lemma orderly_index_complete:
  assumes "advance i s = Some t" "next_instr i s = Some y" "\<not> disturbs s y" "sys_inv s"
  shows "index_complete t"
  unfolding index_complete_def
proof (intro allI impI)
  fix conn sub en key
  assume look: "sub_lookup (sy_reg t) conn sub = Some en" and key: "key \<in> entry_keys en"
  from assms(1) obtain x xs g new where x: "next_instr i s = Some x" "x \<in> pending s"
    and e: "exec x (sy_reg s, sy_guards s) = Some ((sy_reg t, g), new)"
    and sup: "pending s \<subseteq> insert x (pending t)" and new: "set new \<subseteq> pending t" by (rule advanceE)
  show "(conn, sub) \<in> postings (sy_reg t) key \<or> Push key (conn, sub) \<in> pending t"
  proof (cases "x = Put conn sub en")
    case True
    then show ?thesis using exec_put_pushes [OF e [unfolded True], of key] key new by auto
  next
    case False
    then obtain en' where old: "sub_lookup (sy_reg s) conn sub = Some en'" "key \<in> entry_keys en'"
      using exec_lookup_origin [OF e look key] by blast
    then have "(conn, sub) \<in> postings (sy_reg s) key \<or> Push key (conn, sub) \<in> pending s"
      using assms(4) unfolding sys_inv_def index_complete_def by blast
    moreover have "(conn, sub) \<in> postings (sy_reg t) key" if "x = Push key (conn, sub)"
      using exec_postings [OF e, of key] that by simp
    moreover have "(conn, sub) \<in> postings (sy_reg t) key" if p: "(conn, sub) \<in> postings (sy_reg s) key"
    proof -
      have "x \<noteq> Retain key (conn, sub)"
        using assms(4) x(2) old unfolding sys_inv_def retains_stale_def by blast
      moreover have "x \<noteq> DropKey key"
        using assms(4) x(2) p unfolding sys_inv_def drops_empty_def by blast
      ultimately show ?thesis using p by (auto simp: exec_postings [OF e] split: reg_instr.splits)
    qed
    ultimately show ?thesis using sup by blast
  qed
qed

lemma orderly_retains_stale:
  assumes "advance i s = Some t" "next_instr i s = Some y" "\<not> disturbs s y" "sys_inv s"
  shows "retains_stale t"
  unfolding retains_stale_def
proof (intro allI impI)
  fix conn sub en key
  assume ret: "Retain key (conn, sub) \<in> pending t" and look: "sub_lookup (sy_reg t) conn sub = Some en"
  from assms(1) obtain x xs g new where x: "next_instr i s = Some x"
    and e: "exec x (sy_reg s, sy_guards s) = Some ((sy_reg t, g), new)"
    and sub: "pending t \<subseteq> pending s \<union> set new" by (rule advanceE)
  show "key \<notin> entry_keys en"
  proof
    assume key: "key \<in> entry_keys en"
    have "Retain key (conn, sub) \<notin> set new" using exec_new_retain [OF e] look key by blast
    then have old: "Retain key (conn, sub) \<in> pending s" using ret sub by blast
    then have "x \<noteq> Put conn sub en" using assms(2,3) x by force
    then show False
      using exec_lookup_origin [OF e look key] old assms(4) unfolding sys_inv_def retains_stale_def by blast
  qed
qed

lemma orderly_drops_empty:
  assumes "advance i s = Some t" "next_instr i s = Some y" "\<not> disturbs s y" "sys_inv s"
  shows "drops_empty t"
  unfolding drops_empty_def
proof (intro allI impI)
  fix key
  assume drop: "DropKey key \<in> pending t"
  from assms(1) obtain x xs g new where x: "next_instr i s = Some x"
    and e: "exec x (sy_reg s, sy_guards s) = Some ((sy_reg t, g), new)"
    and sub: "pending t \<subseteq> pending s \<union> set new" by (rule advanceE)
  show "postings (sy_reg t) key = {}"
  proof (cases "DropKey key \<in> set new")
    case True
    then show ?thesis by (rule exec_new_drop [OF e])
  next
    case False
    then have old: "DropKey key \<in> pending s" using drop sub by blast
    then have "postings (sy_reg s) key = {}" using assms(4) unfolding sys_inv_def drops_empty_def by blast
    moreover have "x \<noteq> Push key e'" for e' using assms(2,3) x old by auto
    ultimately show ?thesis by (auto simp: exec_postings [OF e] split: reg_instr.splits)
  qed
qed

lemma sys_inv_begin:
  assumes "is_call p" "sys_inv s" shows "sys_inv (begin_call p s)"
proof -
  have "Retain key e \<notin> set p \<and> DropKey key \<notin> set p" for key e
    using assms(1) by cases (auto simp: register_call_def remove_call_def disconnect_call_def revoke_call_def)
  moreover have reg: "sy_reg (begin_call p s) = sy_reg s" by (simp add: begin_call_def)
  moreover have "index_complete (begin_call p s)"
    using assms(2) unfolding sys_inv_def index_complete_def pending_begin reg by blast
  ultimately show ?thesis using assms(2)
    unfolding sys_inv_def retains_stale_def drops_empty_def pending_begin by auto
qed

lemma sys_inv_advance:
  assumes "advance i s = Some t" "next_instr i s = Some y" "\<not> disturbs s y" "sys_inv s"
  shows "sys_inv t"
proof -
  have "tables_wf (sy_reg t)"
    using assms(1,4) exec_tables_wf by (metis advanceE sys_inv_def)
  then show ?thesis
    using orderly_index_complete [OF assms] orderly_retains_stale [OF assms] orderly_drops_empty [OF assms]
    by (simp add: sys_inv_def)
qed

interpretation calls: invariant_system "\<lambda>s. s = sys_new" orderly_step sys_inv
proof
  show "sys_inv s" if "s = sys_new" for s
    using reg_inv_new unfolding that
    by (auto simp: sys_inv_def sys_new_def reg_inv_def index_complete_def retains_stale_def drops_empty_def
        pending_def sub_lookup_def SubscriptionRegistry_new_def)
  show "sys_inv t" if "orderly_step s t" "sys_inv s" for s t
    using that by cases (auto intro: sys_inv_begin sys_inv_advance)
qed

abbreviation orderly_reach :: "reg_system \<Rightarrow> bool" where
  "orderly_reach \<equiv> reach (\<lambda>s. s = sys_new) orderly_step"





subsection \<open>Revocation while other calls run\<close>

fun inserts :: "ConnId \<Rightarrow> reg_instr \<Rightarrow> bool" where
  "inserts conn (Put conn' sub en) \<longleftrightarrow> conn' = conn"
| "inserts conn _ \<longleftrightarrow> False"

text \<open>An orderly step that inserts no subscription for the connection.\<close>

inductive sparing_step :: "ConnId \<Rightarrow> reg_system \<Rightarrow> reg_system \<Rightarrow> bool" for conn where
  sparing_begin: "is_call p \<Longrightarrow> sparing_step conn s (begin_call p s)"
| sparing_advance: "advance i s = Some t \<Longrightarrow> next_instr i s = Some x \<Longrightarrow> \<not> disturbs s x \<Longrightarrow>
    \<not> inserts conn x \<Longrightarrow> sparing_step conn s t"

lemma sparing_orderly: "sparing_step conn s t \<Longrightarrow> orderly_step s t"
  by (cases rule: sparing_step.cases) (auto intro: orderly_step.intros)

text \<open>The subscriptions of the connection that still cover the channel, and those the
  revocation has still to visit.\<close>

definition covering :: "CommunityId \<Rightarrow> ConnId \<Rightarrow> uuid \<Rightarrow> SubscriptionRegistry \<Rightarrow> SubId set" where
  "covering c conn ch r =
     {sub. \<exists>filters chs. sub_lookup r conn sub = Some (filters, c, Channels chs) \<and> ch \<in> set chs}"

fun visits :: "CommunityId \<Rightarrow> ConnId \<Rightarrow> uuid \<Rightarrow> reg_instr \<Rightarrow> SubId set" where
  "visits c conn ch (Collect c' conn' ch') = (if (c', conn', ch') = (c, conn, ch) then UNIV else {})"
| "visits c conn ch (Revoke c' conn' ch' sub_ids) =
     (if (c', conn', ch') = (c, conn, ch) then set sub_ids else {})"
| "visits c conn ch _ = {}"

definition covers :: "CommunityId \<Rightarrow> uuid \<Rightarrow> SubEntry \<Rightarrow> bool" where
  "covers c ch en \<longleftrightarrow> (\<exists>filters chs. en = (filters, c, Channels chs) \<and> ch \<in> set chs)"

lemma covering_iff: "sub \<in> covering c conn ch r \<longleftrightarrow> (\<exists>en. sub_lookup r conn sub = Some en \<and> covers c ch en)"
  by (auto simp: covering_def covers_def)

lemma covers_revoked_in: "covers c ch (revoked_in ch' en) \<longleftrightarrow> covers c ch en \<and> ch \<noteq> ch'"
  by (cases en rule: entry_keys.cases) (auto simp: covers_def revoked_in_def)

lemma covering_shrinks:
  assumes "exec x (r, g) = Some ((r', g'), new)" "\<not> inserts conn x"
  shows "covering c conn ch r' \<subseteq> covering c conn ch r"
proof
  fix sub assume "sub \<in> covering c conn ch r'"
  then obtain en where en: "sub_lookup r' conn sub = Some en" "covers c ch en"
    by (auto simp: covering_iff)
  have "sub_lookup r conn sub = Some en \<or> (\<exists>en' ch'. sub_lookup r conn sub = Some en' \<and> en = revoked_in ch' en')"
    using en(1) assms(2) unfolding exec_lookup [OF assms(1)]
    by (cases x) (auto split: if_splits list.splits)
  then show "sub \<in> covering c conn ch r"
    using en(2) by (auto simp: covering_iff covers_revoked_in)
qed

lemma covering_collected:
  assumes "sub \<in> covering c conn ch r"
  shows "sub \<in> set (case hm_get (subs r) conn of None \<Rightarrow> []
     | Some conn_subs \<Rightarrow> map fst (filter (\<lambda>(sub, filters, c', scope).
         c' = c \<and> ch \<in> set (channel_ids scope)) conn_subs))"
  using assms
  by (auto simp: covering_iff covers_def sub_lookup_def image_iff split: option.splits
      dest!: map_of_SomeD intro!: bexI)

lemma covering_visited:
  assumes "exec x (r, g) = Some ((r', g'), new)"
  shows "covering c conn ch r' \<inter> visits c conn ch x \<subseteq> (\<Union>y \<in> set new. visits c conn ch y)"
proof (cases "\<exists>sub sub_ids. x = Revoke c conn ch (sub # sub_ids)")
  case True
  then obtain sub sub_ids where x: "x = Revoke c conn ch (sub # sub_ids)" by blast
  have "sub \<notin> covering c conn ch r'"
    using exec_lookup [OF assms, of conn sub] covers_revoked_in [of c ch ch]
    by (auto simp: x covering_iff simp del: split_paired_Ex) metis
  moreover have "new = [] \<longrightarrow> covering c conn ch r' = {}" "new \<noteq> [] \<longrightarrow> last new = Revoke c conn ch sub_ids"
    using assms unfolding x
    by (auto simp: Let_def covering_iff sub_lookup_def split: if_splits option.splits SubscriptionScope.splits)
  moreover have "set sub_ids \<subseteq> (\<Union>y \<in> set new. visits c conn ch y)"
    if "last new = Revoke c conn ch sub_ids" "new \<noteq> []"
  proof -
    have "Revoke c conn ch sub_ids \<in> set new" using that by (metis last_in_set)
    then show ?thesis by force
  qed
  ultimately show ?thesis by (cases "new = []") (auto simp: x)
next
  case False
  then show ?thesis using assms
    by (cases "(x, (r, g))" rule: exec.cases)
       (auto split: if_splits dest: covering_collected)
qed

text \<open>What the instructions of a revocation call may be.\<close>

fun revocation_instr :: "ConnId \<Rightarrow> reg_instr \<Rightarrow> bool" where
  "revocation_instr conn (Collect c conn' ch) \<longleftrightarrow> conn' = conn"
| "revocation_instr conn (Revoke c conn' ch sub_ids) \<longleftrightarrow> conn' = conn"
| "revocation_instr conn (Retain key e) \<longleftrightarrow> fst e = conn"
| "revocation_instr conn (DropKey key) \<longleftrightarrow> True"
| "revocation_instr conn (Forget conn' sub) \<longleftrightarrow> conn' = conn"
| "revocation_instr conn (Gauge n) \<longleftrightarrow> True"
| "revocation_instr conn (Release conn') \<longleftrightarrow> conn' = conn"
| "revocation_instr conn _ \<longleftrightarrow> False"

lemma revocation_closed:
  assumes "exec x (r, g) = Some ((r', g'), new)" "revocation_instr conn x" "y \<in> set new"
  shows "revocation_instr conn y"
  using assms
  by (cases "(x, (r, g))" rule: exec.cases)
     (auto simp: Let_def case_prod_beta split: if_splits option.splits SubscriptionScope.splits)

definition revoking :: "CommunityId \<Rightarrow> ConnId \<Rightarrow> uuid \<Rightarrow> nat \<Rightarrow> reg_system \<Rightarrow> bool" where
  "revoking c conn ch n s \<longleftrightarrow> n < length (sy_calls s) \<and>
     list_all (revocation_instr conn) (sy_calls s ! n) \<and>
     covering c conn ch (sy_reg s) \<subseteq> (\<Union>y \<in> set (sy_calls s ! n). visits c conn ch y)"

lemma revoking_begin:
  "revoking c conn ch (length (sy_calls s)) (begin_call (revoke_call c conn ch) s)"
  by (simp add: revoking_def begin_call_def revoke_call_def)

lemma revoking_step:
  assumes "sparing_step conn s t" "revoking c conn ch n s"
  shows "revoking c conn ch n t"
  using assms(1)
proof cases
  case (sparing_begin p)
  then show ?thesis using assms(2) by (simp add: revoking_def begin_call_def nth_append)
next
  case (sparing_advance i y)
  then obtain x xs g new where x: "next_instr i s = Some x"
    and e: "exec x (sy_reg s, sy_guards s) = Some ((sy_reg t, g), new)"
    and i: "i < length (sy_calls s)" "sy_calls s ! i = x # xs" "sy_calls t = (sy_calls s)[i := new @ xs]"
    by (elim advanceE)
  have shrink: "covering c conn ch (sy_reg t) \<subseteq> covering c conn ch (sy_reg s)"
    using covering_shrinks [OF e] x sparing_advance by simp
  show ?thesis
  proof (cases "i = n")
    case False
    then show ?thesis using assms(2) shrink i by (auto simp: revoking_def)
  next
    case True
    have "list_all (revocation_instr conn) (x # xs)" using assms(2) i True by (simp add: revoking_def)
    then have "list_all (revocation_instr conn) (new @ xs)"
      using revocation_closed [OF e] by (auto simp: list_all_iff)
    moreover have "covering c conn ch (sy_reg t) \<subseteq> (\<Union>y \<in> set (new @ xs). visits c conn ch y)"
      using assms(2) i True shrink covering_visited [OF e, of c conn ch] by (auto simp: revoking_def)
    ultimately show ?thesis using i True by (simp add: revoking_def)
  qed
qed

lemma revoking_run:
  "(sparing_step conn)\<^sup>*\<^sup>* s t \<Longrightarrow> revoking c conn ch n s \<Longrightarrow> revoking c conn ch n t"
  by (induction rule: rtranclp_induct) (auto intro: revoking_step)

lemma revoked_silent:
  assumes "revoking c conn ch n t" "sy_calls t ! n = []" "se_channel_id ev = Some ch"
  shows "(conn, sub) \<notin> set (fan_out_scoped (sy_reg t) c ev)"
proof
  assume "(conn, sub) \<in> set (fan_out_scoped (sy_reg t) c ev)"
  then obtain filters scope where "sub_lookup (sy_reg t) conn sub = Some (filters, c, scope)"
      "matches_channel scope (Some ch)"
    using assms(3) by (auto simp: set_fan_out delivers_def split: option.splits)
  then have "sub \<in> covering c conn ch (sy_reg t)"
    by (cases scope) (auto simp: covering_def)
  then show False using assms(1,2) by (simp add: revoking_def)
qed

lemma revocation_spares_others:
  assumes "advance n t = Some u" "revoking c conn ch n t" "drops_empty t" "fst e \<noteq> conn"
  shows "e \<in> set (fan_out_scoped (sy_reg u) c' ev) \<longleftrightarrow> e \<in> set (fan_out_scoped (sy_reg t) c' ev)"
proof -
  from assms(1) obtain x xs g new where p: "x \<in> pending t" and call: "sy_calls t ! n = x # xs"
    and ex: "exec x (sy_reg t, sy_guards t) = Some ((sy_reg u, g), new)" by (rule advanceE)
  have own: "revocation_instr conn x" using assms(2) call by (simp add: revoking_def)
  have "postings (sy_reg t) key = {}" if "x = DropKey key" for key
    using assms(3) p that by (simp add: drops_empty_def)
  then have "e \<in> postings (sy_reg u) key \<longleftrightarrow> e \<in> postings (sy_reg t) key" for key
    using own assms(4) by (auto simp: exec_postings [OF ex] split: reg_instr.splits if_splits)
  moreover have "sub_lookup (sy_reg u) (fst e) (snd e) = sub_lookup (sy_reg t) (fst e) (snd e)"
    using own assms(4) by (auto simp: exec_lookup [OF ex] split: reg_instr.splits list.splits)
  ultimately show ?thesis by (auto simp: set_fan_out delivers_def)
qed


subsection \<open>Calls that nothing overlaps\<close>

text \<open>One call alone, with its registry, the guards held and its remaining instructions.\<close>

inductive call_step :: "call_state \<times> reg_instr list \<Rightarrow> call_state \<times> reg_instr list \<Rightarrow> bool" where
  "exec x st = Some (st', new) \<Longrightarrow> call_step (st, x # xs) (st', new @ xs)"

abbreviation call_runs :: "call_state \<times> reg_instr list \<Rightarrow> call_state \<times> reg_instr list \<Rightarrow> bool" where
  "call_runs \<equiv> call_step\<^sup>*\<^sup>*"

lemma call_first: "exec x st = Some (st', new) \<Longrightarrow> call_runs (st', new @ xs) q \<Longrightarrow> call_runs (st, x # xs) q"
  by (meson call_step.intros converse_rtranclp_into_rtranclp)

lemma runs_plain:
  "call_runs ((r\<lparr>gauge := gauge r + n\<rparr>, g), xs) q \<Longrightarrow> call_runs ((r, g), Gauge n # xs) q"
  "call_runs ((r, remove1 conn g), xs) q \<Longrightarrow> call_runs ((r, g), Release conn # xs) q"
  "call_runs ((r\<lparr>subs := hm_insert conn (hm_remove sub (hm_list (subs r) conn)) (subs r)\<rparr>, g), xs) q \<Longrightarrow>
     call_runs ((r, g), Forget conn sub # xs) q"
  by (auto intro: call_first)

definition drop_posting :: "ConnId \<times> SubId \<Rightarrow> ixkey \<Rightarrow> SubscriptionRegistry \<Rightarrow> SubscriptionRegistry" where
  "drop_posting e key r =
     (let (r', emptied) = retain_key key e r in if emptied then remove_key key r' else r')"

lemma fold_concat_map: "fold f (concat (map g xs)) = fold (\<lambda>x. fold f (g x)) xs"
  by (induction xs) simp_all

lemma add_to_index_steps:
  "add_to_index e filters c scope r = fold (\<lambda>key. push_key key e) (entry_key_list (filters, c, scope)) r"
proof -
  have "(case extract_kinds_from_filters filters of
          None \<Rightarrow> channel_wildcard_index_update (ix_push (c, ch_id) e)
        | Some kinds \<Rightarrow> if kinds = [] then id
            else fold (\<lambda>kind. channel_kind_index_update
                   (ix_push (c, \<lparr>ik_channel_id = ch_id, ik_kind = kind\<rparr>) e)) kinds) =
        fold (\<lambda>key. push_key key e) (case extract_kinds_from_filters filters of
          None \<Rightarrow> [ChannelWildcard c ch_id]
        | Some kinds \<Rightarrow> map (\<lambda>kind. ChannelKind c \<lparr>ik_channel_id = ch_id, ik_kind = kind\<rparr>) kinds)" for ch_id
    by (simp add: fold_map comp_def split: option.split)
  then show ?thesis
    by (cases scope) (auto simp: add_to_index_def fold_concat_map fold_map comp_def split: option.split)
qed

lemma drop_posting_simps:
  "drop_posting e (ChannelKind c key) = channel_kind_index_update (ix_drop (c, key) e)"
  "drop_posting e (ChannelWildcard c ch) = channel_wildcard_index_update (ix_drop (c, ch) e)"
  "drop_posting e (GlobalKind c kind) = global_kind_index_update (ix_drop (c, kind) e)"
  "drop_posting e (GlobalPKind gkey) = global_p_kind_index_update (ix_drop gkey e)"
  "drop_posting e (GlobalWildcard c) = global_wildcard_index_update (ix_drop c e)"
  by (intro ext SubscriptionRegistry.equality; simp add: drop_posting_def ix_drop_def case_prod_beta Let_def)+

lemma remove_from_index_steps:
  "remove_from_index conn sub filters c scope r =
     fold (drop_posting (conn, sub)) (entry_key_list (filters, c, scope)) r"
proof -
  let ?e = "(conn, sub)"
  have "(case extract_kinds_from_filters filters of
          None \<Rightarrow> channel_wildcard_index_update (ix_drop (c, ch_id) ?e)
        | Some kinds \<Rightarrow> if kinds = [] then id
            else fold (\<lambda>kind. channel_kind_index_update
                   (ix_drop (c, \<lparr>ik_channel_id = ch_id, ik_kind = kind\<rparr>) ?e)) kinds) =
        fold (drop_posting ?e) (case extract_kinds_from_filters filters of
          None \<Rightarrow> [ChannelWildcard c ch_id]
        | Some kinds \<Rightarrow> map (\<lambda>kind. ChannelKind c \<lparr>ik_channel_id = ch_id, ik_kind = kind\<rparr>) kinds)" for ch_id
    by (simp add: fold_map comp_def drop_posting_simps split: option.split)
  then show ?thesis
    by (cases scope)
       (auto simp: remove_from_index_def fold_concat_map fold_map comp_def drop_posting_simps split: option.split)
qed

lemma runs_retains:
  "call_runs ((fold (drop_posting e) keys r, g), xs) q \<Longrightarrow>
   call_runs ((r, g), map (\<lambda>key. Retain key e) keys @ xs) q"
proof (induction keys arbitrary: r)
  case (Cons key keys)
  obtain r' emptied where k: "retain_key key e r = (r', emptied)" by (cases "retain_key key e r")
  have "call_runs ((drop_posting e key r, g), map (\<lambda>key. Retain key e) keys @ xs) q"
    using Cons by simp
  then show ?case
    by (cases emptied) (auto simp: k drop_posting_def intro!: call_first)
qed simp

lemma runs_pushes:
  "call_runs ((fold (\<lambda>key. push_key key e) keys r, g), xs) q \<Longrightarrow>
   call_runs ((r, g), map (\<lambda>key. Push key e) keys @ xs) q"
  by (induction keys arbitrary: r) (auto intro!: call_first)

lemma runs_take:
  assumes "conn \<notin> set g" "call_runs ((fst (remove_subscription r conn sub), g), xs) q"
  shows "call_runs ((r, g), Take conn sub # xs) q"
proof (cases "sub_lookup r conn sub")
  case None
  then have "remove_subscription r conn sub = (r, None)" by (rule remove_subscription_None)
  then show ?thesis using assms None
    by (intro call_first [where st' = "(r, g)" and new = "[]"])
       (auto simp: sub_lookup_def split: option.splits)
next
  case (Some en)
  obtain filters c scope where en: "en = (filters, c, scope)" by (cases en)
  obtain m where m: "hm_get (subs r) conn = Some m" "hm_get m sub = Some (filters, c, scope)"
    using Some by (auto simp: sub_lookup_def en split: option.splits)
  let ?r1 = "r\<lparr>subs := hm_insert conn (hm_remove sub m) (subs r)\<rparr>"
  let ?r2 = "remove_from_index conn sub filters c scope ?r1"
  have "call_runs ((?r2, conn # g), [Release conn, Gauge (- 1)] @ xs) q"
    using assms(2) m by (auto simp: remove_subscription_def Let_def intro!: call_first)
  then have "call_runs ((?r1, conn # g), map (\<lambda>key. Retain key (conn, sub)) (entry_key_list en) @
      [Release conn, Gauge (- 1)] @ xs) q"
    by (intro runs_retains) (simp add: remove_from_index_steps en)
  then show ?thesis using assms(1) m en by (intro call_first) auto
qed

lemma runs_register:
  assumes "conn \<notin> set g"
  shows "call_runs ((r, g), register_call c conn sub filters scope)
           ((fst (register_with_scope r c conn sub filters scope), g), [])"
proof -
  let ?r1 = "fst (remove_subscription r conn sub)"
  let ?en = "(filters, c, scope)"
  let ?r2 = "?r1\<lparr>subs := hm_insert conn (hm_insert sub ?en (hm_list (subs ?r1) conn)) (subs ?r1)\<rparr>"
  have reg: "fst (register_with_scope r c conn sub filters scope) =
      fold (\<lambda>key. push_key key (conn, sub)) (entry_key_list ?en) (?r2\<lparr>gauge := gauge ?r1 + 1\<rparr>)"
    by (simp add: register_with_scope_def add_to_index_steps case_prod_beta Let_def)
  have "call_runs ((?r2\<lparr>gauge := gauge ?r1 + 1\<rparr>, g), map (\<lambda>key. Push key (conn, sub)) (entry_key_list ?en) @ [])
      ((fst (register_with_scope r c conn sub filters scope), g), [])"
    by (rule runs_pushes) (simp add: reg)
  then have "call_runs ((?r1, g), [Put conn sub ?en]) ((fst (register_with_scope r c conn sub filters scope), g), [])"
    using assms by (auto intro!: call_first)
  then show ?thesis unfolding register_call_def using assms by (intro runs_take)
qed

lemma runs_disconnect_retains:
  "call_runs ((fold (\<lambda>(sub, filters, c, scope) r. remove_from_index conn sub filters c scope r) m r, g), xs) q \<Longrightarrow>
   call_runs ((r, g), concat (map (\<lambda>(sub, en). map (\<lambda>key. Retain key (conn, sub)) (entry_key_list en)) m) @ xs) q"
proof (induction m arbitrary: r)
  case (Cons p m)
  obtain sub filters c scope where p: "p = (sub, filters, c, scope)" by (cases p)
  show ?case using Cons unfolding p
    by (auto simp: remove_from_index_steps intro!: runs_retains)
qed simp

lemma runs_disconnect:
  assumes "conn \<notin> set g"
  shows "call_runs ((r, g), disconnect_call conn) ((fst (remove_connection r conn), g), [])"
proof (cases "hm_get (subs r) conn")
  case None
  then show ?thesis using assms by (auto simp: disconnect_call_def remove_connection_def intro!: call_first)
next
  case (Some m)
  show ?thesis unfolding disconnect_call_def
    using assms Some
    by (intro call_first, simp, simp, intro runs_disconnect_retains)
       (auto simp: remove_connection_def Let_def intro!: call_first)
qed

lemma runs_revoke_loop:
  assumes "conn \<notin> set g"
  shows "call_runs ((r, g), [Revoke c conn ch sub_ids])
           ((fst (revoke_loop c conn ch r updates sub_ids), g), [])"
proof (induction sub_ids arbitrary: r updates)
  case Nil
  then show ?case by (auto intro!: call_first)
next
  case (Cons sub sub_ids)
  show ?case
  proof (cases "\<exists>m filters c' chs. hm_get (subs r) conn = Some m \<and> hm_get m sub = Some (filters, c', Channels chs)")
    case False
    then show ?thesis using assms Cons
      by (cases "hm_get (subs r) conn")
         (auto split: option.split SubscriptionScope.split intro!: call_first)
  next
    case True
    then obtain m filters c' chs where m: "hm_get (subs r) conn = Some m"
      "hm_get m sub = Some (filters, c', Channels chs)" by blast
    let ?chs = "filter (\<lambda>candidate. candidate \<noteq> ch) chs"
    let ?r1 = "r\<lparr>subs := hm_insert conn (hm_insert sub (filters, c', Channels ?chs) m) (subs r)\<rparr>"
    let ?r2 = "remove_from_index conn sub filters c (Channels [ch]) ?r1"
    let ?r3 = "revoke_entry c conn ch r m sub filters c' chs"
    let ?u = "updates @ [\<lparr>cu_sub_id = sub, cu_removed = (?chs = [])\<rparr>]"
    let ?q = "((fst (revoke_loop c conn ch ?r3 ?u sub_ids), g), [])"
    have last: "call_runs ((?r3, g), [Revoke c conn ch sub_ids]) ?q" by (rule Cons)
    have "call_runs ((?r2, conn # g), (if ?chs = [] then [Forget conn sub, Gauge (- 1)] else []) @
        [Release conn, Revoke c conn ch sub_ids]) ?q"
      using last by (cases "?chs = []") (auto simp: revoke_entry_def Let_def intro!: runs_plain)
    then have "call_runs ((?r1, conn # g), map (\<lambda>key. Retain key (conn, sub))
        (entry_key_list (filters, c, Channels [ch])) @
        (if ?chs = [] then [Forget conn sub, Gauge (- 1)] else []) @ [Release conn, Revoke c conn ch sub_ids]) ?q"
      by (intro runs_retains) (simp add: remove_from_index_steps)
    then show ?thesis using assms m by (intro call_first) (auto simp: Let_def)
  qed
qed

lemma runs_revoke:
  assumes "conn \<notin> set g"
  shows "call_runs ((r, g), revoke_call c conn ch)
           ((fst (remove_channel_subscriptions_scoped r c conn ch), g), [])"
  unfolding revoke_call_def remove_channel_subscriptions_scoped_def Let_def
  using assms by (intro call_first) (auto intro!: runs_revoke_loop)

lemma runs_remove:
  assumes "conn \<notin> set g"
  shows "call_runs ((r, g), remove_call conn sub) ((fst (remove_subscription r conn sub), g), [])"
  unfolding remove_call_def by (rule runs_take [OF assms]) simp


lemma call_step_unique: "call_step p q \<Longrightarrow> call_step p q' \<Longrightarrow> q' = q"
  by (auto elim!: call_step.cases)

lemma call_runs_unique:
  assumes "call_runs p (st, [])" "call_runs p (st', [])" shows "st' = st"
proof -
  have stuck: "\<not> call_step (st, []) q" for st q by (auto elim: call_step.cases)
  from assms have "(st', []) = (st, [] :: reg_instr list)"
  proof (induction rule: converse_rtranclp_induct)
    case base
    then show ?case using stuck by (metis converse_rtranclpE)
  next
    case (step p q)
    then show ?case using call_step_unique stuck by (metis converse_rtranclpE)
  qed
  then show ?thesis by simp
qed

text \<open>A whole call that nothing overlaps, from a registry with no guard held to the next one.\<close>

inductive serial_step :: "SubscriptionRegistry \<Rightarrow> SubscriptionRegistry \<Rightarrow> bool" where
  "is_call p \<Longrightarrow> call_runs ((r, []), p) ((r', []), []) \<Longrightarrow> serial_step r r'"

abbreviation serial_reach :: "SubscriptionRegistry \<Rightarrow> bool" where
  "serial_reach \<equiv> reach (\<lambda>r. r = SubscriptionRegistry_new) serial_step"

lemma reg_step_register: "reg_step r (fst (register_with_scope r c conn sub filters scope))"
  using step_register [of r c conn sub filters None] step_register_channels [of r c conn sub filters]
  by (cases scope) (auto simp: register_scoped_def register_channels_scoped_def)

lemma serial_is_reg_step:
  assumes "serial_step r r'" shows "reg_step r r'"
proof -
  from assms obtain p where p: "is_call p" and run: "call_runs ((r, []), p) ((r', []), [])"
    by (auto elim: serial_step.cases)
  have same: "r' = r''" if "call_runs ((r, []), p) ((r'', []), [])" for r''
    using call_runs_unique [OF that run] by simp
  show ?thesis using p
  proof cases
    case (1 c conn sub filters scope)
    then show ?thesis using same runs_register [of conn "[]" r c sub filters scope]
      by (auto intro: reg_step_register)
  next
    case (2 conn sub)
    then show ?thesis using same runs_remove [of conn "[]" r sub] by (auto intro: step_remove)
  next
    case (3 conn)
    then show ?thesis using same runs_disconnect [of conn "[]" r] by (auto intro: step_disconnect)
  next
    case (4 c conn ch)
    then show ?thesis using same runs_revoke [of conn "[]" r c ch] by (auto intro: step_revoke)
  qed
qed

lemma reg_step_is_serial:
  assumes "reg_step r r'" shows "serial_step r r'"
  using assms
  by cases (auto simp: register_scoped_def register_channels_scoped_def
    intro!: serial_step.intros [OF is_call.intros(1) runs_register]
      serial_step.intros [OF is_call.intros(2) runs_remove]
      serial_step.intros [OF is_call.intros(3) runs_disconnect]
      serial_step.intros [OF is_call.intros(4) runs_revoke])

interpretation serial: invariant_system "\<lambda>r. r = SubscriptionRegistry_new" serial_step reg_inv
proof
  show "reg_inv s" if "s = SubscriptionRegistry_new" for s using that reg_inv_new by simp
  show "reg_inv t" if "serial_step s t" "reg_inv s" for s t
    using registry.inv_step [OF serial_is_reg_step [OF that(1)] that(2)] .
qed

subsection \<open>Running a schedule\<close>

fun run_sched :: "nat list \<Rightarrow> reg_system \<Rightarrow> reg_system option" where
  "run_sched [] s = Some s"
| "run_sched (i # is) s = (case advance i s of None \<Rightarrow> None | Some t \<Rightarrow> run_sched is t)"

lemma run_sched_steps: "run_sched is s = Some t \<Longrightarrow> sys_step\<^sup>*\<^sup>* s t"
  by (induction "is" arbitrary: s)
     (auto split: option.splits intro: converse_rtranclp_into_rtranclp sys_advance)

text \<open>The same with a condition every step has to meet.\<close>

fun run_checked :: "(reg_system \<Rightarrow> reg_instr \<Rightarrow> bool) \<Rightarrow> nat list \<Rightarrow> reg_system \<Rightarrow> reg_system option" where
  "run_checked ok [] s = Some s"
| "run_checked ok (i # is) s =
     (case next_instr i s of
        None \<Rightarrow> None
      | Some x \<Rightarrow>
          if ok s x then (case advance i s of None \<Rightarrow> None | Some t \<Rightarrow> run_checked ok is t)
          else None)"

abbreviation run_orderly :: "nat list \<Rightarrow> reg_system \<Rightarrow> reg_system option" where
  "run_orderly \<equiv> run_checked (\<lambda>s x. \<not> disturbs s x)"

abbreviation run_sparing :: "ConnId \<Rightarrow> nat list \<Rightarrow> reg_system \<Rightarrow> reg_system option" where
  "run_sparing conn \<equiv> run_checked (\<lambda>s x. \<not> disturbs s x \<and> \<not> inserts conn x)"

lemma run_checked_steps:
  assumes "\<And>i s t x. advance i s = Some t \<Longrightarrow> next_instr i s = Some x \<Longrightarrow> ok s x \<Longrightarrow> step s t"
  shows "run_checked ok is s = Some t \<Longrightarrow> step\<^sup>*\<^sup>* s t"
  by (induction "is" arbitrary: s)
     (auto split: option.splits if_splits intro: converse_rtranclp_into_rtranclp assms)

lemma run_sparing_steps: "run_sparing conn is s = Some t \<Longrightarrow> (sparing_step conn)\<^sup>*\<^sup>* s t"
  by (rule run_checked_steps) (auto intro: sparing_advance)

lemma orderly_reach_steps: "orderly_step\<^sup>*\<^sup>* s t \<Longrightarrow> orderly_reach s \<Longrightarrow> orderly_reach t"
  by (induction rule: rtranclp_induct) (auto intro: reach_step [where step = orderly_step])

lemma run_orderly_reach:
  assumes "run_orderly is s = Some t" "orderly_reach s" shows "orderly_reach t"
proof -
  have "orderly_step\<^sup>*\<^sup>* s t" by (rule run_checked_steps [OF _ assms(1)]) (auto intro: orderly_advance)
  then show ?thesis using assms(2) by (rule orderly_reach_steps)
qed

lemma orderly_reach_begin: "is_call p \<Longrightarrow> orderly_reach s \<Longrightarrow> orderly_reach (begin_call p s)"
  by (auto intro: reach_step [where step = orderly_step] orderly_begin)

text \<open>
  Three calls on one channel: a connection registers a wildcard subscription and closes it while
  another connection registers one.
\<close>

definition race_calls :: reg_system where
  "race_calls =
     begin_call (register_call ''c1'' ''k2'' ''s2'' [any_filter] (Channels [''ch'', ''ch2'']))
       (begin_call (remove_call ''k1'' ''s1'')
         (begin_call (register_call ''c1'' ''k1'' ''s1'' [any_filter] (Channels [''ch''])) sys_new))"

lemma race_calls_reach: "orderly_reach race_calls"
  unfolding race_calls_def
  by (intro orderly_reach_begin is_call.intros reach_init) simp

text \<open>The second registration overlaps the removal: around it, and inside its window.\<close>

definition overlap_end :: reg_system where
  "overlap_end = the (run_orderly [0, 0, 0, 0, 2, 2, 1, 1, 2, 1, 1, 1, 2, 2] race_calls)"

definition race_end :: reg_system where
  "race_end = the (run_sched [0, 0, 0, 0, 1, 1, 2, 2, 2, 2, 2, 1, 1, 1] race_calls)"

lemma overlap_end_reach: "orderly_reach overlap_end"
proof -
  have "run_orderly [0, 0, 0, 0, 2, 2, 1, 1, 2, 1, 1, 1, 2, 2] race_calls = Some overlap_end" by code_simp
  then show ?thesis by (rule run_orderly_reach [OF _ race_calls_reach])
qed

text \<open>A revocation for the second connection, overlapped by the registration of a third.\<close>

definition revoke_begin :: reg_system where
  "revoke_begin = begin_call (register_call ''c1'' ''k3'' ''s3'' [any_filter] (Channels [''ch'']))
     (begin_call (revoke_call ''c1'' ''k2'' ''ch'') overlap_end)"

definition revoke_end :: reg_system where
  "revoke_end = the (run_sparing ''k2'' [3, 3, 4, 4, 3, 4, 3, 4, 3, 3] revoke_begin)"

subsection \<open>Properties\<close>



text \<open>
  C3. Revocation takes effect while other calls run: let a revocation of a channel for a connection
  be started in any reachable state and let other calls overlap it, none of which inserts a
  subscription for that connection. When it has finished, no event of the channel is fanned out
  to the connection in that community; and no step of it changes what any other connection is
  sent for any event. (Postings are not pushed under a key being removed, and nothing is
  inserted while it is still being unindexed, as for the fan-out.)
\<close>

theorem revoked_channel_not_delivered:
  assumes "orderly_reach s"
    and "(sparing_step conn)\<^sup>*\<^sup>* (begin_call (revoke_call c conn ch) s) t"
    and "se_channel_id ev = Some ch"
  shows "(sy_calls t ! length (sy_calls s) = [] \<longrightarrow> conn \<notin> fst ` set (fan_out_scoped (sy_reg t) c ev)) \<and>
    (\<forall>u c' ev'. advance (length (sy_calls s)) t = Some u \<longrightarrow>
       {e \<in> set (fan_out_scoped (sy_reg u) c' ev'). fst e \<noteq> conn} =
       {e \<in> set (fan_out_scoped (sy_reg t) c' ev'). fst e \<noteq> conn})"
proof -
  let ?s = "begin_call (revoke_call c conn ch) s"
  have "orderly_step\<^sup>*\<^sup>* ?s t"
    using assms(2) by (induction rule: rtranclp_induct)
      (auto intro: sparing_orderly rtranclp.rtrancl_into_rtrancl)
  then have "sys_inv t"
    using calls.steps_inv calls.reach_inv assms(1) sys_inv_begin is_call.intros(4) by meson
  then have drops: "drops_empty t" by (simp add: sys_inv_def)
  have rev: "revoking c conn ch (length (sy_calls s)) t"
    by (rule revoking_run [OF assms(2) revoking_begin])
  show ?thesis
    using revoked_silent [OF rev _ assms(3)] revocation_spares_others [OF _ rev drops] by auto
qed

theorem revoked_channel_not_delivered_witness:
  "''k2'' \<notin> fst ` set (fan_out_scoped (sy_reg revoke_end) ''c1'' chat_event) \<and>
   fan_out_scoped (sy_reg revoke_end) ''c1'' chat_event = [(''k3'', ''s3'')]"
proof
  let ?r = "begin_call (revoke_call ''c1'' ''k2'' ''ch'') overlap_end"
  have "sparing_step ''k2'' ?r revoke_begin"
    unfolding revoke_begin_def by (intro sparing_begin is_call.intros)
  moreover have "run_sparing ''k2'' [3, 3, 4, 4, 3, 4, 3, 4, 3, 3] revoke_begin = Some revoke_end"
    by code_simp
  ultimately have "(sparing_step ''k2'')\<^sup>*\<^sup>* ?r revoke_end"
    by (rule converse_rtranclp_into_rtranclp [OF _ run_sparing_steps])
  moreover have "length (sy_calls overlap_end) = 3" "sy_calls revoke_end ! 3 = []" by code_simp+
  ultimately show "''k2'' \<notin> fst ` set (fan_out_scoped (sy_reg revoke_end) ''c1'' chat_event)"
    using revoked_channel_not_delivered [OF overlap_end_reach, of "''k2''" "''c1''" "''ch''" revoke_end chat_event]
    by (simp add: chat_event_def)
  show "fan_out_scoped (sy_reg revoke_end) ''c1'' chat_event = [(''k3'', ''s3'')]" by code_simp
qed

text \<open>
  C5. Calls that do not overlap keep the bookkeeping exact: in every registry that whole calls
  produce one after the other, each run step by step to its end with nothing in between, the
  five indexes hold exactly the keys of the live subscriptions, no empty posting list is left
  behind, and the exported gauge equals the number of live subscriptions.
\<close>

theorem registry_consistent:
  assumes "serial_reach r"
  shows "{(key, conn, sub). (conn, sub) \<in> postings r key} =
           {(key, conn, sub). \<exists>en. sub_lookup r conn sub = Some en \<and> key \<in> entry_keys en} \<and>
         indexes_compact r \<and> gauge r = int (total_subscriptions r)"
  using serial.reach_inv [OF assms] by (simp add: reg_inv_def agree_def)

lemma serial_demo: "serial_reach demo_registry"
  using demo_reachable
  by (induction rule: reach.induct)
     (auto intro: reach_init reach_step [where step = serial_step] reg_step_is_serial)

theorem registry_consistent_witness:
  "(ChannelWildcard ''c1'' ''ch2'', ''k2'', ''s2'') \<in>
     {(key, conn, sub). (conn, sub) \<in> postings demo_registry key} \<and> gauge demo_registry = 3"
proof
  show "gauge demo_registry = 3" by code_simp
  have "sub_lookup demo_registry ''k2'' ''s2'' = Some ([any_filter], ''c1'', Channels [''ch'', ''ch2''])"
    by code_simp
  moreover have "extract_kinds_from_filters [any_filter] = None" by code_simp
  ultimately show "(ChannelWildcard ''c1'' ''ch2'', ''k2'', ''s2'') \<in>
     {(key, conn, sub). (conn, sub) \<in> postings demo_registry key}"
    using registry_consistent [OF serial_demo] by simp
qed

text \<open>
  The window of \<open>remove_from_index\<close> is real: a registration that pushes its posting after a
  removal has emptied the list and before it removes the key loses the posting for good. All
  calls have returned, the table holds the subscription and a scan delivers the event to it, but
  the indexed fan-out delivers it to nobody.
\<close>

theorem overlap_loses_posting:
  "\<exists>s. sys_step\<^sup>*\<^sup>* sys_new s \<and> at_rest s \<and>
     linear_scan (sy_reg s) ''c1'' chat_event = [(''k2'', ''s2'')] \<and>
     fan_out_scoped (sy_reg s) ''c1'' chat_event = []"
proof (intro exI conjI)
  have "run_sched [0, 0, 0, 0, 1, 1, 2, 2, 2, 2, 2, 1, 1, 1] race_calls = Some race_end"
    by code_simp
  moreover have "sys_step\<^sup>*\<^sup>* sys_new race_calls"
    unfolding race_calls_def
    by (meson is_call.intros sys_begin r_into_rtranclp rtranclp.rtrancl_into_rtrancl)
  ultimately show "sys_step\<^sup>*\<^sup>* sys_new race_end"
    by (meson run_sched_steps rtranclp_trans)
  show "at_rest race_end" by code_simp
  show "linear_scan (sy_reg race_end) ''c1'' chat_event = [(''k2'', ''s2'')]" by code_simp
  show "fan_out_scoped (sy_reg race_end) ''c1'' chat_event = []" by code_simp
qed

end
