(* ===== verification/Channel_Roles.thy ===== *)
theory Channel_Roles
  imports Buzz_Prelude
begin

text \<open>
  Channel names, visibilities, types and member roles, \<open>crates/buzz-core/src/channel.rs\<close>:
  the canonical form of a name, the text form of the enums and the permission order of roles
  that the git policy compares with. A name is the list of its Unicode scalar values, since
  trimming works on characters; the error texts of \<open>from_str\<close> are represented by the string
  they quote.
\<close>

text \<open>\<open>char::is_whitespace\<close>: the Unicode property \<open>White_Space\<close>.\<close>

definition is_whitespace :: "nat \<Rightarrow> bool" where
  "is_whitespace c \<longleftrightarrow>
     9 \<le> c \<and> c \<le> 13 \<or> c = 32 \<or> c = 133 \<or> c = 160 \<or> c = 5760 \<or> 8192 \<le> c \<and> c \<le> 8202 \<or>
     c = 8232 \<or> c = 8233 \<or> c = 8239 \<or> c = 8287 \<or> c = 12288"

definition trim_end :: "nat list \<Rightarrow> nat list" where
  "trim_end s = rev (dropWhile is_whitespace (rev s))"

text \<open>The hash sign is 35.\<close>

definition canonical_channel_name :: "nat list \<Rightarrow> nat list" where
  "canonical_channel_name name = trim_end (dropWhile (\<lambda>c. c = 35 \<or> is_whitespace c) name)"

datatype ChannelVisibility = Open | Private

fun visibility_as_str :: "ChannelVisibility \<Rightarrow> string" where
  "visibility_as_str Open = ''open''"
| "visibility_as_str Private = ''private''"

definition visibility_from_str :: "string \<Rightarrow> (ChannelVisibility, string) rust_result" where
  "visibility_from_str s =
     (if s = ''open'' then Inr Open
      else if s = ''private'' then Inr Private
      else Inl s)"

datatype ChannelType = Stream | Forum | Dm | Workflow

fun type_as_str :: "ChannelType \<Rightarrow> string" where
  "type_as_str Stream = ''stream''"
| "type_as_str Forum = ''forum''"
| "type_as_str Dm = ''dm''"
| "type_as_str Workflow = ''workflow''"

definition type_from_str :: "string \<Rightarrow> (ChannelType, string) rust_result" where
  "type_from_str s =
     (if s = ''stream'' then Inr Stream
      else if s = ''forum'' then Inr Forum
      else if s = ''dm'' then Inr Dm
      else if s = ''workflow'' then Inr Workflow
      else Inl s)"

datatype MemberRole = Owner | Admin | Member | Guest | Bot

fun role_as_str :: "MemberRole \<Rightarrow> string" where
  "role_as_str Owner = ''owner''"
| "role_as_str Admin = ''admin''"
| "role_as_str Member = ''member''"
| "role_as_str Guest = ''guest''"
| "role_as_str Bot = ''bot''"

definition is_elevated :: "MemberRole \<Rightarrow> bool" where
  "is_elevated role = (case role of Owner \<Rightarrow> True | Admin \<Rightarrow> True | _ \<Rightarrow> False)"

fun permission_level :: "MemberRole \<Rightarrow> u8" where
  "permission_level Owner = 4"
| "permission_level Admin = 3"
| "permission_level Member = 2"
| "permission_level Guest = 1"
| "permission_level Bot = 0"

definition has_at_least :: "MemberRole \<Rightarrow> MemberRole \<Rightarrow> bool" where
  "has_at_least role required \<longleftrightarrow> permission_level role \<ge> permission_level required"

definition role_from_str :: "string \<Rightarrow> (MemberRole, string) rust_result" where
  "role_from_str s =
     (if s = ''owner'' then Inr Owner
      else if s = ''admin'' then Inr Admin
      else if s = ''member'' then Inr Member
      else if s = ''guest'' then Inr Guest
      else if s = ''bot'' then Inr Bot
      else Inl s)"

subsection \<open>Roles\<close>

lemma permission_level_inj: "permission_level a = permission_level b \<longleftrightarrow> a = b"
  by (cases a; cases b) simp_all

lemma has_at_least_refl [simp]: "has_at_least a a"
  by (simp add: has_at_least_def)

lemma has_at_least_trans: "has_at_least a b \<Longrightarrow> has_at_least b c \<Longrightarrow> has_at_least a c"
  by (simp add: has_at_least_def)

lemma role_from_str_Inr: "role_from_str s = Inr r \<longleftrightarrow> s = role_as_str r"
  by (cases r) (auto simp: role_from_str_def split: if_splits)

lemma UNIV_MemberRole: "(UNIV :: MemberRole set) = {Owner, Admin, Member, Guest, Bot}"
  using MemberRole.exhaust by blast

lemma UNIV_ChannelVisibility: "(UNIV :: ChannelVisibility set) = {Open, Private}"
  using ChannelVisibility.exhaust by blast

lemma UNIV_ChannelType: "(UNIV :: ChannelType set) = {Stream, Forum, Dm, Workflow}"
  using ChannelType.exhaust by blast

text \<open>
  The text forms of roles, visibilities and channel types are injective encodings whose
  decoders accept nothing else: a text decodes to a value exactly when it is that value's
  text, and every other text is an error that quotes it.
\<close>

theorem enum_text_roundtrip:
  "(role_from_str s = Inr r \<longleftrightarrow> s = role_as_str r) \<and>
   (visibility_from_str s = Inr v \<longleftrightarrow> s = visibility_as_str v) \<and>
   (type_from_str s = Inr t \<longleftrightarrow> s = type_as_str t) \<and>
   (role_from_str s = Inl e \<longleftrightarrow> e = s \<and> s \<notin> range role_as_str) \<and>
   (visibility_from_str s = Inl e \<longleftrightarrow> e = s \<and> s \<notin> range visibility_as_str) \<and>
   (type_from_str s = Inl e \<longleftrightarrow> e = s \<and> s \<notin> range type_as_str)"
proof (intro conjI)
  have r: "range role_as_str = {''owner'', ''admin'', ''member'', ''guest'', ''bot''}"
    by (simp add: UNIV_MemberRole)
  have v: "range visibility_as_str = {''open'', ''private''}"
    by (simp add: UNIV_ChannelVisibility)
  have t: "range type_as_str = {''stream'', ''forum'', ''dm'', ''workflow''}"
    by (simp add: UNIV_ChannelType)
  show "role_from_str s = Inr r \<longleftrightarrow> s = role_as_str r" by (rule role_from_str_Inr)
  show "visibility_from_str s = Inr v \<longleftrightarrow> s = visibility_as_str v"
    by (cases v) (auto simp: visibility_from_str_def)
  show "type_from_str s = Inr t \<longleftrightarrow> s = type_as_str t"
    by (cases t) (auto simp: type_from_str_def)
  show "role_from_str s = Inl e \<longleftrightarrow> e = s \<and> s \<notin> range role_as_str"
    by (auto simp: r role_from_str_def)
  show "visibility_from_str s = Inl e \<longleftrightarrow> e = s \<and> s \<notin> range visibility_as_str"
    by (auto simp: v visibility_from_str_def)
  show "type_from_str s = Inl e \<longleftrightarrow> e = s \<and> s \<notin> range type_as_str"
    by (auto simp: t type_from_str_def)
qed

subsection \<open>Names\<close>

lemma hd_dropWhile_not: "xs = dropWhile P ys \<Longrightarrow> xs \<noteq> [] \<Longrightarrow> \<not> P (hd xs)"
  by (simp add: hd_dropWhile)

lemma dropWhile_id: "xs = [] \<or> \<not> P (hd xs) \<Longrightarrow> dropWhile P xs = xs"
  by (cases xs) auto

lemma trim_end_prefix: "\<exists>ws. s = trim_end s @ ws \<and> list_all is_whitespace ws"
proof -
  have "s = rev (dropWhile is_whitespace (rev s)) @ rev (takeWhile is_whitespace (rev s))"
    by (metis rev_append rev_rev_ident takeWhile_dropWhile_id)
  moreover have "list_all is_whitespace (rev (takeWhile is_whitespace (rev s)))"
    by (auto simp: list_all_iff dest: set_takeWhileD)
  ultimately show ?thesis unfolding trim_end_def by blast
qed

lemma trim_end_last: "trim_end s \<noteq> [] \<Longrightarrow> \<not> is_whitespace (last (trim_end s))"
  by (simp add: trim_end_def last_rev hd_dropWhile)

text \<open>
  A canonical channel name has no surrounding whitespace and no leading hash, what is cut
  off is only hashes and whitespace in front and whitespace behind, and canonicalising twice
  changes nothing.
\<close>

theorem canonical_name_normal:
  "canonical_channel_name (canonical_channel_name n) = canonical_channel_name n \<and>
   (\<exists>pre post. n = pre @ canonical_channel_name n @ post \<and>
      list_all (\<lambda>c. c = 35 \<or> is_whitespace c) pre \<and> list_all is_whitespace post) \<and>
   (case canonical_channel_name n of [] \<Rightarrow> True
    | c # cs \<Rightarrow> c \<noteq> 35 \<and> \<not> is_whitespace c \<and> \<not> is_whitespace (last (c # cs)))"
proof -
  let ?P = "\<lambda>c. c = 35 \<or> is_whitespace c"
  let ?m = "dropWhile ?P n" and ?c = "canonical_channel_name n"
  obtain ws where ws: "?m = ?c @ ws" "list_all is_whitespace ws"
    using trim_end_prefix [of ?m] by (auto simp: canonical_channel_name_def)
  have "n = takeWhile ?P n @ ?c @ ws" by (metis ws(1) takeWhile_dropWhile_id)
  moreover have "list_all ?P (takeWhile ?P n)" by (auto simp: list_all_iff dest: set_takeWhileD)
  ultimately have split: "\<exists>pre post. n = pre @ ?c @ post \<and> list_all ?P pre \<and> list_all is_whitespace post"
    using ws(2) by blast
  have hd: "?c \<noteq> [] \<Longrightarrow> \<not> ?P (hd ?c)"
    using hd_dropWhile [of ?P n] ws(1) by (metis append_is_Nil_conv hd_append2)
  have last: "?c \<noteq> [] \<Longrightarrow> \<not> is_whitespace (last ?c)"
    using trim_end_last [of ?m] by (simp add: canonical_channel_name_def)
  have "dropWhile ?P ?c = ?c" using hd by (intro dropWhile_id) blast
  moreover have "trim_end ?c = ?c"
    using last by (cases "?c = []") (simp_all add: trim_end_def dropWhile_id hd_rev)
  ultimately have "canonical_channel_name ?c = ?c" by (simp add: canonical_channel_name_def)
  with split hd last show ?thesis by (auto split: list.split)
qed

end
