(* ===== verification/Git_Perms.thy ===== *)
theory Git_Perms
  imports Channel_Roles
begin

text \<open>
  Push protection of git refs, \<open>crates/buzz-core/src/git_perms.rs\<close>: parsing of ref patterns and
  \<open>buzz-protect\<close> tags, matching, the union of the rules that apply to a ref and the decision on
  a push. A Rust panic is the value \<open>None\<close> of an \<open>option\<close>: the matcher holds an
  \<open>unreachable!\<close>, and the development proves that no parsed pattern reaches it.
\<close>

definition GIT_NO_CHANNEL_BINDING_TOKEN :: string where
  "GIT_NO_CHANNEL_BINDING_TOKEN = ''no_channel_binding''"

definition GIT_NO_CHANNEL_BINDING_BODY :: string where
  "GIT_NO_CHANNEL_BINDING_BODY = ''no_channel_binding: repository has no channel binding''"

definition MAX_PROTECTION_RULES :: nat where "MAX_PROTECTION_RULES = 50"

definition MAX_PATTERN_LENGTH :: nat where "MAX_PATTERN_LENGTH = 256"

definition MAX_WILDCARDS_PER_PATTERN :: nat where "MAX_WILDCARDS_PER_PATTERN = 3"

datatype PatternSegment = Literal string | Wildcard | RecursiveWildcard

record RefPattern =
  raw :: string
  segments :: "PatternSegment list"

datatype PatternError =
    Empty
  | TooLong
  | MissingRefsPrefix
  | InvalidSegment string
  | TooManyWildcards

subsection \<open>Patterns\<close>

definition is_ascii_alphanumeric :: "char \<Rightarrow> bool" where
  "is_ascii_alphanumeric c \<longleftrightarrow>
     (let n = of_char c :: nat in 48 \<le> n \<and> n \<le> 57 \<or> 65 \<le> n \<and> n \<le> 90 \<or> 97 \<le> n \<and> n \<le> 122)"

text \<open>The loop over the parts: \<open>n\<close> is \<open>parts.len()\<close>, \<open>i\<close> the index of the next part.\<close>

fun parse_loop :: "nat \<Rightarrow> nat \<Rightarrow> nat \<Rightarrow> PatternSegment list \<Rightarrow> string list \<Rightarrow>
    (PatternSegment list, PatternError) rust_result" where
  "parse_loop n i wildcard_count segs [] = Inr segs"
| "parse_loop n i wildcard_count segs (part # parts) =
     (if part = ''**'' then
        if i \<noteq> n - 1 then Inl (InvalidSegment ''** must be the last segment'')
        else if wildcard_count + 1 > MAX_WILDCARDS_PER_PATTERN then Inl TooManyWildcards
        else parse_loop n (i + 1) (wildcard_count + 1) (segs @ [RecursiveWildcard]) parts
      else if part = ''*'' then
        if wildcard_count + 1 > MAX_WILDCARDS_PER_PATTERN then Inl TooManyWildcards
        else parse_loop n (i + 1) (wildcard_count + 1) (segs @ [Wildcard]) parts
      else if part = [] then Inl (InvalidSegment [])
      else if CHR ''*'' \<in> set part \<or> CHR ''?'' \<in> set part \<or> CHR ''['' \<in> set part \<or>
              CHR '']'' \<in> set part
      then Inl (InvalidSegment part)
      else if \<not> list_all (\<lambda>c. is_ascii_alphanumeric c \<or> c = CHR ''.'' \<or> c = CHR ''_'' \<or> c = CHR ''-'') part
      then Inl (InvalidSegment part)
      else parse_loop n (i + 1) wildcard_count (segs @ [Literal part]) parts)"

definition RefPattern_parse :: "string \<Rightarrow> (RefPattern, PatternError) rust_result" where
  "RefPattern_parse pattern =
     (if pattern = [] then Inl Empty
      else if length pattern > MAX_PATTERN_LENGTH then Inl TooLong
      else if \<not> starts_with pattern ''refs/'' then Inl MissingRefsPrefix
      else
        (let parts = split_on CHR ''/'' pattern in
         case parse_loop (length parts) 0 0 [] parts of
           Inl e \<Rightarrow> Inl e
         | Inr segs \<Rightarrow> Inr \<lparr>raw = pattern, segments = segs\<rparr>))"

text \<open>The \<open>zip(..).all(..)\<close> of the matcher; \<open>None\<close> is the \<open>unreachable!\<close>.\<close>

fun match_all :: "(PatternSegment \<times> string) list \<Rightarrow> bool option" where
  "match_all [] = Some True"
| "match_all ((Wildcard, seg) # rest) = match_all rest"
| "match_all ((Literal lit, seg) # rest) = (if lit = seg then match_all rest else Some False)"
| "match_all ((RecursiveWildcard, seg) # rest) = None"

definition RefPattern_matches :: "RefPattern \<Rightarrow> string \<Rightarrow> bool option" where
  "RefPattern_matches self ref_name =
     (let ref_segments = split_on CHR ''/'' ref_name in
      if segments self \<noteq> [] \<and> last (segments self) = RecursiveWildcard then
        (let prefix_len = length (segments self) - 1 in
         if length ref_segments \<le> prefix_len then Some False
         else match_all (zip (take prefix_len (segments self)) (take prefix_len ref_segments)))
      else if length ref_segments \<noteq> length (segments self) then Some False
      else match_all (zip (segments self) ref_segments))"

definition RefPattern_as_str :: "RefPattern \<Rightarrow> string" where
  "RefPattern_as_str self = raw self"

subsection \<open>Updates and rules\<close>

datatype UpdateKind = Create | FastForward | NonFastForward | Delete

definition ZERO_OID :: string where
  "ZERO_OID = ''0000000000000000000000000000000000000000''"

definition classify :: "string \<Rightarrow> string \<Rightarrow> bool \<Rightarrow> UpdateKind" where
  "classify old_oid new_oid is_ancestor =
     (if old_oid = ZERO_OID then Create
      else if new_oid = ZERO_OID then Delete
      else if is_ancestor then FastForward
      else NonFastForward)"

record RefUpdate =
  ref_name :: string
  up_kind :: UpdateKind
  old_oid :: string
  new_oid :: string

record ProtectionRule =
  pattern :: RefPattern
  push_role :: "MemberRole option"
  no_force_push :: bool
  no_delete :: bool
  require_patch :: bool

datatype RuleParseError =
    TooFewValues
  | TooManyRules
  | InvalidPattern PatternError
  | UnknownRule string
  | InvalidRole string

text \<open>The strictest of the roles seen so far: both the tag parser and the union of rules use it.\<close>

definition strictest :: "MemberRole option \<Rightarrow> MemberRole \<Rightarrow> MemberRole option" where
  "strictest acc role =
     Some (case acc of
             None \<Rightarrow> role
           | Some existing \<Rightarrow>
               if permission_level role > permission_level existing then role else existing)"

text \<open>The loop over the rule strings of one tag, with the rule under construction.\<close>

fun parse_rules :: "ProtectionRule \<Rightarrow> string list \<Rightarrow> string list \<Rightarrow>
    (ProtectionRule \<times> string list, RuleParseError) rust_result" where
  "parse_rules rule unknown_rules [] = Inr (rule, unknown_rules)"
| "parse_rules rule unknown_rules (rule_str # rest) =
     (case strip_prefix ''push:'' rule_str of
        Some role_str \<Rightarrow>
          (case role_from_str role_str of
             Inl _ \<Rightarrow> Inl (InvalidRole role_str)
           | Inr role \<Rightarrow>
               if role = Bot \<or> role = Guest then Inl (InvalidRole role_str)
               else parse_rules (rule\<lparr>push_role := strictest (push_role rule) role\<rparr>) unknown_rules rest)
      | None \<Rightarrow>
          if rule_str = ''no-force-push'' then parse_rules (rule\<lparr>no_force_push := True\<rparr>) unknown_rules rest
          else if rule_str = ''no-delete'' then parse_rules (rule\<lparr>no_delete := True\<rparr>) unknown_rules rest
          else if rule_str = ''require-patch'' then parse_rules (rule\<lparr>require_patch := True\<rparr>) unknown_rules rest
          else parse_rules rule (unknown_rules @ [rule_str]) rest)"

definition parse_protection_tag_with_warnings :: "string list \<Rightarrow>
    (ProtectionRule \<times> string list, RuleParseError) rust_result" where
  "parse_protection_tag_with_warnings values =
     (case values of
        p # r # rest \<Rightarrow>
          (case RefPattern_parse p of
             Inl e \<Rightarrow> Inl (InvalidPattern e)
           | Inr pat \<Rightarrow>
               parse_rules \<lparr>pattern = pat, push_role = None, no_force_push = False,
                 no_delete = False, require_patch = False\<rparr> [] (r # rest))
      | _ \<Rightarrow> Inl TooFewValues)"

definition parse_protection_tag :: "string list \<Rightarrow> (ProtectionRule, RuleParseError) rust_result" where
  "parse_protection_tag values =
     (case parse_protection_tag_with_warnings values of
        Inl e \<Rightarrow> Inl e
      | Inr (rule, unknowns) \<Rightarrow> Inr rule)"

record ParsedProtection =
  rules :: "ProtectionRule list"
  unknown_rules :: "string list"

fun parse_tags_loop :: "ProtectionRule list \<Rightarrow> string list \<Rightarrow> string list list \<Rightarrow>
    (ParsedProtection, RuleParseError) rust_result" where
  "parse_tags_loop rs unk [] = Inr \<lparr>rules = rs, unknown_rules = unk\<rparr>"
| "parse_tags_loop rs unk (tag # tags) =
     (if tag = [] \<or> hd tag \<noteq> ''buzz-protect'' then parse_tags_loop rs unk tags
      else if length rs \<ge> MAX_PROTECTION_RULES then Inl TooManyRules
      else (case parse_protection_tag_with_warnings (tl tag) of
              Inl e \<Rightarrow> Inl e
            | Inr (rule, unknowns) \<Rightarrow> parse_tags_loop (rs @ [rule]) (unk @ unknowns) tags))"

definition parse_protection_tags :: "string list list \<Rightarrow> (ParsedProtection, RuleParseError) rust_result" where
  "parse_protection_tags tags = parse_tags_loop [] [] tags"

subsection \<open>The decision\<close>

definition default_min_role :: "string \<Rightarrow> UpdateKind \<Rightarrow> MemberRole" where
  "default_min_role refname kind =
     (let is_branch = starts_with refname ''refs/heads/'';
          is_tag = starts_with refname ''refs/tags/'' in
      case kind of
        Create \<Rightarrow> if is_branch \<or> is_tag then Member else Admin
      | FastForward \<Rightarrow> if is_branch then Member else if is_tag then Admin else Admin
      | NonFastForward \<Rightarrow> Admin
      | Delete \<Rightarrow> Admin)"

record EffectiveRules =
  eff_push_role :: "MemberRole option"
  eff_no_force_push :: bool
  eff_no_delete :: bool
  eff_require_patch :: bool
  has_explicit_match :: bool

fun for_ref_loop :: "string \<Rightarrow> EffectiveRules \<Rightarrow> ProtectionRule list \<Rightarrow> EffectiveRules option" where
  "for_ref_loop refname eff [] = Some eff"
| "for_ref_loop refname eff (rule # rs) =
     (case RefPattern_matches (pattern rule) refname of
        None \<Rightarrow> None
      | Some False \<Rightarrow> for_ref_loop refname eff rs
      | Some True \<Rightarrow>
          for_ref_loop refname
            \<lparr>eff_push_role = (case push_role rule of
                Some role \<Rightarrow> strictest (eff_push_role eff) role
              | None \<Rightarrow> eff_push_role eff),
             eff_no_force_push = eff_no_force_push eff \<or> no_force_push rule,
             eff_no_delete = eff_no_delete eff \<or> no_delete rule,
             eff_require_patch = eff_require_patch eff \<or> require_patch rule,
             has_explicit_match = True\<rparr> rs)"

definition for_ref :: "string \<Rightarrow> ProtectionRule list \<Rightarrow> EffectiveRules option" where
  "for_ref refname rs = for_ref_loop refname
     \<lparr>eff_push_role = None, eff_no_force_push = False, eff_no_delete = False,
      eff_require_patch = False, has_explicit_match = False\<rparr> rs"

record Denial =
  dn_ref_name :: string
  dn_reason :: string

definition evaluate_ref_update ::
    "RefUpdate \<Rightarrow> MemberRole \<Rightarrow> ProtectionRule list \<Rightarrow> (unit, Denial) rust_result option" where
  "evaluate_ref_update update role rs =
     (case for_ref (ref_name update) rs of
        None \<Rightarrow> None
      | Some effective \<Rightarrow> Some (
          if \<not> has_explicit_match effective then
            (let min_role = default_min_role (ref_name update) (up_kind update) in
             if \<not> has_at_least role min_role then
               Inl \<lparr>dn_ref_name = ref_name update,
                    dn_reason = ''requires '' @ role_as_str min_role @ '' role (you have '' @
                      role_as_str role @ ''), using built-in defaults''\<rparr>
             else Inr ())
          else if eff_require_patch effective then
            Inl \<lparr>dn_ref_name = ref_name update,
                 dn_reason = ''direct push denied: require-patch is set, submit a NIP-34 patch''\<rparr>
          else
            (let default_role = default_min_role (ref_name update) (up_kind update);
                 min_role = (case eff_push_role effective of
                    Some explicit \<Rightarrow>
                      if permission_level explicit \<ge> permission_level default_role
                      then explicit else default_role
                  | None \<Rightarrow> default_role) in
             if \<not> has_at_least role min_role then
               Inl \<lparr>dn_ref_name = ref_name update,
                    dn_reason = ''requires '' @ role_as_str min_role @ '' role (you have '' @
                      role_as_str role @ '')''\<rparr>
             else if eff_no_force_push effective \<and> up_kind update = NonFastForward then
               Inl \<lparr>dn_ref_name = ref_name update,
                    dn_reason = ''non-fast-forward update denied: no-force-push is set''\<rparr>
             else if eff_no_delete effective \<and> up_kind update = Delete then
               Inl \<lparr>dn_ref_name = ref_name update,
                    dn_reason = ''ref deletion denied: no-delete is set''\<rparr>
             else Inr ())))"

text \<open>\<open>filter_map(.. .err()).collect()\<close>, then \<open>Ok\<close> when nothing was collected.\<close>

fun collect_denials ::
    "MemberRole \<Rightarrow> ProtectionRule list \<Rightarrow> RefUpdate list \<Rightarrow> Denial list option" where
  "collect_denials role rs [] = Some []"
| "collect_denials role rs (u # us) =
     (case evaluate_ref_update u role rs of
        None \<Rightarrow> None
      | Some res \<Rightarrow>
          (case collect_denials role rs us of
             None \<Rightarrow> None
           | Some denials \<Rightarrow> Some (case res of Inl d \<Rightarrow> d # denials | Inr _ \<Rightarrow> denials)))"

definition evaluate_push ::
    "RefUpdate list \<Rightarrow> MemberRole \<Rightarrow> ProtectionRule list \<Rightarrow> (unit, Denial list) rust_result option" where
  "evaluate_push updates role rs =
     (case collect_denials role rs updates of
        None \<Rightarrow> None
      | Some denials \<Rightarrow> Some (if denials = [] then Inr () else Inl denials))"

subsection \<open>Patterns as globs\<close>

text \<open>
  What a pattern text promises, on the parts between slashes: \<open>*\<close> stands for one part, a final
  \<open>**\<close> for one or more, anything else for itself.
\<close>

fun glob :: "string list \<Rightarrow> string list \<Rightarrow> bool" where
  "glob [] rs = (rs = [])"
| "glob (p # ps) [] = False"
| "glob (p # ps) (r # rs) =
     (if p = ''**'' \<and> ps = [] then True else (p = ''*'' \<or> p = r) \<and> glob ps rs)"

definition seg_of :: "string \<Rightarrow> PatternSegment" where
  "seg_of p = (if p = ''**'' then RecursiveWildcard else if p = ''*'' then Wildcard else Literal p)"

definition is_wild :: "string \<Rightarrow> bool" where
  "is_wild p \<longleftrightarrow> p = ''**'' \<or> p = ''*''"

definition literal_chars :: "string \<Rightarrow> bool" where
  "literal_chars p \<longleftrightarrow> p \<noteq> [] \<and>
     list_all (\<lambda>c. is_ascii_alphanumeric c \<or> c = CHR ''.'' \<or> c = CHR ''_'' \<or> c = CHR ''-'') p"

text \<open>The pattern grammar, as a predicate on the parts.\<close>

definition pattern_grammar :: "string list \<Rightarrow> bool" where
  "pattern_grammar parts \<longleftrightarrow>
     list_all (\<lambda>p. is_wild p \<or> literal_chars p) parts \<and> ''**'' \<notin> set (butlast parts) \<and>
     length (filter is_wild parts) \<le> MAX_WILDCARDS_PER_PATTERN"

lemma literal_no_glob:
  "literal_chars p \<Longrightarrow> CHR ''*'' \<notin> set p \<and> CHR ''?'' \<notin> set p \<and> CHR ''['' \<notin> set p \<and> CHR '']'' \<notin> set p"
  by (force simp: literal_chars_def list_all_iff is_ascii_alphanumeric_def)

lemma literal_not_wild: "literal_chars p \<Longrightarrow> p \<noteq> ''**'' \<and> p \<noteq> ''*''"
  using literal_no_glob by fastforce

lemma parse_loop_step:
  "parse_loop n i w segs (p # ps) =
     (if p = ''**'' \<and> i \<noteq> n - 1 then Inl (InvalidSegment ''** must be the last segment'')
      else if is_wild p then
        if w + 1 > MAX_WILDCARDS_PER_PATTERN then Inl TooManyWildcards
        else parse_loop n (i + 1) (w + 1) (segs @ [seg_of p]) ps
      else if literal_chars p then parse_loop n (i + 1) w (segs @ [seg_of p]) ps
      else Inl (InvalidSegment p))"
proof (cases "literal_chars p")
  case True
  then show ?thesis using literal_no_glob [OF True] literal_not_wild [OF True]
    by (simp add: is_wild_def seg_of_def) (auto simp: literal_chars_def)
next
  case False
  then show ?thesis by (auto simp: is_wild_def seg_of_def literal_chars_def)
qed

lemma parse_loop_Inr:
  "i + length parts = n \<Longrightarrow> w \<le> MAX_WILDCARDS_PER_PATTERN \<Longrightarrow>
   parse_loop n i w segs parts = Inr out \<longleftrightarrow>
     out = segs @ map seg_of parts \<and>
     list_all (\<lambda>p. is_wild p \<or> literal_chars p) parts \<and> ''**'' \<notin> set (butlast parts) \<and>
     w + length (filter is_wild parts) \<le> MAX_WILDCARDS_PER_PATTERN"
proof (induction parts arbitrary: i w segs)
  case (Cons p ps)
  have last: "i \<noteq> n - 1 \<longleftrightarrow> ps \<noteq> []" using Cons.prems(1) by (cases ps) auto
  have star: "is_wild ''**''" by (simp add: is_wild_def)
  show ?case
    using Cons.IH [of "i + 1" w "segs @ [seg_of p]"] Cons.IH [of "i + 1" "w + 1" "segs @ [seg_of p]"]
      Cons.prems literal_not_wild [of p] star
    unfolding parse_loop_step last by (auto simp: is_wild_def)
qed auto

lemma RefPattern_parse_Inr:
  "RefPattern_parse s = Inr pat \<longleftrightarrow>
     s \<noteq> [] \<and> length s \<le> MAX_PATTERN_LENGTH \<and> starts_with s ''refs/'' \<and>
     pattern_grammar (split_on CHR ''/'' s) \<and>
     pat = \<lparr>raw = s, segments = map seg_of (split_on CHR ''/'' s)\<rparr>"
proof -
  let ?ps = "split_on CHR ''/'' s"
  have L: "parse_loop (length ?ps) 0 0 [] ?ps = Inr out \<longleftrightarrow> out = map seg_of ?ps \<and> pattern_grammar ?ps"
    for out using parse_loop_Inr [of 0 ?ps "length ?ps" 0 "[]" out] by (simp add: pattern_grammar_def)
  show ?thesis
  proof (cases "parse_loop (length ?ps) 0 0 [] ?ps")
    case (Inl e)
    then show ?thesis using L [of "map seg_of ?ps"] by (simp add: RefPattern_parse_def Let_def)
  next
    case (Inr out)
    then show ?thesis using L [of out] by (auto simp: RefPattern_parse_def Let_def)
  qed
qed

lemma match_all_zip:
  "''**'' \<notin> set ps \<Longrightarrow> length ps = length rs \<Longrightarrow>
     match_all (zip (map seg_of ps) rs) = Some (glob ps rs)"
  by (induction ps rs rule: glob.induct) (auto simp: seg_of_def)

lemma glob_length: "''**'' \<notin> set ps \<Longrightarrow> glob ps rs \<Longrightarrow> length ps = length rs"
  by (induction ps rs rule: glob.induct) (auto split: if_splits)

lemma glob_rec:
  "''**'' \<notin> set ps \<Longrightarrow>
     glob (ps @ [''**'']) rs \<longleftrightarrow> length ps < length rs \<and> glob ps (take (length ps) rs)"
proof (induction ps rs rule: glob.induct)
  case (1 rs)
  then show ?case by (cases rs) auto
qed (auto split: if_splits)

lemma parsed_matches:
  assumes "RefPattern_parse s = Inr pat"
  shows "RefPattern_matches pat r = Some (glob (split_on CHR ''/'' s) (split_on CHR ''/'' r))"
proof -
  let ?ps = "split_on CHR ''/'' s" and ?rs = "split_on CHR ''/'' r"
  have segs: "segments pat = map seg_of ?ps" and star: "''**'' \<notin> set (butlast ?ps)"
    using assms by (auto simp: RefPattern_parse_Inr pattern_grammar_def)
  have ps: "?ps = butlast ?ps @ [last ?ps]" by simp
  show ?thesis
  proof (cases "last ?ps = ''**''")
    case True
    then have "last (segments pat) = RecursiveWildcard" by (simp add: segs last_map seg_of_def)
    moreover have "take (length ?ps - 1) (segments pat) = map seg_of (butlast ?ps)"
      by (simp add: segs take_map butlast_conv_take)
    moreover have "glob ?ps ?rs \<longleftrightarrow> length (butlast ?ps) < length ?rs \<and>
        glob (butlast ?ps) (take (length (butlast ?ps)) ?rs)"
      using glob_rec [OF star] ps True by metis
    ultimately show ?thesis
      using match_all_zip [OF star, of "take (length ?ps - 1) ?rs"]
      by (auto simp: RefPattern_matches_def Let_def segs)
  next
    case False
    then have "''**'' \<notin> set ?ps" using star ps by (metis Un_iff empty_iff insert_iff list.set set_append)
    moreover have "last (segments pat) \<noteq> RecursiveWildcard"
      using False by (simp add: segs last_map seg_of_def)
    ultimately show ?thesis
      using match_all_zip [of ?ps ?rs] glob_length [of ?ps ?rs]
      by (auto simp: RefPattern_matches_def Let_def segs)
  qed
qed

subsection \<open>The union of the rules\<close>

text \<open>
  Merging minimum roles by keeping the strictest: a level meets the merged requirement exactly
  when it meets each of the merged ones.
\<close>

locale strictest_merge =
  fixes level :: "'r \<Rightarrow> 'n::linorder"
    and merge :: "'r option \<Rightarrow> 'r \<Rightarrow> 'r option"
  assumes merge_None: "merge None r = Some r"
    and merge_Some: "merge (Some e) r = Some (if level e < level r then r else e)"
begin

definition meets :: "'n \<Rightarrow> 'r option \<Rightarrow> bool" where
  "meets x acc \<longleftrightarrow> (case acc of None \<Rightarrow> True | Some r \<Rightarrow> level r \<le> x)"

lemma meets_merge: "meets x (merge acc r) \<longleftrightarrow> meets x acc \<and> level r \<le> x"
  by (cases acc) (auto simp: meets_def merge_None merge_Some)

lemma meets_fold:
  "meets x (fold (\<lambda>r acc. merge acc r) rs acc) \<longleftrightarrow> meets x acc \<and> (\<forall>r \<in> set rs. level r \<le> x)"
  by (induction rs arbitrary: acc) (auto simp: meets_merge)

lemma fold_merge_mem:
  "fold (\<lambda>r acc. merge acc r) rs acc = Some r \<Longrightarrow> r \<in> set rs \<or> acc = Some r"
proof (induction rs arbitrary: acc)
  case (Cons q rs)
  then show ?case by (cases acc) (auto simp: merge_None merge_Some split: if_splits)
qed simp

end

interpretation role_merge: strictest_merge permission_level strictest
  by unfold_locales (simp_all add: strictest_def)

definition rule_total :: "ProtectionRule \<Rightarrow> bool" where
  "rule_total rule \<longleftrightarrow> (\<exists>s. RefPattern_parse s = Inr (pattern rule))"

definition matching :: "string \<Rightarrow> ProtectionRule list \<Rightarrow> ProtectionRule list" where
  "matching r rs = filter (\<lambda>rule. RefPattern_matches (pattern rule) r = Some True) rs"

lemma for_ref_loop_eq:
  assumes "list_all rule_total rs"
  shows "for_ref_loop r eff rs = Some
     \<lparr>eff_push_role = fold (\<lambda>role acc. strictest acc role) (List.map_filter push_role (matching r rs))
        (eff_push_role eff),
      eff_no_force_push = (eff_no_force_push eff \<or> list_ex no_force_push (matching r rs)),
      eff_no_delete = (eff_no_delete eff \<or> list_ex no_delete (matching r rs)),
      eff_require_patch = (eff_require_patch eff \<or> list_ex require_patch (matching r rs)),
      has_explicit_match = (has_explicit_match eff \<or> matching r rs \<noteq> [])\<rparr>"
  using assms
proof (induction rs arbitrary: eff)
  case (Cons rule rs)
  obtain b where b: "RefPattern_matches (pattern rule) r = Some b"
    using Cons.prems parsed_matches by (auto simp: rule_total_def)
  show ?case
    using Cons b by (cases b; cases "push_role rule") (simp_all add: matching_def List.map_filter_def)
qed (simp add: matching_def List.map_filter_def)

text \<open>What one applicable rule allows.\<close>

definition permits :: "MemberRole \<Rightarrow> UpdateKind \<Rightarrow> ProtectionRule \<Rightarrow> bool" where
  "permits role kind rule \<longleftrightarrow>
     \<not> require_patch rule \<and>
     (case push_role rule of None \<Rightarrow> True | Some min_role \<Rightarrow> has_at_least role min_role) \<and>
     \<not> (kind = NonFastForward \<and> no_force_push rule) \<and> \<not> (kind = Delete \<and> no_delete rule)"

lemma evaluate_total: "list_all rule_total rs \<Longrightarrow> evaluate_ref_update u role rs \<noteq> None"
  by (simp add: evaluate_ref_update_def for_ref_def for_ref_loop_eq)

lemma permits_all:
  "list_all (permits role kind) rs \<longleftrightarrow>
     \<not> list_ex require_patch rs \<and>
     role_merge.meets (permission_level role)
       (fold (\<lambda>role acc. strictest acc role) (List.map_filter push_role rs) None) \<and>
     \<not> (kind = NonFastForward \<and> list_ex no_force_push rs) \<and> \<not> (kind = Delete \<and> list_ex no_delete rs)"
  unfolding role_merge.meets_fold
  by (auto simp: permits_def list_all_iff list_ex_iff has_at_least_def role_merge.meets_def
      split: option.splits)

lemma evaluate_ok_iff:
  assumes "list_all rule_total rs"
  shows "evaluate_ref_update u role rs = Some (Inr ()) \<longleftrightarrow>
     has_at_least role (default_min_role (ref_name u) (up_kind u)) \<and>
     list_all (permits role (up_kind u)) (matching (ref_name u) rs)"
proof -
  let ?M = "matching (ref_name u) rs" and ?d = "default_min_role (ref_name u) (up_kind u)"
  let ?p = "fold (\<lambda>role acc. strictest acc role) (List.map_filter push_role ?M) None"
  have "has_at_least role (case ?p of Some explicit \<Rightarrow>
          if permission_level explicit \<ge> permission_level ?d then explicit else ?d | None \<Rightarrow> ?d) \<longleftrightarrow>
        has_at_least role ?d \<and> role_merge.meets (permission_level role) ?p"
    by (auto simp: has_at_least_def role_merge.meets_def split: option.split)
  then show ?thesis
    using assms
    by (cases "?M = []")
       (auto simp: evaluate_ref_update_def for_ref_def for_ref_loop_eq permits_all Let_def)
qed

subsection \<open>Parsed rules\<close>

text \<open>The role a rule string demands, when it is a well-formed \<open>push:\<close> rule.\<close>

definition push_of :: "string \<Rightarrow> MemberRole option" where
  "push_of s = (case strip_prefix ''push:'' s of
      None \<Rightarrow> None
    | Some t \<Rightarrow> (case role_from_str t of Inl _ \<Rightarrow> None | Inr r \<Rightarrow> if r = Bot \<or> r = Guest then None else Some r))"

definition known_flag :: "string \<Rightarrow> bool" where
  "known_flag s \<longleftrightarrow> s \<in> {''no-force-push'', ''no-delete'', ''require-patch''}"

lemma flag_not_push: "known_flag s \<Longrightarrow> strip_prefix ''push:'' s = None"
  by (auto simp: known_flag_def strip_prefix_def starts_with_def)

lemma parse_rules_Inr:
  "parse_rules rule unk strs = Inr (rule', unk') \<longleftrightarrow>
     list_all (\<lambda>s. strip_prefix ''push:'' s \<noteq> None \<longrightarrow> push_of s \<noteq> None) strs \<and>
     rule' = rule\<lparr>push_role := fold (\<lambda>r acc. strictest acc r) (List.map_filter push_of strs) (push_role rule),
       no_force_push := no_force_push rule \<or> ''no-force-push'' \<in> set strs,
       no_delete := no_delete rule \<or> ''no-delete'' \<in> set strs,
       require_patch := require_patch rule \<or> ''require-patch'' \<in> set strs\<rparr> \<and>
     unk' = unk @ filter (\<lambda>s. strip_prefix ''push:'' s = None \<and> \<not> known_flag s) strs"
proof (induction strs arbitrary: rule unk)
  case (Cons s strs)
  show ?case
  proof (cases "strip_prefix ''push:'' s")
    case None
    then have "push_of s = None" by (simp add: push_of_def)
    then show ?thesis using None
      by (auto simp: Cons.IH known_flag_def List.map_filter_def)
  next
    case (Some t)
    then have "\<not> known_flag s" using flag_not_push [of s] by auto
    then show ?thesis using Some
      by (cases "role_from_str t")
         (auto simp: Cons.IH known_flag_def push_of_def List.map_filter_def)
  qed
qed (auto simp: List.map_filter_def)

lemma parse_tag_Inr:
  "parse_protection_tag_with_warnings (p # strs) = Inr (rule, unk) \<longleftrightarrow>
     strs \<noteq> [] \<and> RefPattern_parse p = Inr (pattern rule) \<and>
     filter (\<lambda>s. strip_prefix ''push:'' s \<noteq> None \<and> push_of s = None) strs = [] \<and>
     push_role rule = fold (\<lambda>r acc. strictest acc r) (List.map_filter push_of strs) None \<and>
     no_force_push rule = (''no-force-push'' \<in> set strs) \<and>
     no_delete rule = (''no-delete'' \<in> set strs) \<and>
     require_patch rule = (''require-patch'' \<in> set strs) \<and>
     unk = filter (\<lambda>s. strip_prefix ''push:'' s = None \<and> \<not> known_flag s) strs"
proof (cases "strs = []")
  case False
  then obtain q qs where strs: "strs = q # qs" by (cases strs) auto
  show ?thesis
    by (cases "RefPattern_parse p"; cases rule)
       (auto simp: parse_protection_tag_with_warnings_def strs parse_rules_Inr list_all_iff
          filter_empty_conv simp del: parse_rules.simps)
qed (simp add: parse_protection_tag_with_warnings_def)

lemma parse_tag_cases:
  assumes "parse_protection_tag_with_warnings vs = Inr (rule, unk)"
  obtains p strs where "vs = p # strs" "RefPattern_parse p = Inr (pattern rule)"
    "push_role rule = fold (\<lambda>r acc. strictest acc r) (List.map_filter push_of strs) None"
proof (cases vs)
  case (Cons p strs)
  then show thesis using assms by (intro that [of p strs]) (simp_all add: parse_tag_Inr)
qed (use assms in \<open>simp add: parse_protection_tag_with_warnings_def\<close>)

lemma parse_tag_total:
  "parse_protection_tag_with_warnings vs = Inr (rule, unk) \<Longrightarrow> rule_total rule"
  by (auto simp: rule_total_def elim: parse_tag_cases)

lemma push_of_roles: "push_of s = Some r \<Longrightarrow> r \<in> {Owner, Admin, Member}"
  by (cases r) (auto simp: push_of_def split: option.splits sum.splits if_splits)

lemma parse_tag_role:
  assumes "parse_protection_tag_with_warnings vs = Inr (rule, unk)" "push_role rule = Some r"
  shows "r \<in> {Owner, Admin, Member}"
proof -
  obtain strs where "fold (\<lambda>r acc. strictest acc r) (List.map_filter push_of strs) None = Some r"
    using assms by (auto elim: parse_tag_cases)
  from role_merge.fold_merge_mem [OF this] show ?thesis using push_of_roles by auto
qed

definition is_protect_tag :: "string list \<Rightarrow> bool" where
  "is_protect_tag tag \<longleftrightarrow> (case tag of [] \<Rightarrow> False | name # _ \<Rightarrow> name = ''buzz-protect'')"

lemma parse_tags_loop_Inr:
  "parse_tags_loop rs unk tags = Inr pp \<Longrightarrow> length rs \<le> MAX_PROTECTION_RULES \<Longrightarrow>
     length (rules pp) \<le> MAX_PROTECTION_RULES \<and>
     map Inr (rules pp) = map Inr rs @ map (parse_protection_tag \<circ> tl) (filter is_protect_tag tags)"
proof (induction tags arbitrary: rs unk)
  case (Cons tag tags)
  show ?case
  proof (cases "is_protect_tag tag")
    case True
    then obtain rule u where
        tag: "parse_protection_tag_with_warnings (tl tag) = Inr (rule, u)" and
        rest: "parse_tags_loop (rs @ [rule]) (unk @ u) tags = Inr pp" and len: "length rs < MAX_PROTECTION_RULES"
      using Cons.prems by (auto simp: is_protect_tag_def split: list.splits if_splits sum.splits)
    then show ?thesis using Cons.IH [OF rest] True by (simp add: parse_protection_tag_def)
  next
    case False
    then show ?thesis using Cons by (auto simp: is_protect_tag_def split: list.splits if_splits)
  qed
qed auto

lemma parse_tags_Inr:
  assumes "parse_protection_tags tags = Inr pp"
  shows "length (rules pp) \<le> MAX_PROTECTION_RULES"
    and "map Inr (rules pp) = map (parse_protection_tag \<circ> tl) (filter is_protect_tag tags)"
  using parse_tags_loop_Inr [of "[]" "[]" tags pp] assms by (simp_all add: parse_protection_tags_def)

lemma parsed_rule_origin:
  assumes "parse_protection_tags tags = Inr pp" "rule \<in> set (rules pp)"
  shows "\<exists>vs unk. parse_protection_tag_with_warnings vs = Inr (rule, unk)"
proof -
  have "Inr rule \<in> set (map (parse_protection_tag \<circ> tl) (filter is_protect_tag tags))"
    using parse_tags_Inr(2) [OF assms(1)] assms(2) by (metis image_eqI list.set_map)
  then show ?thesis by (force simp: parse_protection_tag_def split: sum.splits)
qed

lemma parsed_rules_total: "parse_protection_tags tags = Inr pp \<Longrightarrow> list_all rule_total (rules pp)"
  by (auto simp: list_all_iff dest: parsed_rule_origin parse_tag_total)

lemma has_at_least_permits: "has_at_least role' role \<Longrightarrow> permits role kind rule \<Longrightarrow> permits role' kind rule"
  by (auto simp: permits_def split: option.splits intro: has_at_least_trans)

lemma collect_denials_eq:
  "list_all rule_total rs \<Longrightarrow> collect_denials role rs us =
     Some (List.map_filter (\<lambda>u. case the (evaluate_ref_update u role rs) of Inl d \<Rightarrow> Some d | Inr _ \<Rightarrow> None) us)"
proof (induction us)
  case (Cons u us)
  then show ?case using evaluate_total [of rs u role]
    by (auto simp: List.map_filter_def split: sum.split)
qed (simp add: List.map_filter_def)

subsection \<open>Properties\<close>

definition demo_tags :: "string list list" where
  "demo_tags = [[''d'', ''repo''],
     [''buzz-protect'', ''refs/heads/main'', ''push:admin'', ''no-force-push''],
     [''buzz-protect'', ''refs/heads/**'', ''push:member'', ''no-delete'', ''future-rule'']]"

definition demo_update :: RefUpdate where
  "demo_update = \<lparr>ref_name = ''refs/heads/main'', up_kind = FastForward, old_oid = ''a'', new_oid = ''b''\<rparr>"

lemma demo_tags_parse: "\<exists>pp. parse_protection_tags demo_tags = Inr pp"
proof -
  have "(case parse_protection_tags demo_tags of Inl _ \<Rightarrow> False | Inr _ \<Rightarrow> True)" by code_simp
  then show ?thesis by (auto split: sum.splits)
qed

text \<open>
  C10. The push decision, completely: with rules parsed from a repository's tags, evaluating an
  update never panics, and it is allowed exactly when the pusher's role meets the built-in
  minimum for the operation and every matching rule permits it. In particular no rule weakens
  the built-in minimum and the order of the tags is irrelevant.
\<close>

theorem push_decision_exact:
  assumes "parse_protection_tags tags = Inr pp"
  shows "evaluate_ref_update u role (rules pp) \<noteq> None \<and>
    (evaluate_ref_update u role (rules pp) = Some (Inr ()) \<longleftrightarrow>
       has_at_least role (default_min_role (ref_name u) (up_kind u)) \<and>
       list_all (permits role (up_kind u)) (matching (ref_name u) (rules pp)))"
  using parsed_rules_total [OF assms] by (simp add: evaluate_total evaluate_ok_iff)

theorem push_decision_exact_witness:
  "\<exists>pp. parse_protection_tags demo_tags = Inr pp \<and>
     evaluate_ref_update demo_update Admin (rules pp) = Some (Inr ()) \<and>
     has_at_least Admin (default_min_role (ref_name demo_update) (up_kind demo_update))"
proof -
  obtain pp where pp: "parse_protection_tags demo_tags = Inr pp" using demo_tags_parse by blast
  have "(case parse_protection_tags demo_tags of Inl _ \<Rightarrow> False
      | Inr pp \<Rightarrow> evaluate_ref_update demo_update Admin (rules pp) = Some (Inr ()))" by code_simp
  then show ?thesis using push_decision_exact [OF pp, of demo_update Admin] pp by auto
qed

text \<open>
  C11. Protection only ever restricts: an update that is allowed under more rules and a lower
  role is allowed under fewer rules and a higher role.
\<close>

theorem protection_monotone:
  assumes "parse_protection_tags tags = Inr pp" "parse_protection_tags tags' = Inr pp'"
    and "set (rules pp) \<subseteq> set (rules pp')" and "has_at_least role role'"
    and "evaluate_ref_update u role' (rules pp') = Some (Inr ())"
  shows "evaluate_ref_update u role (rules pp) = Some (Inr ())"
proof -
  have "list_all rule_total (rules pp)" "list_all rule_total (rules pp')"
    using assms(1,2) by (simp_all add: parsed_rules_total)
  then show ?thesis using assms(3-5)
    by (auto simp: evaluate_ok_iff list_all_iff matching_def
        intro: has_at_least_trans has_at_least_permits)
qed

theorem protection_monotone_witness:
  "evaluate_ref_update demo_update Owner [] = Some (Inr ())"
proof -
  obtain pp where pp: "parse_protection_tags demo_tags = Inr pp" using demo_tags_parse by blast
  have "(case parse_protection_tags demo_tags of Inl _ \<Rightarrow> False
      | Inr pp \<Rightarrow> evaluate_ref_update demo_update Admin (rules pp) = Some (Inr ()))" by code_simp
  moreover have "parse_protection_tags [] = Inr \<lparr>rules = [], unknown_rules = []\<rparr>"
    by (simp add: parse_protection_tags_def)
  moreover have "has_at_least Owner Admin" by (simp add: has_at_least_def)
  ultimately show ?thesis
    using protection_monotone [of "[]" "\<lparr>rules = [], unknown_rules = []\<rparr>" demo_tags pp Owner Admin demo_update] pp
    by simp
qed

text \<open>
  A push is atomic: it succeeds exactly when every update is allowed, and otherwise reports
  every denial, in the order of the updates.
\<close>

theorem push_atomic:
  assumes "parse_protection_tags tags = Inr pp"
  shows "evaluate_push us role (rules pp) = Some
     (let denials = List.map_filter (\<lambda>u. case the (evaluate_ref_update u role (rules pp)) of
            Inl d \<Rightarrow> Some d | Inr _ \<Rightarrow> None) us
      in if denials = [] then Inr () else Inl denials) \<and>
    (evaluate_push us role (rules pp) = Some (Inr ()) \<longleftrightarrow>
       list_all (\<lambda>u. evaluate_ref_update u role (rules pp) = Some (Inr ())) us)"
proof -
  have tot: "list_all rule_total (rules pp)" by (rule parsed_rules_total [OF assms])
  have "(case the (evaluate_ref_update u role (rules pp)) of Inl d \<Rightarrow> Some d | Inr _ \<Rightarrow> None) = None \<longleftrightarrow>
      evaluate_ref_update u role (rules pp) = Some (Inr ())" for u
    using evaluate_total [OF tot, of u role] by (auto split: sum.splits)
  then show ?thesis
    by (simp add: evaluate_push_def collect_denials_eq [OF tot] Let_def List.map_filter_def
        filter_empty_conv list_all_iff del: not_None_eq)
qed

theorem push_atomic_witness:
  "\<exists>pp. parse_protection_tags demo_tags = Inr pp \<and>
     evaluate_push [demo_update, demo_update\<lparr>ref_name := ''refs/heads/dev''\<rparr>] Admin (rules pp) = Some (Inr ())"
proof -
  obtain pp where pp: "parse_protection_tags demo_tags = Inr pp" using demo_tags_parse by blast
  have "(case parse_protection_tags demo_tags of Inl _ \<Rightarrow> False
      | Inr pp \<Rightarrow> list_all (\<lambda>u. evaluate_ref_update u Admin (rules pp) = Some (Inr ()))
          [demo_update, demo_update\<lparr>ref_name := ''refs/heads/dev''\<rparr>])" by code_simp
  then show ?thesis
    using push_atomic [OF pp, of "[demo_update, demo_update\<lparr>ref_name := ''refs/heads/dev''\<rparr>]" Admin] pp
    by auto
qed

text \<open>
  The pattern parser accepts exactly the grammar: at most 256 bytes below \<open>refs/\<close>, every
  part a literal of the allowed characters or a wildcard, at most three wildcards, \<open>**\<close> only as
  the last part; the parsed pattern keeps its text. (The type's comment rules \<open>**\<close> out; the
  parser accepts it.)
\<close>

theorem pattern_parse_exact:
  "RefPattern_parse s = Inr pat \<longleftrightarrow>
     s \<noteq> [] \<and> length s \<le> 256 \<and> starts_with s ''refs/'' \<and>
     list_all (\<lambda>p. is_wild p \<or> literal_chars p) (split_on CHR ''/'' s) \<and>
     ''**'' \<notin> set (butlast (split_on CHR ''/'' s)) \<and>
     length (filter is_wild (split_on CHR ''/'' s)) \<le> 3 \<and>
     pat = \<lparr>raw = s, segments = map seg_of (split_on CHR ''/'' s)\<rparr>"
  by (auto simp: RefPattern_parse_Inr pattern_grammar_def MAX_PATTERN_LENGTH_def
      MAX_WILDCARDS_PER_PATTERN_def)

text \<open>
  C12. A parsed pattern matches a ref exactly when its text, read as a glob over the parts
  between slashes, does; the \<open>unreachable!\<close> arms of the matcher are indeed unreachable.
\<close>

theorem pattern_matches_glob:
  assumes "RefPattern_parse s = Inr pat"
  shows "RefPattern_matches pat r = Some (glob (split_on CHR ''/'' s) (split_on CHR ''/'' r))"
  by (rule parsed_matches [OF assms])

theorem pattern_matches_glob_witness:
  "RefPattern_matches \<lparr>raw = ''refs/*/x/**'', segments = [Literal ''refs'', Wildcard, Literal ''x'', RecursiveWildcard]\<rparr>
     ''refs/heads/x/a/b'' = Some True"
proof -
  have "RefPattern_parse ''refs/*/x/**'' =
      Inr \<lparr>raw = ''refs/*/x/**'', segments = [Literal ''refs'', Wildcard, Literal ''x'', RecursiveWildcard]\<rparr>"
    by code_simp
  from pattern_matches_glob [OF this, of "''refs/heads/x/a/b''"] show ?thesis by simp
qed

text \<open>
  Parsing a repository's tags fails closed: on success there are at most 50 rules, one for
  each \<open>buzz-protect\<close> tag in order, each the result of parsing that tag, so no malformed tag is
  skipped; and no rule asks for a bot or guest role.
\<close>

theorem protection_tags_complete:
  assumes "parse_protection_tags tags = Inr pp"
  shows "length (rules pp) \<le> 50 \<and>
    map Inr (rules pp) = map (parse_protection_tag \<circ> tl) (filter is_protect_tag tags) \<and>
    push_role ` set (rules pp) \<subseteq> {None, Some Owner, Some Admin, Some Member}"
proof (intro conjI)
  show "length (rules pp) \<le> 50"
    using parse_tags_Inr(1) [OF assms] by (simp add: MAX_PROTECTION_RULES_def)
  show "map Inr (rules pp) = map (parse_protection_tag \<circ> tl) (filter is_protect_tag tags)"
    by (rule parse_tags_Inr(2) [OF assms])
  show "push_role ` set (rules pp) \<subseteq> {None, Some Owner, Some Admin, Some Member}"
  proof
    fix p assume "p \<in> push_role ` set (rules pp)"
    then obtain rule vs unk where "push_role rule = p"
        "parse_protection_tag_with_warnings vs = Inr (rule, unk)"
      using parsed_rule_origin [OF assms] by blast
    then show "p \<in> {None, Some Owner, Some Admin, Some Member}"
      using parse_tag_role [of vs rule unk] by (cases p) auto
  qed
qed

theorem protection_tags_complete_witness:
  "\<exists>pp. parse_protection_tags demo_tags = Inr pp \<and> length (rules pp) = 2"
proof -
  obtain pp where pp: "parse_protection_tags demo_tags = Inr pp" using demo_tags_parse by blast
  have "length (filter is_protect_tag demo_tags) = 2" by code_simp
  then have "length (rules pp) = 2"
    using protection_tags_complete [OF pp] by (metis length_map)
  with pp show ?thesis by blast
qed

text \<open>
  One \<open>buzz-protect\<close> tag, completely: it parses exactly when it has a valid pattern, at
  least one rule string and only well-formed \<open>push:\<close> rules; each flag is set exactly when its
  string occurs, a level meets the minimum role exactly when it meets every \<open>push:\<close> role
  listed, and the other strings are reported in order.
\<close>

theorem protection_tag_exact:
  "parse_protection_tag_with_warnings (p # strs) = Inr (rule, unk) \<longleftrightarrow>
     strs \<noteq> [] \<and> RefPattern_parse p = Inr (pattern rule) \<and>
     filter (\<lambda>s. strip_prefix ''push:'' s \<noteq> None \<and> push_of s = None) strs = [] \<and>
     push_role rule = fold (\<lambda>r acc. strictest acc r) (List.map_filter push_of strs) None \<and>
     no_force_push rule = (''no-force-push'' \<in> set strs) \<and>
     no_delete rule = (''no-delete'' \<in> set strs) \<and>
     require_patch rule = (''require-patch'' \<in> set strs) \<and>
     unk = filter (\<lambda>s. strip_prefix ''push:'' s = None \<and> \<not> known_flag s) strs"
  by (rule parse_tag_Inr)

end
