(* ===== verification/Event_Queue.thy ===== *)
theory Event_Queue
  imports Nostr_Types
begin

text \<open>
  The per-channel event queue of the agent harness, \<open>crates/buzz-acp/src/queue.rs\<close>: batching,
  per-channel in-flight tracking with deadlines, retry with back-off and dead-lettering,
  cancelled batches, events withheld while a native steer is under way, and thread tags. The
  clock is an argument of every operation that reads it. Seconds are \<open>u64\<close> and wrap as in the
  release build; an \<open>Instant\<close> is unbounded. The floating-point back-off is computed exactly and
  rounded to the nearest nanosecond.
\<close>

datatype DedupMode = Drop | Queue

definition MAX_PENDING_PER_CHANNEL :: nat where "MAX_PENDING_PER_CHANNEL = 500"

definition MAX_BATCH_EVENTS :: nat where "MAX_BATCH_EVENTS = 50"

definition MAX_RETRIES :: u32 where "MAX_RETRIES = 10"

definition BASE_RETRY_DELAY_SECS :: nat where "BASE_RETRY_DELAY_SECS = 5"

definition MAX_RETRY_DELAY_SECS :: nat where "MAX_RETRY_DELAY_SECS = 300"

definition IN_FLIGHT_DEADLINE_BUFFER_SECS :: u64 where "IN_FLIGHT_DEADLINE_BUFFER_SECS = 100"

definition DEFAULT_IN_FLIGHT_DEADLINE_SECS :: u64 where "DEFAULT_IN_FLIGHT_DEADLINE_SECS = 7300"

definition from_secs :: "u64 \<Rightarrow> duration" where
  "from_secs s = unat s * 1000000000"

record QueuedEvent =
  q_channel_id :: uuid
  q_event :: nostr_event
  q_received_at :: instant
  q_prompt_tag :: string

record BatchEvent =
  be_event :: nostr_event
  be_prompt_tag :: string
  be_received_at :: instant

datatype CancelReason = Interrupt | Steer

record FlushBatch =
  fb_channel_id :: uuid
  fb_events :: "BatchEvent list"
  fb_cancelled_events :: "BatchEvent list"
  fb_cancel_reason :: "CancelReason option"

record EventQueue =
  queues :: "(uuid, QueuedEvent list) hmap"
  in_flight_channels :: "uuid set"
  in_flight_deadlines :: "(uuid, instant) hmap"
  in_flight_batch_sizes :: "(uuid, nat) hmap"
  retry_after :: "(uuid, instant) hmap"
  retry_counts :: "(uuid, u32) hmap"
  dedup_mode :: DedupMode
  cancelled_batches :: "(uuid, BatchEvent list) hmap"
  cancel_reasons :: "(uuid, CancelReason) hmap"
  withheld_native_steer :: "(uuid, QueuedEvent list) hmap"
  in_flight_deadline :: duration

definition EventQueue_new :: "DedupMode \<Rightarrow> EventQueue" where
  "EventQueue_new mode =
     \<lparr>queues = [], in_flight_channels = {}, in_flight_deadlines = [], in_flight_batch_sizes = [],
      retry_after = [], retry_counts = [], dedup_mode = mode, cancelled_batches = [],
      cancel_reasons = [], withheld_native_steer = [],
      in_flight_deadline = from_secs DEFAULT_IN_FLIGHT_DEADLINE_SECS\<rparr>"

definition EventQueue_default :: EventQueue where
  "EventQueue_default = EventQueue_new Drop"

definition with_in_flight_deadline :: "EventQueue \<Rightarrow> u64 \<Rightarrow> EventQueue" where
  "with_in_flight_deadline q max_turn_duration_secs =
     q\<lparr>in_flight_deadline := from_secs (max_turn_duration_secs + IN_FLIGHT_DEADLINE_BUFFER_SECS)\<rparr>"

definition extend_in_flight_deadline :: "instant \<Rightarrow> EventQueue \<Rightarrow> uuid \<Rightarrow> u64 \<Rightarrow> EventQueue" where
  "extend_in_flight_deadline now q channel_id max_turn_secs =
     (case hm_get (in_flight_deadlines q) channel_id of
        None \<Rightarrow> q
      | Some current \<Rightarrow>
          let extended = now + from_secs (max_turn_secs + IN_FLIGHT_DEADLINE_BUFFER_SECS) in
          if extended > current
          then q\<lparr>in_flight_deadlines := hm_insert channel_id extended (in_flight_deadlines q)\<rparr>
          else q)"

subsection \<open>Queueing and flushing\<close>

definition push :: "EventQueue \<Rightarrow> QueuedEvent \<Rightarrow> EventQueue \<times> bool" where
  "push q event =
     (if dedup_mode q = Drop \<and> q_channel_id event \<in> in_flight_channels q then (q, False)
      else
        (let queue = hm_list (queues q) (q_channel_id event);
             queue' = (if length queue \<ge> MAX_PENDING_PER_CHANNEL then tl queue else queue)
         in (q\<lparr>queues := hm_insert (q_channel_id event) (queue' @ [event]) (queues q)\<rparr>, True)))"

text \<open>\<open>while queue.len() > MAX_PENDING_PER_CHANNEL \{ queue.pop_back(); \}\<close>\<close>

function trim_back :: "'a list \<Rightarrow> 'a list" where
  "trim_back queue =
     (if length queue > MAX_PENDING_PER_CHANNEL then trim_back (butlast queue) else queue)"
  by auto
termination by (relation "measure length") auto

declare trim_back.simps [simp del]

definition recover_withheld_for_expired_channel :: "uuid \<Rightarrow> EventQueue \<Rightarrow> EventQueue" where
  "recover_withheld_for_expired_channel channel_id q =
     (case hm_get (withheld_native_steer q) channel_id of
        None \<Rightarrow> q
      | Some entries \<Rightarrow>
          q\<lparr>withheld_native_steer := hm_remove channel_id (withheld_native_steer q),
            queues := hm_insert channel_id
              (trim_back (fold (\<lambda>qe queue. qe # queue) (rev entries) (hm_list (queues q) channel_id)))
              (queues q)\<rparr>)"

definition expire_channel :: "uuid \<Rightarrow> EventQueue \<Rightarrow> EventQueue" where
  "expire_channel cid q =
     recover_withheld_for_expired_channel cid
       (q\<lparr>in_flight_batch_sizes := hm_remove cid (in_flight_batch_sizes q),
          in_flight_channels := in_flight_channels q - {cid},
          in_flight_deadlines := hm_remove cid (in_flight_deadlines q)\<rparr>)"

definition expire_in_flight :: "instant \<Rightarrow> EventQueue \<Rightarrow> EventQueue" where
  "expire_in_flight now q =
     fold expire_channel
       (map fst (filter (\<lambda>(_, deadline). now \<ge> deadline) (in_flight_deadlines q))) q"

text \<open>\<open>Iterator::min_by_key\<close>: the first of the elements with the least key.\<close>

fun min_by_key :: "('a \<Rightarrow> nat) \<Rightarrow> 'a list \<Rightarrow> 'a option" where
  "min_by_key key [] = None"
| "min_by_key key (x # xs) =
     (case min_by_key key xs of
        None \<Rightarrow> Some x
      | Some y \<Rightarrow> if key x \<le> key y then Some x else Some y)"

definition flushable :: "instant \<Rightarrow> EventQueue \<Rightarrow> (uuid \<times> QueuedEvent list) \<Rightarrow> bool" where
  "flushable now q = (\<lambda>(id, queue).
     queue \<noteq> [] \<and> id \<notin> in_flight_channels q \<and>
     (case hm_get (retry_after q) id of None \<Rightarrow> True | Some t \<Rightarrow> t \<le> now))"

definition to_batch :: "QueuedEvent \<Rightarrow> BatchEvent" where
  "to_batch qe = \<lparr>be_event = q_event qe, be_prompt_tag = q_prompt_tag qe,
     be_received_at = q_received_at qe\<rparr>"

definition to_queued :: "uuid \<Rightarrow> BatchEvent \<Rightarrow> QueuedEvent" where
  "to_queued channel_id be = \<lparr>q_channel_id = channel_id, q_event = be_event be,
     q_received_at = be_received_at be, q_prompt_tag = be_prompt_tag be\<rparr>"

text \<open>The fallback of \<open>flush_next\<close>: re-dispatch a cancelled batch on its own.\<close>

definition flush_cancelled :: "instant \<Rightarrow> EventQueue \<Rightarrow> uuid \<Rightarrow> EventQueue \<times> FlushBatch" where
  "flush_cancelled now q cid =
     (let cancelled = hm_list (cancelled_batches q) cid;
          cancel_reason = hm_get (cancel_reasons q) cid
      in (q\<lparr>cancelled_batches := hm_remove cid (cancelled_batches q),
            cancel_reasons := hm_remove cid (cancel_reasons q),
            in_flight_channels := insert cid (in_flight_channels q),
            in_flight_deadlines := hm_insert cid (now + in_flight_deadline q) (in_flight_deadlines q),
            in_flight_batch_sizes := hm_insert cid (length cancelled) (in_flight_batch_sizes q)\<rparr>,
          \<lparr>fb_channel_id = cid, fb_events = cancelled, fb_cancelled_events = [],
           fb_cancel_reason = cancel_reason\<rparr>))"

definition flush_queue :: "instant \<Rightarrow> EventQueue \<Rightarrow> uuid \<Rightarrow> EventQueue \<times> FlushBatch" where
  "flush_queue now q channel_id =
     (let queue = hm_list (queues q) channel_id;
          drain_count = min MAX_BATCH_EVENTS (length queue);
          events = sort_key (\<lambda>be. ev_created_at (be_event be)) (map to_batch (take drain_count queue));
          rest = drop drain_count queue;
          cancelled_events = hm_list (cancelled_batches q) channel_id;
          cancel_reason = (if cancelled_events = [] then None else hm_get (cancel_reasons q) channel_id)
      in (q\<lparr>queues := (if rest = [] then hm_remove channel_id (queues q)
                       else hm_insert channel_id rest (queues q)),
            in_flight_channels := insert channel_id (in_flight_channels q),
            in_flight_deadlines := hm_insert channel_id (now + in_flight_deadline q) (in_flight_deadlines q),
            in_flight_batch_sizes := hm_insert channel_id (length events) (in_flight_batch_sizes q),
            cancelled_batches := hm_remove channel_id (cancelled_batches q),
            cancel_reasons := hm_remove channel_id (cancel_reasons q)\<rparr>,
          \<lparr>fb_channel_id = channel_id, fb_events = events, fb_cancelled_events = cancelled_events,
           fb_cancel_reason = cancel_reason\<rparr>))"

definition flush_next :: "instant \<Rightarrow> EventQueue \<Rightarrow> EventQueue \<times> FlushBatch option" where
  "flush_next now q0 =
     (let q = expire_in_flight now q0 in
      case min_by_key (\<lambda>(_, queue). q_received_at (hd queue)) (filter (flushable now q) (queues q)) of
        Some (cid, _) \<Rightarrow> (let (q', b) = flush_queue now q cid in (q', Some b))
      | None \<Rightarrow>
          (case find (\<lambda>cid. cid \<notin> in_flight_channels q) (map fst (cancelled_batches q)) of
             Some cid \<Rightarrow> (let (q', b) = flush_cancelled now q cid in (q', Some b))
           | None \<Rightarrow> (q, None)))"

definition mark_complete :: "instant \<Rightarrow> EventQueue \<Rightarrow> uuid \<Rightarrow> EventQueue" where
  "mark_complete now q channel_id =
     (let q1 = q\<lparr>in_flight_channels := in_flight_channels q - {channel_id},
                 in_flight_deadlines := hm_remove channel_id (in_flight_deadlines q),
                 in_flight_batch_sizes := hm_remove channel_id (in_flight_batch_sizes q)\<rparr> in
      case hm_get (retry_after q1) channel_id of
        Some deadline \<Rightarrow>
          if deadline > now then q1
          else q1\<lparr>retry_after := hm_remove channel_id (retry_after q1),
                  retry_counts := hm_remove channel_id (retry_counts q1)\<rparr>
      | None \<Rightarrow> q1\<lparr>retry_counts := hm_remove channel_id (retry_counts q1)\<rparr>)"

subsection \<open>Re-queueing\<close>

definition u64_max :: nat where "u64_max = 18446744073709551615"

definition u32_max :: nat where "u32_max = 4294967295"

definition capped_secs :: "u32 \<Rightarrow> nat" where
  "capped_secs attempt =
     (let base_secs = min (BASE_RETRY_DELAY_SECS * 2 ^ min (unat (attempt - 1)) 6) u64_max
      in min base_secs MAX_RETRY_DELAY_SECS)"

text \<open>
  \<open>Duration::from_secs_f64(capped_secs * (0.8 + (nanos / u32::MAX) * 0.4))\<close> in nanoseconds,
  rounded to nearest; \<open>nanos\<close> is the sub-second part of the wall clock.
\<close>

definition retry_delay :: "u32 \<Rightarrow> nat \<Rightarrow> duration" where
  "retry_delay attempt nanos =
     (let num = capped_secs attempt * 1000000000 * (8 * u32_max + 4 * nanos);
          den = 10 * u32_max
      in (2 * num + den) div (2 * den))"

definition push_front_all :: "uuid \<Rightarrow> BatchEvent list \<Rightarrow> QueuedEvent list \<Rightarrow> QueuedEvent list" where
  "push_front_all channel_id events queue =
     fold (\<lambda>be queue. to_queued channel_id be # queue) (rev events) queue"

definition requeue :: "instant \<Rightarrow> nat \<Rightarrow> EventQueue \<Rightarrow> FlushBatch \<Rightarrow> EventQueue \<times> FlushBatch option" where
  "requeue now nanos q batch =
     (let channel_id = fb_channel_id batch;
          attempt = (case hm_get (retry_counts q) channel_id of None \<Rightarrow> 0 | Some n \<Rightarrow> n) + 1;
          q1 = q\<lparr>retry_counts := hm_insert channel_id attempt (retry_counts q)\<rparr> in
      if attempt > MAX_RETRIES then
        (q1\<lparr>retry_counts := hm_remove channel_id (retry_counts q1),
            retry_after := hm_remove channel_id (retry_after q1)\<rparr>, Some batch)
      else
        (q1\<lparr>queues := hm_insert channel_id
              (trim_back (push_front_all channel_id (fb_events batch) (hm_list (queues q1) channel_id)))
              (queues q1),
            retry_after := hm_insert channel_id (now + retry_delay attempt nanos) (retry_after q1)\<rparr>,
         None))"

definition requeue_preserve_timestamps :: "EventQueue \<Rightarrow> FlushBatch \<Rightarrow> EventQueue" where
  "requeue_preserve_timestamps q batch =
     (let channel_id = fb_channel_id batch in
      q\<lparr>queues := hm_insert channel_id
          (trim_back (push_front_all channel_id (fb_events batch) (hm_list (queues q) channel_id)))
          (queues q)\<rparr>)"

definition requeue_as_cancelled :: "EventQueue \<Rightarrow> FlushBatch \<Rightarrow> CancelReason \<Rightarrow> EventQueue" where
  "requeue_as_cancelled q batch reason =
     q\<lparr>cancelled_batches := hm_insert (fb_channel_id batch)
         (hm_list (cancelled_batches q) (fb_channel_id batch) @ fb_cancelled_events batch @ fb_events batch)
         (cancelled_batches q),
       cancel_reasons := hm_insert (fb_channel_id batch) reason (cancel_reasons q)\<rparr>"

subsection \<open>Queries and clearing\<close>

definition has_flushable_work :: "instant \<Rightarrow> EventQueue \<Rightarrow> EventQueue \<times> bool" where
  "has_flushable_work now q0 =
     (let q = expire_in_flight now q0 in
      (q, list_ex (flushable now q) (queues q) \<or>
          list_ex (\<lambda>id. id \<notin> in_flight_channels q) (map fst (cancelled_batches q))))"

definition has_undispatched_work :: "EventQueue \<Rightarrow> bool" where
  "has_undispatched_work q =
     (let has_queued = list_ex (\<lambda>(id, queue). queue \<noteq> [] \<and> id \<notin> in_flight_channels q) (queues q);
          has_cancelled = list_ex (\<lambda>id. id \<notin> in_flight_channels q) (map fst (cancelled_batches q));
          has_withheld = list_ex (\<lambda>(id, v). v \<noteq> [] \<and> id \<notin> in_flight_channels q) (withheld_native_steer q)
      in has_queued \<or> has_cancelled \<or> has_withheld)"

definition pending_channels :: "EventQueue \<Rightarrow> nat" where
  "pending_channels q = length (queues q)"

definition drain_channel :: "EventQueue \<Rightarrow> uuid \<Rightarrow> EventQueue \<times> hex list" where
  "drain_channel q channel_id =
     (q\<lparr>queues := hm_remove channel_id (queues q),
        retry_after := hm_remove channel_id (retry_after q),
        retry_counts := hm_remove channel_id (retry_counts q),
        cancelled_batches := hm_remove channel_id (cancelled_batches q),
        cancel_reasons := hm_remove channel_id (cancel_reasons q),
        withheld_native_steer := hm_remove channel_id (withheld_native_steer q)\<rparr>,
      map (\<lambda>e. ev_id (q_event e)) (hm_list (queues q) channel_id))"

definition is_channel_in_flight :: "EventQueue \<Rightarrow> uuid \<Rightarrow> bool" where
  "is_channel_in_flight q channel_id \<longleftrightarrow> channel_id \<in> in_flight_channels q"

definition has_in_flight :: "EventQueue \<Rightarrow> bool" where
  "has_in_flight q \<longleftrightarrow> in_flight_channels q \<noteq> {}"

subsection \<open>Native steer\<close>

text \<open>\<open>iter().position(..)\<close> followed by \<open>remove(pos)\<close>: the first match and the rest.\<close>

fun take_first :: "('a \<Rightarrow> bool) \<Rightarrow> 'a list \<Rightarrow> ('a \<times> 'a list) option" where
  "take_first P [] = None"
| "take_first P (x # xs) =
     (if P x then Some (x, xs)
      else (case take_first P xs of None \<Rightarrow> None | Some (y, ys) \<Rightarrow> Some (y, x # ys)))"

definition mark_native_steer_pending :: "EventQueue \<Rightarrow> uuid \<Rightarrow> hex \<Rightarrow> EventQueue \<times> bool" where
  "mark_native_steer_pending q channel_id event_id =
     (case hm_get (queues q) channel_id of
        None \<Rightarrow> (q, False)
      | Some queue \<Rightarrow>
          (case take_first (\<lambda>qe. ev_id (q_event qe) = event_id) queue of
             None \<Rightarrow> (q, False)
           | Some (qe, rest) \<Rightarrow>
               (q\<lparr>queues := (if rest = [] then hm_remove channel_id (queues q)
                             else hm_insert channel_id rest (queues q)),
                  withheld_native_steer := hm_insert channel_id
                    (hm_list (withheld_native_steer q) channel_id @ [qe]) (withheld_native_steer q)\<rparr>,
                True)))"

definition release_native_steer :: "EventQueue \<Rightarrow> uuid \<Rightarrow> hex \<Rightarrow> EventQueue" where
  "release_native_steer q channel_id event_id =
     (case hm_get (withheld_native_steer q) channel_id of
        None \<Rightarrow> q
      | Some entries \<Rightarrow>
          (case take_first (\<lambda>qe. ev_id (q_event qe) = event_id) entries of
             None \<Rightarrow> q
           | Some (qe, rest) \<Rightarrow>
               q\<lparr>withheld_native_steer := (if rest = [] then hm_remove channel_id (withheld_native_steer q)
                     else hm_insert channel_id rest (withheld_native_steer q)),
                 queues := hm_insert channel_id (trim_back (qe # hm_list (queues q) channel_id)) (queues q)\<rparr>))"

text \<open>\<open>retain\<close> on one entry of a map to vectors, dropping the entry when it becomes empty.\<close>

definition retain_entry :: "'k \<Rightarrow> ('v \<Rightarrow> bool) \<Rightarrow> ('k, 'v list) hmap \<Rightarrow> ('k, 'v list) hmap" where
  "retain_entry key P m =
     (case hm_get m key of
        None \<Rightarrow> m
      | Some vs \<Rightarrow> if filter P vs = [] then hm_remove key m else hm_insert key (filter P vs) m)"

definition remove_event :: "EventQueue \<Rightarrow> uuid \<Rightarrow> hex \<Rightarrow> EventQueue" where
  "remove_event q channel_id event_id =
     q\<lparr>withheld_native_steer :=
         retain_entry channel_id (\<lambda>qe. ev_id (q_event qe) \<noteq> event_id) (withheld_native_steer q),
       queues := retain_entry channel_id (\<lambda>qe. ev_id (q_event qe) \<noteq> event_id) (queues q)\<rparr>"

definition compact_expired_state :: "instant \<Rightarrow> EventQueue \<Rightarrow> EventQueue" where
  "compact_expired_state now q =
     (let retry_after' = filter (\<lambda>(_, deadline). deadline > now) (retry_after q) in
      q\<lparr>retry_after := retry_after',
        retry_counts := filter (\<lambda>(ch, _).
          hm_contains_key retry_after' ch \<or>
          (case hm_get (queues q) ch of None \<Rightarrow> False | Some queue \<Rightarrow> queue \<noteq> []) \<or>
          ch \<in> in_flight_channels q) (retry_counts q)\<rparr>)"

subsection \<open>Thread tags\<close>

record ThreadTags =
  root_event_id :: "string option"
  parent_event_id :: "string option"
  mentioned_pubkeys :: "string list"

fun thread_tags_loop :: "string option \<Rightarrow> string option \<Rightarrow> string list \<Rightarrow> nostr_tag list \<Rightarrow>
    string option \<times> string option \<times> string list" where
  "thread_tags_loop root reply mentions [] = (root, reply, mentions)"
| "thread_tags_loop root reply mentions (tag # tags) =
     (let parts = tag_slice tag in
      if parts \<noteq> [] \<and> hd parts = ''e'' \<and> length parts \<ge> 4 then
        (let id = parts ! 1; marker = parts ! 3 in
         if marker = ''root'' then thread_tags_loop (Some id) reply mentions tags
         else if marker = ''reply'' then thread_tags_loop root (Some id) mentions tags
         else thread_tags_loop root reply mentions tags)
      else if parts \<noteq> [] \<and> hd parts = ''p'' \<and> length parts \<ge> 2 then
        thread_tags_loop root reply (mentions @ [parts ! 1]) tags
      else thread_tags_loop root reply mentions tags)"

definition parse_thread_tags :: "nostr_event \<Rightarrow> ThreadTags" where
  "parse_thread_tags event =
     (let (root, reply, mentions) = thread_tags_loop None None [] (ev_tags event);
          (r, p) = (case (root, reply) of
              (Some r, Some p) \<Rightarrow> (Some r, Some p)
            | (Some r, None) \<Rightarrow> (Some r, Some r)
            | (None, Some p) \<Rightarrow> (Some p, Some p)
            | (None, None) \<Rightarrow> (None, None))
      in \<lparr>root_event_id = r, parent_event_id = p, mentioned_pubkeys = mentions\<rparr>)"

declare map_of_eq_Some_iff [simp del] not_None_eq [simp del]

subsection \<open>Lists\<close>

lemma trim_back_take: "trim_back queue = take MAX_PENDING_PER_CHANNEL queue"
proof (induction queue rule: trim_back.induct)
  case (1 queue)
  then show ?case
    by (subst trim_back.simps) (auto simp: butlast_conv_take min_def)
qed

lemma fold_Cons_map: "fold (\<lambda>x ys. f x # ys) (rev xs) ys = map f xs @ ys"
  by (induction xs arbitrary: ys rule: rev_induct) auto

lemma fold_Cons_rev: "fold (\<lambda>x ys. x # ys) (rev xs) ys = xs @ ys"
  using fold_Cons_map [of "\<lambda>x. x" xs ys] by simp

lemma hm_get_key: "hm_get m k = Some v \<Longrightarrow> k \<in> fst ` set m"
  by (force dest: map_of_SomeD)

lemma in_set_tlD: "x \<in> set (tl xs) \<Longrightarrow> x \<in> set xs"
  by (cases xs) auto

lemma push_front_all_eq: "push_front_all c events queue = map (to_queued c) events @ queue"
  by (simp add: push_front_all_def fold_Cons_map)

lemma min_by_key_None: "min_by_key key xs = None \<longleftrightarrow> xs = []"
  by (cases xs) (auto split: option.split)

lemma min_by_key_Some:
  "min_by_key key xs = Some x \<Longrightarrow> x \<in> set xs \<and> (\<forall>y \<in> set xs. key x \<le> key y)"
proof (induction xs arbitrary: x)
  case (Cons a xs)
  then show ?case
    by (cases "min_by_key key xs") (auto simp: min_by_key_None split: if_splits dest: order_trans)
qed simp

lemma take_first_Some:
  "take_first P xs = Some (y, ys) \<Longrightarrow> P y \<and> mset xs = add_mset y (mset ys)"
  by (induction xs arbitrary: y ys) (auto split: if_splits option.splits)

lemma take_first_set:
  "take_first P xs = Some (y, ys) \<Longrightarrow> set xs = insert y (set ys) \<and> length xs = Suc (length ys)"
  by (induction xs arbitrary: y ys) (auto split: if_splits option.splits)

lemma take_first_None: "take_first P xs = None \<longleftrightarrow> (\<forall>x \<in> set xs. \<not> P x)"
  by (induction xs) (auto split: option.split)

lemma hm_list_retain [simp]:
  "hm_list (retain_entry k P m) k' = (if k' = k then filter P (hm_list m k') else hm_list m k')"
  by (auto simp: retain_entry_def hm_list_def split: option.split)

lemma hm_wf_retain [simp]: "hm_wf m \<Longrightarrow> hm_wf (retain_entry k P m)"
  by (simp add: retain_entry_def split: option.split)

lemma hm_get_retain: "hm_get m k' \<noteq> Some [] \<Longrightarrow> hm_get (retain_entry k P m) k' \<noteq> Some []"
  by (simp add: retain_entry_def split: option.split)

subsection \<open>The invariant\<close>

definition tables_ok :: "EventQueue \<Rightarrow> bool" where
  "tables_ok q \<longleftrightarrow> hm_wf (queues q) \<and> hm_wf (in_flight_deadlines q) \<and> hm_wf (retry_after q) \<and>
     hm_wf (retry_counts q) \<and> hm_wf (cancelled_batches q) \<and> hm_wf (withheld_native_steer q)"

definition depth_ok :: "EventQueue \<Rightarrow> bool" where
  "depth_ok q \<longleftrightarrow> (\<forall>c. length (hm_list (queues q) c) \<le> MAX_PENDING_PER_CHANNEL)"

definition routed_ok :: "EventQueue \<Rightarrow> bool" where
  "routed_ok q \<longleftrightarrow> (\<forall>c. \<forall>e \<in> set (hm_list (queues q) c) \<union> set (hm_list (withheld_native_steer q) c).
     q_channel_id e = c)"

definition flight_ok :: "EventQueue \<Rightarrow> bool" where
  "flight_ok q \<longleftrightarrow> fst ` set (in_flight_deadlines q) = in_flight_channels q \<and>
     fst ` set (in_flight_batch_sizes q) = in_flight_channels q"

definition side_ok :: "EventQueue \<Rightarrow> bool" where
  "side_ok q \<longleftrightarrow> fst ` set (cancelled_batches q) = fst ` set (cancel_reasons q) \<and>
     (\<forall>c. hm_get (withheld_native_steer q) c \<noteq> Some [])"

definition retry_ok :: "EventQueue \<Rightarrow> bool" where
  "retry_ok q \<longleftrightarrow> (\<forall>c n. hm_get (retry_counts q) c = Some n \<longrightarrow> 1 \<le> n \<and> n \<le> MAX_RETRIES)"

definition queue_inv :: "EventQueue \<Rightarrow> bool" where
  "queue_inv q \<longleftrightarrow> tables_ok q \<and> depth_ok q \<and> routed_ok q \<and> flight_ok q \<and> side_ok q \<and> retry_ok q"

lemmas inv_parts = tables_ok_def depth_ok_def routed_ok_def flight_ok_def side_ok_def retry_ok_def

lemma queue_inv_new: "queue_inv (EventQueue_new mode)"
  by (simp add: queue_inv_def inv_parts EventQueue_new_def)

lemma queue_inv_deadline: "queue_inv q \<Longrightarrow> queue_inv (with_in_flight_deadline q secs)"
  by (simp add: queue_inv_def inv_parts with_in_flight_deadline_def)

lemma queue_inv_extend: "queue_inv q \<Longrightarrow> queue_inv (extend_in_flight_deadline now q c secs)"
  by (auto simp: queue_inv_def inv_parts extend_in_flight_deadline_def Let_def insert_absorb
      split: option.split dest: hm_get_key)

lemma queue_inv_push:
  assumes "queue_inv q" shows "queue_inv (fst (push q e))"
proof -
  have "length (hm_list (queues q) (q_channel_id e)) - Suc 0 \<le> 499"
    using assms by (simp add: queue_inv_def depth_ok_def MAX_PENDING_PER_CHANNEL_def le_diff_conv)
  then show ?thesis using assms
    by (auto simp: queue_inv_def inv_parts push_def Let_def MAX_PENDING_PER_CHANNEL_def dest: in_set_tlD)
qed

lemma queue_inv_recover:
  assumes "queue_inv q" shows "queue_inv (recover_withheld_for_expired_channel c q)"
proof (cases "hm_get (withheld_native_steer q) c")
  case (Some ws)
  then have "set (hm_list (withheld_native_steer q) c) = set ws" by (simp add: hm_list_def)
  then show ?thesis using assms Some
    by (auto simp: queue_inv_def inv_parts recover_withheld_for_expired_channel_def trim_back_take
        fold_Cons_rev dest!: in_set_takeD)
qed (simp add: assms recover_withheld_for_expired_channel_def)

lemma queue_inv_expire_channel: "queue_inv q \<Longrightarrow> queue_inv (expire_channel c q)"
  unfolding expire_channel_def
  by (rule queue_inv_recover) (auto simp: queue_inv_def inv_parts)

lemma queue_inv_expire_list: "queue_inv q \<Longrightarrow> queue_inv (fold expire_channel cs q)"
  by (induction cs arbitrary: q) (auto simp: queue_inv_expire_channel)

lemma queue_inv_expire: "queue_inv q \<Longrightarrow> queue_inv (expire_in_flight now q)"
  by (simp add: expire_in_flight_def queue_inv_expire_list)

lemma queue_inv_flush_cancelled: "queue_inv q \<Longrightarrow> queue_inv (fst (flush_cancelled now q c))"
  by (auto simp: queue_inv_def inv_parts flush_cancelled_def Let_def)

lemma queue_inv_flush_queue:
  assumes "queue_inv q" shows "queue_inv (fst (flush_queue now q c))"
proof -
  have "length (hm_list (queues q) c) - n \<le> MAX_PENDING_PER_CHANNEL" for n
    using assms by (simp add: queue_inv_def depth_ok_def le_diff_conv trans_le_add1)
  then show ?thesis using assms
    by (auto simp: queue_inv_def inv_parts flush_queue_def Let_def dest: in_set_dropD)
qed

lemma queue_inv_flush_next: "queue_inv q \<Longrightarrow> queue_inv (fst (flush_next now q))"
  using queue_inv_expire [of q now]
  by (auto simp: flush_next_def Let_def case_prod_beta queue_inv_flush_queue queue_inv_flush_cancelled
      split: option.split)

lemma queue_inv_mark_complete: "queue_inv q \<Longrightarrow> queue_inv (mark_complete now q c)"
  by (auto simp: queue_inv_def inv_parts mark_complete_def Let_def split: option.split)

lemma to_queued_channel [simp]: "q_channel_id (to_queued c e) = c"
  by (simp add: to_queued_def)

lemma next_attempt:
  assumes "n = 0 \<or> 1 \<le> n \<and> n \<le> MAX_RETRIES" "\<not> MAX_RETRIES < n + 1"
  shows "1 \<le> n + 1 \<and> n + 1 \<le> MAX_RETRIES" and "unat (n + 1) = unat n + 1"
proof -
  have "unat n \<le> 10" using assms(1) by (auto simp: MAX_RETRIES_def word_le_nat_alt)
  then show *: "unat (n + 1) = unat n + 1" by (simp add: unat_word_ariths)
  show "1 \<le> n + 1 \<and> n + 1 \<le> MAX_RETRIES" using assms(2) * by (simp add: not_less word_le_nat_alt)
qed

lemma queue_inv_requeue:
  assumes "queue_inv q" shows "queue_inv (fst (requeue now nanos q batch))"
proof -
  let ?c = "fb_channel_id batch"
  let ?n = "case hm_get (retry_counts q) ?c of None \<Rightarrow> 0 | Some n \<Rightarrow> n"
  have "?n = 0 \<or> 1 \<le> ?n \<and> ?n \<le> MAX_RETRIES"
    using assms by (auto simp: queue_inv_def retry_ok_def split: option.split)
  note att = next_attempt(1) [OF this]
  show ?thesis using assms att
    by (auto simp: queue_inv_def inv_parts requeue_def Let_def trim_back_take push_front_all_eq
        dest!: in_set_takeD)
qed

lemma queue_inv_requeue_preserve: "queue_inv q \<Longrightarrow> queue_inv (requeue_preserve_timestamps q batch)"
  by (auto simp: queue_inv_def inv_parts requeue_preserve_timestamps_def Let_def trim_back_take
      push_front_all_eq dest!: in_set_takeD)

lemma queue_inv_requeue_cancelled: "queue_inv q \<Longrightarrow> queue_inv (requeue_as_cancelled q batch reason)"
  by (simp add: queue_inv_def inv_parts requeue_as_cancelled_def)

lemma queue_inv_has_flushable: "queue_inv q \<Longrightarrow> queue_inv (fst (has_flushable_work now q))"
  by (simp add: has_flushable_work_def Let_def queue_inv_expire)

lemma queue_inv_drain: "queue_inv q \<Longrightarrow> queue_inv (fst (drain_channel q c))"
  by (simp add: queue_inv_def inv_parts drain_channel_def)

lemma queue_inv_mark_native:
  assumes "queue_inv q" shows "queue_inv (fst (mark_native_steer_pending q c eid))"
proof (cases "hm_get (queues q) c")
  case (Some queue)
  then have l: "hm_list (queues q) c = queue" by (simp add: hm_list_def)
  show ?thesis
  proof (cases "take_first (\<lambda>qe. ev_id (q_event qe) = eid) queue")
    case (Some r)
    obtain qe rest where r: "r = (qe, rest)" by (cases r)
    have "set queue = insert qe (set rest)" "length queue = Suc (length rest)"
      using take_first_set [of _ queue qe rest] Some r by auto
    then show ?thesis using assms \<open>hm_get (queues q) c = Some queue\<close> Some r l
      by (auto simp: queue_inv_def inv_parts mark_native_steer_pending_def) (metis Suc_leD)
  qed (use assms \<open>hm_get (queues q) c = Some queue\<close> in \<open>simp add: mark_native_steer_pending_def\<close>)
qed (simp add: assms mark_native_steer_pending_def)

lemma queue_inv_release:
  assumes "queue_inv q" shows "queue_inv (release_native_steer q c eid)"
proof (cases "hm_get (withheld_native_steer q) c")
  case (Some entries)
  then have l: "hm_list (withheld_native_steer q) c = entries" by (simp add: hm_list_def)
  show ?thesis
  proof (cases "take_first (\<lambda>qe. ev_id (q_event qe) = eid) entries")
    case (Some r)
    obtain qe rest where r: "r = (qe, rest)" by (cases r)
    have "set entries = insert qe (set rest)" using take_first_set [of _ entries qe rest] Some r by auto
    then have "\<forall>e \<in> insert qe (set rest). q_channel_id e = c"
      using assms l by (auto simp: queue_inv_def routed_ok_def)
    then show ?thesis using assms \<open>hm_get (withheld_native_steer q) c = Some entries\<close> Some r
      by (auto simp: queue_inv_def inv_parts release_native_steer_def trim_back_take dest!: in_set_takeD)
  qed (use assms \<open>hm_get (withheld_native_steer q) c = Some entries\<close> in \<open>simp add: release_native_steer_def\<close>)
qed (simp add: assms release_native_steer_def)

lemma queue_inv_remove_event: "queue_inv q \<Longrightarrow> queue_inv (remove_event q c eid)"
  by (auto simp: queue_inv_def inv_parts remove_event_def hm_get_retain
      intro: order_trans [OF length_filter_le])

lemma queue_inv_compact: "queue_inv q \<Longrightarrow> queue_inv (compact_expired_state now q)"
  by (auto simp: queue_inv_def inv_parts compact_expired_state_def Let_def hm_get_filter
      split: option.splits if_splits)

lemmas queue_inv_ops = queue_inv_deadline queue_inv_extend queue_inv_push queue_inv_flush_next
  queue_inv_mark_complete queue_inv_requeue queue_inv_requeue_preserve queue_inv_requeue_cancelled
  queue_inv_has_flushable queue_inv_drain queue_inv_mark_native queue_inv_release
  queue_inv_remove_event queue_inv_compact

inductive queue_step :: "EventQueue \<Rightarrow> EventQueue \<Rightarrow> bool" where
  "queue_step q (with_in_flight_deadline q secs)"
| "queue_step q (extend_in_flight_deadline now q c secs)"
| "queue_step q (fst (push q e))"
| "queue_step q (fst (flush_next now q))"
| "queue_step q (mark_complete now q c)"
| "queue_step q (fst (requeue now nanos q batch))"
| "queue_step q (requeue_preserve_timestamps q batch)"
| "queue_step q (requeue_as_cancelled q batch reason)"
| "queue_step q (fst (has_flushable_work now q))"
| "queue_step q (fst (drain_channel q c))"
| "queue_step q (fst (mark_native_steer_pending q c eid))"
| "queue_step q (release_native_steer q c eid)"
| "queue_step q (remove_event q c eid)"
| "queue_step q (compact_expired_state now q)"

abbreviation queue_reach :: "EventQueue \<Rightarrow> bool" where
  "queue_reach \<equiv> reach (\<lambda>q. \<exists>mode. q = EventQueue_new mode) queue_step"

interpretation event_queue: invariant_system "\<lambda>q. \<exists>mode. q = EventQueue_new mode" queue_step queue_inv
proof
  show "queue_inv s" if "\<exists>mode. s = EventQueue_new mode" for s using that queue_inv_new by auto
  show "queue_inv t" if "queue_step s t" "queue_inv s" for s t
    using that by cases (simp_all add: queue_inv_ops)
qed

subsection \<open>What expiry changes\<close>

text \<open>Everything a channel still has to deliver: queued, cancelled and withheld.\<close>

definition held :: "EventQueue \<Rightarrow> uuid \<Rightarrow> BatchEvent multiset" where
  "held q c = mset (map to_batch (hm_list (queues q) c)) + mset (hm_list (cancelled_batches q) c) +
     mset (map to_batch (hm_list (withheld_native_steer q) c))"

lemma expire_channel_simps [simp]:
  "in_flight_channels (expire_channel c q) = in_flight_channels q - {c}"
  "in_flight_deadlines (expire_channel c q) = hm_remove c (in_flight_deadlines q)"
  "cancelled_batches (expire_channel c q) = cancelled_batches q"
  "cancel_reasons (expire_channel c q) = cancel_reasons q"
  "retry_after (expire_channel c q) = retry_after q"
  "retry_counts (expire_channel c q) = retry_counts q"
  "in_flight_deadline (expire_channel c q) = in_flight_deadline q"
  "hm_list (withheld_native_steer (expire_channel c q)) c' =
     (if c' = c then [] else hm_list (withheld_native_steer q) c')"
  by (simp_all add: expire_channel_def recover_withheld_for_expired_channel_def hm_list_def
      split: option.split)

lemma expire_channel_queue:
  "depth_ok q \<Longrightarrow> hm_list (queues (expire_channel c q)) c' =
     (if c' = c then take MAX_PENDING_PER_CHANNEL (hm_list (withheld_native_steer q) c @ hm_list (queues q) c)
      else hm_list (queues q) c')"
  by (auto simp: expire_channel_def recover_withheld_for_expired_channel_def depth_ok_def
      trim_back_take fold_Cons_rev hm_list_def split: option.splits)

lemma depth_ok_expire_channel: "depth_ok q \<Longrightarrow> depth_ok (expire_channel c q)"
  by (simp add: depth_ok_def [of "expire_channel c q"] expire_channel_queue) (simp add: depth_ok_def)

lemma expire_list_simps [simp]:
  "in_flight_channels (fold expire_channel cs q) = in_flight_channels q - set cs"
  "cancelled_batches (fold expire_channel cs q) = cancelled_batches q"
  "cancel_reasons (fold expire_channel cs q) = cancel_reasons q"
  "retry_after (fold expire_channel cs q) = retry_after q"
  "retry_counts (fold expire_channel cs q) = retry_counts q"
  "in_flight_deadline (fold expire_channel cs q) = in_flight_deadline q"
  "hm_list (withheld_native_steer (fold expire_channel cs q)) c =
     (if c \<in> set cs then [] else hm_list (withheld_native_steer q) c)"
  "hm_get (in_flight_deadlines (fold expire_channel cs q)) c =
     (if c \<in> set cs then None else hm_get (in_flight_deadlines q) c)"
  by (induction cs arbitrary: q) auto

lemma expire_list_queue:
  "depth_ok q \<Longrightarrow> hm_list (queues (fold expire_channel cs q)) c =
     (if c \<in> set cs then take MAX_PENDING_PER_CHANNEL (hm_list (withheld_native_steer q) c @ hm_list (queues q) c)
      else hm_list (queues q) c)"
proof (induction cs arbitrary: q)
  case (Cons d cs)
  show ?case
    using Cons.IH [OF depth_ok_expire_channel [OF Cons.prems], of d] Cons.prems
    by (auto simp: expire_channel_queue simp del: take_append)
qed simp

definition expired :: "instant \<Rightarrow> EventQueue \<Rightarrow> uuid set" where
  "expired now q = {c. \<exists>d. hm_get (in_flight_deadlines q) c = Some d \<and> d \<le> now}"

lemma expired_set:
  "hm_wf (in_flight_deadlines q) \<Longrightarrow>
     set (map fst (filter (\<lambda>(_, deadline). now \<ge> deadline) (in_flight_deadlines q))) = expired now q"
  by (force simp: expired_def map_of_eq_Some_iff)

lemma expire_frame [simp]:
  "cancelled_batches (expire_in_flight now q) = cancelled_batches q"
  "cancel_reasons (expire_in_flight now q) = cancel_reasons q"
  "retry_after (expire_in_flight now q) = retry_after q"
  "retry_counts (expire_in_flight now q) = retry_counts q"
  "in_flight_deadline (expire_in_flight now q) = in_flight_deadline q"
  by (simp_all add: expire_in_flight_def)

lemma expire_in_flight_channels:
  "queue_inv q \<Longrightarrow> in_flight_channels (expire_in_flight now q) = in_flight_channels q - expired now q"
  by (simp add: expire_in_flight_def expired_set [symmetric] queue_inv_def tables_ok_def del: set_map)

lemma expire_queue:
  "queue_inv q \<Longrightarrow> hm_list (queues (expire_in_flight now q)) c =
     (if c \<in> expired now q
      then take MAX_PENDING_PER_CHANNEL (hm_list (withheld_native_steer q) c @ hm_list (queues q) c)
      else hm_list (queues q) c)"
  by (simp add: expire_in_flight_def expire_list_queue expired_set [symmetric] queue_inv_def
      tables_ok_def del: set_map)

lemma expire_withheld:
  "queue_inv q \<Longrightarrow> hm_list (withheld_native_steer (expire_in_flight now q)) c =
     (if c \<in> expired now q then [] else hm_list (withheld_native_steer q) c)"
  by (simp add: expire_in_flight_def expired_set [symmetric] queue_inv_def tables_ok_def del: set_map)

text \<open>
  What expiry cuts off: when the in-flight deadline of a channel has passed, its withheld events go
  to the front of its queue, and the back of the queue beyond the depth cap is dropped.
\<close>

definition trimmed :: "instant \<Rightarrow> EventQueue \<Rightarrow> uuid \<Rightarrow> QueuedEvent list" where
  "trimmed now q c =
     (if c \<in> expired now q
      then drop MAX_PENDING_PER_CHANNEL (hm_list (withheld_native_steer q) c @ hm_list (queues q) c)
      else [])"

lemma held_expire:
  assumes "queue_inv q"
  shows "held q c = held (expire_in_flight now q) c + mset (map to_batch (trimmed now q c))"
proof -
  let ?xs = "hm_list (withheld_native_steer q) c @ hm_list (queues q) c"
  have "mset (map to_batch ?xs) = mset (map to_batch (take MAX_PENDING_PER_CHANNEL ?xs)) +
      mset (map to_batch (drop MAX_PENDING_PER_CHANNEL ?xs))"
    by (metis append_take_drop_id map_append mset_append)
  then show ?thesis
    using assms
    by (auto simp: held_def trimmed_def expire_queue expire_withheld ac_simps
        simp del: take_append drop_append)
qed

subsection \<open>What a flush changes\<close>

lemma held_flush_queue:
  "held q c' = held (fst (flush_queue now q c)) c' +
     (if c' = c then mset (fb_events (snd (flush_queue now q c))) +
        mset (fb_cancelled_events (snd (flush_queue now q c))) else {#})"
proof -
  have "mset (map to_batch xs) = mset (map to_batch (drop n xs)) + mset (map to_batch (take n xs))" for n xs
    by (metis append_take_drop_id map_append mset_append union_commute)
  from this [of "hm_list (queues q) c" "min MAX_BATCH_EVENTS (length (hm_list (queues q) c))"]
  show ?thesis by (simp add: held_def flush_queue_def Let_def ac_simps)
qed

lemma held_flush_cancelled:
  "held q c' = held (fst (flush_cancelled now q c)) c' +
     (if c' = c then mset (fb_events (snd (flush_cancelled now q c))) +
        mset (fb_cancelled_events (snd (flush_cancelled now q c))) else {#})"
  by (simp add: held_def flush_cancelled_def Let_def ac_simps)

text \<open>The two ways a flush succeeds, and the one way it does not.\<close>

lemma flush_next_cases:
  fixes now q
  defines "q1 \<equiv> expire_in_flight now q"
  assumes inv: "queue_inv q"
  obtains (queued) c where "flush_next now q = (fst (flush_queue now q1 c), Some (snd (flush_queue now q1 c)))"
      "flushable now q1 (c, hm_list (queues q1) c)"
      "\<And>c'. flushable now q1 (c', hm_list (queues q1) c') \<Longrightarrow>
         q_received_at (hd (hm_list (queues q1) c)) \<le> q_received_at (hd (hm_list (queues q1) c'))"
  | (cancelled) c where "flush_next now q = (fst (flush_cancelled now q1 c), Some (snd (flush_cancelled now q1 c)))"
      "c \<in> fst ` set (cancelled_batches q)" "c \<notin> in_flight_channels q1"
      "\<And>c'. \<not> flushable now q1 (c', hm_list (queues q1) c')"
  | (idle) "flush_next now q = (q1, None)"
      "fst ` set (cancelled_batches q) \<subseteq> in_flight_channels q1"
      "\<And>c'. \<not> flushable now q1 (c', hm_list (queues q1) c')"
proof -
  have wf: "hm_wf (queues q1)" using queue_inv_expire [OF inv] by (simp add: q1_def queue_inv_def tables_ok_def)
  have eq: "(c, queue) \<in> set (queues q1) \<Longrightarrow> hm_list (queues q1) c = queue" for c queue
    using wf by (simp add: hm_list_def)
  have some: "hm_list (queues q1) c \<noteq> [] \<Longrightarrow> (c, hm_list (queues q1) c) \<in> set (queues q1)" for c
    by (auto simp: hm_list_def split: option.splits dest: map_of_SomeD)
  have mem: "flushable now q1 (c, hm_list (queues q1) c) \<longleftrightarrow>
      (\<exists>queue. (c, queue) \<in> set (filter (flushable now q1) (queues q1)))" for c
    using some [of c] eq [of c] by (auto simp: flushable_def)
  consider (a) c queue where "min_by_key (\<lambda>(_, queue). q_received_at (hd queue))
        (filter (flushable now q1) (queues q1)) = Some (c, queue)"
    | (b) "min_by_key (\<lambda>(_, queue). q_received_at (hd queue)) (filter (flushable now q1) (queues q1)) = None"
    by (metis not_None_eq old.prod.exhaust)
  then show thesis
  proof cases
    case a
    note m = min_by_key_Some [OF a]
    show thesis
    proof (rule queued [of c])
      show "flush_next now q = (fst (flush_queue now q1 c), Some (snd (flush_queue now q1 c)))"
        using a by (simp add: flush_next_def Let_def q1_def case_prod_beta)
      show "flushable now q1 (c, hm_list (queues q1) c)" using m mem by blast
      show "q_received_at (hd (hm_list (queues q1) c)) \<le> q_received_at (hd (hm_list (queues q1) c'))"
        if "flushable now q1 (c', hm_list (queues q1) c')" for c'
        using that m eq mem [of c'] by fastforce
    qed
  next
    case b
    then have none: "\<And>c'. \<not> flushable now q1 (c', hm_list (queues q1) c')"
      by (simp add: min_by_key_None mem filter_empty_conv)
    show thesis
    proof (cases "find (\<lambda>cid. cid \<notin> in_flight_channels q1) (map fst (cancelled_batches q1))")
      case None
      then have sub: "fst ` set (cancelled_batches q) \<subseteq> in_flight_channels q1"
        by (auto simp: q1_def find_None_iff)
      have "flush_next now q = (q1, None)"
        using None b by (simp add: flush_next_def Let_def q1_def)
      with sub none show thesis by (rule idle [rotated])
    next
      case (Some c)
      then have c: "c \<in> fst ` set (cancelled_batches q)" "c \<notin> in_flight_channels q1"
        by (auto simp: q1_def find_Some_iff)
      have "flush_next now q = (fst (flush_cancelled now q1 c), Some (snd (flush_cancelled now q1 c)))"
        using Some b by (simp add: flush_next_def Let_def q1_def case_prod_beta)
      then show thesis using c none by (rule cancelled)
    qed
  qed
qed

lemma expire_deadlines:
  "queue_inv q \<Longrightarrow> hm_get (in_flight_deadlines (expire_in_flight now q)) c =
     (if c \<in> expired now q then None else hm_get (in_flight_deadlines q) c)"
  by (simp add: expire_in_flight_def expired_set [symmetric] queue_inv_def tables_ok_def del: set_map)

lemma flush_batch_simps [simp]:
  "fb_channel_id (snd (flush_queue now q c)) = c"
  "fb_channel_id (snd (flush_cancelled now q c)) = c"
  "in_flight_channels (fst (flush_queue now q c)) = insert c (in_flight_channels q)"
  "in_flight_channels (fst (flush_cancelled now q c)) = insert c (in_flight_channels q)"
  "in_flight_deadlines (fst (flush_queue now q c)) =
     hm_insert c (now + in_flight_deadline q) (in_flight_deadlines q)"
  "in_flight_deadlines (fst (flush_cancelled now q c)) =
     hm_insert c (now + in_flight_deadline q) (in_flight_deadlines q)"
  by (simp_all add: flush_queue_def flush_cancelled_def Let_def)

subsection \<open>A channel in flight stays in flight\<close>

definition busy :: "uuid \<Rightarrow> instant \<Rightarrow> EventQueue \<Rightarrow> bool" where
  "busy c d q \<longleftrightarrow> c \<in> in_flight_channels q \<and> (\<exists>d'. hm_get (in_flight_deadlines q) c = Some d' \<and> d \<le> d')"

text \<open>
  Every operation other than completing channel \<open>c\<close>, with the clock read before the deadline
  \<open>d\<close> where an operation can expire channels.
\<close>

inductive busy_step :: "uuid \<Rightarrow> instant \<Rightarrow> EventQueue \<Rightarrow> EventQueue \<Rightarrow> bool" for c d where
  "busy_step c d q (with_in_flight_deadline q secs)"
| "busy_step c d q (extend_in_flight_deadline now q ch secs)"
| "busy_step c d q (fst (push q e))"
| "now < d \<Longrightarrow> busy_step c d q (fst (flush_next now q))"
| "ch \<noteq> c \<Longrightarrow> busy_step c d q (mark_complete now q ch)"
| "busy_step c d q (fst (requeue now nanos q batch))"
| "busy_step c d q (requeue_preserve_timestamps q batch)"
| "busy_step c d q (requeue_as_cancelled q batch reason)"
| "now < d \<Longrightarrow> busy_step c d q (fst (has_flushable_work now q))"
| "busy_step c d q (fst (drain_channel q ch))"
| "busy_step c d q (fst (mark_native_steer_pending q ch eid))"
| "busy_step c d q (release_native_steer q ch eid)"
| "busy_step c d q (remove_event q ch eid)"
| "busy_step c d q (compact_expired_state now q)"

lemma busy_step_step: "busy_step c d q q' \<Longrightarrow> queue_step q q'"
  by (cases rule: busy_step.cases) (auto intro: queue_step.intros)

lemma busy_expire: "queue_inv q \<Longrightarrow> busy c d q \<Longrightarrow> now < d \<Longrightarrow> busy c d (expire_in_flight now q)"
  by (auto simp: busy_def expire_in_flight_channels expire_deadlines expired_def)

lemma busy_flush:
  assumes "queue_inv q" "busy c d q" "now < d" shows "busy c d (fst (flush_next now q))"
  using busy_expire [OF assms]
  by (cases rule: flush_next_cases [OF assms(1), of now]) (auto simp: busy_def flushable_def)

lemma flush_frame:
  "in_flight_channels (fst (push q e)) = in_flight_channels q"
  "in_flight_deadlines (fst (push q e)) = in_flight_deadlines q"
  "in_flight_channels (fst (requeue now nanos q batch)) = in_flight_channels q"
  "in_flight_deadlines (fst (requeue now nanos q batch)) = in_flight_deadlines q"
  "in_flight_channels (fst (mark_native_steer_pending q ch eid)) = in_flight_channels q"
  "in_flight_deadlines (fst (mark_native_steer_pending q ch eid)) = in_flight_deadlines q"
  "in_flight_channels (release_native_steer q ch eid) = in_flight_channels q"
  "in_flight_deadlines (release_native_steer q ch eid) = in_flight_deadlines q"
  by (simp_all add: push_def requeue_def mark_native_steer_pending_def release_native_steer_def
      Let_def split: option.split)

lemma busy_step_busy:
  assumes "busy_step c d q q'" "queue_inv q" "busy c d q" shows "busy c d q'"
  using assms
proof cases
  case (2 now ch secs)
  then show ?thesis using assms
    by (auto simp: busy_def extend_in_flight_deadline_def Let_def split: option.split)
next
  case (4 now)
  then show ?thesis using assms by (simp add: busy_flush)
next
  case (5 ch now)
  then show ?thesis using assms
    by (auto simp: busy_def mark_complete_def Let_def split: option.split)
next
  case (9 now)
  then show ?thesis using assms by (simp add: has_flushable_work_def Let_def busy_expire)
qed (use assms in \<open>simp_all add: busy_def flush_frame with_in_flight_deadline_def
    requeue_preserve_timestamps_def requeue_as_cancelled_def drain_channel_def remove_event_def
    compact_expired_state_def Let_def\<close>)

lemma busy_steps:
  "(busy_step c d)\<^sup>*\<^sup>* q q' \<Longrightarrow> queue_inv q \<Longrightarrow> busy c d q \<Longrightarrow> queue_inv q' \<and> busy c d q'"
  by (induction rule: rtranclp_induct)
     (auto intro: busy_step_busy event_queue.inv_step busy_step_step)

lemma busy_not_flushed:
  assumes "queue_inv q" "busy c d q" "now < d" "flush_next now q = (q', Some b)"
  shows "fb_channel_id b \<noteq> c"
proof (cases rule: flush_next_cases [OF assms(1), of now])
  case (1 ch)
  then show ?thesis using busy_expire [OF assms(1-3)] assms(4) by (auto simp: busy_def flushable_def)
next
  case (2 ch)
  then show ?thesis using busy_expire [OF assms(1-3)] assms(4) by (auto simp: busy_def)
next
  case 3
  then show ?thesis using assms(4) by simp
qed

subsection \<open>Back-off\<close>

lemma capped_secs_le: "capped_secs attempt \<le> 300"
  by (simp add: capped_secs_def Let_def MAX_RETRY_DELAY_SECS_def)

lemma retry_delay_bounds:
  assumes "nanos < 1000000000"
  shows "capped_secs attempt * 800000000 \<le> retry_delay attempt nanos"
    and "retry_delay attempt nanos \<le> capped_secs attempt * 894000000"
proof -
  define k where "k = capped_secs attempt"
  have eq: "retry_delay attempt nanos =
      (2 * (k * 1000000000 * (8 * 4294967295 + 4 * nanos)) + 42949672950) div 85899345900"
    by (simp add: retry_delay_def u32_max_def Let_def k_def)
  have "k * 800000000 * 85899345900 \<le> 2 * (k * 1000000000 * (8 * 4294967295 + 4 * nanos)) + 42949672950"
    by (simp add: algebra_simps)
  then show "capped_secs attempt * 800000000 \<le> retry_delay attempt nanos"
    unfolding eq k_def [symmetric] by (simp add: less_eq_div_iff_mult_less_eq)
  have h: "k * (nanos * 8000000000) \<le> k * 8000000000000000000"
    using assms by (intro mult_le_mono2) simp
  have l: "2 * (k * 1000000000 * (8 * 4294967295 + 4 * nanos)) + 42949672950 =
      k * 68719476720000000000 + k * (nanos * 8000000000) + 42949672950"
    by (simp add: algebra_simps)
  have r: "(k * 894000000 + 1) * 85899345900 = k * 76794015234600000000 + 85899345900"
    by (simp add: algebra_simps)
  have "2 * (k * 1000000000 * (8 * 4294967295 + 4 * nanos)) + 42949672950 <
      (k * 894000000 + 1) * 85899345900"
    unfolding l r using h by linarith
  then show "retry_delay attempt nanos \<le> capped_secs attempt * 894000000"
    unfolding eq k_def [symmetric] by (simp add: div_less_iff_less_mult flip: less_Suc_eq_le)
qed

lemma held_requeue_room:
  assumes "length xs + length (hm_list (queues q) c) \<le> MAX_PENDING_PER_CHANNEL"
  shows "mset (map to_batch (trim_back (push_front_all c xs (hm_list (queues q) c)))) =
    mset xs + mset (map to_batch (hm_list (queues q) c))"
proof -
  have "map (to_batch \<circ> to_queued c) xs = xs"
    by (rule map_idI) (simp add: to_batch_def to_queued_def)
  then show ?thesis using assms by (simp add: trim_back_take push_front_all_eq)
qed

text \<open>The id of the last \<open>e\<close> tag with a given marker.\<close>

definition marked :: "string \<Rightarrow> nostr_tag \<Rightarrow> bool" where
  "marked m tag \<longleftrightarrow> (case tag_slice tag of e # v # r # k # _ \<Rightarrow> e = ''e'' \<and> k = m | _ \<Rightarrow> False)"

definition last_marked :: "string \<Rightarrow> nostr_tag list \<Rightarrow> string option" where
  "last_marked m tags = (let ts = filter (marked m) tags in
     if ts = [] then None else Some (tag_slice (last ts) ! 1))"

definition mention :: "nostr_tag \<Rightarrow> string option" where
  "mention tag = (case tag_slice tag of p # v # _ \<Rightarrow> if p = ''p'' then Some v else None | _ \<Rightarrow> None)"

lemma thread_tags_loop_eq:
  "thread_tags_loop root reply ms tags =
     ((case last_marked ''root'' tags of None \<Rightarrow> root | x \<Rightarrow> x),
      (case last_marked ''reply'' tags of None \<Rightarrow> reply | x \<Rightarrow> x),
      ms @ List.map_filter mention tags)"
proof (induction tags arbitrary: root reply ms)
  case Nil
  then show ?case by (simp add: last_marked_def List.map_filter_def)
next
  case (Cons tag tags)
  consider "tag_slice tag = []" | a where "tag_slice tag = [a]" | a b where "tag_slice tag = [a, b]"
    | a b c where "tag_slice tag = [a, b, c]" | a b c d r where "tag_slice tag = a # b # c # d # r"
    by (metis list.exhaust)
  then show ?case
    by cases (auto simp: Cons.IH Let_def last_marked_def marked_def mention_def List.map_filter_def
        split: option.split)
qed

subsection \<open>Properties\<close>

definition demo_event :: "string \<Rightarrow> nat \<Rightarrow> QueuedEvent" where
  "demo_event eid t = \<lparr>q_channel_id = ''ch'', q_event = \<lparr>ev_id = eid, ev_pubkey = ''pk'',
     ev_created_at = t, ev_kind = 9, ev_tags = [], ev_content = ''hello''\<rparr>,
     q_received_at = t, q_prompt_tag = ''mention''\<rparr>"

definition demo_queue :: EventQueue where
  "demo_queue = fst (push (fst (push (EventQueue_new Queue) (demo_event ''e2'' 20))) (demo_event ''e1'' 10))"

definition demo_batch :: FlushBatch where
  "demo_batch = \<lparr>fb_channel_id = ''ch'', fb_events = [to_batch (demo_event ''e1'' 10), to_batch (demo_event ''e2'' 20)],
     fb_cancelled_events = [], fb_cancel_reason = None\<rparr>"

lemmas queue_eval = demo_queue_def demo_batch_def demo_event_def push_def EventQueue_new_def hm_list_def
  flush_next_def flush_queue_def flush_cancelled_def expire_in_flight_def flushable_def to_batch_def
  MAX_PENDING_PER_CHANNEL_def MAX_BATCH_EVENTS_def from_secs_def DEFAULT_IN_FLIGHT_DEADLINE_SECS_def
  Let_def

lemma demo_queue_reach: "queue_reach demo_queue"
  unfolding demo_queue_def
  by (intro reach_step [where step = queue_step, OF _ queue_step.intros(3)] reach_init) blast

lemma demo_flush: "snd (flush_next 100 demo_queue) = Some demo_batch"
  by (simp add: queue_eval)

text \<open>
  C29. What a flush does with every event: for every channel, what was held (queued, cancelled or
  withheld) is what is still held plus, for the flushed channel, the batch, plus what expiry cut
  off. Expiry cuts something off only for a channel whose in-flight deadline has passed and whose
  withheld and queued events together exceed the depth cap of 500: then the excess at the back of
  the queue is lost. In every other case no event is lost, and none is ever invented.
\<close>

theorem flush_conserves_events:
  assumes "queue_reach q" and "flush_next now q = (q', res)"
  shows "held q c = held q' c + (case res of None \<Rightarrow> {#}
     | Some b \<Rightarrow> if fb_channel_id b = c then mset (fb_events b) + mset (fb_cancelled_events b) else {#}) +
     mset (map to_batch (trimmed now q c)) \<and>
   length (trimmed now q c) =
     (if c \<in> expired now q
      then length (hm_list (withheld_native_steer q) c) + length (hm_list (queues q) c) - MAX_PENDING_PER_CHANNEL
      else 0)"
proof -
  have inv: "queue_inv q" by (rule event_queue.reach_inv [OF assms(1)])
  let ?q1 = "expire_in_flight now q"
  have h: "held q c = held ?q1 c + mset (map to_batch (trimmed now q c))" by (rule held_expire [OF inv])
  have "held ?q1 c = held q' c + (case res of None \<Rightarrow> {#}
     | Some b \<Rightarrow> if fb_channel_id b = c then mset (fb_events b) + mset (fb_cancelled_events b) else {#})"
  proof (cases rule: flush_next_cases [OF inv, of now])
    case (1 ch)
    then show ?thesis using assms(2) held_flush_queue [of ?q1 c now ch] by auto
  next
    case (2 ch)
    then show ?thesis using assms(2) held_flush_cancelled [of ?q1 c now ch] by auto
  next
    case 3
    then show ?thesis using assms(2) by auto
  qed
  then show ?thesis using h by (simp add: trimmed_def del: drop_append)
qed

theorem flush_conserves_events_witness:
  "held demo_queue ''ch'' = held (fst (flush_next 100 demo_queue)) ''ch'' + mset (fb_events demo_batch)"
proof -
  have "expired 100 demo_queue = {}" by (auto simp: expired_def queue_eval)
  then have none: "trimmed 100 demo_queue ''ch'' = []" by (simp add: trimmed_def)
  have "flush_next 100 demo_queue = (fst (flush_next 100 demo_queue), Some demo_batch)"
    using demo_flush by (metis prod.collapse)
  from flush_conserves_events [OF demo_queue_reach this, of "''ch''"] show ?thesis
    by (simp add: none) (simp add: demo_batch_def)
qed

text \<open>
  C35. A flush is fair and exact. After expiry of stale channels, either the flushed channel is
  neither in flight nor throttled and no flushable channel has an older head event, and the
  batch is the first (at most 50) queued events in creation order with the cancelled events
  merged in; or nothing queued is flushable and a cancelled batch is re-dispatched. The channel
  is in flight afterwards, until the deadline.
\<close>

theorem flush_next_fair:
  assumes "queue_reach q" and "flush_next now q = (q', Some b)"
    and "q1 = expire_in_flight now q" and "c = fb_channel_id b"
  shows "c \<notin> in_flight_channels q1 \<and> c \<in> in_flight_channels q' \<and>
    hm_get (in_flight_deadlines q') c = Some (now + in_flight_deadline q) \<and>
    (if \<exists>ch. flushable now q1 (ch, hm_list (queues q1) ch)
     then flushable now q1 (c, hm_list (queues q1) c) \<and>
       (\<forall>ch. flushable now q1 (ch, hm_list (queues q1) ch) \<longrightarrow>
          q_received_at (hd (hm_list (queues q1) c)) \<le> q_received_at (hd (hm_list (queues q1) ch))) \<and>
       fb_events b = sort_key (\<lambda>e. ev_created_at (be_event e)) (map to_batch (take 50 (hm_list (queues q1) c))) \<and>
       hm_list (queues q') c = drop 50 (hm_list (queues q1) c) \<and>
       fb_cancelled_events b = hm_list (cancelled_batches q) c
     else fb_events b = hm_list (cancelled_batches q) c \<and> fb_cancelled_events b = [])"
proof -
  have inv: "queue_inv q" by (rule event_queue.reach_inv [OF assms(1)])
  have tk: "take (min 50 (length xs)) xs = take 50 xs" "drop (min 50 (length xs)) xs = drop 50 xs" for xs :: "'a list"
    by (auto simp: min_def)
  show ?thesis
  proof (cases rule: flush_next_cases [OF inv, of now])
    case (1 ch)
    then have "b = snd (flush_queue now q1 ch)" "q' = fst (flush_queue now q1 ch)" "c = ch"
      using assms by simp_all
    then show ?thesis using 1(2,3) assms(3)
      by (auto simp: flush_queue_def Let_def tk MAX_BATCH_EVENTS_def flushable_def)
  next
    case (2 ch)
    then have "b = snd (flush_cancelled now q1 ch)" "q' = fst (flush_cancelled now q1 ch)" "c = ch"
      using assms by simp_all
    then show ?thesis using 2(3,4) assms(3) by (auto simp: flush_cancelled_def Let_def)
  next
    case 3
    then show ?thesis using assms(2) by simp
  qed
qed

theorem flush_next_fair_witness:
  "hm_get (in_flight_deadlines (fst (flush_next 100 demo_queue))) ''ch'' =
     Some (100 + in_flight_deadline demo_queue)"
proof -
  have "flush_next 100 demo_queue = (fst (flush_next 100 demo_queue), Some demo_batch)"
    using demo_flush by (metis prod.collapse)
  from flush_next_fair [OF demo_queue_reach this refl refl] show ?thesis by (simp add: demo_batch_def)
qed

text \<open>
  C17. No double dispatch: once a batch of a channel is dispatched, no later flush returns that
  channel before its deadline, whatever operations run in between (pushes, re-queues,
  cancellations, drains, other channels' flushes and completions), unless the channel is
  completed.
\<close>

theorem no_double_dispatch:
  assumes "queue_reach q" and "flush_next now q = (q', Some b)"
    and "(busy_step (fb_channel_id b) (now + in_flight_deadline q))\<^sup>*\<^sup>* q' q''"
    and "now'' < now + in_flight_deadline q"
    and "flush_next now'' q'' = (q3, Some b')"
  shows "fb_channel_id b' \<noteq> fb_channel_id b"
proof -
  have inv: "queue_inv q" by (rule event_queue.reach_inv [OF assms(1)])
  have "queue_inv q'" using queue_inv_flush_next [OF inv, of now] assms(2) by simp
  moreover have "busy (fb_channel_id b) (now + in_flight_deadline q) q'"
    using assms(2) by (cases rule: flush_next_cases [OF inv, of now]) (auto simp: busy_def)
  ultimately have "queue_inv q''" "busy (fb_channel_id b) (now + in_flight_deadline q) q''"
    using busy_steps [OF assms(3)] by auto
  then show ?thesis using busy_not_flushed assms(4,5) by blast
qed

definition demo_other :: QueuedEvent where
  "demo_other = (demo_event ''x1'' 30)\<lparr>q_channel_id := ''other''\<rparr>"

theorem no_double_dispatch_witness:
  "map_option fb_channel_id (snd (flush_next 200 (fst (push (fst (flush_next 100 demo_queue)) demo_other)))) =
     Some ''other'' \<and> ''other'' \<noteq> fb_channel_id demo_batch"
proof -
  let ?q' = "fst (flush_next 100 demo_queue)" and ?q2 = "fst (push (fst (flush_next 100 demo_queue)) demo_other)"
  have f1: "flush_next 100 demo_queue = (?q', Some demo_batch)" using demo_flush by (metis prod.collapse)
  have o: "map_option fb_channel_id (snd (flush_next 200 ?q2)) = Some ''other''"
    by (simp add: queue_eval demo_other_def)
  then obtain b' where b': "snd (flush_next 200 ?q2) = Some b'" "fb_channel_id b' = ''other''" by auto
  then have f2: "flush_next 200 ?q2 = (fst (flush_next 200 ?q2), Some b')" by (metis prod.collapse)
  have steps: "(busy_step (fb_channel_id demo_batch) (100 + in_flight_deadline demo_queue))\<^sup>*\<^sup>* ?q' ?q2"
    by (rule r_into_rtranclp) (rule busy_step.intros(3))
  have "200 < 100 + in_flight_deadline demo_queue" by (simp add: queue_eval)
  from no_double_dispatch [OF demo_queue_reach f1 steps this f2] b'(2) o show ?thesis by simp
qed

text \<open>
  The readiness test is exact: it answers yes exactly when a flush at the same moment
  returns a batch, and both leave the same state when there is none.
\<close>

theorem flushable_work_exact:
  "(snd (has_flushable_work now q) \<longleftrightarrow> snd (flush_next now q) \<noteq> None) \<and>
   (if snd (flush_next now q) = None then fst (flush_next now q) = fst (has_flushable_work now q) else True)"
proof -
  let ?q = "expire_in_flight now q"
  let ?m = "min_by_key (\<lambda>(_, queue). q_received_at (hd queue)) (filter (flushable now ?q) (queues ?q))"
  let ?f = "find (\<lambda>cid. cid \<notin> in_flight_channels ?q) (map fst (cancelled_batches ?q))"
  have "list_ex (flushable now ?q) (queues ?q) \<longleftrightarrow> ?m \<noteq> None"
    by (auto simp: min_by_key_None filter_empty_conv list_ex_iff)
  moreover have "list_ex (\<lambda>cid. cid \<notin> in_flight_channels ?q) (map fst (cancelled_batches ?q)) \<longleftrightarrow> ?f \<noteq> None"
    by (simp only: find_None_iff list_ex_iff) blast
  ultimately show ?thesis
    by (cases ?m; cases ?f)
       (simp_all add: has_flushable_work_def flush_next_def Let_def case_prod_beta)
qed

text \<open>
  C36. Failing batches back off and are dead-lettered: after \<open>n\<close> consecutive failures the next
  failure re-queues the batch in front and blocks the channel for a delay between 80% and 89.4%
  of min(5 * 2^n, 300) seconds, until the eleventh failure, which hands the batch back and clears
  the channel's retry state. (The jitter is meant to be 0.8 to 1.2, but its entropy source never
  exceeds a quarter of the range.)
\<close>

theorem requeue_backoff:
  assumes "queue_reach q" and "nanos < 1000000000"
    and "c = fb_channel_id b"
    and "n = (case hm_get (retry_counts q) c of None \<Rightarrow> 0 | Some k \<Rightarrow> unat k)"
    and "requeue now nanos q b = (q', res)"
  shows "n \<le> 10 \<and>
    (if n = 10
     then res = Some b \<and> hm_get (retry_counts q') c = None \<and> hm_get (retry_after q') c = None \<and>
       queues q' = queues q
     else res = None \<and> map_option unat (hm_get (retry_counts q') c) = Some (n + 1) \<and>
       (\<exists>t. hm_get (retry_after q') c = Some t \<and>
          now + min (5 * 2 ^ min n 6) 300 * 800000000 \<le> t \<and>
          t \<le> now + min (5 * 2 ^ min n 6) 300 * 894000000) \<and>
       hm_list (queues q') c = take 500 (map (to_queued c) (fb_events b) @ hm_list (queues q) c))"
proof -
  have inv: "queue_inv q" by (rule event_queue.reach_inv [OF assms(1)])
  let ?k = "case hm_get (retry_counts q) c of None \<Rightarrow> 0 | Some k \<Rightarrow> k"
  have k: "?k = 0 \<or> 1 \<le> ?k \<and> ?k \<le> MAX_RETRIES"
    using inv by (auto simp: queue_inv_def retry_ok_def split: option.split)
  have n: "n = unat ?k" using assms(4) by (simp split: option.split)
  have n10: "n \<le> 10" using k unfolding n by (auto simp: MAX_RETRIES_def word_le_nat_alt)
  then have n1: "unat (?k + 1) = n + 1" unfolding n by (simp add: unat_word_ariths)
  then have att: "MAX_RETRIES < ?k + 1 \<longleftrightarrow> n = 10"
    using n10 by (auto simp: MAX_RETRIES_def word_less_nat_alt)
  have cap: "capped_secs (?k + 1) = min (5 * 2 ^ min n 6) 300"
  proof -
    have "(2 :: nat) ^ min n 6 \<le> 2 ^ 6" by (rule power_increasing) simp_all
    then have "5 * 2 ^ min n 6 \<le> u64_max" by (simp add: u64_max_def)
    then show ?thesis
      by (simp add: capped_secs_def Let_def BASE_RETRY_DELAY_SECS_def MAX_RETRY_DELAY_SECS_def n)
  qed
  note d = retry_delay_bounds [OF assms(2), of "?k + 1", unfolded cap]
  show ?thesis
  proof (cases "n = 10")
    case True
    then show ?thesis using assms(3,5) att by (auto simp: requeue_def Let_def)
  next
    case False
    then show ?thesis using assms(3,5) att n10 n1 d
      by (auto simp: requeue_def Let_def trim_back_take push_front_all_eq MAX_PENDING_PER_CHANNEL_def)
  qed
qed

theorem requeue_backoff_witness:
  "snd (requeue 0 500 demo_queue demo_batch) = None \<and>
   length (hm_list (queues (fst (requeue 0 500 demo_queue demo_batch))) ''ch'') = 4"
proof -
  have "hm_get (retry_counts demo_queue) ''ch'' = None" by (simp add: queue_eval)
  then have n: "(0 :: nat) = (case hm_get (retry_counts demo_queue) ''ch'' of None \<Rightarrow> 0 | Some k \<Rightarrow> unat k)"
    by simp
  have len: "length (hm_list (queues demo_queue) ''ch'') = 2" by (simp add: queue_eval)
  have c: "''ch'' = fb_channel_id demo_batch" by (simp add: demo_batch_def)
  have "requeue 0 500 demo_queue demo_batch =
      (fst (requeue 0 500 demo_queue demo_batch), snd (requeue 0 500 demo_queue demo_batch))" by simp
  from requeue_backoff [OF demo_queue_reach _ c n this] len show ?thesis
    by (simp add: demo_batch_def)
qed

text \<open>
  Re-queueing after a failure keeps a batch's events, re-queueing as cancelled keeps its
  cancelled events as well. The former drops the cancelled events a merged batch carries: they
  appear in no term on the right.
\<close>

theorem requeue_conservation:
  assumes "length (fb_events b) + length (hm_list (queues q) (fb_channel_id b)) \<le> MAX_PENDING_PER_CHANNEL"
    and "c = fb_channel_id b" and "snd (requeue now nanos q b) = None"
  shows "held (fst (requeue now nanos q b)) c = held q c + mset (fb_events b) \<and>
    held (requeue_preserve_timestamps q b) c = held q c + mset (fb_events b) \<and>
    held (requeue_as_cancelled q b reason) c =
      held q c + mset (fb_events b) + mset (fb_cancelled_events b)"
  using assms held_requeue_room [OF assms(1)]
  by (auto simp: held_def requeue_def requeue_preserve_timestamps_def requeue_as_cancelled_def Let_def
      ac_simps split: if_splits)

theorem requeue_conservation_witness:
  "held (requeue_preserve_timestamps (EventQueue_new Queue) demo_batch) ''ch'' = mset (fb_events demo_batch)"
proof -
  let ?q = "EventQueue_new Queue"
  have room: "length (fb_events demo_batch) + length (hm_list (queues ?q) (fb_channel_id demo_batch))
      \<le> MAX_PENDING_PER_CHANNEL" by (simp add: queue_eval)
  have c: "''ch'' = fb_channel_id demo_batch" by (simp add: demo_batch_def)
  have "snd (requeue 0 0 ?q demo_batch) = None" by (simp add: queue_eval requeue_def MAX_RETRIES_def)
  from requeue_conservation [OF room c this, of Steer] show ?thesis
    by (simp add: held_def EventQueue_new_def)
qed

text \<open>
  Withholding an event for a native steer and releasing it again loses nothing: the channel
  holds the same events throughout, and the released event is at the front of the queue.
\<close>

theorem withhold_release_roundtrip:
  assumes "queue_reach q" and "mark_native_steer_pending q c eid = (q', True)"
  shows "held q' c = held q c \<and> held (release_native_steer q' c eid) c = held q c \<and>
    ev_id (q_event (hd (hm_list (queues (release_native_steer q' c eid)) c))) = eid"
proof -
  have inv: "queue_inv q" by (rule event_queue.reach_inv [OF assms(1)])
  let ?P = "\<lambda>qe. ev_id (q_event qe) = eid"
  obtain queue qe rest where queue: "hm_get (queues q) c = Some queue"
      and tf: "take_first ?P queue = Some (qe, rest)"
      and q': "q' = q\<lparr>queues := (if rest = [] then hm_remove c (queues q) else hm_insert c rest (queues q)),
        withheld_native_steer := hm_insert c (hm_list (withheld_native_steer q) c @ [qe]) (withheld_native_steer q)\<rparr>"
    using assms(2) by (auto simp: mark_native_steer_pending_def split: option.splits)
  have qe: "?P qe" "mset queue = add_mset qe (mset rest)" "length queue = Suc (length rest)"
    using take_first_Some [OF tf] take_first_set [OF tf] by simp_all
  have ql: "hm_list (queues q) c = queue" using queue by (simp add: hm_list_def)
  have rl: "hm_list (queues q') c = rest" by (simp add: q')
  have len: "length rest < MAX_PENDING_PER_CHANNEL"
    using inv qe(3) ql unfolding queue_inv_def depth_ok_def by (metis Suc_le_eq)
  let ?ws = "hm_list (withheld_native_steer q) c @ [qe]"
  have wget: "hm_get (withheld_native_steer q') c = Some ?ws" by (simp add: q')
  obtain w ws' where w: "take_first ?P ?ws = Some (w, ws')"
    using take_first_None [of ?P ?ws] qe(1) by (cases "take_first ?P ?ws") auto
  have wm: "?P w" "add_mset qe (mset (hm_list (withheld_native_steer q) c)) = add_mset w (mset ws')"
    using take_first_Some [OF w] by simp_all
  have h1: "held q' c = held q c"
    using arg_cong [OF qe(2), of "image_mset to_batch"] by (simp add: held_def q' ql)
  have rq: "hm_list (queues (release_native_steer q' c eid)) c = w # rest"
    using wget w rl len by (simp add: release_native_steer_def trim_back_take)
  have "hm_list (withheld_native_steer (release_native_steer q' c eid)) c = ws'"
    using wget w by (simp add: release_native_steer_def)
  moreover have "cancelled_batches (release_native_steer q' c eid) = cancelled_batches q"
    using wget w by (simp add: release_native_steer_def q')
  ultimately have "held (release_native_steer q' c eid) c = held q c"
    using arg_cong [OF wm(2), of "image_mset to_batch"] arg_cong [OF qe(2), of "image_mset to_batch"]
    by (simp add: held_def rq ql)
  with h1 rq wm(1) show ?thesis by simp
qed

theorem withhold_release_roundtrip_witness:
  "held (fst (mark_native_steer_pending demo_queue ''ch'' ''e1'')) ''ch'' = held demo_queue ''ch''"
proof -
  have "snd (mark_native_steer_pending demo_queue ''ch'' ''e1'')"
    by (simp add: queue_eval mark_native_steer_pending_def)
  then have "mark_native_steer_pending demo_queue ''ch'' ''e1'' =
      (fst (mark_native_steer_pending demo_queue ''ch'' ''e1''), True)" by (metis prod.collapse)
  from withhold_release_roundtrip [OF demo_queue_reach this] show ?thesis by simp
qed

text \<open>
  In every reachable queue, no channel holds more than 500 queued events, every queued or
  withheld event is filed under its own channel, the in-flight set is exactly the set of
  channels with a deadline (so none is stuck without one), retry counters stay between 1 and
  10, and a push in drop mode for an in-flight channel changes nothing.
\<close>

theorem queue_bounded:
  assumes "queue_reach q"
  shows "length (hm_list (queues q) c) \<le> 500 \<and>
    q_channel_id ` set (hm_list (queues q) c @ hm_list (withheld_native_steer q) c) \<subseteq> {c} \<and>
    in_flight_channels q = fst ` set (in_flight_deadlines q) \<and>
    (case hm_get (retry_counts q) c of None \<Rightarrow> True | Some n \<Rightarrow> 1 \<le> n \<and> n \<le> 10) \<and>
    (if dedup_mode q = Drop \<and> q_channel_id e \<in> in_flight_channels q then push q e = (q, False)
     else snd (push q e) \<and> last (hm_list (queues (fst (push q e))) (q_channel_id e)) = e)"
  using event_queue.reach_inv [OF assms]
  by (auto simp: queue_inv_def inv_parts push_def Let_def MAX_PENDING_PER_CHANNEL_def MAX_RETRIES_def
      split: option.split)

theorem queue_bounded_witness:
  "length (hm_list (queues demo_queue) ''ch'') \<le> 500 \<and> in_flight_channels demo_queue = {}"
proof -
  have "in_flight_deadlines demo_queue = []" by (simp add: queue_eval)
  then show ?thesis using queue_bounded [OF demo_queue_reach, of "''ch''" demo_other] by simp
qed

text \<open>
  Draining a channel removes everything it held and nothing else, and an in-flight turn
  keeps its deadline. The ids reported are those of the queued events only: cancelled and
  withheld events are dropped without being reported.
\<close>

theorem drain_channel_exact:
  "held (fst (drain_channel q c)) c' = (if c' = c then {#} else held q c') \<and>
   snd (drain_channel q c) = map (ev_id \<circ> q_event) (hm_list (queues q) c) \<and>
   in_flight_channels (fst (drain_channel q c)) = in_flight_channels q \<and>
   in_flight_deadlines (fst (drain_channel q c)) = in_flight_deadlines q"
  by (simp add: held_def drain_channel_def)

text \<open>
  Thread tags: the root is the last \<open>root\<close>-marked reference, the parent the last
  \<open>reply\<close>-marked one, each standing in for the other when only one is present, and the mentions
  are the \<open>p\<close> tag values in order. So root and parent are both present or both absent.
\<close>

theorem thread_tags_exact:
  "parse_thread_tags event =
     (let root = last_marked ''root'' (ev_tags event); reply = last_marked ''reply'' (ev_tags event)
      in \<lparr>root_event_id = (if root = None then reply else root),
          parent_event_id = (if reply = None then root else reply),
          mentioned_pubkeys = List.map_filter mention (ev_tags event)\<rparr>)"
  by (simp add: parse_thread_tags_def thread_tags_loop_eq Let_def split: option.split)

end
