(* ===== verification/Audio_Room.thy ===== *)
theory Audio_Room
  imports Buzz_Prelude
begin

text \<open>
  Huddle audio rooms of the relay, \<open>crates/buzz-relay/src/audio/room.rs\<close>: admission with index
  allocation, protocol version pin and life-cycle gate, removal with the auto-end decision,
  roster deltas and snapshots, frame and control fan-out, and the registry of rooms. The
  admission lock makes each operation one atomic step. The per-peer \<open>mpsc\<close> channels are bounded
  buffers, the roster broadcast is the log of everything sent, a poisoned lock is a flag, and
  \<open>Arc<Room>\<close> is an address into a store, so that a room outlives its registry entry. The id a
  joining peer gets from \<open>Uuid::new_v4\<close> is an argument.
\<close>

subsection \<open>Bounded channels\<close>

record 'a mpsc =
  mp_buf :: "'a list"
  mp_cap :: nat
  mp_open :: bool

definition mpsc_channel :: "nat \<Rightarrow> 'a mpsc" where
  "mpsc_channel cap = \<lparr>mp_buf = [], mp_cap = cap, mp_open = True\<rparr>"

text \<open>\<open>try_send\<close>: the message is dropped when the buffer is full or the receiver is gone.\<close>

definition try_send :: "'a \<Rightarrow> 'a mpsc \<Rightarrow> 'a mpsc" where
  "try_send m ch = (if mp_open ch \<and> length (mp_buf ch) < mp_cap ch
     then ch\<lparr>mp_buf := mp_buf ch @ [m]\<rparr> else ch)"

subsection \<open>State\<close>

datatype PeerCtrl = Json string | Close

record AudioPeer =
  pubkey :: hex
  audio_tx :: "u8 list mpsc"
  ctrl_tx :: "PeerCtrl mpsc"
  peer_index :: u8

definition AUDIO_CHANNEL_CAPACITY :: nat where "AUDIO_CHANNEL_CAPACITY = 8"

definition CTRL_CHANNEL_CAPACITY :: nat where "CTRL_CHANNEL_CAPACITY = 32"

definition MAX_PEERS_PER_ROOM :: nat where "MAX_PEERS_PER_ROOM = 25"

record RosterPeer =
  rp_pubkey :: hex
  rp_peer_index :: u8

record RosterSnapshot =
  sn_revision :: u64
  sn_peers :: "RosterPeer list"

record RosterDelta =
  rd_revision :: u64
  rd_joined :: "RosterPeer option"
  rd_left :: "RosterPeer option"

datatype AdmissionError = Ended | Full | VersionMismatch u8 u8

record AdmissionGuard =
  next_fresh :: u8
  free :: "u8 list"
  ended :: bool
  pinned_version :: "u8 option"
  roster_revision :: u64

definition AdmissionGuard_new :: AdmissionGuard where
  "AdmissionGuard_new = \<lparr>next_fresh = 0, free = [], ended = False, pinned_version = None,
     roster_revision = 0\<rparr>"

definition alloc :: "AdmissionGuard \<Rightarrow> (AdmissionGuard \<times> u8) option" where
  "alloc g =
     (if free g \<noteq> [] then Some (g\<lparr>free := butlast (free g)\<rparr>, last (free g))
      else if next_fresh g = 255 then None
      else Some (g\<lparr>next_fresh := next_fresh g + 1\<rparr>, next_fresh g))"

definition release :: "u8 \<Rightarrow> AdmissionGuard \<Rightarrow> AdmissionGuard" where
  "release idx g = g\<lparr>free := free g @ [idx]\<rparr>"

record Room =
  rm_community_id :: uuid
  rm_channel_id :: uuid
  peers :: "(uuid, AudioPeer) hmap"
  guard :: AdmissionGuard
  poisoned :: bool
  roster_log :: "RosterDelta list"

definition Room_new :: "uuid \<Rightarrow> uuid \<Rightarrow> Room" where
  "Room_new community_id channel_id =
     \<lparr>rm_community_id = community_id, rm_channel_id = channel_id, peers = [],
      guard = AdmissionGuard_new, poisoned = False, roster_log = []\<rparr>"

subsection \<open>Life cycle and admission\<close>

definition mark_ended :: "Room \<Rightarrow> Room \<times> bool" where
  "mark_ended r =
     (if poisoned r then (r, False)
      else (r\<lparr>guard := (guard r)\<lparr>ended := True\<rparr>\<rparr>, peers r = []))"

definition clear_ended :: "Room \<Rightarrow> Room" where
  "clear_ended r = (if poisoned r then r else r\<lparr>guard := (guard r)\<lparr>ended := False\<rparr>\<rparr>)"

definition new_peer :: "hex \<Rightarrow> u8 \<Rightarrow> AudioPeer" where
  "new_peer pk idx = \<lparr>pubkey = pk, audio_tx = mpsc_channel AUDIO_CHANNEL_CAPACITY,
     ctrl_tx = mpsc_channel CTRL_CHANNEL_CAPACITY, peer_index = idx\<rparr>"

text \<open>\<open>Option::get_or_insert\<close>.\<close>

definition get_or_insert :: "'a \<Rightarrow> 'a option \<Rightarrow> 'a option" where
  "get_or_insert v opt = (case opt of None \<Rightarrow> Some v | Some x \<Rightarrow> Some x)"

text \<open>The end of both admission functions: insert the peer, advance the revision, publish.\<close>

definition admit :: "uuid \<Rightarrow> hex \<Rightarrow> u8 \<Rightarrow> AdmissionGuard \<Rightarrow> Room \<Rightarrow> Room" where
  "admit peer_id pk idx g r =
     (let g' = g\<lparr>roster_revision := roster_revision g + 1\<rparr> in
      r\<lparr>peers := hm_insert peer_id (new_peer pk idx) (peers r), guard := g',
        roster_log := roster_log r @ [\<lparr>rd_revision = roster_revision g',
          rd_joined = Some \<lparr>rp_pubkey = pk, rp_peer_index = idx\<rparr>, rd_left = None\<rparr>]\<rparr>)"

definition add_peer :: "uuid \<Rightarrow> Room \<Rightarrow> hex \<Rightarrow> u8 \<Rightarrow> Room \<times> (uuid \<times> u8, AdmissionError) rust_result" where
  "add_peer peer_id r pk requested_version =
     (let g = guard r in
      if poisoned r then (r, Inl Ended)
      else if ended g then (r, Inl Ended)
      else if length (peers r) \<ge> MAX_PEERS_PER_ROOM then (r, Inl Full)
      else if (case pinned_version g of Some pinned \<Rightarrow> pinned \<noteq> requested_version | None \<Rightarrow> False)
      then (r, Inl (VersionMismatch (the (pinned_version g)) requested_version))
      else (case alloc g of
              None \<Rightarrow> (r, Inl Full)
            | Some (g1, idx) \<Rightarrow>
                (admit peer_id pk idx
                   (g1\<lparr>pinned_version := get_or_insert requested_version (pinned_version g1)\<rparr>) r,
                 Inr (peer_id, idx))))"

definition saturating_succ :: "u8 \<Rightarrow> u8" where
  "saturating_succ x = (if x = 255 then 255 else x + 1)"

text \<open>Taking an index the owner assigned out of the local allocator.\<close>

definition reserve :: "u8 \<Rightarrow> AdmissionGuard \<Rightarrow> AdmissionGuard" where
  "reserve idx g =
     (let g1 = g\<lparr>free := filter (\<lambda>i. i \<noteq> idx) (free g)\<rparr> in
      if idx \<ge> next_fresh g1 then g1\<lparr>next_fresh := saturating_succ idx\<rparr> else g1)"

definition add_peer_at_index ::
    "uuid \<Rightarrow> Room \<Rightarrow> hex \<Rightarrow> u8 \<Rightarrow> u8 \<Rightarrow> Room \<times> (uuid, AdmissionError) rust_result" where
  "add_peer_at_index peer_id r pk requested_version idx =
     (let g = guard r in
      if poisoned r then (r, Inl Ended)
      else if ended g then (r, Inl Ended)
      else if length (peers r) \<ge> MAX_PEERS_PER_ROOM \<or>
              list_ex (\<lambda>(_, peer). peer_index peer = idx) (peers r) then (r, Inl Full)
      else if (case pinned_version g of Some pinned \<Rightarrow> pinned \<noteq> requested_version | None \<Rightarrow> False)
      then (r, Inl (VersionMismatch (the (pinned_version g)) requested_version))
      else (admit peer_id pk idx
              (reserve idx (g\<lparr>pinned_version := get_or_insert requested_version (pinned_version g)\<rparr>)) r,
            Inr peer_id))"

subsection \<open>Removal\<close>

text \<open>What both removal functions do with a peer that was present.\<close>

definition drop_peer :: "uuid \<Rightarrow> AudioPeer \<Rightarrow> Room \<Rightarrow> Room" where
  "drop_peer peer_id peer r =
     (let g = release (peer_index peer) (guard r);
          g' = g\<lparr>roster_revision := roster_revision g + 1\<rparr> in
      r\<lparr>peers := hm_remove peer_id (peers r), guard := g',
        roster_log := roster_log r @ [\<lparr>rd_revision = roster_revision g', rd_joined = None,
          rd_left = Some \<lparr>rp_pubkey = pubkey peer, rp_peer_index = peer_index peer\<rparr>\<rparr>]\<rparr>)"

definition remove_peer :: "Room \<Rightarrow> uuid \<Rightarrow> Room" where
  "remove_peer r peer_id =
     (if poisoned r then r
      else (case hm_get (peers r) peer_id of None \<Rightarrow> r | Some peer \<Rightarrow> drop_peer peer_id peer r))"

definition remove_peer_and_check_ended :: "Room \<Rightarrow> uuid \<Rightarrow> Room \<times> (u8 \<times> bool) option" where
  "remove_peer_and_check_ended r peer_id =
     (if poisoned r then (r, None)
      else (case hm_get (peers r) peer_id of
              None \<Rightarrow> (r, None)
            | Some peer \<Rightarrow>
                (let r' = drop_peer peer_id peer r;
                     should_end = (\<not> ended (guard r') \<and> peers r' = []) in
                 (if should_end then r'\<lparr>guard := (guard r')\<lparr>ended := True\<rparr>\<rparr> else r',
                  Some (peer_index peer, should_end)))))"

subsection \<open>Fan-out and roster\<close>

definition send_audio :: "u8 list \<Rightarrow> AudioPeer \<Rightarrow> AudioPeer" where
  "send_audio frame peer = peer\<lparr>audio_tx := try_send frame (audio_tx peer)\<rparr>"

definition broadcast_frame :: "Room \<Rightarrow> uuid \<Rightarrow> u8 list \<Rightarrow> Room" where
  "broadcast_frame r sender_id frame =
     (case hm_get (peers r) sender_id of
        None \<Rightarrow> r
      | Some p \<Rightarrow>
          let prefixed = peer_index p # frame in
          r\<lparr>peers := map (\<lambda>(key, peer). (key, if key = sender_id then peer else send_audio prefixed peer))
              (peers r)\<rparr>)"

definition deliver_prefixed :: "Room \<Rightarrow> u8 \<Rightarrow> u8 list \<Rightarrow> Room" where
  "deliver_prefixed r author_index prefixed =
     r\<lparr>peers := map (\<lambda>(key, peer). (key, if peer_index peer = author_index then peer
         else send_audio prefixed peer)) (peers r)\<rparr>"

definition broadcast_control :: "Room \<Rightarrow> string \<Rightarrow> Room" where
  "broadcast_control r json =
     r\<lparr>peers := map (\<lambda>(key, peer). (key, peer\<lparr>ctrl_tx := try_send (Json json) (ctrl_tx peer)\<rparr>)) (peers r)\<rparr>"

definition roster_peer :: "AudioPeer \<Rightarrow> RosterPeer" where
  "roster_peer p = \<lparr>rp_pubkey = pubkey p, rp_peer_index = peer_index p\<rparr>"

definition roster_snapshot :: "Room \<Rightarrow> RosterSnapshot" where
  "roster_snapshot r =
     \<lparr>sn_revision = roster_revision (guard r),
      sn_peers = sort_key (\<lambda>p. unat (rp_peer_index p)) (map (\<lambda>(_, p). roster_peer p) (peers r))\<rparr>"

definition peer_pubkeys :: "Room \<Rightarrow> (hex \<times> u8) list" where
  "peer_pubkeys r = map (\<lambda>(_, p). (pubkey p, peer_index p)) (peers r)"

definition room_is_empty :: "Room \<Rightarrow> bool" where
  "room_is_empty r \<longleftrightarrow> peers r = []"

subsection \<open>The registry of rooms\<close>

record AudioRoomManager =
  rooms :: "(uuid \<times> uuid, nat) hmap"
  store :: "Room list"

definition AudioRoomManager_new :: AudioRoomManager where
  "AudioRoomManager_new = \<lparr>rooms = [], store = []\<rparr>"

definition get_or_create :: "AudioRoomManager \<Rightarrow> uuid \<Rightarrow> uuid \<Rightarrow> AudioRoomManager \<times> nat" where
  "get_or_create m community_id channel_id =
     (case hm_get (rooms m) (community_id, channel_id) of
        Some a \<Rightarrow> (m, a)
      | None \<Rightarrow>
          (let a = length (store m) in
           (m\<lparr>rooms := hm_insert (community_id, channel_id) a (rooms m),
              store := store m @ [Room_new community_id channel_id]\<rparr>, a)))"

definition get_room :: "AudioRoomManager \<Rightarrow> uuid \<Rightarrow> uuid \<Rightarrow> nat option" where
  "get_room m community_id channel_id = hm_get (rooms m) (community_id, channel_id)"

definition get_unambiguous_by_channel :: "AudioRoomManager \<Rightarrow> uuid \<Rightarrow> nat option" where
  "get_unambiguous_by_channel m channel_id =
     (case map snd (filter (\<lambda>(key, _). snd key = channel_id) (rooms m)) of
        [] \<Rightarrow> None
      | [a] \<Rightarrow> Some a
      | _ \<Rightarrow> None)"

definition cleanup_if_empty :: "AudioRoomManager \<Rightarrow> uuid \<Rightarrow> uuid \<Rightarrow> AudioRoomManager \<times> bool" where
  "cleanup_if_empty m community_id channel_id =
     (case hm_get (rooms m) (community_id, channel_id) of
        None \<Rightarrow> (m, False)
      | Some a \<Rightarrow>
          if room_is_empty (store m ! a)
          then (m\<lparr>rooms := hm_remove (community_id, channel_id) (rooms m)\<rparr>, True)
          else (m, False))"

text \<open>An operation on a room through one of the references to it.\<close>

definition on_room :: "(Room \<Rightarrow> Room) \<Rightarrow> nat \<Rightarrow> AudioRoomManager \<Rightarrow> AudioRoomManager" where
  "on_room f a m = m\<lparr>store := (store m)[a := f (store m ! a)]\<rparr>"

subsection \<open>Index pools\<close>

text \<open>
  What admission needs of an index allocator: an allocated or reserved index leaves the pool of
  available ones, a released index returns to it, and nothing else enters.
\<close>

locale index_pool =
  fixes ok :: "'g \<Rightarrow> bool"
    and avail :: "'g \<Rightarrow> 'i set"
    and take_idx :: "'g \<Rightarrow> ('g \<times> 'i) option"
    and give :: "'i \<Rightarrow> 'g \<Rightarrow> 'g"
    and claim :: "'i \<Rightarrow> 'g \<Rightarrow> 'g"
  assumes take_law: "ok g \<Longrightarrow> take_idx g = Some (g', i) \<Longrightarrow> ok g' \<and> i \<in> avail g \<and> avail g' = avail g - {i}"
    and give_law: "ok g \<Longrightarrow> i \<notin> avail g \<Longrightarrow> ok (give i g) \<and> avail (give i g) \<subseteq> insert i (avail g)"
    and claim_law: "ok g \<Longrightarrow> ok (claim i g) \<and> avail (claim i g) \<subseteq> avail g - {i}"
begin

text \<open>\<open>us\<close> are the indices in use: pairwise different and not available.\<close>

definition sound :: "'g \<Rightarrow> 'i list \<Rightarrow> bool" where
  "sound g us \<longleftrightarrow> ok g \<and> distinct us \<and> set us \<inter> avail g = {}"

lemma sound_take: "sound g us \<Longrightarrow> take_idx g = Some (g', i) \<Longrightarrow> i \<notin> set us \<and> sound g' (us @ [i])"
  using take_law [of g g' i] by (auto simp: sound_def)

lemma sound_claim: "sound g us \<Longrightarrow> i \<notin> set us \<Longrightarrow> sound (claim i g) (us @ [i])"
  using claim_law [of g i] by (auto simp: sound_def)

lemma sound_give:
  assumes "sound g us" "i \<in> set us" "distinct us'" "set us' = set us - {i}"
  shows "sound (give i g) us'"
proof -
  have "ok g" "i \<notin> avail g" using assms(1,2) by (auto simp: sound_def)
  from give_law [OF this] show ?thesis using assms by (auto simp: sound_def)
qed

end

definition guard_ok :: "AdmissionGuard \<Rightarrow> bool" where
  "guard_ok g \<longleftrightarrow> distinct (free g) \<and> (\<forall>i \<in> set (free g). unat i < unat (next_fresh g) \<or> i = 255)"

definition guard_avail :: "AdmissionGuard \<Rightarrow> u8 set" where
  "guard_avail g = set (free g) \<union> {i. unat (next_fresh g) \<le> unat i \<and> unat i < 255}"

lemma u8_lt_255: "i \<noteq> (255 :: u8) \<longleftrightarrow> unat i < 255"
proof -
  have "unat i < 256" using unsigned_less [of i, where ?'a = nat] by simp
  moreover have "i = 255 \<longleftrightarrow> unat i = unat (255 :: u8)" by (rule word_unat_eq_iff)
  ultimately show ?thesis by auto
qed

lemma unat_succ_u8: "i \<noteq> (255 :: u8) \<Longrightarrow> unat (i + 1) = unat i + 1"
  by (simp add: u8_lt_255 unat_word_ariths)

lemma unat_saturating_succ: "unat (saturating_succ i) = min 255 (unat i + 1)"
proof (cases "i = 255")
  case False
  then show ?thesis using u8_lt_255 [of i] by (simp add: saturating_succ_def unat_succ_u8)
qed (simp add: saturating_succ_def)

lemma guard_pool_take:
  assumes ok: "guard_ok g" and a: "alloc g = Some (g', i)"
  shows "guard_ok g' \<and> i \<in> guard_avail g \<and> guard_avail g' = guard_avail g - {i}"
proof (cases "free g = []")
  case False
  then have f: "free g = butlast (free g) @ [last (free g)]" by simp
  have g': "g' = g\<lparr>free := butlast (free g)\<rparr>" "i = last (free g)"
    using a False by (simp_all add: alloc_def)
  have "distinct (butlast (free g) @ [last (free g)])" using ok f by (simp add: guard_ok_def)
  then have "last (free g) \<notin> set (butlast (free g))" "distinct (butlast (free g))" by auto
  moreover have "set (free g) = insert (last (free g)) (set (butlast (free g)))"
    by (metis f Un_insert_right list.simps(15) set_append sup_bot.right_neutral set_empty)
  ultimately show ?thesis using ok g' by (auto simp: guard_ok_def guard_avail_def)
next
  case True
  then have i: "i = next_fresh g" "i \<noteq> 255" "g' = g\<lparr>next_fresh := next_fresh g + 1\<rparr>"
    using a by (auto simp: alloc_def split: if_splits)
  then show ?thesis using True u8_lt_255 [of i]
    by (auto simp: guard_ok_def guard_avail_def unat_succ_u8 word_unat_eq_iff)
qed

lemma guard_pool_give:
  "guard_ok g \<Longrightarrow> i \<notin> guard_avail g \<Longrightarrow>
     guard_ok (release i g) \<and> guard_avail (release i g) \<subseteq> insert i (guard_avail g)"
  using u8_lt_255 [of i] by (auto simp: guard_ok_def guard_avail_def release_def)

lemma guard_pool_claim:
  "guard_ok g \<Longrightarrow> guard_ok (reserve i g) \<and> guard_avail (reserve i g) \<subseteq> guard_avail g - {i}"
  using u8_lt_255 [of i]
  by (auto simp: guard_ok_def guard_avail_def reserve_def Let_def unat_saturating_succ word_le_nat_alt)

interpretation guard_pool: index_pool guard_ok guard_avail alloc release reserve
  by unfold_locales (simp_all add: guard_pool_take guard_pool_give guard_pool_claim)

subsection \<open>The room invariant\<close>

definition used :: "Room \<Rightarrow> u8 list" where
  "used r = map (peer_index \<circ> snd) (peers r)"

definition roster :: "Room \<Rightarrow> RosterPeer set" where
  "roster r = (roster_peer \<circ> snd) ` set (peers r)"

text \<open>A receiver's view: a roster updated by one delta, and by a sequence of them.\<close>

definition apply_delta :: "RosterDelta \<Rightarrow> RosterPeer set \<Rightarrow> RosterPeer set" where
  "apply_delta d S = (S \<union> set_option (rd_joined d)) - set_option (rd_left d)"

definition replay :: "RosterDelta list \<Rightarrow> RosterPeer set \<Rightarrow> RosterPeer set" where
  "replay ds S = fold apply_delta ds S"

definition room_inv :: "Room \<Rightarrow> bool" where
  "room_inv r \<longleftrightarrow> hm_wf (peers r) \<and> length (peers r) \<le> MAX_PEERS_PER_ROOM \<and>
     guard_pool.sound (guard r) (used r) \<and>
     (peers r = [] \<or> pinned_version (guard r) \<noteq> None) \<and>
     replay (roster_log r) {} = roster r \<and>
     roster_revision (guard r) = of_nat (length (roster_log r)) \<and>
     map rd_revision (roster_log r) = map of_nat [1..<Suc (length (roster_log r))]"

lemma hm_insert_fresh: "hm_get m k = None \<Longrightarrow> hm_insert k v m = m @ [(k, v)]"
  by (induction m) (auto split: if_splits)

lemma hm_remove_image:
  assumes "hm_wf m" "distinct (map (f \<circ> snd) m)" "hm_get m k = Some v"
  shows "set (map (f \<circ> snd) (hm_remove k m)) = set (map (f \<circ> snd) m) - {f v}"
    and "distinct (map (f \<circ> snd) (hm_remove k m))"
proof -
  show "distinct (map (f \<circ> snd) (hm_remove k m))"
    unfolding AList.delete_eq using assms(2) by (rule distinct_map_filter)
  show "set (map (f \<circ> snd) (hm_remove k m)) = set (map (f \<circ> snd) m) - {f v}"
    using assms
  proof (induction m)
    case (Cons p m)
    obtain k0 v0 where p: "p = (k0, v0)" by (cases p)
    show ?case
    proof (cases "k0 = k")
      case True
      then show ?thesis using Cons.prems by (auto simp: p AList.delete_notin_dom)
    next
      case False
      then have v: "hm_get m k = Some v" using Cons.prems(3) by (simp add: p)
      have "f v \<in> set (map (f \<circ> snd) m)" using map_of_SomeD [OF v] by force
      then have "f v0 \<noteq> f v" using Cons.prems(2) by (auto simp: p comp_def simp del: set_map)
      moreover have "set (map (f \<circ> snd) (hm_remove k m)) = set (map (f \<circ> snd) m) - {f v}"
        by (rule Cons.IH) (use Cons.prems v in auto)
      ultimately show ?thesis using False by (simp add: p insert_Diff_if)
    qed
  qed simp
qed

lemma sound_frame [simp]:
  "guard_pool.sound (g\<lparr>roster_revision := x\<rparr>) us = guard_pool.sound g us"
  "guard_pool.sound (g\<lparr>pinned_version := v\<rparr>) us = guard_pool.sound g us"
  "guard_pool.sound (g\<lparr>ended := e\<rparr>) us = guard_pool.sound g us"
  by (simp_all add: guard_pool.sound_def guard_ok_def guard_avail_def)

lemma guard_op_frame [simp]:
  "pinned_version (release i g) = pinned_version g" "roster_revision (release i g) = roster_revision g"
  "ended (release i g) = ended g"
  "pinned_version (reserve i g) = pinned_version g" "roster_revision (reserve i g) = roster_revision g"
  "ended (reserve i g) = ended g"
  by (simp_all add: release_def reserve_def Let_def)

lemma alloc_frame:
  "alloc g = Some (g', i) \<Longrightarrow> pinned_version g' = pinned_version g \<and> roster_revision g' = roster_revision g \<and>
     ended g' = ended g"
  by (auto simp: alloc_def split: if_splits)

lemma roster_distinct:
  "distinct (used r) \<Longrightarrow> distinct (map (roster_peer \<circ> snd) (peers r))"
proof -
  have "used r = map rp_peer_index (map (roster_peer \<circ> snd) (peers r))"
    by (simp add: used_def roster_peer_def)
  then show "distinct (used r) \<Longrightarrow> distinct (map (roster_peer \<circ> snd) (peers r))"
    by (metis distinct_map)
qed

lemma replay_snoc: "replay (ds @ [d]) S = apply_delta d (replay ds S)"
  by (simp add: replay_def)

lemma room_inv_admit:
  assumes inv: "room_inv r" and fresh: "hm_get (peers r) peer_id = None"
    and room: "length (peers r) < MAX_PEERS_PER_ROOM"
    and g: "guard_pool.sound g (used r @ [i])" "pinned_version g \<noteq> None"
      "roster_revision g = roster_revision (guard r)"
  shows "room_inv (admit peer_id pk i g r)"
  using assms hm_insert_fresh [OF fresh, of "new_peer pk i"]
  by (simp add: room_inv_def admit_def Let_def used_def roster_def replay_snoc apply_delta_def
      new_peer_def roster_peer_def hm_get_None_iff)

lemma room_inv_drop:
  assumes inv: "room_inv r" and p: "hm_get (peers r) peer_id = Some peer"
  shows "room_inv (drop_peer peer_id peer r)"
proof -
  have wf: "hm_wf (peers r)" and snd: "guard_pool.sound (guard r) (used r)"
    and du: "distinct (used r)" using inv by (simp_all add: room_inv_def guard_pool.sound_def)
  have mem: "peer_index peer \<in> set (used r)"
    using map_of_SomeD [OF p] by (force simp: used_def)
  have us: "set (used (drop_peer peer_id peer r)) = set (used r) - {peer_index peer}"
      "distinct (used (drop_peer peer_id peer r))"
    using hm_remove_image [of "peers r" peer_index, OF wf _ p] du
    by (simp_all add: used_def drop_peer_def Let_def)
  have ro: "roster (drop_peer peer_id peer r) = roster r - {roster_peer peer}"
    using hm_remove_image(1) [of "peers r" roster_peer, OF wf roster_distinct [OF du] p]
    by (simp add: roster_def drop_peer_def Let_def)
  have len: "length (hm_remove peer_id (peers r)) \<le> MAX_PEERS_PER_ROOM"
    using inv unfolding room_inv_def AList.delete_eq by (auto intro: order_trans [OF length_filter_le])
  have pin: "pinned_version (guard r) \<noteq> None"
    using inv p by (auto simp: room_inv_def)
  show ?thesis
    using inv guard_pool.sound_give [OF snd mem us(2,1)] ro len pin wf
    by (simp add: room_inv_def drop_peer_def Let_def replay_snoc apply_delta_def roster_peer_def)
qed

lemma room_inv_guard [simp]:
  "room_inv (r\<lparr>guard := (guard r)\<lparr>ended := e\<rparr>\<rparr>) = room_inv r"
  "room_inv (r\<lparr>poisoned := b\<rparr>) = room_inv r"
  by (simp_all add: room_inv_def used_def roster_def)

lemma room_inv_add_peer:
  assumes "room_inv r" "hm_get (peers r) peer_id = None"
  shows "room_inv (fst (add_peer peer_id r pk v))"
proof (cases "alloc (guard r)")
  case (Some gi)
  obtain g i where gi: "gi = (g, i)" by (cases gi)
  have "guard_pool.sound g (used r @ [i])"
    using guard_pool.sound_take [of "guard r" "used r" g i] assms(1) Some gi by (simp add: room_inv_def)
  then have "length (peers r) < MAX_PEERS_PER_ROOM \<Longrightarrow>
      room_inv (admit peer_id pk i (g\<lparr>pinned_version := get_or_insert v (pinned_version g)\<rparr>) r)"
    using alloc_frame [of "guard r" g i] Some gi assms
    by (intro room_inv_admit) (auto simp: get_or_insert_def split: option.split)
  then show ?thesis using assms(1) Some gi by (auto simp: add_peer_def Let_def)
qed (use assms in \<open>auto simp: add_peer_def Let_def\<close>)

lemma room_inv_add_peer_at:
  assumes "room_inv r" "hm_get (peers r) peer_id = None"
  shows "room_inv (fst (add_peer_at_index peer_id r pk v i))"
proof -
  have "room_inv (admit peer_id pk i (reserve i ((guard r)\<lparr>pinned_version := get_or_insert v (pinned_version (guard r))\<rparr>)) r)"
    if "length (peers r) < MAX_PEERS_PER_ROOM" "\<not> list_ex (\<lambda>(_, peer). peer_index peer = i) (peers r)"
  proof (rule room_inv_admit [OF assms that(1)])
    have "i \<notin> set (used r)" using that(2) by (auto simp: used_def list_ex_iff)
    then show "guard_pool.sound (reserve i ((guard r)\<lparr>pinned_version := get_or_insert v (pinned_version (guard r))\<rparr>)) (used r @ [i])"
      using assms(1) by (intro guard_pool.sound_claim) (simp_all add: room_inv_def)
  qed (simp_all add: get_or_insert_def split: option.split)
  then show ?thesis using assms(1) by (auto simp: add_peer_at_index_def Let_def not_le)
qed

lemma room_inv_remove:
  "room_inv r \<Longrightarrow> room_inv (remove_peer r peer_id)"
  "room_inv r \<Longrightarrow> room_inv (fst (remove_peer_and_check_ended r peer_id))"
  by (auto simp: remove_peer_def remove_peer_and_check_ended_def Let_def room_inv_drop split: option.split)

text \<open>Fan-out touches the channels of the peers only.\<close>

definition same_peers :: "Room \<Rightarrow> Room \<Rightarrow> bool" where
  "same_peers r r' \<longleftrightarrow> map (\<lambda>(k, p). (k, pubkey p, peer_index p)) (peers r) =
      map (\<lambda>(k, p). (k, pubkey p, peer_index p)) (peers r') \<and>
     guard r = guard r' \<and> roster_log r = roster_log r'"

lemma same_peers_inv:
  assumes "same_peers r r'" shows "room_inv r' = room_inv r"
proof -
  have m: "map (\<lambda>(k, p). (k, pubkey p, peer_index p)) (peers r) = map (\<lambda>(k, p). (k, pubkey p, peer_index p)) (peers r')"
    using assms by (simp add: same_peers_def)
  have "map fst (peers r) = map fst (peers r')" using arg_cong [OF m, of "map fst"] by (simp add: comp_def case_prod_unfold)
  moreover have "used r = used r'"
    using arg_cong [OF m, of "map (\<lambda>x. snd (snd x))"] by (simp add: used_def comp_def case_prod_unfold)
  moreover have "roster r = roster r'"
    using arg_cong [OF m, of "\<lambda>xs. set (map (\<lambda>x. \<lparr>rp_pubkey = fst (snd x), rp_peer_index = snd (snd x)\<rparr>) xs)"]
    by (simp add: roster_def roster_peer_def comp_def case_prod_unfold image_image)
  moreover have "length (peers r) = length (peers r')" using arg_cong [OF m, of length] by simp
  ultimately show ?thesis using assms by (auto simp: room_inv_def same_peers_def)
qed

lemma same_peers_fan_out:
  "same_peers r (broadcast_frame r s f)" "same_peers r (deliver_prefixed r i f)"
  "same_peers r (broadcast_control r j)"
  by (auto simp: same_peers_def broadcast_frame_def deliver_prefixed_def broadcast_control_def
      send_audio_def Let_def split: option.split)

subsection \<open>Runs of a room\<close>

text \<open>The operations on a room, with a client reading its queues and the lock being poisoned.\<close>

datatype room_op =
    AddPeer uuid hex u8
  | AddPeerAt uuid hex u8 u8
  | RemovePeer uuid
  | RemoveCheck uuid
  | MarkEnded
  | ClearEnded
  | Frame uuid "u8 list"
  | Deliver u8 "u8 list"
  | Control string
  | Read uuid
  | Poison

definition read_queues :: "uuid \<Rightarrow> Room \<Rightarrow> Room" where
  "read_queues k r = r\<lparr>peers := map (\<lambda>(key, p). (key, if key = k
     then p\<lparr>audio_tx := (audio_tx p)\<lparr>mp_buf := tl (mp_buf (audio_tx p))\<rparr>,
            ctrl_tx := (ctrl_tx p)\<lparr>mp_buf := tl (mp_buf (ctrl_tx p))\<rparr>\<rparr> else p)) (peers r)\<rparr>"

text \<open>The new room, and whether this step decided to end it automatically.\<close>

fun exec :: "room_op \<Rightarrow> Room \<Rightarrow> Room \<times> bool" where
  "exec (AddPeer k pk v) r = (fst (add_peer k r pk v), False)"
| "exec (AddPeerAt k pk v i) r = (fst (add_peer_at_index k r pk v i), False)"
| "exec (RemovePeer k) r = (remove_peer r k, False)"
| "exec (RemoveCheck k) r = (case remove_peer_and_check_ended r k of (r', res) \<Rightarrow>
     (r', case res of None \<Rightarrow> False | Some (_, e) \<Rightarrow> e))"
| "exec MarkEnded r = (fst (mark_ended r), False)"
| "exec ClearEnded r = (clear_ended r, False)"
| "exec (Frame k f) r = (broadcast_frame r k f, False)"
| "exec (Deliver i f) r = (deliver_prefixed r i f, False)"
| "exec (Control j) r = (broadcast_control r j, False)"
| "exec (Read k) r = (read_queues k r, False)"
| "exec Poison r = (r\<lparr>poisoned := True\<rparr>, False)"

text \<open>\<open>Uuid::new_v4\<close> returns an id no peer of the room has.\<close>

fun fresh_op :: "room_op \<Rightarrow> Room \<Rightarrow> bool" where
  "fresh_op (AddPeer k pk v) r = (hm_get (peers r) k = None)"
| "fresh_op (AddPeerAt k pk v i) r = (hm_get (peers r) k = None)"
| "fresh_op _ r = True"

inductive room_step :: "Room \<Rightarrow> Room \<Rightarrow> bool" where
  "fresh_op op r \<Longrightarrow> room_step r (fst (exec op r))"

abbreviation room_reach :: "Room \<Rightarrow> bool" where
  "room_reach \<equiv> reach (\<lambda>r. \<exists>c ch. r = Room_new c ch) room_step"

lemma same_peers_read: "same_peers r (read_queues k r)"
  by (auto simp: same_peers_def read_queues_def)

lemma room_inv_new: "room_inv (Room_new c ch)"
  by (simp add: room_inv_def Room_new_def AdmissionGuard_new_def used_def roster_def replay_def
      guard_pool.sound_def guard_ok_def)

lemma room_inv_exec: "room_inv r \<Longrightarrow> fresh_op op r \<Longrightarrow> room_inv (fst (exec op r))"
  using same_peers_inv [OF same_peers_fan_out(1)] same_peers_inv [OF same_peers_fan_out(2)]
    same_peers_inv [OF same_peers_fan_out(3)] same_peers_inv [OF same_peers_read]
  by (cases op) (auto simp: room_inv_add_peer room_inv_add_peer_at room_inv_remove mark_ended_def
      clear_ended_def case_prod_beta)

interpretation audio_room: invariant_system "\<lambda>r. \<exists>c ch. r = Room_new c ch" room_step room_inv
proof
  show "room_inv s" if "\<exists>c ch. s = Room_new c ch" for s using that room_inv_new by auto
  show "room_inv t" if "room_step s t" "room_inv s" for s t
    using that by cases (simp add: room_inv_exec)
qed

subsection \<open>What steps keep\<close>

lemma exec_ids: "rm_community_id (fst (exec op r)) = rm_community_id r \<and> rm_channel_id (fst (exec op r)) = rm_channel_id r"
  by (cases op) (auto simp: add_peer_def add_peer_at_index_def admit_def remove_peer_def drop_peer_def
      remove_peer_and_check_ended_def mark_ended_def clear_ended_def broadcast_frame_def
      deliver_prefixed_def broadcast_control_def read_queues_def Let_def case_prod_beta split: option.split)

lemma exec_log: "\<exists>ds. roster_log (fst (exec op r)) = roster_log r @ ds"
  by (cases op) (auto simp: add_peer_def add_peer_at_index_def admit_def remove_peer_def drop_peer_def
      remove_peer_and_check_ended_def mark_ended_def clear_ended_def broadcast_frame_def
      deliver_prefixed_def broadcast_control_def read_queues_def Let_def case_prod_beta split: option.split)

lemma steps_log: "room_step\<^sup>*\<^sup>* r r' \<Longrightarrow> \<exists>ds. roster_log r' = roster_log r @ ds"
proof (induction rule: rtranclp_induct)
  case (step s t)
  from step(2) obtain op where "t = fst (exec op s)" by cases
  then show ?case using step(3) exec_log [of op s] by auto
qed simp

text \<open>Once ended, a room stays ended until it is cleared, and ending it automatically ends it.\<close>

lemma exec_ended:
  "op \<noteq> ClearEnded \<Longrightarrow> ended (guard r) \<Longrightarrow> ended (guard (fst (exec op r))) \<and> \<not> snd (exec op r)"
  by (cases op) (auto simp: add_peer_def add_peer_at_index_def remove_peer_def drop_peer_def
      remove_peer_and_check_ended_def mark_ended_def broadcast_frame_def
      deliver_prefixed_def broadcast_control_def read_queues_def Let_def case_prod_beta split: option.split)

lemma exec_auto_end: "snd (exec op r) \<Longrightarrow> ended (guard (fst (exec op r))) \<and> peers (fst (exec op r)) = []"
  by (cases op) (auto simp: remove_peer_and_check_ended_def Let_def split: option.splits if_splits)

fun run :: "room_op list \<Rightarrow> Room \<Rightarrow> Room" where
  "run [] r = r"
| "run (op # ops) r = run ops (fst (exec op r))"

fun auto_ends :: "room_op list \<Rightarrow> Room \<Rightarrow> nat" where
  "auto_ends [] r = 0"
| "auto_ends (op # ops) r = (if snd (exec op r) then 1 else 0) + auto_ends ops (fst (exec op r))"

lemma auto_ends_bound:
  "auto_ends ops r \<le> length (filter (\<lambda>op. op = ClearEnded) ops) + (if ended (guard r) then 0 else 1)"
proof (induction ops arbitrary: r)
  case (Cons op ops)
  show ?case
    using Cons.IH [of "fst (exec op r)"] exec_ended [of op r] exec_auto_end [of op r]
    by (cases "op = ClearEnded") (auto split: if_splits)
qed simp

subsection \<open>Owner rooms\<close>

text \<open>
  Rooms whose peers were all admitted by the local allocator: the indices in use and on the free
  list are exactly the ones handed out so far.
\<close>

definition owner_inv :: "Room \<Rightarrow> bool" where
  "owner_inv r \<longleftrightarrow> length (free (guard r)) + length (peers r) = unat (next_fresh (guard r)) \<and>
     unat (next_fresh (guard r)) \<le> MAX_PEERS_PER_ROOM"

fun owner_op :: "room_op \<Rightarrow> bool" where
  "owner_op (AddPeerAt _ _ _ _) = False"
| "owner_op _ = True"

inductive owner_step :: "Room \<Rightarrow> Room \<Rightarrow> bool" where
  "fresh_op op r \<Longrightarrow> owner_op op \<Longrightarrow> owner_step r (fst (exec op r))"

abbreviation owner_reach :: "Room \<Rightarrow> bool" where
  "owner_reach \<equiv> reach (\<lambda>r. \<exists>c ch. r = Room_new c ch) owner_step"

lemma owner_inv_frame [simp]:
  "owner_inv (r\<lparr>poisoned := b\<rparr>) = owner_inv r"
  "owner_inv (r\<lparr>guard := (guard r)\<lparr>ended := e\<rparr>\<rparr>) = owner_inv r"
  by (simp_all add: owner_inv_def)

lemma owner_inv_add:
  assumes "owner_inv r" "hm_get (peers r) k = None" shows "owner_inv (fst (add_peer k r pk v))"
proof -
  have s: "free (guard r) \<noteq> [] \<Longrightarrow> Suc (length (free (guard r)) - Suc 0 + n) = length (free (guard r)) + n" for n
    by (cases "free (guard r)") auto
  have "owner_inv (admit k pk i (g\<lparr>pinned_version := p\<rparr>) r)"
    if "alloc (guard r) = Some (g, i)" "length (peers r) < MAX_PEERS_PER_ROOM" for g i p
    using that assms hm_insert_fresh [OF assms(2), of "new_peer pk i"]
    by (auto simp: owner_inv_def admit_def Let_def alloc_def unat_succ_u8 s split: if_splits)
  then show ?thesis using assms(1)
    by (auto simp: add_peer_def Let_def not_le split: option.split)
qed

lemma length_hm_remove_Some: "hm_wf m \<Longrightarrow> hm_get m k = Some v \<Longrightarrow> Suc (length (hm_remove k m)) = length m"
proof (induction m)
  case (Cons p m)
  then show ?case by (cases p) (auto simp: AList.delete_notin_dom)
qed simp

lemma owner_inv_drop:
  assumes "owner_inv r" "hm_wf (peers r)" "hm_get (peers r) k = Some p"
  shows "owner_inv (drop_peer k p r)"
  using assms length_hm_remove_Some [OF assms(2,3)]
  by (simp add: owner_inv_def drop_peer_def Let_def release_def)

lemma owner_inv_exec:
  assumes "room_inv r \<and> owner_inv r" "fresh_op op r" "owner_op op"
  shows "room_inv (fst (exec op r)) \<and> owner_inv (fst (exec op r))"
proof
  show "room_inv (fst (exec op r))" using assms by (simp add: room_inv_exec)
  have wf: "hm_wf (peers r)" using assms(1) by (simp add: room_inv_def)
  show "owner_inv (fst (exec op r))"
  proof (cases op)
    case (RemoveCheck k)
    then show ?thesis using assms(1) wf owner_inv_drop [of r k]
      by (auto simp: remove_peer_and_check_ended_def Let_def split: option.split)
  next
    case (RemovePeer k)
    then show ?thesis using assms(1) wf owner_inv_drop [of r k]
      by (auto simp: remove_peer_def split: option.split)
  next
    case (AddPeer k pk v)
    then show ?thesis using assms by (simp add: owner_inv_add)
  qed (use assms in \<open>auto simp: mark_ended_def clear_ended_def broadcast_frame_def
      deliver_prefixed_def broadcast_control_def read_queues_def owner_inv_def Let_def
      split: option.split\<close>)
qed

interpretation owner_room: invariant_system "\<lambda>r. \<exists>c ch. r = Room_new c ch" owner_step
  "\<lambda>r. room_inv r \<and> owner_inv r"
proof
  show "room_inv s \<and> owner_inv s" if "\<exists>c ch. s = Room_new c ch" for s
    using that room_inv_new by (auto simp: owner_inv_def Room_new_def AdmissionGuard_new_def)
  show "room_inv t \<and> owner_inv t" if "owner_step s t" "room_inv s \<and> owner_inv s" for s t
    using that by cases (simp add: owner_inv_exec)
qed

subsection \<open>The registry\<close>

inductive mgr_step :: "AudioRoomManager \<Rightarrow> AudioRoomManager \<Rightarrow> bool" where
  "mgr_step m (fst (get_or_create m c ch))"
| "mgr_step m (fst (cleanup_if_empty m c ch))"
| "a < length (store m) \<Longrightarrow> fresh_op op (store m ! a) \<Longrightarrow> mgr_step m (on_room (\<lambda>r. fst (exec op r)) a m)"

definition mgr_inv :: "AudioRoomManager \<Rightarrow> bool" where
  "mgr_inv m \<longleftrightarrow> hm_wf (rooms m) \<and> list_all room_inv (store m) \<and>
     (\<forall>c ch a. hm_get (rooms m) (c, ch) = Some a \<longrightarrow>
        a < length (store m) \<and> rm_community_id (store m ! a) = c \<and> rm_channel_id (store m ! a) = ch)"

abbreviation mgr_reach :: "AudioRoomManager \<Rightarrow> bool" where
  "mgr_reach \<equiv> reach (\<lambda>m. m = AudioRoomManager_new) mgr_step"

declare map_of_eq_Some_iff [simp del]

interpretation room_manager: invariant_system "\<lambda>m. m = AudioRoomManager_new" mgr_step mgr_inv
proof
  show "mgr_inv s" if "s = AudioRoomManager_new" for s
    using that by (simp add: mgr_inv_def AudioRoomManager_new_def)
  show "mgr_inv t" if "mgr_step s t" "mgr_inv s" for s t
    using that
  proof cases
    case (1 c ch)
    then show ?thesis using that(2) room_inv_new
      by (auto simp: mgr_inv_def get_or_create_def Let_def nth_append Room_new_def less_Suc_eq
          split: option.splits)
  next
    case (2 c ch)
    then show ?thesis using that(2)
      by (auto simp: mgr_inv_def cleanup_if_empty_def split: option.splits)
  next
    case (3 a op)
    then show ?thesis using that(2) exec_ids [of op "store s ! a"]
      by (auto simp: mgr_inv_def on_room_def list_all_length nth_list_update room_inv_exec)
  qed
qed

lemma sn_peers_set: "set (sn_peers (roster_snapshot r)) = roster r"
  by (force simp: roster_snapshot_def roster_def)

lemma filter_revisions:
  assumes "map rd_revision log = map of_nat [1..<Suc (length log)]" "length log < 2 ^ 64" "n \<le> length log"
  shows "filter (\<lambda>d. rd_revision d > of_nat n) log = drop n log"
proof -
  have rev: "rd_revision (log ! i) = of_nat (Suc i)" if "i < length log" for i
    using arg_cong [OF assms(1), of "\<lambda>xs. xs ! i"] that by (simp del: upt_Suc)
  have less: "(of_nat n :: u64) < of_nat (Suc i) \<longleftrightarrow> n \<le> i" if "i < length log" for i
  proof -
    have "unat (of_nat n :: u64) = n" "unat (of_nat (Suc i) :: u64) = Suc i"
      using that assms(2,3) by (simp_all add: unat_of_nat del: of_nat_Suc)
    then show ?thesis by (auto simp: word_less_nat_alt)
  qed
  have "filter (\<lambda>d. rd_revision d > of_nat n) (take n log) = []"
    using rev less by (auto simp: filter_empty_conv in_set_conv_nth)
  moreover have "rd_revision (drop n log ! i) > of_nat n" if "i < length (drop n log)" for i
    using rev [of "n + i"] less [of "n + i"] that by simp
  then have "filter (\<lambda>d. rd_revision d > of_nat n) (drop n log) = drop n log"
    by (metis (no_types, lifting) filter_True in_set_conv_nth)
  ultimately show ?thesis
    by (metis append_Nil append_take_drop_id filter_append)
qed

lemma alloc_None: "alloc g = None \<longleftrightarrow> free g = [] \<and> next_fresh g = 255"
  by (simp add: alloc_def)

subsection \<open>Properties\<close>

definition demo_room :: Room where
  "demo_room = run [AddPeer ''a'' ''alice'' 2, AddPeer ''b'' ''bob'' 2, AddPeer ''c'' ''carol'' 2, RemovePeer ''b'']
     (Room_new ''com'' ''chan'')"

lemmas room_eval = demo_room_def Room_new_def AdmissionGuard_new_def add_peer_def alloc_def admit_def
  new_peer_def get_or_insert_def remove_peer_def drop_peer_def release_def mpsc_channel_def
  MAX_PEERS_PER_ROOM_def AUDIO_CHANNEL_CAPACITY_def CTRL_CHANNEL_CAPACITY_def Let_def

fun fresh_run :: "room_op list \<Rightarrow> Room \<Rightarrow> bool" where
  "fresh_run [] r = True"
| "fresh_run (op # ops) r = (fresh_op op r \<and> fresh_run ops (fst (exec op r)))"

lemma owner_run: "owner_reach r \<Longrightarrow> list_all owner_op ops \<Longrightarrow> fresh_run ops r \<Longrightarrow> owner_reach (run ops r)"
  by (induction ops arbitrary: r) (auto intro: reach_step owner_step.intros)

lemma room_run: "fresh_run ops r \<Longrightarrow> room_step\<^sup>*\<^sup>* r (run ops r)"
  by (induction ops arbitrary: r) (auto intro: converse_rtranclp_into_rtranclp room_step.intros)

lemma demo_room_owner: "owner_reach demo_room"
  unfolding demo_room_def
proof (rule owner_run)
  show "owner_reach (Room_new ''com'' ''chan'')" by (rule reach_init) blast
qed code_simp+

lemma owner_room_reach: "owner_reach r \<Longrightarrow> room_reach r"
proof (induction rule: reach.induct)
  case (reach_step s t)
  from reach_step(2) have "room_step s t" by cases (auto intro: room_step.intros)
  with reach_step.IH show ?case by (rule reach.reach_step)
qed (rule reach_init)

lemmas demo_room_reach = owner_room_reach [OF demo_room_owner]

text \<open>
  In every reachable room the media indices of the peers are pairwise different, no index
  in use can be handed out again, there are at most 25 peers, and a room with peers has its
  protocol version pinned.
\<close>

theorem room_indices_unique:
  assumes "room_reach r"
  shows "distinct (map (peer_index \<circ> snd) (peers r)) \<and> length (peers r) \<le> 25 \<and>
    (case alloc (guard r) of None \<Rightarrow> True | Some (g, i) \<Rightarrow> i \<notin> peer_index ` snd ` set (peers r)) \<and>
    (peers r = [] \<or> (\<exists>v. pinned_version (guard r) = Some v))"
proof -
  have inv: "room_inv r" by (rule audio_room.reach_inv [OF assms])
  have "i \<notin> peer_index ` snd ` set (peers r)" if "alloc (guard r) = Some (g, i)" for g i
    using guard_pool.sound_take [OF _ that, of "used r"] inv
    by (auto simp: room_inv_def used_def image_image)
  then show ?thesis using inv
    by (auto simp: room_inv_def guard_pool.sound_def used_def MAX_PEERS_PER_ROOM_def split: option.split)
qed

theorem room_indices_unique_witness:
  "distinct (map (peer_index \<circ> snd) (peers demo_room)) \<and> map fst (peers demo_room) = [''a'', ''c'']"
proof
  show "distinct (map (peer_index \<circ> snd) (peers demo_room))"
    using room_indices_unique [OF demo_room_reach] by blast
  show "map fst (peers demo_room) = [''a'', ''c'']" by code_simp
qed

text \<open>
  Admission is sound: a peer gets in only if the room is neither ended nor shutting down,
  has a seat and agrees on the protocol version, and then receives an index no other peer has
  and the version is pinned; a refusal leaves the room untouched, and a client that could not
  be seated anyway is not told the pinned version.
\<close>

theorem admission_sound:
  assumes "room_reach r" and "hm_get (peers r) k = None" and "add_peer k r pk v = (r', res)"
  shows "case res of
      Inr (k', i) \<Rightarrow> k' = k \<and> \<not> ended (guard r) \<and> \<not> poisoned r \<and> length (peers r) < 25 \<and>
        pinned_version (guard r) \<in> {None, Some v} \<and> pinned_version (guard r') = Some v \<and>
        i \<notin> peer_index ` snd ` set (peers r) \<and> peers r' = peers r @ [(k, new_peer pk i)]
    | Inl e \<Rightarrow> r' = r \<and> (e = Ended \<longleftrightarrow> ended (guard r) \<or> poisoned r) \<and>
        (case e of VersionMismatch p q \<Rightarrow> length (peers r) < 25 \<and> pinned_version (guard r) = Some p \<and>
           q = v \<and> p \<noteq> v | _ \<Rightarrow> True)"
proof -
  have inv: "room_inv r" by (rule audio_room.reach_inv [OF assms(1)])
  have new: "i \<notin> peer_index ` snd ` set (peers r)" "pinned_version g = pinned_version (guard r)"
    if "alloc (guard r) = Some (g, i)" for g i
    using guard_pool.sound_take [OF _ that, of "used r"] inv alloc_frame [OF that]
    by (auto simp: room_inv_def used_def image_image)
  show ?thesis using assms(3) new hm_insert_fresh [OF assms(2)]
    by (auto simp: add_peer_def Let_def MAX_PEERS_PER_ROOM_def admit_def get_or_insert_def
        split: if_splits option.splits)
qed

theorem admission_sound_witness:
  "pinned_version (guard (fst (add_peer ''d'' demo_room ''dave'' 2))) = Some 2 \<and>
   snd (add_peer ''d'' demo_room ''dave'' 2) = Inr (''d'', 1)"
proof -
  have none: "hm_get (peers demo_room) ''d'' = None" by code_simp
  have res: "snd (add_peer ''d'' demo_room ''dave'' 2) = Inr (''d'', 1)" by code_simp
  have "add_peer ''d'' demo_room ''dave'' 2 =
      (fst (add_peer ''d'' demo_room ''dave'' 2), snd (add_peer ''d'' demo_room ''dave'' 2))" by simp
  from admission_sound [OF demo_room_reach none this] res show ?thesis by simp
qed

text \<open>
  At most one task decides to end a room automatically: along any sequence of operations
  the number of automatic ends exceeds the number of times the end was rolled back by at most
  one, and by none if the room had already ended. An automatic end finds the room empty, and
  an ended room admits nobody.
\<close>

theorem single_auto_end:
  "auto_ends ops r \<le> length (filter (\<lambda>op. op = ClearEnded) ops) + (if ended (guard r) then 0 else 1) \<and>
   (if snd (exec op r) then ended (guard (fst (exec op r))) \<and> peers (fst (exec op r)) = [] else True) \<and>
   (if ended (guard r) then add_peer k r pk v = (r, Inl Ended) \<and> add_peer_at_index k r pk v i = (r, Inl Ended)
    else True)"
  using auto_ends_bound [of ops r] exec_auto_end [of op r]
  by (simp add: add_peer_def add_peer_at_index_def Let_def)

text \<open>
  Roster followers converge: a receiver that takes a snapshot and applies, from the whole
  stream of deltas, those with a newer revision ends with exactly the roster of the current
  snapshot, however many joins and leaves happened in between (below 2^64 of them).
\<close>

theorem roster_follower_converges:
  assumes "room_reach r" and "room_step\<^sup>*\<^sup>* r r'" and "length (roster_log r') < 2 ^ 64"
  shows "replay (filter (\<lambda>d. rd_revision d > sn_revision (roster_snapshot r)) (roster_log r'))
      (set (sn_peers (roster_snapshot r))) = set (sn_peers (roster_snapshot r'))"
proof -
  have inv: "room_inv r" by (rule audio_room.reach_inv [OF assms(1)])
  have inv': "room_inv r'" by (rule audio_room.steps_inv [OF assms(2) inv])
  obtain ds where ds: "roster_log r' = roster_log r @ ds" using steps_log [OF assms(2)] by blast
  have "filter (\<lambda>d. rd_revision d > of_nat (length (roster_log r))) (roster_log r') = ds"
    using filter_revisions [of "roster_log r'" "length (roster_log r)"] inv' assms(3)
    by (simp add: room_inv_def ds)
  moreover have "replay ds (roster r) = roster r'"
    using inv inv' ds by (simp add: room_inv_def replay_def)
  moreover have "sn_revision (roster_snapshot r) = of_nat (length (roster_log r))"
    using inv by (simp add: roster_snapshot_def room_inv_def)
  ultimately show ?thesis unfolding sn_peers_set by simp
qed

theorem roster_follower_converges_witness:
  "replay (filter (\<lambda>d. rd_revision d > sn_revision (roster_snapshot (Room_new ''com'' ''chan''))) (roster_log demo_room))
      (set (sn_peers (roster_snapshot (Room_new ''com'' ''chan'')))) = set (sn_peers (roster_snapshot demo_room))"
proof (rule roster_follower_converges)
  show "room_reach (Room_new ''com'' ''chan'')" by (rule reach_init) blast
  show "room_step\<^sup>*\<^sup>* (Room_new ''com'' ''chan'') demo_room"
    unfolding demo_room_def by (rule room_run) code_simp
  have "length (roster_log demo_room) = 4" by code_simp
  then show "length (roster_log demo_room) < 2 ^ 64" by simp
qed

text \<open>
  Local fan-out and mesh delivery agree: broadcasting a frame of a local peer is the same as
  delivering the prefixed frame by its index, because no two peers share an index. So a frame
  that comes back over the mesh skips exactly its author.
\<close>

theorem broadcast_is_deliver:
  assumes "room_reach r" and "hm_get (peers r) k = Some p"
  shows "broadcast_frame r k frame = deliver_prefixed r (peer_index p) (peer_index p # frame)"
proof -
  have "hm_wf (peers r)" and dist: "distinct (map (peer_index \<circ> snd) (peers r))"
    using audio_room.reach_inv [OF assms(1)] by (simp_all add: room_inv_def guard_pool.sound_def used_def)
  have kp: "(k, p) \<in> set (peers r)" by (rule map_of_SomeD [OF assms(2)])
  have "key = k \<longleftrightarrow> peer_index peer = peer_index p" if "(key, peer) \<in> set (peers r)" for key peer
  proof
    assume "key = k"
    then show "peer_index peer = peer_index p"
      using that kp \<open>hm_wf (peers r)\<close> by (metis map_of_is_SomeI option.inject)
  next
    assume "peer_index peer = peer_index p"
    then show "key = k"
      using dist that kp inj_onD [of "peer_index \<circ> snd" "set (peers r)" "(key, peer)" "(k, p)"]
      by (simp add: distinct_map)
  qed
  then have "map (\<lambda>(key, peer). (key, if key = k then peer else f peer)) (peers r) =
      map (\<lambda>(key, peer). (key, if peer_index peer = peer_index p then peer else f peer)) (peers r)" for f
    by auto
  then show ?thesis using assms(2) by (simp add: broadcast_frame_def deliver_prefixed_def Let_def)
qed

theorem broadcast_is_deliver_witness:
  "broadcast_frame demo_room ''a'' [1, 2] = deliver_prefixed demo_room 0 [0, 1, 2]"
proof -
  have "hm_get (peers demo_room) ''a'' = Some (new_peer ''alice'' 0)" by code_simp
  from broadcast_is_deliver [OF demo_room_reach this, of "[1, 2]"] show ?thesis
    by (simp add: new_peer_def)
qed

text \<open>
  In a room served by its owner the index space never runs out: indices stay below 25, so a
  join is refused as full exactly when 25 peers are present (and the room is open).
\<close>

theorem owner_never_exhausts:
  assumes "owner_reach r" and "add_peer k r pk v = (r', res)"
  shows "unat (next_fresh (guard r)) \<le> 25 \<and>
    (res = Inl Full \<longleftrightarrow> length (peers r) = 25 \<and> \<not> ended (guard r) \<and> \<not> poisoned r)"
proof -
  have inv: "room_inv r" "owner_inv r" using owner_room.reach_inv [OF assms(1)] by auto
  then have n: "unat (next_fresh (guard r)) \<le> 25" "length (peers r) \<le> 25"
    by (simp_all add: owner_inv_def room_inv_def MAX_PEERS_PER_ROOM_def)
  then have "next_fresh (guard r) \<noteq> 255" using u8_lt_255 [of "next_fresh (guard r)"] by auto
  then have "alloc (guard r) \<noteq> None" by (simp add: alloc_None)
  then show ?thesis using n assms(2)
    by (auto simp: add_peer_def Let_def MAX_PEERS_PER_ROOM_def split: if_splits option.splits)
qed

theorem owner_never_exhausts_witness:
  "snd (add_peer ''d'' demo_room ''dave'' 2) \<noteq> Inl Full"
proof -
  have l: "length (peers demo_room) = 2" by code_simp
  have "add_peer ''d'' demo_room ''dave'' 2 =
      (fst (add_peer ''d'' demo_room ''dave'' 2), snd (add_peer ''d'' demo_room ''dave'' 2))" by simp
  from owner_never_exhausts [OF demo_room_owner this] l show ?thesis by simp
qed

lemma distinct_set_single:
  assumes "distinct xs"
  shows "set xs = {x} \<longleftrightarrow> xs = [x]"
proof
  assume s: "set xs = {x}"
  have "length xs = card (set xs)" by (rule distinct_card [OF assms, symmetric])
  then have "length xs = 1" unfolding s by simp
  with s show "xs = [x]" by (cases xs) auto
qed simp

lemma channel_keys_single:
  assumes mem: "\<And>d e b. ((d, e), b) \<in> S \<longleftrightarrow> e = ch \<and> f d = Some b" and "f c = Some a"
  shows "S = {((c, ch), a)} \<longleftrightarrow> {d. f d \<noteq> None} = {c}"
proof
  assume S: "S = {((c, ch), a)}"
  have "d = c" if "f d = Some b" for d b using mem [of d ch b] S that by simp
  with assms(2) show "{d. f d \<noteq> None} = {c}" by fastforce
next
  assume one: "{d. f d \<noteq> None} = {c}"
  have "x = ((c, ch), a)" if "x \<in> S" for x
  proof -
    obtain d e b where x: "x = ((d, e), b)" by (cases x) auto
    with that mem have "e = ch" "f d = Some b" by blast+
    moreover from this have "d = c" using one by auto
    ultimately show ?thesis using x assms(2) by simp
  qed
  moreover have "((c, ch), a) \<in> S" using mem assms(2) by blast
  ultimately show "S = {((c, ch), a)}" by blast
qed

lemma unambiguous_iff:
  assumes "hm_wf (rooms m)" and "get_room m c ch = Some a"
  shows "get_unambiguous_by_channel m ch = Some a \<longleftrightarrow> {d. get_room m d ch \<noteq> None} = {c}"
proof -
  let ?fs = "filter (\<lambda>(key, _). snd key = ch) (rooms m)"
  have mem: "((d, e), b) \<in> set ?fs \<longleftrightarrow> e = ch \<and> get_room m d ch = Some b" for d e b
    using assms(1) by (auto simp: get_room_def map_of_eq_Some_iff)
  have "distinct ?fs" using assms(1) by (simp add: distinct_map distinct_filter)
  then have "?fs = [((c, ch), a)] \<longleftrightarrow> {d. get_room m d ch \<noteq> None} = {c}"
    using channel_keys_single [OF mem assms(2)] distinct_set_single by metis
  moreover have "((c, ch), a) \<in> set ?fs" using mem assms(2) by blast
  then have "get_unambiguous_by_channel m ch = Some a \<longleftrightarrow> ?fs = [((c, ch), a)]"
    unfolding get_unambiguous_by_channel_def by (cases ?fs; cases "tl ?fs") auto
  ultimately show ?thesis by blast
qed

text \<open>
  Communities are isolated in the registry: distinct community and channel pairs have
  distinct rooms, each carrying its own labels, and a lookup by channel alone answers only when
  exactly one community has an active room for it.
\<close>

theorem rooms_isolated:
  assumes "mgr_reach m" and "get_room m c ch = Some a" and "get_room m c' ch' = Some a'"
  shows "(a = a' \<longleftrightarrow> c = c' \<and> ch = ch') \<and>
    rm_community_id (store m ! a) = c \<and> rm_channel_id (store m ! a) = ch \<and>
    (get_unambiguous_by_channel m ch = Some a \<longleftrightarrow> {d. get_room m d ch \<noteq> None} = {c})"
proof -
  have inv: "mgr_inv m" by (rule room_manager.reach_inv [OF assms(1)])
  have ids: "rm_community_id (store m ! a) = c" "rm_channel_id (store m ! a) = ch"
    "rm_community_id (store m ! a') = c'" "rm_channel_id (store m ! a') = ch'"
    using inv assms(2,3) by (simp_all add: mgr_inv_def get_room_def)
  then have "a = a' \<longleftrightarrow> c = c' \<and> ch = ch'" using assms(2,3) by (metis option.inject)
  moreover have "get_unambiguous_by_channel m ch = Some a \<longleftrightarrow> {d. get_room m d ch \<noteq> None} = {c}"
    using inv by (intro unambiguous_iff assms(2)) (simp add: mgr_inv_def)
  ultimately show ?thesis using ids(1,2) by blast
qed

definition demo_manager :: AudioRoomManager where
  "demo_manager = fst (get_or_create (fst (get_or_create AudioRoomManager_new ''c1'' ''ch'')) ''c2'' ''ch'')"

theorem rooms_isolated_witness:
  "get_room demo_manager ''c1'' ''ch'' = Some 0 \<and> get_room demo_manager ''c2'' ''ch'' = Some 1 \<and>
   get_unambiguous_by_channel demo_manager ''ch'' \<noteq> Some 0"
proof -
  have "mgr_reach AudioRoomManager_new" by (rule reach_init) simp
  then have r: "mgr_reach demo_manager" unfolding demo_manager_def
    by (blast intro: reach_step mgr_step.intros(1))
  have g: "get_room demo_manager ''c1'' ''ch'' = Some 0" "get_room demo_manager ''c2'' ''ch'' = Some 1"
    by (simp_all add: get_room_def demo_manager_def get_or_create_def AudioRoomManager_new_def Let_def)
  then have "''c2'' \<in> {d. get_room demo_manager d ''ch'' \<noteq> None}" by simp
  moreover have "get_unambiguous_by_channel demo_manager ''ch'' = Some 0 \<longleftrightarrow>
      {d. get_room demo_manager d ''ch'' \<noteq> None} = {''c1''}"
    using rooms_isolated [OF r g] by blast
  moreover have "''c2'' \<notin> {''c1''}" by simp
  ultimately have "get_unambiguous_by_channel demo_manager ''ch'' \<noteq> Some 0" by metis
  with g show ?thesis by blast
qed

text \<open>
  A room can be orphaned: when a joiner has looked a room up but not yet joined, another
  task may remove the still empty room from the registry. The joiner then sits in a room the
  registry no longer knows, and the next joiner of the same channel is given a different one.
\<close>

theorem orphaned_room_split:
  "let (m1, a) = get_or_create AudioRoomManager_new c ch;
       (m2, removed) = cleanup_if_empty m1 c ch;
       m3 = on_room (\<lambda>r. fst (add_peer k r pk v)) a m2;
       (m4, b) = get_or_create m3 c ch
   in removed \<and> a \<noteq> b \<and> peer_pubkeys (store m4 ! a) = [(pk, 0)] \<and> peer_pubkeys (store m4 ! b) = []"
  by (simp add: get_or_create_def cleanup_if_empty_def AudioRoomManager_new_def on_room_def
      room_is_empty_def peer_pubkeys_def room_eval)

end
