(* ===== verification/Pairing_Crypto.thy ===== *)
theory Pairing_Crypto
  imports Nostr_Types Buzz_Kind
begin

text \<open>
  Device pairing (NIP-AB), the vocabulary: messages (\<open>pairing/types.rs\<close>), errors
  (\<open>pairing/mod.rs\<close>) and the derivation of the session id, the short authentication string and
  the transcript hash (\<open>pairing/crypto.rs\<close>).

  The cryptography itself, the hexadecimal and percent codecs, the JSON codec and the URL parser
  belong to third-party crates. They are the fields of one record, \<open>crates\<close>, that every
  definition takes as its first argument; a statement that needs more of them than their types
  names what it needs as a predicate on that record.
\<close>

subsection \<open>Messages and errors\<close>

datatype PayloadType = Nsec | Bunker | Connect | Custom

datatype AbortReason = SasMismatch | UserDenied | Timeout | ProtocolError | Unknown

datatype PairingMessage =
    Offer string u32
  | SasConfirm string
  | Payload PayloadType string
  | Complete bool
  | Abort AbortReason

text \<open>
  What was wrong with a scanned URI: one constructor for each message that the decoder puts into
  \<open>PairingError::InvalidQr\<close>.
\<close>

datatype InvalidQr_reason =
    UriTooLong nat
  | MissingScheme
  | MissingQuery
  | PubkeyNotHex string
  | PubkeyInvalid string
  | UnsupportedVersion u32
  | MissingSecret
  | SecretNotHex string
  | SecretHexInvalid string
  | SecretWrongLength
  | SecretAllZeros
  | NoRelay
  | RelayInvalid string string
  | RelayScheme string
  | RelayNoHost string

datatype PairingError =
    InvalidQr InvalidQr_reason
  | InvalidSessionId
  | SasMismatch
  | TranscriptMismatch
  | UnexpectedMessage string string
  | SessionExpired
  | Nip44 string
  | JsonError string
  | InvalidPubkey string
  | SigningError string

subsection \<open>Third-party crates\<close>

text \<open>A signed event carries its signature beside the accessors of \<open>nostr_event\<close>.\<close>

record signed_event = nostr_event +
  ev_sig :: string

text \<open>The parts of a parsed URL the decoder looks at.\<close>

record parsed_url =
  url_scheme :: string
  url_host :: "string option"

text \<open>
  The functions of other crates that the pairing code calls. A key, public or secret, is
  represented by its hexadecimal text. Encryption and signing draw random bytes, here their first
  argument. \<open>sign_with_keys\<close> receives the parts the event builder was given: the time, the kind,
  the tags and the content.
\<close>

record crates =
  hkdf_extract :: "bytes \<Rightarrow> bytes \<Rightarrow> bytes"
  hkdf_expand :: "bytes \<Rightarrow> bytes \<Rightarrow> nat \<Rightarrow> bytes"
  public_key :: "hex \<Rightarrow> hex"
  pk_to_bytes :: "hex \<Rightarrow> bytes"
  pk_from_hex :: "string \<Rightarrow> (hex, string) rust_result"
  generate_shared_key :: "hex \<Rightarrow> hex \<Rightarrow> (bytes, string) rust_result"
  nip44_encrypt :: "bytes \<Rightarrow> hex \<Rightarrow> hex \<Rightarrow> string \<Rightarrow> (string, string) rust_result"
  nip44_decrypt :: "hex \<Rightarrow> hex \<Rightarrow> string \<Rightarrow> (string, string) rust_result"
  tag_public_key :: "hex \<Rightarrow> nostr_tag"
  sign_with_keys :: "bytes \<Rightarrow> hex \<Rightarrow> nat \<Rightarrow> u16 \<Rightarrow> nostr_tag list \<Rightarrow> string \<Rightarrow> (signed_event, string) rust_result"
  verify :: "signed_event \<Rightarrow> (unit, string) rust_result"
  to_json :: "PairingMessage \<Rightarrow> (string, string) rust_result"
  from_json :: "string \<Rightarrow> (PairingMessage, string) rust_result"
  hex_encode :: "bytes \<Rightarrow> string"
  hex_decode :: "string \<Rightarrow> (bytes, string) rust_result"
  utf8_percent_encode :: "string \<Rightarrow> string"
  percent_decode_lossy :: "string \<Rightarrow> string"
  url_parse :: "string \<Rightarrow> (parsed_url, string) rust_result"

subsection \<open>Key derivation\<close>

definition INFO_SESSION_ID :: bytes where "INFO_SESSION_ID = bytes_of ''nostr-pair-session-id''"

definition INFO_SAS :: bytes where "INFO_SAS = bytes_of ''nostr-pair-sas-v1''"

definition INFO_TRANSCRIPT :: bytes where "INFO_TRANSCRIPT = bytes_of ''nostr-pair-transcript-v1''"

definition hkdf32 :: "crates \<Rightarrow> bytes \<Rightarrow> bytes \<Rightarrow> bytes \<Rightarrow> bytes" where
  "hkdf32 E salt ikm info =
     (let prk = hkdf_extract E salt ikm;
          okm = hkdf_expand E prk info 32
      in take 32 okm)"

definition derive_session_id :: "crates \<Rightarrow> bytes \<Rightarrow> bytes" where
  "derive_session_id E session_secret = hkdf32 E [] session_secret INFO_SESSION_ID"

definition from_be_bytes :: "u8 \<Rightarrow> u8 \<Rightarrow> u8 \<Rightarrow> u8 \<Rightarrow> u32" where
  "from_be_bytes a b c d =
     push_bit 24 (ucast a) + push_bit 16 (ucast b) + push_bit 8 (ucast c) + ucast d"

definition derive_sas :: "crates \<Rightarrow> bytes \<Rightarrow> bytes \<Rightarrow> u32 \<times> bytes" where
  "derive_sas E ecdh_shared session_secret =
     (let sas_input = hkdf32 E session_secret ecdh_shared INFO_SAS;
          sas_code = from_be_bytes (sas_input ! 0) (sas_input ! 1) (sas_input ! 2) (sas_input ! 3)
                       mod 1000000
      in (sas_code, sas_input))"

definition derive_transcript_hash :: "crates \<Rightarrow> bytes \<Rightarrow> bytes \<Rightarrow> bytes \<Rightarrow> bytes \<Rightarrow> bytes \<Rightarrow> bytes" where
  "derive_transcript_hash E session_id source_pubkey target_pubkey sas_input session_secret =
     (let transcript = session_id @ source_pubkey @ target_pubkey @ sas_input
      in hkdf32 E session_secret transcript INFO_TRANSCRIPT)"

subsection \<open>The displayed code\<close>

text \<open>Decimal printing with the zero padding of \<open>\{:06\}\<close>.\<close>

definition pad_zeros :: "nat \<Rightarrow> string \<Rightarrow> string" where
  "pad_zeros w s = replicate (w - length s) CHR ''0'' @ s"

definition format_sas :: "u32 \<Rightarrow> string" where
  "format_sas code = pad_zeros 6 (show_nat (unat code))"

definition ct_eq :: "bytes \<Rightarrow> bytes \<Rightarrow> bool" where
  "ct_eq a b = list_all2 (=) a b"

subsection \<open>Lemmas\<close>

lemma ct_eq_iff [simp]: "ct_eq a b \<longleftrightarrow> a = b"
  by (simp add: ct_eq_def list.rel_eq)

end
