(* ===== verification/Pairing_Qr.thy ===== *)
theory Pairing_Qr
  imports Pairing_Crypto
begin

text \<open>
  The \<open>nostrpair://\<close> URI shown as a QR code (\<open>crates/buzz-core/src/pairing/qr.rs\<close>): encoding,
  decoding with every rejection in the order the code tests them, and the round trip.
\<close>

subsection \<open>The payload and the standard library functions\<close>

record QrPayload =
  source_pubkey :: hex
  qr_session_secret :: bytes
  relays :: "string list"
  version :: u32

text \<open>\<open>str::parse::<u32>\<close>.\<close>

definition parse_u32 :: "string \<Rightarrow> u32 option" where
  "parse_u32 s = map_option of_nat (parse_uint (2 ^ 32) s)"

subsection \<open>Encoding and decoding\<close>

definition is_lowercase_hex :: "char \<Rightarrow> bool" where
  "is_lowercase_hex c \<longleftrightarrow> is_digit c \<or> (of_char CHR ''a'' \<le> (of_char c :: nat) \<and> (of_char c :: nat) \<le> of_char CHR ''f'')"

definition url_encode :: "crates \<Rightarrow> string \<Rightarrow> string" where
  "url_encode E s = utf8_percent_encode E s"

definition url_decode :: "crates \<Rightarrow> string \<Rightarrow> string" where
  "url_decode E s = percent_decode_lossy E s"

definition encode_qr :: "crates \<Rightarrow> QrPayload \<Rightarrow> string" where
  "encode_qr E payload =
     (let pubkey_hex = source_pubkey payload;
          secret_hex = hex_encode E (qr_session_secret payload);
          uri = ''nostrpair://'' @ pubkey_hex @ ''?secret='' @ secret_hex;
          uri = foldl (\<lambda>uri relay. uri @ ''&relay='' @ url_encode E relay) uri (relays payload)
      in uri @ ''&v=1'')"

text \<open>The query loop, its three accumulators threaded through the pairs.\<close>

definition query_pair ::
    "crates \<Rightarrow> string option \<times> string list \<times> u32 option \<Rightarrow> string \<Rightarrow> string option \<times> string list \<times> u32 option" where
  "query_pair E acc pair =
     (let (secret_hex, relays, version) = acc
      in case split_once CHR ''='' pair of
           None \<Rightarrow> acc
         | Some (key, value) \<Rightarrow>
             if key = ''secret'' then (Some value, relays, version)
             else if key = ''relay'' then (secret_hex, relays @ [url_decode E value], version)
             else if key = ''v'' then (secret_hex, relays, parse_u32 value)
             else acc)"

definition check_relay :: "crates \<Rightarrow> string \<Rightarrow> (unit, PairingError) rust_result" where
  "check_relay E relay =
     (case url_parse E relay of
        Inl e \<Rightarrow> Inl (InvalidQr (RelayInvalid relay e))
      | Inr parsed \<Rightarrow>
          if url_scheme parsed \<noteq> ''wss'' \<and> url_scheme parsed \<noteq> ''ws''
          then Inl (InvalidQr (RelayScheme (url_scheme parsed)))
          else if url_host parsed = None then Inl (InvalidQr (RelayNoHost relay))
          else Inr ())"

fun check_relays :: "crates \<Rightarrow> string list \<Rightarrow> (unit, PairingError) rust_result" where
  "check_relays E [] = Inr ()"
| "check_relays E (relay # rest) =
     (case check_relay E relay of Inl e \<Rightarrow> Inl e | Inr _ \<Rightarrow> check_relays E rest)"

definition decode_secret :: "crates \<Rightarrow> string option \<Rightarrow> (bytes, PairingError) rust_result" where
  "decode_secret E secret_hex =
     (case secret_hex of
        None \<Rightarrow> Inl (InvalidQr MissingSecret)
      | Some secret_str \<Rightarrow>
          if length secret_str \<noteq> 64 \<or> \<not> list_all is_lowercase_hex secret_str
          then Inl (InvalidQr (SecretNotHex secret_str))
          else case hex_decode E secret_str of
              Inl e \<Rightarrow> Inl (InvalidQr (SecretHexInvalid e))
            | Inr secret_bytes \<Rightarrow>
                if length secret_bytes \<noteq> 32 then Inl (InvalidQr SecretWrongLength)
                else if secret_bytes = replicate 32 0 then Inl (InvalidQr SecretAllZeros)
                else Inr secret_bytes)"

definition decode_query :: "crates \<Rightarrow> hex \<Rightarrow> string \<Rightarrow> (QrPayload, PairingError) rust_result" where
  "decode_query E source_pk query =
     (let (secret_hex, relays, version) =
            foldl (query_pair E) (None, [], None) (split_on CHR ''&'' query);
          version = (case version of None \<Rightarrow> 1 | Some v \<Rightarrow> v)
      in if version \<noteq> 1 then Inl (InvalidQr (UnsupportedVersion version))
         else case decode_secret E secret_hex of
             Inl e \<Rightarrow> Inl e
           | Inr session_secret \<Rightarrow>
               if relays = [] then Inl (InvalidQr NoRelay)
               else case check_relays E relays of
                   Inl e \<Rightarrow> Inl e
                 | Inr _ \<Rightarrow> Inr \<lparr>source_pubkey = source_pk, qr_session_secret = session_secret,
                              relays = relays, version = version\<rparr>)"

definition decode_qr :: "crates \<Rightarrow> string \<Rightarrow> (QrPayload, PairingError) rust_result" where
  "decode_qr E uri =
     (if length uri > 2048 then Inl (InvalidQr (UriTooLong (length uri)))
      else case strip_prefix ''nostrpair://'' uri of
          None \<Rightarrow> Inl (InvalidQr MissingScheme)
        | Some rest \<Rightarrow>
           (case split_once CHR ''?'' rest of
              None \<Rightarrow> Inl (InvalidQr MissingQuery)
            | Some (pubkey_hex, query) \<Rightarrow>
                if length pubkey_hex \<noteq> 64 \<or> \<not> list_all is_lowercase_hex pubkey_hex
                then Inl (InvalidQr (PubkeyNotHex pubkey_hex))
                else case pk_from_hex E pubkey_hex of
                    Inl e \<Rightarrow> Inl (InvalidQr (PubkeyInvalid e))
                  | Inr source_pk \<Rightarrow> decode_query E source_pk query))"

subsection \<open>What the codecs promise\<close>

text \<open>
  The \<open>hex\<close> crate prints two lowercase digits per byte and reads them back. The
  \<open>percent-encoding\<close> crate with the set \<open>NON_ALPHANUMERIC\<close> leaves no \<open>&\<close> unescaped and decodes
  what it encoded. The \<open>nostr\<close> crate reads back the text of a public key it printed.
\<close>

definition hex_codec :: "crates \<Rightarrow> bytes \<Rightarrow> bool" where
  "hex_codec E b \<longleftrightarrow> hex_decode E (hex_encode E b) = Inr b \<and>
     length (hex_encode E b) = 2 * length b \<and> list_all is_lowercase_hex (hex_encode E b)"

definition percent_codec :: "crates \<Rightarrow> string \<Rightarrow> bool" where
  "percent_codec E s \<longleftrightarrow> percent_decode_lossy E (utf8_percent_encode E s) = s \<and>
     CHR ''&'' \<notin> set (utf8_percent_encode E s)"

definition pubkey_text :: "crates \<Rightarrow> hex \<Rightarrow> bool" where
  "pubkey_text E pk \<longleftrightarrow> pk_from_hex E pk = Inr pk \<and> length pk = 64 \<and> list_all is_lowercase_hex pk"

text \<open>A payload that can be shown: the conditions the decoder checks.\<close>

definition relay_ok :: "crates \<Rightarrow> string \<Rightarrow> bool" where
  "relay_ok E r \<longleftrightarrow> (case url_parse E r of Inl _ \<Rightarrow> False
     | Inr u \<Rightarrow> url_scheme u \<in> {''wss'', ''ws''} \<and> url_host u \<noteq> None)"

definition qr_valid :: "crates \<Rightarrow> QrPayload \<Rightarrow> bool" where
  "qr_valid E p \<longleftrightarrow> version p = 1 \<and> length (qr_session_secret p) = 32 \<and>
     qr_session_secret p \<noteq> replicate 32 0 \<and> relays p \<noteq> [] \<and> list_all (relay_ok E) (relays p)"

subsection \<open>Lemmas\<close>

lemma lower_hex_no_sep [simp]:
  "list_all is_lowercase_hex s \<Longrightarrow> CHR ''?'' \<notin> set s"
  "list_all is_lowercase_hex s \<Longrightarrow> CHR ''&'' \<notin> set s"
  by (auto simp: list_all_iff is_lowercase_hex_def is_digit_def)

lemma check_relay_iff: "check_relay E r = Inr () \<longleftrightarrow> relay_ok E r"
  by (auto simp: check_relay_def relay_ok_def split: sum.split)

lemma check_relays_iff: "check_relays E rs = Inr () \<longleftrightarrow> list_all (relay_ok E) rs"
  by (induction rs) (auto simp: check_relay_iff [symmetric] split: sum.split)

lemma decode_secret_Inr:
  "decode_secret E x = Inr b \<longleftrightarrow>
     (\<exists>s. x = Some s \<and> length s = 64 \<and> list_all is_lowercase_hex s \<and> hex_decode E s = Inr b \<and>
          length b = 32 \<and> b \<noteq> replicate 32 0)"
  by (auto simp: decode_secret_def split: option.splits sum.splits)

lemma query_pair_secret: "query_pair E (a, rs, v) (''secret='' @ x) = (Some x, rs, v)"
  using split_once_append [of "CHR ''=''" "''secret''" x] by (simp add: query_pair_def)

lemma query_pair_relay:
  "query_pair E (a, rs, v) (''relay='' @ x) = (a, rs @ [url_decode E x], v)"
  using split_once_append [of "CHR ''=''" "''relay''" x] by (simp add: query_pair_def)

lemma query_pair_v: "query_pair E (a, rs, v) (''v='' @ x) = (a, rs, parse_u32 x)"
  using split_once_append [of "CHR ''=''" "''v''" x] by (simp add: query_pair_def)

lemma query_relays:
  "foldl (query_pair E) (a, rs, v) (map (\<lambda>r. ''relay='' @ f r) xs) =
     (a, rs @ map (\<lambda>r. url_decode E (f r)) xs, v)"
  by (induction xs arbitrary: rs) (simp_all add: query_pair_relay [simplified])

lemma encode_relays:
  "foldl (\<lambda>uri relay. uri @ ''&relay='' @ f relay) u rs = u @ concat (map (\<lambda>r. CHR ''&'' # ''relay='' @ f r) rs)"
  by (induction rs arbitrary: u) simp_all

lemma join_with_cons: "join_with c (p # ps) = p @ concat (map (\<lambda>q. c # q) ps)"
  by (induction ps arbitrary: p) simp_all

lemma parse_u32_one [simp]: "parse_u32 ''1'' = Some 1"
  by (simp add: parse_u32_def parse_uint_def is_digit_def digits_value_def)

lemma split_on_snoc: "c \<notin> set p \<Longrightarrow> split_on c (xs @ c # p) = split_on c xs @ [p]"
  by (induction xs) (auto simp: split_on_plain split: list.split)

text \<open>The version parameter, put last, decides alone.\<close>

lemma decode_query_last_v:
  assumes "CHR ''&'' \<notin> set x"
  shows "decode_query E pk (q @ CHR ''&'' # ''v='' @ x) =
    (case parse_u32 x of
       None \<Rightarrow> decode_query E pk (q @ CHR ''&'' # ''v='' @ ''1'')
     | Some v \<Rightarrow> if v = 1 then decode_query E pk (q @ CHR ''&'' # ''v='' @ ''1'')
                 else Inl (InvalidQr (UnsupportedVersion v)))"
proof -
  have s: "split_on CHR ''&'' (q @ CHR ''&'' # ''v='' @ y) = split_on CHR ''&'' q @ [''v='' @ y]"
    if "CHR ''&'' \<notin> set y" for y using that by (intro split_on_snoc) simp
  obtain a rs v where f: "foldl (query_pair E) (None, [], None) (split_on CHR ''&'' q) = (a, rs, v)"
    by (cases "foldl (query_pair E) (None, [], None) (split_on CHR ''&'' q)") auto
  show ?thesis unfolding decode_query_def s [OF assms] s [of "''1''", simplified] foldl_append f foldl.simps query_pair_v
    by (simp add: Let_def query_pair_v [simplified] f s [of "''1''", simplified] split: option.split)
qed

text \<open>The query string is the list of its pairs joined by \<open>&\<close>.\<close>

definition qr_pairs :: "crates \<Rightarrow> QrPayload \<Rightarrow> string list" where
  "qr_pairs E p = (''secret='' @ hex_encode E (qr_session_secret p)) #
     map (\<lambda>r. ''relay='' @ url_encode E r) (relays p) @ [''v='' @ ''1'']"

lemma encode_qr_pairs:
  "encode_qr E p = ''nostrpair://'' @ source_pubkey p @ CHR ''?'' # join_with CHR ''&'' (qr_pairs E p)"
  by (simp add: encode_qr_def qr_pairs_def encode_relays [simplified] join_with_cons map_concat comp_def Let_def)

lemma query_pairs:
  assumes "list_all (percent_codec E) (relays p)"
  shows "foldl (query_pair E) (None, [], None) (qr_pairs E p) =
    (Some (hex_encode E (qr_session_secret p)), relays p, Some 1)"
proof -
  have "map (\<lambda>r. url_decode E (url_encode E r)) (relays p) = relays p"
    using assms by (induction "relays p" arbitrary: p)
      (auto simp: url_decode_def url_encode_def percent_codec_def list_all_iff intro!: map_idI)
  then show ?thesis
    unfolding qr_pairs_def foldl_append foldl.simps query_pair_secret query_relays query_pair_v by simp
qed

lemma split_qr_pairs:
  assumes "hex_codec E (qr_session_secret p)" and "list_all (percent_codec E) (relays p)"
  shows "split_on CHR ''&'' (join_with CHR ''&'' (qr_pairs E p)) = qr_pairs E p"
  by (rule split_join)
     (use assms in \<open>auto simp: qr_pairs_def hex_codec_def percent_codec_def url_encode_def list_all_iff is_lowercase_hex_def is_digit_def\<close>)

lemma decode_encode:
  assumes "hex_codec E (qr_session_secret p)" and "list_all (percent_codec E) (relays p)"
    and "pubkey_text E (source_pubkey p)" and "qr_valid E p" and "length (encode_qr E p) \<le> 2048"
  shows "decode_qr E (encode_qr E p) = Inr p"
proof -
  let ?q = "join_with CHR ''&'' (qr_pairs E p)"
  have "decode_secret E (Some (hex_encode E (qr_session_secret p))) = Inr (qr_session_secret p)"
    using assms(1,4) by (simp add: decode_secret_Inr hex_codec_def qr_valid_def)
  then have "decode_query E (source_pubkey p) ?q = Inr p"
    using assms(4)
    by (simp add: decode_query_def split_qr_pairs [OF assms(1,2)] query_pairs [OF assms(2)]
        qr_valid_def check_relays_iff [symmetric])
  moreover have "split_once CHR ''?'' (source_pubkey p @ CHR ''?'' # ?q) = Some (source_pubkey p, ?q)"
    using assms(3) by (simp add: pubkey_text_def)
  moreover have "strip_prefix ''nostrpair://'' (encode_qr E p) = Some (source_pubkey p @ CHR ''?'' # ?q)"
    by (simp add: encode_qr_pairs strip_prefix_def starts_with_def)
  ultimately show ?thesis using assms(3,5)
    by (simp add: decode_qr_def pubkey_text_def)
qed

subsection \<open>A concrete instance of the crates\<close>

text \<open>
  An instance that keeps the promises the statements name, for their examples: real hexadecimal
  text, a commutative key agreement, encryption that prefixes 132 characters, event ids that are
  the content, and a JSON codec replaced by a prefix code. It has no secrecy, which no statement
  asks for.
\<close>

fun toy_json :: "PairingMessage \<Rightarrow> string" where
  "toy_json (Offer s v) = CHR ''o'' # replicate (unat v) CHR ''x'' @ CHR ''|'' # s"
| "toy_json (SasConfirm h) = CHR ''s'' # h"
| "toy_json (Payload t s) =
     CHR ''p'' # (case t of Nsec \<Rightarrow> CHR ''n'' | Bunker \<Rightarrow> CHR ''b'' | Connect \<Rightarrow> CHR ''c'' | Custom \<Rightarrow> CHR ''u'') # s"
| "toy_json (Complete b) = (if b then ''ct'' else ''cf'')"
| "toy_json (Abort r) = CHR ''a'' # (case r of AbortReason.SasMismatch \<Rightarrow> ''m'' | UserDenied \<Rightarrow> ''d''
     | Timeout \<Rightarrow> ''t'' | ProtocolError \<Rightarrow> ''p'' | Unknown \<Rightarrow> ''u'')"

definition toy_parse :: "string \<Rightarrow> (PairingMessage, string) rust_result" where
  "toy_parse j = (case j of [] \<Rightarrow> Inl ''empty'' | k # r \<Rightarrow>
     if k = CHR ''o'' then (case split_once CHR ''|'' r of None \<Rightarrow> Inl ''offer'' | Some (v, s) \<Rightarrow> Inr (Offer s (of_nat (length v))))
     else if k = CHR ''s'' then Inr (SasConfirm r)
     else if k = CHR ''p'' then
       (case r of [] \<Rightarrow> Inl ''payload'' | t # s \<Rightarrow>
          Inr (Payload (if t = CHR ''n'' then Nsec else if t = CHR ''b'' then Bunker
                        else if t = CHR ''c'' then Connect else Custom) s))
     else if k = CHR ''c'' then Inr (Complete (r = ''t''))
     else Inr (Abort (if r = ''m'' then AbortReason.SasMismatch else if r = ''d'' then UserDenied
                 else if r = ''t'' then Timeout else if r = ''p'' then ProtocolError else Unknown)))"

definition toy_crates :: crates where
  "toy_crates =
     \<lparr>hkdf_extract = (\<lambda>salt ikm. salt @ ikm),
      hkdf_expand = (\<lambda>prk info n. take n (prk @ info @ replicate n 0)),
      public_key = (\<lambda>sk. sk),
      pk_to_bytes = hex_read,
      pk_from_hex = Inr,
      generate_shared_key = (\<lambda>sk pk. Inr (map2 (+) (hex_read sk) (hex_read pk))),
      nip44_encrypt = (\<lambda>nonce sk pk m. Inr (replicate 132 CHR ''0'' @ m)),
      nip44_decrypt = (\<lambda>sk pk c. Inr (drop 132 c)),
      tag_public_key = (\<lambda>pk. mk_tag ''p'' [pk]),
      sign_with_keys = (\<lambda>aux sk t k tags c.
        Inr \<lparr>ev_id = c, ev_pubkey = sk, ev_created_at = t, ev_kind = k,
             ev_tags = filter (\<lambda>tg. tg \<noteq> mk_tag ''p'' [sk]) tags, ev_content = c, ev_sig = []\<rparr>),
      verify = (\<lambda>ev. if ev_id ev = ev_content ev then Inr () else Inl ''id''),
      to_json = (\<lambda>m. Inr (toy_json m)),
      from_json = toy_parse,
      hex_encode = hex_write,
      hex_decode = (\<lambda>s. Inr (hex_read s)),
      utf8_percent_encode = (\<lambda>s. hex_write (bytes_of s)),
      percent_decode_lossy = (\<lambda>s. map (\<lambda>b. char_of (unat b)) (hex_read s)),
      url_parse = (\<lambda>s. Inr \<lparr>url_scheme = takeWhile (\<lambda>c. c \<noteq> CHR '':'') s, url_host = Some s\<rparr>)\<rparr>"

lemma hex_digit_lower [simp]: "n < 16 \<Longrightarrow> is_lowercase_hex (hex_digit n)"
  by (auto simp: is_lowercase_hex_def hex_digit_def is_digit_def)

lemma hex_write_lower [simp]: "list_all is_lowercase_hex (hex_write bs)"
  by (induction bs) (simp_all add: hex_write_def u8_nibbles)

lemma toy_hex: "hex_codec toy_crates b"
  by (simp add: hex_codec_def toy_crates_def)

lemma u8_of_char: "unat (of_nat (of_char c) :: u8) = of_char c"
  using unsigned_of_nat [of "of_char c", where ?'a = nat and ?'b = 8] nat_of_char_less_256 [of c]
  by (simp add: take_bit_eq_mod)

lemma toy_percent: "percent_codec toy_crates s"
proof -
  have "map (\<lambda>b. char_of (unat b)) (bytes_of s) = s"
    by (induction s) (simp_all add: bytes_of_def u8_of_char)
  then show ?thesis by (simp add: percent_codec_def toy_crates_def)
qed

definition toy_qr :: QrPayload where
  "toy_qr = \<lparr>source_pubkey = replicate 64 CHR ''a'', qr_session_secret = replicate 32 7,
     relays = [''wss://relay.example''], version = 1\<rparr>"

lemma toy_qr_ok: "pubkey_text toy_crates (source_pubkey toy_qr)" "qr_valid toy_crates toy_qr"
    "length (encode_qr toy_crates toy_qr) = 197"
  by (simp_all add: pubkey_text_def qr_valid_def relay_ok_def encode_qr_def url_encode_def toy_qr_def
      toy_crates_def list_all_iff is_lowercase_hex_def is_digit_def bytes_of_def replicate_eq_replicate)

text \<open>
  C37. A QR code that can be shown is read back unchanged: whatever payload meets the conditions
  the decoder checks and fits into 2048 characters survives encoding and decoding.
\<close>

theorem qr_roundtrip:
  assumes "hex_codec E (qr_session_secret p)" and "list_all (percent_codec E) (relays p)"
    and "pubkey_text E (source_pubkey p)" and "qr_valid E p" and "length (encode_qr E p) \<le> 2048"
  shows "decode_qr E (encode_qr E p) = Inr p"
  by (rule decode_encode [OF assms])

theorem qr_roundtrip_witness: "decode_qr toy_crates (encode_qr toy_crates toy_qr) = Inr toy_qr"
  using toy_qr_ok by (intro qr_roundtrip) (simp_all add: toy_hex toy_percent list_all_iff)

text \<open>
  Whatever the decoder accepts is usable: a URI of at most 2048 characters with the right
  scheme, a secret of 32 bytes that are not all zero, at least one relay, and only relays with a
  WebSocket scheme and a host.
\<close>

theorem qr_accepted_valid:
  assumes "decode_qr E uri = Inr p"
  shows "length uri \<le> 2048 \<and> starts_with uri ''nostrpair://'' \<and> qr_valid E p \<and>
    (\<exists>t. length t = 64 \<and> list_all is_lowercase_hex t \<and> pk_from_hex E t = Inr (source_pubkey p))"
proof -
  from assms obtain rest t q pk where uri: "length uri \<le> 2048" "strip_prefix ''nostrpair://'' uri = Some rest"
    and t: "length t = 64" "list_all is_lowercase_hex t" "pk_from_hex E t = Inr pk"
    and q: "decode_query E pk q = Inr p"
    by (auto simp: decode_qr_def split: if_splits option.splits sum.splits)
  from q have "qr_valid E p \<and> source_pubkey p = pk"
    by (auto simp: decode_query_def qr_valid_def decode_secret_Inr check_relays_iff [symmetric] Let_def
        split: if_splits option.splits sum.splits prod.splits)
  with uri t show ?thesis by (auto simp: strip_prefix_def split: if_splits)
qed

theorem qr_accepted_valid_witness:
  "decode_qr toy_crates (encode_qr toy_crates toy_qr) = Inr toy_qr \<and>
   starts_with (encode_qr toy_crates toy_qr) ''nostrpair://''"
proof -
  have "decode_qr toy_crates (encode_qr toy_crates toy_qr) = Inr toy_qr"
    using toy_qr_ok by (intro decode_encode) (simp_all add: toy_hex toy_percent list_all_iff)
  with qr_accepted_valid [OF this] show ?thesis by blast
qed

text \<open>
  The version check has a gap: a version that does not fit 32 bits, or is no number at all,
  counts as absent and the code is read as version 1, whatever the rest of the query says, while
  version 2 is refused.
\<close>

theorem qr_version_gap:
  "decode_query E pk (q @ ''&v=2'') = Inl (InvalidQr (UnsupportedVersion 2)) \<and>
   decode_query E pk (q @ ''&v=4294967296'') = decode_query E pk (q @ ''&v=1'') \<and>
   decode_query E pk (q @ ''&v=two'') = decode_query E pk (q @ ''&v=1'')"
  using decode_query_last_v [of "''4294967296''" E pk q] decode_query_last_v [of "''two''" E pk q]
    decode_query_last_v [of "''2''" E pk q]
  by (simp add: parse_u32_def parse_uint_def is_digit_def digits_value_def)

end
