(* ===== verification/Pairing_Session.thy ===== *)
theory Pairing_Session
  imports Pairing_Qr
begin

text \<open>
  The pairing session (\<open>crates/buzz-core/src/pairing/session.rs\<close>): one side of a device pairing.
  Every handler takes the crates, the current time where the code reads the clock, and the session,
  and returns the session as the call leaves it beside its result, because some handlers change the
  session and then fail. What a call draws at random is an argument.
\<close>

subsection \<open>State\<close>

datatype Role = Source | Target

datatype SessionState =
    Waiting | Confirming | AwaitingConfirmation | Transferring | PayloadExchanged | Completed | Aborted

record PairingSession =
  ps_role :: Role
  ps_state :: SessionState
  ps_keys :: hex
  ps_session_secret :: bytes
  ps_relay_urls :: "string list"
  ps_peer_pubkey :: "hex option"
  ps_session_id :: bytes
  ps_sas_code :: "u32 option"
  ps_sas_input :: "bytes option"
  ps_processed_ids :: "hex set"
  ps_created_at :: instant
  ps_timeout :: duration

definition DEFAULT_TIMEOUT :: duration where "DEFAULT_TIMEOUT = 120 * 10 ^ 9"

definition PAIRING_KIND :: u16 where "PAIRING_KIND = ucast KIND_PAIRING"

text \<open>What \<open>build_event\<close> draws: the nonce, the wall clock, the jitter and the signing entropy.\<close>

record draw =
  dr_nonce :: bytes
  dr_now :: nat
  dr_jitter :: u64
  dr_aux :: bytes

text \<open>The operator \<open>?\<close>: return the error with the session as it is, or go on with the value.\<close>

definition attempt ::
    "'s \<Rightarrow> ('a, 'e) rust_result \<Rightarrow> ('a \<Rightarrow> 's \<times> ('b, 'e) rust_result) \<Rightarrow> 's \<times> ('b, 'e) rust_result" where
  "attempt self r f = (case r of Inl e \<Rightarrow> (self, Inl e) | Inr x \<Rightarrow> f x)"

definition map_err :: "('e \<Rightarrow> 'f) \<Rightarrow> ('a, 'e) rust_result \<Rightarrow> ('a, 'f) rust_result" where
  "map_err f r = (case r of Inl e \<Rightarrow> Inl (f e) | Inr x \<Rightarrow> Inr x)"

definition ok_or :: "'e \<Rightarrow> 'a option \<Rightarrow> ('a, 'e) rust_result" where
  "ok_or e x = (case x of None \<Rightarrow> Inl e | Some a \<Rightarrow> Inr a)"

subsection \<open>Checks\<close>

fun state_debug :: "SessionState \<Rightarrow> string" where
  "state_debug Waiting = ''Waiting''"
| "state_debug Confirming = ''Confirming''"
| "state_debug AwaitingConfirmation = ''AwaitingConfirmation''"
| "state_debug Transferring = ''Transferring''"
| "state_debug PayloadExchanged = ''PayloadExchanged''"
| "state_debug Completed = ''Completed''"
| "state_debug Aborted = ''Aborted''"

fun role_debug :: "Role \<Rightarrow> string" where
  "role_debug Source = ''Source''"
| "role_debug Target = ''Target''"

fun unexpected :: "string \<Rightarrow> PairingMessage \<Rightarrow> PairingError" where
  "unexpected ex (Offer _ _) = UnexpectedMessage ex ''offer''"
| "unexpected ex (SasConfirm _) = UnexpectedMessage ex ''sas-confirm''"
| "unexpected ex (Payload _ _) = UnexpectedMessage ex ''payload''"
| "unexpected ex (Complete _) = UnexpectedMessage ex ''complete''"
| "unexpected ex (Abort _) = UnexpectedMessage ex ''abort''"

definition is_expired :: "instant \<Rightarrow> PairingSession \<Rightarrow> bool" where
  "is_expired now self \<longleftrightarrow> now - ps_created_at self > ps_timeout self"

definition check_expired :: "instant \<Rightarrow> PairingSession \<Rightarrow> (unit, PairingError) rust_result" where
  "check_expired now self = (if is_expired now self then Inl SessionExpired else Inr ())"

definition expect_state :: "PairingSession \<Rightarrow> SessionState \<Rightarrow> (unit, PairingError) rust_result" where
  "expect_state self expected =
     (if ps_state self \<noteq> expected
      then Inl (UnexpectedMessage (''state '' @ state_debug expected) (''state '' @ state_debug (ps_state self)))
      else Inr ())"

definition expect_role :: "PairingSession \<Rightarrow> Role \<Rightarrow> (unit, PairingError) rust_result" where
  "expect_role self expected =
     (if ps_role self \<noteq> expected
      then Inl (UnexpectedMessage (''role '' @ role_debug expected) (''role '' @ role_debug (ps_role self)))
      else Inr ())"

text \<open>A \<open>p\<close> tag that names a key.\<close>

definition names_key :: "hex \<Rightarrow> nostr_tag \<Rightarrow> bool" where
  "names_key pk t \<longleftrightarrow> (case tag_slice t of k # v # _ \<Rightarrow> k = ''p'' \<and> v = pk | _ \<Rightarrow> False)"

definition validate_event_basics ::
    "crates \<Rightarrow> PairingSession \<Rightarrow> signed_event \<Rightarrow> (unit, PairingError) rust_result" where
  "validate_event_basics E self event =
     (case verify E event of
        Inl e \<Rightarrow> Inl (InvalidPubkey (''event verification failed: '' @ e))
      | Inr _ \<Rightarrow>
          if ev_id event \<in> ps_processed_ids self
          then Inl (UnexpectedMessage ''new event'' ''duplicate event id'')
          else if ev_kind event \<noteq> PAIRING_KIND
          then Inl (UnexpectedMessage (''kind '' @ show_nat (unat PAIRING_KIND)) (''kind '' @ show_nat (unat (ev_kind event))))
          else if \<not> list_ex (names_key (public_key E (ps_keys self))) (ev_tags event)
          then Inl (InvalidPubkey ''event p-tag does not match our ephemeral pubkey'')
          else Inr ())"

definition record_event :: "PairingSession \<Rightarrow> signed_event \<Rightarrow> PairingSession" where
  "record_event self event = self\<lparr>ps_processed_ids := insert (ev_id event) (ps_processed_ids self)\<rparr>"

definition validate_event_from_peer ::
    "crates \<Rightarrow> PairingSession \<Rightarrow> signed_event \<Rightarrow> (unit, PairingError) rust_result" where
  "validate_event_from_peer E self event =
     (case validate_event_basics E self event of
        Inl e \<Rightarrow> Inl e
      | Inr _ \<Rightarrow>
          (case ps_peer_pubkey self of
             None \<Rightarrow> Inr ()
           | Some expected \<Rightarrow>
               if ev_pubkey event \<noteq> expected
               then Inl (InvalidPubkey (''event from '' @ ev_pubkey event @ '' but expected '' @ expected))
               else Inr ()))"

subsection \<open>Building and opening events\<close>

text \<open>The two error texts that contain a character outside ASCII, as their UTF-8 bytes.\<close>

definition nip44_range_text :: string where
  "nip44_range_text = ''NIP-44 content (132'' @ [CHR 0xE2, CHR 0x80, CHR 0x93] @ ''87472 chars)''"

definition plaintext_limit_text :: string where
  "plaintext_limit_text = ''plaintext '' @ [CHR 0xE2, CHR 0x89, CHR 0xA4] @ '' 65535 bytes''"

definition build_event ::
    "crates \<Rightarrow> draw \<Rightarrow> PairingSession \<Rightarrow> PairingMessage \<Rightarrow> (signed_event, PairingError) rust_result" where
  "build_event E d self message =
     (case ok_or (InvalidPubkey ''no peer pubkey set'') (ps_peer_pubkey self) of
        Inl e \<Rightarrow> Inl e
      | Inr peer \<Rightarrow>
         (case to_json E message of
            Inl e \<Rightarrow> Inl (JsonError e)
          | Inr plaintext \<Rightarrow>
             (case nip44_encrypt E (dr_nonce d) (ps_keys self) peer plaintext of
                Inl e \<Rightarrow> Inl (Nip44 e)
              | Inr encrypted \<Rightarrow>
                  let jitter = unat (dr_jitter d) mod 31;
                      ts = dr_now d - jitter
                  in map_err SigningError
                       (sign_with_keys E (dr_aux d) (ps_keys self) ts PAIRING_KIND
                          [tag_public_key E peer] encrypted))))"

text \<open>
  The plaintext is cleared before its length is printed into the error, so the text always says
  zero bytes.
\<close>

definition decrypt_message ::
    "crates \<Rightarrow> PairingSession \<Rightarrow> signed_event \<Rightarrow> (PairingMessage, PairingError) rust_result" where
  "decrypt_message E self event =
     (let content_len = length (ev_content event)
      in if \<not> (132 \<le> content_len \<and> content_len \<le> 87472)
         then Inl (UnexpectedMessage nip44_range_text (show_nat content_len @ '' chars''))
         else case nip44_decrypt E (ps_keys self) (ev_pubkey event) (ev_content event) of
             Inl e \<Rightarrow> Inl (Nip44 e)
           | Inr decrypted \<Rightarrow>
               if length decrypted > 65535
               then Inl (UnexpectedMessage plaintext_limit_text (show_nat 0 @ '' bytes''))
               else map_err JsonError (from_json E decrypted))"

text \<open>\<open>hex::decode\<close> followed by the conversion to an array of 32 bytes.\<close>

definition decode_32 :: "crates \<Rightarrow> string \<Rightarrow> bytes option" where
  "decode_32 E s = (case hex_decode E s of Inl _ \<Rightarrow> None | Inr b \<Rightarrow> if length b = 32 then Some b else None)"

subsection \<open>The source\<close>

definition new_source ::
    "crates \<Rightarrow> instant \<Rightarrow> hex \<Rightarrow> bytes \<Rightarrow> string \<Rightarrow> PairingSession \<times> QrPayload" where
  "new_source E now keys session_secret relay_url =
     (let session_id = derive_session_id E session_secret;
          qr = \<lparr>source_pubkey = public_key E keys, qr_session_secret = session_secret,
                relays = [relay_url], version = 1\<rparr>;
          session = \<lparr>ps_role = Source, ps_state = Waiting, ps_keys = keys,
                     ps_session_secret = session_secret, ps_relay_urls = [relay_url],
                     ps_peer_pubkey = None, ps_session_id = session_id, ps_sas_code = None,
                     ps_sas_input = None, ps_processed_ids = {}, ps_created_at = now,
                     ps_timeout = DEFAULT_TIMEOUT\<rparr>
      in (session, qr))"

definition handle_offer ::
    "crates \<Rightarrow> instant \<Rightarrow> PairingSession \<Rightarrow> signed_event \<Rightarrow> PairingSession \<times> (string, PairingError) rust_result" where
  "handle_offer E now self event =
     attempt self (check_expired now self) (\<lambda>_.
     attempt self (expect_state self Waiting) (\<lambda>_.
     attempt self (expect_role self Source) (\<lambda>_.
     attempt self (validate_event_basics E self event) (\<lambda>_.
     attempt self (decrypt_message E self event) (\<lambda>msg.
       case msg of
         Offer session_id_hex ver \<Rightarrow>
           if ver \<noteq> 1
           then (self, Inl (UnexpectedMessage ''version 1'' (''version '' @ show_nat (unat ver))))
           else (case decode_32 E session_id_hex of
               None \<Rightarrow> (self, Inl InvalidSessionId)
             | Some received \<Rightarrow>
                 if \<not> ct_eq received (ps_session_id self) then (self, Inl InvalidSessionId)
                 else let peer = ev_pubkey event;
                          self = self\<lparr>ps_peer_pubkey := Some peer\<rparr>
                      in attempt self (map_err SigningError (generate_shared_key E (ps_keys self) peer)) (\<lambda>ecdh.
                           let (code, sas_input) = derive_sas E ecdh (ps_session_secret self);
                               self = self\<lparr>ps_sas_code := Some code, ps_sas_input := Some sas_input,
                                           ps_state := Confirming\<rparr>
                           in (record_event self event, Inr (format_sas code))))
       | other \<Rightarrow> (self, Inl (unexpected ''offer'' other)))))))"

definition confirm_sas ::
    "crates \<Rightarrow> draw \<Rightarrow> instant \<Rightarrow> PairingSession \<Rightarrow> PairingSession \<times> (signed_event, PairingError) rust_result" where
  "confirm_sas E d now self =
     attempt self (check_expired now self) (\<lambda>_.
     attempt self (expect_state self Confirming) (\<lambda>_.
     attempt self (expect_role self Source) (\<lambda>_.
     attempt self (ok_or SasMismatch (ps_sas_input self)) (\<lambda>sas_input.
     attempt self (ok_or (InvalidPubkey ''no peer'') (ps_peer_pubkey self)) (\<lambda>peer.
       let transcript_hash = derive_transcript_hash E (ps_session_id self)
             (pk_to_bytes E (public_key E (ps_keys self))) (pk_to_bytes E peer) sas_input
             (ps_session_secret self)
       in attempt self (build_event E d self (SasConfirm (hex_encode E transcript_hash))) (\<lambda>event.
            (self\<lparr>ps_state := Transferring\<rparr>, Inr event)))))))"

definition handle_return_payload ::
    "crates \<Rightarrow> instant \<Rightarrow> PairingSession \<Rightarrow> signed_event \<Rightarrow>
     PairingSession \<times> (PayloadType \<times> string, PairingError) rust_result" where
  "handle_return_payload E now self event =
     attempt self (check_expired now self) (\<lambda>_.
     attempt self (expect_state self Transferring) (\<lambda>_.
     attempt self (expect_role self Source) (\<lambda>_.
     attempt self (validate_event_from_peer E self event) (\<lambda>_.
     attempt self (decrypt_message E self event) (\<lambda>msg.
       case msg of
         Payload payload_type payload \<Rightarrow>
           (record_event (self\<lparr>ps_state := PayloadExchanged\<rparr>) event, Inr (payload_type, payload))
       | other \<Rightarrow> (self, Inl (unexpected ''payload'' other)))))))"

definition send_source_complete ::
    "crates \<Rightarrow> draw \<Rightarrow> instant \<Rightarrow> PairingSession \<Rightarrow> bool \<Rightarrow>
     PairingSession \<times> (signed_event, PairingError) rust_result" where
  "send_source_complete E d now self success =
     attempt self (check_expired now self) (\<lambda>_.
     attempt self (expect_state self PayloadExchanged) (\<lambda>_.
     attempt self (expect_role self Source) (\<lambda>_.
     attempt self (build_event E d self (Complete success)) (\<lambda>event.
       (self\<lparr>ps_state := if success then Completed else Aborted\<rparr>, Inr event)))))"

definition send_payload ::
    "crates \<Rightarrow> draw \<Rightarrow> instant \<Rightarrow> PairingSession \<Rightarrow> PayloadType \<Rightarrow> string \<Rightarrow>
     PairingSession \<times> (signed_event, PairingError) rust_result" where
  "send_payload E d now self payload_type payload =
     attempt self (check_expired now self) (\<lambda>_.
     attempt self (expect_state self Transferring) (\<lambda>_.
     attempt self (expect_role self Source) (\<lambda>_.
     attempt self (build_event E d self (Payload payload_type payload)) (\<lambda>event.
       (self\<lparr>ps_state := PayloadExchanged\<rparr>, Inr event)))))"

definition handle_complete ::
    "crates \<Rightarrow> instant \<Rightarrow> PairingSession \<Rightarrow> signed_event \<Rightarrow> PairingSession \<times> (unit, PairingError) rust_result" where
  "handle_complete E now self event =
     attempt self (check_expired now self) (\<lambda>_.
     attempt self (expect_state self PayloadExchanged) (\<lambda>_.
     attempt self (expect_role self Source) (\<lambda>_.
     attempt self (validate_event_from_peer E self event) (\<lambda>_.
     attempt self (decrypt_message E self event) (\<lambda>msg.
       case msg of
         Complete success \<Rightarrow>
           if success then (record_event (self\<lparr>ps_state := Completed\<rparr>) event, Inr ())
           else (self\<lparr>ps_state := Aborted\<rparr>,
                 Inl (UnexpectedMessage ''complete(success=true)'' ''complete(success=false)''))
       | other \<Rightarrow> (self, Inl (unexpected ''complete'' other)))))))"

subsection \<open>The target\<close>

definition new_target ::
    "crates \<Rightarrow> draw \<Rightarrow> instant \<Rightarrow> hex \<Rightarrow> QrPayload \<Rightarrow> (PairingSession \<times> signed_event, PairingError) rust_result" where
  "new_target E d now keys qr =
     (let session_id = derive_session_id E (qr_session_secret qr)
      in case map_err SigningError (generate_shared_key E keys (source_pubkey qr)) of
           Inl e \<Rightarrow> Inl e
         | Inr ecdh \<Rightarrow>
             let (code, sas_input) = derive_sas E ecdh (qr_session_secret qr);
                 session = \<lparr>ps_role = Target, ps_state = Waiting, ps_keys = keys,
                            ps_session_secret = qr_session_secret qr, ps_relay_urls = relays qr,
                            ps_peer_pubkey = Some (source_pubkey qr), ps_session_id = session_id,
                            ps_sas_code = Some code, ps_sas_input = Some sas_input,
                            ps_processed_ids = {}, ps_created_at = now, ps_timeout = DEFAULT_TIMEOUT\<rparr>
             in case build_event E d session (Offer (hex_encode E session_id) 1) of
                  Inl e \<Rightarrow> Inl e
                | Inr event \<Rightarrow> Inr (session\<lparr>ps_state := Confirming\<rparr>, event))"

definition handle_sas_confirm ::
    "crates \<Rightarrow> instant \<Rightarrow> PairingSession \<Rightarrow> signed_event \<Rightarrow> PairingSession \<times> (string, PairingError) rust_result" where
  "handle_sas_confirm E now self event =
     attempt self (check_expired now self) (\<lambda>_.
     attempt self (expect_state self Confirming) (\<lambda>_.
     attempt self (expect_role self Target) (\<lambda>_.
     attempt self (validate_event_from_peer E self event) (\<lambda>_.
     attempt self (decrypt_message E self event) (\<lambda>msg.
       case msg of
         SasConfirm received_hash \<Rightarrow>
           attempt self (ok_or SasMismatch (ps_sas_input self)) (\<lambda>sas_input.
           attempt self (ok_or (InvalidPubkey ''no peer'') (ps_peer_pubkey self)) (\<lambda>peer.
             let expected_hash = derive_transcript_hash E (ps_session_id self) (pk_to_bytes E peer)
                   (pk_to_bytes E (public_key E (ps_keys self))) sas_input (ps_session_secret self);
                 matches = (case decode_32 E received_hash of None \<Rightarrow> False | Some rb \<Rightarrow> ct_eq rb expected_hash)
             in if \<not> matches then (self\<lparr>ps_state := Aborted\<rparr>, Inl TranscriptMismatch)
                else let self = record_event (self\<lparr>ps_state := AwaitingConfirmation\<rparr>) event
                     in attempt self (ok_or SasMismatch (ps_sas_code self)) (\<lambda>code.
                          (self, Inr (format_sas code)))))
       | other \<Rightarrow> (self, Inl (unexpected ''sas-confirm'' other)))))))"

definition confirm_target_sas ::
    "instant \<Rightarrow> PairingSession \<Rightarrow> PairingSession \<times> (unit, PairingError) rust_result" where
  "confirm_target_sas now self =
     attempt self (check_expired now self) (\<lambda>_.
     attempt self (expect_state self AwaitingConfirmation) (\<lambda>_.
     attempt self (expect_role self Target) (\<lambda>_.
       (self\<lparr>ps_state := Transferring\<rparr>, Inr ()))))"

definition handle_payload ::
    "crates \<Rightarrow> instant \<Rightarrow> PairingSession \<Rightarrow> signed_event \<Rightarrow>
     PairingSession \<times> (PayloadType \<times> string, PairingError) rust_result" where
  "handle_payload E now self event =
     attempt self (check_expired now self) (\<lambda>_.
     attempt self (expect_state self Transferring) (\<lambda>_.
     attempt self (expect_role self Target) (\<lambda>_.
     attempt self (validate_event_from_peer E self event) (\<lambda>_.
     attempt self (decrypt_message E self event) (\<lambda>msg.
       case msg of
         Payload payload_type payload \<Rightarrow>
           (record_event (self\<lparr>ps_state := PayloadExchanged\<rparr>) event, Inr (payload_type, payload))
       | other \<Rightarrow> (self, Inl (unexpected ''payload'' other)))))))"

definition send_complete ::
    "crates \<Rightarrow> draw \<Rightarrow> instant \<Rightarrow> PairingSession \<Rightarrow> PairingSession \<times> (signed_event, PairingError) rust_result" where
  "send_complete E d now self =
     attempt self (check_expired now self) (\<lambda>_.
     attempt self (expect_state self PayloadExchanged) (\<lambda>_.
     attempt self (expect_role self Target) (\<lambda>_.
     attempt self (build_event E d self (Complete True)) (\<lambda>event.
       (self\<lparr>ps_state := Completed\<rparr>, Inr event)))))"

subsection \<open>Either side\<close>

definition terminal :: "SessionState \<Rightarrow> bool" where
  "terminal s \<longleftrightarrow> s = Completed \<or> s = Aborted"

definition abort ::
    "crates \<Rightarrow> draw \<Rightarrow> PairingSession \<Rightarrow> AbortReason \<Rightarrow>
     PairingSession \<times> (signed_event option, PairingError) rust_result" where
  "abort E d self reason =
     (if terminal (ps_state self)
      then (self, Inl (UnexpectedMessage ''non-terminal state'' (''state '' @ state_debug (ps_state self))))
      else if ps_peer_pubkey self = None then (self\<lparr>ps_state := Aborted\<rparr>, Inr None)
      else attempt self (build_event E d self (Abort reason)) (\<lambda>event.
             (self\<lparr>ps_state := Aborted\<rparr>, Inr (Some event))))"

definition handle_abort ::
    "crates \<Rightarrow> PairingSession \<Rightarrow> signed_event \<Rightarrow> PairingSession \<times> (AbortReason, PairingError) rust_result" where
  "handle_abort E self event =
     (if terminal (ps_state self)
      then (self, Inl (UnexpectedMessage ''non-terminal state'' (''state '' @ state_debug (ps_state self))))
      else if ps_peer_pubkey self = None
      then (self, Inl (InvalidPubkey ''cannot accept abort before peer is known''))
      else attempt self (validate_event_from_peer E self event) (\<lambda>_.
           attempt self (decrypt_message E self event) (\<lambda>msg.
             case msg of
               Abort reason \<Rightarrow> (record_event (self\<lparr>ps_state := Aborted\<rparr>) event, Inr reason)
             | other \<Rightarrow> (self, Inl (unexpected ''abort'' other)))))"

definition sas_code :: "PairingSession \<Rightarrow> string option" where
  "sas_code self = map_option format_sas (ps_sas_code self)"

definition pubkey :: "crates \<Rightarrow> PairingSession \<Rightarrow> hex" where
  "pubkey E self = public_key E (ps_keys self)"

definition qr_uri :: "crates \<Rightarrow> PairingSession \<Rightarrow> string option" where
  "qr_uri E self =
     (if ps_role self \<noteq> Source then None
      else Some (encode_qr E \<lparr>source_pubkey = public_key E (ps_keys self),
             qr_session_secret = ps_session_secret self, relays = ps_relay_urls self, version = 1\<rparr>))"

subsection \<open>Operations and runs\<close>

text \<open>The calls an application can make on a session, each with what it draws.\<close>

datatype session_op =
    HandleOffer signed_event
  | ConfirmSas draw
  | HandleReturnPayload signed_event
  | SendSourceComplete draw bool
  | SendPayload draw PayloadType string
  | HandleComplete signed_event
  | HandleSasConfirm signed_event
  | ConfirmTargetSas
  | HandlePayload signed_event
  | SendComplete draw
  | AbortOp draw AbortReason
  | HandleAbort signed_event

definition outcome :: "'s \<times> ('a, 'e) rust_result \<Rightarrow> 's \<times> bool" where
  "outcome r = (fst r, \<not> isl (snd r))"

text \<open>The session after a call and whether the call returned \<open>Ok\<close>.\<close>

fun exec_op :: "crates \<Rightarrow> instant \<Rightarrow> session_op \<Rightarrow> PairingSession \<Rightarrow> PairingSession \<times> bool" where
  "exec_op E now (HandleOffer ev) s = outcome (handle_offer E now s ev)"
| "exec_op E now (ConfirmSas d) s = outcome (confirm_sas E d now s)"
| "exec_op E now (HandleReturnPayload ev) s = outcome (handle_return_payload E now s ev)"
| "exec_op E now (SendSourceComplete d b) s = outcome (send_source_complete E d now s b)"
| "exec_op E now (SendPayload d t p) s = outcome (send_payload E d now s t p)"
| "exec_op E now (HandleComplete ev) s = outcome (handle_complete E now s ev)"
| "exec_op E now (HandleSasConfirm ev) s = outcome (handle_sas_confirm E now s ev)"
| "exec_op E now ConfirmTargetSas s = outcome (confirm_target_sas now s)"
| "exec_op E now (HandlePayload ev) s = outcome (handle_payload E now s ev)"
| "exec_op E now (SendComplete d) s = outcome (send_complete E d now s)"
| "exec_op E now (AbortOp d r) s = outcome (abort E d s r)"
| "exec_op E now (HandleAbort ev) s = outcome (handle_abort E s ev)"

text \<open>A run: the final session and the calls that succeeded, in order.\<close>

fun run_ops :: "crates \<Rightarrow> (instant \<times> session_op) list \<Rightarrow> PairingSession \<Rightarrow> PairingSession \<times> session_op list" where
  "run_ops E [] s = (s, [])"
| "run_ops E ((now, c) # cs) s =
     (let (s1, ok) = exec_op E now c s; (s2, log) = run_ops E cs s1
      in (s2, if ok then c # log else log))"

lemmas handler_defs = handle_offer_def confirm_sas_def handle_return_payload_def send_source_complete_def
  send_payload_def handle_complete_def handle_sas_confirm_def confirm_target_sas_def handle_payload_def
  send_complete_def abort_def handle_abort_def

lemmas check_defs = attempt_def check_expired_def expect_state_def expect_role_def ok_or_def map_err_def
  record_event_def outcome_def Let_def

subsection \<open>The protocol as an automaton\<close>

text \<open>
  What a session promises: from which state of which role a call may succeed, and where it leads.
\<close>

definition step_if :: "bool \<Rightarrow> SessionState \<Rightarrow> SessionState option" where
  "step_if b s = (if b then Some s else None)"

definition next_state :: "Role \<Rightarrow> SessionState \<Rightarrow> session_op \<Rightarrow> SessionState option" where
  "next_state r s c =
     (case c of
        HandleOffer _ \<Rightarrow> step_if (r = Source \<and> s = Waiting) Confirming
      | ConfirmSas _ \<Rightarrow> step_if (r = Source \<and> s = Confirming) Transferring
      | HandleReturnPayload _ \<Rightarrow> step_if (r = Source \<and> s = Transferring) PayloadExchanged
      | SendSourceComplete _ b \<Rightarrow> step_if (r = Source \<and> s = PayloadExchanged) (if b then Completed else Aborted)
      | SendPayload _ _ _ \<Rightarrow> step_if (r = Source \<and> s = Transferring) PayloadExchanged
      | HandleComplete _ \<Rightarrow> step_if (r = Source \<and> s = PayloadExchanged) Completed
      | HandleSasConfirm _ \<Rightarrow> step_if (r = Target \<and> s = Confirming) AwaitingConfirmation
      | ConfirmTargetSas \<Rightarrow> step_if (r = Target \<and> s = AwaitingConfirmation) Transferring
      | HandlePayload _ \<Rightarrow> step_if (r = Target \<and> s = Transferring) PayloadExchanged
      | SendComplete _ \<Rightarrow> step_if (r = Target \<and> s = PayloadExchanged) Completed
      | AbortOp _ _ \<Rightarrow> step_if (\<not> terminal s) Aborted
      | HandleAbort _ \<Rightarrow> step_if (\<not> terminal s) Aborted)"

fun follow :: "Role \<Rightarrow> SessionState \<Rightarrow> session_op list \<Rightarrow> SessionState option" where
  "follow r s [] = Some s"
| "follow r s (c # cs) = (case next_state r s c of None \<Rightarrow> None | Some s1 \<Rightarrow> follow r s1 cs)"

text \<open>What a session holds besides its state: the keys to a peer are complete once it is known.\<close>

definition session_inv :: "PairingSession \<Rightarrow> bool" where
  "session_inv s \<longleftrightarrow> ps_role s = Source \<and> ps_state s \<in> {Waiting, Aborted} \<or>
     ps_peer_pubkey s \<noteq> None \<and> ps_sas_code s \<noteq> None \<and> ps_sas_input s \<noteq> None \<and> ps_state s \<noteq> Waiting"

definition fresh_session :: "crates \<Rightarrow> PairingSession \<Rightarrow> bool" where
  "fresh_session E s \<longleftrightarrow> (\<exists>now k sec url. s = fst (new_source E now k sec url)) \<or>
     (\<exists>d now k qr ev. new_target E d now k qr = Inr (s, ev))"

fun op_event :: "session_op \<Rightarrow> signed_event option" where
  "op_event (HandleOffer ev) = Some ev"
| "op_event (HandleReturnPayload ev) = Some ev"
| "op_event (HandleComplete ev) = Some ev"
| "op_event (HandleSasConfirm ev) = Some ev"
| "op_event (HandlePayload ev) = Some ev"
| "op_event (HandleAbort ev) = Some ev"
| "op_event _ = None"

text \<open>The tests every event has to pass before a handler acts on it.\<close>

definition acceptable :: "crates \<Rightarrow> PairingSession \<Rightarrow> signed_event \<Rightarrow> bool" where
  "acceptable E s ev \<longleftrightarrow> \<not> isl (verify E ev) \<and> ev_id ev \<notin> ps_processed_ids s \<and> ev_kind ev = PAIRING_KIND \<and>
     list_ex (names_key (public_key E (ps_keys s))) (ev_tags ev) \<and> \<not> isl (decrypt_message E s ev)"

lemma new_target_Inr:
  assumes "new_target E d now k qr = Inr (s, ev)"
  obtains ecdh where "generate_shared_key E k (source_pubkey qr) = Inr ecdh"
    and "s = \<lparr>ps_role = Target, ps_state = Confirming, ps_keys = k,
           ps_session_secret = qr_session_secret qr, ps_relay_urls = relays qr,
           ps_peer_pubkey = Some (source_pubkey qr), ps_session_id = derive_session_id E (qr_session_secret qr),
           ps_sas_code = Some (fst (derive_sas E ecdh (qr_session_secret qr))),
           ps_sas_input = Some (snd (derive_sas E ecdh (qr_session_secret qr))),
           ps_processed_ids = {}, ps_created_at = now, ps_timeout = DEFAULT_TIMEOUT\<rparr>"
    and "build_event E d (s\<lparr>ps_state := Waiting\<rparr>)
           (Offer (hex_encode E (derive_session_id E (qr_session_secret qr))) 1) = Inr ev"
  using assms by (auto simp: new_target_def map_err_def Let_def split: sum.splits prod.splits)

lemma fresh_inv: "fresh_session E s \<Longrightarrow> session_inv s"
  unfolding fresh_session_def
  by (elim disjE exE) (auto simp: session_inv_def new_source_def elim!: new_target_Inr)

lemma basics_ok:
  "validate_event_basics E s ev = Inr x \<Longrightarrow> \<not> isl (verify E ev) \<and> ev_id ev \<notin> ps_processed_ids s \<and>
     ev_kind ev = PAIRING_KIND \<and> list_ex (names_key (public_key E (ps_keys s))) (ev_tags ev)"
  by (auto simp: validate_event_basics_def split: sum.splits if_splits)

lemma from_peer_ok:
  "validate_event_from_peer E s ev = Inr x \<Longrightarrow> validate_event_basics E s ev = Inr () \<and>
     (case ps_peer_pubkey s of None \<Rightarrow> True | Some pk \<Rightarrow> ev_pubkey ev = pk)"
  by (auto simp: validate_event_from_peer_def split: sum.splits if_splits option.splits)

definition from_peer :: "PairingSession \<Rightarrow> signed_event \<Rightarrow> bool" where
  "from_peer s ev \<longleftrightarrow> ps_peer_pubkey s = Some (ev_pubkey ev)"

text \<open>
  One call as a step: a call is refused and changes nothing, or it takes the step of the
  automaton; two failures leave a trace, an offer whose key agreement fails and a confirmation or
  completion that turns out to be negative.
\<close>

inductive session_step :: "crates \<Rightarrow> instant \<Rightarrow> PairingSession \<Rightarrow> session_op \<Rightarrow> PairingSession \<Rightarrow> bool \<Rightarrow> bool"
  for E now s where
  refused: "session_step E now s c s False"
| offered: "\<not> is_expired now s \<Longrightarrow> next_state (ps_role s) (ps_state s) (HandleOffer ev) = Some Confirming \<Longrightarrow>
    acceptable E s ev \<Longrightarrow> generate_shared_key E (ps_keys s) (ev_pubkey ev) = Inr k \<Longrightarrow>
    derive_sas E k (ps_session_secret s) = (code, inp) \<Longrightarrow>
    session_step E now s (HandleOffer ev)
      (record_event (s\<lparr>ps_peer_pubkey := Some (ev_pubkey ev), ps_sas_code := Some code,
         ps_sas_input := Some inp, ps_state := Confirming\<rparr>) ev) True"
| no_key: "\<not> is_expired now s \<Longrightarrow> next_state (ps_role s) (ps_state s) (HandleOffer ev) = Some Confirming \<Longrightarrow>
    acceptable E s ev \<Longrightarrow>
    session_step E now s (HandleOffer ev) (s\<lparr>ps_peer_pubkey := Some (ev_pubkey ev)\<rparr>) False"
| called: "\<not> is_expired now s \<Longrightarrow> ps_state s \<noteq> Waiting \<Longrightarrow> op_event c = None \<Longrightarrow>
    next_state (ps_role s) (ps_state s) c = Some st \<Longrightarrow>
    session_step E now s c (s\<lparr>ps_state := st\<rparr>) True"
| received: "\<not> is_expired now s \<Longrightarrow> ps_state s \<noteq> Waiting \<Longrightarrow> op_event c = Some ev \<Longrightarrow>
    acceptable E s ev \<Longrightarrow> from_peer s ev \<Longrightarrow> next_state (ps_role s) (ps_state s) c = Some st \<Longrightarrow>
    session_step E now s c (record_event (s\<lparr>ps_state := st\<rparr>) ev) True"
| negative: "\<not> is_expired now s \<Longrightarrow> ps_state s \<noteq> Waiting \<Longrightarrow> op_event c = Some ev \<Longrightarrow>
    acceptable E s ev \<Longrightarrow> from_peer s ev \<Longrightarrow> next_state (ps_role s) (ps_state s) c = Some st \<Longrightarrow>
    session_step E now s c (s\<lparr>ps_state := Aborted\<rparr>) False"
| aborted: "next_state (ps_role s) (ps_state s) (AbortOp d r) = Some Aborted \<Longrightarrow>
    session_step E now s (AbortOp d r) (s\<lparr>ps_state := Aborted\<rparr>) True"
| abort_received: "next_state (ps_role s) (ps_state s) (HandleAbort ev) = Some Aborted \<Longrightarrow>
    acceptable E s ev \<Longrightarrow> from_peer s ev \<Longrightarrow>
    session_step E now s (HandleAbort ev) (record_event (s\<lparr>ps_state := Aborted\<rparr>) ev) True"

declare refused [simp, intro]

inductive_cases session_stepE: "session_step E now s c s' ok"

lemma attemptE:
  assumes "attempt s r f = (s', res)"
  obtains (err) e where "r = Inl e" "s' = s" "res = Inl e" | (ok) x where "r = Inr x" "f x = (s', res)"
  using assms by (auto simp: attempt_def split: sum.splits)

lemma ok_or_Inr: "ok_or e x = Inr y \<longleftrightarrow> x = Some y"
  by (simp add: ok_or_def split: option.split)

lemma map_err_Inr: "map_err f r = Inr y \<longleftrightarrow> r = Inr y"
  by (simp add: map_err_def split: sum.split)

lemma guards_ok:
  "check_expired now s = Inr u \<longleftrightarrow> \<not> is_expired now s"
  "expect_state s st = Inr u \<longleftrightarrow> ps_state s = st"
  "expect_role s r = Inr u \<longleftrightarrow> ps_role s = r"
  by (simp_all add: check_expired_def expect_state_def expect_role_def)

lemma acceptableI:
  "validate_event_basics E s ev = Inr () \<Longrightarrow> decrypt_message E s ev = Inr m \<Longrightarrow> acceptable E s ev"
  by (auto simp: acceptable_def dest: basics_ok)

lemma from_peerI:
  assumes "validate_event_from_peer E s ev = Inr ()" "decrypt_message E s ev = Inr m" "ps_peer_pubkey s \<noteq> None"
  shows "acceptable E s ev \<and> from_peer s ev"
  using from_peer_ok [OF assms(1)] assms(2,3) by (auto simp: from_peer_def intro: acceptableI)

lemma step_received:
  assumes "validate_event_from_peer E s ev = Inr ()" "decrypt_message E s ev = Inr m" "session_inv s"
    and "\<not> is_expired now s" "op_event c = Some ev" "next_state (ps_role s) (ps_state s) c = Some st"
    and "ps_state s \<notin> {Waiting, Aborted}"
  shows "session_step E now s c (record_event (s\<lparr>ps_state := st\<rparr>) ev) True"
    and "session_step E now s c (s\<lparr>ps_state := Aborted\<rparr>) False"
proof -
  have "ps_peer_pubkey s \<noteq> None" using assms(3,7) by (auto simp: session_inv_def)
  with from_peerI [OF assms(1,2)] have "acceptable E s ev" "from_peer s ev" by auto
  with assms show "session_step E now s c (record_event (s\<lparr>ps_state := st\<rparr>) ev) True"
    "session_step E now s c (s\<lparr>ps_state := Aborted\<rparr>) False"
    by (auto intro: received negative)
qed

lemmas next_simps = next_state_def step_if_def

lemmas exec_simps = guards_ok ok_or_Inr map_err_Inr Let_def

lemma step_offer:
  "handle_offer E now s ev = (s', res) \<Longrightarrow> session_step E now s (HandleOffer ev) s' (\<not> isl res)"
  unfolding handle_offer_def
  by (elim attemptE)
     (auto simp: exec_simps next_simps acceptableI elim!: attemptE intro: refused intro!: offered no_key
      split: PairingMessage.splits if_splits option.splits prod.splits, (rule refl)+)

text \<open>The handlers of events from a known peer are alike up to what they do with the message.\<close>

lemma step_event:
  assumes "session_inv s" and "op_event c = Some ev" and "next_state r st c = Some st'" and "st \<notin> {Waiting, Aborted}"
    and "attempt s (check_expired now s) (\<lambda>_. attempt s (expect_state s st) (\<lambda>_.
           attempt s (expect_role s r) (\<lambda>_. attempt s (validate_event_from_peer E s ev) (\<lambda>_.
           attempt s (decrypt_message E s ev) f)))) = (s', res)"
    and "\<And>m s' res. ps_state s = st \<Longrightarrow> f m = (s', res) \<Longrightarrow> isl res \<and> s' \<in> {s, s\<lparr>ps_state := Aborted\<rparr>} \<or>
           \<not> isl res \<and> s' = record_event (s\<lparr>ps_state := st'\<rparr>) ev"
  shows "session_step E now s c s' (\<not> isl res)"
  using assms(5)
proof (elim attemptE; simp add: guards_ok refused)
  fix m
  assume g: "\<not> is_expired now s" "ps_state s = st" "ps_role s = r"
    "validate_event_from_peer E s ev = Inr ()" "decrypt_message E s ev = Inr m" and m: "f m = (s', res)"
  from step_received [OF g(4,5) assms(1) g(1) assms(2)] g(2,3) assms(3,4) assms(6) [OF g(2) m]
  show "session_step E now s c s' (\<not> isl res)" by (auto intro: refused)
qed

text \<open>The calls that only build an event, or nothing at all.\<close>

lemma step_call:
  assumes "op_event c = None" and "next_state r st c = Some st'" and "st \<noteq> Waiting"
    and "attempt s (check_expired now s) (\<lambda>_. attempt s (expect_state s st) (\<lambda>_.
           attempt s (expect_role s r) (\<lambda>_. f))) = (s', res)"
    and "\<And>s' res. f = (s', res) \<Longrightarrow> isl res \<and> s' = s \<or> \<not> isl res \<and> s' = s\<lparr>ps_state := st'\<rparr>"
  shows "session_step E now s c s' (\<not> isl res)"
  using assms(4)
proof (elim attemptE; simp add: guards_ok refused)
  assume "\<not> is_expired now s" "ps_state s = st" "ps_role s = r" "f = (s', res)"
  with assms(1,2,3) assms(5) [of s' res] show "session_step E now s c s' (\<not> isl res)"
    by (auto intro: refused called)
qed

lemma outcomeE:
  assumes "outcome r = (s', ok)"
  obtains res where "r = (s', res)" and "ok = (\<not> isl res)"
  using assms by (cases r) (auto simp: outcome_def)

lemma step_payload:
  assumes "session_inv s" and "handle_payload E now s ev = (s', res)"
  shows "session_step E now s (HandlePayload ev) s' (\<not> isl res)"
  by (rule step_event [where st' = PayloadExchanged, OF assms(1) _ _ _ assms(2) [unfolded handle_payload_def]])
     (auto simp: next_simps split: PairingMessage.splits)

lemma step_return_payload:
  assumes "session_inv s" and "handle_return_payload E now s ev = (s', res)"
  shows "session_step E now s (HandleReturnPayload ev) s' (\<not> isl res)"
  by (rule step_event [where st' = PayloadExchanged, OF assms(1) _ _ _ assms(2) [unfolded handle_return_payload_def]])
     (auto simp: next_simps split: PairingMessage.splits)

lemma step_complete:
  assumes "session_inv s" and "handle_complete E now s ev = (s', res)"
  shows "session_step E now s (HandleComplete ev) s' (\<not> isl res)"
  by (rule step_event [where st' = Completed, OF assms(1) _ _ _ assms(2) [unfolded handle_complete_def]])
     (auto simp: next_simps split: PairingMessage.splits if_splits)

lemma step_sas_confirm:
  assumes "session_inv s" and "handle_sas_confirm E now s ev = (s', res)"
  shows "session_step E now s (HandleSasConfirm ev) s' (\<not> isl res)"
proof (rule step_event [where st' = AwaitingConfirmation, OF assms(1) _ _ _ assms(2) [unfolded handle_sas_confirm_def]], goal_cases)
  case (4 m t r)
  then have "ps_sas_code s \<noteq> None" using assms(1) by (auto simp: session_inv_def)
  with 4(2) show ?case
    by (cases m) (auto simp: Let_def ok_or_def record_event_def elim!: attemptE split: if_splits option.splits)
qed (simp_all add: next_simps)

lemma step_abort_event:
  assumes "handle_abort E s ev = (s', res)"
  shows "session_step E now s (HandleAbort ev) s' (\<not> isl res)"
  using assms from_peerI [of E s ev] unfolding handle_abort_def
  by (auto simp: next_simps elim!: attemptE intro!: abort_received split: PairingMessage.splits if_splits)

lemma step_confirm_sas:
  assumes "confirm_sas E d now s = (s', res)"
  shows "session_step E now s (ConfirmSas d) s' (\<not> isl res)"
  by (rule step_call [where st' = "Transferring", OF _ _ _ assms [unfolded confirm_sas_def]])
     (auto simp: next_simps Let_def elim!: attemptE)

lemma step_source_complete:
  assumes "send_source_complete E d now s b = (s', res)"
  shows "session_step E now s (SendSourceComplete d b) s' (\<not> isl res)"
  by (rule step_call [where st' = "if b then Completed else Aborted", OF _ _ _ assms [unfolded send_source_complete_def]])
     (auto simp: next_simps Let_def elim!: attemptE)

lemma step_send_payload:
  assumes "send_payload E d now s t p = (s', res)"
  shows "session_step E now s (SendPayload d t p) s' (\<not> isl res)"
  by (rule step_call [where st' = "PayloadExchanged", OF _ _ _ assms [unfolded send_payload_def]])
     (auto simp: next_simps Let_def elim!: attemptE)

lemma step_confirm_target:
  assumes "confirm_target_sas now s = (s', res)"
  shows "session_step E now s ConfirmTargetSas s' (\<not> isl res)"
  by (rule step_call [where st' = "Transferring", OF _ _ _ assms [unfolded confirm_target_sas_def]])
     (auto simp: next_simps Let_def elim!: attemptE)

lemma step_send_complete:
  assumes "send_complete E d now s = (s', res)"
  shows "session_step E now s (SendComplete d) s' (\<not> isl res)"
  by (rule step_call [where st' = "Completed", OF _ _ _ assms [unfolded send_complete_def]])
     (auto simp: next_simps Let_def elim!: attemptE)

lemma step_abort:
  assumes "abort E d s r = (s', res)"
  shows "session_step E now s (AbortOp d r) s' (\<not> isl res)"
  using assms unfolding abort_def
  by (auto simp: next_simps elim!: attemptE intro!: aborted split: if_splits)

lemma exec_step:
  assumes "session_inv s" and "exec_op E now c s = (s', ok)"
  shows "session_step E now s c s' ok"
  using assms
  by (cases c) (auto elim!: outcomeE intro: step_offer step_payload step_return_payload step_complete
      step_sas_confirm step_abort_event step_confirm_sas step_source_complete step_send_payload
      step_confirm_target step_send_complete step_abort)


subsection \<open>Consequences for runs\<close>

lemma step_inv: "session_step E now s c s' ok \<Longrightarrow> session_inv s \<Longrightarrow> session_inv s'"
  by (erule session_stepE) (auto simp: session_inv_def record_event_def next_simps terminal_def
      split: session_op.splits if_splits)

lemma step_state:
  "session_step E now s c s' ok \<Longrightarrow> ps_role s' = ps_role s \<and>
     (if ok then next_state (ps_role s) (ps_state s) c = Some (ps_state s')
      else ps_state s' = ps_state s \<or> ps_state s' = Aborted)"
  by (erule session_stepE) (auto simp: record_event_def)

lemma next_terminal: "terminal st \<Longrightarrow> next_state r st c = None"
  by (auto simp: next_simps terminal_def split: session_op.splits)

lemma run_Cons:
  assumes "run_ops E ((now, c) # cs) s = (s', log)"
  obtains s1 ok log1 where "exec_op E now c s = (s1, ok)" and "run_ops E cs s1 = (s', log1)"
    and "log = (if ok then c # log1 else log1)"
  using assms by (auto simp: split: prod.splits)

text \<open>Every run follows the automaton, up to an abort at the end.\<close>

lemma run_follows:
  "session_inv s \<Longrightarrow> run_ops E cs s = (s', log) \<Longrightarrow> session_inv s' \<and> ps_role s' = ps_role s \<and>
     (\<exists>st. follow (ps_role s) (ps_state s) log = Some st \<and> ps_state s' \<in> {st, Aborted})"
proof (induction cs arbitrary: s log)
  case (Cons a cs)
  obtain now c where a: "a = (now, c)" by (cases a)
  obtain s1 ok log1 where e: "exec_op E now c s = (s1, ok)" "run_ops E cs s1 = (s', log1)"
    and log: "log = (if ok then c # log1 else log1)" using run_Cons [OF Cons.prems(2) [unfolded a]] .
  have st: "session_step E now s c s1 ok" by (rule exec_step [OF Cons.prems(1) e(1)])
  note IH = Cons.IH [OF step_inv [OF st Cons.prems(1)] e(2)]
  have abt: "log1 = []" if "ps_state s1 = Aborted"
    using IH that by (cases log1) (auto simp: next_terminal terminal_def)
  show ?case using IH step_state [OF st] log abt by (cases ok) auto
qed simp

text \<open>The data that ties a session to its peer is fixed once the session has left its first state.\<close>

definition bond :: "PairingSession \<Rightarrow> hex \<times> bytes \<times> hex option \<times> bytes \<times> u32 option \<times> bytes option" where
  "bond s = (ps_keys s, ps_session_secret s, ps_peer_pubkey s, ps_session_id s, ps_sas_code s, ps_sas_input s)"

lemma step_bond:
  "session_step E now s c s' ok \<Longrightarrow> ps_state s \<noteq> Waiting \<Longrightarrow> bond s' = bond s \<and> ps_state s' \<noteq> Waiting"
  by (erule session_stepE) (auto simp: bond_def record_event_def next_simps split: session_op.splits if_splits)

lemma run_bond:
  "session_inv s \<Longrightarrow> ps_state s \<noteq> Waiting \<Longrightarrow> run_ops E cs s = (s', log) \<Longrightarrow> bond s' = bond s"
proof (induction cs arbitrary: s log)
  case (Cons a cs)
  obtain now c where a: "a = (now, c)" by (cases a)
  obtain s1 ok log1 where e: "exec_op E now c s = (s1, ok)" "run_ops E cs s1 = (s', log1)"
    using run_Cons [OF Cons.prems(3) [unfolded a]] by metis
  have st: "session_step E now s c s1 ok" by (rule exec_step [OF Cons.prems(1) e(1)])
  from Cons.IH [OF step_inv [OF st Cons.prems(1)] _ e(2)] step_bond [OF st Cons.prems(2)] show ?case by simp
qed simp

text \<open>The events a run accepted, with the session before and after each.\<close>

definition events :: "session_op list \<Rightarrow> signed_event list" where
  "events log = List.map_filter op_event log"

lemma events_simps [simp]:
  "events [] = []"
  "events (c # log) = (case op_event c of None \<Rightarrow> events log | Some ev \<Rightarrow> ev # events log)"
  by (simp_all add: events_def List.map_filter_def split: option.split)

lemma step_event_ok:
  assumes "session_step E now s c s' ok" and "op_event c = Some ev" and "ok"
  shows "acceptable E s ev \<and> ps_processed_ids s' = insert (ev_id ev) (ps_processed_ids s) \<and> from_peer s' ev"
  using assms by (cases rule: session_step.cases) (auto simp: record_event_def from_peer_def)

lemma step_ids: "session_step E now s c s' ok \<Longrightarrow> ps_processed_ids s \<subseteq> ps_processed_ids s'"
  by (erule session_stepE) (auto simp: record_event_def)

lemma step_leaves_waiting: "session_step E now s c s' ok \<Longrightarrow> ok \<Longrightarrow> ps_state s' \<noteq> Waiting"
  by (erule session_stepE) (auto simp: record_event_def next_simps split: session_op.splits if_splits)

lemma run_events:
  "session_inv s \<Longrightarrow> run_ops E cs s = (s', log) \<Longrightarrow>
     distinct (map ev_id (events log)) \<and> ev_id ` set (events log) \<inter> ps_processed_ids s = {} \<and>
     list_all (from_peer s') (events log)"
proof (induction cs arbitrary: s log)
  case (Cons a cs)
  obtain now c where a: "a = (now, c)" by (cases a)
  obtain s1 ok log1 where e: "exec_op E now c s = (s1, ok)" "run_ops E cs s1 = (s', log1)"
    and log: "log = (if ok then c # log1 else log1)" using run_Cons [OF Cons.prems(2) [unfolded a]] .
  have st: "session_step E now s c s1 ok" by (rule exec_step [OF Cons.prems(1) e(1)])
  have inv: "session_inv s1" by (rule step_inv [OF st Cons.prems(1)])
  note IH = Cons.IH [OF inv e(2)]
  show ?case
  proof (cases "ok \<and> op_event c \<noteq> None")
    case True
    then obtain ev where ev: "op_event c = Some ev" by auto
    have s1: "acceptable E s ev \<and> ps_processed_ids s1 = insert (ev_id ev) (ps_processed_ids s) \<and> from_peer s1 ev"
      using step_event_ok [OF st ev] True by blast
    have "ps_state s1 \<noteq> Waiting" using step_leaves_waiting st True by blast
    then have "bond s' = bond s1" by (rule run_bond [OF inv _ e(2)])
    then have "from_peer s' ev" using s1 by (simp add: bond_def from_peer_def)
    then show ?thesis using IH s1 True ev log by (auto simp: acceptable_def)
  next
    case False
    then have "events log = events log1" using log by auto
    then show ?thesis using IH step_ids [OF st] by auto
  qed
qed simp

end
