(* ===== verification/Pairing_Run.thy ===== *)
theory Pairing_Run
  imports Pairing_Session
begin

text \<open>
  What pairing sessions guarantee: a run between two honest devices completes and delivers the
  payload, a side moves the payload only after its peer was checked and its own user agreed, and
  once, events are accepted once and from one peer, an accepted confirmation binds both sides to the same transcript, and what both devices
  display is the same six digits.
\<close>

subsection \<open>What a run between two honest devices needs of the crates\<close>

text \<open>
  Documented behaviour of the crates, for the keys of the two devices: both sides compute the same
  shared key, a signed event verifies and carries what was signed, a \<open>p\<close> tag has its two parts, HKDF
  returns as many bytes as asked, up to its limit of 255 blocks. Signing keeps the tags only if none
  of them is a \<open>p\<close> tag of the signer: the event builder drops those, since \<open>build_event\<close> does not allow
  self tagging. The two devices therefore need different keys.
\<close>

definition key_agreement :: "crates \<Rightarrow> hex \<Rightarrow> hex \<Rightarrow> bool" where
  "key_agreement E a b \<longleftrightarrow> (\<exists>k. generate_shared_key E a (public_key E b) = Inr k \<and>
     generate_shared_key E b (public_key E a) = Inr k)"

definition signs :: "crates \<Rightarrow> hex \<Rightarrow> bool" where
  "signs E a \<longleftrightarrow> (\<forall>aux t k tags c. \<exists>ev. sign_with_keys E aux a t k tags c = Inr ev \<and>
     ev_pubkey ev = public_key E a \<and> ev_kind ev = k \<and> ev_content ev = c \<and> verify E ev = Inr () \<and>
     (\<not> list_ex (names_key (public_key E a)) tags \<longrightarrow> ev_tags ev = tags))"

definition p_tags :: "crates \<Rightarrow> bool" where
  "p_tags E \<longleftrightarrow> (\<forall>pk. tag_slice (tag_public_key E pk) = [''p'', pk])"

definition hkdf_length :: "crates \<Rightarrow> bool" where
  "hkdf_length E \<longleftrightarrow> (\<forall>prk info n. n \<le> 255 * 32 \<longrightarrow> length (hkdf_expand E prk info n) = n)"

text \<open>
  A message travels from one key to another: it is printed and parsed as JSON of at most 65535
  bytes, and NIP-44 encrypts and decrypts it within its documented range of lengths.
\<close>

definition travels :: "crates \<Rightarrow> hex \<Rightarrow> hex \<Rightarrow> PairingMessage \<Rightarrow> bool" where
  "travels E a b m \<longleftrightarrow> (\<exists>j. to_json E m = Inr j \<and> from_json E j = Inr m \<and> length j \<le> 65535 \<and>
     (\<forall>nonce. \<exists>c. nip44_encrypt E nonce a (public_key E b) j = Inr c \<and>
        nip44_decrypt E b (public_key E a) c = Inr j \<and> 132 \<le> length c \<and> length c \<le> 87472))"

definition crates_ok :: "crates \<Rightarrow> hex \<Rightarrow> hex \<Rightarrow> bool" where
  "crates_ok E a b \<longleftrightarrow> public_key E a \<noteq> public_key E b \<and> key_agreement E a b \<and> signs E a \<and> signs E b \<and> p_tags E \<and>
     hkdf_length E \<and> (\<forall>x. hex_codec E x) \<and> (\<forall>x. length x = 32 \<longrightarrow> travels E a b (SasConfirm (hex_encode E x)))"

text \<open>An event that carries a message from one key to another.\<close>

definition carries :: "crates \<Rightarrow> hex \<Rightarrow> hex \<Rightarrow> signed_event \<Rightarrow> PairingMessage \<Rightarrow> bool" where
  "carries E a b ev m \<longleftrightarrow> ev_pubkey ev = public_key E a \<and> verify E ev = Inr () \<and> ev_kind ev = PAIRING_KIND \<and>
     list_ex (names_key (public_key E b)) (ev_tags ev) \<and> (\<forall>r. ps_keys r = b \<longrightarrow> decrypt_message E r ev = Inr m)"

lemma build_carries:
  assumes "crates_ok E x y \<or> crates_ok E y x" and "travels E x y m" and "ps_keys s = x" "ps_peer_pubkey s = Some (public_key E y)"
  obtains ev where "build_event E d s m = Inr ev" and "carries E x y ev m"
proof -
  from assms(2) obtain j c where j: "to_json E m = Inr j" "from_json E j = Inr m" "length j \<le> 65535"
    and c: "nip44_encrypt E (dr_nonce d) x (public_key E y) j = Inr c"
      "nip44_decrypt E y (public_key E x) c = Inr j" "132 \<le> length c" "length c \<le> 87472"
    unfolding travels_def by blast
  from assms(1) have sg: "signs E x" "p_tags E" "public_key E y \<noteq> public_key E x" by (auto simp: crates_ok_def)
  then have "\<not> list_ex (names_key (public_key E x)) [tag_public_key E (public_key E y)]"
    by (simp add: p_tags_def names_key_def)
  with sg(1) obtain ev where ev: "sign_with_keys E (dr_aux d) x (dr_now d - unat (dr_jitter d) mod 31) PAIRING_KIND
      [tag_public_key E (public_key E y)] c = Inr ev" "ev_pubkey ev = public_key E x" "ev_kind ev = PAIRING_KIND"
      "ev_tags ev = [tag_public_key E (public_key E y)]" "ev_content ev = c" "verify E ev = Inr ()"
    unfolding signs_def by blast
  show thesis
  proof (rule that [of ev])
    show "build_event E d s m = Inr ev"
      using assms(3,4) j c ev by (simp add: build_event_def ok_or_def map_err_def Let_def)
    show "carries E x y ev m" using j c ev sg(2)
      by (simp add: carries_def decrypt_message_def map_err_def p_tags_def names_key_def Let_def)
  qed
qed

lemma carries_opens:
  assumes "carries E x y ev m" and "ps_keys r = y" and "ev_id ev \<notin> ps_processed_ids r"
  shows "validate_event_basics E r ev = Inr ()" and "decrypt_message E r ev = Inr m"
    and "ps_peer_pubkey r = Some (public_key E x) \<Longrightarrow> validate_event_from_peer E r ev = Inr ()"
    and "ev_pubkey ev = public_key E x"
  using assms by (simp_all add: carries_def validate_event_basics_def validate_event_from_peer_def)

lemma hkdf32_length: "hkdf_length E \<Longrightarrow> length (hkdf32 E salt ikm info) = 32"
  by (simp add: hkdf32_def hkdf_length_def Let_def)

lemma decode_32_encode: "hex_codec E x \<Longrightarrow> length x = 32 \<Longrightarrow> decode_32 E (hex_encode E x) = Some x"
  by (simp add: decode_32_def hex_codec_def)

lemma not_expired: "now \<le> ps_created_at s + ps_timeout s \<Longrightarrow> \<not> is_expired now s"
  by (auto simp: is_expired_def)


subsection \<open>The steps of an honest run\<close>

lemmas run_simps = attempt_def check_expired_def expect_state_def expect_role_def ok_or_def map_err_def
  not_expired record_event_def Let_def

text \<open>The two sessions as they are once both know each other.\<close>

definition paired :: "crates \<Rightarrow> hex \<Rightarrow> hex \<Rightarrow> bytes \<Rightarrow> bytes \<Rightarrow> PairingSession \<Rightarrow> bool" where
  "paired E mine theirs sec k s \<longleftrightarrow> ps_keys s = mine \<and> ps_peer_pubkey s = Some (public_key E theirs) \<and>
     ps_session_secret s = sec \<and> ps_session_id s = derive_session_id E sec \<and>
     ps_sas_code s = Some (fst (derive_sas E k sec)) \<and> ps_sas_input s = Some (snd (derive_sas E k sec))"

definition transcript :: "crates \<Rightarrow> hex \<Rightarrow> hex \<Rightarrow> bytes \<Rightarrow> bytes \<Rightarrow> bytes" where
  "transcript E a b sec k = derive_transcript_hash E (derive_session_id E sec) (pk_to_bytes E (public_key E a))
     (pk_to_bytes E (public_key E b)) (snd (derive_sas E k sec)) sec"

lemma offer_accepted:
  assumes "carries E b a ev (Offer (hex_encode E (derive_session_id E sec)) 1)" "crates_ok E a b"
    and "generate_shared_key E a (public_key E b) = Inr k"
    and "ps_role s = Source" "ps_state s = Waiting" "ps_keys s = a" "ps_session_secret s = sec"
      "ps_session_id s = derive_session_id E sec" "ps_processed_ids s = {}" "\<not> is_expired now s"
  obtains s' where "handle_offer E now s ev = (s', Inr (format_sas (fst (derive_sas E k sec))))"
    and "paired E a b sec k s'" "ps_role s' = Source" "ps_state s' = Confirming"
      "ps_processed_ids s' = {ev_id ev}" "ps_created_at s' = ps_created_at s" "ps_timeout s' = ps_timeout s"
proof -
  have opens: "validate_event_basics E s ev = Inr ()"
    "decrypt_message E s ev = Inr (Offer (hex_encode E (derive_session_id E sec)) 1)" "ev_pubkey ev = public_key E b"
    using carries_opens [OF assms(1,6)] assms(9) by simp_all
  have id: "decode_32 E (hex_encode E (derive_session_id E sec)) = Some (derive_session_id E sec)"
    using assms(2) by (intro decode_32_encode) (auto simp: crates_ok_def derive_session_id_def hkdf32_length)
  obtain code inp where sas: "derive_sas E k sec = (code, inp)" by fastforce
  let ?s' = "s\<lparr>ps_peer_pubkey := Some (public_key E b), ps_sas_code := Some code,
    ps_sas_input := Some inp, ps_state := Confirming, ps_processed_ids := {ev_id ev}\<rparr>"
  have "handle_offer E now s ev = (?s', Inr (format_sas (fst (derive_sas E k sec))))"
    using assms opens id sas by (simp add: handle_offer_def run_simps)
  then show thesis using assms sas by (intro that [of ?s']) (simp_all add: paired_def)
qed

lemma sas_confirmed:
  assumes "crates_ok E a b" "paired E a b sec k s" "ps_role s = Source" "ps_state s = Confirming" "\<not> is_expired now s"
  obtains ev where "confirm_sas E d now s = (s\<lparr>ps_state := Transferring\<rparr>, Inr ev)"
    and "carries E a b ev (SasConfirm (hex_encode E (transcript E a b sec k)))"
proof -
  have "length (transcript E a b sec k) = 32"
    using assms(1) by (simp add: transcript_def derive_transcript_hash_def Let_def hkdf32_length crates_ok_def)
  then have "travels E a b (SasConfirm (hex_encode E (transcript E a b sec k)))"
    using assms(1) by (simp add: crates_ok_def)
  then obtain ev where ev: "build_event E d s (SasConfirm (hex_encode E (transcript E a b sec k))) = Inr ev"
      "carries E a b ev (SasConfirm (hex_encode E (transcript E a b sec k)))"
    using build_carries [of E a b _ s d] assms(1,2) by (auto simp: paired_def)
  have "confirm_sas E d now s = (s\<lparr>ps_state := Transferring\<rparr>, Inr ev)"
    using assms ev(1) by (simp add: confirm_sas_def run_simps paired_def transcript_def)
  with ev(2) show thesis by (rule that [rotated])
qed

lemma confirmation_accepted:
  assumes "crates_ok E a b" "carries E a b ev (SasConfirm (hex_encode E (transcript E a b sec k)))"
    and "paired E b a sec k s" "ps_role s = Target" "ps_state s = Confirming" "\<not> is_expired now s"
      "ev_id ev \<notin> ps_processed_ids s"
  shows "handle_sas_confirm E now s ev =
    (record_event (s\<lparr>ps_state := AwaitingConfirmation\<rparr>) ev, Inr (format_sas (fst (derive_sas E k sec))))"
proof -
  have "length (transcript E a b sec k) = 32"
    using assms(1) by (simp add: transcript_def derive_transcript_hash_def Let_def hkdf32_length crates_ok_def)
  then have "decode_32 E (hex_encode E (transcript E a b sec k)) = Some (transcript E a b sec k)"
    using assms(1) by (intro decode_32_encode) (auto simp: crates_ok_def)
  moreover have "ps_keys s = b" "ps_peer_pubkey s = Some (public_key E a)" using assms(3) by (simp_all add: paired_def)
  moreover note carries_opens [OF assms(2) \<open>ps_keys s = b\<close> assms(7)]
  ultimately show ?thesis using assms(3-6)
    by (simp add: handle_sas_confirm_def run_simps paired_def transcript_def)
qed

lemma payload_sent:
  assumes "crates_ok E a b" "travels E a b (Payload ty p)" "paired E a b sec k s" "ps_role s = Source"
    "ps_state s = Transferring" "\<not> is_expired now s"
  obtains ev where "send_payload E d now s ty p = (s\<lparr>ps_state := PayloadExchanged\<rparr>, Inr ev)"
    and "carries E a b ev (Payload ty p)"
proof -
  obtain ev where ev: "build_event E d s (Payload ty p) = Inr ev" "carries E a b ev (Payload ty p)"
    using build_carries [OF _ assms(2), of s d] assms(1,3) by (auto simp: paired_def)
  have "send_payload E d now s ty p = (s\<lparr>ps_state := PayloadExchanged\<rparr>, Inr ev)"
    using assms ev(1) by (simp add: send_payload_def run_simps)
  with ev(2) show thesis by (rule that [rotated])
qed

lemma payload_accepted:
  assumes "carries E a b ev (Payload ty p)" "paired E b a sec k s" "ps_role s = Target"
    "ps_state s = Transferring" "\<not> is_expired now s" "ev_id ev \<notin> ps_processed_ids s"
  shows "handle_payload E now s ev = (record_event (s\<lparr>ps_state := PayloadExchanged\<rparr>) ev, Inr (ty, p))"
proof -
  have k: "ps_keys s = b" "ps_peer_pubkey s = Some (public_key E a)" using assms(2) by (simp_all add: paired_def)
  from carries_opens [OF assms(1) k(1) assms(6)] k assms(3-5) show ?thesis
    by (simp add: handle_payload_def run_simps)
qed

lemma completion_sent:
  assumes "crates_ok E a b" "travels E b a (Complete True)" "paired E b a sec k s" "ps_role s = Target"
    "ps_state s = PayloadExchanged" "\<not> is_expired now s"
  obtains ev where "send_complete E d now s = (s\<lparr>ps_state := Completed\<rparr>, Inr ev)"
    and "carries E b a ev (Complete True)"
proof -
  obtain ev where ev: "build_event E d s (Complete True) = Inr ev" "carries E b a ev (Complete True)"
    using build_carries [OF _ assms(2), of s d] assms(1,3) by (auto simp: paired_def)
  have "send_complete E d now s = (s\<lparr>ps_state := Completed\<rparr>, Inr ev)"
    using assms ev(1) by (simp add: send_complete_def run_simps)
  with ev(2) show thesis by (rule that [rotated])
qed

lemma completion_accepted:
  assumes "carries E b a ev (Complete True)" "paired E a b sec k s" "ps_role s = Source"
    "ps_state s = PayloadExchanged" "\<not> is_expired now s" "ev_id ev \<notin> ps_processed_ids s"
  shows "handle_complete E now s ev = (record_event (s\<lparr>ps_state := Completed\<rparr>) ev, Inr ())"
proof -
  have k: "ps_keys s = a" "ps_peer_pubkey s = Some (public_key E b)" using assms(2) by (simp_all add: paired_def)
  from carries_opens [OF assms(1) k(1) assms(6)] k assms(3-5) show ?thesis
    by (simp add: handle_complete_def run_simps)
qed


text \<open>The opening of a run: the target scans the code of a new source and sends its offer.\<close>

lemma target_joins:
  assumes "crates_ok E a b" "generate_shared_key E b (public_key E a) = Inr k"
    and "travels E b a (Offer (hex_encode E (derive_session_id E sec)) 1)"
    and "new_source E t0 a sec url = (src, qr)"
  obtains tgt offer where "new_target E d now b qr = Inr (tgt, offer)"
    and "carries E b a offer (Offer (hex_encode E (derive_session_id E sec)) 1)" "paired E b a sec k tgt"
    and "ps_role tgt = Target" "ps_state tgt = Confirming" "ps_processed_ids tgt = {}"
      "ps_created_at tgt = now" "ps_timeout tgt = DEFAULT_TIMEOUT"
proof -
  obtain code inp where sas: "derive_sas E k sec = (code, inp)" by fastforce
  have qr: "source_pubkey qr = public_key E a" "qr_session_secret qr = sec" "relays qr = [url]"
    using assms(4) by (auto simp: new_source_def Let_def)
  let ?s = "\<lparr>ps_role = Target, ps_state = Waiting, ps_keys = b, ps_session_secret = sec,
    ps_relay_urls = [url], ps_peer_pubkey = Some (public_key E a), ps_session_id = derive_session_id E sec,
    ps_sas_code = Some code, ps_sas_input = Some inp, ps_processed_ids = {}, ps_created_at = now,
    ps_timeout = DEFAULT_TIMEOUT\<rparr>"
  obtain ev where ev: "build_event E d ?s (Offer (hex_encode E (derive_session_id E sec)) 1) = Inr ev"
      "carries E b a ev (Offer (hex_encode E (derive_session_id E sec)) 1)"
    using build_carries [OF _ assms(3), of ?s d] assms(1) by auto
  then have "new_target E d now b qr = Inr (?s\<lparr>ps_state := Confirming\<rparr>, ev)"
    using assms(2) sas qr by (simp add: new_target_def map_err_def Let_def)
  from this ev(2) show thesis by (rule that) (simp_all add: paired_def sas)
qed

lemma paired_update [simp]:
  "paired E a b sec k (s\<lparr>ps_state := st\<rparr>) = paired E a b sec k s"
  "paired E a b sec k (record_event s ev) = paired E a b sec k s"
  by (simp_all add: paired_def record_event_def)

lemma record_event_simps [simp]:
  "ps_role (record_event s ev) = ps_role s" "ps_state (record_event s ev) = ps_state s"
  "ps_processed_ids (record_event s ev) = insert (ev_id ev) (ps_processed_ids s)"
  "ps_created_at (record_event s ev) = ps_created_at s" "ps_timeout (record_event s ev) = ps_timeout s"
  by (simp_all add: record_event_def)

lemma is_expired_update [simp]:
  "is_expired now (s\<lparr>ps_state := st\<rparr>) = is_expired now s" "is_expired now (record_event s ev) = is_expired now s"
  by (simp_all add: is_expired_def record_event_def)

lemma transfer_completes:
  assumes "crates_ok E a b" "travels E b a (Complete True)" "travels E a b (Payload ty p)"
    and s: "paired E a b sec k s" "ps_role s = Source" "ps_state s = Transferring"
    and t: "paired E b a sec k t" "ps_role t = Target" "ps_state t = Transferring"
    and live: "\<not> is_expired n1 s" "\<not> is_expired n2 t" "\<not> is_expired n3 t" "\<not> is_expired n4 s"
  shows "\<exists>s1 sent. send_payload E d1 n1 s ty p = (s1, Inr sent) \<and>
    (ev_id sent \<notin> ps_processed_ids t \<longrightarrow>
      (\<exists>t1 t2 fin. handle_payload E n2 t sent = (t1, Inr (ty, p)) \<and> send_complete E d2 n3 t1 = (t2, Inr fin) \<and>
        ps_state t2 = Completed \<and>
        (ev_id fin \<notin> ps_processed_ids s \<longrightarrow>
          (\<exists>s2. handle_complete E n4 s1 fin = (s2, Inr ()) \<and> ps_state s2 = Completed))))"
proof -
  let ?s1 = "s\<lparr>ps_state := PayloadExchanged\<rparr>"
  obtain sent where sent: "send_payload E d1 n1 s ty p = (?s1, Inr sent)" "carries E a b sent (Payload ty p)"
    by (rule payload_sent [OF assms(1,3) s live(1)])
  let ?t1 = "record_event (t\<lparr>ps_state := PayloadExchanged\<rparr>) sent"
  have t1: "handle_payload E n2 t sent = (?t1, Inr (ty, p))" if "ev_id sent \<notin> ps_processed_ids t"
    by (rule payload_accepted [OF sent(2) t live(2) that])
  obtain fin where fin: "send_complete E d2 n3 ?t1 = (?t1\<lparr>ps_state := Completed\<rparr>, Inr fin)"
      "carries E b a fin (Complete True)"
    by (rule completion_sent [OF assms(1,2), of sec k ?t1 n3 d2]) (use live t in auto)
  have "\<exists>s2. handle_complete E n4 ?s1 fin = (s2, Inr ()) \<and> ps_state s2 = Completed" if "ev_id fin \<notin> ps_processed_ids s"
    using completion_accepted [OF fin(2), of sec k ?s1 n4] live(4) s that by auto
  with sent(1) t1 fin(1) show ?thesis by fastforce
qed

text \<open>The concrete instance keeps all of these promises.\<close>

lemma toy_json_roundtrip: "toy_parse (toy_json m) = Inr m"
proof (cases m)
  case (Offer s v)
  have "split_once CHR ''|'' (replicate (unat v) CHR ''x'' @ CHR ''|'' # s) = Some (replicate (unat v) CHR ''x'', s)"
    by (rule split_once_append) simp
  with Offer show ?thesis by (simp add: toy_parse_def)
next
  case (Payload t s)
  then show ?thesis by (cases t) (simp_all add: toy_parse_def)
next
  case (Abort r)
  then show ?thesis by (cases r) (simp_all add: toy_parse_def)
qed (simp_all add: toy_parse_def)

lemma toy_travels: "length (toy_json m) \<le> 65535 \<Longrightarrow> travels toy_crates a b m"
  by (simp add: travels_def toy_crates_def toy_json_roundtrip)

lemma map2_add_commute: "map2 (+) xs ys = map2 (+) ys (xs :: bytes)"
  by (induction xs ys rule: list_induct2') (simp_all add: add.commute)

definition toy_draw :: draw where
  "toy_draw = \<lparr>dr_nonce = [], dr_now = 1000, dr_jitter = 5, dr_aux = []\<rparr>"

lemma toy_ok: "a \<noteq> b \<Longrightarrow> crates_ok toy_crates a b"
proof -
  assume "a \<noteq> b"
  then have "public_key toy_crates a \<noteq> public_key toy_crates b" by (simp add: toy_crates_def)
  moreover have "signs toy_crates c" for c
    by (auto simp: signs_def toy_crates_def names_key_def mk_tag_def list_ex_iff intro!: filter_True)
  moreover have "key_agreement toy_crates a b"
    using map2_add_commute by (simp add: key_agreement_def toy_crates_def)
  moreover have "travels toy_crates a b (SasConfirm (hex_encode toy_crates x))" if "length x = 32" for x
    using that by (intro toy_travels) (simp add: toy_crates_def)
  moreover have "p_tags toy_crates" by (simp add: p_tags_def toy_crates_def mk_tag_def)
  moreover have "hkdf_length toy_crates" by (auto simp: hkdf_length_def toy_crates_def min_def)
  ultimately show ?thesis by (simp add: crates_ok_def toy_hex)
qed

text \<open>
  C30. Pairing succeeds between two honest devices with different keys: the code shown by the source
  is read back by the target, both show the same six digits, the payload arrives as it was sent and
  both sessions end completed, provided every call happens within the 120 seconds of the session.
  The only way to fail is a collision of event ids: the payload is refused if its id is that of the
  confirmation, and the completion if its id is that of the offer.
\<close>

theorem pairing_completes:
  assumes "crates_ok E a b"
    and "list_all (travels E b a) [Offer (hex_encode E (derive_session_id E sec)) 1, Complete True]"
    and "travels E a b (Payload ty p)"
    and "new_source E t0 a sec url = (src, qr)" and "qr_uri E src = Some uri"
    and "pubkey_text E (public_key E a)" "qr_valid E qr" "percent_codec E url" "length uri \<le> 2048"
    and "t0 \<le> t1" and "list_all (\<lambda>t. t \<le> t0 + DEFAULT_TIMEOUT) [t2, t3, t4, t5, t6, t7, t8, t9]"
  shows "decode_qr E uri = Inr qr \<and>
    (\<exists>tgt offer src1 sas src2 confirm tgt1 tgt2 src3 sent.
      new_target E d1 t1 b qr = Inr (tgt, offer) \<and>
      handle_offer E t2 src offer = (src1, Inr sas) \<and> sas_code tgt = Some sas \<and>
      confirm_sas E d2 t3 src1 = (src2, Inr confirm) \<and>
      handle_sas_confirm E t4 tgt confirm = (tgt1, Inr sas) \<and>
      confirm_target_sas t5 tgt1 = (tgt2, Inr ()) \<and>
      send_payload E d3 t6 src2 ty p = (src3, Inr sent) \<and>
      (ev_id sent \<noteq> ev_id confirm \<longrightarrow>
        (\<exists>tgt3 tgt4 done. handle_payload E t7 tgt2 sent = (tgt3, Inr (ty, p)) \<and>
          send_complete E d4 t8 tgt3 = (tgt4, Inr done) \<and> ps_state tgt4 = Completed \<and>
          (ev_id done \<noteq> ev_id offer \<longrightarrow>
            (\<exists>src4. handle_complete E t9 src3 done = (src4, Inr ()) \<and> ps_state src4 = Completed)))))" (is "_ \<and> ?seq")
proof
  have src: "src = fst (new_source E t0 a sec url)" "qr = snd (new_source E t0 a sec url)" using assms(4) by simp_all
  have uri: "uri = encode_qr E qr" using assms(4,5) by (auto simp: qr_uri_def new_source_def Let_def)
  show "decode_qr E uri = Inr qr" unfolding uri
    using assms(1,6-9) uri src by (intro decode_encode) (auto simp: crates_ok_def new_source_def Let_def)
next
  obtain k where k: "generate_shared_key E a (public_key E b) = Inr k" "generate_shared_key E b (public_key E a) = Inr k"
    using assms(1) by (auto simp: crates_ok_def key_agreement_def)
  have trav: "travels E b a (Offer (hex_encode E (derive_session_id E sec)) 1)" "travels E b a (Complete True)"
    using assms(2) by simp_all
  have src: "ps_role src = Source" "ps_state src = Waiting" "ps_keys src = a" "ps_session_secret src = sec"
    "ps_session_id src = derive_session_id E sec" "ps_processed_ids src = {}" "ps_created_at src = t0"
    "ps_timeout src = DEFAULT_TIMEOUT"
    using assms(4) by (auto simp: new_source_def Let_def)
  have live: "\<not> is_expired t s" if "t \<in> {t2, t3, t4, t5, t6, t7, t8, t9}" "t0 \<le> ps_created_at s"
      "ps_timeout s = DEFAULT_TIMEOUT" for t s
    using that assms(11) by (intro not_expired) auto
  obtain tgt offer where tgt: "new_target E d1 t1 b qr = Inr (tgt, offer)"
      "carries E b a offer (Offer (hex_encode E (derive_session_id E sec)) 1)" "paired E b a sec k tgt"
      "ps_role tgt = Target" "ps_state tgt = Confirming" "ps_processed_ids tgt = {}" "ps_created_at tgt = t1"
      "ps_timeout tgt = DEFAULT_TIMEOUT"
    by (rule target_joins [OF assms(1) k(2) trav(1) assms(4)])
  obtain src1 where src1: "handle_offer E t2 src offer = (src1, Inr (format_sas (fst (derive_sas E k sec))))"
      "paired E a b sec k src1" "ps_role src1 = Source" "ps_state src1 = Confirming"
      "ps_processed_ids src1 = {ev_id offer}" "ps_created_at src1 = t0" "ps_timeout src1 = DEFAULT_TIMEOUT"
    using offer_accepted [OF tgt(2) assms(1) k(1) src(1-6)] live src by (metis insertI1 order_refl)
  obtain confirm where confirm: "confirm_sas E d2 t3 src1 = (src1\<lparr>ps_state := Transferring\<rparr>, Inr confirm)"
      "carries E a b confirm (SasConfirm (hex_encode E (transcript E a b sec k)))"
    by (rule sas_confirmed [OF assms(1) src1(2-4), of t3 d2]) (use live src1 in auto)
  let ?tgt1 = "record_event (tgt\<lparr>ps_state := AwaitingConfirmation\<rparr>) confirm"
  have tgt1: "handle_sas_confirm E t4 tgt confirm = (?tgt1, Inr (format_sas (fst (derive_sas E k sec))))"
    using live tgt assms(10) by (intro confirmation_accepted [OF assms(1) confirm(2) tgt(3-5)]) auto
  let ?tgt2 = "?tgt1\<lparr>ps_state := Transferring\<rparr>" and ?src2 = "src1\<lparr>ps_state := Transferring\<rparr>"
  have tgt2: "confirm_target_sas t5 ?tgt1 = (?tgt2, Inr ())"
    using live [of t5 ?tgt1] tgt assms(10) by (simp add: confirm_target_sas_def run_simps)
  have rest: "\<exists>s1 sent. send_payload E d3 t6 ?src2 ty p = (s1, Inr sent) \<and>
      (ev_id sent \<noteq> ev_id confirm \<longrightarrow>
        (\<exists>t1 t2 fin. handle_payload E t7 ?tgt2 sent = (t1, Inr (ty, p)) \<and> send_complete E d4 t8 t1 = (t2, Inr fin) \<and>
          ps_state t2 = Completed \<and>
          (ev_id fin \<noteq> ev_id offer \<longrightarrow>
            (\<exists>s2. handle_complete E t9 s1 fin = (s2, Inr ()) \<and> ps_state s2 = Completed))))"
    using transfer_completes [OF assms(1) trav(2) assms(3), of sec k ?src2 ?tgt2 t6 t7 t8 t9 d3 d4]
      live [of _ ?src2] live [of _ ?tgt2] src1 tgt assms(10) by simp
  have "sas_code tgt = Some (format_sas (fst (derive_sas E k sec)))" using tgt(3) by (simp add: sas_code_def paired_def)
  with tgt(1) src1(1) confirm(1) tgt1 tgt2 rest show ?seq by metis
qed

text \<open>In the concrete instance the id of an event is its content, so messages of two kinds never collide.\<close>

lemma toy_built: "build_event toy_crates d s m = Inr ev \<Longrightarrow> ev_id ev = replicate 132 CHR ''0'' @ toy_json m"
  by (auto simp: build_event_def toy_crates_def map_err_def Let_def split: sum.splits)

lemma toy_ids:
  "new_target toy_crates d now b qr = Inr (t, ev) \<Longrightarrow> \<exists>x. ev_id ev = replicate 132 CHR ''0'' @ CHR ''o'' # x"
  "confirm_sas toy_crates d now s = (s', Inr ev) \<Longrightarrow> \<exists>h. ev_id ev = replicate 132 CHR ''0'' @ toy_json (SasConfirm h)"
  "send_payload toy_crates d now s ty p = (s', Inr ev) \<Longrightarrow> ev_id ev = replicate 132 CHR ''0'' @ toy_json (Payload ty p)"
  "send_complete toy_crates d now s = (s', Inr ev) \<Longrightarrow> ev_id ev = replicate 132 CHR ''0'' @ toy_json (Complete True)"
  by (auto simp: new_target_def confirm_sas_def send_payload_def send_complete_def Let_def
      elim!: attemptE dest!: toy_built split: sum.splits option.splits prod.splits list.splits if_splits)

lemma toy_keys_differ: "replicate 64 CHR ''a'' \<noteq> replicate 64 CHR ''b''"
  by (simp add: replicate_eq_replicate)

theorem pairing_completes_witness:
  "\<exists>src qr uri tgt offer src1 sas src2 confirm tgt1 tgt2 src3 sent tgt3 tgt4 fin src4.
     new_source toy_crates 0 (replicate 64 CHR ''a'') (replicate 32 7) ''wss://relay.example'' = (src, qr) \<and>
     qr_uri toy_crates src = Some uri \<and> decode_qr toy_crates uri = Inr qr \<and>
     new_target toy_crates toy_draw 0 (replicate 64 CHR ''b'') qr = Inr (tgt, offer) \<and>
     handle_offer toy_crates 0 src offer = (src1, Inr sas) \<and> sas_code tgt = Some sas \<and>
     confirm_sas toy_crates toy_draw 0 src1 = (src2, Inr confirm) \<and>
     handle_sas_confirm toy_crates 0 tgt confirm = (tgt1, Inr sas) \<and> confirm_target_sas 0 tgt1 = (tgt2, Inr ()) \<and>
     send_payload toy_crates toy_draw 0 src2 Nsec ''nsec1'' = (src3, Inr sent) \<and>
     handle_payload toy_crates 0 tgt2 sent = (tgt3, Inr (Nsec, ''nsec1'')) \<and>
     send_complete toy_crates toy_draw 0 tgt3 = (tgt4, Inr fin) \<and> ps_state tgt4 = Completed \<and>
     handle_complete toy_crates 0 src3 fin = (src4, Inr ()) \<and> ps_state src4 = Completed"
proof -
  let ?E = toy_crates and ?a = "replicate 64 CHR ''a''" and ?b = "replicate 64 CHR ''b''"
    and ?sec = "replicate 32 7 :: bytes" and ?url = "''wss://relay.example''"
  obtain src qr where n: "new_source ?E 0 ?a ?sec ?url = (src, qr)" by fastforce
  have pk: "public_key ?E ?a = ?a" by (simp add: toy_crates_def)
  have qr: "qr = toy_qr" using n by (auto simp: new_source_def toy_qr_def Let_def pk)
  have uri: "qr_uri ?E src = Some (encode_qr ?E toy_qr)"
    using n by (auto simp: qr_uri_def new_source_def toy_qr_def Let_def pk)
  note ok = toy_ok [OF toy_keys_differ]
  have "length (derive_session_id ?E ?sec) = 32"
    using ok by (simp add: derive_session_id_def hkdf32_length crates_ok_def)
  then have tr: "list_all (travels ?E ?b ?a) [Offer (hex_encode ?E (derive_session_id ?E ?sec)) 1, Complete True]"
    using toy_hex [of "derive_session_id ?E ?sec"] by (simp add: toy_travels hex_codec_def)
  have "travels ?E ?a ?b (Payload Nsec ''nsec1'')" by (simp add: toy_travels)
  note run = pairing_completes [OF ok tr this n uri, of 0 0 0 0 0 0 0 0 0 toy_draw toy_draw toy_draw toy_draw]
  have "pubkey_text ?E (public_key ?E ?a)" "qr_valid ?E qr" "length (encode_qr ?E toy_qr) \<le> 2048"
    using toy_qr_ok by (simp_all add: qr pk) (simp add: toy_qr_def)
  note run = run [OF this(1,2) toy_percent this(3) order_refl]
  have "list_all (\<lambda>t. t \<le> 0 + DEFAULT_TIMEOUT) [0, 0, 0, 0, 0, 0, 0, 0]" by simp
  from run [OF this] obtain tgt offer src1 sas src2 confirm tgt1 tgt2 src3 sent
    where r: "decode_qr ?E (encode_qr ?E toy_qr) = Inr qr" "new_target ?E toy_draw 0 ?b qr = Inr (tgt, offer)"
      "handle_offer ?E 0 src offer = (src1, Inr sas)" "sas_code tgt = Some sas"
      "confirm_sas ?E toy_draw 0 src1 = (src2, Inr confirm)" "handle_sas_confirm ?E 0 tgt confirm = (tgt1, Inr sas)"
      "confirm_target_sas 0 tgt1 = (tgt2, Inr ())" "send_payload ?E toy_draw 0 src2 Nsec ''nsec1'' = (src3, Inr sent)"
    and rest: "ev_id sent \<noteq> ev_id confirm \<longrightarrow>
        (\<exists>tgt3 tgt4 fin. handle_payload ?E 0 tgt2 sent = (tgt3, Inr (Nsec, ''nsec1'')) \<and>
          send_complete ?E toy_draw 0 tgt3 = (tgt4, Inr fin) \<and> ps_state tgt4 = Completed \<and>
          (ev_id fin \<noteq> ev_id offer \<longrightarrow> (\<exists>src4. handle_complete ?E 0 src3 fin = (src4, Inr ()) \<and> ps_state src4 = Completed)))"
    by blast
  have "ev_id sent \<noteq> ev_id confirm" using toy_ids(2) [OF r(5)] toy_ids(3) [OF r(8)] by auto
  with rest obtain tgt3 tgt4 fin where f: "handle_payload ?E 0 tgt2 sent = (tgt3, Inr (Nsec, ''nsec1''))"
      "send_complete ?E toy_draw 0 tgt3 = (tgt4, Inr fin)" "ps_state tgt4 = Completed"
    and g: "ev_id fin \<noteq> ev_id offer \<longrightarrow> (\<exists>src4. handle_complete ?E 0 src3 fin = (src4, Inr ()) \<and> ps_state src4 = Completed)"
    by blast
  have "ev_id fin \<noteq> ev_id offer" using toy_ids(1) [OF r(2)] toy_ids(4) [OF f(2)] by auto
  with g obtain src4 where "handle_complete ?E 0 src3 fin = (src4, Inr ())" "ps_state src4 = Completed" by blast
  with n uri r f show ?thesis by blast
qed

subsection \<open>Order, replay and expiry\<close>

text \<open>The calls that move a payload, and those that precede them from each state.\<close>

fun moves_payload :: "session_op \<Rightarrow> bool" where
  "moves_payload (HandlePayload _) = True"
| "moves_payload (SendPayload _ _ _) = True"
| "moves_payload (HandleReturnPayload _) = True"
| "moves_payload _ = False"

definition before_payload :: "Role \<Rightarrow> SessionState \<Rightarrow> session_op list \<Rightarrow> bool" where
  "before_payload r st pre \<longleftrightarrow>
     (case r of
        Target \<Rightarrow> st = Transferring \<and> pre = [] \<or> st = AwaitingConfirmation \<and> pre = [ConfirmTargetSas] \<or>
          st = Confirming \<and> (\<exists>e. pre = [HandleSasConfirm e, ConfirmTargetSas])
      | Source \<Rightarrow> st = Transferring \<and> pre = [] \<or> st = Confirming \<and> (\<exists>d. pre = [ConfirmSas d]) \<or>
          st = Waiting \<and> (\<exists>e d. pre = [HandleOffer e, ConfirmSas d]))"

lemma follow_no_payload:
  "follow r st log \<noteq> None \<Longrightarrow> st \<in> {PayloadExchanged, Completed, Aborted} \<Longrightarrow> c \<in> set log \<Longrightarrow> \<not> moves_payload c"
proof (induction log arbitrary: st)
  case (Cons x log)
  then obtain st1 where st1: "next_state r st x = Some st1" "follow r st1 log \<noteq> None" by (auto split: option.splits)
  then have "st1 \<in> {PayloadExchanged, Completed, Aborted} \<and> \<not> moves_payload x"
    using Cons.prems(2) by (cases x) (auto simp: next_simps split: if_splits)
  with Cons.IH [OF st1(2)] Cons.prems(3) show ?case by auto
qed simp

text \<open>On a path of the automaton the calls before a payload are fixed, and no other payload follows.\<close>

lemma follow_payload:
  assumes "follow r st log \<noteq> None" and "c \<in> set log" and "moves_payload c"
  shows "\<exists>pre rest. log = pre @ c # rest \<and> before_payload r st pre \<and> list_all (\<lambda>x. \<not> moves_payload x) rest"
  using assms
proof (induction log arbitrary: st)
  case (Cons x log)
  then obtain st1 where st1: "next_state r st x = Some st1" "follow r st1 log \<noteq> None" by (auto split: option.splits)
  show ?case
  proof (cases "moves_payload x")
    case True
    then have ex: "st = Transferring" "st1 = PayloadExchanged"
      using st1(1) by (cases x; simp add: next_simps split: if_splits)+
    then have "list_all (\<lambda>y. \<not> moves_payload y) log" and "c \<notin> set log"
      using follow_no_payload [OF st1(2)] Cons.prems(3) by (auto simp: list_all_iff)
    with Cons.prems(2) ex(1) show ?thesis
      by (intro exI [of _ "[]"] exI [of _ log]) (auto simp: before_payload_def split: Role.split)
  next
    case False
    with Cons.prems(2,3) have "c \<in> set log" by auto
    from Cons.IH [OF st1(2) this Cons.prems(3)] obtain pre rest where
      p: "log = pre @ c # rest" "before_payload r st1 pre" "list_all (\<lambda>y. \<not> moves_payload y) rest" by blast
    have "before_payload r st (x # pre)"
      using False st1(1) p(2) by (cases x) (auto simp: next_simps before_payload_def split: if_splits Role.splits)
    with p(1,3) show ?thesis by (intro exI [of _ "x # pre"] exI [of _ rest]) simp
  qed
qed simp

lemma follow_role:
  assumes "follow r st log \<noteq> None" and "c \<in> set log" and "moves_payload c"
  shows "case r of Target \<Rightarrow> (\<exists>ev. c = HandlePayload ev)
    | Source \<Rightarrow> (\<exists>d ty p. c = SendPayload d ty p) \<or> (\<exists>ev. c = HandleReturnPayload ev)"
proof -
  have "\<exists>st1 st2. next_state r st1 c = Some st2"
    using assms(1,2) by (induction log arbitrary: st) (auto split: option.splits)
  with assms(3) show ?thesis by (cases c) (auto simp: next_simps split: if_splits)
qed

lemma fresh_state:
  "fresh_session E s \<Longrightarrow> (ps_role s = Source \<and> ps_state s = Waiting \<or> ps_role s = Target \<and> ps_state s = Confirming) \<and>
     ps_processed_ids s = {}"
  unfolding fresh_session_def
  by (elim disjE exE) (auto simp: new_source_def Let_def elim!: new_target_Inr)

text \<open>A session to run, and the first calls of an honest run in it.\<close>

definition toy_source :: PairingSession where
  "toy_source = fst (new_source toy_crates 0 (replicate 64 CHR ''a'') (replicate 32 7) ''wss://relay.example'')"

lemma toy_source_fresh: "fresh_session toy_crates toy_source"
  unfolding fresh_session_def toy_source_def by blast

definition toy_secret :: bytes where "toy_secret = replicate 32 7"

definition toy_a :: hex where "toy_a = replicate 64 CHR ''a''"

definition toy_b :: hex where "toy_b = replicate 64 CHR ''b''"

lemma toy_source_unfold:
  "new_source toy_crates 0 toy_a toy_secret ''wss://relay.example'' = (toy_source, toy_qr)"
  by (simp add: toy_source_def toy_a_def toy_secret_def new_source_def toy_qr_def toy_crates_def Let_def)

lemma toy_live: "ps_created_at s = 0 \<Longrightarrow> \<not> is_expired 0 s"
  by (simp add: is_expired_def)

lemma toy_handshake:
  obtains k tgt offer src1 confirm sent where "new_target toy_crates toy_draw 0 toy_b toy_qr = Inr (tgt, offer)"
    and "handle_offer toy_crates 0 toy_source offer = (src1, Inr (format_sas (fst (derive_sas toy_crates k toy_secret))))"
    and "confirm_sas toy_crates toy_draw 0 src1 = (src1\<lparr>ps_state := Transferring\<rparr>, Inr confirm)"
    and "handle_sas_confirm toy_crates 0 tgt confirm = (record_event (tgt\<lparr>ps_state := AwaitingConfirmation\<rparr>) confirm,
           Inr (format_sas (fst (derive_sas toy_crates k toy_secret))))"
    and "send_payload toy_crates toy_draw 0 (src1\<lparr>ps_state := Transferring\<rparr>) Nsec ''nsec1'' =
           (src1\<lparr>ps_state := Transferring, ps_state := PayloadExchanged\<rparr>, Inr sent)"
    and "paired toy_crates toy_a toy_b toy_secret k src1" and "paired toy_crates toy_b toy_a toy_secret k tgt"
    and "ps_role src1 = Source" "ps_role tgt = Target"
    and "carries toy_crates toy_a toy_b confirm
           (SasConfirm (hex_encode toy_crates (transcript toy_crates toy_a toy_b toy_secret k)))"
proof -
  let ?E = toy_crates
  have ok: "crates_ok ?E toy_a toy_b" using toy_keys_differ by (intro toy_ok) (simp add: toy_a_def toy_b_def)
  obtain k where k: "generate_shared_key ?E toy_a (public_key ?E toy_b) = Inr k"
      "generate_shared_key ?E toy_b (public_key ?E toy_a) = Inr k"
    using ok by (auto simp: crates_ok_def key_agreement_def)
  have "length (derive_session_id ?E toy_secret) = 32"
    using ok by (simp add: derive_session_id_def hkdf32_length crates_ok_def)
  then have tr: "travels ?E toy_b toy_a (Offer (hex_encode ?E (derive_session_id ?E toy_secret)) 1)"
    using toy_hex [of "derive_session_id ?E toy_secret"] by (simp add: toy_travels hex_codec_def)
  have pl: "travels ?E toy_a toy_b (Payload Nsec ''nsec1'')" by (simp add: toy_travels)
  have src: "ps_role toy_source = Source" "ps_state toy_source = Waiting" "ps_keys toy_source = toy_a"
    "ps_session_secret toy_source = toy_secret" "ps_session_id toy_source = derive_session_id ?E toy_secret"
    "ps_processed_ids toy_source = {}" "ps_created_at toy_source = 0"
    by (simp_all add: toy_source_def new_source_def toy_a_def toy_secret_def Let_def)
  obtain tgt offer where tgt: "new_target ?E toy_draw 0 toy_b toy_qr = Inr (tgt, offer)"
      "carries ?E toy_b toy_a offer (Offer (hex_encode ?E (derive_session_id ?E toy_secret)) 1)"
      "paired ?E toy_b toy_a toy_secret k tgt" "ps_role tgt = Target" "ps_state tgt = Confirming"
      "ps_processed_ids tgt = {}" "ps_created_at tgt = 0"
    by (rule target_joins [OF ok k(2) tr toy_source_unfold])
  obtain src1 where src1: "handle_offer ?E 0 toy_source offer = (src1, Inr (format_sas (fst (derive_sas ?E k toy_secret))))"
      "paired ?E toy_a toy_b toy_secret k src1" "ps_role src1 = Source" "ps_state src1 = Confirming" "ps_created_at src1 = 0"
    using offer_accepted [OF tgt(2) ok k(1) src(1-6) toy_live [OF src(7)]] src(7) by metis
  obtain confirm where confirm: "confirm_sas ?E toy_draw 0 src1 = (src1\<lparr>ps_state := Transferring\<rparr>, Inr confirm)"
      "carries ?E toy_a toy_b confirm (SasConfirm (hex_encode ?E (transcript ?E toy_a toy_b toy_secret k)))"
    by (rule sas_confirmed [OF ok src1(2-4) toy_live [OF src1(5)]])
  have t1: "handle_sas_confirm ?E 0 tgt confirm = (record_event (tgt\<lparr>ps_state := AwaitingConfirmation\<rparr>) confirm,
      Inr (format_sas (fst (derive_sas ?E k toy_secret))))"
    using tgt by (intro confirmation_accepted [OF ok confirm(2) tgt(3-5) toy_live]) auto
  obtain sent where "send_payload ?E toy_draw 0 (src1\<lparr>ps_state := Transferring\<rparr>) Nsec ''nsec1'' =
      (src1\<lparr>ps_state := Transferring, ps_state := PayloadExchanged\<rparr>, Inr sent)"
    by (rule payload_sent [OF ok pl, of toy_secret k "src1\<lparr>ps_state := Transferring\<rparr>" 0 toy_draw])
       (use src1 toy_live in auto)
  from that [OF tgt(1) src1(1) confirm(1) t1 this src1(2) tgt(3) src1(3) tgt(4) confirm(2)] show thesis .
qed

text \<open>
  C33. Every session follows the protocol: whatever calls are made and whatever events arrive, the
  calls that succeed are a path of the protocol automaton of the role, and the session ends where
  the path ends unless it was aborted.
\<close>

theorem session_follows_protocol:
  assumes "fresh_session E s" and "run_ops E cs s = (s', log)"
  shows "\<exists>st. follow (ps_role s) (ps_state s) log = Some st \<and> ps_state s' \<in> {st, Aborted}"
  using run_follows [OF fresh_inv [OF assms(1)] assms(2)] by blast

theorem session_follows_protocol_witness:
  "\<exists>s' log st. run_ops toy_crates [(0, AbortOp toy_draw UserDenied)] toy_source = (s', log) \<and>
     follow (ps_role toy_source) (ps_state toy_source) log = Some st \<and> ps_state s' \<in> {st, Aborted}"
proof -
  obtain s' log where r: "run_ops toy_crates [(0, AbortOp toy_draw UserDenied)] toy_source = (s', log)" by fastforce
  from session_follows_protocol [OF toy_source_fresh r] r show ?thesis by blast
qed

text \<open>
  C31. The secret moves only after its own user agreed, and once: when a call of a target moves a
  payload, the target first accepted the confirmation of the source and then its user approved the
  digits; when a call of a source sends a payload or takes one back, the source first accepted an
  offer and then its user approved the digits. These are the first calls of the session that
  succeeded, and none that succeeds later moves a payload again.
\<close>

theorem payload_after_confirmation:
  assumes "fresh_session E s" and "run_ops E cs s = (s', log)" and "c \<in> set log" and "moves_payload c"
  shows "\<exists>first rest. log = first @ c # rest \<and> list_all (\<lambda>x. \<not> moves_payload x) rest \<and>
    (case ps_role s of
       Target \<Rightarrow> (\<exists>e ev. first = [HandleSasConfirm e, ConfirmTargetSas] \<and> c = HandlePayload ev)
     | Source \<Rightarrow> (\<exists>e d. first = [HandleOffer e, ConfirmSas d]) \<and>
         ((\<exists>d ty p. c = SendPayload d ty p) \<or> (\<exists>ev. c = HandleReturnPayload ev)))"
proof -
  obtain st where f: "follow (ps_role s) (ps_state s) log = Some st"
    using run_follows [OF fresh_inv [OF assms(1)] assms(2)] by blast
  then obtain first rest where p: "log = first @ c # rest" "before_payload (ps_role s) (ps_state s) first"
      "list_all (\<lambda>x. \<not> moves_payload x) rest"
    using follow_payload [OF _ assms(3,4)] by blast
  have role: "case ps_role s of Target \<Rightarrow> (\<exists>ev. c = HandlePayload ev)
     | Source \<Rightarrow> (\<exists>d ty p. c = SendPayload d ty p) \<or> (\<exists>ev. c = HandleReturnPayload ev)"
    using follow_role [OF _ assms(3,4), of "ps_role s" "ps_state s"] f by simp
  from fresh_state [OF assms(1)] show ?thesis
    using p role by (intro exI [of _ first] exI [of _ rest]) (auto simp: before_payload_def)
qed

theorem payload_after_confirmation_witness:
  "\<exists>cs s' log. run_ops toy_crates cs toy_source = (s', log) \<and> SendPayload toy_draw Nsec ''nsec1'' \<in> set log \<and>
     (\<exists>e d rest. log = [HandleOffer e, ConfirmSas d] @ SendPayload toy_draw Nsec ''nsec1'' # rest \<and>
       list_all (\<lambda>x. \<not> moves_payload x) rest)"
proof -
  obtain k tgt offer src1 confirm sent where h:
      "handle_offer toy_crates 0 toy_source offer = (src1, Inr (format_sas (fst (derive_sas toy_crates k toy_secret))))"
      "confirm_sas toy_crates toy_draw 0 src1 = (src1\<lparr>ps_state := Transferring\<rparr>, Inr confirm)"
      "send_payload toy_crates toy_draw 0 (src1\<lparr>ps_state := Transferring\<rparr>) Nsec ''nsec1'' =
         (src1\<lparr>ps_state := Transferring, ps_state := PayloadExchanged\<rparr>, Inr sent)"
    by (rule toy_handshake)
  have r: "run_ops toy_crates [(0, HandleOffer offer), (0, ConfirmSas toy_draw), (0, SendPayload toy_draw Nsec ''nsec1'')] toy_source =
      (src1\<lparr>ps_state := Transferring, ps_state := PayloadExchanged\<rparr>,
       [HandleOffer offer, ConfirmSas toy_draw, SendPayload toy_draw Nsec ''nsec1''])"
    using h by (simp add: outcome_def)
  have "ps_role toy_source = Source" by (simp add: toy_source_def new_source_def Let_def)
  with payload_after_confirmation [OF toy_source_fresh r, of "SendPayload toy_draw Nsec ''nsec1''"] r
  show ?thesis by fastforce
qed

text \<open>
  C34. No event is acted upon twice and no stranger is heard: the events a session accepted have
  pairwise different ids and all come from the one key it is paired with.
\<close>

theorem events_once_from_peer:
  assumes "fresh_session E s" and "run_ops E cs s = (s', log)"
  shows "distinct (map ev_id (events log)) \<and> set (map (Some \<circ> ev_pubkey) (events log)) \<subseteq> {ps_peer_pubkey s'}"
  using run_events [OF fresh_inv [OF assms(1)] assms(2)] by (auto simp: list_all_iff from_peer_def)

theorem events_once_from_peer_witness:
  "\<exists>cs s' log. run_ops toy_crates cs toy_source = (s', log) \<and> events log \<noteq> [] \<and>
     distinct (map ev_id (events log)) \<and> set (map (Some \<circ> ev_pubkey) (events log)) \<subseteq> {ps_peer_pubkey s'}"
proof -
  obtain k tgt offer src1 where
      "handle_offer toy_crates 0 toy_source offer = (src1, Inr (format_sas (fst (derive_sas toy_crates k toy_secret))))"
    by (rule toy_handshake)
  then have r: "run_ops toy_crates [(0, HandleOffer offer)] toy_source = (src1, [HandleOffer offer])"
    by (simp add: outcome_def)
  from events_once_from_peer [OF toy_source_fresh r] r show ?thesis by fastforce
qed

text \<open>
  A session that has completed, was aborted or has expired transfers nothing more: every call
  fails and changes nothing, except that an expired session can still be aborted.
\<close>

theorem dead_session_inert:
  assumes "session_inv s" and "terminal (ps_state s) \<or> is_expired now s"
  shows "if terminal (ps_state s) \<or> c \<notin> range (case_prod AbortOp) \<union> range HandleAbort
    then exec_op E now c s = (s, False) else ps_state (fst (exec_op E now c s)) \<in> {ps_state s, Aborted}"
proof -
  obtain s' ok where e: "exec_op E now c s = (s', ok)" by fastforce
  have "session_step E now s c s' ok" by (rule exec_step [OF assms(1) e])
  then show ?thesis unfolding e using assms(2) by cases (auto simp: next_terminal image_iff)
qed

theorem dead_session_inert_witness: "exec_op toy_crates (121 * 10 ^ 9) (ConfirmSas toy_draw) toy_source = (toy_source, False)"
proof -
  have "is_expired (121 * 10 ^ 9) toy_source"
    by (simp add: is_expired_def toy_source_def new_source_def DEFAULT_TIMEOUT_def Let_def)
  with dead_session_inert [OF fresh_inv [OF toy_source_fresh], of "121 * 10 ^ 9" "ConfirmSas toy_draw" toy_crates]
  show ?thesis by (auto split: if_splits)
qed

subsection \<open>The transcript\<close>

text \<open>The four parts of the transcript as one side sees them, the source first, and their hash.\<close>

definition transcript_of :: "crates \<Rightarrow> PairingSession \<Rightarrow> (bytes \<times> bytes \<times> bytes \<times> bytes) option" where
  "transcript_of E s =
     (case (ps_peer_pubkey s, ps_sas_input s) of
        (Some peer, Some inp) \<Rightarrow>
          let mine = pk_to_bytes E (public_key E (ps_keys s)); theirs = pk_to_bytes E peer
          in Some (ps_session_id s, if ps_role s = Source then mine else theirs,
                   if ps_role s = Source then theirs else mine, inp)
      | _ \<Rightarrow> None)"

definition hash_of :: "crates \<Rightarrow> PairingSession \<Rightarrow> bytes option" where
  "hash_of E s = map_option (\<lambda>(x, a, b, i). derive_transcript_hash E x a b i (ps_session_secret s)) (transcript_of E s)"

text \<open>The bytes that are hashed, and the promise that those of two sessions do not collide.\<close>

definition transcript_bytes :: "crates \<Rightarrow> PairingSession \<Rightarrow> bytes" where
  "transcript_bytes E s = (case transcript_of E s of None \<Rightarrow> [] | Some (x, a, b, i) \<Rightarrow> x @ a @ b @ i)"

definition no_collision :: "crates \<Rightarrow> PairingSession \<Rightarrow> PairingSession \<Rightarrow> bool" where
  "no_collision E s t \<longleftrightarrow>
     (hkdf32 E (ps_session_secret s) (transcript_bytes E s) INFO_TRANSCRIPT =
      hkdf32 E (ps_session_secret t) (transcript_bytes E t) INFO_TRANSCRIPT \<longrightarrow>
      transcript_bytes E s = transcript_bytes E t)"

definition key_bytes :: "crates \<Rightarrow> PairingSession \<Rightarrow> bool" where
  "key_bytes E s \<longleftrightarrow> length (pk_to_bytes E (public_key E (ps_keys s))) = 32 \<and>
     (\<forall>pk. ps_peer_pubkey s = Some pk \<longrightarrow> length (pk_to_bytes E pk) = 32)"

text \<open>What is derived stays consistent in every session.\<close>

definition derived :: "crates \<Rightarrow> PairingSession \<Rightarrow> bool" where
  "derived E s \<longleftrightarrow> length (ps_session_id s) = 32 \<and>
     (\<forall>i. ps_sas_input s = Some i \<longrightarrow> length i = 32 \<and>
        ps_sas_code s = Some (from_be_bytes (i ! 0) (i ! 1) (i ! 2) (i ! 3) mod 1000000))"

lemma derive_sas_parts:
  "hkdf_length E \<Longrightarrow> derive_sas E k sec = (code, i) \<Longrightarrow> length i = 32 \<and>
     code = from_be_bytes (i ! 0) (i ! 1) (i ! 2) (i ! 3) mod 1000000"
  by (auto simp: derive_sas_def Let_def hkdf32_length)

lemma fresh_derived: "hkdf_length E \<Longrightarrow> fresh_session E s \<Longrightarrow> derived E s"
  unfolding fresh_session_def
  by (elim disjE exE) (auto simp: derived_def new_source_def Let_def derive_session_id_def derive_sas_def hkdf32_length
      elim!: new_target_Inr)

lemma step_derived: "hkdf_length E \<Longrightarrow> session_step E now s c s' ok \<Longrightarrow> derived E s \<Longrightarrow> derived E s'"
  by (erule session_stepE) (auto simp: derived_def record_event_def dest: derive_sas_parts)

lemma run_derived:
  "hkdf_length E \<Longrightarrow> session_inv s \<Longrightarrow> derived E s \<Longrightarrow> run_ops E cs s = (s', log) \<Longrightarrow> derived E s'"
proof (induction cs arbitrary: s log)
  case (Cons a cs)
  obtain now c where a: "a = (now, c)" by (cases a)
  obtain s1 ok log1 where e: "exec_op E now c s = (s1, ok)" "run_ops E cs s1 = (s', log1)"
    using run_Cons [OF Cons.prems(4) [unfolded a]] by metis
  have st: "session_step E now s c s1 ok" by (rule exec_step [OF Cons.prems(2) e(1)])
  show ?case
    by (rule Cons.IH [OF Cons.prems(1) step_inv [OF st Cons.prems(2)] step_derived [OF Cons.prems(1) st Cons.prems(3)] e(2)])
qed simp

lemma confirm_sas_hash:
  assumes "confirm_sas E d now s = (s', Inr ev)"
  obtains h where "hash_of E s = Some h" and "build_event E d s (SasConfirm (hex_encode E h)) = Inr ev"
  using assms unfolding confirm_sas_def
  by (auto elim!: attemptE simp: guards_ok ok_or_Inr hash_of_def transcript_of_def Let_def)

lemma sas_confirm_hash:
  assumes "handle_sas_confirm E now t ev = (t', Inr sas)" and "decrypt_message E t ev = Inr (SasConfirm h)"
  shows "ps_role t = Target" and "hash_of E t \<noteq> None" and "decode_32 E h = hash_of E t" and "sas_code t = Some sas"
  using assms unfolding handle_sas_confirm_def
  by (auto elim!: attemptE simp: guards_ok ok_or_Inr hash_of_def transcript_of_def sas_code_def record_event_def Let_def
      split: if_splits option.splits)

lemma hash_bytes: "hash_of E s = Some h \<Longrightarrow> h = hkdf32 E (ps_session_secret s) (transcript_bytes E s) INFO_TRANSCRIPT"
  by (auto simp: hash_of_def transcript_bytes_def derive_transcript_hash_def Let_def)

lemma transcript_bytes_inj:
  assumes "key_bytes E s" "key_bytes E t" "derived E s" "derived E t" "transcript_of E s = Some x" "transcript_of E t = Some y"
    and "transcript_bytes E s = transcript_bytes E t"
  shows "x = y"
  using assms
  by (auto simp: transcript_bytes_def transcript_of_def key_bytes_def derived_def Let_def split: option.splits if_splits)

text \<open>
  C32. An accepted confirmation binds both sides: if a target accepts what a source published as its
  confirmation, and the two transcripts do not collide under HKDF, then both hold the same session
  id, the same two keys in the same order and the same secret material, and both display the same
  digits.
\<close>

theorem confirmation_binds:
  assumes "hkdf_length E" "\<forall>x. hex_codec E x" "key_bytes E s" "key_bytes E t" "no_collision E s t"
    and "fresh_session E s0" "run_ops E cs s0 = (s, slog)" "fresh_session E t0" "run_ops E ct t0 = (t, tlog)"
    and "confirm_sas E d now s = (s', Inr ev)"
    and "\<And>m. build_event E d s m = Inr ev \<Longrightarrow> decrypt_message E t ev = Inr m"
    and "handle_sas_confirm E now' t ev = (t', Inr sas)"
  shows "transcript_of E s = transcript_of E t \<and> sas_code s = Some sas \<and> sas_code t = Some sas"
proof -
  obtain h where h: "hash_of E s = Some h" "build_event E d s (SasConfirm (hex_encode E h)) = Inr ev"
    by (rule confirm_sas_hash [OF assms(10)])
  note t = sas_confirm_hash [OF assms(12) assms(11) [OF h(2)]]
  have derived: "derived E s" "derived E t"
    using run_derived [OF assms(1) fresh_inv fresh_derived [OF assms(1)]] assms(6-9) by blast+
  have "length h = 32" using hash_bytes [OF h(1)] assms(1) by (simp add: hkdf32_length)
  then have "decode_32 E (hex_encode E h) = Some h" using assms(2) decode_32_encode by blast
  then have "hash_of E t = Some h" using t(3) by simp
  then have "transcript_bytes E s = transcript_bytes E t"
    using assms(5) hash_bytes h(1) unfolding no_collision_def by metis
  moreover obtain x y where xy: "transcript_of E s = Some x" "transcript_of E t = Some y"
    using h(1) \<open>hash_of E t = Some h\<close> by (auto simp: hash_of_def)
  ultimately have "x = y" by (intro transcript_bytes_inj [OF assms(3,4) derived xy])
  then have "ps_sas_input s = ps_sas_input t"
    using xy by (auto simp: transcript_of_def Let_def split: option.splits)
  moreover obtain i where "ps_sas_input t = Some i" using xy(2) by (auto simp: transcript_of_def split: option.splits)
  ultimately have "sas_code s = sas_code t" using derived by (simp add: derived_def sas_code_def)
  with xy \<open>x = y\<close> t(4) show ?thesis by simp
qed

lemma toy_reads:
  assumes "build_event toy_crates d s m = Inr ev" and "decrypt_message toy_crates t ev = Inr x"
  shows "x = m"
proof -
  have "ev_content ev = replicate 132 CHR ''0'' @ toy_json m"
    using assms(1) by (auto simp: build_event_def toy_crates_def map_err_def Let_def split: sum.splits)
  with assms(2) show ?thesis
    by (auto simp: decrypt_message_def toy_crates_def map_err_def toy_json_roundtrip Let_def split: sum.splits if_splits)
qed

lemma paired_transcript:
  "paired E a b sec k s \<Longrightarrow> ps_role s = Source \<Longrightarrow> paired E b a sec k t \<Longrightarrow> ps_role t = Target \<Longrightarrow>
     transcript_of E s = transcript_of E t"
  by (simp add: paired_def transcript_of_def)

theorem confirmation_binds_witness:
  "\<exists>s t sas. transcript_of toy_crates s = transcript_of toy_crates t \<and> sas_code s = Some sas \<and> sas_code t = Some sas"
proof -
  let ?E = toy_crates
  obtain k tgt offer src1 confirm sent where h: "new_target ?E toy_draw 0 toy_b toy_qr = Inr (tgt, offer)"
      "handle_offer ?E 0 toy_source offer = (src1, Inr (format_sas (fst (derive_sas ?E k toy_secret))))"
      "confirm_sas ?E toy_draw 0 src1 = (src1\<lparr>ps_state := Transferring\<rparr>, Inr confirm)"
      "handle_sas_confirm ?E 0 tgt confirm = (record_event (tgt\<lparr>ps_state := AwaitingConfirmation\<rparr>) confirm,
         Inr (format_sas (fst (derive_sas ?E k toy_secret))))"
      "paired ?E toy_a toy_b toy_secret k src1" "paired ?E toy_b toy_a toy_secret k tgt"
      "ps_role src1 = Source" "ps_role tgt = Target"
      "carries ?E toy_a toy_b confirm (SasConfirm (hex_encode ?E (transcript ?E toy_a toy_b toy_secret k)))"
    by (rule toy_handshake)
  have len: "hkdf_length ?E" "\<forall>x. hex_codec ?E x" using toy_ok [OF toy_keys_differ] by (simp_all add: crates_ok_def)
  have "length (hex_read (replicate 64 c)) = 32" for c
    by (simp add: numeral_eq_Suc)
  then have keys: "key_bytes ?E src1" "key_bytes ?E tgt"
    using h(5,6) by (simp_all add: key_bytes_def paired_def toy_crates_def toy_a_def toy_b_def)
  have nc: "no_collision ?E src1 tgt"
    using paired_transcript [OF h(5,7,6,8)] by (simp add: no_collision_def transcript_bytes_def)
  have fresh: "fresh_session ?E tgt" using h(1) unfolding fresh_session_def by blast
  have r: "run_ops ?E [(0, HandleOffer offer)] toy_source = (src1, [HandleOffer offer])" using h(2) by (simp add: outcome_def)
  obtain x where x: "decrypt_message ?E tgt confirm = Inr x" using h(6,9) by (auto simp: carries_def paired_def)
  then have "decrypt_message ?E tgt confirm = Inr m" if "build_event ?E toy_draw src1 m = Inr confirm" for m
    using toy_reads [OF that x] by simp
  from confirmation_binds [OF len keys nc toy_source_fresh r fresh _ h(3) this h(4), of "[]" "[]"]
  show ?thesis by auto
qed

text \<open>
  What is displayed is always six decimal digits, and they are the code: two displays agree
  exactly when the codes agree.
\<close>

theorem sas_six_digits:
  "unat (fst (derive_sas E k sec)) < 1000000 \<and> length (format_sas (fst (derive_sas E k sec))) = 6 \<and>
   list_all is_digit (format_sas (fst (derive_sas E k sec))) \<and>
   digits_value (format_sas c) = unat c"
proof -
  have "fst (derive_sas E k sec) < 1000000" by (simp add: derive_sas_def Let_def word_mod_less_divisor)
  then have l: "unat (fst (derive_sas E k sec)) < 10 ^ 6" by (simp add: word_less_nat_alt)
  then have "length (show_nat (unat (fst (derive_sas E k sec)))) \<le> 6" using show_nat_length [OF _ l] by simp
  then show ?thesis using l show_nat_digits
    by (auto simp: format_sas_def pad_zeros_def list_all_iff is_digit_def)
qed

end
