(* ===== verification/Mesh_Wire.thy ===== *)
theory Mesh_Wire
  imports Buzz_Prelude
begin

text \<open>
  The mesh wire contract (\<open>crates/buzz-relay-mesh/src/wire.rs\<close>) and the errors of the mesh
  (\<open>crates/buzz-relay-mesh/src/lib.rs\<close>): the frame types, the version byte in front of every frame
  and the size check of datagrams. Serialization itself is the \<open>postcard\<close> crate: its two
  functions are arguments.
\<close>

text \<open>A runtime id is an array of 32 bytes.\<close>

type_synonym RuntimeId = bytes

definition WIRE_VERSION :: u8 where "WIRE_VERSION = 1"

definition MAX_STREAM_FRAME :: u32 where "MAX_STREAM_FRAME = 16 * 1024 * 1024"

record FencedHeader =
  fh_session_id :: uuid
  fh_generation :: u64
  fh_owner_runtime_id :: RuntimeId

datatype Profile = ReliableStream | RealtimeMedia | HuddleControl

record MeshDatagram =
  md_fenced :: FencedHeader
  md_seq :: u64
  md_payload :: bytes

datatype GoodbyeReason = SessionEnded | Draining | StaleGenerationReason

datatype StreamRole = Control | Session FencedHeader Profile

record StreamHello =
  sh_sender :: RuntimeId
  sh_role :: StreamRole

datatype MeshStreamFrame =
    Hello StreamHello
  | Data FencedHeader bytes
  | Goodbye FencedHeader GoodbyeReason
  | Gossip bytes

datatype MeshError =
    Encode string
  | Decode string
  | UnknownWireVersion u8
  | EmptyFrame
  | FrameTooLarge nat nat
  | DatagramTooLarge nat nat
  | PeerNotConnected RuntimeId
  | PeerDraining RuntimeId
  | StaleGeneration uuid u64 u64
  | NoActiveLease uuid u64 u64 RuntimeId
  | OwnerMismatch uuid u64 RuntimeId RuntimeId
  | FutureGeneration uuid u64 u64
  | Disabled
  | Transport string
  | RedisError string

definition encode :: "('a \<Rightarrow> (bytes, string) rust_result) \<Rightarrow> 'a \<Rightarrow> (bytes, MeshError) rust_result" where
  "encode to_bytes frame =
     (case to_bytes frame of Inl e \<Rightarrow> Inl (Encode e) | Inr b \<Rightarrow> Inr (WIRE_VERSION # b))"

definition decode :: "(bytes \<Rightarrow> ('a, string) rust_result) \<Rightarrow> bytes \<Rightarrow> ('a, MeshError) rust_result" where
  "decode from_bytes bs =
     (case bs of
        [] \<Rightarrow> Inl EmptyFrame
      | v # rest \<Rightarrow>
          if v = WIRE_VERSION
          then (case from_bytes rest of Inl e \<Rightarrow> Inl (Decode e) | Inr x \<Rightarrow> Inr x)
          else Inl (UnknownWireVersion v))"

definition encode_datagram_checked ::
    "(MeshDatagram \<Rightarrow> (bytes, string) rust_result) \<Rightarrow> MeshDatagram \<Rightarrow> nat \<Rightarrow> (bytes, MeshError) rust_result" where
  "encode_datagram_checked to_bytes dgram max_datagram_size =
     (case encode to_bytes dgram of
        Inl e \<Rightarrow> Inl e
      | Inr bs \<Rightarrow>
          if length bs > max_datagram_size
          then Inl (DatagramTooLarge (length bs) max_datagram_size)
          else Inr bs)"

text \<open>
  A datagram that is sent is never truncated: it fits the connection and decodes to what was sent,
  and a frame of another version is refused whatever it contains.
\<close>

theorem datagram_roundtrip:
  assumes "\<And>x b. to_bytes x = Inr b \<Longrightarrow> from_bytes b = Inr x"
    and "encode_datagram_checked to_bytes d n = Inr bs"
  shows "length bs \<le> n \<and> decode from_bytes bs = Inr d \<and>
    (v \<noteq> WIRE_VERSION \<longrightarrow> decode from_bytes (v # tl bs) = Inl (UnknownWireVersion v))"
  using assms by (auto simp: encode_datagram_checked_def encode_def decode_def split: sum.splits if_splits)

text \<open>A serializer that knows one datagram.\<close>

definition sample_datagram :: MeshDatagram where
  "sample_datagram = \<lparr>md_fenced = \<lparr>fh_session_id = ''s'', fh_generation = 1, fh_owner_runtime_id = replicate 32 0\<rparr>,
     md_seq = 7, md_payload = [1, 2, 3]\<rparr>"

definition sample_to_bytes :: "MeshDatagram \<Rightarrow> (bytes, string) rust_result" where
  "sample_to_bytes d = (if d = sample_datagram then Inr [9] else Inl ''unknown'')"

theorem datagram_roundtrip_witness:
  "length [WIRE_VERSION, 9] \<le> (2 :: nat) \<and> decode (\<lambda>_. Inr sample_datagram) [WIRE_VERSION, 9] = Inr sample_datagram"
proof -
  have "encode_datagram_checked sample_to_bytes sample_datagram 2 = Inr [WIRE_VERSION, 9]"
    by (simp add: encode_datagram_checked_def encode_def sample_to_bytes_def)
  moreover have "sample_to_bytes x = Inr b \<Longrightarrow> Inr sample_datagram = Inr x" for x b
    by (simp add: sample_to_bytes_def split: if_splits)
  ultimately show ?thesis using datagram_roundtrip [where from_bytes = "\<lambda>_. Inr sample_datagram"] by blast
qed

end
