(* ===== verification/Tunnel_Directory.thy ===== *)
theory Tunnel_Directory
  imports Mesh_Wire
begin

text \<open>
  The fenced session directory (\<open>crates/buzz-relay/src/tunnel/directory.rs\<close>): leases on tunnel
  sessions kept in Redis by four Lua scripts, and the validation of the fence that every
  session-bearing frame carries.

  Redis, Lua's number printing and the hexadecimal codec are fields of a record that every
  definition takes. The scripts run atomically. What can go wrong around a script is an argument:
  an error before it, or an error in its place, in which case it may or may not have run.
\<close>

subsection \<open>Types\<close>

record SessionLease =
  sl_community_id :: string
  sl_session_id :: uuid
  sl_owner_runtime_id :: RuntimeId
  sl_generation :: u64
  sl_profile :: Profile

datatype AcquireResult = Acquired SessionLease | Exists SessionLease

datatype RenewResult = Renewed SessionLease | Lost "SessionLease option" "u64 option"

datatype ReleaseResult = Released SessionLease | NotOwner "SessionLease option" "u64 option"

datatype DirectoryError =
    Pool string
  | Redis string
  | MalformedLease string uuid string
  | MalformedGeneration string uuid string
  | UnexpectedScriptStatus string
  | InvalidLeaseTtl
  | CommunityWriteFenced string

text \<open>
  The commands of the Redis server on its state \<open>'s\<close>, at a time in milliseconds, and the other
  functions the directory takes from elsewhere.
\<close>

record 's redis =
  rd_get :: "'s \<Rightarrow> nat \<Rightarrow> string \<Rightarrow> string option"
  rd_incr :: "'s \<Rightarrow> nat \<Rightarrow> string \<Rightarrow> 's \<times> nat"
  rd_set_px :: "'s \<Rightarrow> nat \<Rightarrow> string \<Rightarrow> string \<Rightarrow> nat \<Rightarrow> 's"
  rd_pexpire :: "'s \<Rightarrow> nat \<Rightarrow> string \<Rightarrow> nat \<Rightarrow> 's"
  rd_del :: "'s \<Rightarrow> nat \<Rightarrow> string \<Rightarrow> 's"
  lua_tostring :: "nat \<Rightarrow> string"
  id_to_hex :: "RuntimeId \<Rightarrow> string"
  id_from_hex :: "string \<Rightarrow> bytes option"
  error_text :: "DirectoryError \<Rightarrow> string"

text \<open>What happens around a script: errors of the steps before and after it, and its own fate.\<close>

datatype fate = Ran | Failed DirectoryError bool

record conditions =
  cd_begin :: "string option"
  cd_pool :: "string option"
  cd_script :: fate
  cd_finish :: "string option"

definition DEFAULT_LEASE_TTL :: duration where "DEFAULT_LEASE_TTL = 30 * 10 ^ 9"

subsection \<open>Keys and values\<close>

definition lease_key :: "string \<Rightarrow> uuid \<Rightarrow> string" where
  "lease_key community_id session_id = ''buzz:'' @ community_id @ '':tunnel:'' @ session_id @ '':lease''"

definition generation_key :: "string \<Rightarrow> uuid \<Rightarrow> string" where
  "generation_key community_id session_id = ''buzz:'' @ community_id @ '':tunnel:'' @ session_id @ '':generation''"

fun as_wire_str :: "Profile \<Rightarrow> string" where
  "as_wire_str ReliableStream = ''reliable-stream''"
| "as_wire_str RealtimeMedia = ''realtime-media''"
| "as_wire_str HuddleControl = ''huddle-control''"

definition profile_from_wire :: "string \<Rightarrow> Profile option" where
  "profile_from_wire value =
     (if value = ''reliable-stream'' then Some ReliableStream
      else if value = ''realtime-media'' then Some RealtimeMedia
      else if value = ''huddle-control'' then Some HuddleControl
      else None)"

definition parse_u64 :: "string \<Rightarrow> u64 option" where
  "parse_u64 s = map_option of_nat (parse_uint (2 ^ 64) s)"

definition parse_lease ::
    "'s redis \<Rightarrow> string \<Rightarrow> uuid \<Rightarrow> string \<Rightarrow> (SessionLease, DirectoryError) rust_result" where
  "parse_lease R community_id session_id value =
     (let malformed = Inl (MalformedLease community_id session_id value)
      in case split_on CHR ''|'' value of
           owner_hex # generation_text # rest \<Rightarrow>
             (case parse_u64 generation_text of
                None \<Rightarrow> malformed
              | Some generation \<Rightarrow>
                  if generation = 0 then malformed
                  else (case rest of
                      profile_text # extra \<Rightarrow>
                        (case profile_from_wire profile_text of
                           None \<Rightarrow> malformed
                         | Some profile \<Rightarrow>
                             if extra \<noteq> [] then malformed
                             else (case id_from_hex R owner_hex of
                                 None \<Rightarrow> malformed
                               | Some owner_bytes \<Rightarrow>
                                   if length owner_bytes \<noteq> 32 then malformed
                                   else Inr \<lparr>sl_community_id = community_id, sl_session_id = session_id,
                                             sl_owner_runtime_id = owner_bytes, sl_generation = generation,
                                             sl_profile = profile\<rparr>))
                    | [] \<Rightarrow> malformed))
         | _ \<Rightarrow> malformed)"

definition parse_optional_lease ::
    "'s redis \<Rightarrow> string \<Rightarrow> uuid \<Rightarrow> string \<Rightarrow> (SessionLease option, DirectoryError) rust_result" where
  "parse_optional_lease R community_id session_id value =
     (if value = [] then Inr None
      else case parse_lease R community_id session_id value of Inl e \<Rightarrow> Inl e | Inr l \<Rightarrow> Inr (Some l))"

definition parse_optional_generation ::
    "string \<Rightarrow> uuid \<Rightarrow> string \<Rightarrow> (u64 option, DirectoryError) rust_result" where
  "parse_optional_generation community_id session_id value =
     (if value = [] then Inr None
      else case parse_u64 value of
          None \<Rightarrow> Inl (MalformedGeneration community_id session_id value)
        | Some generation \<Rightarrow>
            if generation = 0 then Inl (MalformedGeneration community_id session_id value)
            else Inr (Some generation))"

definition ttl_ms :: "duration \<Rightarrow> (nat, DirectoryError) rust_result" where
  "ttl_ms ttl = (let ms = ttl div 10 ^ 6 in if 0 < ms \<and> ms < 2 ^ 63 then Inr ms else Inl InvalidLeaseTtl)"

definition fenced_header :: "SessionLease \<Rightarrow> FencedHeader" where
  "fenced_header l = \<lparr>fh_session_id = sl_session_id l, fh_generation = sl_generation l,
     fh_owner_runtime_id = sl_owner_runtime_id l\<rparr>"

subsection \<open>The scripts\<close>

text \<open>\<open>redis.call('GET', key) or ''\<close>.\<close>

definition get_or_empty :: "'s redis \<Rightarrow> 's \<Rightarrow> nat \<Rightarrow> string \<Rightarrow> string" where
  "get_or_empty R s now key = (case rd_get R s now key of None \<Rightarrow> [] | Some v \<Rightarrow> v)"

text \<open>\<open>string.match(current, '^([^|]+)|([^|]+)|([^|]+)$')\<close>: three fields, none of them empty.\<close>

definition lua_match :: "string \<Rightarrow> (string \<times> string \<times> string) option" where
  "lua_match current =
     (case split_on CHR ''|'' current of
        [a, b, c] \<Rightarrow> if a \<noteq> [] \<and> b \<noteq> [] \<and> c \<noteq> [] then Some (a, b, c) else None
      | _ \<Rightarrow> None)"

definition lease_value :: "'s redis \<Rightarrow> string \<Rightarrow> nat \<Rightarrow> string \<Rightarrow> string" where
  "lease_value R owner generation profile =
     owner @ CHR ''|'' # lua_tostring R generation @ CHR ''|'' # profile"

definition ACQUIRE_SCRIPT ::
    "'s redis \<Rightarrow> 's \<Rightarrow> nat \<Rightarrow> string \<Rightarrow> string \<Rightarrow> string \<Rightarrow> string \<Rightarrow> nat \<Rightarrow> 's \<times> string \<times> string \<times> string" where
  "ACQUIRE_SCRIPT R s now lkey gkey owner profile ttl =
     (case rd_get R s now lkey of
        Some current \<Rightarrow> (s, ''exists'', current, get_or_empty R s now gkey)
      | None \<Rightarrow>
          let (s1, generation) = rd_incr R s now gkey;
              value = lease_value R owner generation profile
          in (rd_set_px R s1 now lkey value ttl, ''acquired'', value, lua_tostring R generation))"

text \<open>\<open>redis.call('GET', generation_key) or current_generation or ''\<close>.\<close>

definition known_or :: "'s redis \<Rightarrow> 's \<Rightarrow> nat \<Rightarrow> string \<Rightarrow> string \<Rightarrow> string" where
  "known_or R s now gkey current =
     (case rd_get R s now gkey of
        Some v \<Rightarrow> v
      | None \<Rightarrow> (case lua_match current of None \<Rightarrow> [] | Some (_, g, _) \<Rightarrow> g))"

text \<open>The lease belongs to the caller: both fields match; a malformed value matches nothing.\<close>

definition owned :: "string \<Rightarrow> string \<Rightarrow> string \<Rightarrow> bool" where
  "owned current owner generation \<longleftrightarrow>
     (case lua_match current of None \<Rightarrow> False | Some (o', g, _) \<Rightarrow> o' = owner \<and> g = generation)"

definition RENEW_SCRIPT ::
    "'s redis \<Rightarrow> 's \<Rightarrow> nat \<Rightarrow> string \<Rightarrow> string \<Rightarrow> string \<Rightarrow> string \<Rightarrow> nat \<Rightarrow> 's \<times> string \<times> string \<times> string" where
  "RENEW_SCRIPT R s now lkey gkey owner generation ttl =
     (case rd_get R s now lkey of
        None \<Rightarrow> (s, ''missing'', [], get_or_empty R s now gkey)
      | Some current \<Rightarrow>
          if owned current owner generation
          then let s1 = rd_pexpire R s now lkey ttl in (s1, ''renewed'', current, known_or R s1 now gkey current)
          else (s, ''lost'', current, known_or R s now gkey current))"

definition RELEASE_SCRIPT ::
    "'s redis \<Rightarrow> 's \<Rightarrow> nat \<Rightarrow> string \<Rightarrow> string \<Rightarrow> string \<Rightarrow> string \<Rightarrow> 's \<times> string \<times> string \<times> string" where
  "RELEASE_SCRIPT R s now lkey gkey owner generation =
     (case rd_get R s now lkey of
        None \<Rightarrow> (s, ''missing'', [], get_or_empty R s now gkey)
      | Some current \<Rightarrow>
          if owned current owner generation
          then let s1 = rd_del R s now lkey in (s1, ''released'', current, known_or R s1 now gkey current)
          else (s, ''lost'', current, known_or R s now gkey current))"

definition VALIDATE_SCRIPT :: "'s redis \<Rightarrow> 's \<Rightarrow> nat \<Rightarrow> string \<Rightarrow> string \<Rightarrow> string \<times> string" where
  "VALIDATE_SCRIPT R s now lkey gkey = (get_or_empty R s now lkey, get_or_empty R s now gkey)"

subsection \<open>Operations\<close>

text \<open>The result of a script as the caller sees it, and the state it leaves.\<close>

definition invoke ::
    "conditions \<Rightarrow> 's \<Rightarrow> 's \<times> 'r \<Rightarrow> 's \<times> ('r, DirectoryError) rust_result" where
  "invoke cd s res =
     (case cd_script cd of
        Ran \<Rightarrow> (fst res, Inr (snd res))
      | Failed e applied \<Rightarrow> (if applied then fst res else s, Inl e))"

text \<open>
  The frame the three mutations share: the community fence, the time to live where one is needed,
  a connection, the script, the reading of its reply, the release of the fence.
\<close>

definition mutate ::
    "conditions \<Rightarrow> 's \<Rightarrow> (unit, DirectoryError) rust_result \<Rightarrow> 's \<times> 'r \<Rightarrow>
     ('r \<Rightarrow> ('a, DirectoryError) rust_result) \<Rightarrow> ('a \<Rightarrow> ('b, DirectoryError) rust_result) \<Rightarrow>
     's \<times> ('b, DirectoryError) rust_result" where
  "mutate cd s checked res read finish =
     (case cd_begin cd of
        Some e \<Rightarrow> (s, Inl (CommunityWriteFenced e))
      | None \<Rightarrow>
         (case checked of
            Inl e \<Rightarrow> (s, Inl e)
          | Inr _ \<Rightarrow>
             (case cd_pool cd of
                Some e \<Rightarrow> (s, Inl (Pool e))
              | None \<Rightarrow>
                 (case invoke cd s res of
                    (s1, Inl e) \<Rightarrow> (s1, Inl e)
                  | (s1, Inr reply) \<Rightarrow>
                     (case read reply of
                        Inl e \<Rightarrow> (s1, Inl e)
                      | Inr x \<Rightarrow>
                         (case cd_finish cd of
                            Some e \<Rightarrow> (s1, Inl (CommunityWriteFenced e))
                          | None \<Rightarrow> (s1, finish x)))))))"

definition acquire ::
    "'s redis \<Rightarrow> conditions \<Rightarrow> duration \<Rightarrow> nat \<Rightarrow> 's \<Rightarrow> string \<Rightarrow> uuid \<Rightarrow> RuntimeId \<Rightarrow> Profile \<Rightarrow>
     's \<times> (AcquireResult, DirectoryError) rust_result" where
  "acquire R cd lease_ttl now s community_id session_id owner_runtime_id profile =
     (let ttl = ttl_ms lease_ttl
      in mutate cd s (case ttl of Inl e \<Rightarrow> Inl e | Inr _ \<Rightarrow> Inr ())
           (ACQUIRE_SCRIPT R s now (lease_key community_id session_id) (generation_key community_id session_id)
              (id_to_hex R owner_runtime_id) (as_wire_str profile) (case ttl of Inl _ \<Rightarrow> 0 | Inr ms \<Rightarrow> ms))
           (\<lambda>(status, value, known).
              case parse_lease R community_id session_id value of Inl e \<Rightarrow> Inl e | Inr lease \<Rightarrow> Inr (status, lease))
           (\<lambda>(status, lease).
              if status = ''acquired'' then Inr (Acquired lease)
              else if status = ''exists'' then Inr (Exists lease)
              else Inl (UnexpectedScriptStatus status)))"

definition takeover ::
    "'s redis \<Rightarrow> conditions \<Rightarrow> duration \<Rightarrow> nat \<Rightarrow> 's \<Rightarrow> string \<Rightarrow> uuid \<Rightarrow> RuntimeId \<Rightarrow> Profile \<Rightarrow>
     's \<times> (AcquireResult, DirectoryError) rust_result" where
  "takeover R cd lease_ttl now s community_id session_id owner_runtime_id profile =
     acquire R cd lease_ttl now s community_id session_id owner_runtime_id profile"

text \<open>
  Reading a reply that may have no lease. The \<open>expect\<close> on a successful reply cannot fail, because
  the scripts report success only together with a value; the model makes that branch an error.
\<close>

definition read_optional ::
    "'s redis \<Rightarrow> string \<Rightarrow> uuid \<Rightarrow> string \<times> string \<times> string \<Rightarrow>
     (string \<times> SessionLease option \<times> string, DirectoryError) rust_result" where
  "read_optional R community_id session_id = (\<lambda>(status, value, known).
     case parse_optional_lease R community_id session_id value of
       Inl e \<Rightarrow> Inl e | Inr current \<Rightarrow> Inr (status, current, known))"

definition renew ::
    "'s redis \<Rightarrow> conditions \<Rightarrow> duration \<Rightarrow> nat \<Rightarrow> 's \<Rightarrow> SessionLease \<Rightarrow>
     's \<times> (RenewResult, DirectoryError) rust_result" where
  "renew R cd lease_ttl now s lease =
     (let community_id = sl_community_id lease; session_id = sl_session_id lease; ttl = ttl_ms lease_ttl
      in mutate cd s (case ttl of Inl e \<Rightarrow> Inl e | Inr _ \<Rightarrow> Inr ())
           (RENEW_SCRIPT R s now (lease_key community_id session_id) (generation_key community_id session_id)
              (id_to_hex R (sl_owner_runtime_id lease)) (show_nat (unat (sl_generation lease)))
              (case ttl of Inl _ \<Rightarrow> 0 | Inr ms \<Rightarrow> ms))
           (read_optional R community_id session_id)
           (\<lambda>(status, current, known).
              if status = ''renewed'' then
                (case current of Some l \<Rightarrow> Inr (Renewed l) | None \<Rightarrow> Inl (UnexpectedScriptStatus status))
              else if status = ''missing'' \<or> status = ''lost'' then
                (case parse_optional_generation community_id session_id known of
                   Inl e \<Rightarrow> Inl e | Inr g \<Rightarrow> Inr (Lost current g))
              else Inl (UnexpectedScriptStatus status)))"

definition release_lease ::
    "'s redis \<Rightarrow> conditions \<Rightarrow> nat \<Rightarrow> 's \<Rightarrow> SessionLease \<Rightarrow>
     's \<times> (ReleaseResult, DirectoryError) rust_result" where
  "release_lease R cd now s lease =
     (let community_id = sl_community_id lease; session_id = sl_session_id lease
      in mutate cd s (Inr ())
           (RELEASE_SCRIPT R s now (lease_key community_id session_id) (generation_key community_id session_id)
              (id_to_hex R (sl_owner_runtime_id lease)) (show_nat (unat (sl_generation lease))))
           (read_optional R community_id session_id)
           (\<lambda>(status, current, known).
              if status = ''released'' then
                (case current of Some l \<Rightarrow> Inr (Released l) | None \<Rightarrow> Inl (UnexpectedScriptStatus status))
              else if status = ''missing'' \<or> status = ''lost'' then
                (case parse_optional_generation community_id session_id known of
                   Inl e \<Rightarrow> Inl e | Inr g \<Rightarrow> Inr (NotOwner current g))
              else Inl (UnexpectedScriptStatus status)))"

text \<open>The reads fail with the error of the connection or of the command, if there is one.\<close>

definition lookup_lease ::
    "'s redis \<Rightarrow> DirectoryError option \<Rightarrow> nat \<Rightarrow> 's \<Rightarrow> string \<Rightarrow> uuid \<Rightarrow>
     (SessionLease option, DirectoryError) rust_result" where
  "lookup_lease R fault now s community_id session_id =
     (case fault of
        Some e \<Rightarrow> Inl e
      | None \<Rightarrow>
         (case rd_get R s now (lease_key community_id session_id) of
            None \<Rightarrow> Inr None
          | Some v \<Rightarrow> (case parse_lease R community_id session_id v of Inl e \<Rightarrow> Inl e | Inr l \<Rightarrow> Inr (Some l))))"

definition known_generation ::
    "'s redis \<Rightarrow> DirectoryError option \<Rightarrow> nat \<Rightarrow> 's \<Rightarrow> string \<Rightarrow> uuid \<Rightarrow> (u64 option, DirectoryError) rust_result" where
  "known_generation R fault now s community_id session_id =
     (case fault of
        Some e \<Rightarrow> Inl e
      | None \<Rightarrow>
         (case rd_get R s now (generation_key community_id session_id) of
            Some value \<Rightarrow> parse_optional_generation community_id session_id value
          | None \<Rightarrow> Inr None))"

definition validate_fenced_header ::
    "'s redis \<Rightarrow> MeshError option \<Rightarrow> nat \<Rightarrow> 's \<Rightarrow> string \<Rightarrow> FencedHeader \<Rightarrow> (unit, MeshError) rust_result" where
  "validate_fenced_header R fault now s community_id fenced =
     (case fault of Some e \<Rightarrow> Inl e | None \<Rightarrow>
      let session_id = fh_session_id fenced;
          (lease_text, known_text) = VALIDATE_SCRIPT R s now (lease_key community_id session_id)
                                       (generation_key community_id session_id)
      in case parse_optional_generation community_id session_id known_text of
           Inl e \<Rightarrow> Inl (Transport (error_text R e))
         | Inr counter \<Rightarrow>
             let known_from_counter = (case counter of None \<Rightarrow> 0 | Some g \<Rightarrow> g)
             in (case parse_optional_lease R community_id session_id lease_text of
                   Inl e \<Rightarrow> Inl (Transport (error_text R e))
                 | Inr current \<Rightarrow>
                     let known = max (case current of Some lease \<Rightarrow> sl_generation lease | None \<Rightarrow> known_from_counter)
                                     known_from_counter
                     in if known > 0 \<and> fh_generation fenced < known
                        then Inl (StaleGeneration session_id (fh_generation fenced) known)
                        else (case current of
                            None \<Rightarrow> Inl (NoActiveLease session_id (fh_generation fenced) known (fh_owner_runtime_id fenced))
                          | Some lease \<Rightarrow>
                              if fh_generation fenced \<noteq> sl_generation lease
                              then Inl (FutureGeneration session_id (fh_generation fenced) (sl_generation lease))
                              else if fh_owner_runtime_id fenced \<noteq> sl_owner_runtime_id lease
                              then Inl (OwnerMismatch session_id (fh_generation fenced) (fh_owner_runtime_id fenced)
                                          (sl_owner_runtime_id lease))
                              else Inr ())))"

subsection \<open>What the directory relies on\<close>

text \<open>
  The documented behaviour of the Redis commands, as their effect on what is stored under a key: a
  value and the time at which it expires, if it does. \<open>INCR\<close> counts an absent key from zero,
  leaves the expiry of an existing key alone and never creates one.
\<close>

definition redis_ok :: "'s redis \<Rightarrow> ('s \<Rightarrow> string \<Rightarrow> (string \<times> nat option) option) \<Rightarrow> bool" where
  "redis_ok R V \<longleftrightarrow>
     (\<forall>s now k. rd_get R s now k = live now (V s k)) \<and>
     (\<forall>s now k v ttl. V (rd_set_px R s now k v ttl) = (V s)(k \<mapsto> (v, Some (now + ttl)))) \<and>
     (\<forall>s now k. V (rd_del R s now k) = (V s)(k := None)) \<and>
     (\<forall>s now k ttl. V (rd_pexpire R s now k ttl) =
        (case live now (V s k) of None \<Rightarrow> V s | Some v \<Rightarrow> (V s)(k \<mapsto> (v, Some (now + ttl))))) \<and>
     (\<forall>s now k. live now (V s k) = None \<longrightarrow>
        snd (rd_incr R s now k) = 1 \<and> V (fst (rd_incr R s now k)) = (V s)(k \<mapsto> (show_nat 1, None))) \<and>
     (\<forall>s now k n. live now (V s k) = Some (show_nat n) \<longrightarrow>
        snd (rd_incr R s now k) = n + 1 \<and>
        V (fst (rd_incr R s now k)) = (V s)(k \<mapsto> (show_nat (n + 1), snd (the (V s k)))))"

lemma redis_okD:
  assumes "redis_ok R V"
  shows "rd_get R s now k = live now (V s k)"
    and "V (rd_set_px R s now k v ttl) = (V s)(k \<mapsto> (v, Some (now + ttl)))"
    and "V (rd_del R s now k) = (V s)(k := None)"
    and "V (rd_pexpire R s now k ttl) = (case live now (V s k) of None \<Rightarrow> V s | Some v \<Rightarrow> (V s)(k \<mapsto> (v, Some (now + ttl))))"
    and "live now (V s k) = None \<Longrightarrow> snd (rd_incr R s now k) = 1"
    and "live now (V s k) = None \<Longrightarrow> V (fst (rd_incr R s now k)) = (V s)(k \<mapsto> (show_nat 1, None))"
    and "live now (V s k) = Some (show_nat n) \<Longrightarrow> snd (rd_incr R s now k) = n + 1"
    and "live now (V s k) = Some (show_nat n) \<Longrightarrow>
      V (fst (rd_incr R s now k)) = (V s)(k \<mapsto> (show_nat (n + 1), snd (the (V s k))))"
  using assms by (simp_all add: redis_ok_def)

text \<open>
  Lua prints an integer below ten to the fourteenth in full; the hexadecimal text of a runtime id
  is read back and contains no separator.
\<close>

definition texts_ok :: "'s redis \<Rightarrow> bool" where
  "texts_ok R \<longleftrightarrow> (\<forall>n < 10 ^ 14. lua_tostring R n = show_nat n) \<and>
     (\<forall>i. length i = 32 \<longrightarrow> id_from_hex R (id_to_hex R i) = Some i \<and> id_to_hex R i \<noteq> [] \<and> CHR ''|'' \<notin> set (id_to_hex R i))"

text \<open>The text of a UUID has no colon (\<open>plain\<close>), so keys of different sessions differ.\<close>

lemma key_parts:
  "plain c \<Longrightarrow> plain i \<Longrightarrow> split_on CHR '':'' (lease_key c i) = [''buzz'', c, ''tunnel'', i, ''lease'']"
  "plain c \<Longrightarrow> plain i \<Longrightarrow> split_on CHR '':'' (generation_key c i) = [''buzz'', c, ''tunnel'', i, ''generation'']"
  by (simp_all add: plain_def lease_key_def generation_key_def split_on_append)

lemma keys_differ:
  assumes "plain c" "plain i" "plain c'" "plain i'"
  shows "lease_key c i = lease_key c' i' \<longleftrightarrow> c = c' \<and> i = i'"
    and "generation_key c i = generation_key c' i' \<longleftrightarrow> c = c' \<and> i = i'"
    and "lease_key c i \<noteq> generation_key c' i'" "generation_key c i \<noteq> lease_key c' i'"
proof -
  note eq = split_on_inj [of "CHR '':''", symmetric]
  show "lease_key c i = lease_key c' i' \<longleftrightarrow> c = c' \<and> i = i'"
    "generation_key c i = generation_key c' i' \<longleftrightarrow> c = c' \<and> i = i'"
    "lease_key c i \<noteq> generation_key c' i'" "generation_key c i \<noteq> lease_key c' i'"
    unfolding eq by (simp_all add: key_parts assms split_on_inj)
qed

subsection \<open>The directory of one session\<close>

text \<open>
  What Redis holds for a session: nothing, or a counter that never expires and perhaps a lease
  whose generation is the value of the counter.
\<close>

definition lease_text :: "'s redis \<Rightarrow> RuntimeId \<Rightarrow> nat \<Rightarrow> Profile \<Rightarrow> string" where
  "lease_text R owner g p = id_to_hex R owner @ CHR ''|'' # show_nat g @ CHR ''|'' # as_wire_str p"

definition counter_is :: "('s \<Rightarrow> string \<Rightarrow> (string \<times> nat option) option) \<Rightarrow> 's \<Rightarrow> string \<Rightarrow> uuid \<Rightarrow> nat \<Rightarrow> bool" where
  "counter_is V s c i n \<longleftrightarrow> V s (generation_key c i) = (if n = 0 then None else Some (show_nat n, None))"

definition session_ok :: "'s redis \<Rightarrow> ('s \<Rightarrow> string \<Rightarrow> (string \<times> nat option) option) \<Rightarrow> 's \<Rightarrow> string \<Rightarrow> uuid \<Rightarrow> bool" where
  "session_ok R V s c i \<longleftrightarrow> (\<exists>n < 10 ^ 14. counter_is V s c i n \<and>
     (V s (lease_key c i) = None \<or>
      (\<exists>owner p d. V s (lease_key c i) = Some (lease_text R owner n p, Some d) \<and> length owner = 32 \<and> 0 < n)))"

definition dir_inv :: "'s redis \<Rightarrow> ('s \<Rightarrow> string \<Rightarrow> (string \<times> nat option) option) \<Rightarrow> 's \<times> nat \<Rightarrow> bool" where
  "dir_inv R V = (\<lambda>(s, now). \<forall>c i. plain c \<and> plain i \<longrightarrow> session_ok R V s c i)"

lemma show_nat_inj [simp]: "show_nat m = show_nat n \<longleftrightarrow> m = n"
  by (metis show_nat_value)

lemma show_nat_no_char: "\<not> is_digit c \<Longrightarrow> c \<notin> set (show_nat n)"
  using show_nat_digits [of n] by (auto simp: list_all_iff)

lemma wire_no_bar: "CHR ''|'' \<notin> set (as_wire_str p)" "as_wire_str p \<noteq> []" "profile_from_wire (as_wire_str p) = Some p"
  by (cases p; simp add: profile_from_wire_def)+

lemma lease_text_split:
  assumes "texts_ok R" "length owner = 32"
  shows "split_on CHR ''|'' (lease_text R owner g p) = [id_to_hex R owner, show_nat g, as_wire_str p]"
  using assms split_join [of "[id_to_hex R owner, show_nat g, as_wire_str p]" "CHR ''|''"]
    show_nat_no_char [of "CHR ''|''" g] wire_no_bar [of p]
  by (auto simp: texts_ok_def lease_text_def is_digit_def)

lemma parse_lease_text:
  assumes "texts_ok R" "length owner = 32" "0 < g" "g < 2 ^ 64"
  shows "parse_lease R c i (lease_text R owner g p) = Inr \<lparr>sl_community_id = c, sl_session_id = i,
    sl_owner_runtime_id = owner, sl_generation = of_nat g, sl_profile = p\<rparr>"
proof -
  have "id_from_hex R (id_to_hex R owner) = Some owner" using assms(1,2) by (simp add: texts_ok_def)
  moreover have "(of_nat g :: u64) \<noteq> 0" using assms(3,4) by (simp add: word_unat_eq_iff unsigned_of_nat take_bit_nat_eq_self)
  ultimately show ?thesis
    using assms lease_text_split [OF assms(1,2), of g p] wire_no_bar [of p]
    by (simp add: parse_lease_def parse_u64_def parse_show_nat Let_def)
qed

lemma owned_lease_text:
  assumes "texts_ok R" "length owner = 32"
  shows "owned (lease_text R owner g p) o' g' \<longleftrightarrow> id_to_hex R owner = o' \<and> show_nat g = g'"
  using assms lease_text_split [OF assms, of g p] wire_no_bar [of p]
  by (auto simp: owned_def lua_match_def texts_ok_def)


subsection \<open>Runs\<close>

text \<open>What any number of relays do to the directory, in any order, and the passing of time.\<close>

datatype dir_op =
    Tick nat
  | AcquireOp conditions duration string uuid RuntimeId Profile
  | RenewOp conditions duration SessionLease
  | ReleaseOp conditions SessionLease

fun exec_dir :: "'s redis \<Rightarrow> dir_op \<Rightarrow> 's \<times> nat \<Rightarrow> 's \<times> nat" where
  "exec_dir R (Tick d) (s, now) = (s, now + d)"
| "exec_dir R (AcquireOp cd ttl c i owner p) (s, now) = (fst (acquire R cd ttl now s c i owner p), now)"
| "exec_dir R (RenewOp cd ttl l) (s, now) = (fst (renew R cd ttl now s l), now)"
| "exec_dir R (ReleaseOp cd l) (s, now) = (fst (release_lease R cd now s l), now)"

text \<open>
  The calls are well-typed: ids are UUIDs, runtime ids have 32 bytes. The counter of a session
  stays below ten to the fourteenth.
\<close>

definition lease_ok :: "SessionLease \<Rightarrow> bool" where
  "lease_ok l \<longleftrightarrow> plain (sl_community_id l) \<and> plain (sl_session_id l) \<and> length (sl_owner_runtime_id l) = 32"

fun op_ok :: "('s \<Rightarrow> string \<Rightarrow> (string \<times> nat option) option) \<Rightarrow> dir_op \<Rightarrow> 's \<times> nat \<Rightarrow> bool" where
  "op_ok V (Tick d) st = True"
| "op_ok V (AcquireOp cd ttl c i owner p) st \<longleftrightarrow>
     plain c \<and> plain i \<and> length owner = 32 \<and> (\<exists>n. counter_is V (fst st) c i n \<and> n + 1 < 10 ^ 14)"
| "op_ok V (RenewOp cd ttl l) st \<longleftrightarrow> lease_ok l"
| "op_ok V (ReleaseOp cd l) st \<longleftrightarrow> lease_ok l"

fun run_dir :: "'s redis \<Rightarrow> dir_op list \<Rightarrow> 's \<times> nat \<Rightarrow> 's \<times> nat" where
  "run_dir R [] st = st"
| "run_dir R (x # xs) st = run_dir R xs (exec_dir R x st)"

fun run_ok :: "'s redis \<Rightarrow> ('s \<Rightarrow> string \<Rightarrow> (string \<times> nat option) option) \<Rightarrow> dir_op list \<Rightarrow> 's \<times> nat \<Rightarrow> bool" where
  "run_ok R V [] st = True"
| "run_ok R V (x # xs) st \<longleftrightarrow> op_ok V x st \<and> run_ok R V xs (exec_dir R x st)"

lemma mutate_state: "fst (mutate cd s chk res read fin) \<in> {s, fst res}"
  by (auto simp: mutate_def invoke_def split: option.splits sum.splits fate.splits if_splits)

lemma mutate_Inr:
  assumes "mutate cd s chk res read fin = (s', Inr y)"
  obtains x where "s' = fst res" and "chk = Inr ()" and "read (snd res) = Inr x" and "fin x = Inr y"
  using assms by (auto simp: mutate_def invoke_def split: option.splits sum.splits fate.splits if_splits)

lemma incr_counter:
  assumes "redis_ok R V" "counter_is V s c i n"
  shows "snd (rd_incr R s now (generation_key c i)) = n + 1 \<and>
    V (fst (rd_incr R s now (generation_key c i))) = (V s)(generation_key c i \<mapsto> (show_nat (n + 1), None))"
proof (cases "n = 0")
  case True
  then have "live now (V s (generation_key c i)) = None" using assms(2) by (simp add: counter_is_def live_def)
  with redis_okD(5,6) [OF assms(1) this] True show ?thesis by simp
next
  case False
  then have "V s (generation_key c i) = Some (show_nat n, None)" using assms(2) by (simp add: counter_is_def)
  moreover from this have "live now (V s (generation_key c i)) = Some (show_nat n)" by (simp add: live_def)
  ultimately show ?thesis using redis_okD(7,8) [OF assms(1), of now s "generation_key c i" n] by simp
qed

text \<open>What each mutation can do to the stored values of its session.\<close>

lemma acquire_script_effect:
  assumes "redis_ok R V" "texts_ok R" "counter_is V s c i n" "n + 1 < 10 ^ 14"
  shows "ACQUIRE_SCRIPT R s now (lease_key c i) (generation_key c i) (id_to_hex R owner) (as_wire_str p) ttl =
      (case live now (V s (lease_key c i)) of
         Some v \<Rightarrow> (s, ''exists'', v, get_or_empty R s now (generation_key c i))
       | None \<Rightarrow> (rd_set_px R (fst (rd_incr R s now (generation_key c i))) now (lease_key c i) (lease_text R owner (n + 1) p) ttl,
           ''acquired'', lease_text R owner (n + 1) p, show_nat (n + 1)))"
proof -
  have "lua_tostring R (n + 1) = show_nat (n + 1)" using assms(2,4) by (simp add: texts_ok_def)
  moreover obtain s1 where "rd_incr R s now (generation_key c i) = (s1, n + 1)"
    using incr_counter [OF assms(1,3)] by (metis prod.collapse)
  ultimately show ?thesis
    by (simp add: ACQUIRE_SCRIPT_def lease_value_def lease_text_def redis_okD(1) [OF assms(1)] Let_def split: option.split)
qed

lemma acquire_effect:
  assumes "redis_ok R V" "texts_ok R" "counter_is V s c i n" "n + 1 < 10 ^ 14"
  obtains (keep) "V (fst (acquire R cd ttl now s c i owner p)) = V s"
  | (take) ms where "live now (V s (lease_key c i)) = None" "ttl_ms ttl = Inr ms"
      "V (fst (acquire R cd ttl now s c i owner p)) = (V s)(generation_key c i \<mapsto> (show_nat (n + 1), None),
         lease_key c i \<mapsto> (lease_text R owner (n + 1) p, Some (now + ms)))"
proof (cases "ttl_ms ttl")
  case (Inl e)
  then have "V (fst (acquire R cd ttl now s c i owner p)) = V s"
    by (simp add: acquire_def mutate_def Let_def split: option.split)
  then show thesis by (rule keep)
next
  case (Inr ms)
  let ?res = "ACQUIRE_SCRIPT R s now (lease_key c i) (generation_key c i) (id_to_hex R owner) (as_wire_str p) ms"
  have st: "fst (acquire R cd ttl now s c i owner p) \<in> {s, fst ?res}"
    unfolding acquire_def Inr Let_def sum.case by (rule mutate_state)
  show thesis
  proof (cases "live now (V s (lease_key c i))")
    case None
    then have "fst ?res = rd_set_px R (fst (rd_incr R s now (generation_key c i))) now (lease_key c i) (lease_text R owner (n + 1) p) ms"
      by (simp add: acquire_script_effect [OF assms])
    then have "V (fst ?res) = (V s)(generation_key c i \<mapsto> (show_nat (n + 1), None),
         lease_key c i \<mapsto> (lease_text R owner (n + 1) p, Some (now + ms)))"
      using incr_counter [OF assms(1,3), of now] by (simp add: redis_okD(2) [OF assms(1)])
    then show thesis using st keep take [OF None Inr] by auto
  next
    case (Some v)
    then have "fst ?res = s" by (simp add: acquire_script_effect [OF assms])
    then show thesis using st keep by auto
  qed
qed

lemma renew_effect:
  assumes "redis_ok R V"
  obtains (keep) "V (fst (renew R cd ttl now s l)) = V s"
  | (extend) v ms where "live now (V s (lease_key (sl_community_id l) (sl_session_id l))) = Some v" "ttl_ms ttl = Inr ms"
      "owned v (id_to_hex R (sl_owner_runtime_id l)) (show_nat (unat (sl_generation l)))"
      "V (fst (renew R cd ttl now s l)) = (V s)(lease_key (sl_community_id l) (sl_session_id l) \<mapsto> (v, Some (now + ms)))"
proof (cases "ttl_ms ttl")
  case (Inl e)
  then have "V (fst (renew R cd ttl now s l)) = V s"
    by (simp add: renew_def mutate_def Let_def split: option.split)
  then show thesis by (rule keep)
next
  case (Inr ms)
  let ?k = "lease_key (sl_community_id l) (sl_session_id l)"
  let ?res = "RENEW_SCRIPT R s now ?k (generation_key (sl_community_id l) (sl_session_id l))
    (id_to_hex R (sl_owner_runtime_id l)) (show_nat (unat (sl_generation l))) ms"
  have "fst (renew R cd ttl now s l) \<in> {s, fst ?res}"
    unfolding renew_def Inr Let_def sum.case by (rule mutate_state)
  moreover have "fst ?res = s \<or> (\<exists>v. live now (V s ?k) = Some v \<and>
      owned v (id_to_hex R (sl_owner_runtime_id l)) (show_nat (unat (sl_generation l))) \<and>
      V (fst ?res) = (V s)(?k \<mapsto> (v, Some (now + ms))))"
    by (auto simp: RENEW_SCRIPT_def redis_okD(1,4) [OF assms] Let_def split: option.split)
  ultimately show thesis using keep extend [OF _ Inr] by auto
qed

lemma release_effect:
  assumes "redis_ok R V"
  obtains (keep) "V (fst (release_lease R cd now s l)) = V s"
  | (drop) v where "live now (V s (lease_key (sl_community_id l) (sl_session_id l))) = Some v"
      "owned v (id_to_hex R (sl_owner_runtime_id l)) (show_nat (unat (sl_generation l)))"
      "V (fst (release_lease R cd now s l)) = (V s)(lease_key (sl_community_id l) (sl_session_id l) := None)"
proof -
  let ?k = "lease_key (sl_community_id l) (sl_session_id l)"
  let ?res = "RELEASE_SCRIPT R s now ?k (generation_key (sl_community_id l) (sl_session_id l))
    (id_to_hex R (sl_owner_runtime_id l)) (show_nat (unat (sl_generation l)))"
  have "fst (release_lease R cd now s l) \<in> {s, fst ?res}"
    unfolding release_lease_def Let_def by (rule mutate_state)
  moreover have "fst ?res = s \<or> (\<exists>v. live now (V s ?k) = Some v \<and>
      owned v (id_to_hex R (sl_owner_runtime_id l)) (show_nat (unat (sl_generation l))) \<and>
      V (fst ?res) = (V s)(?k := None))"
    by (auto simp: RELEASE_SCRIPT_def redis_okD(1,3) [OF assms] Let_def split: option.split)
  ultimately show thesis using keep drop by auto
qed

text \<open>
  What one call, by whomever and on whichever session, can do to a given session: leave it alone,
  give it to a new owner under the next generation, or extend or end the lease for its holder.
\<close>

definition acts_for :: "dir_op \<Rightarrow> string \<Rightarrow> uuid \<Rightarrow> string \<Rightarrow> ('s redis) \<Rightarrow> bool" where
  "acts_for x c i v R \<longleftrightarrow>
     (case x of
        RenewOp _ _ l \<Rightarrow> sl_community_id l = c \<and> sl_session_id l = i \<and>
          owned v (id_to_hex R (sl_owner_runtime_id l)) (show_nat (unat (sl_generation l)))
      | ReleaseOp _ l \<Rightarrow> sl_community_id l = c \<and> sl_session_id l = i \<and>
          owned v (id_to_hex R (sl_owner_runtime_id l)) (show_nat (unat (sl_generation l)))
      | _ \<Rightarrow> False)"

lemma op_effect:
  assumes R: "redis_ok R V" "texts_ok R" and ok: "op_ok V x (s, now)" "exec_dir R x (s, now) = (s', now')"
    and plain: "plain c" "plain i"
  obtains (keep) "V s' (generation_key c i) = V s (generation_key c i)" "V s' (lease_key c i) = V s (lease_key c i)"
  | (take) n owner p ms where "live now (V s (lease_key c i)) = None" "counter_is V s c i n" "n + 1 < 10 ^ 14"
      "length owner = 32" "V s' (generation_key c i) = Some (show_nat (n + 1), None)"
      "V s' (lease_key c i) = Some (lease_text R owner (n + 1) p, Some (now + ms))" "now' = now" "\<And>v. \<not> acts_for x c i v R"
  | (held) v d where "live now (V s (lease_key c i)) = Some v" "acts_for x c i v R" "now' = now"
      "V s' (generation_key c i) = V s (generation_key c i)" "V s' (lease_key c i) \<in> {None, Some (v, Some d)}"
proof (cases x)
  case (Tick d)
  then show thesis using ok keep by simp
next
  case (AcquireOp cd ttl c0 i0 owner p)
  with ok(1) obtain n where pre: "plain c0" "plain i0" "length owner = 32" "counter_is V s c0 i0 n" "n + 1 < 10 ^ 14" by auto
  have s': "s' = fst (acquire R cd ttl now s c0 i0 owner p)" "now' = now" using ok(2) AcquireOp by auto
  note keys = keys_differ [OF plain pre(1,2)] keys_differ [OF pre(1,2) plain]
  from R pre(4,5) show thesis
  proof (cases rule: acquire_effect [where cd = cd and ttl = ttl and now = now and owner = owner and p = p])
    case keep
    then show thesis using that(1) s' by simp
  next
    case (take ms)
    show thesis
    proof (cases "c = c0 \<and> i = i0")
      case True
      then show thesis using take pre s' keys that(2) [of n owner p ms] AcquireOp by (auto simp: acts_for_def)
    next
      case False
      then show thesis using take s' keys that(1) by auto
    qed
  qed
next
  case (RenewOp cd ttl l)
  let ?c = "sl_community_id l" and ?i = "sl_session_id l"
  have s': "s' = fst (renew R cd ttl now s l)" "now' = now" and pre: "plain ?c" "plain ?i"
    using ok RenewOp by (auto simp: lease_ok_def)
  note keys = keys_differ [OF plain pre] keys_differ [OF pre plain]
  from R(1) show thesis
  proof (cases rule: renew_effect [where cd = cd and ttl = ttl and now = now and s = s and l = l])
    case keep
    then show thesis using that(1) s' by simp
  next
    case (extend v ms)
    show thesis
    proof (cases "c = ?c \<and> i = ?i")
      case True
      then show thesis using extend s' keys that(3) [of v "now + ms"] RenewOp by (auto simp: acts_for_def)
    next
      case False
      then show thesis using extend s' keys that(1) by auto
    qed
  qed
next
  case (ReleaseOp cd l)
  let ?c = "sl_community_id l" and ?i = "sl_session_id l"
  have s': "s' = fst (release_lease R cd now s l)" "now' = now" and pre: "plain ?c" "plain ?i"
    using ok ReleaseOp by (auto simp: lease_ok_def)
  note keys = keys_differ [OF plain pre] keys_differ [OF pre plain]
  from R(1) show thesis
  proof (cases rule: release_effect [where cd = cd and now = now and s = s and l = l])
    case keep
    then show thesis using that(1) s' by simp
  next
    case (drop v)
    show thesis
    proof (cases "c = ?c \<and> i = ?i")
      case True
      then show thesis using drop s' keys that(3) [of v] ReleaseOp by (auto simp: acts_for_def)
    next
      case False
      then show thesis using drop s' keys that(1) by auto
    qed
  qed
qed

end
