(* ===== verification/Tunnel_Fence.thy ===== *)
theory Tunnel_Fence
  imports Tunnel_Directory
begin

text \<open>
  What the session directory guarantees when any number of relays use it, for every order of their
  calls and every failure around a script: the invariant of the stored values, how a session can
  develop, and from these the fencing of former owners and the protection of the present one.
\<close>

subsection \<open>The invariant along runs\<close>

lemma counter_unique: "counter_is V s c i m \<Longrightarrow> counter_is V s c i n \<Longrightarrow> m = n"
  by (auto simp: counter_is_def split: if_splits)

lemma session_okE:
  assumes "session_ok R V s c i"
  obtains (free) n where "n < 10 ^ 14" "counter_is V s c i n" "V s (lease_key c i) = None"
  | (leased) n owner p d where "n < 10 ^ 14" "counter_is V s c i n" "0 < n" "length owner = 32"
      "V s (lease_key c i) = Some (lease_text R owner n p, Some d)"
  using assms unfolding session_ok_def by blast

lemma exec_session_ok:
  assumes R: "redis_ok R V" "texts_ok R" and ok: "op_ok V x (s, now)" "exec_dir R x (s, now) = (s', now')"
    and plain: "plain c" "plain i" and inv: "session_ok R V s c i"
  shows "session_ok R V s' c i"
  using R ok plain
proof (cases rule: op_effect)
  case keep
  with inv show ?thesis by (simp add: session_ok_def counter_is_def)
next
  case (take n owner p ms)
  then have "counter_is V s' c i (n + 1)" by (simp add: counter_is_def)
  with take show ?thesis unfolding session_ok_def by (intro exI [of _ "n + 1"]) auto
next
  case (held v d)
  from held(1) obtain e where v: "V s (lease_key c i) = Some (v, e)" by (auto simp: live_def split: option.splits if_splits)
  from inv show ?thesis
  proof (cases rule: session_okE)
    case (free n)
    with v show ?thesis by simp
  next
    case (leased n owner p d0)
    then have "counter_is V s' c i n" using held by (simp add: counter_is_def)
    with leased v held(5) show ?thesis unfolding session_ok_def by (intro exI [of _ n]) auto
  qed
qed

lemma run_dir_inv:
  assumes R: "redis_ok R V" "texts_ok R" and "run_ok R V xs st" "dir_inv R V st"
  shows "dir_inv R V (run_dir R xs st)"
  using assms(3,4)
proof (induction xs arbitrary: st)
  case (Cons x xs)
  obtain s now s' now' where st: "st = (s, now)" and e: "exec_dir R x st = (s', now')" by (metis prod.collapse)
  have "dir_inv R V (s', now')"
    using Cons.prems e exec_session_ok [OF R] unfolding dir_inv_def st by auto
  with Cons e show ?case by simp
qed simp

lemma dir_inv_empty: "V s = Map.empty \<Longrightarrow> dir_inv R V (s, now)"
  by (auto simp: dir_inv_def session_ok_def counter_is_def intro: exI [of _ 0])

lemma run_dir_append: "run_dir R (xs @ ys) st = run_dir R ys (run_dir R xs st)"
  by (induction xs arbitrary: st) auto

lemma run_ok_append: "run_ok R V (xs @ ys) st \<longleftrightarrow> run_ok R V xs st \<and> run_ok R V ys (run_dir R xs st)"
  by (induction xs arbitrary: st) auto

text \<open>
  How the stored values of a session can develop: the counter never falls, and while it stays the
  same the lease can only be the one that was there, if any.
\<close>

definition succeeds :: "('s \<Rightarrow> string \<Rightarrow> (string \<times> nat option) option) \<Rightarrow> string \<Rightarrow> uuid \<Rightarrow> 's \<Rightarrow> 's \<Rightarrow> bool" where
  "succeeds V c i s s' \<longleftrightarrow> (\<forall>n n'. counter_is V s c i n \<longrightarrow> counter_is V s' c i n' \<longrightarrow> n \<le> n' \<and>
     (n = n' \<longrightarrow> (\<forall>v d. V s' (lease_key c i) = Some (v, d) \<longrightarrow> (\<exists>d0. V s (lease_key c i) = Some (v, d0)))))"

lemma exec_succeeds:
  assumes R: "redis_ok R V" "texts_ok R" and ok: "op_ok V x (s, now)" "exec_dir R x (s, now) = (s', now')"
    and plain: "plain c" "plain i"
  shows "succeeds V c i s s'"
  using R ok plain
proof (cases rule: op_effect)
  case keep
  then show ?thesis by (auto simp: succeeds_def counter_is_def split: if_splits)
next
  case (take n owner p ms)
  then have "counter_is V s' c i (n + 1)" by (simp add: counter_is_def)
  with take(2) show ?thesis unfolding succeeds_def by (metis counter_unique Suc_eq_plus1 le_SucI n_not_Suc_n order_refl)
next
  case (held v d)
  then show ?thesis by (auto simp: succeeds_def counter_is_def live_def split: if_splits option.splits)
qed

lemma succeeds_trans:
  assumes ab: "succeeds V c i a b" and bd: "succeeds V c i b d" and m: "counter_is V b c i m"
  shows "succeeds V c i a d"
  unfolding succeeds_def
proof (intro allI impI)
  fix n n' assume n: "counter_is V a c i n" "counter_is V d c i n'"
  note 1 = ab [unfolded succeeds_def, rule_format, OF n(1) m] and 2 = bd [unfolded succeeds_def, rule_format, OF m n(2)]
  show "n \<le> n' \<and> (n = n' \<longrightarrow> (\<forall>v e. V d (lease_key c i) = Some (v, e) \<longrightarrow> (\<exists>e0. V a (lease_key c i) = Some (v, e0))))"
  proof (intro conjI impI allI)
    show "n \<le> n'" using 1 2 by simp
    fix v e assume eq: "n = n'" and "V d (lease_key c i) = Some (v, e)"
    moreover from eq have "m = n'" "n = m" using 1 2 by simp_all
    ultimately show "\<exists>e0. V a (lease_key c i) = Some (v, e0)" using 1 2 by blast
  qed
qed

lemma run_succeeds:
  assumes R: "redis_ok R V" "texts_ok R" and ok: "run_ok R V xs (s, now)" "run_dir R xs (s, now) = (s', now')"
    and plain: "plain c" "plain i" and inv: "dir_inv R V (s, now)"
  shows "succeeds V c i s s' \<and> now \<le> now'"
  using ok inv
proof (induction xs arbitrary: s now)
  case Nil
  then show ?case by (auto simp: succeeds_def dest: counter_unique)
next
  case (Cons x xs)
  obtain s1 now1 where e: "exec_dir R x (s, now) = (s1, now1)" by fastforce
  have inv1: "dir_inv R V (s1, now1)"
    using run_dir_inv [OF R, of "[x]" "(s, now)"] Cons.prems e by simp
  then have "session_ok R V s1 c i" using plain by (simp add: dir_inv_def)
  then obtain m where m: "counter_is V s1 c i m" unfolding session_ok_def by blast
  have "now \<le> now1" using e by (cases x) auto
  moreover have 1: "succeeds V c i s s1" using exec_succeeds [OF R _ e plain] Cons.prems by simp
  have 2: "succeeds V c i s1 s' \<and> now1 \<le> now'"
    by (rule Cons.IH) (use Cons.prems e inv1 in simp_all)
  ultimately show ?case using succeeds_trans [OF 1 _ m] by simp
qed

subsection \<open>What validation and lookup see\<close>

lemma live_Some: "live now x = Some v \<longleftrightarrow> (\<exists>d. x = Some (v, d) \<and> (\<forall>t. d = Some t \<longrightarrow> now < t))"
  by (auto simp: live_def split: option.splits if_splits)

lemma parse_optional_text:
  assumes "texts_ok R" "length owner = 32" "0 < g" "g < 10 ^ 14"
  shows "parse_optional_lease R c i (lease_text R owner g p) = Inr (Some \<lparr>sl_community_id = c, sl_session_id = i,
    sl_owner_runtime_id = owner, sl_generation = of_nat g, sl_profile = p\<rparr>)"
proof -
  have "g < 2 ^ 64" using assms(4) by simp
  moreover have "lease_text R owner g p \<noteq> []" by (simp add: lease_text_def)
  ultimately show ?thesis using assms parse_lease_text [of R owner g c i p] by (simp add: parse_optional_lease_def)
qed

lemma parse_optional_counter:
  assumes "0 < n" "n < 10 ^ 14"
  shows "parse_optional_generation c i (show_nat n) = Inr (Some (of_nat n))"
proof -
  have n: "n < 2 ^ 64" using assms by simp
  then have "(of_nat n :: u64) \<noteq> 0" using assms(1) by (simp add: word_unat_eq_iff unsigned_of_nat take_bit_nat_eq_self)
  with n assms show ?thesis by (simp add: parse_optional_generation_def parse_u64_def parse_show_nat show_nat_not_Nil)
qed

text \<open>The lease of a session that is in force at a time, and the last generation issued.\<close>

definition in_force :: "'s redis \<Rightarrow> ('s \<Rightarrow> string \<Rightarrow> (string \<times> nat option) option) \<Rightarrow> 's \<Rightarrow> nat \<Rightarrow> SessionLease \<Rightarrow> bool" where
  "in_force R V s now l \<longleftrightarrow>
     live now (V s (lease_key (sl_community_id l) (sl_session_id l))) =
       Some (lease_text R (sl_owner_runtime_id l) (unat (sl_generation l)) (sl_profile l)) \<and>
     counter_is V s (sl_community_id l) (sl_session_id l) (unat (sl_generation l)) \<and>
     0 < sl_generation l \<and> unat (sl_generation l) < 10 ^ 14 \<and> length (sl_owner_runtime_id l) = 32"

lemma unat_small: "n < 10 ^ 14 \<Longrightarrow> unat (of_nat n :: u64) = n"
  by (simp add: unsigned_of_nat take_bit_nat_eq_self)

lemma session_casesE:
  assumes "texts_ok R" "session_ok R V s c i"
  obtains (none) n where "n < 10 ^ 14" "counter_is V s c i n" "live now (V s (lease_key c i)) = None"
  | (some) l where "sl_community_id l = c" "sl_session_id l = i" "in_force R V s now l"
  using assms(2)
proof (cases rule: session_okE)
  case (free n)
  then show thesis using none [of n] by (simp add: live_def)
next
  case (leased n owner p d)
  show thesis
  proof (cases "now < d")
    case True
    let ?l = "\<lparr>sl_community_id = c, sl_session_id = i, sl_owner_runtime_id = owner, sl_generation = of_nat n, sl_profile = p\<rparr>"
    have "in_force R V s now ?l" using True leased
      by (simp add: in_force_def live_def unat_small word_less_nat_alt)
    then show thesis using some [of ?l] by simp
  next
    case False
    then show thesis using leased none [of n] by (simp add: live_def)
  qed
qed

lemma lease_of_text:
  assumes "texts_ok R" "in_force R V s now l"
  shows "parse_lease R (sl_community_id l) (sl_session_id l)
      (lease_text R (sl_owner_runtime_id l) (unat (sl_generation l)) (sl_profile l)) = Inr l"
    and "parse_optional_lease R (sl_community_id l) (sl_session_id l)
      (lease_text R (sl_owner_runtime_id l) (unat (sl_generation l)) (sl_profile l)) = Inr (Some l)"
proof -
  have g: "0 < unat (sl_generation l)" "unat (sl_generation l) < 10 ^ 14" "length (sl_owner_runtime_id l) = 32"
    using assms(2) by (auto simp: in_force_def word_less_nat_alt)
  then show "parse_lease R (sl_community_id l) (sl_session_id l)
      (lease_text R (sl_owner_runtime_id l) (unat (sl_generation l)) (sl_profile l)) = Inr l"
    using parse_lease_text [OF assms(1) g(3,1), of "sl_community_id l" "sl_session_id l"] by simp
  show "parse_optional_lease R (sl_community_id l) (sl_session_id l)
      (lease_text R (sl_owner_runtime_id l) (unat (sl_generation l)) (sl_profile l)) = Inr (Some l)"
    using parse_optional_text [OF assms(1) g(3,1,2), of "sl_community_id l" "sl_session_id l"] by simp
qed

lemma counter_read:
  assumes "redis_ok R V" "counter_is V s c i n" "n < 10 ^ 14"
  shows "parse_optional_generation c i (get_or_empty R s now (generation_key c i)) =
    Inr (if n = 0 then None else Some (of_nat n))"
proof -
  have "get_or_empty R s now (generation_key c i) = (if n = 0 then [] else show_nat n)"
    using assms(2) by (simp add: get_or_empty_def redis_okD(1) [OF assms(1)] counter_is_def live_def)
  moreover have "parse_optional_generation c i [] = Inr None" by (simp add: parse_optional_generation_def)
  ultimately show ?thesis using parse_optional_counter [of n c i] assms(3) by simp
qed

lemma validate_in_force:
  assumes R: "redis_ok R V" "texts_ok R" and l: "in_force R V s now l" "fh_session_id f = sl_session_id l"
  shows "validate_fenced_header R None now s (sl_community_id l) f =
    (if fh_generation f < sl_generation l then Inl (StaleGeneration (fh_session_id f) (fh_generation f) (sl_generation l))
     else if fh_generation f \<noteq> sl_generation l then Inl (FutureGeneration (fh_session_id f) (fh_generation f) (sl_generation l))
     else if fh_owner_runtime_id f \<noteq> sl_owner_runtime_id l
     then Inl (OwnerMismatch (fh_session_id f) (fh_generation f) (fh_owner_runtime_id f) (sl_owner_runtime_id l))
     else Inr ())"
proof -
  have g: "counter_is V s (sl_community_id l) (sl_session_id l) (unat (sl_generation l))" "unat (sl_generation l) < 10 ^ 14"
    "0 < sl_generation l" "unat (sl_generation l) \<noteq> 0"
    using l(1) by (auto simp: in_force_def word_less_nat_alt)
  have t: "get_or_empty R s now (lease_key (sl_community_id l) (sl_session_id l)) =
      lease_text R (sl_owner_runtime_id l) (unat (sl_generation l)) (sl_profile l)"
    using l(1) by (simp add: in_force_def get_or_empty_def redis_okD(1) [OF R(1)])
  show ?thesis
    using counter_read [OF R(1) g(1,2), of now] g(3,4)
    by (auto simp: validate_fenced_header_def VALIDATE_SCRIPT_def Let_def l(2) t lease_of_text [OF R(2) l(1)])
qed

lemma validate_none:
  assumes R: "redis_ok R V" and n: "n < 10 ^ 14" "counter_is V s c (fh_session_id f) n"
    and none: "live now (V s (lease_key c (fh_session_id f))) = None"
  shows "validate_fenced_header R None now s c f =
    (if fh_generation f < of_nat n then Inl (StaleGeneration (fh_session_id f) (fh_generation f) (of_nat n))
     else Inl (NoActiveLease (fh_session_id f) (fh_generation f) (of_nat n) (fh_owner_runtime_id f)))"
proof -
  have t: "get_or_empty R s now (lease_key c (fh_session_id f)) = []"
    using none by (simp add: get_or_empty_def redis_okD(1) [OF R])
  show ?thesis
    using counter_read [OF R n(2,1), of now]
    by (auto simp: validate_fenced_header_def VALIDATE_SCRIPT_def Let_def t parse_optional_lease_def word_gt_0)
qed

subsection \<open>Acquired leases\<close>

lemma acquired_in_force:
  assumes R: "redis_ok R V" "texts_ok R" and pre: "counter_is V s c i n" "n + 1 < 10 ^ 14" "length owner = 32"
    "plain c" "plain i"
    and acq: "acquire R cd ttl now s c i owner p = (s', Inr (Acquired l))"
  obtains ms where "ttl_ms ttl = Inr ms" "unat (sl_generation l) = n + 1" "sl_community_id l = c" "sl_session_id l = i"
    "sl_owner_runtime_id l = owner" "\<forall>t. t < now + ms \<longrightarrow> in_force R V s' t l"
    "V s' (lease_key c i) = Some (lease_text R owner (n + 1) p, Some (now + ms))" "sl_profile l = p"
proof -
  let ?l = "\<lparr>sl_community_id = c, sl_session_id = i, sl_owner_runtime_id = owner, sl_generation = of_nat (n + 1), sl_profile = p\<rparr>"
  from acq [unfolded acquire_def Let_def] obtain ms where ms: "ttl_ms ttl = Inr ms"
    by (rule mutate_Inr) (auto split: sum.splits)
  note eff = acquire_script_effect [OF R pre(1,2), of now owner p ms]
  from acq [unfolded acquire_def Let_def ms sum.case] show thesis
  proof (rule mutate_Inr)
    fix x assume st: "s' = fst (ACQUIRE_SCRIPT R s now (lease_key c i) (generation_key c i) (id_to_hex R owner) (as_wire_str p) ms)"
      and rd: "(case snd (ACQUIRE_SCRIPT R s now (lease_key c i) (generation_key c i) (id_to_hex R owner) (as_wire_str p) ms) of
          (status, value, known) \<Rightarrow> case parse_lease R c i value of Inl e \<Rightarrow> Inl e | Inr lease \<Rightarrow> Inr (status, lease)) = Inr x"
      and fin: "(case x of (status, lease) \<Rightarrow> if status = ''acquired'' then Inr (Acquired lease)
          else if status = ''exists'' then Inr (Exists lease) else Inl (UnexpectedScriptStatus status)) = Inr (Acquired l)"
    have none: "live now (V s (lease_key c i)) = None"
      using rd fin eff by (auto split: option.splits sum.splits if_splits prod.splits)
    have "n + 1 < 2 ^ 64" using pre(2) by simp
    then have pl: "parse_lease R c i (lease_text R owner (n + 1) p) = Inr ?l"
      using parse_lease_text [OF R(2) pre(3), of "n + 1"] by simp
    then have l: "l = ?l" using rd fin eff none by auto
    have V': "V s' = (V s)(generation_key c i \<mapsto> (show_nat (n + 1), None),
        lease_key c i \<mapsto> (lease_text R owner (n + 1) p, Some (now + ms)))"
      using st eff none incr_counter [OF R(1) pre(1), of now] by (simp add: redis_okD(2) [OF R(1)])
    have u: "unat (sl_generation l) = n + 1" using l unat_small [OF pre(2)] by simp
    have force: "in_force R V s' t l" if "t < now + ms" for t
      using that u l V' pre keys_differ [OF pre(4,5) pre(4,5)]
      by (simp add: in_force_def counter_is_def live_def word_less_nat_alt)
    show thesis
      by (rule that [of ms]) (use ms u l V' force in simp_all)
  qed
qed

lemma inv_session: "dir_inv R V (s, now) \<Longrightarrow> plain c \<Longrightarrow> plain i \<Longrightarrow> session_ok R V s c i"
  by (simp add: dir_inv_def)

lemma validate_accepts:
  assumes R: "redis_ok R V" "texts_ok R" and ok: "session_ok R V s c (fh_session_id f)"
    and acc: "validate_fenced_header R None now s c f = Inr ()"
  obtains l where "in_force R V s now l" "sl_community_id l = c" "f = fenced_header l"
  using R(2) ok
proof (cases rule: session_casesE [where now = now])
  case (none n)
  then show thesis using validate_none [OF R(1), of n s c f now] acc by (simp split: if_splits)
next
  case (some l)
  then have "f = fenced_header l"
    using validate_in_force [OF R, of s now l f] acc by (cases f) (auto simp: fenced_header_def split: if_splits)
  with some show thesis using that by blast
qed

lemma validate_stale:
  assumes R: "redis_ok R V" "texts_ok R" and ok: "session_ok R V s c (fh_session_id f)"
    and n: "counter_is V s c (fh_session_id f) n" "unat (fh_generation f) < n"
  shows "validate_fenced_header R None now s c f = Inl (StaleGeneration (fh_session_id f) (fh_generation f) (of_nat n))
    \<and> n < 10 ^ 14"
  using R(2) ok
proof (cases rule: session_casesE [where now = now])
  case (none m)
  then have "m = n" using n(1) counter_unique by metis
  then show ?thesis using validate_none [OF R(1), of m s c f now] none n(2)
    by (simp add: word_less_nat_alt unat_small)
next
  case (some l)
  then have "n = unat (sl_generation l)" using n(1) counter_unique unfolding in_force_def by metis
  then show ?thesis using validate_in_force [OF R some(3), of f] some n(2) by (simp add: word_less_nat_alt in_force_def)
qed

lemma run_facts:
  assumes R: "redis_ok R V" "texts_ok R" and ok: "run_ok R V (xs @ ys) (s0, t0)" "V s0 = Map.empty"
    and r: "run_dir R xs (s0, t0) = (s1, t1)"
  shows "dir_inv R V (s1, t1)" "run_ok R V ys (s1, t1)" "run_dir R (xs @ ys) (s0, t0) = run_dir R ys (s1, t1)"
proof -
  have xs: "run_ok R V xs (s0, t0)" and ys: "run_ok R V ys (s1, t1)"
    using ok(1) r by (auto simp: run_ok_append)
  show "dir_inv R V (s1, t1)" using run_dir_inv [OF R xs] dir_inv_empty [of V s0, OF ok(2)] r by metis
  show "run_ok R V ys (s1, t1)" by (rule ys)
  show "run_dir R (xs @ ys) (s0, t0) = run_dir R ys (s1, t1)" by (simp add: run_dir_append r)
qed

lemma acquired_step:
  assumes R: "redis_ok R V" "texts_ok R" and inv: "dir_inv R V (s, now)"
    and ok: "op_ok V (AcquireOp cd ttl c i owner p) (s, now)"
    and acq: "snd (acquire R cd ttl now s c i owner p) = Inr (Acquired l)"
    and ex: "exec_dir R (AcquireOp cd ttl c i owner p) (s, now) = (s', now')"
  obtains n ms where "counter_is V s c i n" "unat (sl_generation l) = n + 1" "n + 1 < 10 ^ 14" "counter_is V s' c i (n + 1)"
    "sl_community_id l = c" "sl_session_id l = i" "sl_owner_runtime_id l = owner" "dir_inv R V (s', now)" "now' = now"
    "ttl_ms ttl = Inr ms" "V s' (lease_key c i) = Some (lease_text R owner (n + 1) (sl_profile l), Some (now + ms))"
    "length owner = 32" "plain c" "plain i"
proof -
  from ok obtain n where n: "counter_is V s c i n" "n + 1 < 10 ^ 14" "length owner = 32" "plain c" "plain i" by auto
  have s': "acquire R cd ttl now s c i owner p = (s', Inr (Acquired l))" "now' = now"
    using ex acq by (auto simp: prod_eq_iff)
  from R n s'(1) obtain ms where ms: "ttl_ms ttl = Inr ms" "unat (sl_generation l) = n + 1" "sl_community_id l = c"
    "sl_session_id l = i" "sl_owner_runtime_id l = owner" and f: "\<forall>t. t < now + ms \<longrightarrow> in_force R V s' t l"
    and V: "V s' (lease_key c i) = Some (lease_text R owner (n + 1) p, Some (now + ms))" "sl_profile l = p"
    by (rule acquired_in_force)
  have "0 < ms" using ms(1) by (auto simp: ttl_ms_def Let_def split: if_splits)
  with f have "counter_is V s' c i (n + 1)" using ms by (auto simp: in_force_def)
  moreover have "dir_inv R V (s', now)"
    using run_dir_inv [OF R, of "[AcquireOp cd ttl c i owner p]" "(s, now)"] inv ok ex s'(2) by simp
  ultimately show thesis using that [of n ms] n ms s'(2) V by simp
qed

text \<open>
  C6. Of two leases a session is given one after the other, whatever happens in between, the second
  has the greater generation; and from then on every frame under the first is refused as stale,
  with a known generation that is at least that of the second.
\<close>

theorem former_owner_fenced:
  assumes "redis_ok R V" "texts_ok R" "V s0 = Map.empty"
    and "run_ok R V (xs @ AcquireOp cd ttl c i owner p # ys @ AcquireOp cd' ttl' c i owner' p' # zs) (s0, t0)"
    and "run_dir R xs (s0, t0) = (s1, t1)" "snd (acquire R cd ttl t1 s1 c i owner p) = Inr (Acquired l)"
    and "run_dir R (AcquireOp cd ttl c i owner p # ys) (s1, t1) = (s2, t2)"
    and "snd (acquire R cd' ttl' t2 s2 c i owner' p') = Inr (Acquired l')"
    and "run_dir R (AcquireOp cd' ttl' c i owner' p' # zs) (s2, t2) = (s3, t3)"
  shows "sl_generation l < sl_generation l' \<and>
    (\<exists>g. sl_generation l' \<le> g \<and>
       validate_fenced_header R None t3 s3 c (fenced_header l) = Inl (StaleGeneration i (sl_generation l) g))"
proof -
  note R = assms(1,2)
  let ?a = "AcquireOp cd ttl c i owner p" and ?b = "AcquireOp cd' ttl' c i owner' p'"
  obtain sa ta where a: "exec_dir R ?a (s1, t1) = (sa, ta)" by fastforce
  obtain sb tb where b: "exec_dir R ?b (s2, t2) = (sb, tb)" by fastforce
  note 1 = run_facts [OF R assms(4,3,5)]
  have oka: "op_ok V ?a (s1, t1)" and oky: "run_ok R V (ys @ ?b # zs) (sa, ta)" and ry: "run_dir R ys (sa, ta) = (s2, t2)"
    using 1(2) a assms(7) by (simp_all del: exec_dir.simps)
  from R 1(1) oka assms(6) a obtain n where n: "unat (sl_generation l) = n + 1" "counter_is V sa c i (n + 1)"
    and inva: "dir_inv R V (sa, ta)" and l: "sl_community_id l = c" "sl_session_id l = i" and pl: "plain c" "plain i"
    by (rule acquired_step) blast
  have okys: "run_ok R V ys (sa, ta)" and okb: "op_ok V ?b (s2, t2)" and okz: "run_ok R V zs (sb, tb)"
    using oky ry b by (simp_all add: run_ok_append del: exec_dir.simps)
  have inv2: "dir_inv R V (s2, t2)" using run_dir_inv [OF R okys inva] ry by simp
  from R inv2 okb assms(8) b obtain m where m: "counter_is V s2 c i m" "unat (sl_generation l') = m + 1" "counter_is V sb c i (m + 1)"
    and invb: "dir_inv R V (sb, tb)" and bound: "m + 1 < 10 ^ 14"
    by (rule acquired_step) blast
  have "n + 1 \<le> m" using run_succeeds [OF R okys ry pl inva] n(2) m(1) unfolding succeeds_def by blast
  have rz: "run_dir R zs (sb, tb) = (s3, t3)" using assms(9) b by (simp del: exec_dir.simps)
  have "dir_inv R V (s3, t3)" using run_dir_inv [OF R okz invb] rz by simp
  then have ok3: "session_ok R V s3 c i" using pl by (rule inv_session)
  then obtain k where k: "counter_is V s3 c i k" unfolding session_ok_def by blast
  have "m + 1 \<le> k" using run_succeeds [OF R okz rz pl invb] m(3) k unfolding succeeds_def by blast
  have "unat (sl_generation l) < k" using n(1) \<open>n + 1 \<le> m\<close> \<open>m + 1 \<le> k\<close> by simp
  with validate_stale [OF R, of s3 c "fenced_header l" k t3] ok3 k l
  have v: "validate_fenced_header R None t3 s3 c (fenced_header l) = Inl (StaleGeneration i (sl_generation l) (of_nat k))" "k < 10 ^ 14"
    by (simp_all add: fenced_header_def)
  have "sl_generation l' \<le> of_nat k" using m(2) \<open>m + 1 \<le> k\<close> v(2) by (simp add: word_le_nat_alt unat_small)
  moreover have "sl_generation l < sl_generation l'" using n(1) m(2) \<open>n + 1 \<le> m\<close> by (simp add: word_less_nat_alt)
  ultimately show ?thesis using v(1) by blast
qed

text \<open>
  C7. The headers a session's frames are accepted under never go back: a header accepted later has at
  least the generation of one accepted before, and under one generation only one header is ever
  accepted, so no two owners ever act under the same generation.
\<close>

theorem fence_monotone:
  assumes "redis_ok R V" "texts_ok R" "V s0 = Map.empty" "run_ok R V (xs @ ys) (s0, t0)"
    and "run_dir R xs (s0, t0) = (s1, t1)" "run_dir R ys (s1, t1) = (s2, t2)"
    and "plain c" "plain (fh_session_id f)" "fh_session_id f' = fh_session_id f"
    and "validate_fenced_header R None t1 s1 c f = Inr ()" "validate_fenced_header R None t2 s2 c f' = Inr ()"
  shows "fh_generation f \<le> fh_generation f' \<and> (fh_generation f = fh_generation f' \<longrightarrow> f = f')"
proof -
  note R = assms(1,2) and 1 = run_facts [OF assms(1,2,4,3,5)]
  have inv2: "dir_inv R V (s2, t2)" using run_dir_inv [OF R 1(2,1)] assms(6) by simp
  from R inv_session [OF 1(1) assms(7,8)] assms(10) obtain l where
    l: "in_force R V s1 t1 l" "sl_community_id l = c" "f = fenced_header l" by (rule validate_accepts)
  from inv_session [OF inv2 assms(7,8)] have "session_ok R V s2 c (fh_session_id f')" using assms(9) by simp
  from R this assms(11) obtain l' where
    l': "in_force R V s2 t2 l'" "sl_community_id l' = c" "f' = fenced_header l'" by (rule validate_accepts)
  let ?i = "fh_session_id f"
  have i: "sl_session_id l = ?i" "sl_session_id l' = ?i" using l l' assms(9) by (auto simp: fenced_header_def)
  have c1: "counter_is V s1 c ?i (unat (sl_generation l))" and c2: "counter_is V s2 c ?i (unat (sl_generation l'))"
    and v2: "live t2 (V s2 (lease_key c ?i)) = Some (lease_text R (sl_owner_runtime_id l') (unat (sl_generation l')) (sl_profile l'))"
    and v1: "live t1 (V s1 (lease_key c ?i)) = Some (lease_text R (sl_owner_runtime_id l) (unat (sl_generation l)) (sl_profile l))"
    using l l' i by (auto simp: in_force_def)
  have succ: "succeeds V c ?i s1 s2" using run_succeeds [OF R 1(2) assms(6-8) 1(1)] by blast
  have "unat (sl_generation l) \<le> unat (sl_generation l')" using succ c1 c2 unfolding succeeds_def by blast
  then have le: "fh_generation f \<le> fh_generation f'" using l(3) l'(3) by (simp add: fenced_header_def word_le_nat_alt)
  have "f = f'" if eq: "fh_generation f = fh_generation f'"
  proof -
    have g: "sl_generation l = sl_generation l'" using eq l(3) l'(3) by (simp add: fenced_header_def)
    obtain d where "V s2 (lease_key c ?i) = Some (lease_text R (sl_owner_runtime_id l') (unat (sl_generation l')) (sl_profile l'), d)"
      using v2 unfolding live_Some by blast
    then obtain d0 where "V s1 (lease_key c ?i) = Some (lease_text R (sl_owner_runtime_id l') (unat (sl_generation l')) (sl_profile l'), d0)"
      using succ c1 c2 g unfolding succeeds_def by metis
    then have "lease_text R (sl_owner_runtime_id l) (unat (sl_generation l)) (sl_profile l) =
        lease_text R (sl_owner_runtime_id l') (unat (sl_generation l')) (sl_profile l')"
      using v1 unfolding live_Some by auto
    moreover have "in_force R V s1 t1 l" "length (sl_owner_runtime_id l') = 32" "0 < unat (sl_generation l')" "unat (sl_generation l') < 10 ^ 14"
      using l(1) l'(1) by (auto simp: in_force_def word_less_nat_alt)
    ultimately have "Inr l = Inr \<lparr>sl_community_id = c, sl_session_id = ?i, sl_owner_runtime_id = sl_owner_runtime_id l',
        sl_generation = of_nat (unat (sl_generation l')), sl_profile = sl_profile l'\<rparr>"
      using lease_of_text(1) [OF R(2) l(1)] parse_lease_text [OF R(2), of "sl_owner_runtime_id l'" "unat (sl_generation l')" c ?i "sl_profile l'"] l(2) i
      by simp
    then have "l = l'" using l'(2) i by (cases l') simp
    then show "f = f'" using l(3) l'(3) by simp
  qed
  with le show ?thesis by blast
qed

subsection \<open>Protection of the present owner\<close>

text \<open>A renewal or release in the name of a lease.\<close>

fun names_lease :: "dir_op \<Rightarrow> SessionLease \<Rightarrow> bool" where
  "names_lease (RenewOp _ _ k) l \<longleftrightarrow> sl_community_id k = sl_community_id l \<and> fenced_header k = fenced_header l"
| "names_lease (ReleaseOp _ k) l \<longleftrightarrow> sl_community_id k = sl_community_id l \<and> fenced_header k = fenced_header l"
| "names_lease _ _ = False"

lemma hex_inj:
  assumes "texts_ok R" "length a = 32" "length b = 32" "id_to_hex R a = id_to_hex R b"
  shows "a = b"
  using assms unfolding texts_ok_def by (metis option.inject)

lemma acts_for_names:
  assumes "texts_ok R" "op_ok V x st" "in_force R V s now l"
    and "acts_for x (sl_community_id l) (sl_session_id l) (lease_text R (sl_owner_runtime_id l) (unat (sl_generation l)) (sl_profile l)) R"
  shows "names_lease x l"
proof -
  have o: "length (sl_owner_runtime_id l) = 32" using assms(3) by (simp add: in_force_def)
  note hex_inj [OF assms(1) o]
  with assms(2,4) show ?thesis
    by (cases x) (auto simp: acts_for_def owned_lease_text [OF assms(1) o] lease_ok_def fenced_header_def
        word_unat_eq_iff dest: hex_inj [OF assms(1) o])
qed

lemma held_step:
  assumes R: "redis_ok R V" "texts_ok R" and ok: "op_ok V x (s, now)" "exec_dir R x (s, now) = (s', now')"
    and plain: "plain c" "plain i" and v: "live now (V s (lease_key c i)) = Some v" and other: "\<not> acts_for x c i v R"
  shows "V s' (generation_key c i) = V s (generation_key c i) \<and> V s' (lease_key c i) = V s (lease_key c i)"
  using R ok plain by (cases rule: op_effect) (use v other in auto)

lemma held_run:
  assumes R: "redis_ok R V" "texts_ok R" and run: "run_ok R V ys (s, t)" "run_dir R ys (s, t) = (s', t')" "dir_inv R V (s, t)"
    and pl: "plain (sl_community_id l)" "plain (sl_session_id l)"
    and l: "\<forall>u. t \<le> u \<and> u < d \<longrightarrow> in_force R V s u l" and t': "t' < d" and other: "\<forall>x \<in> set ys. \<not> names_lease x l"
  shows "in_force R V s' t' l"
  using run l other
proof (induction ys arbitrary: s t)
  case Nil
  then show ?case using t' by simp
next
  case (Cons x ys)
  obtain s1 t1 where e: "exec_dir R x (s, t) = (s1, t1)" by fastforce
  have ok: "op_ok V x (s, t)" "run_ok R V ys (s1, t1)" "run_dir R ys (s1, t1) = (s', t')"
    using Cons.prems(1,2) e by (simp_all del: exec_dir.simps)
  have inv1: "dir_inv R V (s1, t1)" using run_dir_inv [OF R, of "[x]" "(s, t)"] Cons.prems(3) e ok(1) by (simp del: exec_dir.simps)
  have t: "t \<le> t1" using e by (cases x) auto
  have "t1 \<le> t'" using run_succeeds [OF R ok(2,3) pl inv1] by blast
  with t t' have "t < d" by simp
  then have fs: "in_force R V s t l" using Cons.prems(4) by simp
  then have v: "live t (V s (lease_key (sl_community_id l) (sl_session_id l))) =
      Some (lease_text R (sl_owner_runtime_id l) (unat (sl_generation l)) (sl_profile l))" by (simp add: in_force_def)
  have "\<not> acts_for x (sl_community_id l) (sl_session_id l) (lease_text R (sl_owner_runtime_id l) (unat (sl_generation l)) (sl_profile l)) R"
    using acts_for_names [OF R(2) ok(1) fs] Cons.prems(5) by auto
  from held_step [OF R ok(1) e pl v this] have same: "in_force R V s1 u l \<longleftrightarrow> in_force R V s u l" for u
    by (simp add: in_force_def counter_is_def)
  then have "\<forall>u. t1 \<le> u \<and> u < d \<longrightarrow> in_force R V s1 u l" using Cons.prems(4) t by simp
  then show ?case using Cons.IH [OF ok(2,3) inv1] Cons.prems(5) by simp
qed

lemma lookup_in_force:
  assumes R: "redis_ok R V" "texts_ok R" and l: "in_force R V s now l"
  shows "lookup_lease R None now s (sl_community_id l) (sl_session_id l) = Inr (Some l)"
proof -
  have "rd_get R s now (lease_key (sl_community_id l) (sl_session_id l)) =
      Some (lease_text R (sl_owner_runtime_id l) (unat (sl_generation l)) (sl_profile l))"
    using l by (simp add: in_force_def redis_okD(1) [OF R(1)])
  then show ?thesis by (simp add: lookup_lease_def lease_of_text(1) [OF R(2) l])
qed

text \<open>
  C8. A relay that has acquired a session keeps it until its lease expires: unless somebody renews or
  releases in the name of that very lease, no calls of others and no failures in between stop its
  frames from being accepted or its lease from being found, at any time before the expiry.
\<close>

theorem owner_protected:
  assumes "redis_ok R V" "texts_ok R" "V s0 = Map.empty"
    and "run_ok R V (xs @ AcquireOp cd ttl c i owner p # ys) (s0, t0)"
    and "run_dir R xs (s0, t0) = (s1, t1)" "snd (acquire R cd ttl t1 s1 c i owner p) = Inr (Acquired l)"
    and "run_dir R (AcquireOp cd ttl c i owner p # ys) (s1, t1) = (s2, t2)"
    and "\<forall>x \<in> set ys. \<not> names_lease x l" "t2 < t1 + ttl div 10 ^ 6"
  shows "validate_fenced_header R None t2 s2 c (fenced_header l) = Inr () \<and> lookup_lease R None t2 s2 c i = Inr (Some l)"
proof -
  note R = assms(1,2) and 1 = run_facts [OF assms(1,2,4,3,5)]
  let ?a = "AcquireOp cd ttl c i owner p"
  obtain sa ta where a: "exec_dir R ?a (s1, t1) = (sa, ta)" by fastforce
  have oka: "op_ok V ?a (s1, t1)" and oky: "run_ok R V ys (sa, ta)" and ry: "run_dir R ys (sa, ta) = (s2, t2)"
    using 1(2) a assms(7) by (simp_all del: exec_dir.simps)
  from R 1(1) oka assms(6) a obtain n ms where n: "unat (sl_generation l) = n + 1" "counter_is V sa c i (n + 1)" "n + 1 < 10 ^ 14"
    and l: "sl_community_id l = c" "sl_session_id l = i" "sl_owner_runtime_id l = owner" "length owner = 32"
    and inva: "dir_inv R V (sa, t1)" "ta = t1" and pl: "plain c" "plain i" and ms: "ttl_ms ttl = Inr ms"
    and V: "V sa (lease_key c i) = Some (lease_text R owner (n + 1) (sl_profile l), Some (t1 + ms))"
    by (rule acquired_step) blast
  have "ms = ttl div 10 ^ 6" using ms by (auto simp: ttl_ms_def Let_def split: if_splits)
  moreover have "in_force R V sa u l" if "u < t1 + ms" for u
    using that n l V by (simp add: in_force_def live_def word_less_nat_alt)
  ultimately have f: "in_force R V s2 t2 l"
    using held_run [OF R oky ry, of l "t1 + ms"] inva pl l assms(8,9) by simp
  then show ?thesis
    using validate_in_force [OF R f, of "fenced_header l"] lookup_in_force [OF R f] l by (simp add: fenced_header_def)
qed

text \<open>
  Whatever a run has stored can be read: a lookup never finds a malformed lease, validation never
  fails for another reason than the fence, and it accepts exactly the header of the lease that a
  lookup at the same moment returns.
\<close>

theorem validate_agrees_with_lookup:
  assumes "redis_ok R V" "texts_ok R" "V s0 = Map.empty" "run_ok R V xs (s0, t0)"
    and "run_dir R xs (s0, t0) = (s, now)" "plain c" "plain (fh_session_id f)"
  shows "\<exists>cur. lookup_lease R None now s c (fh_session_id f) = Inr cur \<and>
    (validate_fenced_header R None now s c f = Inr () \<longleftrightarrow> map_option fenced_header cur = Some f) \<and>
    (\<forall>e. validate_fenced_header R None now s c f \<noteq> Inl (Transport e))"
proof -
  note R = assms(1,2)
  have "dir_inv R V (s, now)" using run_facts(1) [OF R, of xs "[]" s0 t0] assms(3-5) by simp
  then have ok: "session_ok R V s c (fh_session_id f)" using assms(6,7) by (rule inv_session)
  from R(2) ok show ?thesis
  proof (cases rule: session_casesE [where now = now])
    case (none n)
    then have "lookup_lease R None now s c (fh_session_id f) = Inr None"
      by (simp add: lookup_lease_def redis_okD(1) [OF R(1)])
    then show ?thesis using validate_none [OF R(1) none] by simp
  next
    case (some l)
    then have "lookup_lease R None now s c (fh_session_id f) = Inr (Some l)" using lookup_in_force [OF R some(3)] by simp
    then show ?thesis using validate_in_force [OF R some(3), of f] some(1,2)
      by (cases f) (auto simp: fenced_header_def)
  qed
qed

subsection \<open>Progress and concrete runs\<close>

definition all_well :: conditions where
  "all_well = \<lparr>cd_begin = None, cd_pool = None, cd_script = Ran, cd_finish = None\<rparr>"

lemma acquire_free:
  assumes R: "redis_ok R V" "texts_ok R" and pre: "counter_is V s c i n" "n + 1 < 10 ^ 14" "length owner = 32"
    and none: "live now (V s (lease_key c i)) = None" and ms: "ttl_ms ttl = Inr ms"
  shows "acquire R all_well ttl now s c i owner p =
    (rd_set_px R (fst (rd_incr R s now (generation_key c i))) now (lease_key c i) (lease_text R owner (n + 1) p) ms,
     Inr (Acquired \<lparr>sl_community_id = c, sl_session_id = i, sl_owner_runtime_id = owner, sl_generation = of_nat (n + 1), sl_profile = p\<rparr>))"
proof -
  have "n + 1 < 2 ^ 64" using pre(2) by simp
  then have "parse_lease R c i (lease_text R owner (n + 1) p) = Inr \<lparr>sl_community_id = c, sl_session_id = i,
      sl_owner_runtime_id = owner, sl_generation = of_nat (n + 1), sl_profile = p\<rparr>"
    using parse_lease_text [OF R(2) pre(3), of "n + 1"] by simp
  with none show ?thesis
    unfolding acquire_def ms sum.case Let_def acquire_script_effect [OF R pre(1,2)]
    by (simp add: mutate_def invoke_def all_well_def)
qed

text \<open>
  C39. When the lease of a session has expired or was released, the next relay that asks gets it, under
  the next generation, and its frames are accepted at once, provided the calls around the script
  succeed; while a lease is in force the same call only reports it.
\<close>

theorem takeover_progress:
  assumes "redis_ok R V" "texts_ok R" "V s0 = Map.empty" "run_ok R V (xs @ [AcquireOp all_well ttl c i owner p]) (s0, t0)"
    and "run_dir R xs (s0, t0) = (s, now)" "0 < ttl div 10 ^ 6" "ttl div 10 ^ 6 < 2 ^ 63"
  shows "\<exists>s' l. takeover R all_well ttl now s c i owner p = (s', Inr l) \<and>
    (case lookup_lease R None now s c i of
       Inr None \<Rightarrow> \<exists>k. l = Acquired k \<and> sl_owner_runtime_id k = owner \<and>
         validate_fenced_header R None now s' c (fenced_header k) = Inr ()
     | Inr (Some k) \<Rightarrow> l = Exists k \<and> s' = s
     | Inl _ \<Rightarrow> False)"
proof -
  note R = assms(1,2) and 1 = run_facts [OF assms(1,2,4,3,5)]
  from 1(2) obtain n where n: "plain c" "plain i" "length owner = 32" "counter_is V s c i n" "n + 1 < 10 ^ 14" by auto
  obtain ms where ms: "ttl_ms ttl = Inr ms" "ms = ttl div 10 ^ 6" using assms(6,7) by (simp add: ttl_ms_def Let_def)
  from R(2) inv_session [OF 1(1) n(1,2)] show ?thesis
  proof (cases rule: session_casesE [where now = now])
    case (none m)
    note free = acquire_free [OF R n(4,5,3) none(3) ms(1), of p]
    from R n(4,5,3,1,2) free obtain ms' where "ttl_ms ttl = Inr ms'" and f: "\<forall>t. t < now + ms' \<longrightarrow> in_force R V
        (rd_set_px R (fst (rd_incr R s now (generation_key c i))) now (lease_key c i) (lease_text R owner (n + 1) p) ms) t
        \<lparr>sl_community_id = c, sl_session_id = i, sl_owner_runtime_id = owner, sl_generation = of_nat (n + 1), sl_profile = p\<rparr>"
      by (rule acquired_in_force) blast
    moreover have "0 < ms'" using calculation(1) ms assms(6) by simp
    ultimately have "in_force R V
        (rd_set_px R (fst (rd_incr R s now (generation_key c i))) now (lease_key c i) (lease_text R owner (n + 1) p) ms) now
        \<lparr>sl_community_id = c, sl_session_id = i, sl_owner_runtime_id = owner, sl_generation = of_nat (n + 1), sl_profile = p\<rparr>" by simp
    from validate_in_force [OF R this, of "fenced_header \<lparr>sl_community_id = c, sl_session_id = i, sl_owner_runtime_id = owner,
        sl_generation = of_nat (n + 1), sl_profile = p\<rparr>"] none(3)
    show ?thesis by (simp add: takeover_def free lookup_lease_def redis_okD(1) [OF R(1)] fenced_header_def)
  next
    case (some l)
    then have "live now (V s (lease_key c i)) = Some (lease_text R (sl_owner_runtime_id l) (unat (sl_generation l)) (sl_profile l))"
      by (simp add: in_force_def)
    then show ?thesis
      using lookup_in_force [OF R some(3)] lease_of_text(1) [OF R(2) some(3)] some(1,2) ms
      by (simp add: takeover_def acquire_def acquire_script_effect [OF R n(4,5)] mutate_def invoke_def all_well_def)
  qed
qed

text \<open>A Redis server: its state is the stored values.\<close>

definition map_redis :: "(string \<Rightarrow> (string \<times> nat option) option) redis" where
  "map_redis =
     \<lparr>rd_get = (\<lambda>s now k. live now (s k)),
      rd_incr = (\<lambda>s now k. case live now (s k) of
          None \<Rightarrow> (s(k \<mapsto> (show_nat 1, None)), 1)
        | Some v \<Rightarrow> let n = digits_value v + 1 in (s(k \<mapsto> (show_nat n, snd (the (s k)))), n)),
      rd_set_px = (\<lambda>s now k v ttl. s(k \<mapsto> (v, Some (now + ttl)))),
      rd_pexpire = (\<lambda>s now k ttl. case live now (s k) of None \<Rightarrow> s | Some v \<Rightarrow> s(k \<mapsto> (v, Some (now + ttl)))),
      rd_del = (\<lambda>s now k. s(k := None)),
      lua_tostring = show_nat,
      id_to_hex = hex_write,
      id_from_hex = (\<lambda>s. Some (hex_read s)),
      error_text = (\<lambda>_. [])\<rparr>"

lemma map_redis_ok: "redis_ok map_redis (\<lambda>s. s)"
  by (auto simp: redis_ok_def map_redis_def Let_def)

lemma hex_write_no_bar: "CHR ''|'' \<notin> set (hex_write bs)"
proof (induction bs)
  case (Cons b bs)
  have "hex_digit n \<noteq> CHR ''|''" if "n < 16" for n
    using that by (auto simp: hex_digit_def dest: arg_cong [where f = "of_char :: char \<Rightarrow> nat"])
  then have "CHR ''|'' \<noteq> hex_digit n" if "n < 16" for n using that by metis
  with Cons u8_nibbles [of b] show ?case by (simp add: hex_write_def)
qed (simp add: hex_write_def)

lemma map_redis_texts: "texts_ok map_redis"
  using hex_write_no_bar hex_write_length
  by (auto simp: texts_ok_def map_redis_def dest: arg_cong [where f = length])


text \<open>A session that one relay holds for a second and another takes over a second later.\<close>

definition first_lease :: SessionLease where
  "first_lease = \<lparr>sl_community_id = ''c'', sl_session_id = ''s'', sl_owner_runtime_id = replicate 32 1,
     sl_generation = 1, sl_profile = ReliableStream\<rparr>"

definition second_lease :: SessionLease where
  "second_lease = first_lease\<lparr>sl_owner_runtime_id := replicate 32 2, sl_generation := 2\<rparr>"

definition first_state :: "string \<Rightarrow> (string \<times> nat option) option" where
  "first_state = Map.empty(generation_key ''c'' ''s'' \<mapsto> (show_nat 1, None),
     lease_key ''c'' ''s'' \<mapsto> (lease_text map_redis (replicate 32 1) 1 ReliableStream, Some 1000))"

definition second_state :: "string \<Rightarrow> (string \<times> nat option) option" where
  "second_state = Map.empty(generation_key ''c'' ''s'' \<mapsto> (show_nat 2, None),
     lease_key ''c'' ''s'' \<mapsto> (lease_text map_redis (replicate 32 2) 2 ReliableStream, Some 3000))"

definition first_call :: dir_op where
  "first_call = AcquireOp all_well (10 ^ 9) ''c'' ''s'' (replicate 32 1) ReliableStream"

definition second_call :: dir_op where
  "second_call = AcquireOp all_well (10 ^ 9) ''c'' ''s'' (replicate 32 2) ReliableStream"

lemma plain_names: "plain ''c''" "plain ''s''"
  by (simp_all add: plain_def)

lemma one_second: "ttl_ms (10 ^ 9) = Inr 1000"
  by (simp add: ttl_ms_def)

lemma sample_counters:
  "counter_is (\<lambda>s. s) Map.empty c i 0"
  "counter_is (\<lambda>s. s) first_state ''c'' ''s'' 1"
  "counter_is (\<lambda>s. s) second_state ''c'' ''s'' 2"
  using keys_differ [OF plain_names plain_names]
  by (simp_all add: counter_is_def first_state_def second_state_def)

lemma first_acquired:
  "acquire map_redis all_well (10 ^ 9) 0 Map.empty ''c'' ''s'' (replicate 32 1) ReliableStream =
     (first_state, Inr (Acquired first_lease))"
  using acquire_free [where now = 0 and c = "''c''" and i = "''s''" and owner = "replicate 32 1" and ttl = "10 ^ 9"
      and ms = 1000 and p = ReliableStream, OF map_redis_ok map_redis_texts sample_counters(1)]
  by (simp add: one_second [simplified] first_lease_def first_state_def live_def map_redis_def)

lemma second_acquired:
  "acquire map_redis all_well (10 ^ 9) 2000 first_state ''c'' ''s'' (replicate 32 2) ReliableStream =
     (second_state, Inr (Acquired second_lease))"
proof -
  note keys = keys_differ [OF plain_names plain_names]
  have "live 2000 (first_state (lease_key ''c'' ''s'')) = None" by (simp add: first_state_def live_def)
  with acquire_free [where now = 2000 and owner = "replicate 32 2" and ttl = "10 ^ 9" and ms = 1000 and p = ReliableStream,
      OF map_redis_ok map_redis_texts sample_counters(2)]
  have "acquire map_redis all_well (10 ^ 9) 2000 first_state ''c'' ''s'' (replicate 32 2) ReliableStream =
      (rd_set_px map_redis (fst (rd_incr map_redis first_state 2000 (generation_key ''c'' ''s''))) 2000 (lease_key ''c'' ''s'')
        (lease_text map_redis (replicate 32 2) 2 ReliableStream) 1000, Inr (Acquired second_lease))"
    by (simp add: second_lease_def first_lease_def one_second [simplified] numeral_2_eq_2)
  moreover have "V' = second_state" if "V' = rd_set_px map_redis (fst (rd_incr map_redis first_state 2000 (generation_key ''c'' ''s''))) 2000
      (lease_key ''c'' ''s'') (lease_text map_redis (replicate 32 2) 2 ReliableStream) 1000" for V'
    using that keys incr_counter [OF map_redis_ok sample_counters(2), of 2000]
    by (simp add: redis_okD(2) [OF map_redis_ok] second_state_def first_state_def fun_upd_twist numeral_2_eq_2)
  ultimately show ?thesis by simp
qed

lemma sample_run:
  "run_dir map_redis [first_call, Tick 2000] (Map.empty, 0) = (first_state, 2000)"
  "run_dir map_redis [first_call, Tick 2000, second_call] (Map.empty, 0) = (second_state, 2000)"
  "run_ok map_redis (\<lambda>s. s) [first_call, Tick 2000, second_call] (Map.empty, 0)"
  using sample_counters(1) [of "''c''" "''s''"] sample_counters(2) plain_names first_acquired second_acquired
  by (auto simp: first_call_def second_call_def intro: exI [of _ "1 :: nat"] exI [of _ "0 :: nat"])


lemma sample_validate:
  "validate_fenced_header map_redis None 500 first_state ''c'' (fenced_header first_lease) = Inr ()"
  "validate_fenced_header map_redis None 2000 second_state ''c'' (fenced_header second_lease) = Inr ()"
proof -
  note keys = keys_differ [OF plain_names plain_names]
  have "in_force map_redis (\<lambda>s. s) first_state 500 first_lease"
    using sample_counters(2) keys by (simp add: in_force_def first_lease_def first_state_def live_def)
  from validate_in_force [OF map_redis_ok map_redis_texts this, of "fenced_header first_lease"]
  show "validate_fenced_header map_redis None 500 first_state ''c'' (fenced_header first_lease) = Inr ()"
    by (simp add: first_lease_def fenced_header_def)
  have "in_force map_redis (\<lambda>s. s) second_state 2000 second_lease"
    using sample_counters(3) keys by (simp add: in_force_def second_lease_def first_lease_def second_state_def live_def)
  from validate_in_force [OF map_redis_ok map_redis_texts this, of "fenced_header second_lease"]
  show "validate_fenced_header map_redis None 2000 second_state ''c'' (fenced_header second_lease) = Inr ()"
    by (simp add: second_lease_def first_lease_def fenced_header_def)
qed

theorem former_owner_fenced_witness:
  "\<exists>g. 2 \<le> g \<and> validate_fenced_header map_redis None 2000 second_state ''c'' (fenced_header first_lease) =
     Inl (StaleGeneration ''s'' 1 g)"
  using former_owner_fenced [where xs = "[]" and ys = "[Tick 2000]" and zs = "[]" and l = first_lease and l' = second_lease,
      OF map_redis_ok map_redis_texts, of Map.empty all_well "10 ^ 9" "''c''" "''s''" "replicate 32 1" ReliableStream
        all_well "10 ^ 9" "replicate 32 2" ReliableStream 0 Map.empty 0 first_state 2000 second_state 2000]
    sample_run first_acquired second_acquired
  by (simp add: first_call_def second_call_def first_lease_def second_lease_def)

theorem fence_monotone_witness:
  "fh_generation (fenced_header first_lease) \<le> fh_generation (fenced_header second_lease)"
  using fence_monotone [where xs = "[first_call, Tick 500]" and ys = "[Tick 1500, second_call]" and f = "fenced_header first_lease"
      and f' = "fenced_header second_lease", OF map_redis_ok map_redis_texts, of Map.empty 0 first_state 500 second_state 2000 "''c''"]
    sample_run sample_validate first_acquired second_acquired plain_names sample_counters
  by (auto simp: first_call_def second_call_def fenced_header_def first_lease_def second_lease_def)

theorem owner_protected_witness:
  "lookup_lease map_redis None 500 first_state ''c'' ''s'' = Inr (Some first_lease)"
  using owner_protected [where xs = "[]" and ys = "[Tick 500]" and l = first_lease, OF map_redis_ok map_redis_texts,
      of Map.empty all_well "10 ^ 9" "''c''" "''s''" "replicate 32 1" ReliableStream 0 Map.empty 0 first_state 500]
    sample_run first_acquired
  by (simp add: first_call_def)

theorem validate_agrees_with_lookup_witness:
  "\<exists>cur. lookup_lease map_redis None 2000 second_state ''c'' ''s'' = Inr cur"
  using validate_agrees_with_lookup [where xs = "[first_call, Tick 2000, second_call]" and f = "fenced_header second_lease",
      OF map_redis_ok map_redis_texts _ sample_run(3,2), of "''c''"] plain_names
  by (auto simp: fenced_header_def first_lease_def second_lease_def)

theorem takeover_progress_witness:
  "\<exists>s' l. takeover map_redis all_well (10 ^ 9) 2000 first_state ''c'' ''s'' (replicate 32 2) ReliableStream = (s', Inr l)"
  using takeover_progress [where xs = "[first_call, Tick 2000]", OF map_redis_ok map_redis_texts _ _ sample_run(1),
      of "10 ^ 9" "''c''" "''s''" "replicate 32 2" ReliableStream] sample_run(3)
  by (fastforce simp: second_call_def)

end
