(* ===== verification/Mesh_Gossip.thy ===== *)
theory Mesh_Gossip
  imports Mesh_Wire "HOL-Library.Char_ord" "HOL-Library.List_Lexorder"
begin

text \<open>
  Membership gossip between relays (\<open>crates/buzz-relay-mesh/src/gossip.rs\<close>): versioned records,
  digests and deltas, the pure gossip state, and the failure detector that accrues suspicion from
  the intervals between heartbeats.

  Serialization and the hexadecimal text of a runtime id come from other crates and are arguments.
  The bit pattern of the \<open>f32\<close> load is carried unchanged. The \<open>f64\<close> operations of the detector
  are the fields of a record: nothing is assumed of them but what a statement names.
\<close>

subsection \<open>Records and messages\<close>

definition GOSSIP_PAYLOAD_VERSION :: u8 where "GOSSIP_PAYLOAD_VERSION = 1"

record GossipRecord =
  gr_runtime_id :: RuntimeId
  gr_endpoint_addrs :: "string list"
  gr_proto_version :: u16
  gr_load :: u32
  gr_draining :: bool
  gr_capabilities :: "string list"
  gr_version :: u64
  gr_heartbeat_millis :: u64

definition GossipRecord_new :: "RuntimeId \<Rightarrow> string list \<Rightarrow> u16 \<Rightarrow> u64 \<Rightarrow> GossipRecord" where
  "GossipRecord_new runtime_id endpoint_addrs proto_version now =
     \<lparr>gr_runtime_id = runtime_id, gr_endpoint_addrs = endpoint_addrs, gr_proto_version = proto_version,
      gr_load = 0, gr_draining = False, gr_capabilities = [], gr_version = 1, gr_heartbeat_millis = now\<rparr>"

record GossipDigestEntry =
  de_runtime_id :: RuntimeId
  de_version :: u64

datatype GossipMessage = Digest u8 "GossipDigestEntry list" | Delta u8 "GossipRecord list"

definition encode_message ::
    "(GossipMessage \<Rightarrow> (bytes, string) rust_result) \<Rightarrow> GossipMessage \<Rightarrow> (bytes, MeshError) rust_result" where
  "encode_message to_bytes message = (case to_bytes message of Inl e \<Rightarrow> Inl (Encode e) | Inr b \<Rightarrow> Inr b)"

definition decode_message ::
    "(bytes \<Rightarrow> (GossipMessage, string) rust_result) \<Rightarrow> bytes \<Rightarrow> (GossipMessage, MeshError) rust_result" where
  "decode_message from_bytes bs =
     (case from_bytes bs of
        Inl e \<Rightarrow> Inl (Decode e)
      | Inr message \<Rightarrow>
          let version = (case message of Digest v _ \<Rightarrow> v | Delta v _ \<Rightarrow> v)
          in if version \<noteq> GOSSIP_PAYLOAD_VERSION
             then Inl (Transport (''unknown gossip payload version '' @ show_nat (unat version)))
             else Inr message)"

text \<open>The time in milliseconds since the epoch, for a clock in nanoseconds; zero before the epoch.\<close>

definition now_millis :: "int \<Rightarrow> u64" where
  "now_millis clock = (if clock < 0 then 0 else of_int (min (clock div 10 ^ 6) (2 ^ 64 - 1)))"

definition system_time_from_millis :: "u64 \<Rightarrow> int" where
  "system_time_from_millis millis = int (unat millis) * 10 ^ 6"

definition u64_saturating_add :: "u64 \<Rightarrow> u64 \<Rightarrow> u64" where
  "u64_saturating_add a b = (if unat a + unat b < 2 ^ 64 then a + b else - 1)"

subsection \<open>Gossip state\<close>

type_synonym GossipState = "(RuntimeId, GossipRecord) hmap"

definition GossipState_new :: "GossipRecord \<Rightarrow> GossipState" where
  "GossipState_new local = hm_insert (gr_runtime_id local) local []"

text \<open>The version and heartbeat of a changed record.\<close>

definition bump :: "u64 \<Rightarrow> GossipRecord \<Rightarrow> GossipRecord" where
  "bump now r = r\<lparr>gr_version := u64_saturating_add (gr_version r) 1, gr_heartbeat_millis := now\<rparr>"

definition GossipState_update_local ::
    "GossipState \<Rightarrow> RuntimeId \<Rightarrow> (GossipRecord \<Rightarrow> GossipRecord) \<Rightarrow> u64 \<Rightarrow> GossipState \<times> GossipRecord option" where
  "GossipState_update_local self runtime_id update now =
     (case hm_get self runtime_id of
        None \<Rightarrow> (self, None)
      | Some record \<Rightarrow>
          let record' = bump now (update record) in (hm_insert runtime_id record' self, Some record'))"

definition digest_entry :: "GossipRecord \<Rightarrow> GossipDigestEntry" where
  "digest_entry record = \<lparr>de_runtime_id = gr_runtime_id record, de_version = gr_version record\<rparr>"

definition digest_of :: "(RuntimeId \<Rightarrow> string) \<Rightarrow> GossipRecord list \<Rightarrow> GossipMessage" where
  "digest_of to_hex records =
     Digest GOSSIP_PAYLOAD_VERSION (sort_key (\<lambda>entry. to_hex (de_runtime_id entry)) (map digest_entry records))"

text \<open>The versions of a remote digest, collected into a map.\<close>

definition remote_versions :: "GossipDigestEntry list \<Rightarrow> (RuntimeId, u64) hmap" where
  "remote_versions digest = fold (\<lambda>e. hm_insert (de_runtime_id e) (de_version e)) digest []"

definition is_behind :: "(RuntimeId, u64) hmap \<Rightarrow> GossipRecord \<Rightarrow> bool" where
  "is_behind remote record \<longleftrightarrow>
     (case hm_get remote (gr_runtime_id record) of None \<Rightarrow> True | Some v \<Rightarrow> v < gr_version record)"

definition delta_of :: "(RuntimeId \<Rightarrow> string) \<Rightarrow> GossipRecord list \<Rightarrow> GossipDigestEntry list \<Rightarrow> GossipMessage" where
  "delta_of to_hex records digest =
     Delta GOSSIP_PAYLOAD_VERSION
       (sort_key (\<lambda>r. to_hex (gr_runtime_id r)) (filter (is_behind (remote_versions digest)) records))"

definition GossipState_digest :: "(RuntimeId \<Rightarrow> string) \<Rightarrow> GossipState \<Rightarrow> GossipMessage" where
  "GossipState_digest to_hex self = digest_of to_hex (map snd self)"

definition GossipState_delta_for ::
    "(RuntimeId \<Rightarrow> string) \<Rightarrow> GossipState \<Rightarrow> GossipDigestEntry list \<Rightarrow> GossipMessage" where
  "GossipState_delta_for to_hex self digest = delta_of to_hex (map snd self) digest"

definition should_apply :: "GossipState \<Rightarrow> GossipRecord \<Rightarrow> bool" where
  "should_apply self record \<longleftrightarrow>
     (case hm_get self (gr_runtime_id record) of None \<Rightarrow> True | Some existing \<Rightarrow> gr_version record > gr_version existing)"

fun GossipState_apply_delta :: "GossipState \<Rightarrow> GossipRecord list \<Rightarrow> GossipState \<times> RuntimeId list" where
  "GossipState_apply_delta self [] = (self, [])"
| "GossipState_apply_delta self (record # records) =
     (if should_apply self record
      then let (s, changed) = GossipState_apply_delta (hm_insert (gr_runtime_id record) record self) records
           in (s, gr_runtime_id record # changed)
      else GossipState_apply_delta self records)"

subsection \<open>Failure detector\<close>

record 'f f64_ops =
  as_secs_f64 :: "duration \<Rightarrow> 'f"
  f64_of_usize :: "nat \<Rightarrow> 'f"
  f64_zero :: 'f
  f64_add :: "'f \<Rightarrow> 'f \<Rightarrow> 'f"
  f64_div :: "'f \<Rightarrow> 'f \<Rightarrow> 'f"
  f64_le :: "'f \<Rightarrow> 'f \<Rightarrow> bool"
  EPSILON :: 'f
  LN_10 :: 'f
  DEFAULT_PHI_SUSPECT_THRESHOLD :: 'f

text \<open>A \<open>SystemTime\<close> is a time in nanoseconds from the epoch, possibly before it.\<close>

record PhiAccrual =
  ph_samples :: "duration list"
  ph_last_heartbeat :: "int option"
  ph_max_samples :: nat

definition PhiAccrual_new :: "nat \<Rightarrow> PhiAccrual" where
  "PhiAccrual_new max_samples = \<lparr>ph_samples = [], ph_last_heartbeat = None, ph_max_samples = max max_samples 1\<rparr>"

definition PhiAccrual_default :: PhiAccrual where
  "PhiAccrual_default = PhiAccrual_new 100"

text \<open>\<open>later.duration_since(earlier)\<close>: an error when the clock went backwards.\<close>

definition duration_since :: "int \<Rightarrow> int \<Rightarrow> duration option" where
  "duration_since later earlier = (if earlier \<le> later then Some (nat (later - earlier)) else None)"

definition observe :: "PhiAccrual \<Rightarrow> int \<Rightarrow> PhiAccrual" where
  "observe self at =
     (let samples = (case ph_last_heartbeat self of
            None \<Rightarrow> ph_samples self
          | Some prev \<Rightarrow>
             (case duration_since at prev of
                None \<Rightarrow> ph_samples self
              | Some interval \<Rightarrow>
                  if interval \<noteq> 0
                  then let pushed = ph_samples self @ [interval]
                       in if length pushed > ph_max_samples self then tl pushed else pushed
                  else ph_samples self))
      in self\<lparr>ph_samples := samples, ph_last_heartbeat := Some at\<rparr>)"

definition mean_secs :: "'f f64_ops \<Rightarrow> PhiAccrual \<Rightarrow> 'f" where
  "mean_secs F self =
     f64_div F (foldl (f64_add F) (f64_zero F) (map (as_secs_f64 F) (ph_samples self)))
       (f64_of_usize F (length (ph_samples self)))"

definition phi_at :: "'f f64_ops \<Rightarrow> PhiAccrual \<Rightarrow> int \<Rightarrow> 'f option" where
  "phi_at F self now =
     (case ph_last_heartbeat self of
        None \<Rightarrow> None
      | Some prev \<Rightarrow>
          if ph_samples self = [] then None
          else (case duration_since now prev of
              None \<Rightarrow> None
            | Some d \<Rightarrow>
                let elapsed = as_secs_f64 F d; mean = mean_secs F self
                in if f64_le F mean (EPSILON F) then None
                   else Some (f64_div F (f64_div F elapsed mean) (LN_10 F))))"

end
