(* ===== verification/Mesh_Registry.thy ===== *)
theory Mesh_Registry
  imports Mesh_Gossip
begin

text \<open>
  The ready registry (\<open>crates/buzz-relay-mesh/src/registry.rs\<close>): records by which a relay announces
  its endpoint in Redis, attested by the key of the deployment, and the heartbeat that keeps them
  there while the relay is ready.

  Signatures, hashing, hexadecimal text and JSON are other crates' code: they are fields of the
  record \<open>mesh_crates\<close> or arguments. An error of the connection or of a command is an argument.
\<close>

subsection \<open>Ready records\<close>

record mesh_crates =
  to_hex :: "RuntimeId \<Rightarrow> string"
  pubkey_from_hex :: "string \<Rightarrow> (string, string) rust_result"
  pubkey_xonly :: "string \<Rightarrow> (string, string) rust_result"
  pubkey_to_hex :: "string \<Rightarrow> string"
  signature_from_str :: "string \<Rightarrow> (bytes, string) rust_result"
  sha256 :: "string \<Rightarrow> bytes"
  verify_schnorr :: "bytes \<Rightarrow> bytes \<Rightarrow> string \<Rightarrow> (unit, string) rust_result"
  keys_public_hex :: "string \<Rightarrow> string"
  sign_schnorr :: "string \<Rightarrow> bytes \<Rightarrow> string"

definition READY_KEY_PREFIX :: string where "READY_KEY_PREFIX = ''mesh:ready:''"

definition DEFAULT_REGISTRY_REFRESH :: duration where "DEFAULT_REGISTRY_REFRESH = 15 * 10 ^ 9"

definition REGISTRY_EXPIRY_MULTIPLIER :: u64 where "REGISTRY_EXPIRY_MULTIPLIER = 3"

definition ATTESTATION_CONTEXT :: string where "ATTESTATION_CONTEXT = ''buzz-relay-mesh-ready-v1''"

record RuntimeAttestation =
  ra_relay_pubkey :: string
  ra_relay_sig :: string

record ReadyRecord =
  rr_runtime_id :: RuntimeId
  rr_runtime_pubkey :: string
  rr_relay_pubkey :: string
  rr_relay_sig :: string
  rr_endpoint_addrs :: "string list"
  rr_proto_version :: u16
  rr_capabilities :: "string list"

definition attestation_preimage :: "mesh_crates \<Rightarrow> RuntimeId \<Rightarrow> string \<Rightarrow> string" where
  "attestation_preimage X runtime_id relay_pubkey =
     ATTESTATION_CONTEXT @ [CHR 0x0A] @ ''runtime_pubkey='' @ to_hex X runtime_id @ [CHR 0x0A] @ ''relay_pubkey='' @ relay_pubkey"

definition attestation_message :: "mesh_crates \<Rightarrow> RuntimeId \<Rightarrow> string \<Rightarrow> bytes" where
  "attestation_message X runtime_id relay_pubkey = sha256 X (attestation_preimage X runtime_id relay_pubkey)"

definition RuntimeAttestation_new :: "mesh_crates \<Rightarrow> string \<Rightarrow> RuntimeId \<Rightarrow> RuntimeAttestation" where
  "RuntimeAttestation_new X relay_keys runtime_id =
     (let relay_pubkey = keys_public_hex X relay_keys
      in \<lparr>ra_relay_pubkey = relay_pubkey,
          ra_relay_sig = sign_schnorr X relay_keys (attestation_message X runtime_id relay_pubkey)\<rparr>)"

definition verify_attestation :: "mesh_crates \<Rightarrow> RuntimeId \<Rightarrow> string \<Rightarrow> string \<Rightarrow> (unit, MeshError) rust_result" where
  "verify_attestation X runtime_id relay_pubkey relay_sig =
     (case pubkey_from_hex X relay_pubkey of
        Inl err \<Rightarrow> Inl (Transport (''ready registry attestation invalid relay_pubkey: '' @ err))
      | Inr pk \<Rightarrow>
         (case pubkey_xonly X pk of
            Inl err \<Rightarrow> Inl (Transport (''ready registry attestation relay_pubkey xonly conversion failed: '' @ err))
          | Inr xonly \<Rightarrow>
             (case signature_from_str X relay_sig of
                Inl err \<Rightarrow> Inl (Transport (''ready registry attestation invalid relay_sig: '' @ err))
              | Inr sig \<Rightarrow>
                 (case verify_schnorr X sig (attestation_message X runtime_id (pubkey_to_hex X pk)) xonly of
                    Inl err \<Rightarrow> Inl (Transport (''ready registry attestation signature verification failed: '' @ err))
                  | Inr u \<Rightarrow> Inr u))))"

definition RuntimeAttestation_verify :: "mesh_crates \<Rightarrow> RuntimeAttestation \<Rightarrow> RuntimeId \<Rightarrow> (unit, MeshError) rust_result" where
  "RuntimeAttestation_verify X self runtime_id =
     verify_attestation X runtime_id (ra_relay_pubkey self) (ra_relay_sig self)"

definition ReadyRecord_new ::
    "mesh_crates \<Rightarrow> RuntimeId \<Rightarrow> string \<Rightarrow> string list \<Rightarrow> u16 \<Rightarrow> string list \<Rightarrow> ReadyRecord" where
  "ReadyRecord_new X runtime_id relay_keys endpoint_addrs proto_version capabilities =
     (let attestation = RuntimeAttestation_new X relay_keys runtime_id
      in \<lparr>rr_runtime_id = runtime_id, rr_runtime_pubkey = to_hex X runtime_id,
          rr_relay_pubkey = ra_relay_pubkey attestation, rr_relay_sig = ra_relay_sig attestation,
          rr_endpoint_addrs = endpoint_addrs, rr_proto_version = proto_version, rr_capabilities = capabilities\<rparr>)"

definition ReadyRecord_verify_attestation :: "mesh_crates \<Rightarrow> ReadyRecord \<Rightarrow> (unit, MeshError) rust_result" where
  "ReadyRecord_verify_attestation X self =
     (if rr_runtime_pubkey self \<noteq> to_hex X (rr_runtime_id self)
      then Inl (Transport (''ready registry runtime_id/runtime_pubkey mismatch: '' @ to_hex X (rr_runtime_id self) @
                  '' != '' @ rr_runtime_pubkey self))
      else verify_attestation X (rr_runtime_id self) (rr_relay_pubkey self) (rr_relay_sig self))"

definition ready_key :: "mesh_crates \<Rightarrow> RuntimeId \<Rightarrow> string" where
  "ready_key X runtime_id = READY_KEY_PREFIX @ to_hex X runtime_id"

text \<open>\<open>Duration::saturating_mul\<close>: a duration has at most \<open>2 ^ 64 - 1\<close> seconds and 999999999 nanoseconds.\<close>

definition DURATION_MAX :: duration where "DURATION_MAX = 2 ^ 64 * 10 ^ 9 - 1"

definition expiry_for :: "duration \<Rightarrow> duration" where
  "expiry_for refresh = min (refresh * unat REGISTRY_EXPIRY_MULTIPLIER) DURATION_MAX"

text \<open>
  The registry's part of Redis: the values under its keys. \<open>publish_ready\<close> sends one command with
  the key, the value and the time to live in seconds.
\<close>

datatype redis_command = SetEx string string nat | Del string

definition publish_ready ::
    "mesh_crates \<Rightarrow> (ReadyRecord \<Rightarrow> (string, string) rust_result) \<Rightarrow> duration \<Rightarrow> MeshError option \<Rightarrow> ReadyRecord \<Rightarrow>
     (redis_command, MeshError) rust_result" where
  "publish_ready X to_string refresh fault record =
     (case ReadyRecord_verify_attestation X record of
        Inl e \<Rightarrow> Inl e
      | Inr _ \<Rightarrow>
         (case fault of
            Some e \<Rightarrow> Inl e
          | None \<Rightarrow>
             (case to_string record of
                Inl e \<Rightarrow> Inl (Transport (''ready registry encode: '' @ e))
              | Inr payload \<Rightarrow>
                  Inr (SetEx (ready_key X (rr_runtime_id record)) payload (max (expiry_for refresh div 10 ^ 9) 1)))))"

definition clear_ready :: "mesh_crates \<Rightarrow> RuntimeId \<Rightarrow> redis_command" where
  "clear_ready X runtime_id = Del (ready_key X runtime_id)"

text \<open>What one scanned key contributes: a decoded record under its own key with a valid attestation.\<close>

definition scanned ::
    "mesh_crates \<Rightarrow> (string \<Rightarrow> (ReadyRecord, string) rust_result) \<Rightarrow> (string \<Rightarrow> string option) \<Rightarrow> string \<Rightarrow> ReadyRecord option" where
  "scanned X from_str get key =
     (case get key of
        None \<Rightarrow> None
      | Some raw \<Rightarrow>
         (case from_str raw of
            Inl _ \<Rightarrow> None
          | Inr record \<Rightarrow>
              if ready_key X (rr_runtime_id record) = key
              then (case ReadyRecord_verify_attestation X record of Inl _ \<Rightarrow> None | Inr _ \<Rightarrow> Some record)
              else None))"

text \<open>The pages a \<open>SCAN\<close> returns, each with the cursor of the next; the loop ends at cursor zero.\<close>

fun scan_ready ::
    "mesh_crates \<Rightarrow> (string \<Rightarrow> (ReadyRecord, string) rust_result) \<Rightarrow> (string \<Rightarrow> string option) \<Rightarrow> (u64 \<times> string list) list \<Rightarrow>
     ReadyRecord list option" where
  "scan_ready X from_str get [] = None"
| "scan_ready X from_str get ((next, keys) # pages) =
     (let out = List.map_filter (scanned X from_str get) keys
      in if next = 0 then Some out else map_option ((@) out) (scan_ready X from_str get pages))"

text \<open>The heartbeat publishes while the relay is ready and clears once when it is not.\<close>

record ReadyHeartbeat =
  hb_record :: ReadyRecord
  hb_published :: bool

definition heartbeat :: "ReadyRecord \<Rightarrow> ReadyHeartbeat" where
  "heartbeat record = \<lparr>hb_record = record, hb_published = False\<rparr>"

text \<open>
  The result of one tick: the heartbeat afterwards, the command that was sent, if one was, and the
  error. An error of the connection leaves the flag as it was; the command may still have run.
\<close>

definition tick ::
    "mesh_crates \<Rightarrow> (ReadyRecord \<Rightarrow> (string, string) rust_result) \<Rightarrow> duration \<Rightarrow> MeshError option \<Rightarrow> MeshError option \<Rightarrow>
     bool \<Rightarrow> ReadyHeartbeat \<Rightarrow> ReadyHeartbeat \<times> redis_command option \<times> (unit, MeshError) rust_result" where
  "tick X to_string refresh pool_fault fault ready self =
     (if ready then
        (case publish_ready X to_string refresh pool_fault (hb_record self) of
           Inl e \<Rightarrow> (self, None, Inl e)
         | Inr cmd \<Rightarrow>
             (case fault of Some e \<Rightarrow> (self, Some cmd, Inl e) | None \<Rightarrow> (self\<lparr>hb_published := True\<rparr>, Some cmd, Inr ())))
      else if hb_published self then
        (case pool_fault of
           Some e \<Rightarrow> (self, None, Inl e)
         | None \<Rightarrow>
             let cmd = clear_ready X (rr_runtime_id (hb_record self))
             in (case fault of Some e \<Rightarrow> (self, Some cmd, Inl e) | None \<Rightarrow> (self\<lparr>hb_published := False\<rparr>, Some cmd, Inr ())))
      else (self, None, Inr ()))"

definition heartbeat_shutdown ::
    "mesh_crates \<Rightarrow> MeshError option \<Rightarrow> MeshError option \<Rightarrow> ReadyHeartbeat \<Rightarrow>
     ReadyHeartbeat \<times> redis_command option \<times> (unit, MeshError) rust_result" where
  "heartbeat_shutdown X pool_fault fault self =
     (if hb_published self then
        (case pool_fault of
           Some e \<Rightarrow> (self, None, Inl e)
         | None \<Rightarrow>
             let cmd = clear_ready X (rr_runtime_id (hb_record self))
             in (case fault of Some e \<Rightarrow> (self, Some cmd, Inl e) | None \<Rightarrow> (self\<lparr>hb_published := False\<rparr>, Some cmd, Inr ())))
      else (self, None, Inr ()))"

end
