(* ===== verification/Mesh_Membership.thy ===== *)
theory Mesh_Membership
  imports Mesh_Registry
begin

text \<open>
  The membership table (\<open>crates/buzz-relay-mesh/src/membership.rs\<close>) and its status view
  (\<open>status.rs\<close>): one record per peer that the registry or gossip told of, with its failure
  detector, connection state and counters. A call is one transition; clocks are arguments.
\<close>

subsection \<open>State\<close>

datatype ConnectionState = Disconnected | Connecting | Connected | Suspect

record MeshPeerCounters =
  pc_runtime_id :: string
  streams_opened :: u64
  streams_received :: u64
  datagrams_sent :: u64
  datagrams_received :: u64
  gossip_frames_sent :: u64
  gossip_frames_received :: u64
  pc_stale_generation_rejections :: u64

record MeshCounters =
  mc_stale_generation_rejections :: u64
  mc_foreign_relay_rejections :: u64
  mc_peers :: "MeshPeerCounters list"

record 'f MeshPeerStatus =
  st_runtime_id :: string
  st_endpoint_addrs :: "string list"
  st_proto_version :: u16
  st_draining :: bool
  st_connection_state :: ConnectionState
  st_phi :: "'f option"
  st_load :: u32
  st_record_version :: u64
  st_last_heartbeat_millis :: u64
  st_counters :: MeshPeerCounters

record 'f MeshStatus =
  ms_enabled :: bool
  ms_local_runtime_id :: string
  ms_draining :: bool
  ms_peer_count :: nat
  ms_peers :: "'f MeshPeerStatus list"
  ms_counters :: MeshCounters

record 'f PeerInfo =
  pi_runtime_id :: RuntimeId
  pi_draining :: bool
  pi_phi :: "'f option"
  pi_load :: u32

record PeerState =
  pr_record :: GossipRecord
  pr_phi :: PhiAccrual
  pr_connection_state :: ConnectionState
  pr_counters :: MeshPeerCounters

record 'f MeshMembership =
  mm_local_runtime_id :: RuntimeId
  mm_local_record :: GossipRecord
  mm_peers :: "(RuntimeId, PeerState) hmap"
  mm_draining :: bool
  mm_stale_generation_rejections :: u64
  mm_foreign_relay_rejections :: u64
  mm_expected_relay_pubkey :: "string option"
  mm_phi_suspect_threshold :: 'f

definition MeshMembership_new :: "'f f64_ops \<Rightarrow> GossipRecord \<Rightarrow> 'f MeshMembership" where
  "MeshMembership_new F local_record =
     \<lparr>mm_local_runtime_id = gr_runtime_id local_record, mm_local_record = local_record, mm_peers = [],
      mm_draining = False, mm_stale_generation_rejections = 0, mm_foreign_relay_rejections = 0,
      mm_expected_relay_pubkey = None, mm_phi_suspect_threshold = DEFAULT_PHI_SUSPECT_THRESHOLD F\<rparr>"

definition with_expected_relay_pubkey :: "'f MeshMembership \<Rightarrow> string \<Rightarrow> 'f MeshMembership" where
  "with_expected_relay_pubkey self pubkey_hex = self\<lparr>mm_expected_relay_pubkey := Some pubkey_hex\<rparr>"

definition with_phi_suspect_threshold :: "'f MeshMembership \<Rightarrow> 'f \<Rightarrow> 'f MeshMembership" where
  "with_phi_suspect_threshold self threshold = self\<lparr>mm_phi_suspect_threshold := threshold\<rparr>"

subsection \<open>Records\<close>

definition apply_gossip_record :: "mesh_crates \<Rightarrow> 'f MeshMembership \<Rightarrow> GossipRecord \<Rightarrow> 'f MeshMembership \<times> bool" where
  "apply_gossip_record X self record =
     (if gr_runtime_id record = mm_local_runtime_id self then (self, False)
      else
        let at = system_time_from_millis (gr_heartbeat_millis record);
            put = (\<lambda>p. self\<lparr>mm_peers := hm_insert (gr_runtime_id record) p (mm_peers self)\<rparr>)
        in case hm_get (mm_peers self) (gr_runtime_id record) of
             Some peer \<Rightarrow>
               if gr_version record \<le> gr_version (pr_record peer) then (self, False)
               else (put (peer\<lparr>pr_record := record, pr_connection_state := Connected, pr_phi := observe (pr_phi peer) at\<rparr>), True)
           | None \<Rightarrow>
               (put \<lparr>pr_record = record, pr_phi = observe PhiAccrual_default at, pr_connection_state = Connected,
                     pr_counters = \<lparr>pc_runtime_id = to_hex X (gr_runtime_id record), streams_opened = 0, streams_received = 0,
                       datagrams_sent = 0, datagrams_received = 0, gossip_frames_sent = 0, gossip_frames_received = 0,
                       pc_stale_generation_rejections = 0\<rparr>\<rparr>, True))"

definition apply_ready_record :: "mesh_crates \<Rightarrow> u64 \<Rightarrow> 'f MeshMembership \<Rightarrow> ReadyRecord \<Rightarrow> 'f MeshMembership" where
  "apply_ready_record X now self ready =
     (if rr_runtime_id ready = mm_local_runtime_id self then self
      else if mm_expected_relay_pubkey self \<noteq> Some (rr_relay_pubkey ready)
      then self\<lparr>mm_foreign_relay_rejections := mm_foreign_relay_rejections self + 1\<rparr>
      else case ReadyRecord_verify_attestation X ready of
          Inl _ \<Rightarrow> self
        | Inr _ \<Rightarrow>
            fst (apply_gossip_record X self
              ((GossipRecord_new (rr_runtime_id ready) (rr_endpoint_addrs ready) (rr_proto_version ready) now)
                 \<lparr>gr_capabilities := rr_capabilities ready\<rparr>)))"

text \<open>Each record comes with the time at which the loop reaches it.\<close>

definition apply_ready_records :: "mesh_crates \<Rightarrow> 'f MeshMembership \<Rightarrow> (u64 \<times> ReadyRecord) list \<Rightarrow> 'f MeshMembership" where
  "apply_ready_records X self records = fold (\<lambda>(now, r) m. apply_ready_record X now m r) records self"

definition update_peer :: "'f MeshMembership \<Rightarrow> RuntimeId \<Rightarrow> (PeerState \<Rightarrow> PeerState) \<Rightarrow> 'f MeshMembership" where
  "update_peer self runtime_id f =
     (case hm_get (mm_peers self) runtime_id of
        None \<Rightarrow> self
      | Some peer \<Rightarrow> self\<lparr>mm_peers := hm_insert runtime_id (f peer) (mm_peers self)\<rparr>)"

definition mark_connection_state :: "'f MeshMembership \<Rightarrow> RuntimeId \<Rightarrow> ConnectionState \<Rightarrow> 'f MeshMembership" where
  "mark_connection_state self runtime_id state =
     update_peer self runtime_id (\<lambda>peer. peer\<lparr>pr_connection_state := state\<rparr>)"

definition update_local ::
    "'f MeshMembership \<Rightarrow> (GossipRecord \<Rightarrow> GossipRecord) \<Rightarrow> u64 \<Rightarrow> 'f MeshMembership \<times> GossipRecord" where
  "update_local self update now =
     (let r = bump now (update (mm_local_record self)) in (self\<lparr>mm_local_record := r\<rparr>, r))"

definition has_peer :: "'f MeshMembership \<Rightarrow> RuntimeId \<Rightarrow> bool" where
  "has_peer self runtime_id = hm_contains_key (mm_peers self) runtime_id"

definition records :: "'f MeshMembership \<Rightarrow> GossipRecord list" where
  "records self = map (\<lambda>(_, peer). pr_record peer) (mm_peers self) @ [mm_local_record self]"

definition digest :: "mesh_crates \<Rightarrow> 'f MeshMembership \<Rightarrow> GossipMessage" where
  "digest X self = digest_of (to_hex X) (records self)"

definition delta_for :: "mesh_crates \<Rightarrow> 'f MeshMembership \<Rightarrow> GossipDigestEntry list \<Rightarrow> GossipMessage" where
  "delta_for X self remote_digest = delta_of (to_hex X) (records self) remote_digest"

subsection \<open>Counters\<close>

definition update_peer_counters ::
    "'f MeshMembership \<Rightarrow> RuntimeId \<Rightarrow> (MeshPeerCounters \<Rightarrow> MeshPeerCounters) \<Rightarrow> 'f MeshMembership" where
  "update_peer_counters self runtime_id update =
     update_peer self runtime_id (\<lambda>peer. peer\<lparr>pr_counters := update (pr_counters peer)\<rparr>)"

definition record_stream_opened :: "'f MeshMembership \<Rightarrow> RuntimeId \<Rightarrow> 'f MeshMembership" where
  "record_stream_opened self runtime_id =
     update_peer_counters self runtime_id (\<lambda>c. c\<lparr>streams_opened := u64_saturating_add (streams_opened c) 1\<rparr>)"

definition record_stream_received :: "'f MeshMembership \<Rightarrow> RuntimeId \<Rightarrow> 'f MeshMembership" where
  "record_stream_received self runtime_id =
     update_peer_counters self runtime_id (\<lambda>c. c\<lparr>streams_received := u64_saturating_add (streams_received c) 1\<rparr>)"

definition record_datagram_sent :: "'f MeshMembership \<Rightarrow> RuntimeId \<Rightarrow> 'f MeshMembership" where
  "record_datagram_sent self runtime_id =
     update_peer_counters self runtime_id (\<lambda>c. c\<lparr>datagrams_sent := u64_saturating_add (datagrams_sent c) 1\<rparr>)"

definition record_datagram_received :: "'f MeshMembership \<Rightarrow> RuntimeId \<Rightarrow> 'f MeshMembership" where
  "record_datagram_received self runtime_id =
     update_peer_counters self runtime_id (\<lambda>c. c\<lparr>datagrams_received := u64_saturating_add (datagrams_received c) 1\<rparr>)"

definition record_gossip_frame_sent :: "'f MeshMembership \<Rightarrow> RuntimeId \<Rightarrow> 'f MeshMembership" where
  "record_gossip_frame_sent self runtime_id =
     update_peer_counters self runtime_id (\<lambda>c. c\<lparr>gossip_frames_sent := u64_saturating_add (gossip_frames_sent c) 1\<rparr>)"

definition record_gossip_frame_received :: "'f MeshMembership \<Rightarrow> RuntimeId \<Rightarrow> 'f MeshMembership" where
  "record_gossip_frame_received self runtime_id =
     update_peer_counters self runtime_id (\<lambda>c. c\<lparr>gossip_frames_received := u64_saturating_add (gossip_frames_received c) 1\<rparr>)"

definition record_stale_generation_rejection :: "'f MeshMembership \<Rightarrow> RuntimeId option \<Rightarrow> 'f MeshMembership" where
  "record_stale_generation_rejection self runtime_id =
     (let m = self\<lparr>mm_stale_generation_rejections := mm_stale_generation_rejections self + 1\<rparr>
      in case runtime_id of
           None \<Rightarrow> m
         | Some r \<Rightarrow> update_peer_counters m r
             (\<lambda>c. c\<lparr>pc_stale_generation_rejections := u64_saturating_add (pc_stale_generation_rejections c) 1\<rparr>))"

subsection \<open>Views\<close>

definition is_suspect :: "'f f64_ops \<Rightarrow> 'f MeshMembership \<Rightarrow> 'f option \<Rightarrow> bool" where
  "is_suspect F self phi \<longleftrightarrow> (case phi of None \<Rightarrow> False | Some p \<Rightarrow> f64_le F (mm_phi_suspect_threshold self) p)"

definition peer_status :: "mesh_crates \<Rightarrow> 'f f64_ops \<Rightarrow> 'f MeshMembership \<Rightarrow> int \<Rightarrow> PeerState \<Rightarrow> 'f MeshPeerStatus" where
  "peer_status X F self now peer =
     (let phi = phi_at F (pr_phi peer) now; r = pr_record peer
      in \<lparr>st_runtime_id = to_hex X (gr_runtime_id r), st_endpoint_addrs = gr_endpoint_addrs r,
          st_proto_version = gr_proto_version r, st_draining = gr_draining r,
          st_connection_state = (if is_suspect F self phi then Suspect else pr_connection_state peer),
          st_phi = phi, st_load = gr_load r, st_record_version = gr_version r,
          st_last_heartbeat_millis = gr_heartbeat_millis r, st_counters = pr_counters peer\<rparr>)"

definition peer_statuses :: "mesh_crates \<Rightarrow> 'f f64_ops \<Rightarrow> 'f MeshMembership \<Rightarrow> int \<Rightarrow> 'f MeshPeerStatus list" where
  "peer_statuses X F self now = map (\<lambda>(_, peer). peer_status X F self now peer) (mm_peers self)"

definition status :: "mesh_crates \<Rightarrow> 'f f64_ops \<Rightarrow> 'f MeshMembership \<Rightarrow> int \<Rightarrow> 'f MeshStatus" where
  "status X F self now =
     (let peers = sort_key st_runtime_id (peer_statuses X F self now)
      in \<lparr>ms_enabled = True, ms_local_runtime_id = to_hex X (gr_runtime_id (mm_local_record self)),
          ms_draining = mm_draining self, ms_peer_count = length peers, ms_peers = peers,
          ms_counters = \<lparr>mc_stale_generation_rejections = mm_stale_generation_rejections self,
            mc_foreign_relay_rejections = mm_foreign_relay_rejections self, mc_peers = map st_counters peers\<rparr>\<rparr>)"

definition live_peers :: "'f f64_ops \<Rightarrow> 'f MeshMembership \<Rightarrow> int \<Rightarrow> 'f PeerInfo list" where
  "live_peers F self now =
     List.map_filter (\<lambda>(_, peer).
       let phi = phi_at F (pr_phi peer) now
       in if is_suspect F self phi then None
          else Some \<lparr>pi_runtime_id = gr_runtime_id (pr_record peer), pi_draining = gr_draining (pr_record peer),
                     pi_phi = phi, pi_load = gr_load (pr_record peer)\<rparr>) (mm_peers self)"

definition begin_drain :: "'f MeshMembership \<Rightarrow> u64 \<Rightarrow> 'f MeshMembership" where
  "begin_drain self now =
     fst (update_local (self\<lparr>mm_draining := True\<rparr>) (\<lambda>r. r\<lparr>gr_draining := True\<rparr>) now)"

end
