(* ===== verification/Mesh_Runtime.thy ===== *)
theory Mesh_Runtime
  imports Mesh_Membership
begin

text \<open>
  The mesh runtime (\<open>crates/buzz-relay-mesh/src/runtime.rs\<close>): the table of connections with their
  control queues, the choice between two connections to one peer, admission of inbound
  connections, dialing, and the gossip exchange on control streams.

  The tasks of the runtime are modelled by what they do to the shared state when something
  happens: a connection arrives or fails, a frame arrives, a timer fires. The QUIC endpoint, the
  registry and the serializer are arguments: the outcome of a dial per address, the result of a
  scan, the two functions of the codec.
\<close>

subsection \<open>State\<close>

definition DEFAULT_RECONCILE_INTERVAL :: duration where "DEFAULT_RECONCILE_INTERVAL = 5 * 10 ^ 9"

definition DEFAULT_GOSSIP_INTERVAL :: duration where "DEFAULT_GOSSIP_INTERVAL = 2 * 10 ^ 9"

definition CONTROL_QUEUE_DEPTH :: nat where "CONTROL_QUEUE_DEPTH = 64"

text \<open>A connection, by a number, and the runtime at its other end.\<close>

record MeshPeer =
  mp_conn :: nat
  mp_runtime_id :: RuntimeId

text \<open>The sender of a bounded queue: what is queued, and whether the receiver still exists.\<close>

record control_queue =
  cq_frames :: "MeshStreamFrame list"
  cq_open :: bool

record PeerEntry =
  pe_peer :: MeshPeer
  pe_control_tx :: "control_queue option"

record 'f Inner =
  in_runtime_id :: RuntimeId
  in_membership :: "'f MeshMembership"
  in_peers :: "(RuntimeId, PeerEntry) hmap"

definition new_queue :: control_queue where
  "new_queue = \<lparr>cq_frames = [], cq_open = True\<rparr>"

definition connected_peers :: "'f Inner \<Rightarrow> RuntimeId list" where
  "connected_peers self = map fst (in_peers self)"

definition shutdown :: "'f Inner \<Rightarrow> 'f Inner" where
  "shutdown self = self\<lparr>in_peers := []\<rparr>"

definition in_member :: "'f Inner \<Rightarrow> ('f MeshMembership \<Rightarrow> 'f MeshMembership) \<Rightarrow> 'f Inner" where
  "in_member self f = self\<lparr>in_membership := f (in_membership self)\<rparr>"

subsection \<open>Connections\<close>

text \<open>\<open>[u8; 32]\<close> is ordered lexicographically.\<close>

definition new_connection_wins :: "RuntimeId \<Rightarrow> RuntimeId \<Rightarrow> bool \<Rightarrow> bool" where
  "new_connection_wins local remote new_dialed_by_us =
     (if map unat local < map unat remote then new_dialed_by_us else \<not> new_dialed_by_us)"

definition install_peer :: "'f Inner \<Rightarrow> MeshPeer \<Rightarrow> bool \<Rightarrow> 'f Inner \<times> bool" where
  "install_peer inner peer dialed_by_us =
     (let remote = mp_runtime_id peer
      in if hm_contains_key (in_peers inner) remote \<and> \<not> new_connection_wins (in_runtime_id inner) remote dialed_by_us
         then (inner, False)
         else
           let entry = \<lparr>pe_peer = peer, pe_control_tx = (if dialed_by_us then Some new_queue else None)\<rparr>;
               inner1 = inner\<lparr>in_peers := hm_insert remote entry (in_peers inner)\<rparr>
           in (in_member inner1 (\<lambda>m. mark_connection_state m remote Connected), True))"

definition remove_mesh_peer :: "'f Inner \<Rightarrow> RuntimeId \<Rightarrow> 'f Inner" where
  "remove_mesh_peer inner runtime_id =
     (if hm_contains_key (in_peers inner) runtime_id
      then in_member (inner\<lparr>in_peers := hm_remove runtime_id (in_peers inner)\<rparr>)
             (\<lambda>m. mark_connection_state m runtime_id Disconnected)
      else inner)"

text \<open>The result of a registry scan, when there is a registry: an error or records with the times they are reached.\<close>

type_synonym scan = "(unit + (u64 \<times> ReadyRecord) list) option"

definition rescan :: "mesh_crates \<Rightarrow> scan \<Rightarrow> 'f Inner \<Rightarrow> 'f Inner" where
  "rescan X scan inner =
     (case scan of
        Some (Inr recs) \<Rightarrow> in_member inner (\<lambda>m. apply_ready_records X m recs)
      | _ \<Rightarrow> inner)"

definition is_known_peer :: "mesh_crates \<Rightarrow> scan \<Rightarrow> 'f Inner \<Rightarrow> RuntimeId \<Rightarrow> 'f Inner \<times> bool" where
  "is_known_peer X scan inner runtime_id =
     (if has_peer (in_membership inner) runtime_id then (inner, True)
      else let inner' = rescan X scan inner in (inner', has_peer (in_membership inner') runtime_id))"

text \<open>One accepted connection in the accept loop.\<close>

definition accept_one :: "mesh_crates \<Rightarrow> scan \<Rightarrow> 'f Inner \<Rightarrow> MeshPeer \<Rightarrow> 'f Inner" where
  "accept_one X scan inner peer =
     (case is_known_peer X scan inner (mp_runtime_id peer) of
        (inner', known) \<Rightarrow> if known then fst (install_peer inner' peer False) else inner')"

text \<open>What dialing an address comes to.\<close>

datatype dial_outcome = BadAddr | BadId | ConnectFailed | Connects MeshPeer

fun dial_addrs :: "(string \<Rightarrow> dial_outcome) \<Rightarrow> RuntimeId \<Rightarrow> string list \<Rightarrow> 'f Inner \<Rightarrow> 'f Inner" where
  "dial_addrs net runtime_id [] inner = in_member inner (\<lambda>m. mark_connection_state m runtime_id Disconnected)"
| "dial_addrs net runtime_id (addr # addrs) inner =
     (let connecting = in_member inner (\<lambda>m. mark_connection_state m runtime_id Connecting)
      in case net addr of
           BadAddr \<Rightarrow> dial_addrs net runtime_id addrs inner
         | BadId \<Rightarrow> inner
         | Connects peer \<Rightarrow> fst (install_peer connecting peer True)
         | ConnectFailed \<Rightarrow> dial_addrs net runtime_id addrs connecting)"

definition dial_peer :: "(RuntimeId \<Rightarrow> string \<Rightarrow> dial_outcome) \<Rightarrow> 'f Inner \<Rightarrow> GossipRecord \<Rightarrow> 'f Inner" where
  "dial_peer net inner record = dial_addrs (net (gr_runtime_id record)) (gr_runtime_id record) (gr_endpoint_addrs record) inner"

definition reconcile_once :: "mesh_crates \<Rightarrow> scan \<Rightarrow> (RuntimeId \<Rightarrow> string \<Rightarrow> dial_outcome) \<Rightarrow> 'f Inner \<Rightarrow> 'f Inner" where
  "reconcile_once X scan net inner =
     (let inner1 = rescan X scan inner;
          candidates = filter (\<lambda>r. gr_runtime_id r \<noteq> in_runtime_id inner \<and> \<not> gr_draining r) (records (in_membership inner1))
      in fold (\<lambda>r i. if hm_contains_key (in_peers i) (gr_runtime_id r) then i else dial_peer net i r) candidates inner1)"

subsection \<open>Frames\<close>

definition send_control_frame :: "'f Inner \<Rightarrow> RuntimeId \<Rightarrow> MeshStreamFrame \<Rightarrow> 'f Inner" where
  "send_control_frame inner remote frame =
     (case hm_get (in_peers inner) remote of
        None \<Rightarrow> inner
      | Some entry \<Rightarrow>
         (case pe_control_tx entry of
            None \<Rightarrow> inner
          | Some tx \<Rightarrow>
              if cq_open tx \<and> length (cq_frames tx) < CONTROL_QUEUE_DEPTH
              then inner\<lparr>in_peers := hm_insert remote
                     (entry\<lparr>pe_control_tx := Some (tx\<lparr>cq_frames := cq_frames tx @ [frame]\<rparr>)\<rparr>) (in_peers inner)\<rparr>
              else inner))"

text \<open>A frame on a control stream. \<open>T\<close> and \<open>D\<close> are the two functions of the codec.\<close>

definition control_recv ::
    "mesh_crates \<Rightarrow> (GossipMessage \<Rightarrow> (bytes, string) rust_result) \<Rightarrow> (bytes \<Rightarrow> (GossipMessage, string) rust_result) \<Rightarrow>
     RuntimeId \<Rightarrow> MeshStreamFrame \<Rightarrow> 'f Inner \<Rightarrow> 'f Inner" where
  "control_recv X T D remote frame inner =
     (case frame of
        Gossip payload \<Rightarrow>
          let inner1 = in_member inner (\<lambda>m. record_gossip_frame_received m remote)
          in (case decode_message D payload of
                Inr (Digest _ entries) \<Rightarrow>
                  (case encode_message T (delta_for X (in_membership inner1) entries) of
                     Inr p \<Rightarrow> send_control_frame inner1 remote (Gossip p)
                   | Inl _ \<Rightarrow> inner1)
              | Inr (Delta _ recs) \<Rightarrow> in_member inner1 (\<lambda>m. fold (\<lambda>r m. fst (apply_gossip_record X m r)) recs m)
              | Inl _ \<Rightarrow> inner1)
      | _ \<Rightarrow> inner)"

text \<open>The writer task takes the next queued frame; when sending fails it ends and the queue closes.\<close>

definition control_send :: "bool \<Rightarrow> RuntimeId \<Rightarrow> 'f Inner \<Rightarrow> 'f Inner \<times> MeshStreamFrame option" where
  "control_send sent remote inner =
     (case hm_get (in_peers inner) remote of
        Some entry \<Rightarrow>
         (case pe_control_tx entry of
            Some tx \<Rightarrow>
             (case cq_frames tx of
                frame # rest \<Rightarrow>
                  if cq_open tx then
                    let tx' = (if sent then tx\<lparr>cq_frames := rest\<rparr> else tx\<lparr>cq_frames := rest, cq_open := False\<rparr>);
                        inner1 = inner\<lparr>in_peers := hm_insert remote (entry\<lparr>pe_control_tx := Some tx'\<rparr>) (in_peers inner)\<rparr>
                    in if sent then (in_member inner1 (\<lambda>m. record_gossip_frame_sent m remote), Some frame) else (inner1, None)
                  else (inner, None)
              | [] \<Rightarrow> (inner, None))
          | None \<Rightarrow> (inner, None))
      | None \<Rightarrow> (inner, None))"

text \<open>The control stream ends, or could not be opened: the receiver of the queue is dropped.\<close>

definition control_closed :: "RuntimeId \<Rightarrow> 'f Inner \<Rightarrow> 'f Inner" where
  "control_closed remote inner =
     (case hm_get (in_peers inner) remote of
        None \<Rightarrow> inner
      | Some entry \<Rightarrow>
          inner\<lparr>in_peers := hm_insert remote
            (entry\<lparr>pe_control_tx := map_option (\<lambda>tx. tx\<lparr>cq_frames := [], cq_open := False\<rparr>) (pe_control_tx entry)\<rparr>) (in_peers inner)\<rparr>)"

definition gossip_tick :: "mesh_crates \<Rightarrow> (GossipMessage \<Rightarrow> (bytes, string) rust_result) \<Rightarrow> u64 \<Rightarrow> 'f Inner \<Rightarrow> 'f Inner" where
  "gossip_tick X T now inner =
     (let inner1 = in_member inner (\<lambda>m. fst (update_local m (\<lambda>r. r) now))
      in case encode_message T (digest X (in_membership inner1)) of
           Inl _ \<Rightarrow> inner1
         | Inr payload \<Rightarrow>
             let targets = List.map_filter (\<lambda>(k, e). if pe_control_tx e \<noteq> None then Some k else None) (in_peers inner1)
             in fold (\<lambda>remote i. send_control_frame i remote (Gossip payload)) targets inner1)"

text \<open>
  The first frame of an accepted stream. A control stream gives the entry a new queue; a session
  stream is handed to the relay when its handler is set.
\<close>

datatype delivery = OnDatagram RuntimeId MeshDatagram | OnSessionStream RuntimeId StreamHello

definition stream_hello ::
    "bool \<Rightarrow> RuntimeId \<Rightarrow> MeshStreamFrame option \<Rightarrow> 'f Inner \<Rightarrow> 'f Inner \<times> delivery option" where
  "stream_hello handler remote first inner =
     (case first of
        Some (Hello hello) \<Rightarrow>
         (case sh_role hello of
            Control \<Rightarrow>
             (case hm_get (in_peers inner) remote of
                None \<Rightarrow> (inner, None)
              | Some entry \<Rightarrow>
                  (inner\<lparr>in_peers := hm_insert remote (entry\<lparr>pe_control_tx := Some new_queue\<rparr>) (in_peers inner)\<rparr>, None))
          | Session _ _ \<Rightarrow>
              (in_member inner (\<lambda>m. record_stream_received m remote),
               if handler then Some (OnSessionStream remote hello) else None))
      | _ \<Rightarrow> (inner, None))"

definition datagram_recv :: "bool \<Rightarrow> RuntimeId \<Rightarrow> (MeshDatagram, MeshError) rust_result \<Rightarrow> 'f Inner \<Rightarrow> 'f Inner \<times> delivery option" where
  "datagram_recv handler remote received inner =
     (case received of
        Inr dgram \<Rightarrow>
          (in_member inner (\<lambda>m. record_datagram_received m remote), if handler then Some (OnDatagram remote dgram) else None)
      | Inl _ \<Rightarrow> (remove_mesh_peer inner remote, None))"

definition send_datagram ::
    "(MeshPeer \<Rightarrow> MeshDatagram \<Rightarrow> (unit, MeshError) rust_result) \<Rightarrow> 'f Inner \<Rightarrow> RuntimeId \<Rightarrow> MeshDatagram \<Rightarrow>
     'f Inner \<times> (unit, MeshError) rust_result" where
  "send_datagram net inner to dgram =
     (case hm_get (in_peers inner) to of
        None \<Rightarrow> (inner, Inl (PeerNotConnected to))
      | Some entry \<Rightarrow>
         (case net (pe_peer entry) dgram of
            Inl e \<Rightarrow> (inner, Inl e)
          | Inr _ \<Rightarrow> (in_member inner (\<lambda>m. record_datagram_sent m to), Inr ())))"

definition open_session_stream ::
    "(MeshPeer \<Rightarrow> StreamHello \<Rightarrow> (nat, MeshError) rust_result) \<Rightarrow> 'f Inner \<Rightarrow> RuntimeId \<Rightarrow> StreamHello \<Rightarrow>
     'f Inner \<times> (nat, MeshError) rust_result" where
  "open_session_stream net inner to hello =
     (case hm_get (in_peers inner) to of
        None \<Rightarrow> (inner, Inl (PeerNotConnected to))
      | Some entry \<Rightarrow>
         (case net (pe_peer entry) hello of
            Inl e \<Rightarrow> (inner, Inl e)
          | Inr stream \<Rightarrow> (in_member inner (\<lambda>m. record_stream_opened m to), Inr stream)))"

end
