(* ===== verification/Mesh_Convergence.thy ===== *)
theory Mesh_Convergence
  imports Mesh_Runtime Complex_Main
begin

text \<open>
  What gossip achieves: the records a relay knows as a map, the effect of digests and deltas on it,
  the mesh as a system of relays that change their own records while copies travel in any order,
  and from these the convergence of any two relays that exchange digests.
\<close>

subsection \<open>What a relay knows\<close>

definition known :: "'f MeshMembership \<Rightarrow> RuntimeId \<Rightarrow> GossipRecord option" where
  "known m i = (if i = mm_local_runtime_id m then Some (mm_local_record m)
     else map_option pr_record (hm_get (mm_peers m) i))"

text \<open>
  A well-formed table: the peers are filed under their own ids, the relay itself is not among them,
  and its local record is about itself.
\<close>

definition member_ok :: "'f MeshMembership \<Rightarrow> bool" where
  "member_ok m \<longleftrightarrow> hm_wf (mm_peers m) \<and> mm_local_runtime_id m \<notin> fst ` set (mm_peers m) \<and>
     gr_runtime_id (mm_local_record m) = mm_local_runtime_id m \<and>
     (\<forall>(i, p) \<in> set (mm_peers m). gr_runtime_id (pr_record p) = i)"

lemma member_okD:
  assumes "member_ok m"
  shows "hm_wf (mm_peers m)" "hm_get (mm_peers m) (mm_local_runtime_id m) = None"
    "gr_runtime_id (mm_local_record m) = mm_local_runtime_id m"
    "hm_get (mm_peers m) i = Some p \<Longrightarrow> gr_runtime_id (pr_record p) = i"
  using assms by (auto simp: member_ok_def hm_get_None_iff dest: map_of_SomeD)

lemma known_id: "member_ok m \<Longrightarrow> known m i = Some r \<Longrightarrow> gr_runtime_id r = i"
  by (auto simp: known_def member_okD split: if_splits)

lemma known_new: "known (MeshMembership_new F r) i = (if i = gr_runtime_id r then Some r else None)"
  by (simp add: known_def MeshMembership_new_def)

lemma member_ok_new: "member_ok (MeshMembership_new F r)"
  by (simp add: member_ok_def MeshMembership_new_def)

lemma member_ok_put:
  assumes "member_ok m" "i \<noteq> mm_local_runtime_id m" "gr_runtime_id (pr_record p) = i"
  shows "member_ok (m\<lparr>mm_peers := hm_insert i p (mm_peers m)\<rparr>)"
  using assms hm_insert_set [of i p "mm_peers m"] by (fastforce simp: member_ok_def)

lemma apply_gossip_ok: "member_ok m \<Longrightarrow> member_ok (fst (apply_gossip_record X m r))"
  by (auto simp: apply_gossip_record_def Let_def intro!: member_ok_put split: option.split)

lemma apply_gossip_local [simp]:
  "mm_local_runtime_id (fst (apply_gossip_record X m r)) = mm_local_runtime_id m"
  "mm_local_record (fst (apply_gossip_record X m r)) = mm_local_record m"
  by (simp_all add: apply_gossip_record_def Let_def split: option.split)

text \<open>The newer of two copies: the second only when it has the greater version.\<close>

definition newer :: "GossipRecord option \<Rightarrow> GossipRecord \<Rightarrow> GossipRecord option" where
  "newer old r = (case old of None \<Rightarrow> Some r | Some o' \<Rightarrow> if gr_version o' < gr_version r then Some r else Some o')"

lemma known_apply_gossip:
  assumes "member_ok m"
  shows "known (fst (apply_gossip_record X m r)) i =
    (if i = gr_runtime_id r \<and> i \<noteq> mm_local_runtime_id m then newer (known m i) r else known m i)"
  using assms
  by (auto simp: apply_gossip_record_def known_def newer_def Let_def not_le split: option.split)

abbreviation apply_records :: "mesh_crates \<Rightarrow> GossipRecord list \<Rightarrow> 'f MeshMembership \<Rightarrow> 'f MeshMembership" where
  "apply_records X rs m \<equiv> fold (\<lambda>r m. fst (apply_gossip_record X m r)) rs m"

lemma apply_records_ok: "member_ok m \<Longrightarrow> member_ok (apply_records X rs m)"
  by (induction rs arbitrary: m) (simp_all add: apply_gossip_ok)

lemma apply_records_local [simp]:
  "mm_local_runtime_id (apply_records X rs m) = mm_local_runtime_id m"
  "mm_local_record (apply_records X rs m) = mm_local_record m"
  by (induction rs arbitrary: m) simp_all

lemma known_apply_records:
  assumes "member_ok m" "distinct (map gr_runtime_id rs)"
  shows "known (apply_records X rs m) i =
    (case find (\<lambda>r. gr_runtime_id r = i) rs of
       Some r \<Rightarrow> if i = mm_local_runtime_id m then known m i else newer (known m i) r
     | None \<Rightarrow> known m i)"
  using assms
proof (induction rs arbitrary: m)
  case (Cons r rs)
  have n: "find (\<lambda>x. gr_runtime_id x = gr_runtime_id r) rs = None"
    using Cons.prems(2) by (simp add: find_None_iff image_iff) metis
  have "known (apply_records X (r # rs) m) i =
    (case find (\<lambda>r. gr_runtime_id r = i) rs of
       Some r' \<Rightarrow> if i = mm_local_runtime_id m then known (fst (apply_gossip_record X m r)) i
         else newer (known (fst (apply_gossip_record X m r)) i) r'
     | None \<Rightarrow> known (fst (apply_gossip_record X m r)) i)"
    using Cons by (simp add: apply_gossip_ok split: option.split)
  then show ?case using n Cons.prems(1)
    by (auto simp: known_apply_gossip split: option.splits)
qed simp

subsection \<open>Digests and deltas\<close>

lemma records_ids:
  assumes "member_ok m"
  shows "distinct (map gr_runtime_id (records m))"
    "r \<in> set (records m) \<longleftrightarrow> known m (gr_runtime_id r) = Some r"
proof -
  have ids: "map (gr_runtime_id \<circ> (\<lambda>(_, p). pr_record p)) (mm_peers m) = map fst (mm_peers m)"
    using assms by (auto simp: member_ok_def)
  then have "map gr_runtime_id (records m) = map fst (mm_peers m) @ [mm_local_runtime_id m]"
    using member_okD(3) [OF assms] by (simp only: records_def map_append map_map list.map)
  then show "distinct (map gr_runtime_id (records m))"
    using assms by (simp add: member_ok_def)
  show "r \<in> set (records m) \<longleftrightarrow> known m (gr_runtime_id r) = Some r"
  proof
    assume "r \<in> set (records m)"
    then consider (local) "r = mm_local_record m" | (peer) i p where "(i, p) \<in> set (mm_peers m)" "r = pr_record p"
      by (auto simp: records_def)
    then show "known m (gr_runtime_id r) = Some r"
    proof cases
      case local
      then show ?thesis using member_okD(3) [OF assms] by (simp add: known_def)
    next
      case (peer i p)
      then have "hm_get (mm_peers m) i = Some p" using member_okD(1) [OF assms] by simp
      moreover from this have "gr_runtime_id r = i" using member_okD(4) [OF assms] peer(2) by simp
      ultimately show ?thesis using member_okD(2) [OF assms] peer(2) by (auto simp: known_def)
    qed
  next
    assume k: "known m (gr_runtime_id r) = Some r"
    show "r \<in> set (records m)"
    proof (cases "gr_runtime_id r = mm_local_runtime_id m")
      case False
      with k obtain p where "(gr_runtime_id r, p) \<in> set (mm_peers m)" "pr_record p = r"
        by (auto simp: known_def dest: map_of_SomeD)
      then show ?thesis unfolding records_def by force
    qed (use k in \<open>simp add: known_def records_def\<close>)
  qed
qed

lemma find_key_unique:
  assumes "distinct (map f xs)" "x \<in> set xs"
  shows "find (\<lambda>y. f y = f x) xs = Some x"
  using assms by (induction xs) (auto simp: rev_image_eqI)

lemma remote_versions_get:
  "hm_get (remote_versions es) i = map_option de_version (find (\<lambda>e. de_runtime_id e = i) (rev es))"
proof -
  have "hm_get (fold (\<lambda>e. hm_insert (de_runtime_id e) (de_version e)) es acc) i =
    (case find (\<lambda>e. de_runtime_id e = i) (rev es) of None \<Rightarrow> hm_get acc i | Some e \<Rightarrow> Some (de_version e))" for acc
    by (induction es arbitrary: acc) (auto simp: find_append split: option.split)
  from this [of "[]"] show ?thesis by (simp add: remote_versions_def option.case_eq_if map_option_case)
qed

lemma digest_versions:
  assumes "member_ok m"
  shows "\<exists>es. digest X m = Digest GOSSIP_PAYLOAD_VERSION es \<and>
    (\<forall>i. hm_get (remote_versions es) i = map_option gr_version (known m i))"
proof -
  let ?es = "sort_key (\<lambda>entry. to_hex X (de_runtime_id entry)) (map digest_entry (records m))"
  have d: "distinct (map de_runtime_id (rev ?es))"
    using records_ids(1) [OF assms] by (simp add: rev_map [symmetric] distinct_map digest_entry_def inj_on_def comp_def) metis
  have "hm_get (remote_versions ?es) i = map_option gr_version (known m i)" for i
  proof (cases "known m i")
    case None
    have "find (\<lambda>e. de_runtime_id e = i) (rev ?es) = None"
      using None records_ids(2) [OF assms] by (auto simp: find_None_iff digest_entry_def)
    with None show ?thesis by (simp add: remote_versions_get)
  next
    case (Some r)
    then have i: "gr_runtime_id r = i" using known_id [OF assms] by blast
    then have "r \<in> set (records m)" using Some records_ids(2) [OF assms] by simp
    then have "digest_entry r \<in> set (rev ?es)" by simp
    from find_key_unique [OF d this] show ?thesis using Some i by (simp add: remote_versions_get digest_entry_def)
  qed
  then show ?thesis by (auto simp: digest_def digest_of_def)
qed

lemma delta_records:
  assumes "member_ok m"
  shows "\<exists>rs. delta_for X m es = Delta GOSSIP_PAYLOAD_VERSION rs \<and> distinct (map gr_runtime_id rs) \<and>
    (\<forall>r. r \<in> set rs \<longleftrightarrow> known m (gr_runtime_id r) = Some r \<and> is_behind (remote_versions es) r)"
proof -
  let ?rs = "sort_key (\<lambda>r. to_hex X (gr_runtime_id r)) (filter (is_behind (remote_versions es)) (records m))"
  have "distinct (map gr_runtime_id ?rs)"
    using records_ids(1) [OF assms] by (auto simp: distinct_map inj_on_def)
  moreover have "r \<in> set ?rs \<longleftrightarrow> known m (gr_runtime_id r) = Some r \<and> is_behind (remote_versions es) r" for r
    using records_ids(2) [OF assms, of r] by auto
  ultimately show ?thesis by (auto simp: delta_for_def delta_of_def)
qed

text \<open>One exchange: \<open>a\<close> sends its digest to \<open>b\<close> and applies the delta that comes back.\<close>

definition pull :: "mesh_crates \<Rightarrow> 'f MeshMembership \<Rightarrow> 'g MeshMembership \<Rightarrow> 'f MeshMembership" where
  "pull X a b =
     (case digest X a of
        Digest _ es \<Rightarrow> (case delta_for X b es of Delta _ rs \<Rightarrow> apply_records X rs a | Digest _ _ \<Rightarrow> a)
      | Delta _ _ \<Rightarrow> a)"

lemma known_pull:
  assumes "member_ok a" "member_ok b"
  shows "known (pull X a b) i =
    (case known b i of None \<Rightarrow> known a i
     | Some r \<Rightarrow> if i = mm_local_runtime_id a then known a i else newer (known a i) r)"
proof -
  obtain es where es: "digest X a = Digest GOSSIP_PAYLOAD_VERSION es"
    "\<And>i. hm_get (remote_versions es) i = map_option gr_version (known a i)"
    using digest_versions [OF assms(1), of X] by blast
  obtain rs where rs: "delta_for X b es = Delta GOSSIP_PAYLOAD_VERSION rs" "distinct (map gr_runtime_id rs)"
    "\<And>r. r \<in> set rs \<longleftrightarrow> known b (gr_runtime_id r) = Some r \<and> is_behind (remote_versions es) r"
    using delta_records [OF assms(2), of X es] by blast
  have p: "pull X a b = apply_records X rs a" by (simp add: pull_def es(1) rs(1))
  show ?thesis
  proof (cases "find (\<lambda>r. gr_runtime_id r = i) rs")
    case None
    then have "r \<notin> set rs" if "gr_runtime_id r = i" for r using that by (auto simp: find_None_iff)
    then have "\<not> is_behind (remote_versions es) r" if "known b i = Some r" for r
      using that rs(3) [of r] known_id [OF assms(2) that] by auto
    then have "newer (known a i) r = known a i" if "known b i = Some r" for r
      using that known_id [OF assms(2) that] by (auto simp: is_behind_def es(2) newer_def split: option.splits)
    then show ?thesis
      using None by (auto simp: p known_apply_records [OF assms(1) rs(2)] split: option.split)
  next
    case (Some r)
    then have "r \<in> set rs" "gr_runtime_id r = i" by (auto simp: find_Some_iff)
    then have "known b i = Some r" using rs(3) by auto
    with Some show ?thesis by (simp add: p known_apply_records [OF assms(1) rs(2)])
  qed
qed

lemma pull_local [simp]: "mm_local_runtime_id (pull X a b) = mm_local_runtime_id a"
  by (simp add: pull_def split: GossipMessage.split)

lemma pull_ok: "member_ok a \<Longrightarrow> member_ok (pull X a b)"
  by (simp add: pull_def apply_records_ok split: GossipMessage.split)

subsection \<open>The mesh as a system\<close>

text \<open>
  Every relay of the mesh, by its runtime id, and every record a relay ever wrote about itself. A
  relay changes its own record, or is told a record: one that was written, however long ago and
  by whatever way it came, or a first version, which also a seed of the registry looks like. It
  applies seeds, begins to drain, and keeps account of its connections and frames.
\<close>

record 'f mesh =
  node :: "RuntimeId \<Rightarrow> 'f MeshMembership"
  written :: "GossipRecord set"

definition mesh_init :: "'f mesh \<Rightarrow> bool" where
  "mesh_init s \<longleftrightarrow> (\<forall>i. member_ok (node s i) \<and> mm_local_runtime_id (node s i) = i \<and> mm_peers (node s i) = [] \<and>
       gr_version (mm_local_record (node s i)) = 1) \<and>
     written s = range (\<lambda>i. mm_local_record (node s i))"

inductive mesh_step :: "mesh_crates \<Rightarrow> 'f mesh \<Rightarrow> 'f mesh \<Rightarrow> bool" for X :: mesh_crates where
  change: "gr_version (f (mm_local_record (node s n))) = gr_version (mm_local_record (node s n)) \<Longrightarrow>
      gr_runtime_id (f (mm_local_record (node s n))) = n \<Longrightarrow>
      gr_version (mm_local_record (node s n)) < - 1 \<Longrightarrow>
      update_local (node s n) f now = (m, r) \<Longrightarrow>
      mesh_step X s (s\<lparr>node := (node s)(n := m), written := insert r (written s)\<rparr>)"
| told: "r \<in> written s \<or> gr_version r = 1 \<Longrightarrow>
      mesh_step X s (s\<lparr>node := (node s)(n := fst (apply_gossip_record X (node s n) r))\<rparr>)"
| seeded: "mesh_step X s (s\<lparr>node := (node s)(n := apply_ready_record X now (node s n) ready)\<rparr>)"
| drained: "gr_version (mm_local_record (node s n)) < - 1 \<Longrightarrow>
      mesh_step X s (s\<lparr>node := (node s)(n := begin_drain (node s n) now),
        written := insert (mm_local_record (begin_drain (node s n) now)) (written s)\<rparr>)"
| touched: "(\<And>p. pr_record (f p) = pr_record p) \<Longrightarrow>
      mesh_step X s (s\<lparr>node := (node s)(n := update_peer (node s n) i f)\<rparr>)"

text \<open>
  No relay knows more of another than that one has written, two records of one version after the
  first are the same record, and no copy is ahead of its owner.
\<close>

definition version_of :: "'f mesh \<Rightarrow> RuntimeId \<Rightarrow> u64" where
  "version_of s i = gr_version (mm_local_record (node s i))"

definition mesh_inv :: "'f mesh \<Rightarrow> bool" where
  "mesh_inv s \<longleftrightarrow>
     (\<forall>n. member_ok (node s n) \<and> mm_local_runtime_id (node s n) = n \<and> mm_local_record (node s n) \<in> written s) \<and>
     (\<forall>n i r. known (node s n) i = Some r \<longrightarrow> r \<in> written s \<or> gr_version r = 1) \<and>
     (\<forall>r \<in> written s. \<forall>r' \<in> written s. gr_runtime_id r = gr_runtime_id r' \<longrightarrow> gr_version r = gr_version r' \<longrightarrow> r = r') \<and>
     (\<forall>r \<in> written s. 1 \<le> gr_version r \<and> gr_version r \<le> version_of s (gr_runtime_id r))"

lemma mesh_invD:
  assumes "mesh_inv s"
  shows "member_ok (node s n)" "mm_local_runtime_id (node s n) = n" "mm_local_record (node s n) \<in> written s"
    "known (node s n) i = Some r \<Longrightarrow> r \<in> written s \<or> gr_version r = 1"
    "r \<in> written s \<Longrightarrow> r' \<in> written s \<Longrightarrow> gr_runtime_id r = gr_runtime_id r' \<Longrightarrow> gr_version r = gr_version r' \<Longrightarrow> r = r'"
    "r \<in> written s \<Longrightarrow> 1 \<le> gr_version r" "r \<in> written s \<Longrightarrow> gr_version r \<le> version_of s (gr_runtime_id r)"
  using assms unfolding mesh_inv_def by blast+

lemma mesh_init_inv: "mesh_init s \<Longrightarrow> mesh_inv s"
  by (auto simp: mesh_init_def mesh_inv_def version_of_def known_def member_ok_def split: if_splits)

lemma succ_version:
  assumes "v < (- 1 :: u64)"
  shows "unat (u64_saturating_add v 1) = unat v + 1"
proof -
  have "unat v < unat (- 1 :: u64)" using assms by (simp add: word_less_nat_alt)
  then have "unat v < 2 ^ 64 - 1" by (simp add: unsigned_minus_1_eq_mask mask_eq_exp_minus_1)
  then show ?thesis by (simp add: u64_saturating_add_def unat_word_ariths)
qed

text \<open>A relay writes the next version of its own record.\<close>

lemma write_inv:
  assumes inv: "mesh_inv s" and m: "member_ok m" "mm_local_runtime_id m = n" "mm_peers m = mm_peers (node s n)"
    and v: "unat (gr_version (mm_local_record m)) = unat (gr_version (mm_local_record (node s n))) + 1"
  shows "mesh_inv (s\<lparr>node := (node s)(n := m), written := insert (mm_local_record m) (written s)\<rparr>)"
proof -
  let ?new = "mm_local_record m" and ?t = "s\<lparr>node := (node s)(n := m), written := insert (mm_local_record m) (written s)\<rparr>"
  have lt: "version_of s n < gr_version ?new" using v by (simp add: word_less_nat_alt version_of_def)
  have one: "1 \<le> gr_version ?new" using v by (simp add: word_le_nat_alt)
  have id: "gr_runtime_id ?new = n" using m by (simp add: member_okD)
  have k: "known m i = (if i = n then Some ?new else known (node s n) i)" for i
    using m mesh_invD(2) [OF inv] by (simp add: known_def)
  have fresh: "gr_version r \<noteq> gr_version ?new" if "r \<in> written s" "gr_runtime_id r = n" for r
    using mesh_invD(7) [OF inv that(1)] that(2) lt by auto
  have grow: "version_of s i \<le> version_of ?t i" for i using order.strict_implies_order [OF lt] by (simp add: version_of_def)
  show ?thesis
    unfolding mesh_inv_def
  proof (intro conjI ballI allI impI)
    fix i show "member_ok (node ?t i)" "mm_local_runtime_id (node ?t i) = i" "mm_local_record (node ?t i) \<in> written ?t"
      using m(1,2) mesh_invD(1-3) [OF inv] by simp_all
  next
    fix j i r assume "known (node ?t j) i = Some r"
    then show "r \<in> written ?t \<or> gr_version r = 1"
      using mesh_invD(4) [OF inv] k by (auto split: if_splits)
  next
    fix r r' assume r: "r \<in> written ?t" "r' \<in> written ?t" and eq: "gr_runtime_id r = gr_runtime_id r'" "gr_version r = gr_version r'"
    from r consider "r = ?new" "r' = ?new" | "r = ?new" "r' \<in> written s" | "r \<in> written s" "r' = ?new"
      | "r \<in> written s" "r' \<in> written s" by auto
    then show "r = r'"
    proof cases
      case 4
      then show ?thesis using eq by (rule mesh_invD(5) [OF inv])
    qed (use eq fresh id in metis)+
  next
    fix r assume r: "r \<in> written ?t"
    then show "1 \<le> gr_version r" using mesh_invD(6) [OF inv] one by auto
    show "gr_version r \<le> version_of ?t (gr_runtime_id r)"
    proof (cases "r = ?new")
      case False
      then have "r \<in> written s" using r by simp
      from order_trans [OF mesh_invD(7) [OF inv this] grow] show ?thesis .
    qed (use id in \<open>simp add: version_of_def\<close>)
  qed
qed

text \<open>A relay learns something, or nothing.\<close>

lemma learn_inv:
  assumes inv: "mesh_inv s" and m: "member_ok m" "mm_local_runtime_id m = n" "mm_local_record m = mm_local_record (node s n)"
    and k: "\<And>i r. known m i = Some r \<Longrightarrow> known (node s n) i = Some r \<or> r \<in> written s \<or> gr_version r = 1"
  shows "mesh_inv (s\<lparr>node := (node s)(n := m)\<rparr>)"
proof -
  let ?t = "s\<lparr>node := (node s)(n := m)\<rparr>"
  have v: "version_of ?t i = version_of s i" for i using m(3) by (simp add: version_of_def)
  have "known (node ?t j) i = Some r \<Longrightarrow> r \<in> written s \<or> gr_version r = 1" for j i r
    using mesh_invD(4) [OF inv, of j i r] mesh_invD(4) [OF inv, of n i r] k [of i r] by (cases "j = n") auto
  moreover have "member_ok (node ?t j) \<and> mm_local_runtime_id (node ?t j) = j \<and> mm_local_record (node ?t j) \<in> written ?t" for j
    using m mesh_invD(1-3) [OF inv] by simp
  ultimately show ?thesis using mesh_invD(5-7) [OF inv] unfolding mesh_inv_def v by auto
qed


lemma known_bump:
  assumes "member_ok m" "gr_runtime_id r = mm_local_runtime_id m"
  shows "member_ok (m\<lparr>mm_local_record := r\<rparr>)"
  using assms by (simp add: member_ok_def)

lemma known_update_peer:
  assumes "member_ok m" "\<And>p. pr_record (f p) = pr_record p"
  shows "member_ok (update_peer m i f)" "known (update_peer m i f) j = known m j"
    "mm_local_runtime_id (update_peer m i f) = mm_local_runtime_id m" "mm_local_record (update_peer m i f) = mm_local_record m"
proof -
  have "i \<noteq> mm_local_runtime_id m" if "hm_get (mm_peers m) i = Some p" for p
    using that member_okD(2) [OF assms(1)] by auto
  then show "member_ok (update_peer m i f)"
    using assms member_okD(4) [OF assms(1)] by (auto simp: update_peer_def intro!: member_ok_put split: option.split)
qed (auto simp: update_peer_def known_def assms(2) split: option.split)

lemma ready_learns:
  assumes "member_ok m"
  shows "member_ok (apply_ready_record X now m ready)"
    "mm_local_runtime_id (apply_ready_record X now m ready) = mm_local_runtime_id m"
    "mm_local_record (apply_ready_record X now m ready) = mm_local_record m"
    "known (apply_ready_record X now m ready) i = Some r \<Longrightarrow> known m i = Some r \<or> gr_version r = 1"
proof -
  have o: "member_ok (m\<lparr>mm_foreign_relay_rejections := v\<rparr>)" "known (m\<lparr>mm_foreign_relay_rejections := v\<rparr>) i = known m i" for v
    using assms by (simp_all add: member_ok_def known_def)
  show "member_ok (apply_ready_record X now m ready)"
    using assms o by (simp add: apply_ready_record_def apply_gossip_ok split: sum.split)
  show "known (apply_ready_record X now m ready) i = Some r \<Longrightarrow> known m i = Some r \<or> gr_version r = 1"
    using o by (auto simp: apply_ready_record_def known_apply_gossip [OF assms] newer_def GossipRecord_new_def
        split: if_splits sum.splits option.splits)
qed (simp_all add: apply_ready_record_def split: sum.split)

lemma mesh_step_inv:
  assumes "mesh_step X s t" "mesh_inv s"
  shows "mesh_inv t"
  using assms
proof (induction rule: mesh_step.induct)
  case (change f s n now m r)
  note D = mesh_invD [OF change.prems]
  have m: "m = (node s n)\<lparr>mm_local_record := bump now (f (mm_local_record (node s n)))\<rparr>" "r = mm_local_record m"
    using change.hyps(4) by (auto simp: update_local_def Let_def)
  have "member_ok m" unfolding m using D(1,2) change.hyps(2) by (intro known_bump) (simp_all add: bump_def)
  moreover have "unat (gr_version (mm_local_record m)) = unat (gr_version (mm_local_record (node s n))) + 1"
    using succ_version [OF change.hyps(3)] change.hyps(1) by (simp add: m bump_def)
  ultimately show ?case using write_inv [OF change.prems, of m n] D(2) m by simp
next
  case (told r s n)
  note D = mesh_invD [OF told.prems]
  show ?case
    by (rule learn_inv [OF told.prems]) (use D(1,2) told.hyps in \<open>auto simp: apply_gossip_ok known_apply_gossip newer_def split: if_splits option.splits\<close>)
next
  case (seeded s n now ready)
  note D = mesh_invD [OF seeded.prems]
  show ?case
    by (rule learn_inv [OF seeded.prems]) (use D(2) ready_learns(1-3) [OF D(1)] in simp_all, metis ready_learns(4) [OF D(1)])
next
  case (drained s n now)
  note D = mesh_invD [OF drained.prems]
  have m: "begin_drain (node s n) now = (node s n)\<lparr>mm_draining := True,
      mm_local_record := bump now (mm_local_record (node s n)\<lparr>gr_draining := True\<rparr>)\<rparr>"
    by (simp add: begin_drain_def update_local_def Let_def)
  have "member_ok (begin_drain (node s n) now)"
    unfolding m using D(1,2) member_okD(3) [OF D(1)] by (simp add: member_ok_def bump_def)
  moreover have "unat (gr_version (mm_local_record (begin_drain (node s n) now))) = unat (gr_version (mm_local_record (node s n))) + 1"
    using succ_version [OF drained.hyps] by (simp add: m bump_def)
  ultimately show ?case using write_inv [OF drained.prems, of "begin_drain (node s n) now" n] D(2) m by simp
next
  case (touched f s n i)
  note D = mesh_invD [OF touched.prems]
  show ?case
    by (rule learn_inv [OF touched.prems]) (use D(2) known_update_peer [OF D(1) touched.hyps] in auto)
qed

interpretation mesh: invariant_system mesh_init "mesh_step X" mesh_inv for X
  by unfold_locales (auto intro: mesh_init_inv mesh_step_inv)


subsection \<open>Convergence\<close>

lemma known_bound:
  assumes "mesh_inv s" "known (node s n) i = Some r"
  shows "gr_runtime_id r = i" "1 \<le> gr_version r" "gr_version r \<le> version_of s i"
proof -
  note D = mesh_invD [OF assms(1)]
  show id: "gr_runtime_id r = i" using known_id [OF D(1) assms(2)] .
  show "1 \<le> gr_version r" using D(4) [OF assms(2)] D(6) by auto
  show "gr_version r \<le> version_of s i"
    using D(4) [OF assms(2)] D(7) [of r] D(6) [OF D(3) [of i]] id by (auto simp: version_of_def)
qed

lemma known_same:
  assumes "mesh_inv s" "known (node s n) i = Some r" "known (node s m) i = Some r'" "gr_version r = gr_version r'" "gr_version r \<noteq> 1"
  shows "r = r'"
proof -
  note D = mesh_invD [OF assms(1)]
  have "r \<in> written s" "r' \<in> written s" using D(4) [OF assms(2)] D(4) [OF assms(3)] assms(4,5) by auto
  then show ?thesis
    using D(5) known_bound(1) [OF assms(1,2)] known_bound(1) [OF assms(1,3)] assms(4) by metis
qed

text \<open>
  C9. Whatever has happened in the mesh, when two relays exchange digests both ways they know the same
  runtimes at the same versions, nothing either knew is forgotten or replaced by something older,
  and every record beyond its first version is the same record on both sides.
\<close>

theorem gossip_converges:
  assumes "reach mesh_init (mesh_step X) s" "i \<noteq> j"
    and "a = pull X (node s i) (node s j)" "b = pull X (node s j) a"
  shows "map_option gr_version (known a k) = map_option gr_version (known b k) \<and>
    (known a k = known b k \<or> map_option gr_version (known a k) = Some 1) \<and>
    (\<forall>n r. n \<in> {i, j} \<and> known (node s n) k = Some r \<longrightarrow> (\<exists>r'. known a k = Some r' \<and> gr_version r \<le> gr_version r'))"
proof -
  have inv: "mesh_inv s" using assms(1) by (rule mesh.reach_inv)
  note D = mesh_invD [OF inv]
  have ok: "member_ok (node s i)" "member_ok (node s j)" "member_ok a" using D(1) pull_ok assms(3) by auto
  have ka: "known a k = (case known (node s j) k of None \<Rightarrow> known (node s i) k
      | Some r \<Rightarrow> if k = i then known (node s i) k else newer (known (node s i) k) r)"
    using known_pull [OF ok(1,2), of X k] unfolding assms(3) D(2) .
  have kb: "known b k = (case known a k of None \<Rightarrow> known (node s j) k
      | Some r \<Rightarrow> if k = j then known (node s j) k else newer (known (node s j) k) r)"
    using known_pull [OF ok(2,3), of X k] unfolding assms(4) D(2) .
  have own: "known (node s n) n = Some (mm_local_record (node s n))" for n by (simp add: known_def D(2))
  have le: "known (node s n) m = Some r \<Longrightarrow> gr_version r \<le> gr_version (mm_local_record (node s m))" for n m r
    using known_bound(3) [OF inv] by (simp add: version_of_def)
  note same = known_same [OF inv, of i k _ j]
  show ?thesis
  proof (cases "known (node s i) k"; cases "known (node s j) k")
    fix r r' assume r: "known (node s i) k = Some r" "known (node s j) k = Some r'"
    consider "gr_version r < gr_version r'" | "gr_version r' < gr_version r" | "gr_version r = gr_version r'"
      by (metis linorder_less_linear)
    then show ?thesis
    proof cases
      case 1
      then have "k \<noteq> i" using le [of j i r'] own [of i] r by auto
      then show ?thesis using 1 r assms(2) by (auto simp: ka kb newer_def)
    next
      case 2
      then have "k \<noteq> j" using le [of i j r] own [of j] r by auto
      then show ?thesis using 2 r by (auto simp: ka kb newer_def)
    next
      case 3
      have ka': "known a k = Some r" using 3 unfolding ka r by (simp add: newer_def)
      have kb': "known b k = Some r'" using 3 unfolding kb ka' r by (simp add: newer_def)
      have "r = r' \<or> gr_version r = 1" using same [OF r 3] by blast
      then show ?thesis using 3 r ka' kb' by (elim disjE) auto
    qed
  next
    fix r assume r: "known (node s i) k = Some r" "known (node s j) k = None"
    then have "k \<noteq> j" using own [of j] by auto
    then show ?thesis using r by (auto simp: ka kb newer_def)
  next
    fix r assume r: "known (node s i) k = None" "known (node s j) k = Some r"
    then have "k \<noteq> i" using own [of i] by auto
    then show ?thesis using r by (auto simp: ka kb newer_def)
  next
    assume r: "known (node s i) k = None" "known (node s j) k = None"
    then show ?thesis by (auto simp: ka kb)
  qed
qed


text \<open>A mesh in which the relay with id 1 has written its record once more.\<close>

definition sample_crates :: mesh_crates where
  "sample_crates =
     \<lparr>to_hex = hex_write, pubkey_from_hex = Inr, pubkey_xonly = Inr, pubkey_to_hex = (\<lambda>k. k), signature_from_str = (\<lambda>s. Inr (hex_read s)),
      sha256 = (\<lambda>s. map (\<lambda>c. of_nat (of_char c)) s), verify_schnorr = (\<lambda>sig m pk. if sig = m then Inr () else Inl ''signature''),
      keys_public_hex = (\<lambda>k. k), sign_schnorr = (\<lambda>k m. hex_write m)\<rparr>"

definition sample_f64 :: "rat f64_ops" where
  "sample_f64 = \<lparr>as_secs_f64 = (\<lambda>d. of_nat d / 10 ^ 9), f64_of_usize = of_nat, f64_zero = 0, f64_add = (+), f64_div = (/),
     f64_le = (\<le>), EPSILON = 1 / 2 ^ 52, LN_10 = 23 / 10, DEFAULT_PHI_SUSPECT_THRESHOLD = 8\<rparr>"

definition sample_mesh :: "rat mesh" where
  "sample_mesh = \<lparr>node = (\<lambda>i. MeshMembership_new sample_f64 (GossipRecord_new i [] 1 0)),
     written = range (\<lambda>i. GossipRecord_new i [] 1 0)\<rparr>"

definition changed_mesh :: "rat mesh" where
  "changed_mesh = (let (m, r) = update_local (node sample_mesh [1]) (\<lambda>r. r\<lparr>gr_load := 7\<rparr>) 5
     in sample_mesh\<lparr>node := (node sample_mesh)([1] := m), written := insert r (written sample_mesh)\<rparr>)"

lemma changed_mesh_reach: "reach mesh_init (mesh_step X) changed_mesh"
proof -
  have "mesh_init sample_mesh"
    by (auto simp: mesh_init_def sample_mesh_def member_ok_new, simp_all add: MeshMembership_new_def GossipRecord_new_def)
  moreover have lt: "(1 :: u64) < - 1" by (simp add: word_less_nat_alt unsigned_minus_1_eq_mask mask_eq_exp_minus_1)
  obtain m r where u: "update_local (node sample_mesh [1]) (\<lambda>r. r\<lparr>gr_load := 7\<rparr>) 5 = (m, r)" by fastforce
  have "mesh_step X sample_mesh changed_mesh"
    unfolding changed_mesh_def u Let_def split_conv
    by (rule mesh_step.change [OF _ _ _ u]) (simp_all add: lt sample_mesh_def MeshMembership_new_def GossipRecord_new_def)
  ultimately show ?thesis by (blast intro: reach.intros)
qed

theorem gossip_converges_witness:
  "\<exists>r. known (pull sample_crates (node changed_mesh [2]) (node changed_mesh [1])) [1] = Some r \<and> 2 \<le> gr_version r"
proof -
  have "known (node changed_mesh [1]) [1] = Some (bump 5 ((GossipRecord_new [1] [] 1 0)\<lparr>gr_load := 7\<rparr>))"
    by (simp add: changed_mesh_def sample_mesh_def update_local_def known_def MeshMembership_new_def GossipRecord_new_def Let_def)
  moreover have "gr_version (bump 5 ((GossipRecord_new [1] [] 1 0)\<lparr>gr_load := 7\<rparr>)) = 2"
    by (simp add: bump_def GossipRecord_new_def u64_saturating_add_def)
  ultimately show ?thesis
    using gossip_converges [OF changed_mesh_reach, of "[2]" "[1]" _ sample_crates _ "[1]"] by fastforce
qed

end
