(* ===== verification/Mesh_Admission.thy ===== *)
theory Mesh_Admission
  imports Mesh_Convergence
begin

text \<open>
  Who is connected to whom: the choice between two connections that both ends dialed at once, which
  runtimes are admitted and dialed, how draining spreads, how suspicion grows, and how the
  membership table relates to the pure gossip state.
\<close>

subsection \<open>Simultaneous dials\<close>

definition install_all :: "(MeshPeer \<times> bool) list \<Rightarrow> 'f Inner \<Rightarrow> 'f Inner" where
  "install_all cs inner = fold (\<lambda>(p, dialed) i. fst (install_peer i p dialed)) cs inner"

definition connection_to :: "'f Inner \<Rightarrow> RuntimeId \<Rightarrow> nat option" where
  "connection_to inner i = map_option (\<lambda>e. mp_conn (pe_peer e)) (hm_get (in_peers inner) i)"

lemma ids_total:
  assumes "(i :: RuntimeId) \<noteq> j"
  shows "map unat i < map unat j \<longleftrightarrow> \<not> map unat j < map unat i"
proof -
  have "inj (unat :: u8 \<Rightarrow> nat)" by (simp add: inj_on_def word_unat_eq_iff)
  then have "map unat i \<noteq> map unat j" using assms by (simp add: inj_map_eq_map)
  then show ?thesis by (metis linorder_less_linear order_less_asym)
qed

lemma install_two:
  assumes "connection_to inner r = None" "p = (\<lambda>c. \<lparr>mp_conn = c, mp_runtime_id = r\<rparr>)"
  shows "connection_to (install_all [(p x, True), (p y, False)] inner) r =
      Some (if map unat (in_runtime_id inner) < map unat r then x else y)"
    "connection_to (install_all [(p y, False), (p x, True)] inner) r =
      Some (if map unat (in_runtime_id inner) < map unat r then x else y)"
  using assms by (auto simp: connection_to_def install_all_def install_peer_def new_connection_wins_def Let_def in_member_def)

text \<open>
  C13. Two relays that dial each other at the same time end with the same one of the two connections,
  the one the relay with the smaller id dialed, in whichever order either of them sees the two.
\<close>

theorem tie_break_agrees:
  assumes "in_runtime_id a \<noteq> in_runtime_id b"
    and "connection_to a (in_runtime_id b) = None" "connection_to b (in_runtime_id a) = None"
    and "set as = {(\<lparr>mp_conn = x, mp_runtime_id = in_runtime_id b\<rparr>, True), (\<lparr>mp_conn = y, mp_runtime_id = in_runtime_id b\<rparr>, False)}"
    and "set bs = {(\<lparr>mp_conn = x, mp_runtime_id = in_runtime_id a\<rparr>, False), (\<lparr>mp_conn = y, mp_runtime_id = in_runtime_id a\<rparr>, True)}"
    and "length as = 2" "length bs = 2"
  shows "connection_to (install_all as a) (in_runtime_id b) = connection_to (install_all bs b) (in_runtime_id a) \<and>
    connection_to (install_all as a) (in_runtime_id b) =
      Some (if map unat (in_runtime_id a) < map unat (in_runtime_id b) then x else y)"
proof -
  have two: "zs = [u, v] \<or> zs = [v, u]" if uv: "set zs = {u, v}" "length zs = 2" for zs :: "(MeshPeer \<times> bool) list" and u v
  proof -
    obtain p q where "zs = [p, q]" using uv(2) by (auto simp: numeral_2_eq_2 length_Suc_conv)
    with uv(1) show ?thesis by (simp add: doubleton_eq_iff)
  qed
  have "as = [(\<lparr>mp_conn = x, mp_runtime_id = in_runtime_id b\<rparr>, True), (\<lparr>mp_conn = y, mp_runtime_id = in_runtime_id b\<rparr>, False)] \<or>
      as = [(\<lparr>mp_conn = y, mp_runtime_id = in_runtime_id b\<rparr>, False), (\<lparr>mp_conn = x, mp_runtime_id = in_runtime_id b\<rparr>, True)]"
    by (rule two [OF assms(4,6)])
  then have 1: "connection_to (install_all as a) (in_runtime_id b) =
      Some (if map unat (in_runtime_id a) < map unat (in_runtime_id b) then x else y)"
    using install_two [OF assms(2) refl, where x = x and y = y] by auto
  have "bs = [(\<lparr>mp_conn = x, mp_runtime_id = in_runtime_id a\<rparr>, False), (\<lparr>mp_conn = y, mp_runtime_id = in_runtime_id a\<rparr>, True)] \<or>
      bs = [(\<lparr>mp_conn = y, mp_runtime_id = in_runtime_id a\<rparr>, True), (\<lparr>mp_conn = x, mp_runtime_id = in_runtime_id a\<rparr>, False)]"
    by (rule two [OF assms(5,7)])
  then have 2: "connection_to (install_all bs b) (in_runtime_id a) =
      Some (if map unat (in_runtime_id b) < map unat (in_runtime_id a) then y else x)"
    using install_two [OF assms(3) refl, where x = y and y = x] by auto
  show ?thesis using 1 2 ids_total [OF assms(1)] by simp
qed

definition sample_inner :: "RuntimeId \<Rightarrow> rat Inner" where
  "sample_inner i = \<lparr>in_runtime_id = i, in_membership = node changed_mesh i, in_peers = []\<rparr>"

theorem tie_break_agrees_witness:
  "connection_to (install_all [(\<lparr>mp_conn = 7, mp_runtime_id = [2]\<rparr>, True), (\<lparr>mp_conn = 9, mp_runtime_id = [2]\<rparr>, False)] (sample_inner [1])) [2] =
   connection_to (install_all [(\<lparr>mp_conn = 9, mp_runtime_id = [1]\<rparr>, True), (\<lparr>mp_conn = 7, mp_runtime_id = [1]\<rparr>, False)] (sample_inner [2])) [1]"
  using tie_break_agrees [of "sample_inner [1]" "sample_inner [2]"
      "[(\<lparr>mp_conn = 7, mp_runtime_id = [2]\<rparr>, True), (\<lparr>mp_conn = 9, mp_runtime_id = [2]\<rparr>, False)]" 7 9
      "[(\<lparr>mp_conn = 9, mp_runtime_id = [1]\<rparr>, True), (\<lparr>mp_conn = 7, mp_runtime_id = [1]\<rparr>, False)]"]
  by (simp add: sample_inner_def connection_to_def insert_commute)

subsection \<open>Admission\<close>

lemma has_peer_apply: "has_peer (fst (apply_gossip_record X m r)) i \<longleftrightarrow>
    has_peer m i \<or> (i = gr_runtime_id r \<and> i \<noteq> mm_local_runtime_id m)"
  by (auto simp: has_peer_def apply_gossip_record_def Let_def split: option.split)

definition attested :: "mesh_crates \<Rightarrow> 'f MeshMembership \<Rightarrow> ReadyRecord \<Rightarrow> bool" where
  "attested X m ready \<longleftrightarrow> mm_expected_relay_pubkey m = Some (rr_relay_pubkey ready) \<and>
     ReadyRecord_verify_attestation X ready = Inr ()"

lemma has_peer_ready: "has_peer (apply_ready_record X now m ready) i \<longleftrightarrow>
    has_peer m i \<or> (i = rr_runtime_id ready \<and> i \<noteq> mm_local_runtime_id m \<and> attested X m ready)"
proof -
  have "has_peer (m\<lparr>mm_foreign_relay_rejections := v\<rparr>) i = has_peer m i" for v by (simp add: has_peer_def)
  then show ?thesis
    by (auto simp: apply_ready_record_def attested_def has_peer_apply GossipRecord_new_def split: sum.split)
qed

lemma apply_ready_config:
  "mm_local_runtime_id (apply_ready_record X now m ready) = mm_local_runtime_id m"
  "mm_expected_relay_pubkey (apply_ready_record X now m ready) = mm_expected_relay_pubkey m"
  by (simp_all add: apply_ready_record_def apply_gossip_record_def Let_def split: sum.split option.split)

lemma has_peer_ready_records: "has_peer (apply_ready_records X m recs) i \<longleftrightarrow>
    has_peer m i \<or> (\<exists>(now, ready) \<in> set recs. i = rr_runtime_id ready \<and> i \<noteq> mm_local_runtime_id m \<and> attested X m ready)"
proof (induction recs arbitrary: m)
  case (Cons r recs)
  have "attested X (apply_ready_record X t m x) ready = attested X m ready" for t x ready
    by (simp add: attested_def apply_ready_config)
  then show ?case
    using Cons by (cases r) (auto simp: apply_ready_records_def has_peer_ready apply_ready_config)
qed (simp add: apply_ready_records_def)

text \<open>
  An inbound connection is installed only for a runtime in the membership table, and the registry
  puts a runtime there only with an attestation by the key of the deployment that covers its id;
  without a configured key it puts none there.
\<close>

theorem inbound_admission:
  "connection_to (accept_one X scan inner peer) (mp_runtime_id peer) = connection_to inner (mp_runtime_id peer) \<or>
   has_peer (in_membership inner) (mp_runtime_id peer) \<or>
   (\<exists>recs now ready. scan = Some (Inr recs) \<and> (now, ready) \<in> set recs \<and> rr_runtime_id ready = mp_runtime_id peer \<and>
      mm_expected_relay_pubkey (in_membership inner) = Some (rr_relay_pubkey ready) \<and>
      rr_runtime_pubkey ready = to_hex X (mp_runtime_id peer) \<and>
      verify_attestation X (mp_runtime_id peer) (rr_relay_pubkey ready) (rr_relay_sig ready) = Inr ())"
proof (cases "has_peer (in_membership (rescan X scan inner)) (mp_runtime_id peer) \<or> has_peer (in_membership inner) (mp_runtime_id peer)")
  case False
  then have "accept_one X scan inner peer = rescan X scan inner"
    by (simp add: accept_one_def is_known_peer_def Let_def)
  then show ?thesis by (auto simp: connection_to_def rescan_def in_member_def split: option.split sum.split)
next
  case True
  then show ?thesis
    by (auto simp: rescan_def in_member_def has_peer_ready_records attested_def ReadyRecord_verify_attestation_def
        split: option.splits sum.splits if_splits)
qed

text \<open>
  Gossip puts runtimes there without any attestation: after one delta from a connected peer that
  mentions a runtime nobody attested, an inbound connection from that runtime is installed.
\<close>

theorem gossip_bypasses_attestation:
  assumes "decode_message D payload = Inr (Delta v recs)" "r \<in> set recs"
    and "gr_runtime_id r \<noteq> mm_local_runtime_id (in_membership inner)"
    and "connection_to inner (gr_runtime_id r) = None"
  shows "connection_to (accept_one X None (control_recv X T D remote (Gossip payload) inner) \<lparr>mp_conn = c, mp_runtime_id = gr_runtime_id r\<rparr>)
    (gr_runtime_id r) = Some c"
proof -
  have keep: "has_peer (apply_records X rs m) i" if "has_peer m i" for rs i and m :: "'a MeshMembership"
    using that by (induction rs arbitrary: m) (simp_all add: has_peer_apply)
  have "has_peer (apply_records X rs m) (gr_runtime_id r)"
    if "r \<in> set rs" "gr_runtime_id r \<noteq> mm_local_runtime_id m" for rs and m :: "'a MeshMembership"
    using that by (induction rs arbitrary: m) (auto simp: has_peer_apply intro: keep)
  moreover have "mm_local_runtime_id (record_gossip_frame_received m remote) = mm_local_runtime_id m" for m :: "'a MeshMembership"
    by (simp add: record_gossip_frame_received_def update_peer_counters_def update_peer_def split: option.split)
  ultimately show ?thesis
    using assms by (simp add: accept_one_def is_known_peer_def control_recv_def in_member_def Let_def install_peer_def connection_to_def)
qed

theorem gossip_bypasses_attestation_witness:
  "connection_to (accept_one sample_crates None
     (control_recv sample_crates (\<lambda>_. Inl []) (\<lambda>_. Inr (Delta 1 [GossipRecord_new [5] [] 1 0])) [2] (Gossip [0]) (sample_inner [1]))
     \<lparr>mp_conn = 3, mp_runtime_id = [5]\<rparr>) [5] = Some 3"
proof -
  have "decode_message (\<lambda>_. Inr (Delta 1 [GossipRecord_new [5] [] 1 0])) [0] = Inr (Delta 1 [GossipRecord_new [5] [] 1 0])"
    by (simp add: decode_message_def GOSSIP_PAYLOAD_VERSION_def)
  moreover have "mm_local_runtime_id (in_membership (sample_inner [1])) = [1]"
    using mesh_invD(2) [OF mesh.reach_inv [OF changed_mesh_reach]] by (simp add: sample_inner_def)
  moreover have "connection_to (sample_inner [1]) [5] = None" by (simp add: connection_to_def sample_inner_def)
  moreover have "gr_runtime_id (GossipRecord_new [5] [] 1 0) = [5]" by (simp add: GossipRecord_new_def)
  ultimately show ?thesis
    using gossip_bypasses_attestation [where r = "GossipRecord_new [5] [] 1 0" and inner = "sample_inner [1]" and c = 3] by fastforce
qed

subsection \<open>Draining\<close>

text \<open>A dial reaches the runtime it is for: the endpoint authenticates it.\<close>

definition net_ok :: "(RuntimeId \<Rightarrow> string \<Rightarrow> dial_outcome) \<Rightarrow> bool" where
  "net_ok net \<longleftrightarrow> (\<forall>i addr p. net i addr = Connects p \<longrightarrow> mp_runtime_id p = i)"

lemma dial_connects:
  assumes "\<And>addr p. net addr = Connects p \<Longrightarrow> mp_runtime_id p = i" "k \<noteq> i"
  shows "hm_get (in_peers (dial_addrs net i addrs inner)) k = hm_get (in_peers inner) k"
  using assms
proof (induction addrs arbitrary: inner)
  case (Cons a as)
  have "in_peers (in_member x f) = in_peers x" for x :: "'a Inner" and f by (simp add: in_member_def)
  then show ?case using Cons by (auto simp: Let_def install_peer_def split: dial_outcome.split)
qed (simp add: in_member_def)

lemma fold_dial_connects:
  assumes "net_ok net" "k \<notin> gr_runtime_id ` set rs"
  shows "hm_get (in_peers (fold (\<lambda>r i. if hm_contains_key (in_peers i) (gr_runtime_id r) then i else dial_peer net i r) rs inner)) k =
    hm_get (in_peers inner) k"
  using assms(2)
proof (induction rs arbitrary: inner)
  case (Cons r rs)
  have "hm_get (in_peers (dial_peer net inner r)) k = hm_get (in_peers inner) k"
    unfolding dial_peer_def by (rule dial_connects) (use assms(1) Cons.prems in \<open>auto simp: net_ok_def\<close>)
  then show ?case using Cons by auto
qed simp

lemma ready_records_known:
  assumes "member_ok m" "known m i = Some r" "1 \<le> gr_version r"
  shows "member_ok (apply_ready_records X m recs) \<and> known (apply_ready_records X m recs) i = Some r"
  using assms
proof (induction recs arbitrary: m)
  case (Cons x recs)
  obtain now ready where x: "x = (now, ready)" by fastforce
  let ?m = "apply_ready_record X now m ready"
  have "known (m\<lparr>mm_foreign_relay_rejections := v\<rparr>) i = known m i" for v by (simp add: known_def)
  moreover have "newer (Some r) q = Some r" if "gr_version q = 1" for q
    using that Cons.prems(3) by (auto simp: newer_def)
  ultimately have "known ?m i = Some r"
    using Cons.prems(2) by (auto simp: apply_ready_record_def known_apply_gossip [OF Cons.prems(1)] GossipRecord_new_def split: sum.split)
  moreover have "member_ok ?m" using Cons.prems(1) by (rule ready_learns)
  ultimately show ?case using Cons.IH [of ?m] Cons.prems(3) by (simp add: x apply_ready_records_def)
qed (simp add: apply_ready_records_def)

text \<open>A step of the mesh after which a relay that was draining still is: the code never clears the flag.\<close>

definition keeps_drain :: "mesh_crates \<Rightarrow> RuntimeId \<Rightarrow> 'f mesh \<Rightarrow> 'f mesh \<Rightarrow> bool" where
  "keeps_drain X i s t \<longleftrightarrow> mesh_step X s t \<and>
     (gr_draining (mm_local_record (node s i)) \<longrightarrow> gr_draining (mm_local_record (node t i)))"

definition drain_begun :: "'f mesh \<Rightarrow> RuntimeId \<Rightarrow> u64 \<Rightarrow> 'f mesh" where
  "drain_begun s i now = s\<lparr>node := (node s)(i := begin_drain (node s i) now),
     written := insert (mm_local_record (begin_drain (node s i) now)) (written s)\<rparr>"

definition pulled :: "mesh_crates \<Rightarrow> 'f mesh \<Rightarrow> RuntimeId \<Rightarrow> RuntimeId \<Rightarrow> 'f mesh" where
  "pulled X s j i = s\<lparr>node := (node s)(j := pull X (node s j) (node s i))\<rparr>"

text \<open>From version \<open>v\<close> on every record of the relay says that it drains.\<close>

definition drains_from :: "RuntimeId \<Rightarrow> u64 \<Rightarrow> 'f mesh \<Rightarrow> bool" where
  "drains_from i v s \<longleftrightarrow> mesh_inv s \<and> 1 < v \<and> v \<le> version_of s i \<and> gr_draining (mm_local_record (node s i)) \<and>
     (\<forall>r \<in> written s. gr_runtime_id r = i \<longrightarrow> v \<le> gr_version r \<longrightarrow> gr_draining r)"

definition knows_from :: "RuntimeId \<Rightarrow> RuntimeId \<Rightarrow> u64 \<Rightarrow> 'f mesh \<Rightarrow> bool" where
  "knows_from j i v s \<longleftrightarrow> (\<exists>r. known (node s j) i = Some r \<and> v \<le> gr_version r)"

lemma drain_version:
  assumes "mesh_inv s" "gr_version (mm_local_record (node s i)) < - 1"
  shows "version_of s i < gr_version (mm_local_record (begin_drain (node s i) now))"
  using succ_version [OF assms(2)]
  by (simp add: begin_drain_def update_local_def bump_def Let_def word_less_nat_alt version_of_def)

lemma drains_from_begin:
  assumes "mesh_inv s" "gr_version (mm_local_record (node s i)) < - 1"
  shows "drains_from i (version_of (drain_begun s i now) i) (drain_begun s i now)"
proof -
  let ?r = "mm_local_record (begin_drain (node s i) now)"
  note D = mesh_invD [OF assms(1)]
  have lt: "version_of s i < gr_version ?r" by (rule drain_version [OF assms])
  have inv: "mesh_inv (drain_begun s i now)"
    unfolding drain_begun_def by (rule mesh_step_inv [OF mesh_step.drained [OF assms(2)] assms(1)])
  have "1 \<le> version_of s i" using D(6) [OF D(3) [of i]] by (simp add: version_of_def)
  moreover have "version_of (drain_begun s i now) i = gr_version ?r" by (simp add: version_of_def drain_begun_def)
  moreover have "gr_draining ?r" by (simp add: begin_drain_def update_local_def bump_def Let_def)
  moreover have "\<not> gr_version ?r \<le> gr_version q" if "q \<in> written s" "gr_runtime_id q = i" for q
    using D(7) [OF that(1)] that(2) lt by auto
  ultimately show ?thesis using inv lt by (auto simp: drains_from_def drain_begun_def)
qed

lemma mesh_step_written:
  assumes "mesh_step X s t" "mesh_inv s"
  shows "version_of s i \<le> version_of t i"
    "r \<in> written t \<Longrightarrow> gr_runtime_id r = i \<Longrightarrow> r \<in> written s \<or> r = mm_local_record (node t i)"
proof -
  note D = mesh_invD [OF assms(2)]
  have le: "v \<le> u64_saturating_add v 1" if "v < - 1" for v :: u64
    using succ_version [OF that] by (simp add: word_le_nat_alt)
  show "version_of s i \<le> version_of t i"
    using assms(1)
  proof cases
    case (change f n now m r)
    then show ?thesis using le by (auto simp: version_of_def update_local_def bump_def Let_def)
  next
    case (drained n now)
    then show ?thesis using le by (auto simp: version_of_def begin_drain_def update_local_def bump_def Let_def)
  qed (auto simp: version_of_def ready_learns [OF D(1)] known_update_peer [OF D(1)])
  show "r \<in> written s \<or> r = mm_local_record (node t i)" if "r \<in> written t" "gr_runtime_id r = i"
    using assms(1)
  proof cases
    case (change f n now m r')
    then show ?thesis using that by (auto simp: update_local_def bump_def Let_def)
  next
    case (drained n now)
    have "gr_runtime_id (mm_local_record (node s n)) = n" using D(1,2) [of n] by (simp add: member_ok_def)
    then show ?thesis using that drained by (auto simp: begin_drain_def update_local_def bump_def Let_def)
  qed (use that in auto)
qed

lemma drains_from_step:
  assumes "keeps_drain X i s t" "drains_from i v s" shows "drains_from i v t"
proof -
  have st: "mesh_step X s t" and keep: "gr_draining (mm_local_record (node t i))"
    using assms by (simp_all add: keeps_drain_def drains_from_def)
  have inv: "mesh_inv s" using assms(2) by (simp add: drains_from_def)
  have "gr_draining r" if "r \<in> written t" "gr_runtime_id r = i" "v \<le> gr_version r" for r
    using mesh_step_written(2) [OF st inv that(1,2)] that keep assms(2) by (auto simp: drains_from_def)
  moreover have "v \<le> version_of t i"
    using mesh_step_written(1) [OF st inv, of i] assms(2) by (auto simp: drains_from_def)
  ultimately show ?thesis
    using assms(2) keep mesh_step_inv [OF st inv] by (simp add: drains_from_def)
qed

lemma newer_grows: "known m i = Some r \<Longrightarrow> \<exists>r'. newer (known m i) q = Some r' \<and> gr_version r \<le> gr_version r'"
  by (auto simp: newer_def)

lemma knows_from_step:
  assumes "mesh_step X s t" "mesh_inv s" "i \<noteq> j" "knows_from j i v s"
  shows "knows_from j i v t"
proof -
  note D = mesh_invD [OF assms(2)]
  from assms(4) obtain r where r: "known (node s j) i = Some r" "v \<le> gr_version r" by (auto simp: knows_from_def)
  have "\<exists>r'. known (node t j) i = Some r' \<and> gr_version r \<le> gr_version r'"
    using assms(1)
  proof cases
    case (change f n now m q)
    then show ?thesis using r assms(3) D(2) by (auto simp: known_def update_local_def Let_def)
  next
    case (told q n)
    then show ?thesis using r assms(3) D(2) newer_grows [OF r(1), of q]
      by (auto simp: known_apply_gossip [OF D(1)])
  next
    case (seeded n now ready)
    have "known (m\<lparr>mm_foreign_relay_rejections := c\<rparr>) i = known m i" for m :: "'a MeshMembership" and c
      by (simp add: known_def)
    then show ?thesis using seeded r assms(3) D(2) newer_grows [OF r(1)]
      by (auto simp: apply_ready_record_def known_apply_gossip [OF D(1)] split: sum.split)
  next
    case (drained n now)
    then show ?thesis using r assms(3) D(2) by (auto simp: known_def begin_drain_def update_local_def Let_def)
  next
    case (touched f n k)
    then show ?thesis using r known_update_peer(2) [OF D(1) touched(2)] by auto
  qed
  then show ?thesis using r(2) by (auto simp: knows_from_def intro: order_trans)
qed

lemma drain_run:
  assumes "(keeps_drain X i)\<^sup>*\<^sup>* s t" "drains_from i v s" "i \<noteq> j"
  shows "drains_from i v t \<and> (knows_from j i v s \<longrightarrow> knows_from j i v t)"
  using assms(1)
proof (induction rule: rtranclp_induct)
  case (step t u)
  then have "mesh_inv t" "mesh_step X t u" by (simp_all add: drains_from_def keeps_drain_def)
  then show ?case using step drains_from_step knows_from_step [OF _ _ assms(3)] by blast
qed (use assms(2) in simp)

lemma pulled_drain:
  assumes "drains_from i v s" "i \<noteq> j"
  shows "drains_from i v (pulled X s j i) \<and> knows_from j i v (pulled X s j i)"
proof -
  have inv: "mesh_inv s" and v: "v \<le> version_of s i" using assms(1) by (simp_all add: drains_from_def)
  note D = mesh_invD [OF inv]
  have k: "known (pull X (node s j) (node s i)) k =
      (case known (node s i) k of None \<Rightarrow> known (node s j) k
       | Some r \<Rightarrow> if k = j then known (node s j) k else newer (known (node s j) k) r)" for k
    using known_pull [OF D(1) D(1), of X j i k] D(2) by (simp split: option.split)
  have loc: "mm_local_record (pull X (node s j) (node s i)) = mm_local_record (node s j)"
    by (simp add: pull_def split: GossipMessage.split)
  have "mesh_inv (pulled X s j i)" unfolding pulled_def
  proof (rule learn_inv [OF inv])
    show "known (node s j) k = Some r \<or> r \<in> written s \<or> gr_version r = 1"
      if "known (pull X (node s j) (node s i)) k = Some r" for k r
      using that D(4) by (auto simp: k newer_def split: option.splits if_splits)
  qed (use D(1,2) pull_ok [OF D(1)] loc in simp_all)
  moreover have "known (node s i) i = Some (mm_local_record (node s i))" using D(2) by (simp add: known_def)
  then have "knows_from j i v (pulled X s j i)"
    using v assms(2) by (auto simp: knows_from_def pulled_def k newer_def version_of_def split: option.split)
  ultimately show ?thesis using assms loc by (auto simp: drains_from_def pulled_def version_of_def)
qed

lemma draining_not_dialed:
  assumes "mesh_inv t" "known (node t j) i = Some r" "gr_draining r" "i \<noteq> j"
    and "in_membership inner = node t j" "in_runtime_id inner = j"
    and "i \<notin> set (connected_peers inner)" "net_ok net"
  shows "i \<notin> set (connected_peers (reconcile_once X scan net inner))"
proof -
  have m: "member_ok (in_membership inner)" "known (in_membership inner) i = Some r" "1 \<le> gr_version r"
    using mesh_invD(1) [OF assms(1)] assms(2,5) known_bound(2) [OF assms(1,2)] by simp_all
  let ?i1 = "rescan X scan inner"
  have k1: "member_ok (in_membership ?i1)" "known (in_membership ?i1) i = Some r"
    using ready_records_known [OF m] m by (auto simp: rescan_def in_member_def split: option.split sum.split)
  have "q = r" if "q \<in> set (records (in_membership ?i1))" "gr_runtime_id q = i" for q
    using that records_ids(2) [OF k1(1), of q] k1(2) by auto
  then have "i \<notin> gr_runtime_id ` set (filter (\<lambda>r. gr_runtime_id r \<noteq> in_runtime_id inner \<and> \<not> gr_draining r) (records (in_membership ?i1)))"
    using assms(3) by auto
  from fold_dial_connects [OF assms(8) this, of ?i1]
  have "hm_get (in_peers (reconcile_once X scan net inner)) i = hm_get (in_peers inner) i"
    by (simp add: reconcile_once_def Let_def rescan_def in_member_def split: option.split sum.split)
  moreover have "hm_get (in_peers inner) i = None" using assms(7) by (simp add: connected_peers_def hm_get_None_iff)
  ultimately show ?thesis by (simp add: connected_peers_def hm_get_None_iff)
qed

text \<open>
  C14. Draining spreads: let a relay begin to drain, let another relay later answer its own digest
  from it (one gossip exchange), and let anything happen in the mesh before, between and after,
  short of clearing the drain flag, which no code does. From the exchange on no reconcile of the
  other relay opens a connection to the draining one, whatever the registry still says of it, as
  long as it had none. (A dial reaches only the runtime it is for, and the draining relay's
  version counter has not reached its maximum.)
\<close>

theorem drain_stops_dialing:
  assumes "reach mesh_init (mesh_step X) s" "i \<noteq> j" "gr_version (mm_local_record (node s i)) < - 1"
    and "(keeps_drain X i)\<^sup>*\<^sup>* (drain_begun s i now) t" "(keeps_drain X i)\<^sup>*\<^sup>* (pulled X t j i) u"
    and "in_membership inner = node u j" "in_runtime_id inner = j"
    and "i \<notin> set (connected_peers inner)" "net_ok net"
  shows "i \<notin> set (connected_peers (reconcile_once X scan net inner))"
proof -
  let ?v = "version_of (drain_begun s i now) i"
  have "drains_from i ?v (drain_begun s i now)"
    using mesh.reach_inv [OF assms(1)] assms(3) by (rule drains_from_begin)
  then have "drains_from i ?v t" using drain_run [OF assms(4) _ assms(2)] by blast
  then have u: "drains_from i ?v u" "knows_from j i ?v u"
    using drain_run [OF assms(5) _ assms(2)] pulled_drain [OF _ assms(2)] by blast+
  then obtain r where r: "known (node u j) i = Some r" "?v \<le> gr_version r" by (auto simp: knows_from_def)
  have inv: "mesh_inv u" and "1 < ?v" using u(1) by (simp_all add: drains_from_def)
  then have "gr_version r \<noteq> 1" using r(2) by auto
  then have "r \<in> written u" using mesh_invD(4) [OF inv r(1)] by simp
  then have "gr_draining r"
    using u(1) r(2) known_bound(1) [OF inv r(1)] by (simp add: drains_from_def)
  from draining_not_dialed [OF inv r(1) this assms(2,6-9)] show ?thesis .
qed

theorem drain_stops_dialing_witness:
  "[1] \<notin> set (connected_peers (reconcile_once sample_crates None (\<lambda>i a. Connects \<lparr>mp_conn = 0, mp_runtime_id = i\<rparr>)
     \<lparr>in_runtime_id = [2],
      in_membership = begin_drain (pull sample_crates (node changed_mesh [2]) (begin_drain (node changed_mesh [1]) 9)) 11,
      in_peers = []\<rparr>))"
proof -
  let ?t = "drain_begun changed_mesh [1] 9" and ?X = sample_crates
  let ?u = "drain_begun (pulled ?X ?t [2] [1]) [2] 11"
  have lt: "(1 :: u64) < - 1" "(2 :: u64) < - 1"
    by (simp_all add: word_less_nat_alt unsigned_minus_1_eq_mask mask_eq_exp_minus_1)
  have v: "gr_version (mm_local_record (node changed_mesh [1])) = 2"
    by (simp add: changed_mesh_def sample_mesh_def update_local_def MeshMembership_new_def GossipRecord_new_def bump_def
        u64_saturating_add_def Let_def)
  have "mm_local_record (node (pulled ?X ?t [2] [1]) [2]) = GossipRecord_new [2] [] 1 0"
    by (simp add: pulled_def drain_begun_def pull_def changed_mesh_def sample_mesh_def MeshMembership_new_def update_local_def
        Let_def split: GossipMessage.split)
  then have "gr_version (mm_local_record (node (pulled ?X ?t [2] [1]) [2])) < - 1"
    using lt by (simp add: GossipRecord_new_def)
  then have "keeps_drain ?X [1] (pulled ?X ?t [2] [1]) ?u"
    unfolding keeps_drain_def drain_begun_def [of "pulled ?X ?t [2] [1]"] by (intro conjI mesh_step.drained) simp_all
  then show ?thesis
    using drain_stops_dialing [OF changed_mesh_reach [of ?X], of "[1]" "[2]" 9 ?t ?u
      "\<lparr>in_runtime_id = [2], in_membership = node ?u [2], in_peers = []\<rparr>"
      "\<lambda>i a. Connects \<lparr>mp_conn = 0, mp_runtime_id = i\<rparr>" None] v lt
    by (simp add: net_ok_def connected_peers_def r_into_rtranclp) (simp add: drain_begun_def pulled_def)
qed

subsection \<open>Suspicion\<close>

text \<open>What holds of the floating point operations: order is transitive, and rounding is monotone.\<close>

definition f64_ok :: "'f f64_ops \<Rightarrow> bool" where
  "f64_ok F \<longleftrightarrow> (\<forall>x y z. f64_le F x y \<longrightarrow> f64_le F y z \<longrightarrow> f64_le F x z) \<and>
     (\<forall>d d'. d \<le> d' \<longrightarrow> f64_le F (as_secs_f64 F d) (as_secs_f64 F d')) \<and>
     (\<forall>x y m. f64_le F x y \<longrightarrow> \<not> f64_le F m (EPSILON F) \<longrightarrow> f64_le F (f64_div F x m) (f64_div F y m)) \<and>
     \<not> f64_le F (LN_10 F) (EPSILON F)"

text \<open>
  While nothing new is heard, the peers that count as live only become fewer: a peer that is
  suspected stays suspected, and one that is live at a later time was live before.
\<close>

theorem suspicion_grows:
  assumes "f64_ok F" "now \<le> later"
  shows "pi_runtime_id ` set (live_peers F m later) \<subseteq> pi_runtime_id ` set (live_peers F m now)"
proof -
  note ok = assms(1) [unfolded f64_ok_def]
  have s: "is_suspect F m (phi_at F p later)" if sus: "is_suspect F m (phi_at F p now)" for p
  proof -
    from sus obtain prev d where p: "ph_last_heartbeat p = Some prev" "ph_samples p \<noteq> []" "duration_since now prev = Some d"
        "\<not> f64_le F (mean_secs F p) (EPSILON F)"
      and le: "f64_le F (mm_phi_suspect_threshold m) (f64_div F (f64_div F (as_secs_f64 F d) (mean_secs F p)) (LN_10 F))"
      by (auto simp: is_suspect_def phi_at_def Let_def split: option.splits if_splits)
    then obtain d' where d': "duration_since later prev = Some d'" "d \<le> d'"
      using assms(2) by (auto simp: duration_since_def split: if_splits)
    have "f64_le F (f64_div F (f64_div F (as_secs_f64 F d) (mean_secs F p)) (LN_10 F))
        (f64_div F (f64_div F (as_secs_f64 F d') (mean_secs F p)) (LN_10 F))"
      using ok d'(2) p(4) by blast
    then have "f64_le F (mm_phi_suspect_threshold m) (f64_div F (f64_div F (as_secs_f64 F d') (mean_secs F p)) (LN_10 F))"
      using ok le by blast
    then show ?thesis using p d' by (simp add: is_suspect_def phi_at_def)
  qed
  have "pi_runtime_id ` set (live_peers F m t) =
      {gr_runtime_id (pr_record p) |i p. (i, p) \<in> set (mm_peers m) \<and> \<not> is_suspect F m (phi_at F (pr_phi p) t)}" for t
    by (force simp: live_peers_def Let_def split: if_splits)
  then show ?thesis using s by blast
qed

theorem suspicion_grows_witness:
  "pi_runtime_id ` set (live_peers sample_f64 (node changed_mesh [1]) 9) \<subseteq> pi_runtime_id ` set (live_peers sample_f64 (node changed_mesh [1]) 5)"
proof -
  have "f64_ok sample_f64" by (auto simp: f64_ok_def sample_f64_def divide_right_mono)
  from suspicion_grows [OF this] show ?thesis by simp
qed

subsection \<open>The membership table and the pure gossip state\<close>

text \<open>The gossip state with the same records.\<close>

definition gossip_view :: "'f MeshMembership \<Rightarrow> GossipState" where
  "gossip_view m = (mm_local_runtime_id m, mm_local_record m) # map (\<lambda>(i, p). (i, pr_record p)) (mm_peers m)"

lemma view_get: "member_ok m \<Longrightarrow> hm_get (gossip_view m) i = known m i"
  by (auto simp: gossip_view_def known_def map_of_map)

lemma view_records: "mset (map snd (gossip_view m)) = mset (records m)"
  by (simp add: gossip_view_def records_def comp_def case_prod_unfold)

lemma sort_key_same:
  assumes "mset xs = mset ys" "inj_on f (set xs)"
  shows "sort_key f xs = sort_key f ys"
  by (rule sort_key_inj_key_eq) (use assms in simp_all)

text \<open>
  The table sends the digests and deltas that the pure gossip state with the same records sends,
  and applying a record to it gives the records that applying it to the gossip state gives,
  except that the table never lets anybody else overwrite its own record.
\<close>

theorem membership_refines_gossip:
  assumes "member_ok m" "inj (to_hex X)"
  shows "digest X m = GossipState_digest (to_hex X) (gossip_view m) \<and>
    delta_for X m es = GossipState_delta_for (to_hex X) (gossip_view m) es \<and>
    (gr_runtime_id r \<noteq> mm_local_runtime_id m \<longrightarrow>
       hm_get (gossip_view (fst (apply_gossip_record X m r))) = hm_get (fst (GossipState_apply_delta (gossip_view m) [r])) \<and>
       snd (apply_gossip_record X m r) = (snd (GossipState_apply_delta (gossip_view m) [r]) \<noteq> [])) \<and>
    (gr_runtime_id r = mm_local_runtime_id m \<longrightarrow> apply_gossip_record X m r = (m, False))"
proof (intro conjI impI)
  have inj: "inj_on gr_runtime_id (set (records m))"
    using records_ids(1) [OF assms(1)] by (simp add: distinct_map)
  have hex: "to_hex X a = to_hex X b \<Longrightarrow> a = b" for a b using assms(2) by (rule injD)
  have ms: "mset (map digest_entry (records m)) = mset (map digest_entry (map snd (gossip_view m)))"
    using view_records [of m] by (simp only: mset_map)
  have "inj_on (\<lambda>e. to_hex X (de_runtime_id e)) (set (map digest_entry (records m)))"
    using inj hex by (fastforce simp: inj_on_def digest_entry_def)
  from sort_key_same [OF ms this] show "digest X m = GossipState_digest (to_hex X) (gossip_view m)"
    by (simp add: digest_def GossipState_digest_def digest_of_def)
  have ms': "mset (filter P (records m)) = mset (filter P (map snd (gossip_view m)))" for P
    using view_records [of m] by (simp only: mset_filter)
  have "inj_on (\<lambda>r. to_hex X (gr_runtime_id r)) (set (filter P (records m)))" for P
    using inj hex by (fastforce simp: inj_on_def)
  from sort_key_same [OF ms' this] show "delta_for X m es = GossipState_delta_for (to_hex X) (gossip_view m) es"
    by (simp add: delta_for_def GossipState_delta_for_def delta_of_def)
next
  assume id: "gr_runtime_id r \<noteq> mm_local_runtime_id m"
  have ok: "member_ok (fst (apply_gossip_record X m r))" using apply_gossip_ok [OF assms(1)] .
  have "hm_get (gossip_view (fst (apply_gossip_record X m r))) i = hm_get (fst (GossipState_apply_delta (gossip_view m) [r])) i" for i
    using id view_get [OF ok, of i] view_get [OF assms(1)]
    by (auto simp: known_apply_gossip [OF assms(1)] newer_def should_apply_def split: option.splits)
  then show "hm_get (gossip_view (fst (apply_gossip_record X m r))) = hm_get (fst (GossipState_apply_delta (gossip_view m) [r]))" by blast
  show "snd (apply_gossip_record X m r) = (snd (GossipState_apply_delta (gossip_view m) [r]) \<noteq> [])"
    using id view_get [OF assms(1), of "gr_runtime_id r"]
    by (cases "hm_get (mm_peers m) (gr_runtime_id r)") (simp_all add: apply_gossip_record_def should_apply_def known_def Let_def not_le)
next
  assume "gr_runtime_id r = mm_local_runtime_id m"
  then show "apply_gossip_record X m r = (m, False)" by (simp add: apply_gossip_record_def)
qed

theorem membership_refines_gossip_witness:
  "digest sample_crates (node changed_mesh [1]) = GossipState_digest hex_write (gossip_view (node changed_mesh [1]))"
proof -
  have "inj hex_write" by (rule injI) (metis hex_read_write)
  then have "inj (to_hex sample_crates)" by (simp add: sample_crates_def)
  from membership_refines_gossip [OF mesh_invD(1) [OF mesh.reach_inv [OF changed_mesh_reach]] this]
  show ?thesis by (simp add: sample_crates_def)
qed

subsection \<open>The heartbeat\<close>

text \<open>A tick: the connection errors it meets, and whether the relay is ready.\<close>

fun run_ticks :: "mesh_crates \<Rightarrow> (ReadyRecord \<Rightarrow> (string, string) rust_result) \<Rightarrow> duration \<Rightarrow>
    (MeshError option \<times> MeshError option \<times> bool) list \<Rightarrow> ReadyHeartbeat \<Rightarrow> ReadyHeartbeat \<times> redis_command list" where
  "run_ticks X T refresh [] h = (h, [])"
| "run_ticks X T refresh ((pf, f, ready) # ticks) h =
     (let t = tick X T refresh pf f ready h; rest = run_ticks X T refresh ticks (fst t)
      in (fst rest, (case fst (snd t) of None \<Rightarrow> [] | Some c \<Rightarrow> [c]) @ snd rest))"

lemma tick_record: "hb_record (fst (tick X T refresh pf f ready h)) = hb_record h"
  by (simp add: tick_def Let_def split: sum.split option.split)

lemma tick_announces:
  assumes "fst (snd (tick X T refresh pf f ready h)) = Some (SetEx k v t)"
  shows "k = ready_key X (rr_runtime_id (hb_record h)) \<and> ReadyRecord_verify_attestation X (hb_record h) = Inr () \<and> 1 \<le> t"
  using assms by (auto simp: tick_def publish_ready_def clear_ready_def Let_def split: sum.splits option.splits if_splits)

lemma run_ticks_record: "hb_record (fst (run_ticks X T refresh ts h)) = hb_record h"
  by (induction X T refresh ts h rule: run_ticks.induct) (simp_all add: Let_def tick_record)

lemma run_ticks_announces:
  "SetEx k v t \<in> set (snd (run_ticks X T refresh ts h)) \<Longrightarrow>
   k = ready_key X (rr_runtime_id (hb_record h)) \<and> ReadyRecord_verify_attestation X (hb_record h) = Inr () \<and> 1 \<le> t"
proof (induction X T refresh ts h rule: run_ticks.induct)
  case (2 X T refresh pf f ready ticks h)
  then consider "fst (snd (tick X T refresh pf f ready h)) = Some (SetEx k v t)"
    | "SetEx k v t \<in> set (snd (run_ticks X T refresh ticks (fst (tick X T refresh pf f ready h))))"
    by (auto simp: Let_def split: option.splits)
  then show ?case
  proof cases
    case 1
    then show ?thesis by (rule tick_announces)
  next
    case c: 2
    from 2(1) [OF refl c] show ?thesis by (simp add: tick_record)
  qed
qed simp

text \<open>
  The heartbeat announces the relay only under its own key and only with a valid attestation, and
  when it stops being ready after an acknowledged announcement it removes the key. But an
  announcement whose acknowledgement was lost is never removed: the key stays until it expires.
\<close>

theorem heartbeat_announces:
  "(\<forall>k v t. SetEx k v t \<in> set (snd (run_ticks X T refresh ticks (heartbeat record))) \<longrightarrow>
      k = ready_key X (rr_runtime_id record) \<and> ReadyRecord_verify_attestation X record = Inr () \<and> 1 \<le> t) \<and>
   (hb_published (fst (run_ticks X T refresh ticks (heartbeat record))) \<longrightarrow>
      fst (snd (tick X T refresh None None False (fst (run_ticks X T refresh ticks (heartbeat record))))) =
        Some (Del (ready_key X (rr_runtime_id record)))) \<and>
   (ReadyRecord_verify_attestation X record = Inr () \<and> T record = Inr payload \<longrightarrow>
      snd (run_ticks X T refresh [(None, Some e, True), (None, None, False)] (heartbeat record)) =
        [SetEx (ready_key X (rr_runtime_id record)) payload (max (expiry_for refresh div 10 ^ 9) 1)])"
proof (intro conjI allI impI)
  show "k = ready_key X (rr_runtime_id record)" "ReadyRecord_verify_attestation X record = Inr ()" "1 \<le> t"
    if "SetEx k v t \<in> set (snd (run_ticks X T refresh ticks (heartbeat record)))" for k v t
    using run_ticks_announces [OF that] by (simp_all add: heartbeat_def)
  show "fst (snd (tick X T refresh None None False (fst (run_ticks X T refresh ticks (heartbeat record))))) =
        Some (Del (ready_key X (rr_runtime_id record)))"
    if "hb_published (fst (run_ticks X T refresh ticks (heartbeat record)))"
    using that by (simp add: tick_def clear_ready_def run_ticks_record) (simp add: heartbeat_def)
  show "snd (run_ticks X T refresh [(None, Some e, True), (None, None, False)] (heartbeat record)) =
        [SetEx (ready_key X (rr_runtime_id record)) payload (max (expiry_for refresh div 10 ^ 9) 1)]"
    if "ReadyRecord_verify_attestation X record = Inr () \<and> T record = Inr payload"
    using that by (simp add: tick_def publish_ready_def heartbeat_def)
qed

end
