(* ===== verification/Audit_Log.thy ===== *)
theory Audit_Log
  imports Buzz_Prelude "HOL-Library.Char_ord" "HOL-Library.List_Lexorder"
begin

text \<open>
  The audit log (\<open>crates/buzz-audit/src\<close>): one hash chain per community. The table is the list of its
  rows. An append takes the lock of its community, so appends to one chain do not overlap; the
  errors of the database around an append are an argument, and a failed commit may or may not have
  stored the row.

  SHA-256, the bytes of a UUID, the text of a timestamp and the printing of JSON scalars are other
  crates' code and fields of the record \<open>audit_crates\<close>, as is what the database gives back for a
  JSON value it was given.
\<close>

subsection \<open>Actions\<close>

datatype AuditAction =
    EventCreated | EventDeleted | ChannelCreated | ChannelUpdated | ChannelDeleted
  | MemberAdded | MemberRemoved | AuthSuccess | AuthFailure | RateLimitExceeded | MediaUploaded

primrec AuditAction_as_str :: "AuditAction \<Rightarrow> string" where
  "AuditAction_as_str EventCreated = ''event_created''"
| "AuditAction_as_str EventDeleted = ''event_deleted''"
| "AuditAction_as_str ChannelCreated = ''channel_created''"
| "AuditAction_as_str ChannelUpdated = ''channel_updated''"
| "AuditAction_as_str ChannelDeleted = ''channel_deleted''"
| "AuditAction_as_str MemberAdded = ''member_added''"
| "AuditAction_as_str MemberRemoved = ''member_removed''"
| "AuditAction_as_str AuthSuccess = ''auth_success''"
| "AuditAction_as_str AuthFailure = ''auth_failure''"
| "AuditAction_as_str RateLimitExceeded = ''rate_limit_exceeded''"
| "AuditAction_as_str MediaUploaded = ''media_uploaded''"

definition AuditAction_ALL :: "AuditAction list" where
  "AuditAction_ALL = [EventCreated, EventDeleted, ChannelCreated, ChannelUpdated, ChannelDeleted,
     MemberAdded, MemberRemoved, AuthSuccess, AuthFailure, RateLimitExceeded, MediaUploaded]"

text \<open>The error carries the unknown text; its callers drop it.\<close>

definition AuditAction_from_str :: "string \<Rightarrow> (AuditAction, string) rust_result" where
  "AuditAction_from_str s =
     (case find (\<lambda>a. AuditAction_as_str a = s) AuditAction_ALL of
        Some a \<Rightarrow> Inr a
      | None \<Rightarrow> Inl s)"

subsection \<open>Entries\<close>

text \<open>Times are nanoseconds since the epoch; a signed sequence number wraps at 64 bits.\<close>

record AuditEntry =
  ae_community_id :: uuid
  ae_seq :: int
  ae_hash :: bytes
  ae_prev_hash :: "bytes option"
  ae_action :: AuditAction
  ae_actor_pubkey :: "bytes option"
  ae_object_id :: "string option"
  ae_detail :: json
  ae_created_at :: int

record NewAuditEntry =
  ne_community_id :: uuid
  ne_action :: AuditAction
  ne_actor_pubkey :: "bytes option"
  ne_object_id :: "string option"
  ne_detail :: json

datatype AuditError = Database string | ChainViolation int | HashMismatch int | UnknownAction | Serialization string

record audit_crates =
  sha256 :: "bytes \<Rightarrow> bytes"
  uuid_as_bytes :: "uuid \<Rightarrow> bytes"
  to_rfc3339 :: "int \<Rightarrow> string"
  scalar_to_string :: "json \<Rightarrow> (string, string) rust_result"
  db_json :: "json \<Rightarrow> json"

subsection \<open>Hashing\<close>

definition GENESIS_HASH :: bytes where "GENESIS_HASH = replicate 32 0"

definition to_storage_precision :: "int \<Rightarrow> int" where
  "to_storage_precision created_at = created_at div 1000 * 1000"

text \<open>The parts of a container joined with commas, up to the first error.\<close>

fun join_results :: "(string, 'e) rust_result list \<Rightarrow> (string, 'e) rust_result" where
  "join_results [] = Inr []"
| "join_results [r] = r"
| "join_results (r # rs) =
     (case r of Inl e \<Rightarrow> Inl e
      | Inr s \<Rightarrow> (case join_results rs of Inl e \<Rightarrow> Inl e | Inr t \<Rightarrow> Inr (s @ '','' @ t)))"

definition member_text ::
    "audit_crates \<Rightarrow> string \<times> (string, string) rust_result \<Rightarrow> (string, string) rust_result" where
  "member_text X = (\<lambda>(k, v).
     case scalar_to_string X (JString k) of
       Inl e \<Rightarrow> Inl e
     | Inr key \<Rightarrow> (case v of Inl e \<Rightarrow> Inl e | Inr s \<Rightarrow> Inr (key @ '':'' @ s)))"

definition bracket :: "string \<Rightarrow> string \<Rightarrow> (string, 'e) rust_result \<Rightarrow> (string, 'e) rust_result" where
  "bracket l r x = (case x of Inl e \<Rightarrow> Inl e | Inr s \<Rightarrow> Inr (l @ s @ r))"

primrec canonical_json :: "audit_crates \<Rightarrow> json \<Rightarrow> (string, string) rust_result" where
  "canonical_json X JNull = scalar_to_string X JNull"
| "canonical_json X (JBool b) = scalar_to_string X (JBool b)"
| "canonical_json X (JNumber n) = scalar_to_string X (JNumber n)"
| "canonical_json X (JString s) = scalar_to_string X (JString s)"
| "canonical_json X (JArray arr) = bracket ''['' '']'' (join_results (map (canonical_json X) arr))"
| "canonical_json X (JObject m) =
     bracket ''{'' ''}'' (join_results (map (member_text X) (sort_key fst (map (map_prod (\<lambda>k. k) (canonical_json X)) m))))"

text \<open>\<open>i64::to_be_bytes\<close>.\<close>

definition to_be_bytes :: "int \<Rightarrow> bytes" where
  "to_be_bytes n = map (\<lambda>k. word_of_int (n div 256 ^ k)) [7, 6, 5, 4, 3, 2, 1, 0]"

definition tagged :: "bytes option \<Rightarrow> bytes" where
  "tagged x = (case x of Some b \<Rightarrow> 1 # b | None \<Rightarrow> [0])"

definition preimage :: "audit_crates \<Rightarrow> AuditEntry \<Rightarrow> (bytes, AuditError) rust_result" where
  "preimage X entry =
     (case canonical_json X (ae_detail entry) of
        Inl e \<Rightarrow> Inl (Serialization e)
      | Inr detail \<Rightarrow> Inr
          (uuid_as_bytes X (ae_community_id entry) @
           to_be_bytes (ae_seq entry) @
           bytes_of (to_rfc3339 X (to_storage_precision (ae_created_at entry))) @
           bytes_of (AuditAction_as_str (ae_action entry)) @
           tagged (ae_actor_pubkey entry) @
           tagged (map_option bytes_of (ae_object_id entry)) @
           bytes_of detail @
           (case ae_prev_hash entry of Some h \<Rightarrow> h | None \<Rightarrow> GENESIS_HASH)))"

definition compute_hash :: "audit_crates \<Rightarrow> AuditEntry \<Rightarrow> (bytes, AuditError) rust_result" where
  "compute_hash X entry = (case preimage X entry of Inl e \<Rightarrow> Inl e | Inr p \<Rightarrow> Inr (sha256 X p))"

subsection \<open>The service\<close>

text \<open>A row holds the text of the action; the database keeps microseconds and its own form of JSON.\<close>

record audit_row =
  row_entry :: AuditEntry
  row_action :: string

type_synonym audit_log = "audit_row list"

definition wrap_i64 :: "int \<Rightarrow> int" where
  "wrap_i64 n = signed_take_bit 63 n"

definition community_rows :: "audit_log \<Rightarrow> uuid \<Rightarrow> audit_row list" where
  "community_rows db c = sort_key (\<lambda>r. ae_seq (row_entry r)) (filter (\<lambda>r. ae_community_id (row_entry r) = c) db)"

definition log_timestamp :: "int \<Rightarrow> int" where
  "log_timestamp now = to_storage_precision now"

definition stored :: "audit_crates \<Rightarrow> AuditEntry \<Rightarrow> audit_row" where
  "stored X e = \<lparr>row_entry = e\<lparr>ae_detail := db_json X (ae_detail e), ae_created_at := to_storage_precision (ae_created_at e)\<rparr>,
     row_action = AuditAction_as_str (ae_action e)\<rparr>"

text \<open>Where the database fails, if it does: before the insertion, or at the commit, which may have happened.\<close>

datatype log_fault = NoFault | Before string | AtCommit string bool

definition log_entry ::
    "audit_crates \<Rightarrow> int \<Rightarrow> log_fault \<Rightarrow> audit_log \<Rightarrow> NewAuditEntry \<Rightarrow> audit_log \<times> (AuditEntry, AuditError) rust_result" where
  "log_entry X now fault db entry =
     (case fault of
        Before e \<Rightarrow> (db, Inl (Database e))
      | _ \<Rightarrow>
         let rows = community_rows db (ne_community_id entry);
             (prev_seq, prev_hash) =
               (if rows = [] then (0, None) else (ae_seq (row_entry (last rows)), Some (ae_hash (row_entry (last rows)))));
             audit_entry =
               \<lparr>ae_community_id = ne_community_id entry, ae_seq = wrap_i64 (prev_seq + 1), ae_hash = [], ae_prev_hash = prev_hash,
                ae_action = ne_action entry, ae_actor_pubkey = ne_actor_pubkey entry, ae_object_id = ne_object_id entry,
                ae_detail = ne_detail entry, ae_created_at = log_timestamp now\<rparr>
         in case compute_hash X audit_entry of
              Inl e \<Rightarrow> (db, Inl e)
            | Inr h \<Rightarrow>
                let full = audit_entry\<lparr>ae_hash := h\<rparr>
                in (case fault of
                      AtCommit e applied \<Rightarrow> (if applied then db @ [stored X full] else db, Inl (Database e))
                    | _ \<Rightarrow> (db @ [stored X full], Inr full)))"

definition row_to_audit_entry :: "audit_row \<Rightarrow> (AuditEntry, AuditError) rust_result" where
  "row_to_audit_entry row =
     (case AuditAction_from_str (row_action row) of
        Inl _ \<Rightarrow> Inl UnknownAction
      | Inr action \<Rightarrow> Inr ((row_entry row)\<lparr>ae_action := action\<rparr>))"

fun verify_rows :: "audit_crates \<Rightarrow> bytes option \<Rightarrow> audit_row list \<Rightarrow> (bool, AuditError) rust_result" where
  "verify_rows X expected_prev [] = Inr True"
| "verify_rows X expected_prev (row # rows) =
     (case row_to_audit_entry row of
        Inl e \<Rightarrow> Inl e
      | Inr entry \<Rightarrow>
          if expected_prev \<noteq> None \<and> ae_prev_hash entry \<noteq> expected_prev
          then Inl (ChainViolation (ae_seq entry))
          else (case compute_hash X entry of
              Inl e \<Rightarrow> Inl e
            | Inr computed \<Rightarrow>
                if computed \<noteq> ae_hash entry then Inl (HashMismatch (ae_seq entry))
                else verify_rows X (Some (ae_hash entry)) rows))"

definition in_range :: "audit_log \<Rightarrow> uuid \<Rightarrow> int \<Rightarrow> int \<Rightarrow> audit_row list" where
  "in_range db c from_seq to_seq = filter (\<lambda>r. from_seq \<le> ae_seq (row_entry r) \<and> ae_seq (row_entry r) \<le> to_seq) (community_rows db c)"

definition verify_chain ::
    "audit_crates \<Rightarrow> string option \<Rightarrow> audit_log \<Rightarrow> uuid \<Rightarrow> int \<Rightarrow> int \<Rightarrow> (bool, AuditError) rust_result" where
  "verify_chain X fault db community from_seq to_seq =
     (case fault of
        Some e \<Rightarrow> Inl (Database e)
      | None \<Rightarrow>
          let rows = in_range db community from_seq to_seq
          in if rows = [] then Inr False else verify_rows X None rows)"

fun collect_results :: "('a, 'e) rust_result list \<Rightarrow> ('a list, 'e) rust_result" where
  "collect_results [] = Inr []"
| "collect_results (Inl e # rs) = Inl e"
| "collect_results (Inr x # rs) = (case collect_results rs of Inl e \<Rightarrow> Inl e | Inr xs \<Rightarrow> Inr (x # xs))"

text \<open>A negative limit is an error of the database.\<close>

definition get_entries ::
    "string option \<Rightarrow> audit_log \<Rightarrow> uuid \<Rightarrow> int \<Rightarrow> nat \<Rightarrow> (AuditEntry list, AuditError) rust_result" where
  "get_entries fault db community from_seq limit =
     (case fault of
        Some e \<Rightarrow> Inl (Database e)
      | None \<Rightarrow>
          collect_results (map row_to_audit_entry
            (take limit (filter (\<lambda>r. from_seq \<le> ae_seq (row_entry r)) (community_rows db community)))))"

subsection \<open>Actions and canonical text\<close>

lemma action_roundtrip [simp]: "AuditAction_from_str (AuditAction_as_str a) = Inr a"
  by (cases a) (simp_all add: AuditAction_from_str_def AuditAction_ALL_def)

text \<open>The canonical text of an object does not depend on the order in which its members are kept.\<close>

theorem canonical_json_order:
  assumes "mset m = mset m'" "distinct (map fst m)"
  shows "canonical_json X (JObject m) = canonical_json X (JObject m')"
proof -
  let ?f = "map_prod (\<lambda>k. k) (canonical_json X)"
  have "inj_on fst (set (map ?f m))" using assms(2) by (auto simp: distinct_map inj_on_def)
  moreover have "mset (map ?f m') = mset (map ?f m)" using assms(1) by simp
  ultimately have "sort_key fst (map ?f m) = sort_key fst (map ?f m')"
    by (intro sort_key_inj_key_eq) (simp_all add: assms(1))
  then show ?thesis by simp
qed

subsection \<open>Chains\<close>

text \<open>
  The column holding the detail is JSONB, which normalises what it stores: it drops the order of
  members, which the canonical text does not depend on, and reprints numbers such as \<open>1e16\<close> or
  \<open>-0.0\<close>, which it does depend on. A value is kept when it comes back with the same canonical text.
\<close>

definition jsonb_keeps :: "audit_crates \<Rightarrow> json \<Rightarrow> bool" where
  "jsonb_keeps X v \<longleftrightarrow> canonical_json X (db_json X v) = canonical_json X v"

lemma storage_idem [simp]: "to_storage_precision (to_storage_precision t) = to_storage_precision t"
  by (simp add: to_storage_precision_def)

lemma preimage_hash [simp]: "preimage X (e\<lparr>ae_hash := h\<rparr>) = preimage X e"
  by (simp add: preimage_def split: sum.split)

lemma compute_hash_hash: "compute_hash X (e\<lparr>ae_hash := h\<rparr>) = compute_hash X e"
  by (simp add: compute_hash_def)

lemma preimage_stored: "jsonb_keeps X (ae_detail e) \<Longrightarrow> preimage X (row_entry (stored X e)) = preimage X e"
  by (simp add: preimage_def stored_def jsonb_keeps_def split: sum.split)

lemma row_stored [simp]: "row_to_audit_entry (stored X e) = Inr (row_entry (stored X e))"
  by (simp add: row_to_audit_entry_def stored_def)

abbreviation seq_of :: "audit_row \<Rightarrow> int" where
  "seq_of r \<equiv> ae_seq (row_entry r)"

abbreviation rows_of :: "audit_log \<Rightarrow> uuid \<Rightarrow> audit_row list" where
  "rows_of db c \<equiv> filter (\<lambda>r. ae_community_id (row_entry r) = c) db"

text \<open>One row checks, after a row with the expected hash.\<close>

definition row_ok :: "audit_crates \<Rightarrow> bytes option \<Rightarrow> audit_row \<Rightarrow> bool" where
  "row_ok X p r \<longleftrightarrow> (\<exists>e. row_to_audit_entry r = Inr e \<and> (p = None \<or> ae_prev_hash e = p) \<and> compute_hash X e = Inr (ae_hash e))"

lemma row_hash: "row_to_audit_entry r = Inr e \<Longrightarrow> ae_hash e = ae_hash (row_entry r) \<and> ae_seq e = seq_of r \<and>
    ae_prev_hash e = ae_prev_hash (row_entry r) \<and> ae_community_id e = ae_community_id (row_entry r)"
  by (auto simp: row_to_audit_entry_def split: sum.splits)

lemma verify_rows_Cons:
  "verify_rows X p (r # rs) = Inr True \<longleftrightarrow> row_ok X p r \<and> verify_rows X (Some (ae_hash (row_entry r))) rs = Inr True"
  by (auto simp: row_ok_def dest: row_hash split: sum.splits if_splits)

lemma row_ok_weaken: "row_ok X p r \<Longrightarrow> row_ok X None r"
  by (auto simp: row_ok_def)

lemma verify_snoc:
  assumes "verify_rows X p rs = Inr True"
  shows "verify_rows X p (rs @ [r]) = Inr True \<longleftrightarrow>
    row_ok X (if rs = [] then p else Some (ae_hash (row_entry (last rs)))) r"
  using assms by (induction rs arbitrary: p) (simp_all del: verify_rows.simps(2) add: verify_rows_Cons)

lemma verify_upto:
  "sorted (map seq_of rs) \<Longrightarrow> verify_rows X p rs = Inr True \<Longrightarrow> verify_rows X p (filter (\<lambda>r. seq_of r \<le> b) rs) = Inr True"
proof (induction rs arbitrary: p)
  case (Cons r rs)
  show ?case
  proof (cases "seq_of r \<le> b")
    case True
    then show ?thesis using Cons by (simp del: verify_rows.simps(2) add: verify_rows_Cons)
  next
    case False
    then have "filter (\<lambda>r. seq_of r \<le> b) (r # rs) = []" using Cons.prems(1) by (auto simp: filter_empty_conv)
    then show ?thesis by simp
  qed
qed simp

lemma verify_segment:
  "sorted (map seq_of rs) \<Longrightarrow> verify_rows X p rs = Inr True \<Longrightarrow>
   verify_rows X None (filter (\<lambda>r. a \<le> seq_of r \<and> seq_of r \<le> b) rs) = Inr True"
proof (induction rs arbitrary: p)
  case (Cons r rs)
  show ?case
  proof (cases "a \<le> seq_of r")
    case False
    moreover have "verify_rows X (Some (ae_hash (row_entry r))) rs = Inr True"
      using Cons.prems(2) by (simp del: verify_rows.simps(2) add: verify_rows_Cons)
    ultimately show ?thesis using Cons.IH Cons.prems(1) by simp
  next
    case True
    then have "filter (\<lambda>r. a \<le> seq_of r \<and> seq_of r \<le> b) (r # rs) = filter (\<lambda>r. seq_of r \<le> b) (r # rs)"
      using Cons.prems(1) by (intro filter_cong) auto
    moreover have "verify_rows X None (r # rs) = Inr True"
      using Cons.prems(2) row_ok_weaken by (auto simp del: verify_rows.simps(2) simp: verify_rows_Cons)
    ultimately show ?thesis using verify_upto [OF Cons.prems(1), of X None b] by (simp only:)
  qed
qed simp

subsection \<open>Runs\<close>

fun run_log :: "audit_crates \<Rightarrow> (int \<times> log_fault \<times> NewAuditEntry) list \<Rightarrow> audit_log \<Rightarrow> audit_log" where
  "run_log X [] db = db"
| "run_log X ((now, fault, entry) # ops) db = run_log X ops (fst (log_entry X now fault db entry))"

definition log_inv :: "audit_crates \<Rightarrow> audit_log \<Rightarrow> bool" where
  "log_inv X db \<longleftrightarrow> (\<forall>c. map seq_of (rows_of db c) = map int [1..<Suc (length (rows_of db c))] \<and>
     verify_rows X None (rows_of db c) = Inr True)"

lemma sorted_seqs: "sorted (map int [a..<b])"
  by (simp add: sorted_iff_nth_mono)

lemma community_rows_inv: "log_inv X db \<Longrightarrow> community_rows db c = rows_of db c"
  unfolding log_inv_def community_rows_def by (metis sort_key_id_if_sorted sorted_seqs)

lemma small_wrap: "0 \<le> n \<Longrightarrow> n < 2 ^ 63 \<Longrightarrow> wrap_i64 n = n"
  by (simp add: wrap_i64_def signed_take_bit_int_eq_self)

text \<open>What an append can do: nothing, or add the next row of its chain.\<close>

lemma log_entry_effect:
  assumes inv: "log_inv X db" and len: "length db + 1 < 2 ^ 63"
  obtains (keep) "fst (log_entry X now fault db entry) = db"
  | (append) e where "fst (log_entry X now fault db entry) = db @ [stored X e]" "ae_community_id e = ne_community_id entry" "ae_detail e = ne_detail entry"
      "ae_seq e = int (length (rows_of db (ne_community_id entry))) + 1" "compute_hash X e = Inr (ae_hash e)"
      "ae_prev_hash e = (let rs = rows_of db (ne_community_id entry) in if rs = [] then None else Some (ae_hash (row_entry (last rs))))"
proof -
  let ?c = "ne_community_id entry"
  let ?rs = "rows_of db ?c"
  have seqs: "map seq_of ?rs = map int [1..<Suc (length ?rs)]" using inv by (simp add: log_inv_def)
  have n: "length ?rs \<le> length db" by simp
  have lastseq: "seq_of (last ?rs) = int (length ?rs)" if ne: "?rs \<noteq> []"
  proof -
    have "seq_of (last ?rs) = last (map seq_of ?rs)" using ne by (simp add: last_map)
    also have "\<dots> = int (length ?rs)" unfolding seqs using ne by (simp add: last_map del: upt_Suc)
    finally show ?thesis .
  qed
  have w: "wrap_i64 (int (length ?rs) + 1) = int (length ?rs) + 1" 
  proof (rule small_wrap)
    have "int (length ?rs + 1) < int (2 ^ 63)" using n len by (subst of_nat_less_iff) linarith
    then show "int (length ?rs) + 1 < 2 ^ 63" by simp
  qed simp
  let ?p = "if ?rs = [] then (0, None) else (seq_of (last ?rs), Some (ae_hash (row_entry (last ?rs))))"
  have p: "wrap_i64 (fst ?p + 1) = int (length ?rs) + 1" using w lastseq by (auto simp: small_wrap)
  define e where "e = \<lparr>ae_community_id = ?c, ae_seq = wrap_i64 (fst ?p + 1), ae_hash = [], ae_prev_hash = snd ?p,
      ae_action = ne_action entry, ae_actor_pubkey = ne_actor_pubkey entry, ae_object_id = ne_object_id entry,
      ae_detail = ne_detail entry, ae_created_at = log_timestamp now\<rparr>"
  have le: "log_entry X now fault db entry =
      (case fault of
         Before m \<Rightarrow> (db, Inl (Database m))
       | _ \<Rightarrow> (case compute_hash X e of
            Inl m \<Rightarrow> (db, Inl m)
          | Inr h \<Rightarrow> (case fault of
              AtCommit m applied \<Rightarrow> (if applied then db @ [stored X (e\<lparr>ae_hash := h\<rparr>)] else db, Inl (Database m))
            | _ \<Rightarrow> (db @ [stored X (e\<lparr>ae_hash := h\<rparr>)], Inr (e\<lparr>ae_hash := h\<rparr>)))))"
    unfolding log_entry_def community_rows_inv [OF inv] Let_def e_def by (simp only: case_prod_unfold)
  show thesis
  proof (cases "fst (log_entry X now fault db entry) = db")
    case False
    then obtain h where h: "compute_hash X e = Inr h" "fst (log_entry X now fault db entry) = db @ [stored X (e\<lparr>ae_hash := h\<rparr>)]"
      unfolding le by (auto split: log_fault.splits sum.splits if_splits)
    show thesis
    proof (rule append [OF h(2)])
      show "ae_community_id (e\<lparr>ae_hash := h\<rparr>) = ?c" "ae_detail (e\<lparr>ae_hash := h\<rparr>) = ne_detail entry"
        by (simp_all add: e_def)
      show "ae_seq (e\<lparr>ae_hash := h\<rparr>) = int (length ?rs) + 1" using p by (simp add: e_def)
      show "compute_hash X (e\<lparr>ae_hash := h\<rparr>) = Inr (ae_hash (e\<lparr>ae_hash := h\<rparr>))" using h(1) by (simp add: compute_hash_hash)
      show "ae_prev_hash (e\<lparr>ae_hash := h\<rparr>) = (let rs = ?rs in if rs = [] then None else Some (ae_hash (row_entry (last rs))))"
        by (simp add: e_def Let_def)
    qed
  qed (rule keep)
qed

lemma log_step_inv:
  assumes X: "jsonb_keeps X (ne_detail entry)" and inv: "log_inv X db" and len: "length db + 1 < 2 ^ 63"
  shows "log_inv X (fst (log_entry X now fault db entry)) \<and> length (fst (log_entry X now fault db entry)) \<le> length db + 1"
  using inv len
proof (cases rule: log_entry_effect [where now = now and fault = fault and entry = entry])
  case keep
  then show ?thesis using inv by simp
next
  case (append e)
  let ?c = "ne_community_id entry"
  have comm: "ae_community_id (row_entry (stored X e)) = ?c" "seq_of (stored X e) = ae_seq e"
    "ae_hash (row_entry (stored X e)) = ae_hash e" "ae_prev_hash (row_entry (stored X e)) = ae_prev_hash e"
    using append(2) by (simp_all add: stored_def)
  have "compute_hash X (row_entry (stored X e)) = Inr (ae_hash e)"
    using append(3,5) X by (simp add: compute_hash_def preimage_stored)
  then have "row_ok X (ae_prev_hash e) (stored X e)" using comm by (simp add: row_ok_def)
  then have v: "verify_rows X None (rows_of db ?c @ [stored X e]) = Inr True"
    using inv append(6) verify_snoc [of X None "rows_of db ?c" "stored X e"] row_ok_weaken
    by (auto simp: log_inv_def Let_def split: if_splits)
  have "map seq_of (rows_of db ?c @ [stored X e]) = map int [1..<Suc (length (rows_of db ?c @ [stored X e]))]"
    using inv append(4) comm by (simp add: log_inv_def)
  then show ?thesis using inv v comm append(1) by (auto simp: log_inv_def)
qed

abbreviation details_kept :: "audit_crates \<Rightarrow> (int \<times> log_fault \<times> NewAuditEntry) list \<Rightarrow> bool" where
  "details_kept X \<equiv> list_all (\<lambda>(now, fault, entry). jsonb_keeps X (ne_detail entry))"

lemma run_log_inv:
  "details_kept X ops \<Longrightarrow> log_inv X db \<Longrightarrow> length db + length ops < 2 ^ 63 \<Longrightarrow> log_inv X (run_log X ops db)"
proof (induction ops arbitrary: db)
  case (Cons x ops)
  obtain now fault entry where x: "x = (now, fault, entry)" by (metis prod_cases3)
  have "log_inv X (fst (log_entry X now fault db entry)) \<and> length (fst (log_entry X now fault db entry)) \<le> length db + 1"
    by (rule log_step_inv) (use Cons.prems x in simp_all)
  then show ?case using Cons x by simp
qed simp


lemma log_inv_empty: "log_inv X []"
  by (simp add: log_inv_def)

text \<open>
  C15. Whatever is appended, by whichever relays, for whichever communities and with whatever failures
  in between, provided PostgreSQL gives every appended detail back with the same canonical text,
  every chain verifies over every range: its sequence numbers are one, two, three and so on
  without gap, and verification answers whether the range holds any of them.
\<close>

theorem audit_chain_verifies:
  assumes "details_kept X ops" "length ops < 2 ^ 63" "db = run_log X ops []"
  shows "map seq_of (rows_of db c) = map int [1..<Suc (length (rows_of db c))] \<and>
    verify_chain X None db c a b = Inr (\<exists>k. a \<le> int k \<and> int k \<le> b \<and> 1 \<le> k \<and> k \<le> length (rows_of db c))"
proof -
  have inv: "log_inv X db" unfolding assms(3) by (rule run_log_inv) (use assms(1,2) log_inv_empty in simp_all)
  let ?rs = "rows_of db c"
  have seqs: "map seq_of ?rs = map int [1..<Suc (length ?rs)]" and v: "verify_rows X None ?rs = Inr True"
    using inv by (simp_all add: log_inv_def del: upt_Suc)
  have r: "in_range db c a b = filter (\<lambda>r. a \<le> seq_of r \<and> seq_of r \<le> b) ?rs"
    by (simp add: in_range_def community_rows_inv [OF inv])
  have "in_range db c a b \<noteq> [] \<longleftrightarrow> (\<exists>n \<in> set (map seq_of ?rs). a \<le> n \<and> n \<le> b)"
    unfolding r by (auto simp: filter_empty_conv)
  also have "\<dots> \<longleftrightarrow> (\<exists>k. a \<le> int k \<and> int k \<le> b \<and> 1 \<le> k \<and> k \<le> length ?rs)"
    unfolding seqs by (auto simp del: upt_Suc)
  finally have ne: "in_range db c a b \<noteq> [] \<longleftrightarrow> (\<exists>k. a \<le> int k \<and> int k \<le> b \<and> 1 \<le> k \<and> k \<le> length ?rs)" .
  have "sorted (map seq_of ?rs)" unfolding seqs by (rule sorted_seqs)
  from verify_segment [OF this v, of a b] have "verify_rows X None (in_range db c a b) = Inr True" unfolding r .
  then have "verify_chain X None db c a b = Inr (in_range db c a b \<noteq> [])" by (simp add: verify_chain_def Let_def)
  with ne seqs show ?thesis by simp
qed

text \<open>An append touches no row that is there and no chain but its own.\<close>

theorem audit_append_only:
  "\<exists>new. fst (log_entry X now fault db entry) = db @ new \<and> length new \<le> 1 \<and>
     (\<forall>c. c \<noteq> ne_community_id entry \<longrightarrow>
        community_rows (fst (log_entry X now fault db entry)) c = community_rows db c \<and>
        verify_chain X None (fst (log_entry X now fault db entry)) c a b = verify_chain X None db c a b)"
proof -
  have "\<exists>new. fst (log_entry X now fault db entry) = db @ new \<and> length new \<le> 1 \<and>
      (\<forall>r \<in> set new. ae_community_id (row_entry r) = ne_community_id entry)"
    by (auto simp: log_entry_def Let_def stored_def split: log_fault.split sum.split)
  then obtain new where n: "fst (log_entry X now fault db entry) = db @ new" "length new \<le> 1"
    "\<forall>r \<in> set new. ae_community_id (row_entry r) = ne_community_id entry" by blast
  have "rows_of new c = []" if "c \<noteq> ne_community_id entry" for c using n(3) that by (auto simp: filter_empty_conv)
  then have "community_rows (db @ new) c = community_rows db c" if "c \<noteq> ne_community_id entry" for c
    using that by (simp add: community_rows_def)
  then show ?thesis using n(1,2) by (auto simp: verify_chain_def in_range_def)
qed

subsection \<open>Tampering\<close>

text \<open>What a row is hashed over, as it is read back.\<close>

definition row_preimage :: "audit_crates \<Rightarrow> audit_row \<Rightarrow> (bytes, AuditError) rust_result" where
  "row_preimage X r = (case row_to_audit_entry r of Inl e \<Rightarrow> Inl e | Inr e \<Rightarrow> preimage X e)"

definition prev_bytes :: "audit_row \<Rightarrow> bytes" where
  "prev_bytes r = (case ae_prev_hash (row_entry r) of Some h \<Rightarrow> h | None \<Rightarrow> GENESIS_HASH)"

lemma row_ok_preimage:
  assumes "row_ok X q r"
  obtains p where "row_preimage X r = Inr p" "ae_hash (row_entry r) = sha256 X p" "\<exists>a. p = a @ prev_bytes r"
    "q = None \<or> ae_prev_hash (row_entry r) = q"
proof -
  from assms obtain e where e: "row_to_audit_entry r = Inr e" "q = None \<or> ae_prev_hash e = q" "compute_hash X e = Inr (ae_hash e)"
    by (auto simp: row_ok_def)
  then obtain p where p: "preimage X e = Inr p" "ae_hash e = sha256 X p"
    by (auto simp: compute_hash_def split: sum.splits)
  have "\<exists>a. p = a @ prev_bytes r"
    using p(1) row_hash [OF e(1)] by (auto simp: preimage_def prev_bytes_def split: sum.splits)
  then show thesis using that [of p] e p row_hash [OF e(1)] by (auto simp: row_preimage_def)
qed

lemma verify_last:
  assumes "verify_rows X None (rs @ [r]) = Inr True"
  shows "verify_rows X None rs = Inr True" "row_ok X (if rs = [] then None else Some (ae_hash (row_entry (last rs)))) r"
proof -
  have *: "verify_rows X q (rs @ [r]) = Inr True \<Longrightarrow> verify_rows X q rs = Inr True" for q
    by (induction rs arbitrary: q) (simp_all del: verify_rows.simps(2) add: verify_rows_Cons)
  show "verify_rows X None rs = Inr True" using * [OF assms] .
  from verify_snoc [OF this, of r] show "row_ok X (if rs = [] then None else Some (ae_hash (row_entry (last rs)))) r"
    using assms by simp
qed

text \<open>
  C16. The hash of the last row pins the whole chain: two chains from the beginning that both verify
  and end in the same hash are hashed over the same bytes, row by row, and have the same length,
  unless the hash function has a collision among those very bytes or yields the all-zero hash.
\<close>

theorem head_pins_history:
  assumes "\<forall>p. length (sha256 X p) = 32" "verify_rows X None xs = Inr True" "verify_rows X None ys = Inr True"
    and "xs \<noteq> []" "ys \<noteq> []" "ae_prev_hash (row_entry (hd xs)) = None" "ae_prev_hash (row_entry (hd ys)) = None"
    and "ae_hash (row_entry (last xs)) = ae_hash (row_entry (last ys))"
    and "inj_on (sha256 X) {p. Inr p \<in> row_preimage X ` (set xs \<union> set ys)}"
    and "\<forall>p. Inr p \<in> row_preimage X ` (set xs \<union> set ys) \<longrightarrow> sha256 X p \<noteq> GENESIS_HASH"
  shows "map (row_preimage X) xs = map (row_preimage X) ys"
  using assms(2-)
proof (induction xs arbitrary: ys rule: rev_induct)
  case (snoc x xs)
  obtain ys' y where ys: "ys = ys' @ [y]" using snoc.prems(4) by (metis rev_exhaust)
  note vx = verify_last [OF snoc.prems(1)] and vy = verify_last [OF snoc.prems(2) [unfolded ys]]
  from vx(2) obtain p where p: "row_preimage X x = Inr p" "ae_hash (row_entry x) = sha256 X p" "\<exists>a. p = a @ prev_bytes x"
      and px: "(if xs = [] then None else Some (ae_hash (row_entry (last xs)))) = None \<or>
        ae_prev_hash (row_entry x) = (if xs = [] then None else Some (ae_hash (row_entry (last xs))))"
    by (rule row_ok_preimage)
  from vy(2) obtain q where q: "row_preimage X y = Inr q" "ae_hash (row_entry y) = sha256 X q" "\<exists>a. q = a @ prev_bytes y"
      and qy: "(if ys' = [] then None else Some (ae_hash (row_entry (last ys')))) = None \<or>
        ae_prev_hash (row_entry y) = (if ys' = [] then None else Some (ae_hash (row_entry (last ys'))))"
    by (rule row_ok_preimage)
  have mem: "Inr p \<in> row_preimage X ` (set (xs @ [x]) \<union> set ys)" "Inr q \<in> row_preimage X ` (set (xs @ [x]) \<union> set ys)"
    using p(1) q(1) by (auto simp: ys rev_image_eqI)
  have eq: "p = q" using snoc.prems(7) p(2) q(2) mem inj_onD [OF snoc.prems(8)] by (simp add: ys)
  have hx: "prev_bytes x = (if xs = [] then GENESIS_HASH else ae_hash (row_entry (last xs)))"
    using px snoc.prems(5) by (auto simp: prev_bytes_def split: if_splits)
  have hy: "prev_bytes y = (if ys' = [] then GENESIS_HASH else ae_hash (row_entry (last ys')))"
    using qy snoc.prems(6) by (auto simp: prev_bytes_def ys split: if_splits)
  have last_hash: "\<exists>p. Inr p \<in> row_preimage X ` set zs \<and> ae_hash (row_entry (last zs)) = sha256 X p"
    if vz: "verify_rows X None zs = Inr True" "zs \<noteq> []" for zs
  proof -
    obtain us u where zs: "zs = us @ [u]" using vz(2) by (metis rev_exhaust)
    from verify_last(2) [OF vz(1) [unfolded zs]] obtain t where "row_preimage X u = Inr t" "ae_hash (row_entry u) = sha256 X t"
      by (rule row_ok_preimage)
    then show ?thesis by (intro exI [of _ t]) (auto simp: zs rev_image_eqI)
  qed
  have len: "length (prev_bytes x) = 32" "length (prev_bytes y) = 32"
    using hx hy last_hash [OF vx(1)] last_hash [OF vy(1)] assms(1) by (auto simp: GENESIS_HASH_def)
  have pb: "prev_bytes x = prev_bytes y" using p(3) q(3) eq len by auto
  have nz: "ae_hash (row_entry (last zs)) \<noteq> GENESIS_HASH" if "verify_rows X None zs = Inr True" "zs \<noteq> []" "set zs \<subseteq> set (xs @ [x]) \<union> set ys" for zs
    using last_hash [OF that(1,2)] snoc.prems(9) that(3) by (metis image_mono subsetD)
  have both: "xs = [] \<longleftrightarrow> ys' = []"
    using pb hx hy nz [OF vx(1)] nz [OF vy(1)] by (auto simp: ys split: if_splits)
  have "map (row_preimage X) xs = map (row_preimage X) ys'"
  proof (cases "xs = []")
    case False
    then have ne: "ys' \<noteq> []" using both by simp
    show ?thesis
    proof (rule snoc.IH [OF vx(1) vy(1) False ne])
      show "ae_prev_hash (row_entry (hd xs)) = None" using snoc.prems(5) False by simp
      show "ae_prev_hash (row_entry (hd ys')) = None" using snoc.prems(6) ne by (simp add: ys)
      show "ae_hash (row_entry (last xs)) = ae_hash (row_entry (last ys'))" using pb hx hy False ne by simp
      show "inj_on (sha256 X) {p. Inr p \<in> row_preimage X ` (set xs \<union> set ys')}"
        by (rule inj_on_subset [OF snoc.prems(8)]) (auto simp: ys)
      show "\<forall>p. Inr p \<in> row_preimage X ` (set xs \<union> set ys') \<longrightarrow> sha256 X p \<noteq> GENESIS_HASH"
        using snoc.prems(9) by (auto simp: ys)
    qed
  qed (use both in simp)
  then show ?case using p(1) q(1) eq by (simp add: ys)
qed simp

text \<open>
  But the bytes do not determine the entry: nothing marks where the object id ends and the detail
  begins. A digit moved from the detail to the object id of a stored row, or back, changes neither
  the hash nor the verdict of the verification.
\<close>

theorem detail_digit_moves:
  assumes "\<forall>n. scalar_to_string X (JNumber n) = Inr n"
    and "r = \<lparr>row_entry = e\<lparr>ae_object_id := Some oid, ae_detail := JNumber (d # n)\<rparr>, row_action = a\<rparr>"
    and "r' = \<lparr>row_entry = e\<lparr>ae_object_id := Some (oid @ [d]), ae_detail := JNumber n\<rparr>, row_action = a\<rparr>"
  shows "r \<noteq> r' \<and> row_preimage X r = row_preimage X r' \<and>
    (verify_rows X p (xs @ r # ys) = Inr True \<longleftrightarrow> verify_rows X p (xs @ r' # ys) = Inr True)"
proof -
  have pre: "preimage X (e\<lparr>ae_object_id := Some oid, ae_detail := JNumber (d # n), ae_action := ac\<rparr>) =
      preimage X (e\<lparr>ae_object_id := Some (oid @ [d]), ae_detail := JNumber n, ae_action := ac\<rparr>)" for ac
    using assms(1) by (simp add: preimage_def tagged_def bytes_of_def)
  have "e\<lparr>ae_object_id := Some oid, ae_detail := JNumber (d # n)\<rparr> \<noteq> e\<lparr>ae_object_id := Some (oid @ [d]), ae_detail := JNumber n\<rparr>"
    by (metis AuditEntry.select_convs(7) AuditEntry.surjective AuditEntry.update_convs(7,8) append_self_conv not_Cons_self2 option.inject)
  then have ne: "r \<noteq> r'" using assms(2,3) by simp
  have pr: "row_preimage X r = row_preimage X r'"
    using pre by (simp add: assms(2,3) row_preimage_def row_to_audit_entry_def split: sum.split)
  have "row_ok X q r = row_ok X q r'" for q
    using pre
    by (auto simp: assms(2,3) row_ok_def row_to_audit_entry_def compute_hash_def split: sum.splits)
  moreover have "ae_hash (row_entry r) = ae_hash (row_entry r')" by (simp add: assms(2,3))
  ultimately have "verify_rows X p (xs @ r # ys) = Inr True \<longleftrightarrow> verify_rows X p (xs @ r' # ys) = Inr True"
    by (induction xs arbitrary: p) (simp_all del: verify_rows.simps(2) add: verify_rows_Cons)
  with ne pr show ?thesis by blast
qed


subsection \<open>A sample log\<close>

definition sample_audit :: audit_crates where
  "sample_audit = \<lparr>sha256 = (\<lambda>p. 1 # take 31 (p @ replicate 31 0)), uuid_as_bytes = bytes_of, to_rfc3339 = (\<lambda>t. ''t''),
     scalar_to_string = (\<lambda>v. case v of JNumber n \<Rightarrow> Inr n | JString s \<Rightarrow> Inr s | JBool b \<Rightarrow> Inr (if b then ''true'' else ''false'') | _ \<Rightarrow> Inr ''null''),
     db_json = (\<lambda>v. if v = JNumber ''1e16'' then JNumber ''10000000000000000'' else v)\<rparr>"

definition sample_entry :: NewAuditEntry where
  "sample_entry = \<lparr>ne_community_id = ''c'', ne_action = MemberAdded, ne_actor_pubkey = None, ne_object_id = Some ''o'', ne_detail = JNumber ''12''\<rparr>"

definition sample_log :: audit_log where
  "sample_log = run_log sample_audit [(5, NoFault, sample_entry), (6, Before ''down'', sample_entry), (7, NoFault, sample_entry)] []"

lemma sample_keeps: "v \<noteq> JNumber ''1e16'' \<Longrightarrow> jsonb_keeps sample_audit v"
  by (simp add: jsonb_keeps_def sample_audit_def)

theorem audit_chain_verifies_witness: "verify_chain sample_audit None sample_log ''c'' 1 2 = Inr (rows_of sample_log ''c'' \<noteq> [])"
proof -
  have "verify_chain sample_audit None sample_log ''c'' 1 2 =
      Inr (\<exists>k. 1 \<le> int k \<and> int k \<le> 2 \<and> 1 \<le> k \<and> k \<le> length (rows_of sample_log ''c''))"
    using audit_chain_verifies [OF _ _ sample_log_def] by (simp add: sample_keeps sample_entry_def)
  also have "(\<exists>k. 1 \<le> int k \<and> int k \<le> 2 \<and> 1 \<le> k \<and> k \<le> length (rows_of sample_log ''c'')) \<longleftrightarrow> rows_of sample_log ''c'' \<noteq> []"
    by (auto intro: exI [of _ 1] simp: Suc_le_eq)
  finally show ?thesis .
qed

lemma stored_row:
  assumes "jsonb_keeps X (ae_detail e)" "preimage X e = Inr p"
  shows "verify_rows X None [stored X (e\<lparr>ae_hash := sha256 X p\<rparr>)] = Inr True"
    "row_preimage X (stored X (e\<lparr>ae_hash := sha256 X p\<rparr>)) = Inr p"
proof -
  have pre: "preimage X (row_entry (stored X (e\<lparr>ae_hash := sha256 X p\<rparr>))) = Inr p"
    using assms by (simp add: preimage_stored)
  then show "row_preimage X (stored X (e\<lparr>ae_hash := sha256 X p\<rparr>)) = Inr p" by (simp add: row_preimage_def)
  have "ae_hash (row_entry (stored X (e\<lparr>ae_hash := sha256 X p\<rparr>))) = sha256 X p" by (simp add: stored_def)
  with pre show "verify_rows X None [stored X (e\<lparr>ae_hash := sha256 X p\<rparr>)] = Inr True" by (simp add: compute_hash_def)
qed

definition sample_new :: "string \<Rightarrow> string \<Rightarrow> AuditEntry" where
  "sample_new oid n = \<lparr>ae_community_id = ''c'', ae_seq = 1, ae_hash = [], ae_prev_hash = None, ae_action = MemberAdded,
     ae_actor_pubkey = None, ae_object_id = Some oid, ae_detail = JNumber n, ae_created_at = 0\<rparr>"

definition sample_bytes :: "string \<Rightarrow> string \<Rightarrow> bytes" where
  "sample_bytes oid n = bytes_of ''c'' @ to_be_bytes 1 @ bytes_of ''t'' @ bytes_of ''member_added'' @ [0] @ (1 # bytes_of oid) @
     bytes_of n @ GENESIS_HASH"

definition sample_row :: "string \<Rightarrow> string \<Rightarrow> audit_row" where
  "sample_row oid n = stored sample_audit ((sample_new oid n)\<lparr>ae_hash := sha256 sample_audit (sample_bytes oid n)\<rparr>)"

lemma sample_preimage: "preimage sample_audit (sample_new oid n) = Inr (sample_bytes oid n)"
  by (simp add: preimage_def sample_new_def sample_bytes_def sample_audit_def tagged_def)

lemma sample_row:
  assumes "n \<noteq> ''1e16''"
  shows "verify_rows sample_audit None [sample_row oid n] = Inr True"
    "row_preimage sample_audit (sample_row oid n) = Inr (sample_bytes oid n)"
  using stored_row [OF sample_keeps sample_preimage, of oid n] assms
  by (simp_all add: sample_row_def sample_new_def)

lemma sample_move: "sample_bytes ''o'' ''12'' = sample_bytes ''o1'' ''2''"
  by (simp add: sample_bytes_def bytes_of_def)

lemma sample_row_fields: "ae_prev_hash (row_entry (sample_row oid n)) = None"
  "ae_hash (row_entry (sample_row oid n)) = sha256 sample_audit (sample_bytes oid n)"
  by (simp_all add: sample_row_def stored_def sample_new_def)

lemma sample_sha: "length (sha256 sample_audit p) = 32" "sha256 sample_audit p \<noteq> GENESIS_HASH"
  by (simp_all add: sample_audit_def GENESIS_HASH_def numeral_eq_Suc)

theorem head_pins_history_witness:
  "map (row_preimage sample_audit) [sample_row ''o'' ''12''] = map (row_preimage sample_audit) [sample_row ''o1'' ''2'']"
proof (rule head_pins_history)
  show "inj_on (sha256 sample_audit)
      {p. Inr p \<in> row_preimage sample_audit ` (set [sample_row ''o'' ''12''] \<union> set [sample_row ''o1'' ''2''])}"
    by (rule inj_onI) (auto simp: sample_row(2) sample_move)
qed (simp_all del: verify_rows.simps(2) add: sample_row sample_row_fields sample_move sample_sha)

theorem detail_digit_moves_witness:
  "\<exists>r'. r' \<noteq> sample_row ''o'' ''12'' \<and> verify_rows sample_audit None ([] @ r' # []) = Inr True"
proof -
  let ?e = "row_entry (sample_row ''o'' ''12'')"
  have "?e\<lparr>ae_object_id := Some ''o'', ae_detail := JNumber ''12''\<rparr> = ?e"
    by (simp add: sample_row_def stored_def sample_new_def sample_audit_def)
  then have r: "sample_row ''o'' ''12'' = \<lparr>row_entry = ?e\<lparr>ae_object_id := Some ''o'', ae_detail := JNumber (CHR ''1'' # ''2'')\<rparr>,
      row_action = row_action (sample_row ''o'' ''12'')\<rparr>" by simp
  have "\<forall>n. scalar_to_string sample_audit (JNumber n) = Inr n" by (simp add: sample_audit_def)
  note moves = detail_digit_moves [OF this r refl, of None "[]" "[]"]
  have "verify_rows sample_audit None [sample_row ''o'' ''12''] = Inr True" by (rule sample_row(1)) simp
  with moves show ?thesis by (simp only: append_Nil) metis
qed

theorem canonical_json_order_witness:
  "canonical_json sample_audit (JObject [(''a'', JNull), (''b'', JBool True)]) = canonical_json sample_audit (JObject [(''b'', JBool True), (''a'', JNull)])"
  by (rule canonical_json_order) simp_all

end
