(* ===== verification/Tenant_Host.thy ===== *)
theory Tenant_Host
  imports Buzz_Prelude
begin

text \<open>
  Tenant identity and host binding: \<open>crates/buzz-core/src/tenant.rs\<close> and
  \<open>crates/buzz-relay/src/tenant.rs\<close>. The URL parser (crate \<open>url\<close>) and the database lookup of a
  host are arguments; a failure of the lookup is a value of its result type.
\<close>

subsection \<open>Text\<close>

text \<open>\<open>str::to_ascii_lowercase\<close> on the bytes of a text.\<close>

definition ascii_lower :: "char \<Rightarrow> char" where
  "ascii_lower c = (if 65 \<le> (of_char c :: nat) \<and> (of_char c :: nat) \<le> 90 then char_of ((of_char c :: nat) + 32) else c)"

definition to_ascii_lowercase :: "string \<Rightarrow> string" where
  "to_ascii_lowercase s = map ascii_lower s"

definition strip_suffix :: "string \<Rightarrow> string \<Rightarrow> string option" where
  "strip_suffix p s = (if length p \<le> length s \<and> drop (length s - length p) s = p
                       then Some (take (length s - length p) s) else None)"

text \<open>
  \<open>str::trim\<close>: the characters with the Unicode property \<open>White_Space\<close>, by their UTF-8 encodings.
  An encoding begins with the leading byte of its character, so on UTF-8 text a match of bytes is
  a match of characters at either end.
\<close>

definition ascii_whitespace :: "string list" where
  "ascii_whitespace = [[CHR 0x09], [CHR 0x0A], [CHR 0x0B], [CHR 0x0C], [CHR 0x0D], [CHR 0x20]]"

definition other_whitespace :: "string list" where
  "other_whitespace =
     [[CHR 0xC2, CHR 0x85],
      [CHR 0xC2, CHR 0xA0], [CHR 0xE1, CHR 0x9A, CHR 0x80], [CHR 0xE2, CHR 0x80, CHR 0x80],
      [CHR 0xE2, CHR 0x80, CHR 0x81], [CHR 0xE2, CHR 0x80, CHR 0x82],
      [CHR 0xE2, CHR 0x80, CHR 0x83], [CHR 0xE2, CHR 0x80, CHR 0x84],
      [CHR 0xE2, CHR 0x80, CHR 0x85], [CHR 0xE2, CHR 0x80, CHR 0x86],
      [CHR 0xE2, CHR 0x80, CHR 0x87], [CHR 0xE2, CHR 0x80, CHR 0x88],
      [CHR 0xE2, CHR 0x80, CHR 0x89], [CHR 0xE2, CHR 0x80, CHR 0x8A],
      [CHR 0xE2, CHR 0x80, CHR 0xA8], [CHR 0xE2, CHR 0x80, CHR 0xA9],
      [CHR 0xE2, CHR 0x80, CHR 0xAF], [CHR 0xE2, CHR 0x81, CHR 0x9F],
      [CHR 0xE3, CHR 0x80, CHR 0x80]]"

definition whitespace_encodings :: "string list" where
  "whitespace_encodings = ascii_whitespace @ other_whitespace"

definition leading_ws :: "string \<Rightarrow> nat" where
  "leading_ws s = (case find (\<lambda>w. starts_with s w) whitespace_encodings of None \<Rightarrow> 0 | Some w \<Rightarrow> length w)"

definition trailing_ws :: "string \<Rightarrow> nat" where
  "trailing_ws s = (case find (\<lambda>w. strip_suffix w s \<noteq> None) whitespace_encodings of None \<Rightarrow> 0 | Some w \<Rightarrow> length w)"

function trim_start_bytes :: "string \<Rightarrow> string" where
  "trim_start_bytes s = (if s \<noteq> [] \<and> 0 < leading_ws s then trim_start_bytes (drop (leading_ws s) s) else s)"
  by auto
termination by (relation "measure length") auto

function trim_end_bytes :: "string \<Rightarrow> string" where
  "trim_end_bytes s = (if s \<noteq> [] \<and> 0 < trailing_ws s then trim_end_bytes (take (length s - trailing_ws s) s) else s)"
  by auto
termination by (relation "measure length") auto

declare trim_start_bytes.simps [simp del] trim_end_bytes.simps [simp del]

definition trim :: "string \<Rightarrow> string" where
  "trim s = trim_end_bytes (trim_start_bytes s)"

subsection \<open>Tenant contexts\<close>

type_synonym CommunityId = uuid

record TenantContext =
  tc_community :: CommunityId
  tc_host :: string

definition resolved :: "CommunityId \<Rightarrow> string \<Rightarrow> TenantContext" where
  "resolved c h = \<lparr>tc_community = c, tc_host = h\<rparr>"

definition normalize_host :: "string \<Rightarrow> string" where
  "normalize_host raw =
     (let host = to_ascii_lowercase (trim raw);
          host = (case (case strip_suffix '':443'' host of Some stripped \<Rightarrow> Some stripped
                        | None \<Rightarrow> strip_suffix '':80'' host) of
                    Some stripped \<Rightarrow> stripped
                  | None \<Rightarrow> host)
      in case strip_suffix ''.'' host of Some stripped \<Rightarrow> stripped | None \<Rightarrow> host)"

text \<open>
  A parsed URL as the sources read it: the host with the text of each variant, and the port where
  it is not the default of the scheme.
\<close>

datatype url_host = Domain string | Ipv4 string | Ipv6 string

record 'u url_view =
  uv_parse :: "string \<Rightarrow> 'u option"
  uv_host :: "'u \<Rightarrow> url_host option"
  uv_port :: "'u \<Rightarrow> u16 option"

definition relay_url_authority :: "'u url_view \<Rightarrow> string \<Rightarrow> string" where
  "relay_url_authority U relay_url =
     (case uv_parse U relay_url of
        None \<Rightarrow> []
      | Some url \<Rightarrow>
         (case uv_host U url of
            None \<Rightarrow> []
          | Some host \<Rightarrow>
             let host = (case host of Domain domain \<Rightarrow> domain | Ipv4 addr \<Rightarrow> addr
                           | Ipv6 addr \<Rightarrow> ''['' @ addr @ '']'');
                 authority = (case uv_port U url of
                     Some port \<Rightarrow> host @ '':'' @ show_nat (unat port)
                   | None \<Rightarrow> host)
             in normalize_host authority))"

subsection \<open>Binding\<close>

datatype 'e BindError = UnmappedHost | Lookup 'e

type_synonym 'e resolver = "string \<Rightarrow> (CommunityId option, 'e) rust_result"

definition bind_community :: "'e resolver \<Rightarrow> string \<Rightarrow> (TenantContext, 'e BindError) rust_result" where
  "bind_community resolve_host raw_host =
     (let host = normalize_host raw_host in
      if host = [] then Inl UnmappedHost
      else case resolve_host host of
          Inr (Some community) \<Rightarrow> Inr (resolved community host)
        | Inr None \<Rightarrow> Inl UnmappedHost
        | Inl e \<Rightarrow> Inl (Lookup e))"

definition bind_deployment_community ::
    "'u url_view \<Rightarrow> 'e resolver \<Rightarrow> string \<Rightarrow> (TenantContext, 'e BindError) rust_result" where
  "bind_deployment_community U resolve_host relay_url =
     bind_community resolve_host (relay_url_authority U relay_url)"

subsection \<open>Suffixes and white space\<close>

lemma strip_suffix_append [simp]: "strip_suffix p (s @ p) = Some s"
  by (simp add: strip_suffix_def)

lemma strip_suffix_Some: "strip_suffix p s = Some t \<longleftrightarrow> s = t @ p"
proof
  assume "strip_suffix p s = Some t"
  then have "t = take (length s - length p) s" "drop (length s - length p) s = p"
    by (auto simp: strip_suffix_def split: if_splits)
  then show "s = t @ p" using append_take_drop_id [of "length s - length p" s] by simp
qed simp

lemma strip_suffix_None: "strip_suffix p s = None \<longleftrightarrow> (\<forall>t. s \<noteq> t @ p)"
  by (metis not_None_eq strip_suffix_Some)

text \<open>A text whose first and last bytes belong to no white space is left alone by \<open>trim\<close>.\<close>

definition ws_first :: "char set" where "ws_first = hd ` set whitespace_encodings"
definition ws_last :: "char set" where "ws_last = last ` set whitespace_encodings"

lemma ws_not_Nil: "[] \<notin> set whitespace_encodings"
  by (auto simp: whitespace_encodings_def ascii_whitespace_def other_whitespace_def)

lemma leading_ws_none:
  assumes "s \<noteq> []" "hd s \<notin> ws_first"
  shows "leading_ws s = 0"
proof -
  have "\<not> starts_with s w" if "w \<in> set whitespace_encodings" for w
    using assms that ws_not_Nil by (cases w) (force simp: ws_first_def starts_with_append)+
  then have "find (\<lambda>w. starts_with s w) whitespace_encodings = None" by (simp add: find_None_iff)
  then show ?thesis by (simp add: leading_ws_def)
qed

lemma trailing_ws_none:
  assumes "s \<noteq> []" "last s \<notin> ws_last"
  shows "trailing_ws s = 0"
proof -
  have "strip_suffix w s = None" if "w \<in> set whitespace_encodings" for w
    using assms that ws_not_Nil by (cases w rule: rev_cases) (force simp: ws_last_def strip_suffix_None)+
  then have "find (\<lambda>w. strip_suffix w s \<noteq> None) whitespace_encodings = None" by (simp add: find_None_iff)
  then show ?thesis by (simp add: trailing_ws_def)
qed

lemma trim_id: "s \<noteq> [] \<Longrightarrow> hd s \<notin> ws_first \<Longrightarrow> last s \<notin> ws_last \<Longrightarrow> trim s = s"
  by (simp add: trim_def trim_start_bytes.simps [of s] trim_end_bytes.simps [of s]
      leading_ws_none trailing_ws_none)

text \<open>Blanks around a text are removed.\<close>

definition blank :: "char \<Rightarrow> bool" where "blank c \<longleftrightarrow> c \<in> {CHR '' '', CHR 0x09}"

lemma strip_suffix_single: "strip_suffix [x] (s @ [c]) = (if x = c then Some s else None)"
  by (simp add: strip_suffix_def)

lemma find_blank:
  assumes "blank c"
  shows "find (\<lambda>w. starts_with (c # s) w) ascii_whitespace = Some [c]"
    "find (\<lambda>w. strip_suffix w (s @ [c]) \<noteq> None) ascii_whitespace = Some [c]"
  using assms by (auto simp: blank_def ascii_whitespace_def starts_with_def strip_suffix_single)

lemma leading_ws_blank: "blank c \<Longrightarrow> leading_ws (c # s) = 1"
  by (simp add: leading_ws_def whitespace_encodings_def find_append find_blank)

lemma trailing_ws_blank: "blank c \<Longrightarrow> trailing_ws (s @ [c]) = 1"
  unfolding trailing_ws_def whitespace_encodings_def find_append find_blank by simp

lemma trim_start_blank: "list_all blank w \<Longrightarrow> trim_start_bytes (w @ s) = trim_start_bytes s"
  by (induction w) (simp_all add: trim_start_bytes.simps [of "_ # _"] leading_ws_blank)

lemma trim_end_blank: "list_all blank w \<Longrightarrow> trim_end_bytes (s @ w) = trim_end_bytes s"
proof (induction w rule: rev_induct)
  case (snoc c w)
  then show ?case
    using trailing_ws_blank [of c "s @ w"] by (simp add: trim_end_bytes.simps [of "s @ w @ [c]"])
qed simp

lemma trim_blanks:
  assumes "list_all blank w" "list_all blank w'" "s \<noteq> []" "hd s \<notin> ws_first" "last s \<notin> ws_last"
  shows "trim (w @ s @ w') = s"
proof -
  have "trim_start_bytes (w @ s @ w') = s @ w'"
    using assms by (simp add: trim_start_blank trim_start_bytes.simps [of "s @ w'"] leading_ws_none)
  then show ?thesis
    using assms by (simp add: trim_def trim_end_blank trim_end_bytes.simps [of s] trailing_ws_none)
qed

subsection \<open>One host, one tenant\<close>

text \<open>
  The parts of a host header that may vary: upper case, a root dot, a default port, blanks around.
\<close>

definition canonical_host :: "string \<Rightarrow> bool" where
  "canonical_host h \<longleftrightarrow> h \<noteq> [] \<and> hd h \<notin> ws_first \<and> last h \<notin> ws_last \<and> normalize_host h = h"

lemma canonical_hostD:
  assumes "canonical_host h"
  shows "to_ascii_lowercase h = h" "strip_suffix '':443'' h = None" "strip_suffix '':80'' h = None"
    "strip_suffix ''.'' h = None"
proof -
  let ?l = "to_ascii_lowercase h"
  have t: "trim h = h" using assms by (auto simp: canonical_host_def intro: trim_id)
  have len: "length ?l = length h" by (simp add: to_ascii_lowercase_def)
  have shorter: "length x < length y" if "strip_suffix p y = Some x" "p \<noteq> []" for p x y
    using that by (auto simp: strip_suffix_Some)
  have n: "normalize_host h = h" using assms by (simp add: canonical_host_def)
  have le: "length (case strip_suffix ''.'' y of Some stripped \<Rightarrow> stripped | None \<Rightarrow> y) \<le> length y" for y
    using shorter [of "''.''" y] by (cases "strip_suffix ''.'' y") (auto intro: less_imp_le)
  have a: "strip_suffix '':443'' ?l = None"
  proof (rule ccontr)
    assume "strip_suffix '':443'' ?l \<noteq> None"
    then obtain x where x: "strip_suffix '':443'' ?l = Some x" by blast
    then have "length (normalize_host h) < length h"
      using shorter [OF x] le [of x] len t by (simp add: normalize_host_def)
    then show False using n by simp
  qed
  have b: "strip_suffix '':80'' ?l = None"
  proof (rule ccontr)
    assume "strip_suffix '':80'' ?l \<noteq> None"
    then obtain x where x: "strip_suffix '':80'' ?l = Some x" by blast
    then have "length (normalize_host h) < length h"
      using shorter [OF x] le [of x] len t a by (simp add: normalize_host_def)
    then show False using n by simp
  qed
  have c: "strip_suffix ''.'' ?l = None"
  proof (rule ccontr)
    assume "strip_suffix ''.'' ?l \<noteq> None"
    then obtain x where x: "strip_suffix ''.'' ?l = Some x" by blast
    then have "length (normalize_host h) < length h"
      using shorter [OF x] len t a b by (simp add: normalize_host_def)
    then show False using n by simp
  qed
  show l: "?l = h" using n t a b c by (simp add: normalize_host_def)
  show "strip_suffix '':443'' h = None" "strip_suffix '':80'' h = None" "strip_suffix ''.'' h = None"
    using a b c l by simp_all
qed

lemma ws_bytes: "ws_first \<inter> {CHR ''.'', CHR ''0'', CHR ''3''} = {}" "ws_last \<inter> {CHR ''.'', CHR ''0'', CHR ''3''} = {}"
  by (auto simp: ws_first_def ws_last_def whitespace_encodings_def ascii_whitespace_def other_whitespace_def)

lemma to_ascii_lowercase_append [simp]: "to_ascii_lowercase (s @ t) = to_ascii_lowercase s @ to_ascii_lowercase t"
  by (simp add: to_ascii_lowercase_def)

definition strip_port_dot :: "string \<Rightarrow> string" where
  "strip_port_dot host =
     (let host = (case (case strip_suffix '':443'' host of Some stripped \<Rightarrow> Some stripped
                        | None \<Rightarrow> strip_suffix '':80'' host) of
                    Some stripped \<Rightarrow> stripped
                  | None \<Rightarrow> host)
      in case strip_suffix ''.'' host of Some stripped \<Rightarrow> stripped | None \<Rightarrow> host)"

lemma suffix_misses:
  "strip_suffix '':443'' (s @ ''.'') = None" "strip_suffix '':80'' (s @ ''.'') = None"
  "strip_suffix '':443'' (s @ '':80'') = None"
  by (auto simp: strip_suffix_None append_eq_append_conv2 append_eq_Cons_conv Cons_eq_append_conv)

lemma strip_port_dot_variant:
  assumes "strip_suffix '':443'' h = None" "strip_suffix '':80'' h = None" "strip_suffix ''.'' h = None"
    "dot \<in> {[], ''.''}" "port \<in> {[], '':443'', '':80''}"
  shows "strip_port_dot (h @ dot @ port) = h"
proof -
  have d: "(case strip_suffix ''.'' (h @ dot) of Some x \<Rightarrow> x | None \<Rightarrow> h @ dot) = h"
    using assms(3,4) by auto
  consider "port = []" | "port = '':443''" | "port = '':80''" using assms(5) by blast
  then show ?thesis
  proof cases
    case 1
    have "strip_suffix '':443'' (h @ dot) = None" "strip_suffix '':80'' (h @ dot) = None"
      using assms(1,2,4) suffix_misses by auto
    then show ?thesis using d 1 by (simp add: strip_port_dot_def)
  next
    case 2
    then show ?thesis using d strip_suffix_append [of "'':443''" "h @ dot"] by (simp add: strip_port_dot_def)
  next
    case 3
    then show ?thesis using d strip_suffix_append [of "'':80''" "h @ dot"] suffix_misses(3) [of "h @ dot"]
      by (simp add: strip_port_dot_def)
  qed
qed

text \<open>
  C40. The spelling of a host does not split a tenant: upper case, blanks around, the root dot and a
  default port lead to the same binding as the canonical host.
\<close>

theorem host_variants_one_tenant:
  assumes "canonical_host h" "to_ascii_lowercase u = h" "dot \<in> {[], ''.''}" "port \<in> {[], '':443'', '':80''}"
    "list_all blank w" "list_all blank w'" "hd u \<notin> ws_first" "last u \<notin> ws_last"
  shows "bind_community resolve_host (w @ u @ dot @ port @ w') = bind_community resolve_host h"
proof -
  let ?v = "u @ dot @ port"
  note h = canonical_hostD [OF assms(1)]
  have u: "u \<noteq> []" using assms(1,2) by (auto simp: canonical_host_def to_ascii_lowercase_def)
  have ends: "last ?v \<notin> ws_last" using assms(3,4,8) ws_bytes(2) u by auto
  then have "trim (w @ ?v @ w') = ?v" using trim_blanks [of w w' ?v] assms(5-7) u by simp
  moreover have "to_ascii_lowercase ?v = h @ dot @ port"
    using assms(2-4) by (auto simp: to_ascii_lowercase_def ascii_lower_def)
  ultimately have n: "normalize_host (w @ ?v @ w') = strip_port_dot (h @ dot @ port)"
    by (simp only: normalize_host_def strip_port_dot_def Let_def)
  have "normalize_host (w @ ?v @ w') = h"
    unfolding n using strip_port_dot_variant [OF h(2-4) assms(3,4)] .
  then show ?thesis using assms(1) by (simp add: bind_community_def canonical_host_def Let_def)
qed

definition sample_resolver :: "string resolver" where
  "sample_resolver h = Inr (if h = ''relay.example'' then Some ''c1'' else None)"

lemma sample_host_canonical: "canonical_host ''relay.example''"
proof -
  have ends: "CHR ''r'' \<notin> ws_first" "CHR ''e'' \<notin> ws_last"
    by (simp_all add: ws_first_def ws_last_def whitespace_encodings_def ascii_whitespace_def other_whitespace_def)
  then have "trim ''relay.example'' = ''relay.example''" by (intro trim_id) auto
  then show ?thesis using ends
    by (simp add: canonical_host_def normalize_host_def to_ascii_lowercase_def ascii_lower_def strip_suffix_def)
qed

theorem host_variants_one_tenant_witness:
  "bind_community sample_resolver '' Relay.Example.:443'' = Inr (resolved ''c1'' ''relay.example'')"
proof -
  have "to_ascii_lowercase ''Relay.Example'' = ''relay.example''" by code_simp
  moreover have "CHR ''R'' \<notin> ws_first" "CHR ''e'' \<notin> ws_last"
    by (simp_all add: ws_first_def ws_last_def whitespace_encodings_def ascii_whitespace_def other_whitespace_def)
  ultimately have "bind_community sample_resolver ('' '' @ ''Relay.Example'' @ ''.'' @ '':443'' @ []) =
      bind_community sample_resolver ''relay.example''"
    by (intro host_variants_one_tenant [OF sample_host_canonical]) (simp_all add: blank_def)
  then show ?thesis using sample_host_canonical
    by (simp add: bind_community_def canonical_host_def sample_resolver_def resolved_def)
qed

text \<open>
  Binding fails closed: a context is produced only for a non-empty normalized host that the lookup
  maps to a community, and it carries exactly that community and that host.
\<close>

theorem binding_fails_closed:
  "bind_community resolve_host raw = Inr ctx \<longleftrightarrow>
     normalize_host raw \<noteq> [] \<and> resolve_host (normalize_host raw) = Inr (Some (tc_community ctx)) \<and>
     tc_host ctx = normalize_host raw"
  by (cases ctx) (auto simp: bind_community_def resolved_def Let_def split: sum.split option.split)

end
