(* ===== verification/Auth_Events.thy ===== *)
theory Auth_Events
  imports Tenant_Host Nostr_Types
begin

text \<open>
  Authentication and authorization (\<open>crates/buzz-auth/src\<close>: \<open>error.rs\<close>, \<open>scope.rs\<close>,
  \<open>access.rs\<close>, \<open>nip42.rs\<close>, \<open>nip98.rs\<close>, \<open>lib.rs\<close>), the verification of an event
  (\<open>crates/buzz-core/src/verification.rs\<close>) and the verification of the HTTP bridge
  (\<open>crates/buzz-relay/src/api/bridge.rs\<close>).

  What comes from other crates is a record of functions: the JSON reader of events, the check of an
  event id and of a signature, SHA-256, base64, the URL type and the reader of public keys, and
  Unicode lower-casing with its tables and the
  quoting of \<open>Debug\<close>. The clock is an argument.
\<close>

subsection \<open>Errors\<close>

datatype AuthError =
    InvalidSignature
  | ChallengeMismatch
  | RelayUrlMismatch
  | EventExpired
  | Nip98Invalid string
  | Nip98Replay
  | PubkeyMismatch
  | InsufficientScope string "string list"
  | ChannelAccessDenied
  | Internal string

datatype VerificationError = InvalidId string string | InvalidSchnorr | Secp string

subsection \<open>Scopes\<close>

datatype Scope =
    MessagesRead | MessagesWrite | ChannelsRead | ChannelsWrite | AdminChannels | UsersRead | UsersWrite
  | AdminUsers | JobsRead | JobsWrite | SubscriptionsRead | SubscriptionsWrite | FilesRead | FilesWrite
  | ReposRead | ReposWrite | Unknown string

definition all_known :: "Scope list" where
  "all_known =
     [MessagesRead, MessagesWrite, ChannelsRead, ChannelsWrite, AdminChannels, UsersRead, UsersWrite,
      AdminUsers, JobsRead, JobsWrite, SubscriptionsRead, SubscriptionsWrite, FilesRead, FilesWrite,
      ReposRead, ReposWrite]"

definition all_non_admin :: "Scope list" where
  "all_non_admin =
     [MessagesRead, MessagesWrite, ChannelsRead, ChannelsWrite, UsersRead, UsersWrite,
      JobsRead, JobsWrite, SubscriptionsRead, SubscriptionsWrite, FilesRead, FilesWrite,
      ReposRead, ReposWrite]"

fun scope_as_str :: "Scope \<Rightarrow> string" where
  "scope_as_str MessagesRead = ''messages:read''"
| "scope_as_str MessagesWrite = ''messages:write''"
| "scope_as_str ChannelsRead = ''channels:read''"
| "scope_as_str ChannelsWrite = ''channels:write''"
| "scope_as_str AdminChannels = ''admin:channels''"
| "scope_as_str UsersRead = ''users:read''"
| "scope_as_str UsersWrite = ''users:write''"
| "scope_as_str AdminUsers = ''admin:users''"
| "scope_as_str JobsRead = ''jobs:read''"
| "scope_as_str JobsWrite = ''jobs:write''"
| "scope_as_str SubscriptionsRead = ''subscriptions:read''"
| "scope_as_str SubscriptionsWrite = ''subscriptions:write''"
| "scope_as_str FilesRead = ''files:read''"
| "scope_as_str FilesWrite = ''files:write''"
| "scope_as_str ReposRead = ''repos:read''"
| "scope_as_str ReposWrite = ''repos:write''"
| "scope_as_str (Unknown s) = s"

definition scope_from_str :: "string \<Rightarrow> Scope" where
  "scope_from_str s =
     (if s = ''messages:read'' then MessagesRead
      else if s = ''messages:write'' then MessagesWrite
      else if s = ''channels:read'' then ChannelsRead
      else if s = ''channels:write'' then ChannelsWrite
      else if s = ''admin:channels'' then AdminChannels
      else if s = ''users:read'' then UsersRead
      else if s = ''users:write'' then UsersWrite
      else if s = ''admin:users'' then AdminUsers
      else if s = ''jobs:read'' then JobsRead
      else if s = ''jobs:write'' then JobsWrite
      else if s = ''subscriptions:read'' then SubscriptionsRead
      else if s = ''subscriptions:write'' then SubscriptionsWrite
      else if s = ''files:read'' then FilesRead
      else if s = ''files:write'' then FilesWrite
      else if s = ''repos:read'' then ReposRead
      else if s = ''repos:write'' then ReposWrite
      else Unknown s)"

definition parse_scopes :: "string list \<Rightarrow> Scope list" where
  "parse_scopes raw = map scope_from_str raw"

subsection \<open>Channel access\<close>

text \<open>
  A checker answers with the channels of a public key in the community of a context; the default
  \<open>can_access\<close> looks the channel up there.
\<close>

type_synonym access_checker = "TenantContext \<Rightarrow> hex \<Rightarrow> (uuid set, AuthError) rust_result"

definition can_access :: "access_checker \<Rightarrow> TenantContext \<Rightarrow> hex \<Rightarrow> uuid \<Rightarrow> (bool, AuthError) rust_result" where
  "can_access accessible_channel_ids ctx pubkey channel_id =
     (case accessible_channel_ids ctx pubkey of Inl e \<Rightarrow> Inl e | Inr ids \<Rightarrow> Inr (channel_id \<in> ids))"

definition require_scope :: "Scope list \<Rightarrow> Scope \<Rightarrow> (unit, AuthError) rust_result" where
  "require_scope scopes required =
     (if required \<in> set scopes then Inr ()
      else Inl (InsufficientScope (scope_as_str required) (map scope_as_str scopes)))"

definition check_read_access ::
    "access_checker \<Rightarrow> TenantContext \<Rightarrow> hex \<Rightarrow> uuid \<Rightarrow> Scope list \<Rightarrow> (unit, AuthError) rust_result" where
  "check_read_access checker ctx pubkey channel_id scopes =
     (case require_scope scopes MessagesRead of
        Inl e \<Rightarrow> Inl e
      | Inr _ \<Rightarrow> (case can_access checker ctx pubkey channel_id of
          Inl e \<Rightarrow> Inl e
        | Inr ok \<Rightarrow> if ok then Inr () else Inl ChannelAccessDenied))"

definition check_write_access ::
    "access_checker \<Rightarrow> TenantContext \<Rightarrow> hex \<Rightarrow> uuid \<Rightarrow> Scope list \<Rightarrow> (unit, AuthError) rust_result" where
  "check_write_access checker ctx pubkey channel_id scopes =
     (case require_scope scopes MessagesWrite of
        Inl e \<Rightarrow> Inl e
      | Inr _ \<Rightarrow> (case can_access checker ctx pubkey channel_id of
          Inl e \<Rightarrow> Inl e
        | Inr ok \<Rightarrow> if ok then Inr () else Inl ChannelAccessDenied))"

subsection \<open>Verification of events\<close>

record 'u auth_env =
  ax_parse_event :: "string \<Rightarrow> (nostr_event, string) rust_result"
  ax_event_id :: "nostr_event \<Rightarrow> hex"
  ax_verify_id :: "nostr_event \<Rightarrow> bool"
  ax_verify_signature :: "nostr_event \<Rightarrow> bool"
  ax_sha256 :: "bytes \<Rightarrow> bytes"
  ax_base64_decode :: "string \<Rightarrow> bytes option"
  ax_pubkey_from_hex :: "string \<Rightarrow> hex option"
  ax_url_parse :: "string \<Rightarrow> 'u option"
  ax_host_str :: "'u \<Rightarrow> string option"
  ax_set_host :: "'u \<Rightarrow> string \<Rightarrow> 'u"
  ax_path :: "'u \<Rightarrow> string"
  ax_set_path :: "'u \<Rightarrow> string \<Rightarrow> 'u"
  ax_url_text :: "'u \<Rightarrow> string"
  ax_to_lowercase :: "string \<Rightarrow> string"
  ax_debug :: "string \<Rightarrow> string"

text \<open>\<open>Display\<close> of \<open>AuthError\<close>; the scopes held are printed by \<open>Debug\<close> of a vector.\<close>

fun comma_join :: "string list \<Rightarrow> string" where
  "comma_join [] = []"
| "comma_join [t] = t"
| "comma_join (t # ts) = t @ '', '' @ comma_join ts"

fun AuthError_text :: "'u auth_env \<Rightarrow> AuthError \<Rightarrow> string" where
  "AuthError_text X (Nip98Invalid m) = ''NIP-98 HTTP Auth verification failed: '' @ m"
| "AuthError_text X InvalidSignature = ''invalid signature or malformed auth event''"
| "AuthError_text X ChallengeMismatch = ''challenge mismatch''"
| "AuthError_text X RelayUrlMismatch = ''relay url mismatch''"
| "AuthError_text X EventExpired = ''auth event timestamp outside '' @ [CHR 0xC2, CHR 0xB1] @ ''60s window''"
| "AuthError_text X Nip98Replay = ''NIP-98 replay: event id already seen within window''"
| "AuthError_text X PubkeyMismatch = ''pubkey mismatch: event pubkey does not match authenticated identity''"
| "AuthError_text X (InsufficientScope required have) =
     ''insufficient scope: required '' @ required @ '', have ['' @ comma_join (map (ax_debug X) have) @ '']''"
| "AuthError_text X ChannelAccessDenied = ''channel access denied''"
| "AuthError_text X (Internal m) = ''internal auth error: '' @ m"

definition verify_event :: "'u auth_env \<Rightarrow> nostr_event \<Rightarrow> (unit, VerificationError) rust_result" where
  "verify_event X event =
     (if \<not> ax_verify_id X event then Inl (InvalidId (ax_event_id X event) (ev_id event))
      else if \<not> ax_verify_signature X event then Inl InvalidSchnorr
      else Inr ())"

definition TIMESTAMP_TOLERANCE_SECS :: nat where "TIMESTAMP_TOLERANCE_SECS = 60"

text \<open>\<open>u64::abs_diff\<close>, \<open>trim_end_matches('/')\<close>, \<open>eq_ignore_ascii_case\<close>, \<open>Tags::find(..).and_then(content)\<close>.\<close>

definition abs_diff :: "nat \<Rightarrow> nat \<Rightarrow> nat" where
  "abs_diff a b = (if a \<le> b then b - a else a - b)"

definition trim_end_slashes :: "string \<Rightarrow> string" where
  "trim_end_slashes s = rev (dropWhile (\<lambda>c. c = CHR ''/'') (rev s))"

definition eq_ignore_ascii_case :: "string \<Rightarrow> string \<Rightarrow> bool" where
  "eq_ignore_ascii_case a b \<longleftrightarrow> to_ascii_lowercase a = to_ascii_lowercase b"

definition find_content :: "nostr_event \<Rightarrow> string \<Rightarrow> string option" where
  "find_content event kind =
     (case find (\<lambda>t. tag_kind t = kind) (ev_tags event) of None \<Rightarrow> None | Some t \<Rightarrow> tag_content t)"

definition normalize_relay_url :: "'u auth_env \<Rightarrow> string \<Rightarrow> string" where
  "normalize_relay_url X raw =
     (case ax_url_parse X raw of
        None \<Rightarrow> raw
      | Some parsed \<Rightarrow>
          let parsed = (case ax_host_str X parsed of
                 Some host \<Rightarrow> if host = ''localhost'' \<or> host = ''::1'' then ax_set_host X parsed ''127.0.0.1'' else parsed
               | None \<Rightarrow> parsed);
              path = trim_end_slashes (ax_path X parsed)
          in ax_url_text X (ax_set_path X parsed path))"

definition generate_challenge :: "bytes \<Rightarrow> string" where
  "generate_challenge random = hex_write random"

definition verify_nip42_event ::
    "'u auth_env \<Rightarrow> nat \<Rightarrow> nostr_event \<Rightarrow> string \<Rightarrow> string \<Rightarrow> (unit, AuthError) rust_result" where
  "verify_nip42_event X now event expected_challenge relay_url =
     (if ev_kind event \<noteq> 22242 then Inl InvalidSignature
      else case verify_event X event of
          Inl _ \<Rightarrow> Inl InvalidSignature
        | Inr _ \<Rightarrow>
         (case find_content event ''challenge'' of
            None \<Rightarrow> Inl ChallengeMismatch
          | Some challenge \<Rightarrow>
              if challenge \<noteq> expected_challenge then Inl ChallengeMismatch
              else (case find_content event ''relay'' of
                  None \<Rightarrow> Inl RelayUrlMismatch
                | Some relay \<Rightarrow>
                    if normalize_relay_url X relay \<noteq> normalize_relay_url X relay_url then Inl RelayUrlMismatch
                    else let delta = abs_diff now (ev_created_at event)
                         in if delta > TIMESTAMP_TOLERANCE_SECS then Inl EventExpired else Inr ())))"

definition normalize_url :: "'u auth_env \<Rightarrow> string \<Rightarrow> string" where
  "normalize_url X raw =
     (case ax_url_parse X raw of
        None \<Rightarrow> ax_to_lowercase X raw
      | Some parsed \<Rightarrow>
          let path = trim_end_slashes (ax_path X parsed)
          in ax_url_text X (ax_set_path X parsed path))"

definition verify_nip98_event ::
    "'u auth_env \<Rightarrow> nat \<Rightarrow> string \<Rightarrow> string \<Rightarrow> string \<Rightarrow> bytes option \<Rightarrow> (hex, AuthError) rust_result" where
  "verify_nip98_event X now event_json expected_url expected_method body =
     (case ax_parse_event X event_json of
        Inl e \<Rightarrow> Inl (Nip98Invalid (''event JSON parse error: '' @ e))
      | Inr event \<Rightarrow>
        if ev_kind event \<noteq> 27235
        then Inl (Nip98Invalid (''expected kind 27235, got '' @ show_nat (unat (ev_kind event))))
        else (case verify_event X event of
          Inl _ \<Rightarrow> Inl (Nip98Invalid ''invalid Schnorr signature'')
        | Inr _ \<Rightarrow>
          let delta = abs_diff now (ev_created_at event) in
          if delta > TIMESTAMP_TOLERANCE_SECS
          then Inl (Nip98Invalid (''event timestamp outside '' @ [CHR 0xC2, CHR 0xB1] @ show_nat TIMESTAMP_TOLERANCE_SECS @
                 ''s window (delta: '' @ show_nat delta @ ''s)''))
          else (case find_content event ''u'' of
            None \<Rightarrow> Inl (Nip98Invalid ''missing `u` tag'')
          | Some u_tag \<Rightarrow>
            if normalize_url X u_tag \<noteq> normalize_url X expected_url
            then Inl (Nip98Invalid (''URL mismatch: event has `'' @ u_tag @ ''`, expected `'' @ expected_url @ ''`''))
            else (case find_content event ''method'' of
              None \<Rightarrow> Inl (Nip98Invalid ''missing `method` tag'')
            | Some method_tag \<Rightarrow>
              if \<not> eq_ignore_ascii_case method_tag expected_method
              then Inl (Nip98Invalid (''method mismatch: event has `'' @ method_tag @ ''`, expected `'' @ expected_method @ ''`''))
              else (case (find_content event ''payload'', body) of
                  (Some payload_hex, Some body_bytes) \<Rightarrow>
                    if hex_write (ax_sha256 X body_bytes) \<noteq> payload_hex
                    then Inl (Nip98Invalid ''payload tag SHA-256 mismatch: request body does not match signed hash'')
                    else Inr (ev_pubkey event)
                | _ \<Rightarrow> Inr (ev_pubkey event))))))"

subsection \<open>Authenticated contexts\<close>

datatype AuthMethod = Nip42 | Nip98

record AuthContext =
  ac_pubkey :: hex
  ac_scopes :: "Scope list"
  ac_channel_ids :: "uuid list option"
  ac_auth_method :: AuthMethod
  ac_agent_owner_pubkey :: "hex option"

definition has_scope :: "AuthContext \<Rightarrow> Scope \<Rightarrow> bool" where
  "has_scope self scope \<longleftrightarrow> scope \<in> set (ac_scopes self)"

text \<open>\<open>panicked\<close>: the blocking task that checks the signature panicked.\<close>

definition verify_auth_event ::
    "'u auth_env \<Rightarrow> bool \<Rightarrow> nat \<Rightarrow> nostr_event \<Rightarrow> string \<Rightarrow> string \<Rightarrow> (AuthContext, AuthError) rust_result" where
  "verify_auth_event X panicked now auth_event expected_challenge relay_url =
     (if panicked then Inl (Internal ''spawn_blocking panicked'')
      else case verify_nip42_event X now auth_event expected_challenge relay_url of
          Inl e \<Rightarrow> Inl e
        | Inr _ \<Rightarrow> Inr \<lparr>ac_pubkey = ev_pubkey auth_event, ac_scopes = all_known, ac_channel_ids = None,
                         ac_auth_method = Nip42, ac_agent_owner_pubkey = None\<rparr>)"

subsection \<open>The HTTP bridge\<close>

type_synonym api_error = "nat \<times> string"

abbreviation UNAUTHORIZED :: nat where "UNAUTHORIZED \<equiv> 401"
abbreviation FORBIDDEN :: nat where "FORBIDDEN \<equiv> 403"
abbreviation TOO_MANY_REQUESTS :: nat where "TOO_MANY_REQUESTS \<equiv> 429"
abbreviation INTERNAL_SERVER_ERROR :: nat where "INTERNAL_SERVER_ERROR \<equiv> 500"
abbreviation SERVICE_UNAVAILABLE :: nat where "SERVICE_UNAVAILABLE \<equiv> 503"

text \<open>
  \<open>String::from_utf8\<close>: the well-formed byte sequences of the Unicode standard.
\<close>

definition cont_byte :: "nat \<Rightarrow> bool" where "cont_byte b \<longleftrightarrow> 128 \<le> b \<and> b \<le> 191"

fun utf8_valid :: "nat list \<Rightarrow> bool" where
  "utf8_valid [] \<longleftrightarrow> True"
| "utf8_valid (a # r) \<longleftrightarrow>
     (if a \<le> 127 then utf8_valid r
      else if 194 \<le> a \<and> a \<le> 223 then
        (case r of b # r' \<Rightarrow> cont_byte b \<and> utf8_valid r' | _ \<Rightarrow> False)
      else if 224 \<le> a \<and> a \<le> 239 then
        (case r of b # c # r' \<Rightarrow>
           cont_byte b \<and> cont_byte c \<and> (a = 224 \<longrightarrow> 160 \<le> b) \<and> (a = 237 \<longrightarrow> b \<le> 159) \<and> utf8_valid r' | _ \<Rightarrow> False)
      else if 240 \<le> a \<and> a \<le> 244 then
        (case r of b # c # d # r' \<Rightarrow>
           cont_byte b \<and> cont_byte c \<and> cont_byte d \<and> (a = 240 \<longrightarrow> 144 \<le> b) \<and> (a = 244 \<longrightarrow> b \<le> 143) \<and> utf8_valid r'
         | _ \<Rightarrow> False)
      else False)"

definition string_from_utf8 :: "bytes \<Rightarrow> string option" where
  "string_from_utf8 bs =
     (if utf8_valid (map unat bs) then Some (map (\<lambda>b. char_of (unat b)) bs) else None)"

text \<open>
  \<open>headers\<close> gives \<open>get(name).and_then(to_str().ok())\<close>. The result is the public key and the event
  id; the id of the development fallback is zero.
\<close>

definition ZERO_ID :: hex where "ZERO_ID = replicate 64 CHR ''0''"

definition verify_bridge_auth_with_options ::
    "'u auth_env \<Rightarrow> nat \<Rightarrow> (string \<Rightarrow> string option) \<Rightarrow> string \<Rightarrow> string \<Rightarrow> bytes option \<Rightarrow> bool \<Rightarrow> bool \<Rightarrow>
     (hex \<times> hex, api_error) rust_result" where
  "verify_bridge_auth_with_options X now headers method url body require_auth_token require_payload =
     (case (case headers ''authorization'' of None \<Rightarrow> None | Some s \<Rightarrow> strip_prefix ''Nostr '' s) of
        Some auth_str \<Rightarrow>
         (case ax_base64_decode X auth_str of
            None \<Rightarrow> Inl (UNAUTHORIZED, ''invalid base64 in Nostr auth'')
          | Some bytes \<Rightarrow>
           (case string_from_utf8 bytes of
              None \<Rightarrow> Inl (UNAUTHORIZED, ''invalid UTF-8 in Nostr auth'')
            | Some event_json \<Rightarrow>
             (case ax_parse_event X event_json of
                Inl _ \<Rightarrow> Inl (UNAUTHORIZED, ''invalid NIP-98 event JSON'')
              | Inr event \<Rightarrow>
                  if require_payload \<and> \<not> list_ex (\<lambda>tag. tag_kind tag = ''payload'') (ev_tags event)
                  then Inl (UNAUTHORIZED, ''NIP-98: missing payload tag'')
                  else (case verify_nip98_event X now event_json url method body of
                      Inl e \<Rightarrow> Inl (UNAUTHORIZED, ''NIP-98: '' @ AuthError_text X e)
                    | Inr pubkey \<Rightarrow> Inr (pubkey, ev_id event)))))
      | None \<Rightarrow>
          if \<not> require_auth_token
          then (case headers ''x-pubkey'' of
              Some hex_val \<Rightarrow>
                (case ax_pubkey_from_hex X hex_val of
                   None \<Rightarrow> Inl (UNAUTHORIZED, ''invalid X-Pubkey hex'')
                 | Some pubkey \<Rightarrow> Inr (pubkey, ZERO_ID))
            | None \<Rightarrow> Inl (UNAUTHORIZED, ''missing Nostr auth''))
          else Inl (UNAUTHORIZED, ''missing Nostr auth''))"

definition verify_bridge_auth ::
    "'u auth_env \<Rightarrow> nat \<Rightarrow> (string \<Rightarrow> string option) \<Rightarrow> string \<Rightarrow> string \<Rightarrow> bytes option \<Rightarrow> bool \<Rightarrow>
     (hex \<times> hex, api_error) rust_result" where
  "verify_bridge_auth X now headers method url body require_auth_token =
     verify_bridge_auth_with_options X now headers method url body require_auth_token False"

definition nip98_expected_url :: "string \<Rightarrow> TenantContext \<Rightarrow> string \<Rightarrow> string" where
  "nip98_expected_url config_relay_url tenant path =
     (let scheme = (if starts_with (trim_start_bytes config_relay_url) ''wss://'' then ''https'' else ''http'')
      in scheme @ ''://'' @ tc_host tenant @ path)"

definition nip42_expected_relay_url :: "string \<Rightarrow> TenantContext \<Rightarrow> string" where
  "nip42_expected_relay_url config_relay_url tenant =
     (let scheme = (if starts_with (trim_start_bytes config_relay_url) ''wss://'' then ''wss'' else ''ws'')
      in scheme @ ''://'' @ tc_host tenant)"

subsection \<open>Scopes are canonical\<close>

text \<open>A scope is canonical when no known scope is spelled as an unknown one.\<close>

definition canonical_scope :: "Scope \<Rightarrow> bool" where
  "canonical_scope s \<longleftrightarrow> (case s of Unknown t \<Rightarrow> t \<notin> scope_as_str ` set all_known | _ \<Rightarrow> True)"

lemma scope_known: "s \<in> set all_known \<Longrightarrow> scope_from_str (scope_as_str s) = s"
  by (auto simp: all_known_def scope_from_str_def)

lemma scope_all: "s \<in> set all_known \<or> (\<exists>t. s = Unknown t)"
  by (cases s) (simp_all add: all_known_def)

lemma scope_unknown: "t \<notin> scope_as_str ` set all_known \<Longrightarrow> scope_from_str t = Unknown t"
  by (simp add: all_known_def scope_from_str_def)

lemma scope_text [simp]: "scope_as_str (scope_from_str t) = t"
  by (cases "t \<in> scope_as_str ` set all_known") (auto simp: scope_known scope_unknown)

lemma canonical_known: "s \<in> set all_known \<Longrightarrow> canonical_scope s"
  by (auto simp: all_known_def canonical_scope_def)

lemma canonical_from_str: "canonical_scope (scope_from_str t)"
proof (cases "t \<in> scope_as_str ` set all_known")
  case True
  then show ?thesis by (auto simp: scope_known canonical_known)
qed (simp add: scope_unknown canonical_scope_def)

lemma canonical_roundtrip: "canonical_scope s \<longleftrightarrow> scope_from_str (scope_as_str s) = s"
  using scope_all [of s] canonical_from_str [of "scope_as_str s"]
  by (auto simp: scope_known canonical_known canonical_scope_def scope_unknown)

text \<open>
  C38. Scopes read from text are canonical, reading and writing are inverse on them, and a scope is
  granted exactly when its text was listed: no spelling of a known scope is lost in \<open>Unknown\<close>.
\<close>

theorem scopes_canonical:
  "list_all canonical_scope (parse_scopes raw) \<and>
   map scope_as_str (parse_scopes raw) = raw \<and>
   (canonical_scope s \<longleftrightarrow> parse_scopes [scope_as_str s] = [s]) \<and>
   (canonical_scope s \<longrightarrow> (require_scope (parse_scopes raw) s = Inr () \<longleftrightarrow> scope_as_str s \<in> set raw))"
proof -
  have "s \<in> scope_from_str ` set raw \<longleftrightarrow> scope_as_str s \<in> set raw" if "canonical_scope s"
    using that by (metis canonical_roundtrip image_iff scope_text)
  then show ?thesis
    by (simp add: parse_scopes_def list_all_iff canonical_from_str canonical_roundtrip require_scope_def o_def)
qed

theorem scopes_canonical_witness:
  "require_scope (parse_scopes [''files:read'', ''x'']) FilesRead = Inr () \<and>
   require_scope (parse_scopes [''files:read'', ''x'']) AdminUsers \<noteq> Inr ()"
proof -
  have "canonical_scope FilesRead" "canonical_scope AdminUsers" by (simp_all add: canonical_scope_def)
  then show ?thesis
    using scopes_canonical [of "[''files:read'', ''x'']" FilesRead] scopes_canonical [of "[''files:read'', ''x'']" AdminUsers]
    by simp
qed

subsection \<open>Acceptance\<close>

lemma verify_event_ok: "verify_event X event = Inr u \<longleftrightarrow> ax_verify_id X event \<and> ax_verify_signature X event"
  by (simp add: verify_event_def)

definition fresh_at :: "nat \<Rightarrow> nostr_event \<Rightarrow> bool" where
  "fresh_at now event \<longleftrightarrow> ev_created_at event \<le> now + 60 \<and> now \<le> ev_created_at event + 60"

lemma fresh_iff: "\<not> abs_diff now (ev_created_at event) > TIMESTAMP_TOLERANCE_SECS \<longleftrightarrow> fresh_at now event"
  by (auto simp: abs_diff_def TIMESTAMP_TOLERANCE_SECS_def fresh_at_def)

text \<open>What a NIP-98 event must satisfy, without the order of the checks.\<close>

definition nip98_valid ::
    "'u auth_env \<Rightarrow> nat \<Rightarrow> nostr_event \<Rightarrow> string \<Rightarrow> string \<Rightarrow> bytes option \<Rightarrow> bool" where
  "nip98_valid X now event url method body \<longleftrightarrow>
     ev_kind event = 27235 \<and> ax_verify_id X event \<and> ax_verify_signature X event \<and> fresh_at now event \<and>
     map_option (normalize_url X) (find_content event ''u'') = Some (normalize_url X url) \<and>
     map_option to_ascii_lowercase (find_content event ''method'') = Some (to_ascii_lowercase method) \<and>
     (\<forall>h b. find_content event ''payload'' = Some h \<and> body = Some b \<longrightarrow> h = hex_write (ax_sha256 X b))"

lemma nip98_exact:
  "verify_nip98_event X now event_json url method body = Inr pubkey \<longleftrightarrow>
   (\<exists>event. ax_parse_event X event_json = Inr event \<and> nip98_valid X now event url method body \<and>
      pubkey = ev_pubkey event)"
proof (cases "ax_parse_event X event_json")
  case (Inr event)
  show ?thesis
    unfolding verify_nip98_event_def nip98_valid_def Let_def fresh_iff [symmetric]
    by (simp add: Inr verify_event_def eq_ignore_ascii_case_def split: option.split) auto
qed (simp add: verify_nip98_event_def)

text \<open>
  NIP-98 verification accepts exactly the valid events, and answers with their author.
\<close>

theorem nip98_accepts_exactly:
  "verify_nip98_event X now event_json url method body = Inr pubkey \<longleftrightarrow>
   (\<exists>event. ax_parse_event X event_json = Inr event \<and> nip98_valid X now event url method body \<and>
      pubkey = ev_pubkey event)"
  by (rule nip98_exact)

text \<open>
  NIP-42 authentication yields a context exactly for an authentic, fresh authentication event that
  answers the challenge of this connection for this relay; the context belongs to the signer and
  holds every known scope and no channel restriction.
\<close>

theorem nip42_accepts_exactly:
  "verify_auth_event X panicked now event challenge relay_url = Inr ctx \<longleftrightarrow>
   \<not> panicked \<and> ev_kind event = 22242 \<and> ax_verify_id X event \<and> ax_verify_signature X event \<and>
   find_content event ''challenge'' = Some challenge \<and>
   map_option (normalize_relay_url X) (find_content event ''relay'') = Some (normalize_relay_url X relay_url) \<and>
   fresh_at now event \<and>
   ctx = \<lparr>ac_pubkey = ev_pubkey event, ac_scopes = all_known, ac_channel_ids = None,
          ac_auth_method = Nip42, ac_agent_owner_pubkey = None\<rparr>"
  unfolding verify_auth_event_def verify_nip42_event_def Let_def fresh_iff [symmetric]
  by (simp add: verify_event_def split: option.split) auto

text \<open>
  Reading and writing need their own scope and membership of the channel in the community of the
  request; a checker error is passed on.
\<close>

theorem access_needs_scope_and_membership:
  "(check_read_access checker ctx pubkey ch scopes = Inr () \<longleftrightarrow>
      MessagesRead \<in> set scopes \<and> (\<exists>ids. checker ctx pubkey = Inr ids \<and> ch \<in> ids)) \<and>
   (check_write_access checker ctx pubkey ch scopes = Inr () \<longleftrightarrow>
      MessagesWrite \<in> set scopes \<and> (\<exists>ids. checker ctx pubkey = Inr ids \<and> ch \<in> ids))"
  by (auto simp: check_read_access_def check_write_access_def require_scope_def can_access_def split: sum.split)

lemma bridge_cases:
  assumes "verify_bridge_auth_with_options X now headers method url body require_auth_token require_payload = Inr (pubkey, eid)"
  obtains (signed) auth_str bytes event_json event where
      "headers ''authorization'' = Some (''Nostr '' @ auth_str)" "ax_base64_decode X auth_str = Some bytes"
      "string_from_utf8 bytes = Some event_json" "ax_parse_event X event_json = Inr event"
      "nip98_valid X now event url method body" "pubkey = ev_pubkey event" "eid = ev_id event"
      "require_payload \<Longrightarrow> \<exists>t \<in> set (ev_tags event). tag_kind t = ''payload''"
  | (dev) "\<not> require_auth_token" "eid = ZERO_ID"
proof (cases "case headers ''authorization'' of None \<Rightarrow> None | Some s \<Rightarrow> strip_prefix ''Nostr '' s")
  case None
  then show ?thesis using assms that(2)
    by (simp add: verify_bridge_auth_with_options_def split: if_splits option.splits)
next
  case (Some auth_str)
  then have h: "headers ''authorization'' = Some (''Nostr '' @ auth_str)"
    by (auto simp: strip_prefix_def starts_with_append split: option.splits if_splits)
  from assms Some obtain bytes event_json event where
    d: "ax_base64_decode X auth_str = Some bytes" "string_from_utf8 bytes = Some event_json"
       "ax_parse_event X event_json = Inr event"
    by (auto simp: verify_bridge_auth_with_options_def split: option.splits sum.splits)
  have v: "verify_nip98_event X now event_json url method body = Inr pubkey" "eid = ev_id event"
    "require_payload \<Longrightarrow> list_ex (\<lambda>t. tag_kind t = ''payload'') (ev_tags event)"
    using assms Some d
    by (auto simp: verify_bridge_auth_with_options_def split: if_splits sum.splits)
  from v(1) d(3) have "nip98_valid X now event url method body" "pubkey = ev_pubkey event"
    using nip98_exact [of X now event_json url "method" body pubkey] by auto
  then show ?thesis using that(1) [OF h d] v(2,3) by (auto simp: list_ex_iff)
qed

text \<open>
  Where a token is required, a request passes the bridge only with a valid signed event in its
  authorization header, and is attributed to the author of that event under the id of that event:
  the development header is not looked at.
\<close>

theorem bridge_needs_signed_event:
  assumes "verify_bridge_auth_with_options X now headers method url body True require_payload = Inr (pubkey, eid)"
  shows "\<exists>auth_str bytes event_json event.
     headers ''authorization'' = Some (''Nostr '' @ auth_str) \<and> ax_base64_decode X auth_str = Some bytes \<and>
     string_from_utf8 bytes = Some event_json \<and> ax_parse_event X event_json = Inr event \<and>
     nip98_valid X now event url method body \<and> pubkey = ev_pubkey event \<and> eid = ev_id event"
  using assms by (rule bridge_cases) auto

subsection \<open>A token is bound to its host and to its body\<close>

text \<open>
  What host binding takes from the URL type: a URL whose authority is a normalized host parses to a
  value with that authority, and the text of a URL shows its authority, whatever its path.
\<close>

definition urls_show_authority :: "'u auth_env \<Rightarrow> ('u \<Rightarrow> string) \<Rightarrow> (string \<Rightarrow> bool) \<Rightarrow> bool" where
  "urls_show_authority X authority host_ok \<longleftrightarrow>
     (\<forall>h. host_ok h \<longrightarrow> (\<forall>scheme \<in> {''http'', ''https''}. \<forall>path. path = [] \<or> hd path = CHR ''/'' \<longrightarrow>
        (\<exists>u. ax_url_parse X (scheme @ ''://'' @ h @ path) = Some u \<and> authority u = h))) \<and>
     (\<forall>u p v q. ax_url_text X (ax_set_path X u p) = ax_url_text X (ax_set_path X v q) \<longrightarrow> authority u = authority v)"

lemma normalize_url_host:
  assumes "urls_show_authority X authority host_ok" "host_ok (tc_host a)" "host_ok (tc_host b)"
    "path = [] \<or> hd path = CHR ''/''" "path' = [] \<or> hd path' = CHR ''/''"
    "normalize_url X (nip98_expected_url cfg a path) = normalize_url X (nip98_expected_url cfg' b path')"
  shows "tc_host a = tc_host b"
proof -
  have parses: "\<exists>u. ax_url_parse X (nip98_expected_url c t p) = Some u \<and> authority u = tc_host t"
    if "host_ok (tc_host t)" "p = [] \<or> hd p = CHR ''/''" for c t p
  proof -
    obtain scheme where "scheme \<in> {''http'', ''https''}" "nip98_expected_url c t p = scheme @ ''://'' @ tc_host t @ p"
      by (cases "starts_with (trim_start_bytes c) ''wss://''") (auto simp: nip98_expected_url_def)
    moreover have "\<forall>scheme \<in> {''http'', ''https''}. \<forall>path. path = [] \<or> hd path = CHR ''/'' \<longrightarrow>
        (\<exists>u. ax_url_parse X (scheme @ ''://'' @ tc_host t @ path) = Some u \<and> authority u = tc_host t)"
      using assms(1) that(1) unfolding urls_show_authority_def by blast
    ultimately show ?thesis using that(2) by metis
  qed
  obtain u v where uv: "ax_url_parse X (nip98_expected_url cfg a path) = Some u" "authority u = tc_host a"
    "ax_url_parse X (nip98_expected_url cfg' b path') = Some v" "authority v = tc_host b"
    using parses [OF assms(2,4)] parses [OF assms(3,5)] by metis
  then have "\<exists>p q. ax_url_text X (ax_set_path X u p) = ax_url_text X (ax_set_path X v q)"
    using assms(6) by (auto simp: normalize_url_def Let_def)
  then have "authority u = authority v" using assms(1) unfolding urls_show_authority_def by blast
  then show ?thesis using uv by simp
qed

text \<open>With an authorization header the development fallback is not reached, token required or not.\<close>

lemma bridge_with_header:
  assumes "required \<or> (\<exists>s. headers ''authorization'' = Some (''Nostr '' @ s))"
  shows "verify_bridge_auth X now headers method url body required =
     verify_bridge_auth X now headers method url body True"
  using assms
  by (auto simp: verify_bridge_auth_def verify_bridge_auth_with_options_def strip_prefix_def starts_with_def)

text \<open>
  C20. A token is bound to the host of its tenant: where a token is required, or one is in the
  authorization header, the same request headers cannot pass the bridge at two tenants with
  different hosts, at whatever times, for whatever methods, paths and bodies. (The hosts are ones
  the URL parser shows in the authority, the paths empty or begun by a slash. Where no token is
  required and none is given, the \<open>X-Pubkey\<close> header passes at every host.)
\<close>

theorem token_bound_to_host:
  assumes "urls_show_authority X authority host_ok" "host_ok (tc_host a)" "host_ok (tc_host b)"
    "path = [] \<or> hd path = CHR ''/''" "path' = [] \<or> hd path' = CHR ''/''"
    "verify_bridge_auth X now headers method (nip98_expected_url cfg a path) body required = Inr r"
    "verify_bridge_auth X now' headers method' (nip98_expected_url cfg' b path') body' required' = Inr r'"
    "(required \<and> required') \<or> (\<exists>s. headers ''authorization'' = Some (''Nostr '' @ s))"
  shows "tc_host a = tc_host b"
proof (rule normalize_url_host [OF assms(1-5)])
  obtain k e where r: "r = (k, e)" by (cases r)
  obtain k' e' where r': "r' = (k', e')" by (cases r')
  from assms(6,8) have "verify_bridge_auth X now headers method (nip98_expected_url cfg a path) body True = Inr r"
    using bridge_with_header [of required headers] by metis
  then obtain s1 b1 j1 ev where 1: "headers ''authorization'' = Some (''Nostr '' @ s1)"
    "ax_base64_decode X s1 = Some b1" "string_from_utf8 b1 = Some j1" "ax_parse_event X j1 = Inr ev"
    "nip98_valid X now ev (nip98_expected_url cfg a path) method body"
    unfolding verify_bridge_auth_def r by (rule bridge_cases) auto
  from assms(7,8) have "verify_bridge_auth X now' headers method' (nip98_expected_url cfg' b path') body' True = Inr r'"
    using bridge_with_header [of required' headers] by metis
  then obtain s2 b2 j2 ev' where 2: "headers ''authorization'' = Some (''Nostr '' @ s2)"
    "ax_base64_decode X s2 = Some b2" "string_from_utf8 b2 = Some j2" "ax_parse_event X j2 = Inr ev'"
    "nip98_valid X now' ev' (nip98_expected_url cfg' b path') method' body'"
    unfolding verify_bridge_auth_def r' by (rule bridge_cases) auto
  from 1 2 have "ev' = ev" by simp
  with 1(5) 2(5) show "normalize_url X (nip98_expected_url cfg a path) = normalize_url X (nip98_expected_url cfg' b path')"
    by (auto simp: nip98_valid_def)
qed

text \<open>A small environment: URLs are their own texts, and one signed event is known.\<close>

definition sample_auth_event :: "string \<Rightarrow> nostr_tag list \<Rightarrow> nostr_event" where
  "sample_auth_event url tags =
     \<lparr>ev_id = ''e1'', ev_pubkey = ''p1'', ev_created_at = 100, ev_kind = 27235,
      ev_tags = mk_tag ''u'' [url] # mk_tag ''method'' [''POST''] # tags, ev_content = []\<rparr>"

definition sample_env :: "nostr_event \<Rightarrow> string auth_env" where
  "sample_env ev =
     \<lparr>ax_parse_event = (\<lambda>_. Inr ev), ax_event_id = ev_id, ax_verify_id = (\<lambda>_. True),
      ax_verify_signature = (\<lambda>_. True), ax_sha256 = (\<lambda>b. b), ax_base64_decode = (\<lambda>s. Some (bytes_of s)),
      ax_pubkey_from_hex = Some, ax_url_parse = Some, ax_host_str = (\<lambda>_. None), ax_set_host = (\<lambda>u _. u),
      ax_path = (\<lambda>_. []), ax_set_path = (\<lambda>u _. u), ax_url_text = (\<lambda>u. u), ax_to_lowercase = to_ascii_lowercase,
      ax_debug = (\<lambda>s. s)\<rparr>"

definition sample_headers :: "string \<Rightarrow> string option" where
  "sample_headers name = (if name = ''authorization'' then Some ''Nostr e'' else None)"

definition sample_authority :: "string \<Rightarrow> string" where
  "sample_authority u = (case split_on CHR ''/'' u of a # b # h # _ \<Rightarrow> h | _ \<Rightarrow> [])"

lemma sample_urls: "urls_show_authority (sample_env ev) sample_authority (\<lambda>h. CHR ''/'' \<notin> set h)"
proof -
  have "sample_authority (scheme @ CHR '':'' # CHR ''/'' # CHR ''/'' # h @ path) = h"
    if "CHR ''/'' \<notin> set h" "scheme = ''http'' \<or> scheme = ''https''" "path = [] \<or> hd path = CHR ''/''" for h scheme path
    using that by (cases path) (auto simp: sample_authority_def split_on_plain split_on_append)
  then show ?thesis by (simp add: urls_show_authority_def sample_env_def)
qed

lemma sample_utf8: "string_from_utf8 [101] = Some ''e''"
  by code_simp

lemma sample_accepts:
  assumes "fresh_at now ev" "ev = sample_auth_event url tags"
    "\<And>h b. find_content ev ''payload'' = Some h \<Longrightarrow> body = Some b \<Longrightarrow> h = hex_write b"
    "rp \<Longrightarrow> list_ex (\<lambda>t. tag_kind t = ''payload'') tags"
  shows "verify_bridge_auth_with_options (sample_env ev) now sample_headers ''POST'' url body True rp = Inr (''p1'', ''e1'')"
proof -
  have "verify_nip98_event (sample_env ev) now ''e'' url ''POST'' body = Inr ''p1''"
    using assms by (auto simp: nip98_exact nip98_valid_def sample_env_def sample_auth_event_def find_content_def mk_tag_def)
  then show ?thesis using assms(2,4) sample_utf8
    by (auto simp: verify_bridge_auth_with_options_def sample_headers_def strip_prefix_def starts_with_def sample_env_def
        bytes_of_def sample_auth_event_def)
qed

theorem token_bound_to_host_witness:
  "tc_host (resolved ''c1'' ''a.b'') = tc_host (resolved ''c2'' ''a.b'') \<and>
   verify_bridge_auth (sample_env (sample_auth_event ''https://a.b/events'' [])) 100 sample_headers ''POST''
     (nip98_expected_url ''wss://a.b'' (resolved ''c1'' ''a.b'') ''/events'') None True = Inr (''p1'', ''e1'')"
proof -
  let ?ev = "sample_auth_event ''https://a.b/events'' []"
  have no: "leading_ws ''wss://a.b'' = 0"
    by (rule leading_ws_none) (simp_all add: ws_first_def whitespace_encodings_def ascii_whitespace_def other_whitespace_def)
  have url: "nip98_expected_url ''wss://a.b'' (resolved c ''a.b'') ''/events'' = ''https://a.b/events''" for c
    by (simp add: nip98_expected_url_def resolved_def trim_start_bytes.simps [of "''wss://a.b''"] no starts_with_def)
  have acc: "verify_bridge_auth (sample_env ?ev) now sample_headers ''POST'' ''https://a.b/events'' None True = Inr (''p1'', ''e1'')"
    if "now = 100 \<or> now = 101" for now
    unfolding verify_bridge_auth_def using that
    by (intro sample_accepts) (auto simp: fresh_at_def sample_auth_event_def)
  have "tc_host (resolved ''c1'' ''a.b'') = tc_host (resolved ''c2'' ''a.b'')"
  proof (rule token_bound_to_host [OF sample_urls [of ?ev]])
    show "verify_bridge_auth (sample_env ?ev) 100 sample_headers ''POST''
        (nip98_expected_url ''wss://a.b'' (resolved ''c1'' ''a.b'') ''/events'') None True = Inr (''p1'', ''e1'')"
      unfolding url by (rule acc) simp
    show "verify_bridge_auth (sample_env ?ev) 101 sample_headers ''POST''
        (nip98_expected_url ''wss://a.b'' (resolved ''c2'' ''a.b'') ''/events'') None True = Inr (''p1'', ''e1'')"
      unfolding url by (rule acc) simp
    show "(True \<and> True) \<or> (\<exists>s. sample_headers ''authorization'' = Some (''Nostr '' @ s))" by simp
  qed (simp_all add: resolved_def)
  then show ?thesis using acc [of 100] unfolding url by blast
qed

theorem bridge_needs_signed_event_witness:
  "\<exists>event. ax_parse_event (sample_env (sample_auth_event ''https://a.b/events'' [])) ''e'' = Inr event \<and>
     nip98_valid (sample_env (sample_auth_event ''https://a.b/events'' [])) 100 event ''https://a.b/events'' ''POST'' None \<and>
     ev_pubkey event = ''p1''"
proof -
  let ?ev = "sample_auth_event ''https://a.b/events'' []"
  have "verify_bridge_auth_with_options (sample_env ?ev) 100 sample_headers ''POST'' ''https://a.b/events'' None True False =
      Inr (''p1'', ''e1'')"
    by (rule sample_accepts) (auto simp: fresh_at_def sample_auth_event_def)
  from bridge_needs_signed_event [OF this] show ?thesis by (auto simp: sample_env_def)
qed

text \<open>
  The requirement of a payload tag does not bind the body: the bridge asks for a tag of that kind,
  the verification compares a hash only when the first such tag has a value. A signed event whose
  payload tag is bare is accepted with every body.
\<close>

theorem bare_payload_tag_binds_nothing:
  assumes "nip98_valid X now event url method None" "ax_parse_event X event_json = Inr event"
    "headers ''authorization'' = Some (''Nostr '' @ auth_str)" "ax_base64_decode X auth_str = Some bytes"
    "string_from_utf8 bytes = Some event_json"
    "find (\<lambda>t. tag_kind t = ''payload'') (ev_tags event) = Some (mk_tag ''payload'' [])"
  shows "verify_bridge_auth_with_options X now headers method url (Some body) True True = Inr (ev_pubkey event, ev_id event)"
proof -
  have none: "find_content event ''payload'' = None" using assms(6) by (simp add: find_content_def mk_tag_def)
  then have "verify_nip98_event X now event_json url method (Some body) = Inr (ev_pubkey event)"
    using assms(1,2) by (simp add: nip98_exact nip98_valid_def)
  moreover have "list_ex (\<lambda>t. tag_kind t = ''payload'') (ev_tags event)"
    using assms(6) by (auto simp: list_ex_iff find_Some_iff)
  ultimately show ?thesis using assms(2-5)
    by (simp add: verify_bridge_auth_with_options_def strip_prefix_def starts_with_def)
qed

theorem bare_payload_tag_binds_nothing_witness:
  "verify_bridge_auth_with_options (sample_env (sample_auth_event ''https://a.b/op'' [mk_tag ''payload'' []])) 100
     sample_headers ''POST'' ''https://a.b/op'' (Some [1, 2, 3]) True True = Inr (''p1'', ''e1'')"
proof -
  let ?ev = "sample_auth_event ''https://a.b/op'' [mk_tag ''payload'' []]"
  have "nip98_valid (sample_env ?ev) 100 ?ev ''https://a.b/op'' ''POST'' None"
    by (simp add: nip98_valid_def fresh_at_def sample_auth_event_def sample_env_def find_content_def mk_tag_def)
  from bare_payload_tag_binds_nothing [OF this, of "''e''" sample_headers "''e''" "[101]" "[1, 2, 3]"]
  show ?thesis
    by (simp add: sample_env_def sample_headers_def bytes_of_def sample_utf8 sample_auth_event_def mk_tag_def)
qed

end
