(* ===== verification/Auth_Store.thy ===== *)
theory Auth_Store
  imports Auth_Events
begin

text \<open>
  The shared seen-set of NIP-98 events and the shared rate limits: \<open>crates/buzz-auth/src/nip98_replay.rs\<close>,
  \<open>crates/buzz-auth/src/rate_limit.rs\<close>, their Redis implementations
  \<open>crates/buzz-pubsub/src/nip98_replay.rs\<close> and \<open>crates/buzz-pubsub/src/rate_limiter.rs\<close>, and
  their users \<open>crates/buzz-relay/src/admission.rs\<close>, \<open>api/bridge.rs\<close>, \<open>api/operator.rs\<close> and
  \<open>connection.rs\<close>. Redis is a record of commands on its state at a time in milliseconds; what goes
  wrong around a command is an argument, and a command that failed may or may not have run.
\<close>

subsection \<open>Redis\<close>

record 's store_cmds =
  st_set_nx_ex :: "'s \<Rightarrow> nat \<Rightarrow> string \<Rightarrow> string \<Rightarrow> nat \<Rightarrow> 's \<times> string option"
  st_incr :: "'s \<Rightarrow> nat \<Rightarrow> string \<Rightarrow> 's \<times> nat"
  st_expire :: "'s \<Rightarrow> nat \<Rightarrow> string \<Rightarrow> int \<Rightarrow> 's"
  st_ttl :: "'s \<Rightarrow> nat \<Rightarrow> string \<Rightarrow> int"

datatype cmd_fate = Done | Broken string bool

record store_fate =
  sf_pool :: "string option"
  sf_main :: cmd_fate
  sf_repair :: cmd_fate

definition after_cmd :: "cmd_fate \<Rightarrow> 's \<Rightarrow> 's \<Rightarrow> 's" where
  "after_cmd f s s' = (case f of Done \<Rightarrow> s' | Broken _ applied \<Rightarrow> if applied then s' else s)"

subsection \<open>Replay markers\<close>

definition DEFAULT_REPLAY_TTL_SECS :: nat where "DEFAULT_REPLAY_TTL_SECS = 120"
definition MAX_REPLAY_TTL_SECS :: nat where "MAX_REPLAY_TTL_SECS = 3600"

definition nip98_replay_key_for_scope :: "string \<Rightarrow> hex \<Rightarrow> string" where
  "nip98_replay_key_for_scope scope event_id = ''buzz:'' @ scope @ '':nip98:'' @ event_id"

definition nip98_replay_key :: "TenantContext \<Rightarrow> hex \<Rightarrow> string" where
  "nip98_replay_key ctx event_id = nip98_replay_key_for_scope (tc_community ctx) event_id"

definition clamp :: "nat \<Rightarrow> nat \<Rightarrow> nat \<Rightarrow> nat" where
  "clamp x lo hi = (if x < lo then lo else if x > hi then hi else x)"

definition try_mark_in_scope ::
    "'s store_cmds \<Rightarrow> store_fate \<Rightarrow> nat \<Rightarrow> 's \<Rightarrow> string \<Rightarrow> hex \<Rightarrow> nat \<Rightarrow> 's \<times> (bool, AuthError) rust_result" where
  "try_mark_in_scope R fd now s scope event_id ttl_secs =
     (let ttl = clamp ttl_secs DEFAULT_REPLAY_TTL_SECS MAX_REPLAY_TTL_SECS in
      case sf_pool fd of
        Some e \<Rightarrow> (s, Inl (Internal (''Redis pool: '' @ e)))
      | None \<Rightarrow>
          let key = nip98_replay_key_for_scope scope event_id;
              res = st_set_nx_ex R s now key ''1'' ttl
          in (case sf_main fd of
                Broken e _ \<Rightarrow> (after_cmd (sf_main fd) s (fst res), Inl (Internal (''Redis SET NX EX: '' @ e)))
              | Done \<Rightarrow>
                  (fst res,
                   case snd res of
                     None \<Rightarrow> Inr False
                   | Some reply \<Rightarrow>
                       if reply = ''OK'' then Inr True
                       else Inl (Internal (''unexpected SET NX EX reply: '' @ reply)))))"

definition try_mark ::
    "'s store_cmds \<Rightarrow> store_fate \<Rightarrow> nat \<Rightarrow> 's \<Rightarrow> TenantContext \<Rightarrow> hex \<Rightarrow> nat \<Rightarrow> 's \<times> (bool, AuthError) rust_result" where
  "try_mark R fd now s ctx event_id ttl_secs = try_mark_in_scope R fd now s (tc_community ctx) event_id ttl_secs"

text \<open>The reply of the two replay checks, which differ in the scope they mark.\<close>

definition replay_answer :: "(bool, AuthError) rust_result \<Rightarrow> (unit, api_error) rust_result" where
  "replay_answer r =
     (case r of
        Inr True \<Rightarrow> Inr ()
      | Inr False \<Rightarrow> Inl (UNAUTHORIZED, ''NIP-98: replay detected'')
      | Inl _ \<Rightarrow> Inl (UNAUTHORIZED, ''NIP-98: replay check unavailable''))"

definition check_nip98_replay ::
    "'s store_cmds \<Rightarrow> store_fate \<Rightarrow> nat \<Rightarrow> 's \<Rightarrow> TenantContext \<Rightarrow> hex \<Rightarrow> 's \<times> (unit, api_error) rust_result" where
  "check_nip98_replay R fd now s tenant event_id =
     (if event_id = ZERO_ID then (s, Inr ())
      else let r = try_mark R fd now s tenant event_id DEFAULT_REPLAY_TTL_SECS
           in (fst r, replay_answer (snd r)))"

definition OPERATOR_REPLAY_SCOPE :: string where "OPERATOR_REPLAY_SCOPE = ''operator-management''"

definition check_operator_replay ::
    "'s store_cmds \<Rightarrow> store_fate \<Rightarrow> nat \<Rightarrow> 's \<Rightarrow> hex \<Rightarrow> 's \<times> (unit, api_error) rust_result" where
  "check_operator_replay R fd now s event_id =
     (let r = try_mark_in_scope R fd now s OPERATOR_REPLAY_SCOPE event_id DEFAULT_REPLAY_TTL_SECS
      in (fst r, replay_answer (snd r)))"

subsection \<open>The operator endpoints\<close>

record operator_config =
  oc_api_origin :: "string option"
  oc_pubkeys :: "hex list"

text \<open>
  \<open>verified\<close> and \<open>marked\<close> are the times, in milliseconds, at which the event is verified and the
  replay check reaches Redis.
\<close>

definition authorize_operator_request ::
    "'u auth_env \<Rightarrow> 's store_cmds \<Rightarrow> operator_config \<Rightarrow> store_fate \<Rightarrow> nat \<Rightarrow> nat \<Rightarrow> 's \<Rightarrow> (string \<Rightarrow> string option) \<Rightarrow>
     string \<Rightarrow> string \<Rightarrow> string option \<Rightarrow> bytes option \<Rightarrow> 's \<times> (hex, api_error) rust_result" where
  "authorize_operator_request X R cfg fd verified marked s headers method path raw_query body =
     (case oc_api_origin cfg of
        None \<Rightarrow> (s, Inl (INTERNAL_SERVER_ERROR, ''internal server error''))
      | Some origin \<Rightarrow>
          let path_with_query = (case raw_query of
                 Some q \<Rightarrow> if q \<noteq> [] then path @ ''?'' @ q else path
               | None \<Rightarrow> path);
              url = origin @ path_with_query
          in (case verify_bridge_auth_with_options X (verified div 1000) headers method url body True (body \<noteq> None) of
                Inl e \<Rightarrow> (s, Inl e)
              | Inr (pubkey, event_id) \<Rightarrow>
                  let r = check_operator_replay R fd marked s event_id
                  in (fst r,
                      case snd r of
                        Inl e \<Rightarrow> Inl e
                      | Inr _ \<Rightarrow>
                          if \<not> list_ex (\<lambda>pk. pk = pubkey) (oc_pubkeys cfg)
                          then Inl (FORBIDDEN, ''actor not authorized: not a relay operator'')
                          else Inr pubkey)))"

subsection \<open>Rate limits\<close>

record RateLimitResult =
  rl_allowed :: bool
  rl_current :: nat
  rl_limit :: nat
  rl_reset_in_secs :: nat

definition result_allowed :: "nat \<Rightarrow> nat \<Rightarrow> nat \<Rightarrow> RateLimitResult" where
  "result_allowed current limit reset =
     \<lparr>rl_allowed = True, rl_current = current, rl_limit = limit, rl_reset_in_secs = reset\<rparr>"

definition result_denied :: "nat \<Rightarrow> nat \<Rightarrow> nat \<Rightarrow> RateLimitResult" where
  "result_denied current limit reset =
     \<lparr>rl_allowed = False, rl_current = current, rl_limit = limit, rl_reset_in_secs = reset\<rparr>"

datatype LimitType = Messages | ApiCalls | WsEvents | IpConnections

fun key_suffix :: "LimitType \<Rightarrow> string" where
  "key_suffix Messages = ''msg''"
| "key_suffix ApiCalls = ''api''"
| "key_suffix WsEvents = ''ws''"
| "key_suffix IpConnections = ''conn''"

record RateLimitConfig =
  human_messages_per_min :: nat
  human_api_calls_per_min :: nat
  human_ws_events_per_sec :: nat
  agent_standard_messages_per_min :: nat
  agent_standard_api_calls_per_min :: nat
  agent_elevated_messages_per_min :: nat
  agent_platform_messages_per_min :: nat

definition RateLimitConfig_default :: RateLimitConfig where
  "RateLimitConfig_default =
     \<lparr>human_messages_per_min = 60, human_api_calls_per_min = 300, human_ws_events_per_sec = 10,
      agent_standard_messages_per_min = 120, agent_standard_api_calls_per_min = 600,
      agent_elevated_messages_per_min = 300, agent_platform_messages_per_min = 600\<rparr>"

definition rate_limit_key :: "TenantContext \<Rightarrow> hex \<Rightarrow> LimitType \<Rightarrow> string" where
  "rate_limit_key ctx pubkey limit_type =
     ''buzz:'' @ tc_community ctx @ '':ratelimit:'' @ pubkey @ '':'' @ key_suffix limit_type"

definition ip_rate_limit_key :: "string \<Rightarrow> string" where
  "ip_rate_limit_key ip = ''buzz:ratelimit:ip:'' @ ip @ '':conn''"

definition RATE_LIMIT_SCRIPT :: "'s store_cmds \<Rightarrow> 's \<Rightarrow> nat \<Rightarrow> string \<Rightarrow> int \<Rightarrow> 's \<times> nat \<times> int" where
  "RATE_LIMIT_SCRIPT R s now key window =
     (let (s1, count) = st_incr R s now key;
          s2 = (if count = 1 then st_expire R s1 now key window else s1);
          ttl = st_ttl R s2 now key
      in (s2, count, ttl))"

text \<open>\<open>window_secs as i64\<close>.\<close>

definition as_i64 :: "nat \<Rightarrow> int" where
  "as_i64 n = (if n < 2 ^ 63 then int n else int n - 2 ^ 64)"

definition run_rate_limit ::
    "'s store_cmds \<Rightarrow> store_fate \<Rightarrow> nat \<Rightarrow> 's \<Rightarrow> string \<Rightarrow> nat \<Rightarrow> nat \<Rightarrow> 's \<times> (RateLimitResult, AuthError) rust_result" where
  "run_rate_limit R fd now s key window_secs limit =
     (case sf_pool fd of
        Some e \<Rightarrow> (s, Inl (Internal (''Redis pool: '' @ e)))
      | None \<Rightarrow>
          let res = RATE_LIMIT_SCRIPT R s now key (as_i64 window_secs);
              s1 = after_cmd (sf_main fd) s (fst res);
              count = fst (snd res); ttl = snd (snd res);
              answer = (\<lambda>reset. if count \<le> limit then result_allowed count limit reset
                                else result_denied count limit reset)
          in (case sf_main fd of
                Broken e _ \<Rightarrow> (s1, Inl (Internal (''Redis rate limit script: '' @ e)))
              | Done \<Rightarrow>
                  if ttl < 0
                  then let s2 = after_cmd (sf_repair fd) s1 (st_expire R s1 now key (as_i64 window_secs))
                       in (case sf_repair fd of
                             Broken e _ \<Rightarrow> (s2, Inl (Internal (''Redis EXPIRE repair: '' @ e)))
                           | Done \<Rightarrow> (s2, Inr (answer window_secs)))
                  else (s1, Inr (answer (nat (max ttl 0))))))"

definition check_and_increment ::
    "'s store_cmds \<Rightarrow> store_fate \<Rightarrow> nat \<Rightarrow> 's \<Rightarrow> TenantContext \<Rightarrow> hex \<Rightarrow> LimitType \<Rightarrow> nat \<Rightarrow> nat \<Rightarrow>
     's \<times> (RateLimitResult, AuthError) rust_result" where
  "check_and_increment R fd now s ctx pubkey limit_type window_secs limit =
     run_rate_limit R fd now s (rate_limit_key ctx pubkey limit_type) window_secs limit"

definition check_ip_connection ::
    "'s store_cmds \<Rightarrow> store_fate \<Rightarrow> nat \<Rightarrow> 's \<Rightarrow> string \<Rightarrow> nat \<Rightarrow> nat \<Rightarrow> 's \<times> (RateLimitResult, AuthError) rust_result" where
  "check_ip_connection R fd now s ip window_secs limit =
     run_rate_limit R fd now s (ip_rate_limit_key ip) window_secs limit"

subsection \<open>Admission\<close>

definition WS_BURST_WINDOW_SECS :: nat where "WS_BURST_WINDOW_SECS = 5"

datatype RequestAdmissionError = Exceeded nat | Unavailable

definition check_principal ::
    "'s store_cmds \<Rightarrow> store_fate \<Rightarrow> nat \<Rightarrow> 's \<Rightarrow> TenantContext \<Rightarrow> hex \<Rightarrow> LimitType \<Rightarrow> nat \<Rightarrow> nat \<Rightarrow>
     's \<times> (unit, RequestAdmissionError) rust_result" where
  "check_principal R fd now s tenant pubkey limit_type window_secs limit =
     (let r = check_and_increment R fd now s tenant pubkey limit_type window_secs limit
      in (fst r,
          case snd r of
            Inr result \<Rightarrow> if rl_allowed result then Inr () else Inl (Exceeded (rl_reset_in_secs result))
          | Inl _ \<Rightarrow> Inl Unavailable))"

definition ws_admission_budget :: "nat \<Rightarrow> nat \<times> nat" where
  "ws_admission_budget per_second_limit =
     (WS_BURST_WINDOW_SECS, min (per_second_limit * WS_BURST_WINDOW_SECS) (2 ^ 64 - 1))"

definition enforce_http_admission ::
    "'s store_cmds \<Rightarrow> store_fate \<Rightarrow> nat \<Rightarrow> 's \<Rightarrow> RateLimitConfig \<Rightarrow> TenantContext \<Rightarrow> hex \<Rightarrow>
     's \<times> (unit, api_error) rust_result" where
  "enforce_http_admission R fd now s limits tenant pubkey =
     (let r = check_principal R fd now s tenant pubkey ApiCalls 60 (human_api_calls_per_min limits)
      in (fst r,
          case snd r of
            Inr _ \<Rightarrow> Inr ()
          | Inl (Exceeded reset) \<Rightarrow>
              Inl (TOO_MANY_REQUESTS, ''rate-limited: quota exceeded; retry in '' @ show_nat reset @ ''s'')
          | Inl Unavailable \<Rightarrow> Inl (SERVICE_UNAVAILABLE, ''rate-limited: shared admission unavailable'')))"

datatype ClientMessage =
    ClientEvent nostr_event
  | Req string "nostr_filter list"
  | Close string
  | Count string "nostr_filter list"
  | Auth nostr_event

datatype AuthState = Pending string | Authenticated AuthContext | AuthFailed

datatype RelayMessage = Closed string string | Notice string

definition request_rejection_message :: "string option \<Rightarrow> string \<Rightarrow> RelayMessage" where
  "request_rejection_message sub_id reason =
     (case sub_id of Some sub \<Rightarrow> Closed sub reason | None \<Rightarrow> Notice reason)"

text \<open>The messages sent to the client are collected.\<close>

definition send_admission_result ::
    "(unit, RequestAdmissionError) rust_result \<Rightarrow> string option \<Rightarrow> RelayMessage list \<times> bool" where
  "send_admission_result result sub_id =
     (case result of
        Inr _ \<Rightarrow> ([], True)
      | Inl (Exceeded reset) \<Rightarrow>
          ([request_rejection_message sub_id (''rate-limited: quota exceeded; retry in '' @ show_nat reset @ ''s'')], False)
      | Inl Unavailable \<Rightarrow>
          ([request_rejection_message sub_id ''rate-limited: shared admission unavailable''], False))"

text \<open>The two checks reach Redis at their own times and with their own fates.\<close>

definition enforce_ws_admission ::
    "'s store_cmds \<Rightarrow> store_fate \<times> store_fate \<Rightarrow> nat \<times> nat \<Rightarrow> 's \<Rightarrow> RateLimitConfig \<Rightarrow> TenantContext \<Rightarrow>
     AuthState \<Rightarrow> ClientMessage \<Rightarrow> 's \<times> RelayMessage list \<times> bool" where
  "enforce_ws_admission R fds whens s limits tenant auth msg =
     (let is_event = (case msg of ClientEvent _ \<Rightarrow> True | _ \<Rightarrow> False) in
      if \<not> is_event \<and> \<not> (case msg of Req _ _ \<Rightarrow> True | Count _ _ \<Rightarrow> True | _ \<Rightarrow> False) then (s, [], True)
      else case auth of
        Authenticated ctx \<Rightarrow>
          let pubkey = ac_pubkey ctx; is_agent = (ac_agent_owner_pubkey ctx \<noteq> None);
              (ws_window_secs, ws_limit) = ws_admission_budget (human_ws_events_per_sec limits);
              ws = check_principal R (fst fds) (fst whens) s tenant pubkey WsEvents ws_window_secs ws_limit;
              sub_id = (case msg of Req sub _ \<Rightarrow> Some sub | _ \<Rightarrow> None);
              (sent, ok) = send_admission_result (snd ws) sub_id
          in if \<not> ok then (fst ws, sent, False)
             else if is_event
             then let message_limit = (if is_agent then agent_standard_messages_per_min limits
                                       else human_messages_per_min limits);
                      m = check_principal R (snd fds) (snd whens) (fst ws) tenant pubkey Messages 60 message_limit;
                      (sent2, ok2) = send_admission_result (snd m) None
                  in (fst m, sent @ sent2, ok2)
             else (fst ws, sent, True)
      | _ \<Rightarrow> (s, [], True))"

subsection \<open>What is relied on\<close>

text \<open>
  The documented behaviour of the commands on what is stored under a key. \<open>SET NX\<close> writes only
  where nothing is stored; \<open>INCR\<close> counts an absent key from zero and keeps the expiry of a present
  one, other keys are left alone; \<open>EXPIRE\<close> acts on a present key, and \<open>TTL\<close> gives minus two for an absent key, minus one for
  a key without expiry and otherwise the rest in seconds, rounded at most up.
\<close>

definition store_ok :: "'s store_cmds \<Rightarrow> ('s \<Rightarrow> string \<Rightarrow> (string \<times> nat option) option) \<Rightarrow> bool" where
  "store_ok R V \<longleftrightarrow>
     (\<forall>s now k v ttl. live now (V s k) \<noteq> None \<longrightarrow>
        snd (st_set_nx_ex R s now k v ttl) = None \<and> V (fst (st_set_nx_ex R s now k v ttl)) = V s) \<and>
     (\<forall>s now k v ttl. live now (V s k) = None \<longrightarrow> 0 < ttl \<longrightarrow>
        snd (st_set_nx_ex R s now k v ttl) = Some ''OK'' \<and>
        V (fst (st_set_nx_ex R s now k v ttl)) = (V s)(k \<mapsto> (v, Some (now + 1000 * ttl)))) \<and>
     (\<forall>s now k. live now (V s k) = None \<longrightarrow>
        snd (st_incr R s now k) = 1 \<and> V (fst (st_incr R s now k)) = (V s)(k \<mapsto> (show_nat 1, None))) \<and>
     (\<forall>s now k n. live now (V s k) = Some (show_nat n) \<longrightarrow>
        snd (st_incr R s now k) = n + 1 \<and>
        V (fst (st_incr R s now k)) = (V s)(k \<mapsto> (show_nat (n + 1), snd (the (V s k))))) \<and>
     (\<forall>s now k k'. k' \<noteq> k \<longrightarrow> V (fst (st_incr R s now k)) k' = V s k') \<and>
     (\<forall>s now k secs. 0 < secs \<longrightarrow> secs < 2 ^ 31 \<longrightarrow> V (st_expire R s now k secs) =
        (case live now (V s k) of None \<Rightarrow> V s | Some v \<Rightarrow> (V s)(k \<mapsto> (v, Some (now + 1000 * nat secs))))) \<and>
     (\<forall>s now k. st_ttl R s now k < 0 \<longleftrightarrow> live now (V s k) = None \<or> (\<exists>v. V s k = Some (v, None))) \<and>
     (\<forall>s now k v d. V s k = Some (v, Some d) \<longrightarrow> now < d \<longrightarrow> 1000 * st_ttl R s now k \<le> int (d - now) + 999)"

lemma store_okD:
  assumes "store_ok R V"
  shows "live now (V s k) \<noteq> None \<Longrightarrow> snd (st_set_nx_ex R s now k v ttl) = None"
    and "live now (V s k) \<noteq> None \<Longrightarrow> V (fst (st_set_nx_ex R s now k v ttl)) = V s"
    and "live now (V s k) = None \<Longrightarrow> 0 < ttl \<Longrightarrow> snd (st_set_nx_ex R s now k v ttl) = Some ''OK''"
    and "live now (V s k) = None \<Longrightarrow> 0 < ttl \<Longrightarrow>
      V (fst (st_set_nx_ex R s now k v ttl)) = (V s)(k \<mapsto> (v, Some (now + 1000 * ttl)))"
    and "live now (V s k) = None \<Longrightarrow> snd (st_incr R s now k) = 1"
    and "live now (V s k) = None \<Longrightarrow> V (fst (st_incr R s now k)) = (V s)(k \<mapsto> (show_nat 1, None))"
    and "live now (V s k) = Some (show_nat n) \<Longrightarrow> snd (st_incr R s now k) = n + 1"
    and "live now (V s k) = Some (show_nat n) \<Longrightarrow>
      V (fst (st_incr R s now k)) = (V s)(k \<mapsto> (show_nat (n + 1), snd (the (V s k))))"
    and "0 < secs \<Longrightarrow> secs < 2 ^ 31 \<Longrightarrow> V (st_expire R s now k secs) =
      (case live now (V s k) of None \<Rightarrow> V s | Some w \<Rightarrow> (V s)(k \<mapsto> (w, Some (now + 1000 * nat secs))))"
    and "st_ttl R s now k < 0 \<longleftrightarrow> live now (V s k) = None \<or> (\<exists>v. V s k = Some (v, None))"
    and "V s k = Some (u, Some d) \<Longrightarrow> now < d \<Longrightarrow> 1000 * st_ttl R s now k \<le> int (d - now) + 999"
    and "k' \<noteq> k \<Longrightarrow> V (fst (st_incr R s now k)) k' = V s k'"
  using assms by (simp_all add: store_ok_def)

subsection \<open>Markers\<close>

lemma clamp_bounds: "DEFAULT_REPLAY_TTL_SECS \<le> clamp x DEFAULT_REPLAY_TTL_SECS MAX_REPLAY_TTL_SECS"
  "clamp x DEFAULT_REPLAY_TTL_SECS MAX_REPLAY_TTL_SECS \<le> MAX_REPLAY_TTL_SECS"
  "clamp DEFAULT_REPLAY_TTL_SECS DEFAULT_REPLAY_TTL_SECS MAX_REPLAY_TTL_SECS = 120"
  by (simp_all add: clamp_def DEFAULT_REPLAY_TTL_SECS_def MAX_REPLAY_TTL_SECS_def)

text \<open>A mark that succeeds found nothing and leaves a marker for at least two minutes.\<close>

lemma mark_fresh:
  assumes "store_ok R V" "try_mark_in_scope R fd now s scope eid ttl = (s', Inr True)"
  obtains d where "V s' = (V s)(nip98_replay_key_for_scope scope eid \<mapsto> (''1'', Some d))"
    "now + 120000 \<le> d" "live now (V s (nip98_replay_key_for_scope scope eid)) = None"
proof -
  let ?k = "nip98_replay_key_for_scope scope eid" and ?t = "clamp ttl DEFAULT_REPLAY_TTL_SECS MAX_REPLAY_TTL_SECS"
  let ?r = "st_set_nx_ex R s now ?k ''1'' ?t"
  have ok: "snd ?r = Some ''OK''" "s' = fst ?r"
    using assms(2) by (auto simp: try_mark_in_scope_def Let_def split: option.splits cmd_fate.splits if_splits)
  have none: "live now (V s ?k) = None"
    using store_okD(1) [OF assms(1), of now s ?k "''1''" ?t] ok(1) by (metis option.simps(3))
  have t: "120 \<le> ?t" using clamp_bounds(1) [of ttl] by (simp add: DEFAULT_REPLAY_TTL_SECS_def)
  then have "V s' = (V s)(?k \<mapsto> (''1'', Some (now + 1000 * ?t)))"
    using store_okD(4) [OF assms(1) none, of ?t "''1''"] ok(2) by simp
  then show ?thesis using that none t by simp
qed

text \<open>A mark on a marker that is still there changes nothing and does not succeed.\<close>

lemma mark_again:
  assumes "store_ok R V" "try_mark_in_scope R fd now s scope eid ttl = (s', r)"
    "live now (V s (nip98_replay_key_for_scope scope eid)) \<noteq> None"
  shows "V s' = V s" "r \<noteq> Inr True"
proof -
  let ?k = "nip98_replay_key_for_scope scope eid" and ?t = "clamp ttl DEFAULT_REPLAY_TTL_SECS MAX_REPLAY_TTL_SECS"
  have "V s' = V s \<and> r \<noteq> Inr True"
    using assms(2) store_okD(1,2) [OF assms(1,3), of "''1''" ?t]
    by (auto simp: try_mark_in_scope_def Let_def after_cmd_def split: option.splits cmd_fate.splits if_splits)
  then show "V s' = V s" "r \<noteq> Inr True" by auto
qed

lemma mark_frame:
  assumes "store_ok R V" "try_mark_in_scope R fd now s scope eid ttl = (s', r)" "k \<noteq> nip98_replay_key_for_scope scope eid"
  shows "V s' k = V s k"
proof -
  let ?k = "nip98_replay_key_for_scope scope eid" and ?t = "clamp ttl DEFAULT_REPLAY_TTL_SECS MAX_REPLAY_TTL_SECS"
  have "V (fst (st_set_nx_ex R s now ?k ''1'' ?t)) k = V s k"
    using store_okD(2) [OF assms(1), of now s ?k "''1''" ?t] store_okD(4) [OF assms(1), of now s ?k ?t "''1''"] clamp_bounds(1) [of ttl] assms(3)
    by (cases "live now (V s ?k)") (auto simp: DEFAULT_REPLAY_TTL_SECS_def)
  then show ?thesis using assms(2)
    by (auto simp: try_mark_in_scope_def Let_def after_cmd_def split: option.splits cmd_fate.splits if_splits)
qed

subsection \<open>Counters\<close>

lemma script_fresh:
  assumes "store_ok R V" "live now (V s k) = None" "0 < w" "w < 2 ^ 31" "RATE_LIMIT_SCRIPT R s now k (int w) = (s', cnt, ttl)"
  shows "cnt = 1" "V s' = (V s)(k \<mapsto> (show_nat 1, Some (now + 1000 * w)))" "\<not> ttl < 0"
proof -
  let ?s1 = "fst (st_incr R s now k)" and ?s2 = "st_expire R (fst (st_incr R s now k)) now k (int w)"
  note c = store_okD(5,6) [OF assms(1,2)]
  have r: "cnt = 1" "s' = ?s2" "ttl = st_ttl R ?s2 now k"
    using assms(5) c(1) by (auto simp: RATE_LIMIT_SCRIPT_def case_prod_beta Let_def)
  have "live now (V ?s1 k) = Some (show_nat 1)" using c(2) by (simp add: live_def)
  then have v: "V s' = (V s)(k \<mapsto> (show_nat 1, Some (now + 1000 * w)))"
    using store_okD(9) [OF assms(1), of "int w" ?s1 now k] assms(3,4) c(2) r(2) by simp
  then have "live now (V s' k) \<noteq> None" using assms(3) by (simp add: live_def)
  then show "cnt = 1" "V s' = (V s)(k \<mapsto> (show_nat 1, Some (now + 1000 * w)))" "\<not> ttl < 0"
    using r v store_okD(10) [OF assms(1), of ?s2 now k] by auto
qed

lemma script_live:
  assumes "store_ok R V" "V s k = Some (show_nat c, e)" "live now (V s k) = Some (show_nat c)" "1 \<le> c"
    "RATE_LIMIT_SCRIPT R s now k w = (s', cnt, ttl)"
  shows "cnt = c + 1" "V s' = (V s)(k \<mapsto> (show_nat (c + 1), e))" "ttl < 0 \<longleftrightarrow> e = None"
proof -
  note i = store_okD(7,8) [OF assms(1,3)]
  have r: "cnt = c + 1" "s' = fst (st_incr R s now k)" "ttl = st_ttl R s' now k"
    using assms(4,5) i(1) by (auto simp: RATE_LIMIT_SCRIPT_def case_prod_beta Let_def)
  have v: "V s' = (V s)(k \<mapsto> (show_nat (c + 1), e))" using i(2) r(2) assms(2) by simp
  moreover have "live now (V s' k) \<noteq> None"
    using v assms(2,3) by (auto simp: live_def split: option.splits if_splits)
  ultimately show "cnt = c + 1" "V s' = (V s)(k \<mapsto> (show_nat (c + 1), e))" "ttl < 0 \<longleftrightarrow> e = None"
    using r store_okD(10) [OF assms(1), of s' now k] by auto
qed

text \<open>
  One check of a limit on a key that holds no counter or a counter from one: either it fails before
  it counts, or it counts; an answer is given only when it counted, and agrees with the counter.
\<close>

definition counts_as :: "nat \<Rightarrow> nat \<Rightarrow> (RateLimitResult, AuthError) rust_result \<Rightarrow> bool" where
  "counts_as c limit r \<longleftrightarrow> (\<forall>x. r = Inr x \<longrightarrow> rl_current x = c \<and> rl_limit x = limit \<and> (rl_allowed x \<longleftrightarrow> c \<le> limit))"

lemma as_i64_small: "w < 2 ^ 31 \<Longrightarrow> as_i64 w = int w"
  by (simp add: as_i64_def)

lemma limit_fresh:
  assumes ok: "store_ok R V" and dead: "live now (V s k) = None" and w: "0 < w" "w < 2 ^ 31"
    and run: "run_rate_limit R fd now s k w limit = (s', r)"
  shows "V s' = V s \<and> (\<forall>x. r \<noteq> Inr x) \<or>
    V s' = (V s)(k \<mapsto> (show_nat 1, Some (now + 1000 * w))) \<and> counts_as 1 limit r"
proof -
  obtain s1 cnt ttl where sc: "RATE_LIMIT_SCRIPT R s now k (int w) = (s1, cnt, ttl)" by (metis prod_cases3)
  note f = script_fresh [OF ok dead w sc]
  show ?thesis using run f sc w(2)
    by (auto simp: run_rate_limit_def as_i64_small after_cmd_def counts_as_def result_allowed_def result_denied_def Let_def
        split: option.splits cmd_fate.splits if_splits)
qed

lemma limit_live:
  assumes ok: "store_ok R V" and v: "V s k = Some (show_nat c, e)" "live now (V s k) = Some (show_nat c)" "1 \<le> c"
    and w: "0 < w" "w < 2 ^ 31" and run: "run_rate_limit R fd now s k w limit = (s', r)"
  shows "V s' = V s \<and> (\<forall>x. r \<noteq> Inr x) \<or>
    (\<exists>e'. (e' = e \<or> e = None \<and> e' = Some (now + 1000 * w)) \<and>
       V s' = (V s)(k \<mapsto> (show_nat (c + 1), e'))) \<and> counts_as (c + 1) limit r"
proof -
  obtain s1 cnt ttl where sc: "RATE_LIMIT_SCRIPT R s now k (int w) = (s1, cnt, ttl)" by (metis prod_cases3)
  note f = script_live [OF ok v sc]
  have x: "V (st_expire R s1 now k (int w)) = (V s)(k \<mapsto> (show_nat (c + 1), Some (now + 1000 * w)))" if "e = None"
    using store_okD(9) [OF ok, of "int w" s1 now k] f(2) w that by (simp add: live_def)
  show ?thesis
  proof (cases "ttl < 0")
    case True
    then have e: "e = None" using f(3) by simp
    show ?thesis using run f(1,2) sc w(2) True x [OF e] e
      by (auto simp: run_rate_limit_def as_i64_small after_cmd_def counts_as_def result_allowed_def result_denied_def Let_def
          split: option.splits cmd_fate.splits if_splits)
  next
    case False
    then show ?thesis using run f sc w(2)
      by (auto simp: run_rate_limit_def as_i64_small after_cmd_def counts_as_def result_allowed_def result_denied_def Let_def
          split: option.splits cmd_fate.splits if_splits)
  qed
qed

subsection \<open>Runs on the shared store\<close>

text \<open>
  Everything the relays of a deployment do with these keys, in the order in which Redis does it:
  marks of event ids and checks of limits, each at its time and with its fate.
\<close>

datatype store_op =
    Mark string hex nat
  | Limit TenantContext hex LimitType nat nat
  | IpLimit string nat nat

datatype answer = Marked "(bool, AuthError) rust_result" | Limited "(RateLimitResult, AuthError) rust_result"

type_synonym timed_op = "nat \<times> store_fate \<times> store_op"

fun exec_store :: "'s store_cmds \<Rightarrow> timed_op \<Rightarrow> 's \<Rightarrow> 's \<times> answer" where
  "exec_store R (now, fd, Mark scope eid ttl) s = map_prod (\<lambda>x. x) Marked (try_mark_in_scope R fd now s scope eid ttl)"
| "exec_store R (now, fd, Limit ctx pk ty w l) s = map_prod (\<lambda>x. x) Limited (check_and_increment R fd now s ctx pk ty w l)"
| "exec_store R (now, fd, IpLimit ip w l) s = map_prod (\<lambda>x. x) Limited (check_ip_connection R fd now s ip w l)"

fun run_store :: "'s store_cmds \<Rightarrow> timed_op list \<Rightarrow> 's \<Rightarrow> 's \<times> answer list" where
  "run_store R [] s = (s, [])"
| "run_store R (x # xs) s =
     (let r = exec_store R x s; rs = run_store R xs (fst r) in (fst rs, snd r # snd rs))"

fun op_key :: "store_op \<Rightarrow> string" where
  "op_key (Mark scope eid ttl) = nip98_replay_key_for_scope scope eid"
| "op_key (Limit ctx pk ty w l) = rate_limit_key ctx pk ty"
| "op_key (IpLimit ip w l) = ip_rate_limit_key ip"

text \<open>
  Scopes, communities and public keys print without a colon; windows are positive and below sixty
  years.
\<close>

fun op_ok :: "store_op \<Rightarrow> bool" where
  "op_ok (Mark scope eid ttl) \<longleftrightarrow> plain scope"
| "op_ok (Limit ctx pk ty w l) \<longleftrightarrow> plain (tc_community ctx) \<and> plain pk \<and> 0 < w \<and> w < 2 ^ 31"
| "op_ok (IpLimit ip w l) \<longleftrightarrow> 0 < w \<and> w < 2 ^ 31"

lemma key_suffix_plain: "CHR '':'' \<notin> set (key_suffix ty)" "key_suffix ty = key_suffix ty' \<longleftrightarrow> ty = ty'"
  by (cases ty; simp) (cases ty; cases ty'; simp)

lemma mark_key_parts:
  "plain scope \<Longrightarrow> split_on CHR '':'' (nip98_replay_key_for_scope scope eid) = ''buzz'' # scope # ''nip98'' # split_on CHR '':'' eid"
  by (simp add: plain_def nip98_replay_key_for_scope_def split_on_append)

lemma limit_key_parts:
  "plain (tc_community ctx) \<Longrightarrow> plain pk \<Longrightarrow>
     split_on CHR '':'' (rate_limit_key ctx pk ty) = [''buzz'', tc_community ctx, ''ratelimit'', pk, key_suffix ty]"
  by (simp add: plain_def rate_limit_key_def split_on_append split_on_plain key_suffix_plain)

lemma ip_key_parts: "\<exists>r. split_on CHR '':'' (ip_rate_limit_key ip) = ''buzz'' # ''ratelimit'' # ''ip'' # r"
  by (simp add: ip_rate_limit_key_def split_on_append)

lemma mark_key_only:
  assumes "plain scope" "op_ok op" "op_key op = nip98_replay_key_for_scope scope eid"
  obtains ttl where "op = Mark scope eid ttl"
proof (cases op)
  case (Mark scope' eid' ttl)
  then show ?thesis using assms that mark_key_parts [of scope eid] mark_key_parts [of scope' eid'] by (auto simp: split_on_inj)
next
  case (Limit ctx pk ty w l)
  then show ?thesis using assms mark_key_parts [of scope eid] limit_key_parts [of ctx pk ty] by simp
next
  case (IpLimit ip w l)
  then show ?thesis using assms mark_key_parts [of scope eid] ip_key_parts [of ip] by auto
qed

lemma limit_key_inj:
  assumes "plain (tc_community a)" "plain p" "plain (tc_community b)" "plain q"
  shows "rate_limit_key a p ty = rate_limit_key b q ty' \<longleftrightarrow> tc_community a = tc_community b \<and> p = q \<and> ty = ty'"
proof
  assume "rate_limit_key a p ty = rate_limit_key b q ty'"
  then have "[''buzz'', tc_community a, ''ratelimit'', p, key_suffix ty] = [''buzz'', tc_community b, ''ratelimit'', q, key_suffix ty']"
    using limit_key_parts [OF assms(1,2), of ty] limit_key_parts [OF assms(3,4), of ty'] by metis
  then show "tc_community a = tc_community b \<and> p = q \<and> ty = ty'" by (simp add: key_suffix_plain(2))
qed (simp add: rate_limit_key_def)

lemma script_frame:
  assumes "store_ok R V" "0 < w" "w < 2 ^ 31" "k' \<noteq> k"
  shows "V (fst (RATE_LIMIT_SCRIPT R s now k (int w))) k' = V s k'"
proof -
  let ?s1 = "fst (st_incr R s now k)"
  have "V (st_expire R ?s1 now k (int w)) k' = V ?s1 k'"
    using store_okD(9) [OF assms(1), of "int w" ?s1 now k] assms(2-4) by (simp split: option.split)
  then show ?thesis using store_okD(12) [OF assms(1,4)]
    by (simp add: RATE_LIMIT_SCRIPT_def case_prod_beta Let_def)
qed

lemma limit_frame:
  assumes "store_ok R V" "0 < w" "w < 2 ^ 31" "k' \<noteq> k"
  shows "V (fst (run_rate_limit R fd now s k w limit)) k' = V s k'"
proof -
  let ?sc = "RATE_LIMIT_SCRIPT R s now k (int w)"
  have "V (st_expire R (fst ?sc) now k (int w)) k' = V (fst ?sc) k'"
    using store_okD(9) [OF assms(1), of "int w" "fst ?sc" now k] assms(2-4) by (simp split: option.split)
  then show ?thesis using script_frame [OF assms] assms(3)
    by (simp add: run_rate_limit_def as_i64_small after_cmd_def Let_def split: option.split cmd_fate.split)
qed

text \<open>An operation changes no key but its own.\<close>

lemma exec_frame:
  assumes "store_ok R V" "op_ok op" "k \<noteq> op_key op"
  shows "V (fst (exec_store R (now, fd, op) s)) k = V s k"
  using assms
  by (cases op) (auto simp: check_and_increment_def check_ip_connection_def limit_frame
      intro: mark_frame [OF assms(1) prod.collapse [symmetric]])

subsection \<open>An event id is used once\<close>

abbreviation marked :: "answer \<Rightarrow> bool" where "marked a \<equiv> a = Marked (Inr True)"

lemma run_length [simp]: "length (snd (run_store R xs s)) = length xs"
  by (induction xs arbitrary: s) (simp_all add: Let_def)

text \<open>While a marker stands, no operation changes it and no mark of its id succeeds.\<close>

lemma marker_step:
  assumes "store_ok R V" "op_ok op" "plain scope" "V s (nip98_replay_key_for_scope scope eid) = Some (v, Some d)" "now < d"
  shows "V (fst (exec_store R (now, fd, op) s)) (nip98_replay_key_for_scope scope eid) = Some (v, Some d)"
    "op = Mark scope eid ttl \<Longrightarrow> \<not> marked (snd (exec_store R (now, fd, op) s))"
proof -
  let ?k = "nip98_replay_key_for_scope scope eid"
  have l: "live now (V s ?k) \<noteq> None" using assms(4,5) by (simp add: live_def)
  show "V (fst (exec_store R (now, fd, op) s)) ?k = Some (v, Some d)"
  proof (cases "op_key op = ?k")
    case True
    then obtain ttl' where "op = Mark scope eid ttl'" using mark_key_only [OF assms(3,2)] by metis
    then show ?thesis using mark_again(1) [OF assms(1) prod.collapse [symmetric] l] assms(4) by simp
  qed (use exec_frame [OF assms(1,2)] assms(4) in auto)
  show "\<not> marked (snd (exec_store R (now, fd, op) s))" if "op = Mark scope eid ttl"
    using mark_again(2) [OF assms(1) prod.collapse [symmetric] l] that by simp
qed

lemma marker_stands:
  assumes "store_ok R V" "plain scope" "list_all (\<lambda>(t, fd, op). op_ok op) xs" "sorted (map fst xs)"
    "V s (nip98_replay_key_for_scope scope eid) = Some (v, Some d)" "j < length xs" "fst (xs ! j) < d"
  shows "V (fst (run_store R (take (Suc j) xs) s)) (nip98_replay_key_for_scope scope eid) = Some (v, Some d) \<and>
    (snd (snd (xs ! j)) = Mark scope eid ttl \<longrightarrow> \<not> marked (snd (run_store R xs s) ! j))"
  using assms(3-7)
proof (induction xs arbitrary: s j)
  case (Cons x xs)
  obtain t fd op where x: "x = (t, fd, op)" by (cases x)
  have "t \<le> fst ((x # xs) ! j)" using Cons.prems(2,4) by (cases j) (auto simp: x)
  then have t: "t < d" using Cons.prems(5) by simp
  have op: "op_ok op" using Cons.prems(1) by (simp add: x)
  note step = marker_step [OF assms(1) op assms(2) Cons.prems(3) t, where fd = fd]
  show ?case
  proof (cases j)
    case 0
    then show ?thesis using step by (auto simp: x Let_def)
  next
    case (Suc i)
    then have "V (fst (run_store R (take (Suc i) xs) (fst (exec_store R x s)))) (nip98_replay_key_for_scope scope eid) = Some (v, Some d) \<and>
      (snd (snd (xs ! i)) = Mark scope eid ttl \<longrightarrow> \<not> marked (snd (run_store R xs (fst (exec_store R x s))) ! i))"
      using Cons.prems step(1) by (intro Cons.IH) (auto simp: x)
    then show ?thesis using Suc by (simp add: Let_def)
  qed
qed simp

text \<open>
  The seen-set admits an event id once in two minutes: in every run of the shared store, whatever
  fails and whatever else is marked and counted, two marks of one id in one scope that both succeed
  are at least 120 seconds apart, whatever times to live the callers asked for.
\<close>

theorem marks_apart:
  assumes "store_ok R V" "plain scope" "list_all (\<lambda>(t, fd, op). op_ok op) xs" "sorted (map fst xs)"
    "i < j" "j < length xs" "snd (snd (xs ! i)) = Mark scope eid ttl" "snd (snd (xs ! j)) = Mark scope eid ttl'"
    "marked (snd (run_store R xs s) ! i)" "marked (snd (run_store R xs s) ! j)"
  shows "fst (xs ! i) + 120000 \<le> fst (xs ! j)"
  using assms(3-)
proof (induction xs arbitrary: s i j)
  case (Cons x xs)
  obtain t fd op where x: "x = (t, fd, op)" by (cases x)
  obtain m where j: "j = Suc m" using Cons.prems(3) by (cases j) auto
  show ?case
  proof (cases i)
    case 0
    have op: "op = Mark scope eid ttl" using Cons.prems(5) by (simp add: 0 x)
    then have "try_mark_in_scope R fd t s scope eid ttl = (fst (exec_store R x s), Inr True)"
      using Cons.prems(7) by (simp add: 0 x Let_def) (metis answer.inject(1) prod.collapse)
    then obtain d where d: "V (fst (exec_store R x s)) = (V s)(nip98_replay_key_for_scope scope eid \<mapsto> (''1'', Some d))"
        "t + 120000 \<le> d"
      by (rule mark_fresh [OF assms(1)])
    have "\<not> fst (xs ! m) < d"
      using marker_stands [OF assms(1,2), of xs "fst (exec_store R x s)" eid "''1''" d m ttl'] d Cons.prems
      by (auto simp: j x Let_def)
    then show ?thesis using d(2) by (simp add: 0 j x)
  next
    case (Suc l)
    then show ?thesis using Cons.IH [of l m "fst (exec_store R x s)"] Cons.prems by (simp add: j x Let_def)
  qed
qed simp

text \<open>A store that satisfies the laws: a function from keys to values with their expiry.\<close>

definition sample_cmds :: "(string \<Rightarrow> (string \<times> nat option) option) store_cmds" where
  "sample_cmds =
     \<lparr>st_set_nx_ex = (\<lambda>s now k v ttl. case live now (s k) of
         None \<Rightarrow> (s(k \<mapsto> (v, Some (now + 1000 * ttl))), Some ''OK'') | Some _ \<Rightarrow> (s, None)),
      st_incr = (\<lambda>s now k. case live now (s k) of
         None \<Rightarrow> (s(k \<mapsto> (show_nat 1, None)), 1)
       | Some v \<Rightarrow> let n = digits_value v + 1 in (s(k \<mapsto> (show_nat n, snd (the (s k)))), n)),
      st_expire = (\<lambda>s now k secs. if secs \<le> 0 then s(k := None) else case live now (s k) of
         None \<Rightarrow> s | Some v \<Rightarrow> s(k \<mapsto> (v, Some (now + 1000 * nat secs)))),
      st_ttl = (\<lambda>s now k. case s k of
         None \<Rightarrow> -2 | Some (_, None) \<Rightarrow> -1
       | Some (_, Some d) \<Rightarrow> if now < d then int ((d - now) div 1000) else -2)\<rparr>"

lemma sample_store: "store_ok sample_cmds (\<lambda>s. s)"
proof -
  have "1000 * (int (d - now) div 1000) \<le> int (d - now) + 999" for d now :: nat by linarith
  then show ?thesis
    unfolding store_ok_def
    by (intro conjI allI) (auto simp: sample_cmds_def live_def Let_def zdiv_int split: option.splits if_splits)
qed

definition all_fine :: store_fate where
  "all_fine = \<lparr>sf_pool = None, sf_main = Done, sf_repair = Done\<rparr>"

definition sample_marks :: "timed_op list" where
  "sample_marks = [(0, all_fine, Mark ''c'' ''e1'' 120), (120000, all_fine, Mark ''c'' ''e1'' 120)]"

theorem marks_apart_witness:
  "snd (run_store sample_cmds sample_marks (\<lambda>_. None)) = [Marked (Inr True), Marked (Inr True)] \<and>
   fst (sample_marks ! 0) + 120000 \<le> fst (sample_marks ! 1)"
proof -
  have run: "snd (run_store sample_cmds sample_marks (\<lambda>_. None)) = [Marked (Inr True), Marked (Inr True)]"
    by (simp add: sample_marks_def Let_def try_mark_in_scope_def all_fine_def sample_cmds_def live_def clamp_bounds
        clamp_def DEFAULT_REPLAY_TTL_SECS_def MAX_REPLAY_TTL_SECS_def)
  have "fst (sample_marks ! 0) + 120000 \<le> fst (sample_marks ! 1)"
    by (rule marks_apart [OF sample_store, of "''c''" sample_marks 0 1 "''e1''" 120 120 "\<lambda>_. None"])
       (simp_all add: run, simp_all add: sample_marks_def plain_def)
  with run show ?thesis by blast
qed

subsection \<open>Operator requests\<close>

lemma replay_answer_ok: "replay_answer r = Inr u \<longleftrightarrow> r = Inr True"
  by (auto simp: replay_answer_def split: sum.splits bool.splits)

lemma operator_scope_plain: "plain OPERATOR_REPLAY_SCOPE"
  by (simp add: plain_def OPERATOR_REPLAY_SCOPE_def)

text \<open>The URL an operator request must be signed for.\<close>

definition operator_url :: "operator_config \<Rightarrow> string \<Rightarrow> string option \<Rightarrow> string" where
  "operator_url cfg path raw_query =
     the (oc_api_origin cfg) @ (case raw_query of Some q \<Rightarrow> if q \<noteq> [] then path @ ''?'' @ q else path | None \<Rightarrow> path)"

lemma operator_accepted:
  assumes "authorize_operator_request X R cfg fd v m s headers method path raw_query body = (s', Inr pk)"
  obtains auth_str bytes event_json event where
    "headers ''authorization'' = Some (''Nostr '' @ auth_str)" "ax_base64_decode X auth_str = Some bytes"
    "string_from_utf8 bytes = Some event_json" "ax_parse_event X event_json = Inr event"
    "nip98_valid X (v div 1000) event (operator_url cfg path raw_query) method body" "pk = ev_pubkey event"
    "try_mark_in_scope R fd m s OPERATOR_REPLAY_SCOPE (ev_id event) DEFAULT_REPLAY_TTL_SECS = (s', Inr True)"
    "pk \<in> set (oc_pubkeys cfg)" "oc_api_origin cfg \<noteq> None"
proof -
  obtain origin where o: "oc_api_origin cfg = Some origin"
    using assms by (auto simp: authorize_operator_request_def split: option.splits)
  let ?url = "operator_url cfg path raw_query"
  let ?b = "verify_bridge_auth_with_options X (v div 1000) headers method ?url body True (body \<noteq> None)"
  have url: "origin @ (case raw_query of Some q \<Rightarrow> if q \<noteq> [] then path @ ''?'' @ q else path | None \<Rightarrow> path) = ?url"
    by (simp add: operator_url_def o)
  have eq: "authorize_operator_request X R cfg fd v m s headers method path raw_query body =
      (case ?b of Inl e \<Rightarrow> (s, Inl e) | Inr (pubkey, event_id) \<Rightarrow>
         let r = check_operator_replay R fd m s event_id
         in (fst r, case snd r of Inl e \<Rightarrow> Inl e
             | Inr _ \<Rightarrow> if \<not> list_ex (\<lambda>pk. pk = pubkey) (oc_pubkeys cfg)
                        then Inl (FORBIDDEN, ''actor not authorized: not a relay operator'') else Inr pubkey))"
    unfolding authorize_operator_request_def o Let_def by (simp add: url)
  obtain eid where b: "?b = Inr (pk, eid)"
    using assms unfolding eq by (auto simp: Let_def split: sum.splits if_splits)
  have r: "try_mark_in_scope R fd m s OPERATOR_REPLAY_SCOPE eid DEFAULT_REPLAY_TTL_SECS = (s', Inr True)"
    "pk \<in> set (oc_pubkeys cfg)"
    using assms unfolding eq b
    by (auto simp: Let_def check_operator_replay_def replay_answer_ok list_ex_iff prod_eq_iff split: sum.splits if_splits)
  from b show ?thesis
    by (rule bridge_cases) (use that r o in auto)
qed

text \<open>
  C18. An operator request is not replayed unless its event was dated almost a minute ahead: when the
  same authorization header is accepted twice, with anything else happening in between and any
  failures, the marks are at least 120 seconds apart, and at the first mark the event was dated
  more than 59 seconds ahead of the server's clock, less the time the second request waited between
  the verification and the mark.
\<close>

theorem operator_event_once:
  assumes "store_ok R V"
    "authorize_operator_request X R cfg fd v1 m1 s headers method path raw_query body = (s1, Inr pk)"
    "list_all (\<lambda>(t, fd, op). op_ok op) xs" "sorted (m1 # map fst xs @ [m2])"
    "authorize_operator_request X R cfg' fd' v2 m2 (fst (run_store R xs s1)) headers method' path' raw_query' body' = (s2, Inr pk')"
    "m2 \<le> v2 + wait"
  shows "m1 + 120000 \<le> m2 \<and>
    (\<exists>event. nip98_valid X (v1 div 1000) event (operator_url cfg path raw_query) method body \<and> pk = ev_pubkey event \<and>
       m1 + 59000 < 1000 * ev_created_at event + wait)"
proof -
  from assms(2) obtain a1 b1 j1 event where 1: "headers ''authorization'' = Some (''Nostr '' @ a1)"
    "ax_base64_decode X a1 = Some b1" "string_from_utf8 b1 = Some j1" "ax_parse_event X j1 = Inr event"
    "nip98_valid X (v1 div 1000) event (operator_url cfg path raw_query) method body" "pk = ev_pubkey event"
    "try_mark_in_scope R fd m1 s OPERATOR_REPLAY_SCOPE (ev_id event) DEFAULT_REPLAY_TTL_SECS = (s1, Inr True)"
    by (rule operator_accepted)
  from assms(5) obtain a2 b2 j2 event' where 2: "headers ''authorization'' = Some (''Nostr '' @ a2)"
    "ax_base64_decode X a2 = Some b2" "string_from_utf8 b2 = Some j2" "ax_parse_event X j2 = Inr event'"
    "nip98_valid X (v2 div 1000) event' (operator_url cfg' path' raw_query') method' body'"
    "try_mark_in_scope R fd' m2 (fst (run_store R xs s1)) OPERATOR_REPLAY_SCOPE (ev_id event') DEFAULT_REPLAY_TTL_SECS = (s2, Inr True)"
    by (rule operator_accepted)
  have ev: "event' = event" using 1 2 by simp
  let ?k = "nip98_replay_key_for_scope OPERATOR_REPLAY_SCOPE (ev_id event)"
  obtain d where d: "V s1 = (V s)(?k \<mapsto> (''1'', Some d))" "m1 + 120000 \<le> d" by (rule mark_fresh [OF assms(1) 1(7)])
  have "d \<le> m2"
  proof (rule ccontr)
    assume late: "\<not> d \<le> m2"
    have "V (fst (run_store R xs s1)) ?k = Some (''1'', Some d)"
    proof (cases xs)
      case Nil
      then show ?thesis using d(1) by simp
    next
      case (Cons x ys)
      have "xs ! (length xs - 1) \<in> set xs" "\<forall>y \<in> set xs. fst y \<le> m2"
        using assms(4) Cons nth_mem [of "length xs - 1" xs] by (auto simp: sorted_append)
      then have "fst (xs ! (length xs - 1)) < d" using late by auto
      then show ?thesis
        using marker_stands [OF assms(1) operator_scope_plain assms(3), of s1 "ev_id event" "''1''" d "length xs - 1"]
          assms(4) d(1) Cons by (simp add: sorted_append)
    qed
    then have "live m2 (V (fst (run_store R xs s1)) ?k) \<noteq> None" using late by (simp add: live_def)
    then show False using mark_again(2) [OF assms(1) 2(6)] ev by simp
  qed
  moreover have "v2 div 1000 \<le> ev_created_at event + 60" using 2(5) ev by (simp add: nip98_valid_def fresh_at_def)
  then have "v2 < 1000 * ev_created_at event + 61000" by linarith
  ultimately show ?thesis using 1(5,6) d(2) assms(6) by auto
qed

lemma replay_gap:
  assumes "store_ok R V" "60 \<le> ev_created_at event" "oc_api_origin cfg = Some origin" "ev_pubkey event \<in> set (oc_pubkeys cfg)"
    "t = 1000 * (ev_created_at event - 60)"
    "nip98_valid X (t div 1000) event (origin @ path) method None"
    "headers ''authorization'' = Some (''Nostr '' @ auth_str)" "ax_base64_decode X auth_str = Some bytes"
    "string_from_utf8 bytes = Some event_json" "ax_parse_event X event_json = Inr event"
    "live t (V s (nip98_replay_key_for_scope OPERATOR_REPLAY_SCOPE (ev_id event))) = None"
    "authorize_operator_request X R cfg all_fine t t s headers method path None None = (s1, r1)"
    "authorize_operator_request X R cfg all_fine (t + 120000) (t + 120000) s1 headers method path None None = (s2, r2)"
  shows "r1 = Inr (ev_pubkey event) \<and> r2 = Inr (ev_pubkey event)"
proof -
  let ?k = "nip98_replay_key_for_scope OPERATOR_REPLAY_SCOPE (ev_id event)"
  have valid: "verify_bridge_auth_with_options X (u div 1000) headers method (origin @ path) None True False =
      Inr (ev_pubkey event, ev_id event)" if "u = t \<or> u = t + 120000" for u
  proof -
    have "fresh_at (u div 1000) event" using that assms(2,5) by (auto simp: fresh_at_def)
    then have "nip98_valid X (u div 1000) event (origin @ path) method None" using assms(6) by (simp add: nip98_valid_def)
    then have "verify_nip98_event X (u div 1000) event_json (origin @ path) method None = Inr (ev_pubkey event)"
      using nip98_exact [of X "u div 1000" event_json "origin @ path" "method" None] assms(10) by auto
    then show ?thesis using assms(7-10)
      by (simp add: verify_bridge_auth_with_options_def strip_prefix_def starts_with_def)
  qed
  have op: "authorize_operator_request X R cfg all_fine u u z headers method path None None =
      (fst (st_set_nx_ex R z u ?k ''1'' 120), Inr (ev_pubkey event))"
    if "u = t \<or> u = t + 120000" "live u (V z ?k) = None" for u z
    using valid [OF that(1)] store_okD(3) [OF assms(1) that(2), of 120 "''1''"] assms(3,4)
    by (simp add: authorize_operator_request_def check_operator_replay_def try_mark_in_scope_def all_fine_def
        clamp_bounds replay_answer_def list_ex_iff Let_def)
  have 1: "s1 = fst (st_set_nx_ex R s t ?k ''1'' 120)" "r1 = Inr (ev_pubkey event)"
    using op [OF _ assms(11)] assms(12) by simp_all
  have "live (t + 120000) (V s1 ?k) = None"
    using store_okD(4) [OF assms(1,11), of 120 "''1''"] 1(1) by (simp add: live_def)
  then show ?thesis using op [of "t + 120000" s1] assms(13) 1(2) by simp
qed

lemma mark_120:
  assumes "store_ok R V" "try_mark_in_scope R fd now s scope eid DEFAULT_REPLAY_TTL_SECS = (s', Inr True)"
  shows "V s' (nip98_replay_key_for_scope scope eid) = Some (''1'', Some (now + 120000))"
proof -
  let ?k = "nip98_replay_key_for_scope scope eid"
  have ttl: "clamp DEFAULT_REPLAY_TTL_SECS DEFAULT_REPLAY_TTL_SECS MAX_REPLAY_TTL_SECS = 120" by code_simp
  have "s' = fst (st_set_nx_ex R s now ?k ''1'' 120)"
    using assms(2) by (auto simp: try_mark_in_scope_def ttl Let_def split: option.splits cmd_fate.splits)
  moreover have "live now (V s ?k) = None" by (rule mark_fresh [OF assms])
  ultimately show ?thesis using store_okD(4) [OF assms(1), of now s ?k 120 "''1''"] by simp
qed

lemma mark_expired:
  assumes "store_ok R V" "live now (V s (nip98_replay_key_for_scope scope eid)) = None"
    "sf_pool fd = None" "sf_main fd = Done"
  shows "snd (try_mark_in_scope R fd now s scope eid DEFAULT_REPLAY_TTL_SECS) = Inr True"
proof -
  have "clamp DEFAULT_REPLAY_TTL_SECS DEFAULT_REPLAY_TTL_SECS MAX_REPLAY_TTL_SECS = 120" by code_simp
  then show ?thesis using assms store_okD(3) [OF assms(1,2), of 120 "''1''"]
    by (simp add: try_mark_in_scope_def Let_def)
qed

text \<open>A request that was accepted passes the verification again as long as its event is fresh.\<close>

lemma operator_again:
  assumes "authorize_operator_request X R cfg fd v1 m1 s headers method path raw_query body = (s1, Inr pk)"
    "headers ''authorization'' = Some (''Nostr '' @ auth_str)" "ax_base64_decode X auth_str = Some bytes"
    "string_from_utf8 bytes = Some event_json" "ax_parse_event X event_json = Inr event" "fresh_at (v2 div 1000) event"
    "snd (try_mark_in_scope R fd' m2 s' OPERATOR_REPLAY_SCOPE (ev_id event) DEFAULT_REPLAY_TTL_SECS) = Inr True"
  shows "snd (authorize_operator_request X R cfg fd' v2 m2 s' headers method path raw_query body) = Inr pk"
proof -
  let ?url = "operator_url cfg path raw_query"
  have "nip98_valid X (v1 div 1000) event ?url method body" "pk = ev_pubkey event" "pk \<in> set (oc_pubkeys cfg)"
      "oc_api_origin cfg \<noteq> None"
    using assms(2-5) by (auto intro: operator_accepted [OF assms(1)])
  note 1 = this
  obtain origin where o: "oc_api_origin cfg = Some origin" using 1(4) by auto
  have url: "origin @ (case raw_query of Some q \<Rightarrow> if q \<noteq> [] then path @ ''?'' @ q else path | None \<Rightarrow> path) = ?url"
    by (simp add: operator_url_def o)
  have payload: "body = None \<or> list_ex (\<lambda>tag. tag_kind tag = ''payload'') (ev_tags event)"
    using assms(1-5) by (auto simp: authorize_operator_request_def o url verify_bridge_auth_with_options_def
        strip_prefix_def starts_with_def Let_def split: if_splits sum.splits)
  have "nip98_valid X (v2 div 1000) event ?url method body" using 1(1) assms(6) by (simp add: nip98_valid_def)
  then have "verify_nip98_event X (v2 div 1000) event_json ?url method body = Inr pk"
    using nip98_exact [of X "v2 div 1000" event_json ?url "method" body] assms(5) 1(2) by auto
  then have "verify_bridge_auth_with_options X (v2 div 1000) headers method ?url body True (body \<noteq> None) = Inr (pk, ev_id event)"
    using assms(2-5) payload by (simp add: verify_bridge_auth_with_options_def strip_prefix_def starts_with_def)
  then show ?thesis using assms(7) 1(3)
    by (simp add: authorize_operator_request_def o url check_operator_replay_def replay_answer_def list_ex_iff Let_def)
qed

text \<open>
  C19. The marker expires before the event does. The verification compares whole seconds and admits a
  difference of 60 on both sides, so an event passes during 121 seconds; the marker lives 120. Let
  an operator request (with any body and query) be accepted in the first second in which its
  event passes. The same request, with the store reachable and not used in between, is accepted
  again when it is verified up to the end of the second \<open>created_at + 60\<close> and marked 120 seconds or
  more after the first mark: for instance when both happen exactly 120 seconds later.
\<close>

theorem replay_after_marker_expires:
  assumes "store_ok R V"
    "headers ''authorization'' = Some (''Nostr '' @ auth_str)" "ax_base64_decode X auth_str = Some bytes"
    "string_from_utf8 bytes = Some event_json" "ax_parse_event X event_json = Inr event"
    "ev_created_at event = v1 div 1000 + 60"
    "authorize_operator_request X R cfg fd v1 m1 s headers method path raw_query body = (s1, Inr pk)"
    "v1 \<le> v2" "v2 div 1000 \<le> ev_created_at event + 60" "m1 + 120000 \<le> m2" "sf_pool fd' = None" "sf_main fd' = Done"
  shows "snd (authorize_operator_request X R cfg fd' v2 m2 s1 headers method path raw_query body) = Inr pk"
proof (rule operator_again [OF assms(7,2-5)])
  have "v1 div 1000 \<le> v2 div 1000" using assms(8) by (rule div_le_mono)
  then show "fresh_at (v2 div 1000) event" using assms(6,9) by (simp add: fresh_at_def)
  have "try_mark_in_scope R fd m1 s OPERATOR_REPLAY_SCOPE (ev_id event) DEFAULT_REPLAY_TTL_SECS = (s1, Inr True)"
    using assms(2-5) by (auto intro: operator_accepted [OF assms(7)])
  from mark_120 [OF assms(1) this]
  have "live m2 (V s1 (nip98_replay_key_for_scope OPERATOR_REPLAY_SCOPE (ev_id event))) = None"
    using assms(10) by (simp add: live_def)
  then show "snd (try_mark_in_scope R fd' m2 s1 OPERATOR_REPLAY_SCOPE (ev_id event) DEFAULT_REPLAY_TTL_SECS) = Inr True"
    using assms(11,12) by (rule mark_expired [OF assms(1)])
qed

definition sample_operator :: operator_config where
  "sample_operator = \<lparr>oc_api_origin = Some ''https://a.b'', oc_pubkeys = [''p1'']\<rparr>"

definition sample_operator_run :: "nat \<Rightarrow> (string \<Rightarrow> (string \<times> nat option) option) \<Rightarrow>
    (string \<Rightarrow> (string \<times> nat option) option) \<times> (hex, api_error) rust_result" where
  "sample_operator_run t s =
     authorize_operator_request (sample_env (sample_auth_event ''https://a.b/op'' [])) sample_cmds sample_operator all_fine t t s
       sample_headers ''POST'' ''/op'' None None"

lemma sample_operator_sets:
  "oc_api_origin sample_operator = Some ''https://a.b''" "oc_pubkeys sample_operator = [''p1'']"
  "ev_pubkey (sample_auth_event u ts) = ''p1''" "ev_created_at (sample_auth_event u ts) = 100"
  by (simp_all add: sample_operator_def sample_auth_event_def)

lemma sample_bytes: "bytes_of ''e'' = [101]"
  by (simp add: bytes_of_def)

lemma sample_event_valid:
  "nip98_valid (sample_env (sample_auth_event u [])) 40 (sample_auth_event u []) u ''POST'' None"
  by (simp add: nip98_valid_def fresh_at_def sample_auth_event_def sample_env_def find_content_def mk_tag_def)

lemma two_operator_runs:
  "snd (sample_operator_run 40000 (\<lambda>_. None)) = Inr ''p1'' \<and>
   snd (sample_operator_run 160000 (fst (sample_operator_run 40000 (\<lambda>_. None)))) = Inr ''p1''"
proof -
  let ?ev = "sample_auth_event ''https://a.b/op'' []"
  obtain s1 r1 where 1: "sample_operator_run 40000 (\<lambda>_. None) = (s1, r1)" by fastforce
  obtain s2 r2 where 2: "sample_operator_run (40000 + 120000) s1 = (s2, r2)" by fastforce
  have "r1 = Inr (ev_pubkey ?ev) \<and> r2 = Inr (ev_pubkey ?ev)"
    by (rule replay_gap [OF sample_store _ sample_operator_sets(1) _ _ _ _ _ sample_utf8 _ _ 1 [unfolded sample_operator_run_def]
          2 [unfolded sample_operator_run_def], where auth_str = "''e''"])
      (simp_all add: sample_operator_sets sample_event_valid live_def, simp_all add: sample_headers_def sample_env_def sample_bytes)
  then show ?thesis using 1 2 by (simp add: sample_operator_sets)
qed

theorem replay_after_marker_expires_witness:
  "snd (sample_operator_run 40700 (\<lambda>_. None)) = Inr ''p1'' \<and>
   snd (sample_operator_run 160700 (fst (sample_operator_run 40700 (\<lambda>_. None)))) = Inr ''p1''"
proof
  let ?ev = "sample_auth_event ''https://a.b/op'' []"
  have req: "sample_headers ''authorization'' = Some (''Nostr '' @ ''e'')"
    "ax_base64_decode (sample_env ?ev) ''e'' = Some [101]" "ax_parse_event (sample_env ?ev) ''e'' = Inr ?ev"
    by (simp_all add: sample_headers_def sample_env_def sample_bytes)
  obtain s0 where 0: "sample_operator_run 40000 (\<lambda>_. None) = (s0, Inr ''p1'')"
    using two_operator_runs by (metis prod.collapse)
  show first: "snd (sample_operator_run 40700 (\<lambda>_. None)) = Inr ''p1''"
    unfolding sample_operator_run_def
  proof (rule operator_again [OF 0 [unfolded sample_operator_run_def] req(1,2) sample_utf8 req(3)])
    show "fresh_at (40700 div 1000) ?ev" by (simp add: fresh_at_def sample_operator_sets)
    show "snd (try_mark_in_scope sample_cmds all_fine 40700 (\<lambda>_. None) OPERATOR_REPLAY_SCOPE (ev_id ?ev) DEFAULT_REPLAY_TTL_SECS) = Inr True"
      by (rule mark_expired [OF sample_store]) (simp_all add: live_def all_fine_def)
  qed
  then obtain s1 where 1: "sample_operator_run 40700 (\<lambda>_. None) = (s1, Inr ''p1'')" by (metis prod.collapse)
  show "snd (sample_operator_run 160700 (fst (sample_operator_run 40700 (\<lambda>_. None)))) = Inr ''p1''"
    unfolding 1 fst_conv
    unfolding sample_operator_run_def
    by (rule replay_after_marker_expires [OF sample_store req(1,2) sample_utf8 req(3) _ 1 [unfolded sample_operator_run_def]])
      (simp_all add: sample_operator_sets all_fine_def)
qed

theorem operator_event_once_witness:
  "\<exists>s1 s2. sample_operator_run 40000 (\<lambda>_. None) = (s1, Inr ''p1'') \<and> sample_operator_run 160000 s1 = (s2, Inr ''p1'') \<and>
     40000 + 59000 < 1000 * ev_created_at (sample_auth_event ''https://a.b/op'' [])"
proof -
  let ?ev = "sample_auth_event ''https://a.b/op'' []"
  obtain s1 r1 where s1: "sample_operator_run 40000 (\<lambda>_. None) = (s1, r1)" by fastforce
  obtain s2 r2 where s2: "sample_operator_run 160000 s1 = (s2, r2)" by fastforce
  have "r1 = Inr ''p1'' \<and> r2 = Inr ''p1''"
    using s1 s2 two_operator_runs by simp
  then have "40000 + 120000 \<le> (160000 :: nat) \<and>
    (\<exists>event. nip98_valid (sample_env ?ev) (40000 div 1000) event (operator_url sample_operator ''/op'' None) ''POST'' None \<and>
       ''p1'' = ev_pubkey event \<and> 40000 + 59000 < 1000 * ev_created_at event + 0)"
    using s1 s2 unfolding sample_operator_run_def
    by (intro operator_event_once [OF sample_store, where xs = "[]"]) auto
  then show ?thesis using s1 s2 \<open>r1 = Inr ''p1'' \<and> r2 = Inr ''p1''\<close> by (simp add: sample_auth_event_def)
qed

subsection \<open>Limits bound what is admitted\<close>

fun op_window :: "store_op \<Rightarrow> (nat \<times> nat) option" where
  "op_window (Mark _ _ _) = None"
| "op_window (Limit _ _ _ w l) = Some (w, l)"
| "op_window (IpLimit _ w l) = Some (w, l)"

definition admitted :: "(RateLimitResult, AuthError) rust_result \<Rightarrow> bool" where
  "admitted r \<longleftrightarrow> (case r of Inr x \<Rightarrow> rl_allowed x | Inl _ \<Rightarrow> False)"

text \<open>How often a run admits a request under a key.\<close>

fun admissions :: "string \<Rightarrow> timed_op list \<Rightarrow> answer list \<Rightarrow> nat" where
  "admissions k (x # xs) (a # as) =
     (if op_key (snd (snd x)) = k \<and> (case a of Limited r \<Rightarrow> admitted r | Marked _ \<Rightarrow> False) then 1 else 0) + admissions k xs as"
| "admissions k _ _ = 0"

definition counter_wf :: "(string \<times> nat option) option \<Rightarrow> bool" where
  "counter_wf x \<longleftrightarrow> x = None \<or> (\<exists>c e. 1 \<le> c \<and> x = Some (show_nat c, e))"

text \<open>
  What a counter can still admit before a given time: the rest of the current window, and a full
  window if the counter expires before.
\<close>

definition budget :: "nat \<Rightarrow> nat \<Rightarrow> (string \<times> nat option) option \<Rightarrow> nat" where
  "budget until limit x =
     (case x of
        None \<Rightarrow> limit
      | Some (v, e) \<Rightarrow> (limit - digits_value v) + (case e of None \<Rightarrow> 0 | Some d \<Rightarrow> if until \<le> d then 0 else limit))"

lemma counts_as_admitted: "counts_as c limit r \<Longrightarrow> admitted r \<Longrightarrow> c \<le> limit"
  by (auto simp: counts_as_def admitted_def split: sum.splits)

lemma not_admitted: "\<forall>x. r \<noteq> Inr x \<Longrightarrow> \<not> admitted r"
  by (auto simp: admitted_def split: sum.splits)

lemma budget_step:
  assumes ok: "store_ok R V" and w: "0 < w" "w < 2 ^ 31" and wf: "counter_wf (V s k)"
    and now: "t \<le> now" "now < t + 1000 * w" and run: "run_rate_limit R fd now s k w limit = (s', r)"
  shows "counter_wf (V s' k) \<and>
    budget (t + 1000 * w) limit (V s' k) + (if admitted r then 1 else 0) \<le> budget (t + 1000 * w) limit (V s k)"
proof (cases "live now (V s k)")
  case None
  have "limit \<le> budget (t + 1000 * w) limit (V s k)"
    using None now by (auto simp: budget_def live_def split: option.splits if_splits)
  then show ?thesis
    using limit_fresh [OF ok None w run] wf now counts_as_admitted [of 1 limit r] not_admitted [of r]
    by (auto simp: counter_wf_def budget_def)
next
  case (Some v)
  then obtain c e where v: "V s k = Some (show_nat c, e)" "1 \<le> c" "live now (V s k) = Some (show_nat c)"
    using wf by (auto simp: counter_wf_def live_def split: option.splits if_splits)
  show ?thesis
    using limit_live [OF ok v(1,3,2) w run] v(1,2) now counts_as_admitted [of "c + 1" limit r] not_admitted [of r]
    by (auto simp: counter_wf_def budget_def split: option.split)
qed

lemma exec_window:
  "op_window op = Some (w, l) \<Longrightarrow>
     exec_store R (now, fd, op) s = map_prod (\<lambda>x. x) Limited (run_rate_limit R fd now s (op_key op) w l)"
  by (cases op) (auto simp: check_and_increment_def check_ip_connection_def)

lemma admissions_le_budget:
  assumes ok: "store_ok R V" and w: "0 < w" "w < 2 ^ 31"
  shows "list_all (\<lambda>(now, fd, op). op_ok op \<and> t \<le> now \<and> now < t + 1000 * w \<and> (op_key op = k \<longrightarrow> op_window op = Some (w, limit))) xs \<Longrightarrow>
    counter_wf (V s k) \<Longrightarrow> admissions k xs (snd (run_store R xs s)) \<le> budget (t + 1000 * w) limit (V s k)"
proof (induction xs arbitrary: s)
  case (Cons x xs)
  obtain now fd op where x: "x = (now, fd, op)" by (cases x)
  let ?s = "fst (exec_store R x s)"
  show ?case
  proof (cases "op_key op = k")
    case True
    obtain s' r where r: "run_rate_limit R fd now s k w limit = (s', r)" by fastforce
    then have e: "exec_store R x s = (s', Limited r)" 
      using exec_window [of op w limit R now fd s] Cons.prems(1) True by (simp add: x)
    from budget_step [OF ok w Cons.prems(2) _ _ r, of t] Cons.prems(1)
    show ?thesis using Cons.IH [of s'] Cons.prems(1) True e by (simp add: x Let_def)
  next
    case False
    then have "V ?s k = V s k" using exec_frame [OF ok, of op k now fd s] Cons.prems(1) by (simp add: x)
    then show ?thesis using Cons.IH [of ?s] Cons.prems False by (simp add: x Let_def)
  qed
qed simp

text \<open>
  C24. A fixed-window limit admits at most twice its bound in any span of one window, whatever other
  keys are used and whatever fails: the worst case is a burst on each side of an expiry.
\<close>

theorem limit_twice_per_window:
  assumes "store_ok R V" "0 < w" "w < 2 ^ 31" "counter_wf (V s k)"
    "list_all (\<lambda>(now, fd, op). op_ok op \<and> t \<le> now \<and> now < t + 1000 * w \<and> (op_key op = k \<longrightarrow> op_window op = Some (w, limit))) xs"
  shows "admissions k xs (snd (run_store R xs s)) \<le> 2 * limit"
proof -
  have "budget (t + 1000 * w) limit (V s k) \<le> 2 * limit" by (auto simp: budget_def split: option.split)
  then show ?thesis using admissions_le_budget [OF assms(1-3,5,4)] by linarith
qed

definition sample_tenant :: TenantContext where "sample_tenant = resolved ''c1'' ''a.b''"

definition sample_checks :: "timed_op list" where
  "sample_checks = map (\<lambda>t. (t, all_fine, Limit sample_tenant ''p'' ApiCalls 60 1)) [59000, 60000, 61000]"

definition sample_counter :: "string \<Rightarrow> (string \<times> nat option) option" where
  "sample_counter = [rate_limit_key sample_tenant ''p'' ApiCalls \<mapsto> (show_nat 1, Some 59500)]"

theorem limit_twice_per_window_witness:
  "admissions (rate_limit_key sample_tenant ''p'' ApiCalls) sample_checks
     (snd (run_store sample_cmds sample_checks sample_counter)) \<le> 2 * 1"
  by (rule limit_twice_per_window [OF sample_store, where w = 60 and t = 10000])
     (auto simp: sample_counter_def counter_wf_def sample_checks_def plain_def sample_tenant_def resolved_def)

lemma fine_answers: "\<exists>x. snd (run_rate_limit R all_fine now s k w limit) = Inr x"
  by (simp add: run_rate_limit_def all_fine_def Let_def)

lemma window_from:
  assumes ok: "store_ok R V" and op: "op_window op = Some (w, limit)" and w: "0 < w" "w < 2 ^ 31"
  shows "list_all (\<lambda>now. now < d) ts \<Longrightarrow> V s (op_key op) = Some (show_nat c, Some d) \<Longrightarrow> 1 \<le> c \<Longrightarrow> i < length ts \<Longrightarrow>
    \<exists>x. snd (run_store R (map (\<lambda>now. (now, all_fine, op)) ts) s) ! i = Limited (Inr x) \<and>
      rl_current x = c + i + 1 \<and> (rl_allowed x \<longleftrightarrow> c + i + 1 \<le> limit)"
proof (induction ts arbitrary: s c i)
  case (Cons now ts)
  obtain s' r where r: "run_rate_limit R all_fine now s (op_key op) w limit = (s', r)" by fastforce
  then have e: "exec_store R (now, all_fine, op) s = (s', Limited r)" using exec_window [OF op, of R now all_fine s] by simp
  obtain x where x: "r = Inr x" using fine_answers [of R now s "op_key op" w limit] r by auto
  have "live now (V s (op_key op)) = Some (show_nat c)" using Cons.prems(1,2) by (simp add: live_def)
  from limit_live [OF ok Cons.prems(2) this Cons.prems(3) w r] x
  have n: "V s' (op_key op) = Some (show_nat (c + 1), Some d)" "counts_as (c + 1) limit r" by auto
  show ?case
  proof (cases i)
    case 0
    then show ?thesis using n(2) x e by (simp add: counts_as_def Let_def)
  next
    case (Suc j)
    then show ?thesis using Cons.IH [of s' "c + 1" j] Cons.prems n(1) e by (simp add: Let_def)
  qed
qed simp

text \<open>
  Within one window the limit is exact: from a key without a counter, as long as nothing fails, the
  requests of the window are numbered from one and exactly the first \<open>limit\<close> of them are admitted.
\<close>

theorem limit_exact_in_window:
  assumes "store_ok R V" "op_window op = Some (w, limit)" "0 < w" "w < 2 ^ 31" "live t (V s (op_key op)) = None"
    "list_all (\<lambda>now. now < t + 1000 * w) ts" "i < length (t # ts)"
  shows "\<exists>x. snd (run_store R (map (\<lambda>now. (now, all_fine, op)) (t # ts)) s) ! i = Limited (Inr x) \<and>
    rl_current x = i + 1 \<and> (rl_allowed x \<longleftrightarrow> i < limit)"
proof -
  obtain s' r where r: "run_rate_limit R all_fine t s (op_key op) w limit = (s', r)" by fastforce
  then have e: "exec_store R (t, all_fine, op) s = (s', Limited r)" using exec_window [OF assms(2), of R t all_fine s] by simp
  obtain x where x: "r = Inr x" using fine_answers [of R t s "op_key op" w limit] r by auto
  from limit_fresh [OF assms(1,5,3,4) r] x
  have n: "V s' (op_key op) = Some (show_nat 1, Some (t + 1000 * w))" "counts_as 1 limit r" by auto
  show ?thesis
  proof (cases i)
    case 0
    then show ?thesis using n(2) x e by (auto simp: counts_as_def Let_def)
  next
    case (Suc j)
    then show ?thesis
      using window_from [OF assms(1-4,6) n(1), of j] assms(7) e by (auto simp: Let_def less_eq_Suc_le)
  qed
qed

theorem limit_exact_in_window_witness:
  "\<exists>x. snd (run_store sample_cmds (map (\<lambda>now. (now, all_fine, IpLimit ''::1'' 60 1)) [0, 1000]) (\<lambda>_. None)) ! 1 = Limited (Inr x) \<and>
     rl_current x = 1 + 1 \<and> (rl_allowed x \<longleftrightarrow> 1 < (1::nat))"
  by (rule limit_exact_in_window [OF sample_store, where w = 60]) (simp_all add: live_def)

text \<open>
  Quotas are independent: checking a limit for another community, another key or another kind of
  operation leaves the counter as it is, and so does marking an event.
\<close>

theorem quotas_independent:
  assumes "store_ok R V" "op_ok op" "plain (tc_community ctx)" "plain pubkey"
    "\<forall>w l c. op = Limit c pubkey ty w l \<longrightarrow> tc_community c \<noteq> tc_community ctx"
  shows "V (fst (exec_store R (now, fd, op) s)) (rate_limit_key ctx pubkey ty) = V s (rate_limit_key ctx pubkey ty)"
proof (rule exec_frame [OF assms(1,2)])
  show "rate_limit_key ctx pubkey ty \<noteq> op_key op"
  proof (cases op)
    case (Mark scope eid ttl)
    then show ?thesis using mark_key_parts [of scope eid] limit_key_parts [OF assms(3,4), of ty] assms(2) by auto
  next
    case (Limit c p ty' w l)
    then show ?thesis using limit_key_inj [OF assms(3,4), of c p ty ty'] assms(2,5) by auto
  next
    case (IpLimit ip w l)
    then show ?thesis using ip_key_parts [of ip] limit_key_parts [OF assms(3,4), of ty] by auto
  qed
qed

theorem quotas_independent_witness:
  "(fst (exec_store sample_cmds (0, all_fine, Limit (resolved ''c2'' ''x.y'') ''p'' ApiCalls 60 1) sample_counter))
     (rate_limit_key sample_tenant ''p'' ApiCalls) = sample_counter (rate_limit_key sample_tenant ''p'' ApiCalls)"
  by (rule quotas_independent [OF sample_store]) (auto simp: plain_def sample_tenant_def resolved_def)

text \<open>
  Errors fail closed: when Redis cannot be asked, neither a request nor a message is admitted, the
  client is told that admission is unavailable, and an event id is not accepted.
\<close>

theorem store_errors_fail_closed:
  assumes "sf_pool fd = Some e \<or> sf_main fd = Broken e a"
  shows "snd (check_nip98_replay R fd now s tenant eid) =
       (if eid = ZERO_ID then Inr () else Inl (UNAUTHORIZED, ''NIP-98: replay check unavailable'')) \<and>
     snd (check_operator_replay R fd now s eid) = Inl (UNAUTHORIZED, ''NIP-98: replay check unavailable'') \<and>
     snd (enforce_http_admission R fd now s limits tenant pk) =
       Inl (SERVICE_UNAVAILABLE, ''rate-limited: shared admission unavailable'') \<and>
     snd (enforce_ws_admission R (fd, fd2) whens s limits tenant (Authenticated ctx) (ClientEvent ev)) =
       ([Notice ''rate-limited: shared admission unavailable''], False)"
proof -
  have m: "\<exists>e. snd (try_mark_in_scope R fd now s scope eid ttl) = Inl e" for scope ttl
    using assms by (auto simp: try_mark_in_scope_def Let_def split: option.split)
  have l: "\<exists>e. snd (run_rate_limit R fd n s k w limit) = Inl e" for n k w limit
    using assms by (auto simp: run_rate_limit_def Let_def split: option.split)
  have c: "snd (check_principal R fd n s tenant p ty w limit) = Inl Unavailable" for n p ty w limit
    using l [of n "rate_limit_key tenant p ty" w limit] by (auto simp: check_principal_def check_and_increment_def Let_def)
  have "snd (check_nip98_replay R fd now s tenant eid) =
      (if eid = ZERO_ID then Inr () else Inl (UNAUTHORIZED, ''NIP-98: replay check unavailable''))"
    using m [of "tc_community tenant" DEFAULT_REPLAY_TTL_SECS]
    by (auto simp: check_nip98_replay_def try_mark_def replay_answer_def Let_def)
  moreover have "snd (check_operator_replay R fd now s eid) = Inl (UNAUTHORIZED, ''NIP-98: replay check unavailable'')"
    using m [of OPERATOR_REPLAY_SCOPE DEFAULT_REPLAY_TTL_SECS] by (auto simp: check_operator_replay_def replay_answer_def Let_def)
  moreover have "snd (enforce_http_admission R fd now s limits tenant pk) =
      Inl (SERVICE_UNAVAILABLE, ''rate-limited: shared admission unavailable'')"
    by (simp add: enforce_http_admission_def c Let_def)
  moreover have "snd (enforce_ws_admission R (fd, fd2) whens s limits tenant (Authenticated ctx) (ClientEvent ev)) =
      ([Notice ''rate-limited: shared admission unavailable''], False)"
    by (simp add: enforce_ws_admission_def c send_admission_result_def request_rejection_message_def ws_admission_budget_def Let_def)
  ultimately show ?thesis by blast
qed

theorem store_errors_fail_closed_witness:
  "snd (enforce_http_admission sample_cmds (all_fine\<lparr>sf_pool := Some ''down''\<rparr>) 0 (\<lambda>_. None) RateLimitConfig_default
     sample_tenant ''p'') = Inl (SERVICE_UNAVAILABLE, ''rate-limited: shared admission unavailable'')"
proof -
  have "sf_pool (all_fine\<lparr>sf_pool := Some ''down''\<rparr>) = Some ''down''" by simp
  then show ?thesis by (intro store_errors_fail_closed [THEN conjunct2, THEN conjunct2, THEN conjunct1]) blast
qed

end
