(* ===== verification/Workflow_Schema.thy ===== *)
theory Workflow_Schema
  imports Tenant_Host
begin

text \<open>
  Workflow definitions: \<open>crates/buzz-workflow/src/error.rs\<close> and \<open>schema.rs\<close>, and the durations of
  \<open>executor.rs\<close>. The YAML reader, the JSON writer and the cron schedules are other crates' code and
  fields of the record \<open>wf_env\<close>; times are nanoseconds since the epoch.
\<close>

subsection \<open>Errors\<close>

datatype WorkflowError =
    InvalidYaml string
  | InvalidDefinition string
  | ConditionError string
  | TemplateError string
  | StepTimeout string nat
  | WebhookError string
  | CapacityExceeded
  | DatabaseError string
  | Unauthorized string
  | NotImplemented string

primrec WorkflowError_code :: "WorkflowError \<Rightarrow> string" where
  "WorkflowError_code (InvalidYaml _) = ''invalid_yaml''"
| "WorkflowError_code (InvalidDefinition _) = ''invalid_definition''"
| "WorkflowError_code (ConditionError _) = ''condition_evaluation_failed''"
| "WorkflowError_code (TemplateError _) = ''template_resolution_failed''"
| "WorkflowError_code (StepTimeout _ _) = ''step_timeout''"
| "WorkflowError_code (WebhookError _) = ''webhook_failed''"
| "WorkflowError_code CapacityExceeded = ''capacity_exceeded''"
| "WorkflowError_code (DatabaseError _) = ''database_error''"
| "WorkflowError_code (Unauthorized _) = ''owner_unauthorized''"
| "WorkflowError_code (NotImplemented _) = ''action_not_implemented''"

primrec WorkflowError_text :: "WorkflowError \<Rightarrow> string" where
  "WorkflowError_text (InvalidYaml e) = ''invalid YAML: '' @ e"
| "WorkflowError_text (InvalidDefinition m) = ''invalid definition: '' @ m"
| "WorkflowError_text (ConditionError m) = ''condition evaluation error: '' @ m"
| "WorkflowError_text (TemplateError m) = ''template error: '' @ m"
| "WorkflowError_text (StepTimeout i t) = ''step '' @ [CHR 0x27] @ i @ [CHR 0x27] @ '' timed out after '' @ show_nat t @ ''s''"
| "WorkflowError_text (WebhookError m) = ''webhook error: '' @ m"
| "WorkflowError_text CapacityExceeded = ''capacity exceeded''"
| "WorkflowError_text (DatabaseError m) = ''database error: '' @ m"
| "WorkflowError_text (Unauthorized m) = ''unauthorized: '' @ m"
| "WorkflowError_text (NotImplemented m) = ''action not implemented: '' @ m"

subsection \<open>Definitions\<close>

datatype TriggerDef =
    MessagePosted "string option"
  | ReactionAdded "string option" "string option"
  | DiffPosted "string option"
  | Schedule "string option" "string option"
  | Webhook

datatype ActionDef =
    SendMessage string "string option"
  | SendDm string string
  | SetChannelTopic string
  | AddReaction string
  | CallWebhook string "string option" "(string, string) hmap option" "string option"
  | RequestApproval string string "string option"
  | Delay string

record Step =
  step_id :: string
  step_name :: "string option"
  step_if :: "string option"
  step_timeout :: "nat option"
  step_action :: ActionDef

record WorkflowDef =
  wd_name :: string
  wd_description :: "string option"
  wd_trigger :: TriggerDef
  wd_steps :: "Step list"
  wd_enabled :: bool

definition requires_elevated_authority :: "WorkflowDef \<Rightarrow> bool" where
  "requires_elevated_authority self =
     list_ex (\<lambda>s. case step_action s of CallWebhook _ _ _ _ \<Rightarrow> True | _ \<Rightarrow> False) (wd_steps self)"

text \<open>The cron type \<open>'c\<close>: parsing, and the first instant of a schedule after a time.\<close>

record 'c wf_env =
  wx_yaml :: "string \<Rightarrow> (WorkflowDef, string) rust_result"
  wx_json :: "WorkflowDef \<Rightarrow> (string, string) rust_result"
  wx_cron_parse :: "string \<Rightarrow> ('c, string) rust_result"
  wx_cron_next :: "'c \<Rightarrow> int \<Rightarrow> int option"

subsection \<open>Durations\<close>

definition parse_u64_text :: "string \<Rightarrow> nat option" where
  "parse_u64_text s = parse_uint (2 ^ 64) s"

text \<open>\<open>checked_mul\<close>.\<close>

definition checked_mul :: "nat \<Rightarrow> nat \<Rightarrow> nat option" where
  "checked_mul a b = (if a * b < 2 ^ 64 then Some (a * b) else None)"

definition parse_duration_secs :: "string \<Rightarrow> (nat, WorkflowError) rust_result" where
  "parse_duration_secs raw =
     (let duration = trim raw;
          invalid = Inl (InvalidDefinition (''invalid duration: '' @ duration));
          overflow = Inl (InvalidDefinition (''duration overflow: '' @ duration))
      in case strip_suffix ''h'' duration of
           Some n \<Rightarrow> (case parse_u64_text (trim n) of
               None \<Rightarrow> invalid
             | Some hours \<Rightarrow> (case checked_mul hours 3600 of None \<Rightarrow> overflow | Some x \<Rightarrow> Inr x))
         | None \<Rightarrow>
         (case strip_suffix ''m'' duration of
            Some n \<Rightarrow> (case parse_u64_text (trim n) of
                None \<Rightarrow> invalid
              | Some mins \<Rightarrow> (case checked_mul mins 60 of None \<Rightarrow> overflow | Some x \<Rightarrow> Inr x))
          | None \<Rightarrow>
          (case strip_suffix ''s'' duration of
             Some n \<Rightarrow> (case parse_u64_text (trim n) of None \<Rightarrow> invalid | Some secs \<Rightarrow> Inr secs)
           | None \<Rightarrow> (case parse_u64_text duration of None \<Rightarrow> invalid | Some secs \<Rightarrow> Inr secs))))"

subsection \<open>Schedules\<close>

text \<open>\<open>split_whitespace().count()\<close>.\<close>

fun drop_word :: "string \<Rightarrow> string" where
  "drop_word [] = []"
| "drop_word (c # cs) = (if 0 < leading_ws (c # cs) then c # cs else drop_word cs)"

lemma drop_word_shorter: "length (drop_word s) \<le> length s"
  by (induction s) (auto intro: le_SucI)

lemma trim_start_shorter: "length (trim_start_bytes s) \<le> length s"
proof (induction s rule: trim_start_bytes.induct)
  case (1 s)
  then show ?case by (subst trim_start_bytes.simps) (fastforce intro: order_trans)
qed

lemma trim_start_no_ws: "trim_start_bytes s = c # cs \<Longrightarrow> leading_ws (c # cs) = 0"
proof (induction s rule: trim_start_bytes.induct)
  case (1 s)
  then show ?case by (subst (asm) (2) trim_start_bytes.simps) (auto split: if_splits)
qed

function count_fields :: "string \<Rightarrow> nat" where
  "count_fields s = (case trim_start_bytes s of [] \<Rightarrow> 0 | c # cs \<Rightarrow> 1 + count_fields (drop_word cs))"
  by auto
termination
proof (relation "measure length", simp)
  fix s c cs assume "trim_start_bytes s = c # cs"
  then show "(drop_word cs, s) \<in> measure length"
    using trim_start_shorter [of s] drop_word_shorter [of cs] by simp
qed

declare count_fields.simps [simp del]

definition normalize_cron :: "string \<Rightarrow> string" where
  "normalize_cron expr =
     (let field_count = count_fields expr in
      if field_count = 5 then ''0 '' @ expr @ '' *''
      else if field_count = 6 then expr @ '' *''
      else expr)"

definition quoted :: "string \<Rightarrow> string" where
  "quoted s = [CHR 0x27] @ s @ [CHR 0x27]"

definition validate_cron :: "'c wf_env \<Rightarrow> string \<Rightarrow> (unit, WorkflowError) rust_result" where
  "validate_cron X expr =
     (case wx_cron_parse X (normalize_cron expr) of
        Inl e \<Rightarrow> Inl (InvalidDefinition (''invalid cron expression '' @ quoted expr @ '': '' @ e))
      | Inr _ \<Rightarrow> Inr ())"

subsection \<open>Validation\<close>

definition ascii_alphanumeric :: "char \<Rightarrow> bool" where
  "ascii_alphanumeric c \<longleftrightarrow> is_digit c \<or> 65 \<le> (of_char c :: nat) \<and> (of_char c :: nat) \<le> 90 \<or>
     97 \<le> (of_char c :: nat) \<and> (of_char c :: nat) \<le> 122"

definition valid_step_id :: "string \<Rightarrow> bool" where
  "valid_step_id id' \<longleftrightarrow> id' \<noteq> [] \<and> length id' \<le> 64 \<and> list_all (\<lambda>c. ascii_alphanumeric c \<or> c = CHR ''_'') id'"

fun validate_steps :: "string set \<Rightarrow> Step list \<Rightarrow> (unit, WorkflowError) rust_result" where
  "validate_steps seen [] = Inr ()"
| "validate_steps seen (step # steps) =
     (if trim (step_id step) = [] then Inl (InvalidDefinition ''step id must not be empty'')
      else if \<not> valid_step_id (step_id step)
      then Inl (InvalidDefinition (''step id '' @ quoted (step_id step) @
             '' is invalid: must contain only alphanumeric characters and underscores''))
      else if step_id step \<in> seen then Inl (InvalidDefinition (''duplicate step id: '' @ step_id step))
      else validate_steps (insert (step_id step) seen) steps)"

definition validate_trigger :: "'c wf_env \<Rightarrow> TriggerDef \<Rightarrow> (unit, WorkflowError) rust_result" where
  "validate_trigger X trigger =
     (case trigger of
        Schedule cron interval \<Rightarrow>
          if cron = None \<and> interval = None
          then Inl (InvalidDefinition (''schedule trigger requires either '' @ quoted ''cron'' @ '' or '' @ quoted ''interval''))
          else if cron \<noteq> None \<and> interval \<noteq> None
          then Inl (InvalidDefinition (''schedule trigger cannot specify both '' @ quoted ''cron'' @ '' and '' @
                 quoted ''interval'' @ ''; use one or the other''))
          else (case (case cron of Some expr \<Rightarrow> validate_cron X expr | None \<Rightarrow> Inr ()) of
              Inl e \<Rightarrow> Inl e
            | Inr _ \<Rightarrow>
               (case interval of
                  None \<Rightarrow> Inr ()
                | Some dur \<Rightarrow>
                   (case parse_duration_secs dur of
                      Inl _ \<Rightarrow> Inl (InvalidDefinition (''invalid interval '' @ quoted dur @ '': expected a duration like '' @
                          quoted ''30m'' @ '', '' @ quoted ''1h'' @ '', or '' @ quoted ''60s''))
                    | Inr secs \<Rightarrow>
                        if secs < 60
                        then Inl (InvalidDefinition ''interval must be at least 60s (cron loop ticks every 60 seconds)'')
                        else Inr ())))
      | _ \<Rightarrow> Inr ())"

definition validate :: "'c wf_env \<Rightarrow> WorkflowDef \<Rightarrow> (unit, WorkflowError) rust_result" where
  "validate X self =
     (if trim (wd_name self) = [] then Inl (InvalidDefinition ''name is required and must not be empty'')
      else if wd_steps self = [] then Inl (InvalidDefinition ''at least one step is required'')
      else case validate_steps {} (wd_steps self) of
          Inl e \<Rightarrow> Inl e
        | Inr _ \<Rightarrow> validate_trigger X (wd_trigger self))"

definition parse_yaml :: "'c wf_env \<Rightarrow> string \<Rightarrow> (WorkflowDef \<times> string, WorkflowError) rust_result" where
  "parse_yaml X yaml =
     (case wx_yaml X yaml of
        Inl e \<Rightarrow> Inl (InvalidYaml e)
      | Inr def \<Rightarrow>
         (case validate X def of
            Inl e \<Rightarrow> Inl e
          | Inr _ \<Rightarrow>
             (case wx_json X def of
                Inl e \<Rightarrow> Inl (InvalidDefinition e)
              | Inr json \<Rightarrow> Inr (def, json))))"

subsection \<open>What validation accepts\<close>

lemma word_char_no_ws:
  assumes "ascii_alphanumeric c \<or> c = CHR ''_''"
  shows "c \<notin> ws_first" "c \<notin> ws_last"
  using assms
  by (auto simp: ws_first_def ws_last_def whitespace_encodings_def ascii_whitespace_def other_whitespace_def
      ascii_alphanumeric_def is_digit_def)

lemma trim_word: "s \<noteq> [] \<Longrightarrow> list_all (\<lambda>c. ascii_alphanumeric c \<or> c = CHR ''_'') s \<Longrightarrow> trim s = s"
  by (intro trim_id) (auto simp: list_all_iff intro!: word_char_no_ws)

lemma validate_steps_ok:
  "validate_steps seen steps = Inr u \<longleftrightarrow>
     list_all (\<lambda>s. valid_step_id (step_id s)) steps \<and> distinct (map step_id steps) \<and> step_id ` set steps \<inter> seen = {}"
proof (induction seen steps rule: validate_steps.induct)
  case (2 seen step steps)
  show ?case
  proof (cases "valid_step_id (step_id step)")
    case True
    then have "trim (step_id step) = step_id step" "step_id step \<noteq> []"
      using trim_word [of "step_id step"] by (auto simp: valid_step_id_def)
    then show ?thesis using True 2 by auto
  qed simp
qed simp

text \<open>
  Validation accepts exactly the well-formed definitions: a name and at least one step, step ids that
  are words of at most 64 characters and pairwise different, and for a schedule either a cron
  expression that parses or an interval of at least a minute. Every accepted definition can
  therefore be scheduled by the loop that ticks once a minute, and its step ids name its outputs.
\<close>

theorem validate_exact:
  "validate X def = Inr () \<longleftrightarrow>
     trim (wd_name def) \<noteq> [] \<and> wd_steps def \<noteq> [] \<and>
     list_all (\<lambda>s. valid_step_id (step_id s)) (wd_steps def) \<and> distinct (map step_id (wd_steps def)) \<and>
     (case wd_trigger def of
        Schedule (Some expr) None \<Rightarrow> (\<exists>sched. wx_cron_parse X (normalize_cron expr) = Inr sched)
      | Schedule None (Some dur) \<Rightarrow> (\<exists>secs. parse_duration_secs dur = Inr secs \<and> 60 \<le> secs)
      | Schedule _ _ \<Rightarrow> False
      | _ \<Rightarrow> True)"
proof -
  have "validate_trigger X t = Inr () \<longleftrightarrow>
     (case t of
        Schedule (Some expr) None \<Rightarrow> (\<exists>sched. wx_cron_parse X (normalize_cron expr) = Inr sched)
      | Schedule None (Some dur) \<Rightarrow> (\<exists>secs. parse_duration_secs dur = Inr secs \<and> 60 \<le> secs)
      | Schedule _ _ \<Rightarrow> False
      | _ \<Rightarrow> True)" for t
    by (cases t) (auto simp: validate_trigger_def validate_cron_def split: option.split sum.split)
  moreover have "validate X def = Inr () \<longleftrightarrow> trim (wd_name def) \<noteq> [] \<and> wd_steps def \<noteq> [] \<and>
      validate_steps {} (wd_steps def) = Inr () \<and> validate_trigger X (wd_trigger def) = Inr ()"
    by (auto simp: validate_def split: sum.split)
  ultimately show ?thesis by (simp add: validate_steps_ok)
qed

subsection \<open>Durations in units\<close>

lemma digits_word: "list_all is_digit s \<Longrightarrow> list_all (\<lambda>c. ascii_alphanumeric c \<or> c = CHR ''_'') s"
  by (auto simp: list_all_iff ascii_alphanumeric_def)

lemma show_nat_last: "is_digit (last (show_nat n))"
  using show_nat_digits [of n] by (auto simp: list_all_iff)

lemma strip_unit: "strip_suffix [u] (s @ [c]) = (if u = c then Some s else None)"
  by (rule strip_suffix_single)

lemma strip_unit_digits: "\<not> is_digit u \<Longrightarrow> strip_suffix [u] (show_nat n) = None"
  using show_nat_last [of n] strip_suffix_single [of u "butlast (show_nat n)" "last (show_nat n)"] by auto

lemma parse_u64_show: "parse_u64_text (trim (show_nat n)) = (if n < 2 ^ 64 then Some n else None)"
proof -
  have t: "trim (show_nat n) = show_nat n" using show_nat_digits [of n] digits_word by (intro trim_word) auto
  have "hd (show_nat n) \<noteq> CHR ''+''"
    using show_nat_digits [of n] by (cases "show_nat n") (auto simp: is_digit_def)
  then have "(case show_nat n of c # t \<Rightarrow> if c = CHR ''+'' then t else show_nat n | [] \<Rightarrow> show_nat n) = show_nat n"
    by (cases "show_nat n") auto
  then have "parse_uint (2 ^ 64) (show_nat n) = None" if "\<not> n < 2 ^ 64"
    using that show_nat_digits [of n] by (simp add: parse_uint_def)
  then show ?thesis using parse_show_nat [of n "2 ^ 64"] by (auto simp: t parse_u64_text_def)
qed

text \<open>
  A number followed by a unit is that many seconds, minutes or hours; the result fits 64 bits, and a
  duration that does not fit is refused instead of wrapping around.
\<close>

theorem duration_units:
  assumes "(unit, factor) \<in> {(''h'', 3600), (''m'', 60), (''s'', 1), ([], 1)}"
  shows "parse_duration_secs (show_nat n @ unit) = Inr (n * factor) \<and> n * factor < 2 ^ 64 \<or>
    (\<exists>m. parse_duration_secs (show_nat n @ unit) = Inl (InvalidDefinition m)) \<and> 2 ^ 64 \<le> n * factor"
proof -
  have t: "trim (show_nat n @ u) = show_nat n @ u" if "u \<in> {''h'', ''m'', ''s'', []}" for u
    using show_nat_digits [of n] that digits_word [of "show_nat n"] by (intro trim_word) (auto simp: ascii_alphanumeric_def)
  have d: "\<not> is_digit CHR ''h''" "\<not> is_digit CHR ''m''" "\<not> is_digit CHR ''s''" by (simp_all add: is_digit_def)
  note s = strip_unit_digits [OF d(1), of n] strip_unit_digits [OF d(2), of n] strip_unit_digits [OF d(3), of n]
  have plain: "parse_u64_text (show_nat n) = (if n < 2 ^ 64 then Some n else None)"
    using parse_u64_show [of n] t [of "[]"] by simp
  consider "unit = ''h'' \<and> factor = 3600" | "unit = ''m'' \<and> factor = 60" | "unit = ''s'' \<and> factor = 1" | "unit = [] \<and> factor = 1"
    using assms by auto
  then show ?thesis
  proof cases
    case 1
    then show ?thesis using t [of "''h''"]
      by (auto simp: parse_duration_secs_def Let_def strip_unit parse_u64_show checked_mul_def)
  next
    case 2
    then show ?thesis using t [of "''m''"]
      by (auto simp: parse_duration_secs_def Let_def strip_unit parse_u64_show checked_mul_def)
  next
    case 3
    then show ?thesis using t [of "''s''"]
      by (auto simp: parse_duration_secs_def Let_def strip_unit parse_u64_show)
  next
    case 4
    then show ?thesis using t [of "[]"] s plain by (auto simp: parse_duration_secs_def Let_def)
  qed
qed

theorem duration_units_witness:
  "parse_duration_secs (show_nat 2 @ ''h'') = Inr 7200"
  using duration_units [of "''h''" 3600 2] by auto

end
