(* ===== verification/Workflow_Template.thy ===== *)
theory Workflow_Template
  imports Workflow_Schema
begin

text \<open>
  Template substitution and conditions of workflow steps: the first half of
  \<open>crates/buzz-workflow/src/executor.rs\<close>. The text of JSON numbers and containers, the reading of
  numbers, public keys with their bech32 text, and the expression evaluator \<open>evalexpr\<close> with its
  context type are other crates' code and fields of records. Whether an evaluation ends in time is
  part of what the evaluator answers.
\<close>

subsection \<open>Text\<close>

text \<open>\<open>str::find\<close> of a pattern.\<close>

fun find_sub :: "string \<Rightarrow> string \<Rightarrow> nat option" where
  "find_sub p [] = (if p = [] then Some 0 else None)"
| "find_sub p (c # cs) = (if starts_with (c # cs) p then Some 0 else map_option Suc (find_sub p cs))"

text \<open>\<open>chars().take(n)\<close> of UTF-8 text: a character is a byte with the continuation bytes after it.\<close>

definition is_cont :: "char \<Rightarrow> bool" where
  "is_cont c \<longleftrightarrow> 128 \<le> (of_char c :: nat) \<and> (of_char c :: nat) \<le> 191"

function take_chars :: "nat \<Rightarrow> string \<Rightarrow> string" where
  "take_chars n [] = []"
| "take_chars n (c # cs) =
     (if n = 0 then [] else c # takeWhile is_cont cs @ take_chars (n - 1) (dropWhile is_cont cs))"
  by pat_completeness auto
termination by (relation "measure fst") auto

definition and_then :: "('a, 'e) rust_result \<Rightarrow> ('a \<Rightarrow> ('b, 'e) rust_result) \<Rightarrow> ('b, 'e) rust_result" where
  "and_then r f = (case r of Inl e \<Rightarrow> Inl e | Inr x \<Rightarrow> f x)"

lemma and_then_simps [simp]: "and_then (Inl e) f = Inl e" "and_then (Inr x) f = f x"
  by (simp_all add: and_then_def)

subsection \<open>Trigger context\<close>

record TriggerContext =
  tg_text :: string
  tg_author :: string
  tg_channel_id :: string
  tg_timestamp :: string
  tg_emoji :: string
  tg_message_id :: string
  tg_webhook_fields :: "(string, string) hmap"

definition get_field :: "TriggerContext \<Rightarrow> string \<Rightarrow> string option" where
  "get_field self name =
     (if name = ''text'' then Some (tg_text self)
      else if name = ''author'' then Some (tg_author self)
      else if name = ''channel_id'' then Some (tg_channel_id self)
      else if name = ''timestamp'' then Some (tg_timestamp self)
      else if name = ''emoji'' then Some (tg_emoji self)
      else if name = ''message_id'' then Some (tg_message_id self)
      else hm_get (tg_webhook_fields self) name)"

subsection \<open>Templates\<close>

type_synonym step_outputs = "(string, json) hmap"

record text_env =
  te_json_text :: "json \<Rightarrow> string"
  te_pubkey :: "string \<Rightarrow> hex option"
  te_bech32 :: "hex \<Rightarrow> string option"
  te_as_i64 :: "string \<Rightarrow> int option"
  te_as_f64 :: "string \<Rightarrow> string option"

text \<open>A number prints as its token.\<close>

fun json_to_string :: "text_env \<Rightarrow> json \<Rightarrow> string" where
  "json_to_string T (JString s) = s"
| "json_to_string T (JBool b) = (if b then ''true'' else ''false'')"
| "json_to_string T (JNumber n) = n"
| "json_to_string T JNull = []"
| "json_to_string T other = te_json_text T other"

definition json_get_str :: "text_env \<Rightarrow> json \<Rightarrow> string \<Rightarrow> string option" where
  "json_get_str T v key = (case v of JObject m \<Rightarrow> map_option (json_to_string T) (map_of m key) | _ \<Rightarrow> None)"

definition resolve_variable :: "text_env \<Rightarrow> TriggerContext \<Rightarrow> step_outputs \<Rightarrow> string \<Rightarrow> string option" where
  "resolve_variable T trigger_ctx step_outputs path =
     (case strip_prefix ''trigger.'' path of
        Some field \<Rightarrow> get_field trigger_ctx field
      | None \<Rightarrow>
         (case strip_prefix ''steps.'' path of
            Some rest \<Rightarrow>
             (case split_once CHR ''.'' rest of
                None \<Rightarrow> None
              | Some (sid, rest2) \<Rightarrow>
                 (case split_once CHR ''.'' rest2 of
                    None \<Rightarrow> None
                  | Some (middle, field) \<Rightarrow>
                      if middle \<noteq> ''output'' then None
                      else (case hm_get step_outputs sid of
                          None \<Rightarrow> None
                        | Some out \<Rightarrow> json_get_str T out field)))
          | None \<Rightarrow> None))"

definition apply_filter :: "text_env \<Rightarrow> string \<Rightarrow> string \<Rightarrow> (string, WorkflowError) rust_result" where
  "apply_filter T v raw =
     (let filter' = trim raw in
      case (case strip_prefix ''truncate('' filter' of Some s \<Rightarrow> strip_suffix '')'' s | None \<Rightarrow> None) of
        Some inner \<Rightarrow>
          (case parse_uint (2 ^ 64) (trim inner) of
             None \<Rightarrow> Inl (TemplateError (''truncate() requires a number, got: '' @ inner))
           | Some n \<Rightarrow> Inr (take_chars n v))
      | None \<Rightarrow>
          if filter' = ''npub'' \<or> filter' = ''truncate_pubkey''
          then (case te_pubkey T v of
              Some pk \<Rightarrow> Inr (case te_bech32 T pk of Some b \<Rightarrow> b | None \<Rightarrow> v)
            | None \<Rightarrow> Inr v)
          else Inl (TemplateError (''unknown filter: '' @ filter')))"

text \<open>
  The two parts of the text between the braces, and what it is replaced by; a variable that is not
  known is put back.
\<close>

definition split_filter :: "string \<Rightarrow> string \<times> string option" where
  "split_filter expr =
     (case split_once CHR ''|'' expr of
        None \<Rightarrow> (trim expr, None)
      | Some (v, f) \<Rightarrow> (trim v, Some (trim f)))"

definition hole_value ::
    "text_env \<Rightarrow> TriggerContext \<Rightarrow> step_outputs \<Rightarrow> string \<Rightarrow> (string, WorkflowError) rust_result" where
  "hole_value T trigger_ctx step_outputs expr =
     (let (var_path, flt) = split_filter expr in
      case (resolve_variable T trigger_ctx step_outputs var_path, flt) of
        (Some v, Some f) \<Rightarrow> apply_filter T v f
      | (Some v, None) \<Rightarrow> Inr v
      | (None, _) \<Rightarrow> Inr (''{{'' @ expr @ ''}}''))"

lemma find_sub_bound: "find_sub p s = Some i \<Longrightarrow> i + length p \<le> length s"
proof (induction p s arbitrary: i rule: find_sub.induct)
  case (2 p c cs)
  then show ?case by (auto simp: starts_with_append dest: arg_cong [where f = length] split: if_splits)
qed (simp split: if_splits)

function resolve_loop ::
    "text_env \<Rightarrow> TriggerContext \<Rightarrow> step_outputs \<Rightarrow> string \<Rightarrow> string \<Rightarrow> (string, WorkflowError) rust_result" where
  "resolve_loop T C O' result remaining =
     (case find_sub ''{{'' remaining of
        None \<Rightarrow> Inr (result @ remaining)
      | Some start \<Rightarrow>
          let result = result @ take start remaining; remaining = drop (start + 2) remaining in
          (case find_sub ''}}'' remaining of
             None \<Rightarrow> Inr (result @ ''{{'' @ remaining)
           | Some e \<Rightarrow>
               let expr = trim (take e remaining); remaining = drop (e + 2) remaining in
               (case hole_value T C O' expr of
                  Inl err \<Rightarrow> Inl err
                | Inr v \<Rightarrow> resolve_loop T C O' (result @ v) remaining)))"
  by auto
termination
proof (relation "measure (\<lambda>(_, _, _, _, remaining). length remaining)", simp)
  fix T C O' result remaining start x xa e xb xc v
  assume "find_sub ''{{'' remaining = Some start" "xa = drop (start + 2) remaining" "xc = drop (e + 2) xa"
  then show "((T, C, O', x @ v, xc), T, C, O', result, remaining) \<in> measure (\<lambda>(_, _, _, _, remaining). length remaining)"
    using find_sub_bound [of "''{{''" remaining start] by simp
qed

declare resolve_loop.simps [simp del]

definition resolve_template ::
    "text_env \<Rightarrow> TriggerContext \<Rightarrow> step_outputs \<Rightarrow> string \<Rightarrow> (string, WorkflowError) rust_result" where
  "resolve_template T trigger_ctx step_outputs template =
     (if find_sub ''{{'' template = None then Inr template
      else resolve_loop T trigger_ctx step_outputs [] template)"

fun resolve_headers ::
    "(string \<Rightarrow> (string, WorkflowError) rust_result) \<Rightarrow> (string, string) hmap \<Rightarrow> ((string, string) hmap, WorkflowError) rust_result" where
  "resolve_headers t [] = Inr []"
| "resolve_headers t ((k, v) # h) = and_then (t v) (\<lambda>v'. and_then (resolve_headers t h) (\<lambda>out. Inr ((k, v') # out)))"

definition t_opt ::
    "(string \<Rightarrow> (string, WorkflowError) rust_result) \<Rightarrow> string option \<Rightarrow> (string option, WorkflowError) rust_result" where
  "t_opt t s = (case s of Some v \<Rightarrow> and_then (t v) (\<lambda>x. Inr (Some x)) | None \<Rightarrow> Inr None)"

definition resolve_step_templates ::
    "text_env \<Rightarrow> Step \<Rightarrow> TriggerContext \<Rightarrow> step_outputs \<Rightarrow> (ActionDef, WorkflowError) rust_result" where
  "resolve_step_templates T step trigger_ctx step_outputs =
     (let t = resolve_template T trigger_ctx step_outputs in
      case step_action step of
        SendMessage text channel \<Rightarrow>
          and_then (t text) (\<lambda>text. and_then (t_opt t channel) (\<lambda>channel. Inr (SendMessage text channel)))
      | SendDm to text \<Rightarrow> and_then (t to) (\<lambda>to. and_then (t text) (\<lambda>text. Inr (SendDm to text)))
      | SetChannelTopic topic \<Rightarrow> and_then (t topic) (\<lambda>topic. Inr (SetChannelTopic topic))
      | AddReaction emoji \<Rightarrow> and_then (t emoji) (\<lambda>emoji. Inr (AddReaction emoji))
      | CallWebhook url meth headers body \<Rightarrow>
          and_then (case headers of
              Some h \<Rightarrow> and_then (resolve_headers t h) (\<lambda>out. Inr (Some out))
            | None \<Rightarrow> Inr None) (\<lambda>headers.
          and_then (t url) (\<lambda>url. and_then (t_opt t body) (\<lambda>body. Inr (CallWebhook url meth headers body))))
      | RequestApproval from message timeout \<Rightarrow>
          and_then (t from) (\<lambda>from. and_then (t message) (\<lambda>message. Inr (RequestApproval from message timeout)))
      | Delay duration \<Rightarrow> Inr (Delay duration))"

subsection \<open>Conditions\<close>

datatype eval_value = EvString string | EvInt int | EvFloat string | EvBoolean bool | EvTuple "eval_value list" | EvEmpty

datatype eval_run = Evaluated bool | EvalError string | EvalPanicked string | EvalTimedOut

type_synonym eval_function = "eval_value \<Rightarrow> eval_value option"

text \<open>The context type \<open>'x\<close> of the evaluator. A registered function answers \<open>None\<close> for an error.\<close>

record 'x eval_env =
  ee_new :: 'x
  ee_set_function :: "'x \<Rightarrow> string \<Rightarrow> eval_function \<Rightarrow> ('x, string) rust_result"
  ee_set_value :: "'x \<Rightarrow> string \<Rightarrow> eval_value \<Rightarrow> ('x, string) rust_result"
  ee_eval :: "string \<Rightarrow> 'x \<Rightarrow> eval_run"

definition as_string :: "eval_value \<Rightarrow> string option" where
  "as_string v = (case v of EvString s \<Rightarrow> Some s | _ \<Rightarrow> None)"

definition as_string_pair :: "eval_value \<Rightarrow> (string \<times> string) option" where
  "as_string_pair v =
     (case v of
        EvTuple [a, b] \<Rightarrow> (case (as_string a, as_string b) of (Some s, Some t) \<Rightarrow> Some (s, t) | _ \<Rightarrow> None)
      | _ \<Rightarrow> None)"

definition str_contains :: eval_function where
  "str_contains args = map_option (\<lambda>(haystack, needle). EvBoolean (find_sub needle haystack \<noteq> None)) (as_string_pair args)"

definition str_starts_with :: eval_function where
  "str_starts_with args = map_option (\<lambda>(s, p). EvBoolean (starts_with s p)) (as_string_pair args)"

definition str_ends_with :: eval_function where
  "str_ends_with args = map_option (\<lambda>(s, p). EvBoolean (strip_suffix p s \<noteq> None)) (as_string_pair args)"

definition str_len :: eval_function where
  "str_len arg = map_option (\<lambda>s. EvInt (int (length s))) (as_string arg)"

definition json_value_to_eval :: "text_env \<Rightarrow> json \<Rightarrow> eval_value" where
  "json_value_to_eval T v =
     (case v of
        JString s \<Rightarrow> EvString s
      | JBool b \<Rightarrow> EvBoolean b
      | JNumber n \<Rightarrow>
          (case te_as_i64 T n of
             Some i \<Rightarrow> EvInt i
           | None \<Rightarrow> (case te_as_f64 T n of Some f \<Rightarrow> EvFloat f | None \<Rightarrow> EvString n))
      | JNull \<Rightarrow> EvEmpty
      | other \<Rightarrow> EvString (te_json_text T other))"

text \<open>The assignments in the order the source makes them, and a loop that makes them.\<close>

definition webhook_vars :: "TriggerContext \<Rightarrow> (string \<times> eval_value) list" where
  "webhook_vars c =
     map (\<lambda>(key, val). (''trigger_'' @ key, EvString val))
       (filter (\<lambda>(key, val). \<not> (starts_with key ''trigger_'' \<or> starts_with key ''steps_'')) (tg_webhook_fields c))"

definition trigger_vars :: "TriggerContext \<Rightarrow> (string \<times> eval_value) list" where
  "trigger_vars c =
     [(''trigger_text'', EvString (tg_text c)), (''trigger_author'', EvString (tg_author c)),
      (''trigger_channel_id'', EvString (tg_channel_id c)), (''trigger_timestamp'', EvString (tg_timestamp c)),
      (''trigger_emoji'', EvString (tg_emoji c)), (''trigger_message_id'', EvString (tg_message_id c))]"

definition step_var :: "string \<Rightarrow> string \<Rightarrow> string" where
  "step_var sid field = ''steps_'' @ sid @ ''_output_'' @ field"

definition output_vars :: "text_env \<Rightarrow> step_outputs \<Rightarrow> (string \<times> eval_value) list" where
  "output_vars T outs =
     concat (map (\<lambda>(sid, out). case out of
         JObject m \<Rightarrow> map (\<lambda>(field, v). (step_var sid field, json_value_to_eval T v)) m
       | _ \<Rightarrow> []) outs)"

fun set_values :: "'x eval_env \<Rightarrow> 'x \<Rightarrow> (string \<times> eval_value) list \<Rightarrow> ('x, WorkflowError) rust_result" where
  "set_values E ctx [] = Inr ctx"
| "set_values E ctx ((n, v) # rest) =
     (case ee_set_value E ctx n v of Inl e \<Rightarrow> Inl (ConditionError e) | Inr ctx' \<Rightarrow> set_values E ctx' rest)"

fun set_functions :: "'x eval_env \<Rightarrow> 'x \<Rightarrow> (string \<times> eval_function) list \<Rightarrow> ('x, WorkflowError) rust_result" where
  "set_functions E ctx [] = Inr ctx"
| "set_functions E ctx ((n, f) # rest) =
     (case ee_set_function E ctx n f of Inl e \<Rightarrow> Inl (ConditionError e) | Inr ctx' \<Rightarrow> set_functions E ctx' rest)"

definition build_eval_context ::
    "text_env \<Rightarrow> 'x eval_env \<Rightarrow> TriggerContext \<Rightarrow> step_outputs \<Rightarrow> ('x, WorkflowError) rust_result" where
  "build_eval_context T E trigger_ctx step_outputs =
     and_then (set_functions E (ee_new E)
        [(''str_contains'', str_contains), (''str_starts_with'', str_starts_with),
         (''str_ends_with'', str_ends_with), (''str_len'', str_len)]) (\<lambda>ctx.
     and_then (set_values E ctx (webhook_vars trigger_ctx)) (\<lambda>ctx.
     and_then (set_values E ctx (trigger_vars trigger_ctx)) (\<lambda>ctx.
     set_values E ctx (output_vars T step_outputs))))"

definition EVAL_TIMEOUT_ms :: nat where "EVAL_TIMEOUT_ms = 100"
definition MAX_EXPR_LEN :: nat where "MAX_EXPR_LEN = 4096"

definition evaluate_condition ::
    "text_env \<Rightarrow> 'x eval_env \<Rightarrow> string \<Rightarrow> TriggerContext \<Rightarrow> step_outputs \<Rightarrow> (bool, WorkflowError) rust_result" where
  "evaluate_condition T E expr trigger_ctx step_outputs =
     and_then (build_eval_context T E trigger_ctx step_outputs) (\<lambda>ctx.
     if length expr > MAX_EXPR_LEN
     then Inl (ConditionError (''condition expression exceeds '' @ show_nat MAX_EXPR_LEN @ '' byte limit''))
     else case ee_eval E expr ctx of
         EvalTimedOut \<Rightarrow> Inl (ConditionError (quoted expr @ '': evaluation timed out after '' @ show_nat EVAL_TIMEOUT_ms @ ''ms''))
       | EvalPanicked e \<Rightarrow> Inl (ConditionError (quoted expr @ '': eval task panicked: '' @ e))
       | EvalError e \<Rightarrow> Inl (ConditionError (quoted expr @ '': '' @ e))
       | Evaluated b \<Rightarrow> Inr b)"

subsection \<open>Templates are read before they are filled\<close>

text \<open>
  A reference definition: the template is cut into literal text and holes, by its own text alone,
  and then every hole is filled. What is put into a hole is never read as a template again.
\<close>

datatype segment = Text string | Hole string

function segments :: "string \<Rightarrow> segment list" where
  "segments s =
     (case find_sub ''{{'' s of
        None \<Rightarrow> [Text s]
      | Some i \<Rightarrow>
         (case find_sub ''}}'' (drop (i + 2) s) of
            None \<Rightarrow> [Text s]
          | Some j \<Rightarrow> Text (take i s) # Hole (trim (take j (drop (i + 2) s))) # segments (drop (j + 2) (drop (i + 2) s))))"
  by auto
termination
proof (relation "measure length", simp)
  fix s i j assume "find_sub ''{{'' s = Some i"
  then show "(drop (j + 2) (drop (i + 2) s), s) \<in> measure length"
    using find_sub_bound [of "''{{''" s i] by simp
qed

declare segments.simps [simp del]

fun fill :: "text_env \<Rightarrow> TriggerContext \<Rightarrow> step_outputs \<Rightarrow> segment list \<Rightarrow> (string, WorkflowError) rust_result" where
  "fill T C O' [] = Inr []"
| "fill T C O' (Text s # r) = and_then (fill T C O' r) (\<lambda>t. Inr (s @ t))"
| "fill T C O' (Hole e # r) = and_then (hole_value T C O' e) (\<lambda>v. and_then (fill T C O' r) (\<lambda>t. Inr (v @ t)))"

lemma find_sub_at: "find_sub p s = Some i \<Longrightarrow> take (length p) (drop i s) = p"
proof (induction p s arbitrary: i rule: find_sub.induct)
  case (2 p c cs)
  then show ?case by (auto simp: starts_with_def split: if_splits)
qed (simp split: if_splits)

lemma split_at_sub:
  assumes "find_sub ''{{'' s = Some i"
  shows "take i s @ ''{{'' @ drop (i + 2) s = s"
proof -
  have "take 2 (drop i s) = ''{{''" using find_sub_at [OF assms] by (simp add: numeral_2_eq_2)
  then have "''{{'' @ drop 2 (drop i s) = drop i s" by (metis append_take_drop_id)
  then show ?thesis by (simp add: add.commute)
qed

lemma resolve_loop_fill:
  "resolve_loop T C O' result s = and_then (fill T C O' (segments s)) (\<lambda>t. Inr (result @ t))"
proof (induction T C O' result s rule: resolve_loop.induct)
  case (1 T C O' result s)
  show ?case
  proof (cases "find_sub ''{{'' s")
    case None
    then show ?thesis by (simp add: resolve_loop.simps [of T C O' result s] segments.simps [of s])
  next
    case (Some i)
    let ?r = "drop (i + 2) s"
    show ?thesis
    proof (cases "find_sub ''}}'' ?r")
      case None
      then show ?thesis using Some split_at_sub [OF Some]
        by (simp add: resolve_loop.simps [of T C O' result s] segments.simps [of s] Let_def)
    next
      case (Some j)
      let ?e = "trim (take j ?r)" and ?q = "drop (j + 2) ?r"
      have seg: "segments s = Text (take i s) # Hole ?e # segments ?q"
        using \<open>find_sub ''{{'' s = Some i\<close> Some by (simp add: segments.simps [of s])
      have loop: "resolve_loop T C O' result s =
          (case hole_value T C O' ?e of Inl err \<Rightarrow> Inl err | Inr v \<Rightarrow> resolve_loop T C O' ((result @ take i s) @ v) ?q)"
        using \<open>find_sub ''{{'' s = Some i\<close> Some by (simp add: resolve_loop.simps [of T C O' result s] Let_def split: sum.split)
      show ?thesis
      proof (cases "hole_value T C O' ?e")
        case (Inl err)
        then show ?thesis by (simp add: loop seg)
      next
        case (Inr v)
        have "resolve_loop T C O' ((result @ take i s) @ v) ?q =
            and_then (fill T C O' (segments ?q)) (\<lambda>t. Inr (((result @ take i s) @ v) @ t))"
          using 1 \<open>find_sub ''{{'' s = Some i\<close> Some Inr by blast
        then show ?thesis using Inr by (cases "fill T C O' (segments ?q)") (simp_all add: loop seg)
      qed
    qed
  qed
qed

text \<open>
  Substitution agrees with the reference: cutting the template first and filling the holes after
  gives the same text and the same error. In particular text that comes from a message, a webhook
  or a step is not expanded, and a template without a hole is unchanged.
\<close>

theorem template_equals_segments:
  "resolve_template T C O' template = fill T C O' (segments template)"
proof (cases "find_sub ''{{'' template")
  case None
  then show ?thesis by (simp add: resolve_template_def segments.simps [of template])
next
  case (Some i)
  then show ?thesis by (cases "fill T C O' (segments template)") (simp_all add: resolve_template_def resolve_loop_fill)
qed

subsection \<open>What a condition can see\<close>

text \<open>
  What is used of the evaluator's context: a new context has no variables, setting a variable sets
  that variable, registering a function sets none.
\<close>

definition eval_ok :: "'x eval_env \<Rightarrow> ('x \<Rightarrow> string \<Rightarrow> eval_value option) \<Rightarrow> bool" where
  "eval_ok E look \<longleftrightarrow> look (ee_new E) = Map.empty \<and>
     (\<forall>c n v c'. ee_set_value E c n v = Inr c' \<longrightarrow> look c' = (look c)(n \<mapsto> v)) \<and>
     (\<forall>c n f c'. ee_set_function E c n f = Inr c' \<longrightarrow> look c' = look c)"

lemma set_values_look:
  "eval_ok E look \<Longrightarrow> set_values E c xs = Inr c' \<Longrightarrow> look c' = look c ++ map_of (rev xs)"
proof (induction E c xs rule: set_values.induct)
  case (2 E c n v rest)
  then obtain c1 where c1: "ee_set_value E c n v = Inr c1" "set_values E c1 rest = Inr c'"
    by (auto split: sum.splits)
  then have "look c1 = (look c)(n \<mapsto> v)" "look c' = look c1 ++ map_of (rev rest)"
    using 2 by (auto simp: eval_ok_def)
  then show ?case by (simp add: map_add_def fun_eq_iff split: option.split)
qed simp

lemma set_functions_look: "eval_ok E look \<Longrightarrow> set_functions E c fs = Inr c' \<Longrightarrow> look c' = look c"
proof (induction E c fs rule: set_functions.induct)
  case (2 E c n f rest)
  then show ?case by (auto simp: eval_ok_def split: sum.splits)
qed simp

lemma and_then_ok: "and_then r f = Inr y \<longleftrightarrow> (\<exists>x. r = Inr x \<and> f x = Inr y)"
  by (cases r) auto

lemma context_look:
  assumes "eval_ok E look" "build_eval_context T E C O' = Inr ctx"
  shows "look ctx = map_of (rev (webhook_vars C)) ++ map_of (rev (trigger_vars C)) ++ map_of (rev (output_vars T O'))"
proof -
  obtain c1 c2 c3 where c: "set_functions E (ee_new E) [(''str_contains'', str_contains), (''str_starts_with'', str_starts_with),
         (''str_ends_with'', str_ends_with), (''str_len'', str_len)] = Inr c1"
      "set_values E c1 (webhook_vars C) = Inr c2" "set_values E c2 (trigger_vars C) = Inr c3"
      "set_values E c3 (output_vars T O') = Inr ctx"
    using assms(2) unfolding build_eval_context_def and_then_ok by blast
  have "look c1 = Map.empty" using set_functions_look [OF assms(1) c(1)] assms(1) by (simp add: eval_ok_def)
  then show ?thesis
    using set_values_look [OF assms(1) c(2)] set_values_look [OF assms(1) c(3)] set_values_look [OF assms(1) c(4)] by simp
qed

lemma output_var_steps:
  assumes "(n, v) \<in> set (output_vars T O')"
  obtains sid m field j where "(sid, JObject m) \<in> set O'" "(field, j) \<in> set m" "n = step_var sid field" "v = json_value_to_eval T j"
  using assms by (fastforce simp: output_vars_def split: json.splits)

lemma webhook_var_name: "(n, v) \<in> set (webhook_vars C) \<Longrightarrow> starts_with n ''trigger_''"
  by (auto simp: webhook_vars_def starts_with_append)

lemma trigger_var_name: "(n, v) \<in> set (trigger_vars C) \<Longrightarrow> starts_with n ''trigger_''"
  by (auto simp: trigger_vars_def starts_with_append)

lemma steps_not_trigger: "starts_with n ''steps_'' \<Longrightarrow> \<not> starts_with n ''trigger_''"
  by (auto simp: starts_with_append)

text \<open>
  Conditions see the trigger as it was: the variables of the triggering event have their own values,
  whatever fields a webhook body carries, and every variable of a step output comes from the output
  of a step.
\<close>

theorem trigger_variables_authentic:
  assumes "eval_ok E look" "build_eval_context T E C O' = Inr ctx"
  shows "(\<forall>(n, v) \<in> set (trigger_vars C). look ctx n = Some v) \<and>
    (\<forall>n v. look ctx n = Some v \<and> starts_with n ''steps_'' \<longrightarrow>
       (\<exists>sid m field j. (sid, JObject m) \<in> set O' \<and> (field, j) \<in> set m \<and> n = step_var sid field \<and> v = json_value_to_eval T j))"
proof -
  note l = context_look [OF assms]
  have none: "map_of (rev (output_vars T O')) n = None" if "starts_with n ''trigger_''" for n
  proof (rule ccontr)
    assume "map_of (rev (output_vars T O')) n \<noteq> None"
    then obtain v where "(n, v) \<in> set (output_vars T O')" by (auto dest: map_of_SomeD)
    then have "starts_with n ''steps_''" by (elim output_var_steps) (auto simp: step_var_def starts_with_append)
    then show False using steps_not_trigger that by blast
  qed
  have "look ctx n = Some v" if "(n, v) \<in> set (trigger_vars C)" for n v
  proof -
    have "map_of (rev (trigger_vars C)) n = Some v" using that by (auto simp: trigger_vars_def)
    then show ?thesis using none [OF trigger_var_name [OF that]] l by (simp add: map_add_def)
  qed
  moreover have "\<exists>sid m field j. (sid, JObject m) \<in> set O' \<and> (field, j) \<in> set m \<and> n = step_var sid field \<and> v = json_value_to_eval T j"
    if "look ctx n = Some v" "starts_with n ''steps_''" for n v
  proof -
    have "map_of (rev (webhook_vars C)) n = None" "map_of (rev (trigger_vars C)) n = None"
      using webhook_var_name trigger_var_name steps_not_trigger [OF that(2)] by (force simp: map_of_eq_None_iff)+
    then have "map_of (rev (output_vars T O')) n = Some v" using that(1) l by (simp add: map_add_def split: option.splits)
    then have "(n, v) \<in> set (output_vars T O')" by (auto dest: map_of_SomeD)
    then show ?thesis by (rule output_var_steps) blast
  qed
  ultimately show ?thesis by blast
qed

definition sample_eval :: "(string \<Rightarrow> eval_value option) eval_env" where
  "sample_eval = \<lparr>ee_new = Map.empty, ee_set_function = (\<lambda>c _ _. Inr c), ee_set_value = (\<lambda>c n v. Inr (c(n \<mapsto> v))),
     ee_eval = (\<lambda>e c. case c e of Some (EvBoolean b) \<Rightarrow> Evaluated b | _ \<Rightarrow> EvalError ''no boolean'')\<rparr>"

definition sample_text :: text_env where
  "sample_text = \<lparr>te_json_text = (\<lambda>_. []), te_pubkey = (\<lambda>_. None), te_bech32 = (\<lambda>_. None), te_as_i64 = (\<lambda>_. None), te_as_f64 = (\<lambda>_. None)\<rparr>"

definition sample_trigger :: TriggerContext where
  "sample_trigger = \<lparr>tg_text = ''hi'', tg_author = ''p1'', tg_channel_id = ''c'', tg_timestamp = ''0'', tg_emoji = [],
     tg_message_id = ''m'', tg_webhook_fields = [(''author'', ''mallory'')]\<rparr>"

lemma sample_eval_ok: "eval_ok sample_eval (\<lambda>c. c)"
  by (simp add: eval_ok_def sample_eval_def)

lemma sample_set_values: "\<exists>c'. set_values sample_eval c xs = Inr c'"
  by (induction xs arbitrary: c) (auto simp: sample_eval_def)

lemma sample_context: "\<exists>ctx. build_eval_context T sample_eval C O' = Inr ctx"
proof -
  have "set_functions sample_eval c fs = Inr c" for c fs
    by (induction fs) (auto simp: sample_eval_def)
  then show ?thesis using sample_set_values unfolding build_eval_context_def and_then_ok by metis
qed

theorem trigger_variables_authentic_witness:
  "\<exists>ctx. build_eval_context sample_text sample_eval sample_trigger [] = Inr ctx \<and> ctx ''trigger_author'' = Some (EvString ''p1'')"
proof -
  obtain ctx where ctx: "build_eval_context sample_text sample_eval sample_trigger [] = Inr ctx"
    using sample_context by blast
  have "(''trigger_author'', EvString ''p1'') \<in> set (trigger_vars sample_trigger)"
    by (simp add: trigger_vars_def sample_trigger_def)
  then show ?thesis using trigger_variables_authentic [OF sample_eval_ok ctx] ctx by blast
qed

text \<open>
  Variable names of step outputs are ambiguous: the names of a step and of an output field are joined
  with underscores, which both may contain. Two steps with valid ids can so write one variable, and
  what a condition sees then depends on the order in which the map of outputs is traversed.
\<close>

definition clashing_outputs :: "(string \<times> json) list" where
  "clashing_outputs =
     [(''a'', JObject [(''b_output_c'', JBool True)]), (''a_output_b'', JObject [(''c'', JBool False)])]"

theorem output_variables_ambiguous:
  "valid_step_id ''a'' \<and> valid_step_id ''a_output_b'' \<and> distinct (map fst clashing_outputs) \<and>
   evaluate_condition T sample_eval (step_var ''a'' ''b_output_c'') C clashing_outputs = Inr False \<and>
   evaluate_condition T sample_eval (step_var ''a'' ''b_output_c'') C (rev clashing_outputs) = Inr True"
proof -
  let ?n = "step_var ''a'' ''b_output_c''"
  have n: "?n = step_var ''a_output_b'' ''c''" by (simp add: step_var_def)
  have ev: "evaluate_condition T sample_eval ?n C O' = Inr b" if "map_of (rev (output_vars T O')) ?n = Some (EvBoolean b)" for O' b
  proof -
    obtain ctx where ctx: "build_eval_context T sample_eval C O' = Inr ctx" using sample_context by blast
    have "ctx ?n = Some (EvBoolean b)" using context_look [OF sample_eval_ok ctx] that by (simp add: map_add_def)
    then have "ee_eval sample_eval ?n ctx = Evaluated b" by (simp add: sample_eval_def)
    moreover have "length ?n \<le> MAX_EXPR_LEN" by (simp add: MAX_EXPR_LEN_def step_var_def)
    ultimately show ?thesis unfolding evaluate_condition_def ctx by simp
  qed
  have "map_of (rev (output_vars T clashing_outputs)) ?n = Some (EvBoolean False)"
    by (simp add: n clashing_outputs_def output_vars_def json_value_to_eval_def)
  moreover have "map_of (rev (output_vars T (rev clashing_outputs))) ?n = Some (EvBoolean True)"
    by (simp add: clashing_outputs_def output_vars_def json_value_to_eval_def)
  moreover have "valid_step_id ''a''" "valid_step_id ''a_output_b''"
    by (simp_all add: valid_step_id_def ascii_alphanumeric_def)
  ultimately show ?thesis using ev by (simp add: clashing_outputs_def)
qed

end
