(* ===== verification/Workflow_Db.thy ===== *)
theory Workflow_Db
  imports Workflow_Template
begin

text \<open>
  The workflow tables: \<open>crates/buzz-db/src/workflow.rs\<close> and \<open>get_member_role\<close> of \<open>channel.rs\<close>. Every
  function issues one SQL statement; it is modelled as what that statement does to the tables, with
  the keys, references and fences the schema puts on them. A statement that fails leaves the tables as
  they were. Times are nanoseconds since the epoch; the time of the database, new identifiers, the
  JSON reader and SHA-256 are arguments. Rows with equal sort keys come in table order.
\<close>

subsection \<open>Errors and status values\<close>

datatype DbError =
    Sqlx string
  | Migrate string
  | AuthEventRejected
  | EphemeralEventRejected nat
  | ChannelNotFound uuid
  | MemberNotFound uuid
  | NotFound string
  | AccessDenied string
  | Serde string
  | InvalidData string
  | ServingWritesNotDrained uuid int "string list"
  | DeletionSafety string
  | InvalidTimestamp int

datatype WorkflowStatus = WfActive | WfDisabled | WfArchived

datatype RunStatus = RunPending | RunRunning | RunWaitingApproval | RunCompleted | RunFailed | RunCancelled

datatype ApprovalStatus = ApPending | ApGranted | ApDenied | ApExpired

text \<open>Decimal text of a signed number, and a list of texts as \<open>Debug\<close> prints it when nothing in them needs an escape.\<close>

definition show_int :: "int \<Rightarrow> string" where
  "show_int n = (if n < 0 then CHR ''-'' # show_nat (nat (- n)) else show_nat (nat n))"

definition debug_strings :: "string list \<Rightarrow> string" where
  "debug_strings xs = ''['' @ concat (map (\<lambda>(i, x). (if i = 0 then [] else '', '') @ [CHR 0x22] @ x @ [CHR 0x22]) (enumerate 0 xs)) @ '']''"

primrec DbError_text :: "DbError \<Rightarrow> string" where
  "DbError_text (Sqlx e) = ''database error: '' @ e"
| "DbError_text (Migrate e) = ''migration error: '' @ e"
| "DbError_text AuthEventRejected = ''AUTH events (kind 22242) must not be stored''"
| "DbError_text (EphemeralEventRejected k) = ''ephemeral events (kind '' @ show_nat k @ '') must not be stored''"
| "DbError_text (ChannelNotFound c) = ''channel not found: '' @ c"
| "DbError_text (MemberNotFound c) = ''member not found in channel '' @ c"
| "DbError_text (NotFound e) = ''not found: '' @ e"
| "DbError_text (AccessDenied e) = ''access denied: '' @ e"
| "DbError_text (Serde e) = ''serialization error: '' @ e"
| "DbError_text (InvalidData e) = ''invalid data: '' @ e"
| "DbError_text (ServingWritesNotDrained c n ops) =
     ''community '' @ c @ '' still has '' @ show_int n @ '' active serving write lease(s): '' @ debug_strings ops"
| "DbError_text (DeletionSafety e) = ''deletion safety error: '' @ e"
| "DbError_text (InvalidTimestamp t) = ''invalid timestamp: '' @ show_int t"

primrec WorkflowStatus_text :: "WorkflowStatus \<Rightarrow> string" where
  "WorkflowStatus_text WfActive = ''active''"
| "WorkflowStatus_text WfDisabled = ''disabled''"
| "WorkflowStatus_text WfArchived = ''archived''"

definition WorkflowStatus_from_str :: "string \<Rightarrow> (WorkflowStatus, DbError) rust_result" where
  "WorkflowStatus_from_str s =
     (if s = ''active'' then Inr WfActive
      else if s = ''disabled'' then Inr WfDisabled
      else if s = ''archived'' then Inr WfArchived
      else Inl (InvalidData (''unknown workflow status: '' @ s)))"

primrec RunStatus_text :: "RunStatus \<Rightarrow> string" where
  "RunStatus_text RunPending = ''pending''"
| "RunStatus_text RunRunning = ''running''"
| "RunStatus_text RunWaitingApproval = ''waiting_approval''"
| "RunStatus_text RunCompleted = ''completed''"
| "RunStatus_text RunFailed = ''failed''"
| "RunStatus_text RunCancelled = ''cancelled''"

definition RunStatus_from_str :: "string \<Rightarrow> (RunStatus, DbError) rust_result" where
  "RunStatus_from_str s =
     (if s = ''pending'' then Inr RunPending
      else if s = ''running'' then Inr RunRunning
      else if s = ''waiting_approval'' then Inr RunWaitingApproval
      else if s = ''completed'' then Inr RunCompleted
      else if s = ''failed'' then Inr RunFailed
      else if s = ''cancelled'' then Inr RunCancelled
      else Inl (InvalidData (''unknown run status: '' @ s)))"

primrec ApprovalStatus_text :: "ApprovalStatus \<Rightarrow> string" where
  "ApprovalStatus_text ApPending = ''pending''"
| "ApprovalStatus_text ApGranted = ''granted''"
| "ApprovalStatus_text ApDenied = ''denied''"
| "ApprovalStatus_text ApExpired = ''expired''"

definition ApprovalStatus_from_str :: "string \<Rightarrow> (ApprovalStatus, DbError) rust_result" where
  "ApprovalStatus_from_str s =
     (if s = ''pending'' then Inr ApPending
      else if s = ''granted'' then Inr ApGranted
      else if s = ''denied'' then Inr ApDenied
      else if s = ''expired'' then Inr ApExpired
      else Inl (InvalidData (''unknown approval status: '' @ s)))"

subsection \<open>Rows and tables\<close>

type_synonym datetime = int

record WorkflowRecord =
  wr_id :: uuid
  wr_community_id :: CommunityId
  wr_name :: string
  wr_owner_pubkey :: bytes
  wr_channel_id :: "uuid option"
  wr_definition :: json
  wr_definition_hash :: bytes
  wr_status :: WorkflowStatus
  wr_enabled :: bool
  wr_created_at :: datetime
  wr_updated_at :: datetime

record WorkflowRunRecord =
  rr_id :: uuid
  rr_community_id :: CommunityId
  rr_workflow_id :: uuid
  rr_status :: RunStatus
  rr_trigger_event_id :: "hex option"
  rr_current_step :: int
  rr_execution_trace :: json
  rr_trigger_context :: "json option"
  rr_started_at :: "datetime option"
  rr_completed_at :: "datetime option"
  rr_error_message :: "string option"
  rr_error_code :: "string option"
  rr_created_at :: datetime

text \<open>A row of \<open>scheduled_workflow_fires\<close>; without the run it is what a claim returns.\<close>

record ScheduledWorkflowFireClaim =
  fc_community_id :: CommunityId
  fc_workflow_id :: uuid
  fc_scheduled_for :: datetime
  fc_claimed_at :: datetime

record fire_row = ScheduledWorkflowFireClaim +
  fr_workflow_run_id :: "uuid option"

record ApprovalRecord =
  ar_token :: bytes
  ar_workflow_id :: uuid
  ar_run_id :: uuid
  ar_step_id :: string
  ar_step_index :: int
  ar_approver_spec :: string
  ar_status :: ApprovalStatus
  ar_approver_pubkey :: "bytes option"
  ar_note :: "string option"
  ar_expires_at :: datetime
  ar_created_at :: datetime

record approval_row = ApprovalRecord +
  ap_community_id :: CommunityId
  ap_granted_at :: "datetime option"
  ap_denied_at :: "datetime option"

record member_row =
  mb_community_id :: CommunityId
  mb_channel_id :: uuid
  mb_pubkey :: bytes
  mb_role :: string
  mb_removed_at :: "datetime option"

record channel_row =
  cn_community_id :: CommunityId
  cn_id :: uuid
  cn_deleted_at :: "datetime option"

record community_row =
  cm_id :: CommunityId
  cm_archived_at :: "datetime option"
  cm_write_allowed :: bool

record wdb =
  db_communities :: "community_row list"
  db_users :: "(CommunityId \<times> bytes) list"
  db_channels :: "channel_row list"
  db_members :: "member_row list"
  db_workflows :: "WorkflowRecord list"
  db_runs :: "WorkflowRunRecord list"
  db_fires :: "fire_row list"
  db_approvals :: "approval_row list"

record db_env =
  dx_jsonb :: "string \<Rightarrow> json option"
  dx_sha256 :: "string \<Rightarrow> bytes"

subsection \<open>What the schema enforces\<close>

definition violation :: "string \<Rightarrow> wdb \<Rightarrow> ('a, DbError) rust_result \<times> wdb" where
  "violation what d = (Inl (Sqlx what), d)"

definition community_write_allowed :: "wdb \<Rightarrow> CommunityId \<Rightarrow> bool" where
  "community_write_allowed d c \<longleftrightarrow> list_ex (\<lambda>r. cm_id r = c \<and> cm_write_allowed r) (db_communities d)"

definition varchar :: "nat \<Rightarrow> string \<Rightarrow> bool" where
  "varchar n s \<longleftrightarrow> length (filter (\<lambda>c. \<not> is_cont c) s) \<le> n"

definition owner_and_channel_exist :: "wdb \<Rightarrow> CommunityId \<Rightarrow> bytes \<Rightarrow> uuid option \<Rightarrow> bool" where
  "owner_and_channel_exist d c owner ch \<longleftrightarrow> (c, owner) \<in> set (db_users d) \<and>
     (case ch of None \<Rightarrow> True | Some x \<Rightarrow> list_ex (\<lambda>r. cn_community_id r = c \<and> cn_id r = x) (db_channels d))"

abbreviation wf_key :: "WorkflowRecord \<Rightarrow> CommunityId \<times> uuid" where
  "wf_key r \<equiv> (wr_community_id r, wr_id r)"

abbreviation run_key :: "WorkflowRunRecord \<Rightarrow> CommunityId \<times> uuid" where
  "run_key r \<equiv> (rr_community_id r, rr_id r)"

abbreviation fire_key :: "fire_row \<Rightarrow> CommunityId \<times> uuid \<times> datetime" where
  "fire_key r \<equiv> (fc_community_id r, fc_workflow_id r, fc_scheduled_for r)"

abbreviation fire_stamp :: "fire_row \<Rightarrow> CommunityId \<times> uuid \<times> datetime \<times> datetime" where
  "fire_stamp r \<equiv> (fc_community_id r, fc_workflow_id r, fc_scheduled_for r, fc_claimed_at r)"

abbreviation approval_key :: "approval_row \<Rightarrow> CommunityId \<times> bytes" where
  "approval_key r \<equiv> (ap_community_id r, ar_token r)"

definition has_workflow :: "wdb \<Rightarrow> CommunityId \<Rightarrow> uuid \<Rightarrow> bool" where
  "has_workflow d c w \<longleftrightarrow> list_ex (\<lambda>r. wf_key r = (c, w)) (db_workflows d)"

definition has_run :: "wdb \<Rightarrow> CommunityId \<Rightarrow> uuid \<Rightarrow> bool" where
  "has_run d c i \<longleftrightarrow> list_ex (\<lambda>r. run_key r = (c, i)) (db_runs d)"

text \<open>
  An update of the rows that satisfy a condition with the number of rows it touched; it is refused
  where the fence of a touched row's community is closed.
\<close>

definition update_rows :: "('r \<Rightarrow> bool) \<Rightarrow> ('r \<Rightarrow> 'r) \<Rightarrow> 'r list \<Rightarrow> 'r list" where
  "update_rows sel f rows = map (\<lambda>r. if sel r then f r else r) rows"

definition update_workflows ::
    "wdb \<Rightarrow> (WorkflowRecord \<Rightarrow> bool) \<Rightarrow> (WorkflowRecord \<Rightarrow> WorkflowRecord) \<Rightarrow> (nat, DbError) rust_result \<times> wdb" where
  "update_workflows d sel f =
     (let hit = filter sel (db_workflows d) in
      if list_all (\<lambda>r. community_write_allowed d (wr_community_id r)) hit
      then (Inr (length hit), d\<lparr>db_workflows := update_rows sel f (db_workflows d)\<rparr>)
      else violation ''community write fence'' d)"

text \<open>Deleting workflows deletes their runs, approvals and fires; a fire elsewhere that names such a run forbids it.\<close>

definition selected :: "wdb \<Rightarrow> (WorkflowRecord \<Rightarrow> bool) \<Rightarrow> CommunityId \<Rightarrow> uuid \<Rightarrow> bool" where
  "selected d sel c w \<longleftrightarrow> list_ex (\<lambda>r. sel r \<and> wf_key r = (c, w)) (db_workflows d)"

definition without_workflows :: "wdb \<Rightarrow> (WorkflowRecord \<Rightarrow> bool) \<Rightarrow> wdb" where
  "without_workflows d sel =
     (let d1 = d\<lparr>db_workflows := filter (\<lambda>r. \<not> sel r) (db_workflows d),
                 db_runs := filter (\<lambda>r. \<not> selected d sel (rr_community_id r) (rr_workflow_id r)) (db_runs d),
                 db_fires := filter (\<lambda>f. \<not> selected d sel (fc_community_id f) (fc_workflow_id f)) (db_fires d)\<rparr>
      in d1\<lparr>db_approvals := filter (\<lambda>a. \<not> selected d sel (ap_community_id a) (ar_workflow_id a)
              \<and> has_run d1 (ap_community_id a) (ar_run_id a)) (db_approvals d)\<rparr>)"

definition delete_workflows :: "wdb \<Rightarrow> (WorkflowRecord \<Rightarrow> bool) \<Rightarrow> (WorkflowRecord list, DbError) rust_result \<times> wdb" where
  "delete_workflows d sel =
     (let hit = filter sel (db_workflows d); d' = without_workflows d sel in
      if \<not> list_all (\<lambda>r. community_write_allowed d (wr_community_id r)) hit then violation ''community write fence'' d
      else if \<not> list_all (\<lambda>f. case fr_workflow_run_id f of None \<Rightarrow> True | Some i \<Rightarrow> has_run d' (fc_community_id f) i) (db_fires d')
      then violation ''foreign key'' d
      else (Inr hit, d'))"

subsection \<open>Workflows\<close>

definition LIST_DEFAULT_LIMIT :: int where "LIST_DEFAULT_LIMIT = 100"
definition LIST_MAX_LIMIT :: int where "LIST_MAX_LIMIT = 1000"

definition clamp_int :: "int \<Rightarrow> int \<Rightarrow> int \<Rightarrow> int" where
  "clamp_int lo hi x = (if x < lo then lo else if hi < x then hi else x)"

definition hash_approval_token :: "db_env \<Rightarrow> string \<Rightarrow> bytes" where
  "hash_approval_token X token = dx_sha256 X token"

definition insert_workflow :: "wdb \<Rightarrow> WorkflowRecord \<Rightarrow> (unit, DbError) rust_result \<times> wdb" where
  "insert_workflow d r =
     (if \<not> varchar 255 (wr_name r) then violation ''value too long'' d
      else if \<not> community_write_allowed d (wr_community_id r) then violation ''community write fence'' d
      else if has_workflow d (wr_community_id r) (wr_id r) then violation ''duplicate key'' d
      else if \<not> owner_and_channel_exist d (wr_community_id r) (wr_owner_pubkey r) (wr_channel_id r)
      then violation ''foreign key'' d
      else (Inr (), d\<lparr>db_workflows := db_workflows d @ [r]\<rparr>))"

definition new_workflow ::
    "datetime \<Rightarrow> CommunityId \<Rightarrow> uuid \<Rightarrow> uuid option \<Rightarrow> bytes \<Rightarrow> string \<Rightarrow> json \<Rightarrow> bytes \<Rightarrow> WorkflowRecord" where
  "new_workflow now c i ch owner name def hash =
     \<lparr>wr_id = i, wr_community_id = c, wr_name = name, wr_owner_pubkey = owner, wr_channel_id = ch, wr_definition = def,
      wr_definition_hash = hash, wr_status = WfActive, wr_enabled = True, wr_created_at = now, wr_updated_at = now\<rparr>"

definition create_workflow ::
    "db_env \<Rightarrow> wdb \<Rightarrow> datetime \<Rightarrow> uuid \<Rightarrow> CommunityId \<Rightarrow> uuid option \<Rightarrow> bytes \<Rightarrow> string \<Rightarrow> string \<Rightarrow> bytes \<Rightarrow>
     (uuid, DbError) rust_result \<times> wdb" where
  "create_workflow X d now fresh community_id channel_id owner_pubkey name definition_json definition_hash =
     (case dx_jsonb X definition_json of
        None \<Rightarrow> violation ''invalid json'' d
      | Some def \<Rightarrow>
         (case insert_workflow d (new_workflow now community_id fresh channel_id owner_pubkey name def definition_hash) of
            (Inl e, d') \<Rightarrow> (Inl e, d')
          | (Inr _, d') \<Rightarrow> (Inr fresh, d')))"

definition upsert_workflow ::
    "db_env \<Rightarrow> wdb \<Rightarrow> datetime \<Rightarrow> CommunityId \<Rightarrow> uuid \<Rightarrow> uuid option \<Rightarrow> bytes \<Rightarrow> string \<Rightarrow> string \<Rightarrow> bytes \<Rightarrow>
     (unit, DbError) rust_result \<times> wdb" where
  "upsert_workflow X d now community_id i channel_id owner_pubkey name definition_json definition_hash =
     (case dx_jsonb X definition_json of
        None \<Rightarrow> violation ''invalid json'' d
      | Some def \<Rightarrow>
          if \<not> varchar 255 name then violation ''value too long'' d
          else if \<not> community_write_allowed d community_id then violation ''community write fence'' d
          else if \<not> has_workflow d community_id i
          then insert_workflow d (new_workflow now community_id i channel_id owner_pubkey name def definition_hash)
          else (case update_workflows d
                  (\<lambda>r. wf_key r = (community_id, i) \<and> wr_owner_pubkey r = owner_pubkey \<and> wr_channel_id r = channel_id)
                  (\<lambda>r. r\<lparr>wr_name := name, wr_definition := def, wr_definition_hash := definition_hash, wr_updated_at := now\<rparr>) of
              (Inl e, d') \<Rightarrow> (Inl e, d')
            | (Inr n, d') \<Rightarrow>
                if n = 0 then (Inl (AccessDenied (''workflow '' @ i @ '' belongs to a different owner or channel'')), d')
                else (Inr (), d')))"

definition get_workflow :: "wdb \<Rightarrow> CommunityId \<Rightarrow> uuid \<Rightarrow> (WorkflowRecord, DbError) rust_result" where
  "get_workflow d community_id i =
     (case find (\<lambda>r. wf_key r = (community_id, i)) (db_workflows d) of
        None \<Rightarrow> Inl (NotFound (''workflow '' @ i))
      | Some r \<Rightarrow> Inr r)"

definition list_channel_workflows ::
    "wdb \<Rightarrow> CommunityId \<Rightarrow> uuid \<Rightarrow> int option \<Rightarrow> int option \<Rightarrow> WorkflowRecord list" where
  "list_channel_workflows d community_id channel_id limit offset =
     (let limit = clamp_int 1 LIST_MAX_LIMIT (case limit of None \<Rightarrow> LIST_DEFAULT_LIMIT | Some l \<Rightarrow> l);
          offset = max 0 (case offset of None \<Rightarrow> 0 | Some x \<Rightarrow> x)
      in take (nat limit) (drop (nat offset) (sort_key (\<lambda>r. - wr_created_at r)
           (filter (\<lambda>r. wr_community_id r = community_id \<and> wr_channel_id r = Some channel_id) (db_workflows d)))))"

definition list_enabled_channel_workflows :: "wdb \<Rightarrow> CommunityId \<Rightarrow> uuid \<Rightarrow> WorkflowRecord list" where
  "list_enabled_channel_workflows d community_id channel_id =
     take (nat LIST_MAX_LIMIT) (sort_key (\<lambda>r. - wr_created_at r)
       (filter (\<lambda>r. wr_community_id r = community_id \<and> wr_channel_id r = Some channel_id
                  \<and> wr_status r = WfActive \<and> wr_enabled r) (db_workflows d)))"

text \<open>\<open>definition->'trigger'->>'on' = 'schedule'\<close>.\<close>

definition is_schedule_definition :: "json \<Rightarrow> bool" where
  "is_schedule_definition def =
     (case def of
        JObject m \<Rightarrow> (case map_of m ''trigger'' of
            Some (JObject t) \<Rightarrow> map_of t ''on'' = Some (JString ''schedule'')
          | _ \<Rightarrow> False)
      | _ \<Rightarrow> False)"

definition list_all_enabled_workflows :: "wdb \<Rightarrow> WorkflowRecord list" where
  "list_all_enabled_workflows d =
     take (nat LIST_MAX_LIMIT) (sort_key wr_created_at
       (filter (\<lambda>r. wr_status r = WfActive \<and> wr_enabled r \<and> is_schedule_definition (wr_definition r)
                  \<and> list_ex (\<lambda>c. cm_id c = wr_community_id r \<and> cm_archived_at c = None) (db_communities d))
          (db_workflows d)))"

definition update_one ::
    "wdb \<Rightarrow> CommunityId \<Rightarrow> uuid \<Rightarrow> (WorkflowRecord \<Rightarrow> WorkflowRecord) \<Rightarrow> (unit, DbError) rust_result \<times> wdb" where
  "update_one d community_id i f =
     (case update_workflows d (\<lambda>r. wf_key r = (community_id, i)) f of
        (Inl e, d') \<Rightarrow> (Inl e, d')
      | (Inr n, d') \<Rightarrow> if n = 0 then (Inl (NotFound (''workflow '' @ i)), d') else (Inr (), d'))"

definition update_workflow ::
    "db_env \<Rightarrow> wdb \<Rightarrow> CommunityId \<Rightarrow> uuid \<Rightarrow> string \<Rightarrow> string \<Rightarrow> bytes \<Rightarrow> (unit, DbError) rust_result \<times> wdb" where
  "update_workflow X d community_id i name definition_json definition_hash =
     (case dx_jsonb X definition_json of
        None \<Rightarrow> violation ''invalid json'' d
      | Some def \<Rightarrow>
          if has_workflow d community_id i \<and> \<not> varchar 255 name then violation ''value too long'' d
          else update_one d community_id i (\<lambda>r. r\<lparr>wr_name := name, wr_definition := def, wr_definition_hash := definition_hash\<rparr>))"

definition update_workflow_status ::
    "wdb \<Rightarrow> CommunityId \<Rightarrow> uuid \<Rightarrow> WorkflowStatus \<Rightarrow> (unit, DbError) rust_result \<times> wdb" where
  "update_workflow_status d community_id i status = update_one d community_id i (\<lambda>r. r\<lparr>wr_status := status\<rparr>)"

definition set_workflow_enabled :: "wdb \<Rightarrow> CommunityId \<Rightarrow> uuid \<Rightarrow> bool \<Rightarrow> (unit, DbError) rust_result \<times> wdb" where
  "set_workflow_enabled d community_id i enabled = update_one d community_id i (\<lambda>r. r\<lparr>wr_enabled := enabled\<rparr>)"

definition disable_workflows_for_owner_in_channel ::
    "wdb \<Rightarrow> CommunityId \<Rightarrow> uuid \<Rightarrow> bytes \<Rightarrow> (nat, DbError) rust_result \<times> wdb" where
  "disable_workflows_for_owner_in_channel d community_id channel_id owner_pubkey =
     update_workflows d
       (\<lambda>r. wr_community_id r = community_id \<and> wr_channel_id r = Some channel_id \<and> wr_owner_pubkey r = owner_pubkey \<and> wr_enabled r)
       (\<lambda>r. r\<lparr>wr_enabled := False\<rparr>)"

definition delete_workflow :: "wdb \<Rightarrow> CommunityId \<Rightarrow> uuid \<Rightarrow> (unit, DbError) rust_result \<times> wdb" where
  "delete_workflow d community_id i =
     (case delete_workflows d (\<lambda>r. wf_key r = (community_id, i)) of
        (Inl e, d') \<Rightarrow> (Inl e, d')
      | (Inr hit, d') \<Rightarrow> if hit = [] then (Inl (NotFound (''workflow '' @ i)), d') else (Inr (), d'))"

definition delete_workflow_for_owner ::
    "wdb \<Rightarrow> CommunityId \<Rightarrow> uuid \<Rightarrow> bytes \<Rightarrow> (uuid option, DbError) rust_result \<times> wdb" where
  "delete_workflow_for_owner d community_id i owner_pubkey =
     (case delete_workflows d (\<lambda>r. wf_key r = (community_id, i) \<and> wr_owner_pubkey r = owner_pubkey) of
        (Inl e, d') \<Rightarrow> (Inl e, d')
      | (Inr [], d') \<Rightarrow> (Inl (NotFound (''workflow '' @ i)), d')
      | (Inr (r # _), d') \<Rightarrow> (Inr (wr_channel_id r), d'))"

definition find_by_owner_and_name :: "wdb \<Rightarrow> CommunityId \<Rightarrow> bytes \<Rightarrow> string \<Rightarrow> WorkflowRecord option" where
  "find_by_owner_and_name d community_id owner_pubkey name =
     find (\<lambda>r. wr_community_id r = community_id \<and> wr_owner_pubkey r = owner_pubkey \<and> wr_name r = name) (db_workflows d)"

subsection \<open>Scheduled fires\<close>

definition claim_scheduled_workflow_fire ::
    "wdb \<Rightarrow> datetime \<Rightarrow> CommunityId \<Rightarrow> uuid \<Rightarrow> datetime \<Rightarrow> (ScheduledWorkflowFireClaim option, DbError) rust_result \<times> wdb" where
  "claim_scheduled_workflow_fire d now community_id workflow_id scheduled_for =
     (if \<not> has_workflow d community_id workflow_id then (Inr None, d)
      else if \<not> community_write_allowed d community_id then violation ''community write fence'' d
      else if list_ex (\<lambda>f. fire_key f = (community_id, workflow_id, scheduled_for)) (db_fires d) then (Inr None, d)
      else (Inr (Some \<lparr>fc_community_id = community_id, fc_workflow_id = workflow_id, fc_scheduled_for = scheduled_for,
                      fc_claimed_at = now\<rparr>),
            d\<lparr>db_fires := db_fires d @ [\<lparr>fc_community_id = community_id, fc_workflow_id = workflow_id,
                 fc_scheduled_for = scheduled_for, fc_claimed_at = now, fr_workflow_run_id = None\<rparr>]\<rparr>))"

definition latest_scheduled_workflow_fire :: "wdb \<Rightarrow> CommunityId \<Rightarrow> uuid \<Rightarrow> datetime option" where
  "latest_scheduled_workflow_fire d community_id workflow_id =
     (case map fc_scheduled_for (filter (\<lambda>f. fc_community_id f = community_id \<and> fc_workflow_id f = workflow_id) (db_fires d)) of
        [] \<Rightarrow> None
      | t # ts \<Rightarrow> Some (foldl max t ts))"

definition attach_scheduled_workflow_run ::
    "wdb \<Rightarrow> CommunityId \<Rightarrow> uuid \<Rightarrow> datetime \<Rightarrow> uuid \<Rightarrow> (bool, DbError) rust_result \<times> wdb" where
  "attach_scheduled_workflow_run d community_id workflow_id scheduled_for workflow_run_id =
     (let sel = (\<lambda>f. fire_key f = (community_id, workflow_id, scheduled_for) \<and> fr_workflow_run_id f = None);
          hit = filter sel (db_fires d)
      in if hit = [] then (Inr False, d)
         else if \<not> community_write_allowed d community_id then violation ''community write fence'' d
         else if \<not> has_run d community_id workflow_run_id then violation ''foreign key'' d
         else (Inr (length hit = 1), d\<lparr>db_fires := update_rows sel (\<lambda>f. f\<lparr>fr_workflow_run_id := Some workflow_run_id\<rparr>) (db_fires d)\<rparr>))"

definition prune_scheduled_workflow_fires_before :: "wdb \<Rightarrow> datetime \<Rightarrow> nat \<times> wdb" where
  "prune_scheduled_workflow_fires_before d older_than =
     (let sel = (\<lambda>f. fc_claimed_at f < older_than \<and> community_write_allowed d (fc_community_id f))
      in (length (filter sel (db_fires d)), d\<lparr>db_fires := filter (\<lambda>f. \<not> sel f) (db_fires d)\<rparr>))"

subsection \<open>Runs\<close>

definition create_workflow_run ::
    "wdb \<Rightarrow> datetime \<Rightarrow> uuid \<Rightarrow> CommunityId \<Rightarrow> uuid \<Rightarrow> hex option \<Rightarrow> json option \<Rightarrow> (uuid, DbError) rust_result \<times> wdb" where
  "create_workflow_run d now fresh community_id workflow_id trigger_event_id trigger_context =
     (if \<not> community_write_allowed d community_id then violation ''community write fence'' d
      else if has_run d community_id fresh then violation ''duplicate key'' d
      else if \<not> has_workflow d community_id workflow_id then violation ''foreign key'' d
      else (Inr fresh, d\<lparr>db_runs := db_runs d @ [\<lparr>rr_id = fresh, rr_community_id = community_id, rr_workflow_id = workflow_id,
              rr_status = RunPending, rr_trigger_event_id = trigger_event_id, rr_current_step = 0, rr_execution_trace = JArray [],
              rr_trigger_context = trigger_context, rr_started_at = None, rr_completed_at = None, rr_error_message = None,
              rr_error_code = None, rr_created_at = now\<rparr>]\<rparr>))"

definition get_workflow_run :: "wdb \<Rightarrow> CommunityId \<Rightarrow> uuid \<Rightarrow> (WorkflowRunRecord, DbError) rust_result" where
  "get_workflow_run d community_id i =
     (case find (\<lambda>r. run_key r = (community_id, i)) (db_runs d) of
        None \<Rightarrow> Inl (NotFound (''workflow_run '' @ i))
      | Some r \<Rightarrow> Inr r)"

text \<open>
  Newest first by creation time and id: identifiers are compared by \<open>lt\<close>, the order of the database
  on them.
\<close>

definition newer :: "(uuid \<Rightarrow> uuid \<Rightarrow> bool) \<Rightarrow> WorkflowRunRecord \<Rightarrow> datetime \<times> uuid \<Rightarrow> bool" where
  "newer lt r k \<longleftrightarrow> rr_created_at r > fst k \<or> rr_created_at r = fst k \<and> lt (snd k) (rr_id r)"

fun insert_newest :: "(uuid \<Rightarrow> uuid \<Rightarrow> bool) \<Rightarrow> WorkflowRunRecord \<Rightarrow> WorkflowRunRecord list \<Rightarrow> WorkflowRunRecord list" where
  "insert_newest lt r [] = [r]"
| "insert_newest lt r (s # ss) =
     (if newer lt r (rr_created_at s, rr_id s) then r # s # ss else s # insert_newest lt r ss)"

definition order_newest :: "(uuid \<Rightarrow> uuid \<Rightarrow> bool) \<Rightarrow> WorkflowRunRecord list \<Rightarrow> WorkflowRunRecord list" where
  "order_newest lt rs = foldr (insert_newest lt) rs []"

definition older :: "(uuid \<Rightarrow> uuid \<Rightarrow> bool) \<Rightarrow> WorkflowRunRecord \<Rightarrow> datetime \<times> uuid \<Rightarrow> bool" where
  "older lt r k \<longleftrightarrow> rr_created_at r < fst k \<or> rr_created_at r = fst k \<and> lt (rr_id r) (snd k)"

definition list_workflow_runs_page ::
    "(uuid \<Rightarrow> uuid \<Rightarrow> bool) \<Rightarrow> wdb \<Rightarrow> CommunityId \<Rightarrow> uuid \<Rightarrow> datetime option \<Rightarrow> uuid option \<Rightarrow> int \<Rightarrow> WorkflowRunRecord list" where
  "list_workflow_runs_page lt d community_id workflow_id before before_id limit =
     take (nat (clamp_int 1 LIST_MAX_LIMIT limit)) (order_newest lt
       (filter (\<lambda>r. rr_community_id r = community_id \<and> rr_workflow_id r = workflow_id \<and>
          (case (before, before_id) of (Some t, Some i) \<Rightarrow> older lt r (t, i) | _ \<Rightarrow> True)) (db_runs d)))"

definition list_workflow_runs ::
    "(uuid \<Rightarrow> uuid \<Rightarrow> bool) \<Rightarrow> wdb \<Rightarrow> CommunityId \<Rightarrow> uuid \<Rightarrow> int \<Rightarrow> WorkflowRunRecord list" where
  "list_workflow_runs lt d community_id workflow_id limit = list_workflow_runs_page lt d community_id workflow_id None None limit"

record WorkflowRunFailure =
  rf_code :: string
  rf_message :: string

definition update_workflow_run ::
    "wdb \<Rightarrow> datetime \<Rightarrow> CommunityId \<Rightarrow> uuid \<Rightarrow> RunStatus \<Rightarrow> int \<Rightarrow> json \<Rightarrow> WorkflowRunFailure option \<Rightarrow>
     (unit, DbError) rust_result \<times> wdb" where
  "update_workflow_run d now community_id i status current_step trace failure =
     (if \<not> has_run d community_id i then (Inl (NotFound (''workflow_run '' @ i)), d)
      else if \<not> community_write_allowed d community_id then violation ''community write fence'' d
      else (Inr (), d\<lparr>db_runs := update_rows (\<lambda>r. run_key r = (community_id, i))
             (\<lambda>r. r\<lparr>rr_status := status, rr_current_step := current_step, rr_execution_trace := trace,
                    rr_error_code := map_option rf_code failure, rr_error_message := map_option rf_message failure,
                    rr_started_at := (if RunStatus_text status = ''running'' \<and> rr_started_at r = None then Some now else rr_started_at r),
                    rr_completed_at := (if RunStatus_text status \<in> {''completed'', ''failed'', ''cancelled''} then Some now
                                        else rr_completed_at r)\<rparr>) (db_runs d)\<rparr>))"

subsection \<open>Approvals\<close>

record CreateApprovalParams =
  pm_community_id :: CommunityId
  pm_token :: string
  pm_workflow_id :: uuid
  pm_run_id :: uuid
  pm_step_id :: string
  pm_step_index :: int
  pm_approver_spec :: string
  pm_expires_at :: datetime

definition create_approval :: "db_env \<Rightarrow> wdb \<Rightarrow> datetime \<Rightarrow> CreateApprovalParams \<Rightarrow> (unit, DbError) rust_result \<times> wdb" where
  "create_approval X d now params =
     (let c = pm_community_id params; token_hash = hash_approval_token X (pm_token params) in
      if \<not> varchar 64 (pm_step_id params) then violation ''value too long'' d
      else if \<not> community_write_allowed d c then violation ''community write fence'' d
      else if list_ex (\<lambda>a. approval_key a = (c, token_hash)) (db_approvals d) then violation ''duplicate key'' d
      else if \<not> (has_workflow d c (pm_workflow_id params) \<and> has_run d c (pm_run_id params)) then violation ''foreign key'' d
      else (Inr (), d\<lparr>db_approvals := db_approvals d @ [\<lparr>ar_token = token_hash, ar_workflow_id = pm_workflow_id params,
              ar_run_id = pm_run_id params, ar_step_id = pm_step_id params, ar_step_index = pm_step_index params,
              ar_approver_spec = pm_approver_spec params, ar_status = ApPending, ar_approver_pubkey = None, ar_note = None,
              ar_expires_at = pm_expires_at params, ar_created_at = now, ap_community_id = c, ap_granted_at = None,
              ap_denied_at = None\<rparr>]\<rparr>))"

definition get_approval_by_stored_hash :: "wdb \<Rightarrow> CommunityId \<Rightarrow> bytes \<Rightarrow> (ApprovalRecord, DbError) rust_result" where
  "get_approval_by_stored_hash d community_id token_hash =
     (case find (\<lambda>a. approval_key a = (community_id, token_hash)) (db_approvals d) of
        None \<Rightarrow> Inl (NotFound ''approval token (hashed)'')
      | Some a \<Rightarrow> Inr (ApprovalRecord.truncate a))"

definition get_approval :: "db_env \<Rightarrow> wdb \<Rightarrow> CommunityId \<Rightarrow> string \<Rightarrow> (ApprovalRecord, DbError) rust_result" where
  "get_approval X d community_id token = get_approval_by_stored_hash d community_id (hash_approval_token X token)"

definition get_run_approvals :: "wdb \<Rightarrow> CommunityId \<Rightarrow> uuid \<Rightarrow> uuid \<Rightarrow> ApprovalRecord list" where
  "get_run_approvals d community_id workflow_id run_id =
     map ApprovalRecord.truncate (sort_key ar_step_index (sort_key ar_created_at
       (filter (\<lambda>a. ap_community_id a = community_id \<and> ar_run_id a = run_id \<and> ar_workflow_id a = workflow_id) (db_approvals d))))"

definition update_approval_by_stored_hash ::
    "wdb \<Rightarrow> datetime \<Rightarrow> CommunityId \<Rightarrow> bytes \<Rightarrow> ApprovalStatus \<Rightarrow> bytes option \<Rightarrow> string option \<Rightarrow>
     (bool, DbError) rust_result \<times> wdb" where
  "update_approval_by_stored_hash d now community_id token_hash status approver_pubkey note' =
     (let sel = (\<lambda>a. approval_key a = (community_id, token_hash) \<and> ar_status a = ApPending);
          hit = filter sel (db_approvals d)
      in if hit = [] then (Inr False, d)
         else if \<not> community_write_allowed d community_id then violation ''community write fence'' d
         else (Inr True, d\<lparr>db_approvals := update_rows sel (\<lambda>a. a\<lparr>ar_status := status, ar_approver_pubkey := approver_pubkey,
                 ar_note := note',
                 ap_granted_at := (if ApprovalStatus_text status = ''granted'' then Some now else ap_granted_at a),
                 ap_denied_at := (if ApprovalStatus_text status = ''denied'' then Some now else ap_denied_at a)\<rparr>) (db_approvals d)\<rparr>))"

definition update_approval ::
    "db_env \<Rightarrow> wdb \<Rightarrow> datetime \<Rightarrow> CommunityId \<Rightarrow> string \<Rightarrow> ApprovalStatus \<Rightarrow> bytes option \<Rightarrow> string option \<Rightarrow>
     (bool, DbError) rust_result \<times> wdb" where
  "update_approval X d now community_id token status approver_pubkey note' =
     update_approval_by_stored_hash d now community_id (hash_approval_token X token) status approver_pubkey note'"

subsection \<open>Membership\<close>

definition get_member_role :: "wdb \<Rightarrow> CommunityId \<Rightarrow> uuid \<Rightarrow> bytes \<Rightarrow> string option" where
  "get_member_role d community_id channel_id pubkey =
     (if list_ex (\<lambda>c. cn_community_id c = community_id \<and> cn_id c = channel_id \<and> cn_deleted_at c = None) (db_channels d)
      then map_option mb_role (find (\<lambda>m. mb_community_id m = community_id \<and> mb_channel_id m = channel_id \<and> mb_pubkey m = pubkey
             \<and> mb_removed_at m = None) (db_members d))
      else None)"

subsection \<open>Histories of the tables\<close>

text \<open>
  One statement of any of the functions above, or a change of the tables around them. A step is
  labelled with what later statements depend on; a claim with the time at which it was won.
\<close>

datatype db_label =
    LClaim CommunityId uuid datetime datetime
  | LPrune datetime
  | LDelete CommunityId uuid
  | LDecide CommunityId bytes ApprovalStatus
  | LEnable CommunityId uuid
  | LOther

inductive wdb_step :: "db_env \<Rightarrow> wdb \<Rightarrow> db_label \<Rightarrow> wdb \<Rightarrow> bool" for X :: db_env where
  st_create: "create_workflow X d now fresh c ch owner n j h = (r, d') \<Longrightarrow> wdb_step X d LOther d'"
| st_upsert: "upsert_workflow X d now c i ch owner n j h = (r, d') \<Longrightarrow> wdb_step X d LOther d'"
| st_update: "update_workflow X d c i n j h = (r, d') \<Longrightarrow> wdb_step X d LOther d'"
| st_status: "update_workflow_status d c i st = (r, d') \<Longrightarrow> wdb_step X d LOther d'"
| st_enabled: "set_workflow_enabled d c i b = (r, d') \<Longrightarrow> wdb_step X d (if b then LEnable c i else LOther) d'"
| st_disable: "disable_workflows_for_owner_in_channel d c x owner = (r, d') \<Longrightarrow> wdb_step X d LOther d'"
| st_delete: "delete_workflow d c i = (r, d') \<Longrightarrow> wdb_step X d (LDelete c i) d'"
| st_delete_owner: "delete_workflow_for_owner d c i owner = (r, d') \<Longrightarrow> wdb_step X d (LDelete c i) d'"
| st_claim: "claim_scheduled_workflow_fire d now c w t = (Inr (Some cl), d') \<Longrightarrow> wdb_step X d (LClaim c w t now) d'"
| st_claim_lost: "claim_scheduled_workflow_fire d now c w t = (r, d') \<Longrightarrow> (\<And>cl. r \<noteq> Inr (Some cl)) \<Longrightarrow> wdb_step X d LOther d'"
| st_attach: "attach_scheduled_workflow_run d c w t i = (r, d') \<Longrightarrow> wdb_step X d LOther d'"
| st_prune: "prune_scheduled_workflow_fires_before d old = (n, d') \<Longrightarrow> wdb_step X d (LPrune old) d'"
| st_run: "create_workflow_run d now fresh c w e j = (r, d') \<Longrightarrow> wdb_step X d LOther d'"
| st_run_update: "update_workflow_run d now c i st k tr f = (r, d') \<Longrightarrow> wdb_step X d LOther d'"
| st_approval: "create_approval X d now p = (r, d') \<Longrightarrow> wdb_step X d LOther d'"
| st_decide: "update_approval_by_stored_hash d now c h st who note' = (Inr True, d') \<Longrightarrow> wdb_step X d (LDecide c h st) d'"
| st_decide_lost: "update_approval_by_stored_hash d now c h st who note' = (r, d') \<Longrightarrow> r \<noteq> Inr True \<Longrightarrow> wdb_step X d LOther d'"
| st_around: "wdb_step X d LOther (d\<lparr>db_communities := cs, db_users := us, db_channels := chs, db_members := ms\<rparr>)"

inductive_cases wdb_stepE: "wdb_step X d l d'"

inductive wdb_run :: "db_env \<Rightarrow> wdb \<Rightarrow> db_label list \<Rightarrow> wdb \<Rightarrow> bool" for X :: db_env where
  run_none: "wdb_run X d [] d"
| run_more: "wdb_step X d l d1 \<Longrightarrow> wdb_run X d1 ls d2 \<Longrightarrow> wdb_run X d (l # ls) d2"

inductive_cases wdb_run_NilE: "wdb_run X d [] d'"
inductive_cases wdb_run_ConsE: "wdb_run X d (l # ls) d'"

text \<open>The keys and references of the schema.\<close>

definition db_ok :: "wdb \<Rightarrow> bool" where
  "db_ok d \<longleftrightarrow>
     distinct (map wf_key (db_workflows d)) \<and> distinct (map run_key (db_runs d)) \<and>
     distinct (map fire_key (db_fires d)) \<and> distinct (map approval_key (db_approvals d)) \<and>
     (\<forall>r \<in> set (db_runs d). has_workflow d (rr_community_id r) (rr_workflow_id r)) \<and>
     (\<forall>f \<in> set (db_fires d). has_workflow d (fc_community_id f) (fc_workflow_id f) \<and>
        (\<forall>i. fr_workflow_run_id f = Some i \<longrightarrow> has_run d (fc_community_id f) i)) \<and>
     (\<forall>a \<in> set (db_approvals d). has_workflow d (ap_community_id a) (ar_workflow_id a) \<and> has_run d (ap_community_id a) (ar_run_id a))"

lemmas wdb_defs = create_workflow_def upsert_workflow_def update_workflow_def update_workflow_status_def
  set_workflow_enabled_def disable_workflows_for_owner_in_channel_def delete_workflow_def delete_workflow_for_owner_def
  update_one_def insert_workflow_def violation_def

lemma map_update_rows: "(\<And>r. sel r \<Longrightarrow> k (f r) = k r) \<Longrightarrow> map k (update_rows sel f rows) = map k rows"
  by (simp add: update_rows_def)

lemma set_update_rows: "x \<in> set (update_rows sel f rows) \<longleftrightarrow> (\<exists>r \<in> set rows. x = (if sel r then f r else r))"
  by (auto simp: update_rows_def)

text \<open>
  An update that keeps the keys of the workflow rows keeps the tables consistent; so the row
  functions below only have to say that they keep keys.
\<close>

lemma has_workflow_keys: "has_workflow d c w \<longleftrightarrow> (c, w) \<in> set (map wf_key (db_workflows d))"
  by (force simp: has_workflow_def list_ex_iff)

lemma has_run_keys: "has_run d c i \<longleftrightarrow> (c, i) \<in> set (map run_key (db_runs d))"
  by (force simp: has_run_def list_ex_iff)

lemma db_ok_same_keys:
  assumes "db_ok d" "map wf_key (db_workflows d') = map wf_key (db_workflows d)" "db_runs d' = db_runs d"
    "db_fires d' = db_fires d" "db_approvals d' = db_approvals d"
  shows "db_ok d'"
  using assms unfolding db_ok_def has_workflow_keys has_run_keys by simp

text \<open>What a step does to the table of workflows: nothing, an update in place, a new row, or a deletion.\<close>

lemma update_workflows_result:
  "update_workflows d sel f = (r, d') \<Longrightarrow> d' = d \<or> d' = d\<lparr>db_workflows := update_rows sel f (db_workflows d)\<rparr>"
  by (auto simp: update_workflows_def violation_def Let_def split: if_splits)

lemma update_one_result:
  "update_one d c i f = (r, d') \<Longrightarrow> d' = d \<or> d' = d\<lparr>db_workflows := update_rows (\<lambda>r. wf_key r = (c, i)) f (db_workflows d)\<rparr>"
  using update_workflows_result [of d "\<lambda>r. wf_key r = (c, i)" f]
  by (cases "update_workflows d (\<lambda>r. wf_key r = (c, i)) f") (auto simp: update_one_def split: sum.splits if_splits)

lemma insert_workflow_result:
  "insert_workflow d w = (r, d') \<Longrightarrow>
     d' = d \<or> d' = d\<lparr>db_workflows := db_workflows d @ [w]\<rparr> \<and> \<not> has_workflow d (wr_community_id w) (wr_id w)"
  by (auto simp: insert_workflow_def violation_def split: if_splits)

lemma delete_workflows_result:
  "delete_workflows d sel = (r, d') \<Longrightarrow> d' = d \<or> d' = without_workflows d sel \<and>
     (\<forall>f \<in> set (db_fires d'). \<forall>i. fr_workflow_run_id f = Some i \<longrightarrow> has_run d' (fc_community_id f) i)"
  by (auto simp: delete_workflows_def violation_def Let_def list_all_iff split: if_splits option.splits)

lemma delete_result:
  "delete_workflow d c i = (r, d') \<Longrightarrow> \<exists>r'. delete_workflows d (\<lambda>r. wf_key r = (c, i)) = (r', d')"
  "delete_workflow_for_owner d c i ow = (r2, d') \<Longrightarrow>
     \<exists>r'. delete_workflows d (\<lambda>r. wf_key r = (c, i) \<and> wr_owner_pubkey r = ow) = (r', d')"
  by (auto simp: delete_workflow_def delete_workflow_for_owner_def split: prod.splits sum.splits if_splits list.splits)

lemma distinct_map_filter_keys: "distinct (map k xs) \<Longrightarrow> distinct (map k (filter P xs))"
  by (induction xs) auto

lemma without_workflows_stay: "has_workflow d c w \<Longrightarrow> \<not> selected d sel c w \<Longrightarrow> has_workflow (without_workflows d sel) c w"
  by (auto simp: has_workflow_def selected_def without_workflows_def list_ex_iff Let_def)

lemma without_workflows_runs: "has_run (without_workflows d sel) c i \<longleftrightarrow>
    (\<exists>r \<in> set (db_runs d). run_key r = (c, i) \<and> \<not> selected d sel (rr_community_id r) (rr_workflow_id r))"
  by (auto simp: has_run_def without_workflows_def list_ex_iff Let_def)

lemma without_workflows_tables:
  "db_workflows (without_workflows d sel) = filter (\<lambda>r. \<not> sel r) (db_workflows d)"
  "db_runs (without_workflows d sel) = filter (\<lambda>r. \<not> selected d sel (rr_community_id r) (rr_workflow_id r)) (db_runs d)"
  "db_fires (without_workflows d sel) = filter (\<lambda>f. \<not> selected d sel (fc_community_id f) (fc_workflow_id f)) (db_fires d)"
  "db_approvals (without_workflows d sel) = filter (\<lambda>a. \<not> selected d sel (ap_community_id a) (ar_workflow_id a)
     \<and> has_run (without_workflows d sel) (ap_community_id a) (ar_run_id a)) (db_approvals d)"
  by (simp_all add: without_workflows_def has_run_def Let_def)

lemma db_ok_delete: "db_ok d \<Longrightarrow> delete_workflows d sel = (r, d') \<Longrightarrow> db_ok d'"
proof (drule delete_workflows_result, elim disjE conjE)
  assume ok: "db_ok d" and d': "d' = without_workflows d sel"
    and f: "\<forall>f \<in> set (db_fires d'). \<forall>i. fr_workflow_run_id f = Some i \<longrightarrow> has_run d' (fc_community_id f) i"
  have "distinct (map wf_key (db_workflows d'))" "distinct (map run_key (db_runs d'))"
       "distinct (map fire_key (db_fires d'))" "distinct (map approval_key (db_approvals d'))"
    using ok unfolding db_ok_def d' without_workflows_tables by (simp_all add: distinct_map_filter_keys)
  moreover have "\<forall>r \<in> set (db_runs d'). has_workflow d' (rr_community_id r) (rr_workflow_id r)"
       "\<forall>f \<in> set (db_fires d'). has_workflow d' (fc_community_id f) (fc_workflow_id f)"
    using ok without_workflows_stay unfolding db_ok_def d' without_workflows_tables(2,3) by auto
  moreover have "\<forall>a \<in> set (db_approvals d'). has_workflow d' (ap_community_id a) (ar_workflow_id a) \<and>
      has_run d' (ap_community_id a) (ar_run_id a)"
    using ok without_workflows_stay unfolding db_ok_def d' without_workflows_tables(4) by auto
  ultimately show "db_ok d'" unfolding db_ok_def using f by simp
qed simp

text \<open>Every kind of step keeps the keys and references.\<close>

lemma db_ok_update:
  assumes "db_ok d" "\<And>r. sel r \<Longrightarrow> wf_key (f r) = wf_key r"
  shows "db_ok (d\<lparr>db_workflows := update_rows sel f (db_workflows d)\<rparr>)"
  by (rule db_ok_same_keys [OF assms(1)]) (use assms(2) in \<open>auto intro!: map_update_rows\<close>)

lemma db_ok_insert:
  assumes "db_ok d" "\<not> has_workflow d (wr_community_id w) (wr_id w)"
  shows "db_ok (d\<lparr>db_workflows := db_workflows d @ [w]\<rparr>)"
  using assms unfolding db_ok_def has_workflow_keys has_run_keys by auto

lemma db_ok_create:
  "db_ok d \<Longrightarrow> create_workflow X d now i c ch ow n j h = (r, d') \<Longrightarrow> db_ok d'"
  using insert_workflow_result db_ok_insert
  by (force simp: create_workflow_def violation_def split: option.splits prod.splits sum.splits)

lemma db_ok_upsert:
  assumes ok: "db_ok d" and up: "upsert_workflow X d now c i ch ow n j h = (r, d')"
  shows "db_ok d'"
proof -
  have u: "db_ok d1" if "update_workflows d sel f = (q, d1)" "\<And>r. sel r \<Longrightarrow> wf_key (f r) = wf_key r" for sel f q d1
    using update_workflows_result [OF that(1)] db_ok_update [OF ok that(2)] ok by auto
  have v: "db_ok d1" if "insert_workflow d w = (q, d1)" for w q d1
    using insert_workflow_result [OF that] db_ok_insert [OF ok] ok by auto
  show ?thesis
    using up ok unfolding upsert_workflow_def violation_def
    by (auto split: option.splits if_splits prod.splits sum.splits dest: v intro: u)
qed

lemma db_ok_one: "db_ok d \<Longrightarrow> update_one d c i f = (r, d') \<Longrightarrow> (\<And>r. wf_key (f r) = wf_key r) \<Longrightarrow> db_ok d'"
  using update_one_result [of d c i f r d'] db_ok_update [of d "\<lambda>r. wf_key r = (c, i)" f] by auto

lemma has_simps [simp]:
  "has_workflow (d\<lparr>db_runs := rs\<rparr>) = has_workflow d" "has_workflow (d\<lparr>db_fires := fs\<rparr>) = has_workflow d"
  "has_workflow (d\<lparr>db_approvals := as\<rparr>) = has_workflow d" "has_run (d\<lparr>db_fires := fs\<rparr>) = has_run d"
  "has_run (d\<lparr>db_approvals := as\<rparr>) = has_run d"
  "has_run (d\<lparr>db_runs := db_runs d @ [r]\<rparr>) c i \<longleftrightarrow> has_run d c i \<or> run_key r = (c, i)"
  by (auto simp: has_workflow_def has_run_def fun_eq_iff)

lemma has_run_update:
  "(\<And>r. run_key (f r) = run_key r) \<Longrightarrow> has_run (d\<lparr>db_runs := update_rows sel f (db_runs d)\<rparr>) = has_run d"
  by (intro ext) (simp only: has_run_keys, simp add: map_update_rows del: set_map)

lemma db_ok_fires:
  assumes "db_ok d" "claim_scheduled_workflow_fire d now c w t = (r, d')"
  shows "db_ok d'"
proof -
  let ?f = "\<lparr>fc_community_id = c, fc_workflow_id = w, fc_scheduled_for = t, fc_claimed_at = now, fr_workflow_run_id = None\<rparr>"
  have "d' = d \<or> has_workflow d c w \<and> \<not> list_ex (\<lambda>f. fire_key f = fire_key ?f) (db_fires d) \<and>
      d' = d\<lparr>db_fires := db_fires d @ [?f]\<rparr>"
    using assms(2) by (auto simp: claim_scheduled_workflow_fire_def violation_def split: if_splits)
  then show ?thesis using assms(1) unfolding db_ok_def by (auto simp: list_ex_iff)
qed

lemma db_ok_attach:
  assumes "db_ok d" "attach_scheduled_workflow_run d c w t i = (r, d')"
  shows "db_ok d'"
proof -
  define sel where "sel f \<longleftrightarrow> fire_key f = (c, w, t) \<and> fr_workflow_run_id f = None" for f :: fire_row
  let ?f = "\<lambda>f :: fire_row. f\<lparr>fr_workflow_run_id := Some i\<rparr>"
  have d: "d' = d \<or> has_run d c i \<and> d' = d\<lparr>db_fires := update_rows sel ?f (db_fires d)\<rparr>"
    using assms(2) by (auto simp: attach_scheduled_workflow_run_def violation_def Let_def sel_def [abs_def] split: if_splits)
  have m: "map fire_key (update_rows sel ?f (db_fires d)) = map fire_key (db_fires d)" by (rule map_update_rows) simp
  have "has_workflow d (fc_community_id g) (fc_workflow_id g) \<and> (\<forall>j. fr_workflow_run_id g = Some j \<longrightarrow> has_run d (fc_community_id g) j)"
    if g: "g \<in> set (update_rows sel ?f (db_fires d))" and i: "has_run d c i" for g
  proof -
    obtain f where f: "f \<in> set (db_fires d)" "g = (if sel f then ?f f else f)" using g unfolding set_update_rows by blast
    then show ?thesis using assms(1) i unfolding db_ok_def by (auto simp: sel_def)
  qed
  then show ?thesis using d assms(1) m unfolding db_ok_def by auto
qed

lemma db_ok_runs:
  assumes "db_ok d" "create_workflow_run d now i c w e j = (r, d')"
  shows "db_ok d'"
  using assms unfolding create_workflow_run_def violation_def db_ok_def
  by (auto simp: has_run_def list_ex_iff split: if_splits)

lemma db_ok_run_update:
  assumes "db_ok d" "update_workflow_run d now c i st k tr fl = (r, d')"
  shows "db_ok d'"
proof -
  define f where "f r = r\<lparr>rr_status := st, rr_current_step := k, rr_execution_trace := tr,
                    rr_error_code := map_option rf_code fl, rr_error_message := map_option rf_message fl,
                    rr_started_at := (if RunStatus_text st = ''running'' \<and> rr_started_at r = None then Some now else rr_started_at r),
                    rr_completed_at := (if RunStatus_text st \<in> {''completed'', ''failed'', ''cancelled''} then Some now
                                        else rr_completed_at r)\<rparr>" for r :: WorkflowRunRecord
  have k: "run_key (f r) = run_key r" "rr_workflow_id (f r) = rr_workflow_id r" for r by (simp_all add: f_def)
  define sel where "sel r \<longleftrightarrow> run_key r = (c, i)" for r
  have d: "d' = d \<or> d' = d\<lparr>db_runs := update_rows sel f (db_runs d)\<rparr>"
    using assms(2) unfolding update_workflow_run_def violation_def f_def [abs_def, symmetric] sel_def [abs_def, symmetric]
    by (auto split: if_splits)
  have m: "map run_key (update_rows sel f (db_runs d)) = map run_key (db_runs d)"
    using k by (intro map_update_rows) simp
  have "has_workflow d (rr_community_id s) (rr_workflow_id s)" if s: "s \<in> set (update_rows sel f (db_runs d))" for s
  proof -
    obtain r where r: "r \<in> set (db_runs d)" "s = (if sel r then f r else r)" using s unfolding set_update_rows by blast
    then show ?thesis using assms(1) k [of r] unfolding db_ok_def by (cases "sel r") auto
  qed
  then show ?thesis using d assms(1) has_run_update [of f sel d] k m unfolding db_ok_def by auto
qed

lemma db_ok_approval:
  assumes "db_ok d" "create_approval X d now p = (r, d')"
  shows "db_ok d'"
proof -
  define a where "a = \<lparr>ar_token = hash_approval_token X (pm_token p), ar_workflow_id = pm_workflow_id p,
              ar_run_id = pm_run_id p, ar_step_id = pm_step_id p, ar_step_index = pm_step_index p,
              ar_approver_spec = pm_approver_spec p, ar_status = ApPending, ar_approver_pubkey = None, ar_note = None,
              ar_expires_at = pm_expires_at p, ar_created_at = now, ap_community_id = pm_community_id p, ap_granted_at = None,
              ap_denied_at = None\<rparr>"
  have "d' = d \<or> approval_key a \<notin> approval_key ` set (db_approvals d) \<and> has_workflow d (ap_community_id a) (ar_workflow_id a) \<and>
      has_run d (ap_community_id a) (ar_run_id a) \<and> d' = d\<lparr>db_approvals := db_approvals d @ [a]\<rparr>"
    using assms(2) unfolding create_approval_def violation_def Let_def a_def [symmetric]
    by (auto simp: list_ex_iff a_def split: if_splits)
  then show ?thesis using assms(1) unfolding db_ok_def by auto
qed

lemma db_ok_decide:
  assumes "db_ok d" "update_approval_by_stored_hash d now c h st who nt = (r, d')"
  shows "db_ok d'"
proof -
  define sel where "sel a \<longleftrightarrow> approval_key a = (c, h) \<and> ar_status a = ApPending" for a :: approval_row
  define f where "f a = a\<lparr>ar_status := st, ar_approver_pubkey := who, ar_note := nt,
                 ap_granted_at := (if ApprovalStatus_text st = ''granted'' then Some now else ap_granted_at a),
                 ap_denied_at := (if ApprovalStatus_text st = ''denied'' then Some now else ap_denied_at a)\<rparr>" for a :: approval_row
  have k: "approval_key (f a) = approval_key a" "ar_workflow_id (f a) = ar_workflow_id a" "ar_run_id (f a) = ar_run_id a" for a
    by (simp_all add: f_def)
  have d: "d' = d \<or> d' = d\<lparr>db_approvals := update_rows sel f (db_approvals d)\<rparr>"
    using assms(2) unfolding update_approval_by_stored_hash_def violation_def f_def [abs_def, symmetric] sel_def [abs_def, symmetric]
    by (auto simp: Let_def split: if_splits)
  have m: "map approval_key (update_rows sel f (db_approvals d)) = map approval_key (db_approvals d)"
    using k by (intro map_update_rows) simp
  have "has_workflow d (ap_community_id s) (ar_workflow_id s) \<and> has_run d (ap_community_id s) (ar_run_id s)"
    if s: "s \<in> set (update_rows sel f (db_approvals d))" for s
  proof -
    obtain a where a: "a \<in> set (db_approvals d)" "s = (if sel a then f a else a)" using s unfolding set_update_rows by blast
    then show ?thesis using assms(1) k [of a] unfolding db_ok_def by (cases "sel a") auto
  qed
  then show ?thesis using d assms(1) m unfolding db_ok_def by auto
qed

lemma db_ok_prune:
  assumes "db_ok d" "prune_scheduled_workflow_fires_before d old = (n, d')"
  shows "db_ok d'"
proof -
  obtain P where "d' = d\<lparr>db_fires := filter P (db_fires d)\<rparr>"
    using assms(2) by (auto simp: prune_scheduled_workflow_fires_before_def Let_def)
  then show ?thesis using assms(1) unfolding db_ok_def by (simp add: distinct_map_filter_keys)
qed

lemma db_ok_disable:
  "db_ok d \<Longrightarrow> disable_workflows_for_owner_in_channel d c x ow = (r, d') \<Longrightarrow> db_ok d'"
  unfolding disable_workflows_for_owner_in_channel_def
  by (drule update_workflows_result) (auto intro!: db_ok_update)

lemma db_ok_update_workflow: "db_ok d \<Longrightarrow> update_workflow X d c i n j h = (r, d') \<Longrightarrow> db_ok d'"
  by (auto simp: update_workflow_def violation_def split: option.splits if_splits intro: db_ok_one)

lemma db_ok_deletes: "db_ok d \<Longrightarrow> delete_workflow d c i = (r, d') \<Longrightarrow> db_ok d'"
  "db_ok d \<Longrightarrow> delete_workflow_for_owner d c i ow = (r2, d') \<Longrightarrow> db_ok d'"
  using delete_result db_ok_delete by blast+

lemma db_ok_flags: "db_ok d \<Longrightarrow> update_workflow_status d c i st = (r, d') \<Longrightarrow> db_ok d'"
  "db_ok d \<Longrightarrow> set_workflow_enabled d c i b = (r, d') \<Longrightarrow> db_ok d'"
  unfolding update_workflow_status_def set_workflow_enabled_def by (auto intro: db_ok_one)

lemma db_ok_around: "db_ok d \<Longrightarrow> db_ok (d\<lparr>db_communities := cs, db_users := us, db_channels := chs, db_members := ms\<rparr>)"
  by (simp add: db_ok_def has_workflow_def has_run_def)

lemma db_ok_step: "wdb_step X d l d' \<Longrightarrow> db_ok d \<Longrightarrow> db_ok d'"
  by (induction rule: wdb_step.induct)
    (rule db_ok_create db_ok_upsert db_ok_update_workflow db_ok_flags db_ok_disable db_ok_deletes db_ok_fires db_ok_attach
      db_ok_prune db_ok_runs db_ok_run_update db_ok_approval db_ok_decide db_ok_around, assumption+)+

interpretation workflow_tables: invariant_system
    "\<lambda>d. db_workflows d = [] \<and> db_runs d = [] \<and> db_fires d = [] \<and> db_approvals d = []" "\<lambda>d d'. \<exists>l. wdb_step X d l d'" db_ok for X
  by unfold_locales (auto simp: db_ok_def dest: db_ok_step)

text \<open>
  The tables stay consistent: from empty tables, under every history of the statements above and of
  changes around them, the keys are unique, runs and fires belong to a workflow of their own
  community, an attached run and the run of an approval exist.
\<close>

theorem tables_consistent:
  assumes "reach (\<lambda>d. db_workflows d = [] \<and> db_runs d = [] \<and> db_fires d = [] \<and> db_approvals d = []) (\<lambda>d d'. \<exists>l. wdb_step X d l d') d"
  shows "db_ok d"
  by (rule workflow_tables.reach_inv [OF assms])

subsection \<open>Fires are claimed once\<close>

lemma update_in_place_fires: "update_workflows d sel f = (r, d') \<Longrightarrow> db_fires d' = db_fires d \<and> db_approvals d' = db_approvals d"
  by (drule update_workflows_result) auto

lemma insert_fires: "insert_workflow d w = (r, d') \<Longrightarrow> db_fires d' = db_fires d \<and> db_approvals d' = db_approvals d"
  by (drule insert_workflow_result) auto

lemma update_one_fires: "update_one d c i f = (r, d') \<Longrightarrow> db_fires d' = db_fires d \<and> db_approvals d' = db_approvals d"
  by (drule update_one_result) auto

lemma selected_one: "(\<And>r. sel r \<Longrightarrow> wf_key r = (c, i)) \<Longrightarrow> selected d sel c' w \<Longrightarrow> (c', w) = (c, i)"
  by (fastforce simp: selected_def list_ex_iff)

lemma delete_keeps_fires:
  assumes "delete_workflows d sel = (r, d')" "\<And>r. sel r \<Longrightarrow> wf_key r = (c, i)" "f \<in> set (db_fires d)"
    "(fc_community_id f, fc_workflow_id f) \<noteq> (c, i)"
  shows "f \<in> set (db_fires d')"
proof -
  have "\<not> selected d sel (fc_community_id f) (fc_workflow_id f)" using selected_one [OF assms(2)] assms(4) by blast
  then show ?thesis using delete_workflows_result [OF assms(1)] assms(3) by (elim disjE conjE) (simp_all add: without_workflows_tables)
qed

lemma delete_result_sel:
  assumes "delete_workflow d c i = (r, d') \<or> delete_workflow_for_owner d c i ow = (r2, d')"
  obtains sel r' where "delete_workflows d sel = (r', d')" "\<And>r. sel r \<Longrightarrow> wf_key r = (c, i)"
  using assms
proof
  assume "delete_workflow d c i = (r, d')"
  then show thesis using delete_result(1) that [of "\<lambda>r. wf_key r = (c, i)"] by blast
next
  assume "delete_workflow_for_owner d c i ow = (r2, d')"
  then show thesis using delete_result(2) that [of "\<lambda>r. wf_key r = (c, i) \<and> wr_owner_pubkey r = ow"] by blast
qed

lemma same_keys: "map k xs = map k ys \<Longrightarrow> k ` set xs = k ` set ys"
  by (drule arg_cong [where f = set]) simp

lemma fire_kept:
  assumes "wdb_step X d l d'" "k \<in> fire_stamp ` set (db_fires d)" "k = (c, w, t, at)" "\<And>old. l = LPrune old \<Longrightarrow> old \<le> at"
    "l \<noteq> LDelete c w"
  shows "k \<in> fire_stamp ` set (db_fires d')"
proof -
  obtain f where f: "f \<in> set (db_fires d)" "k = fire_stamp f" using assms(2) by (rule imageE)
  have same: "k \<in> fire_stamp ` set (db_fires d')" if "db_fires d' = db_fires d" using that assms(2) by simp
  have keep: "k \<in> fire_stamp ` set (db_fires d')"
    if "delete_workflows d sel = (r, d')" "\<And>r. sel r \<Longrightarrow> wf_key r = (c', i)" "l = LDelete c' i" for sel r c' i
  proof -
    have "f \<in> set (db_fires d')" using delete_keeps_fires [OF that(1) that(2) f(1)] f(2) assms(3,5) that(3) by auto
    then show ?thesis unfolding f(2) by (rule imageI)
  qed
  show ?thesis using assms(1)
  proof (cases rule: wdb_step.cases)
    case (st_create now fresh c ch owner n j h r)
    then have "db_fires d' = db_fires d" using insert_fires
      by (fastforce simp: create_workflow_def violation_def split: option.splits prod.splits sum.splits)
    then show ?thesis by (rule same)
  next
    case (st_upsert now c i ch owner n j h r)
    then have "db_fires d' = db_fires d" using insert_fires update_in_place_fires
      by (auto simp: upsert_workflow_def violation_def split: option.splits prod.splits sum.splits if_splits)
    then show ?thesis by (rule same)
  next
    case (st_update c i n j h r)
    then have "db_fires d' = db_fires d" using update_one_fires
      by (fastforce simp: update_workflow_def violation_def split: option.splits if_splits)
    then show ?thesis by (rule same)
  next
    case (st_status c i st r)
    then have "db_fires d' = db_fires d" by (simp add: update_workflow_status_def update_one_fires)
    then show ?thesis by (rule same)
  next
    case (st_enabled c i b r)
    then have "db_fires d' = db_fires d" by (simp add: set_workflow_enabled_def update_one_fires)
    then show ?thesis by (rule same)
  next
    case (st_disable c x owner r)
    from st_disable(2) have "db_fires d' = db_fires d"
      unfolding disable_workflows_for_owner_in_channel_def by (rule update_in_place_fires [THEN conjunct1])
    then show ?thesis by (rule same)
  next
    case (st_delete c' i r)
    obtain sel r' where "delete_workflows d sel = (r', d')" "\<And>r. sel r \<Longrightarrow> wf_key r = (c', i)"
      using delete_result_sel [OF disjI1 [OF st_delete(2)]] by blast
    then show ?thesis using keep st_delete(1) by blast
  next
    case (st_delete_owner c' i owner r)
    obtain sel r' where "delete_workflows d sel = (r', d')" "\<And>r. sel r \<Longrightarrow> wf_key r = (c', i)"
      using delete_result_sel [OF disjI2 [OF st_delete_owner(2)]] by blast
    then show ?thesis using keep st_delete_owner(1) by blast
  next
    case (st_claim now c w t cl)
    then show ?thesis using assms(2) by (auto simp: claim_scheduled_workflow_fire_def violation_def split: if_splits)
  next
    case (st_claim_lost now c w t r)
    then have "db_fires d' = db_fires d" by (auto simp: claim_scheduled_workflow_fire_def violation_def split: if_splits)
    then show ?thesis by (rule same)
  next
    case (st_attach c w t i r)
    have "map fire_stamp (update_rows sel (\<lambda>f. f\<lparr>fr_workflow_run_id := Some i\<rparr>) (db_fires d)) = map fire_stamp (db_fires d)" for sel
      by (rule map_update_rows) simp
    then have "map fire_stamp (db_fires d') = map fire_stamp (db_fires d)"
      using st_attach by (auto simp: attach_scheduled_workflow_run_def violation_def Let_def split: if_splits)
    then show ?thesis using assms(2) same_keys [of fire_stamp "db_fires d'" "db_fires d"] by blast
  next
    case (st_prune old n)
    then have "f \<in> set (db_fires d')" using f assms(3,4) by (auto simp: prune_scheduled_workflow_fires_before_def Let_def)
    then show ?thesis unfolding f(2) by (rule imageI)
  next
    case (st_run now fresh c w e j r)
    then have "db_fires d' = db_fires d" by (auto simp: create_workflow_run_def violation_def split: if_splits)
    then show ?thesis by (rule same)
  next
    case (st_run_update now c i st k tr f r)
    then have "db_fires d' = db_fires d" by (auto simp: update_workflow_run_def violation_def split: if_splits)
    then show ?thesis by (rule same)
  next
    case (st_approval now p r)
    then have "db_fires d' = db_fires d" by (auto simp: create_approval_def violation_def Let_def split: if_splits)
    then show ?thesis by (rule same)
  next
    case (st_decide now c h st who note')
    then have "db_fires d' = db_fires d" by (auto simp: update_approval_by_stored_hash_def violation_def Let_def split: if_splits)
    then show ?thesis by (rule same)
  next
    case (st_decide_lost now c h st who note' r)
    then have "db_fires d' = db_fires d" by (auto simp: update_approval_by_stored_hash_def violation_def Let_def split: if_splits)
    then show ?thesis by (rule same)
  next
    case (st_around cs us chs ms)
    then show ?thesis by (intro same) simp
  qed
qed

lemma claim_won: "claim_scheduled_workflow_fire d now c w t = (Inr (Some cl), d') \<Longrightarrow>
    (c, w, t) \<notin> fire_key ` set (db_fires d) \<and> (c, w, t, now) \<in> fire_stamp ` set (db_fires d')"
  by (auto simp: claim_scheduled_workflow_fire_def violation_def list_ex_iff split: if_splits)

lemma step_claim: "wdb_step X d (LClaim c w t now) d' \<Longrightarrow>
    (c, w, t) \<notin> fire_key ` set (db_fires d) \<and> (c, w, t, now) \<in> fire_stamp ` set (db_fires d')"
  by (erule wdb_stepE) (auto split: if_splits dest: claim_won)

lemma fire_kept_run:
  "wdb_run X d ls d' \<Longrightarrow> (c, w, t, at) \<in> fire_stamp ` set (db_fires d) \<Longrightarrow> LDelete c w \<notin> set ls \<Longrightarrow>
     (\<And>old. LPrune old \<in> set ls \<Longrightarrow> old \<le> at) \<Longrightarrow> (c, w, t, at) \<in> fire_stamp ` set (db_fires d')"
proof (induction rule: wdb_run.induct)
  case (run_more d l d1 ls d2)
  have "l \<noteq> LDelete c w" using run_more(5) by auto
  moreover have "old \<le> at" if "l = LPrune old" for old using run_more(6) that by simp
  ultimately have "(c, w, t, at) \<in> fire_stamp ` set (db_fires d1)" using fire_kept [OF run_more(1) run_more(4) refl] by blast
  then show ?case using run_more(3,5,6) by simp
qed

lemma run_split: "wdb_run X d (as @ bs) d' \<Longrightarrow> \<exists>d1. wdb_run X d as d1 \<and> wdb_run X d1 bs d'"
proof (induction as arbitrary: d)
  case (Cons a as)
  then obtain d1 where "wdb_step X d a d1" "wdb_run X d1 (as @ bs) d'" by (auto elim: wdb_run_ConsE)
  then show ?case using Cons(1) run_more by blast
qed (auto intro: run_none)

lemma claimed_apart:
  assumes "wdb_run X d (as @ LClaim c w t at # bs @ LClaim c w t at' # cs) d'"
  shows "LDelete c w \<in> set bs \<or> (\<exists>old. LPrune old \<in> set bs \<and> at < old)"
proof (rule ccontr)
  assume none: "\<not> (LDelete c w \<in> set bs \<or> (\<exists>old. LPrune old \<in> set bs \<and> at < old))"
  obtain d0 where "wdb_run X d0 (LClaim c w t at # bs @ LClaim c w t at' # cs) d'" using run_split [OF assms] by blast
  then obtain d1 where d1: "wdb_step X d0 (LClaim c w t at) d1" "wdb_run X d1 (bs @ LClaim c w t at' # cs) d'"
    by (auto elim: wdb_run_ConsE)
  obtain d2 where d2: "wdb_run X d1 bs d2" "wdb_run X d2 (LClaim c w t at' # cs) d'" using run_split [OF d1(2)] by blast
  have "(c, w, t, at) \<in> fire_stamp ` set (db_fires d2)"
    using fire_kept_run [OF d2(1)] step_claim [OF d1(1)] none by (meson not_le)
  then have "(c, w, t) \<in> fire_key ` set (db_fires d2)" by force
  then show False using d2(2) step_claim by (blast elim: wdb_run_ConsE)
qed

text \<open>
  C23. A fire is claimed once: of all pods that claim the same instant of the same workflow of a community
  only one wins, in every interleaving of all statements on the tables, until the workflow is
  deleted or its claims are pruned with a cutoff after the claim.
\<close>

theorem claim_once:
  assumes "wdb_run X d (as @ LClaim c w t at # bs @ LClaim c w t at' # cs) d'"
  shows "LDelete c w \<in> set bs \<or> (\<exists>old. LPrune old \<in> set bs \<and> at < old)"
  using assms by (rule claimed_apart)

subsection \<open>Approvals are decided once\<close>

lemma delete_keeps_approvals:
  assumes "db_ok d" "delete_workflows d sel = (r, d')" "\<And>r. sel r \<Longrightarrow> wf_key r = (c, i)" "a \<in> set (db_approvals d)"
    "ap_community_id a \<noteq> c"
  shows "a \<in> set (db_approvals d')"
proof -
  have n: "\<not> selected d sel (ap_community_id a) w" for w using selected_one [OF assms(3)] assms(5) by blast
  have "has_run d (ap_community_id a) (ar_run_id a)" using assms(1,4) by (simp add: db_ok_def)
  then obtain q where "q \<in> set (db_runs d)" "run_key q = (ap_community_id a, ar_run_id a)" by (auto simp: has_run_def list_ex_iff)
  then have "has_run (without_workflows d sel) (ap_community_id a) (ar_run_id a)"
    unfolding without_workflows_runs using n by (metis prod.inject)
  then show ?thesis using delete_workflows_result [OF assms(2)] assms(4) n
    by (elim disjE conjE) (simp_all add: without_workflows_tables)
qed

lemma decided_kept:
  assumes ok: "db_ok d" and st: "wdb_step X d l d'" and a: "a \<in> set (db_approvals d)" "ar_status a \<noteq> ApPending"
    and l: "\<And>w. l \<noteq> LDelete (ap_community_id a) w"
  shows "a \<in> set (db_approvals d')"
proof -
  have keep: "a \<in> set (db_approvals d')" if "delete_workflows d sel = (r, d')" "\<And>r. sel r \<Longrightarrow> wf_key r = (c', i)" "l = LDelete c' i"
    for sel r c' i
    using delete_keeps_approvals [OF ok that(1) that(2) a(1)] l that(3) by blast
  show ?thesis using st
  proof (cases rule: wdb_step.cases)
    case (st_create now fresh c ch owner n j h r)
    then show ?thesis using a(1) insert_fires
      by (fastforce simp: create_workflow_def violation_def split: option.splits prod.splits sum.splits)
  next
    case (st_upsert now c i ch owner n j h r)
    then have "db_approvals d' = db_approvals d" using insert_fires update_in_place_fires
      by (auto simp: upsert_workflow_def violation_def split: option.splits prod.splits sum.splits if_splits)
    then show ?thesis using a(1) by simp
  next
    case (st_update c i n j h r)
    then show ?thesis using a(1) update_one_fires
      by (fastforce simp: update_workflow_def violation_def split: option.splits if_splits)
  next
    case (st_delete c' i r)
    obtain sel r' where "delete_workflows d sel = (r', d')" "\<And>r. sel r \<Longrightarrow> wf_key r = (c', i)"
      using delete_result_sel [OF disjI1 [OF st_delete(2)]] by blast
    then show ?thesis using keep st_delete(1) by blast
  next
    case (st_delete_owner c' i owner r)
    obtain sel r' where "delete_workflows d sel = (r', d')" "\<And>r. sel r \<Longrightarrow> wf_key r = (c', i)"
      using delete_result_sel [OF disjI2 [OF st_delete_owner(2)]] by blast
    then show ?thesis using keep st_delete_owner(1) by blast
  next
    case (st_disable c x owner r)
    from st_disable(2) have "db_approvals d' = db_approvals d"
      unfolding disable_workflows_for_owner_in_channel_def by (rule update_in_place_fires [THEN conjunct2])
    then show ?thesis using a(1) by simp
  qed (use a in \<open>auto simp: update_workflow_status_def set_workflow_enabled_def claim_scheduled_workflow_fire_def create_workflow_run_def
        update_workflow_run_def create_approval_def update_approval_by_stored_hash_def attach_scheduled_workflow_run_def
        prune_scheduled_workflow_fires_before_def violation_def Let_def set_update_rows
        dest!: update_one_fires split: if_splits\<close>)
qed

lemma update_rows_hit: "x \<in> set rows \<Longrightarrow> sel x \<Longrightarrow> f x \<in> set (update_rows sel f rows)"
  by (force simp: update_rows_def)

lemma key_unique: "distinct (map k xs) \<Longrightarrow> a \<in> set xs \<Longrightarrow> b \<in> set xs \<Longrightarrow> k a = k b \<Longrightarrow> a = b"
  by (auto simp: distinct_map dest: inj_onD)

lemma step_decide:
  assumes "wdb_step X d (LDecide c h st) d'"
  shows "(\<exists>a \<in> set (db_approvals d). approval_key a = (c, h) \<and> ar_status a = ApPending) \<and>
    (\<exists>a \<in> set (db_approvals d'). approval_key a = (c, h) \<and> ar_status a = st)"
proof -
  obtain now who nt where u: "update_approval_by_stored_hash d now c h st who nt = (Inr True, d')"
    using assms by (auto elim!: wdb_stepE split: if_splits)
  then have "filter (\<lambda>a. approval_key a = (c, h) \<and> ar_status a = ApPending) (db_approvals d) \<noteq> []"
    by (auto simp: update_approval_by_stored_hash_def Let_def split: if_splits)
  then obtain a where a: "a \<in> set (db_approvals d)" "approval_key a = (c, h)" "ar_status a = ApPending"
    unfolding filter_empty_conv by blast
  define sel where "sel b \<longleftrightarrow> approval_key b = (c, h) \<and> ar_status b = ApPending" for b :: approval_row
  obtain f where f: "db_approvals d' = update_rows sel f (db_approvals d)"
      "\<And>b. approval_key (f b) = approval_key b \<and> ar_status (f b) = st"
    using u by (auto simp: update_approval_by_stored_hash_def violation_def Let_def sel_def [abs_def] split: if_splits)
  have "f a \<in> set (db_approvals d')" unfolding f(1) using update_rows_hit [OF a(1), of sel f] a by (simp add: sel_def)
  then show ?thesis using a f(2) by metis
qed

lemma decided_kept_run:
  "wdb_run X d ls d' \<Longrightarrow> db_ok d \<Longrightarrow> a \<in> set (db_approvals d) \<Longrightarrow> ar_status a \<noteq> ApPending \<Longrightarrow>
     (\<And>w. LDelete (ap_community_id a) w \<notin> set ls) \<Longrightarrow> db_ok d' \<and> a \<in> set (db_approvals d')"
proof (induction rule: wdb_run.induct)
  case (run_more d l d1 ls d2)
  have "a \<in> set (db_approvals d1)" using decided_kept [OF run_more(4,1,5,6)] run_more(7) by auto
  then show ?case using run_more(3) db_ok_step [OF run_more(1,4)] run_more(6,7) by simp
qed simp

text \<open>
  An approval is decided once: of all grants and denials of one token only the first takes effect, in
  every interleaving of all statements, until a workflow of the community is deleted.
\<close>

theorem approval_decided_once:
  assumes "wdb_run X d (as @ LDecide c h st # bs @ LDecide c h st' # cs) d'" "db_ok d" "st \<noteq> ApPending"
  shows "\<exists>w. LDelete c w \<in> set bs"
proof (rule ccontr)
  assume none: "\<nexists>w. LDelete c w \<in> set bs"
  obtain d0 where d0: "wdb_run X d as d0" "wdb_run X d0 (LDecide c h st # bs @ LDecide c h st' # cs) d'"
    using run_split [OF assms(1)] by blast
  have ok0: "db_ok d0" using d0(1) assms(2) by (induction rule: wdb_run.induct) (auto dest: db_ok_step)
  obtain d1 where d1: "wdb_step X d0 (LDecide c h st) d1" "wdb_run X d1 (bs @ LDecide c h st' # cs) d'"
    using d0(2) by (auto elim: wdb_run_ConsE)
  obtain a where a: "a \<in> set (db_approvals d1)" "approval_key a = (c, h)" "ar_status a = st" using step_decide [OF d1(1)] by blast
  obtain d2 d3 where d2: "wdb_run X d1 bs d2" "wdb_step X d2 (LDecide c h st') d3"
    using run_split [OF d1(2)] by (blast elim: wdb_run_ConsE)
  have k: "db_ok d2" "a \<in> set (db_approvals d2)"
    using decided_kept_run [OF d2(1) db_ok_step [OF d1(1) ok0] a(1)] a assms(3) none by auto
  obtain b where b: "b \<in> set (db_approvals d2)" "approval_key b = (c, h)" "ar_status b = ApPending" using step_decide [OF d2(2)] by blast
  have "a = b" using key_unique [of approval_key, OF _ k(2) b(1)] k(1) b(2) a(2) unfolding db_ok_def by auto
  then show False using a(3) b(3) assms(3) by simp
qed

lemma update_rows_miss: "x \<in> set rows \<Longrightarrow> \<not> sel x \<Longrightarrow> x \<in> set (update_rows sel f rows)"
  by (force simp: update_rows_def)

text \<open>
  A statement issued for one owner leaves the workflows of every other owner as they are, whoever
  learns their ids: saving under an id, deleting by id, and disabling on the loss of membership.
\<close>

theorem foreign_workflows_untouched:
  assumes "w \<in> set (db_workflows d)" "wr_owner_pubkey w \<noteq> owner"
    "upsert_workflow X d now c i ch owner n j h = (r, d') \<or> delete_workflow_for_owner d c i owner = (r2, d') \<or>
     disable_workflows_for_owner_in_channel d c x owner = (r3, d')"
  shows "w \<in> set (db_workflows d')"
proof -
  have upd: "w \<in> set (db_workflows d1)" if "update_workflows d sel f = (q, d1)" "\<And>r. sel r \<Longrightarrow> wr_owner_pubkey r = owner" for sel f q d1
  proof -
    have "\<not> sel w" using that(2) [of w] assms(2) by blast
    then show ?thesis using update_workflows_result [OF that(1)] update_rows_miss [OF assms(1), of sel f] assms(1) by auto
  qed
  have ins: "w \<in> set (db_workflows d1)" if "insert_workflow d v = (q, d1)" for v q d1
    using insert_workflow_result [OF that] assms(1) by auto
  consider "upsert_workflow X d now c i ch owner n j h = (r, d')" | "delete_workflow_for_owner d c i owner = (r2, d')"
    | "disable_workflows_for_owner_in_channel d c x owner = (r3, d')" using assms(3) by blast
  then show ?thesis
  proof cases
    case 1
    then show ?thesis using assms(1)
      by (auto simp: upsert_workflow_def violation_def split: option.splits if_splits prod.splits sum.splits dest: ins intro: upd)
  next
    case 2
    then obtain q where "delete_workflows d (\<lambda>r. wf_key r = (c, i) \<and> wr_owner_pubkey r = owner) = (q, d')" using delete_result(2) by blast
    from delete_workflows_result [OF this] show ?thesis using assms(1,2) by (elim disjE conjE) (simp_all add: without_workflows_tables)
  next
    case 3
    then show ?thesis unfolding disable_workflows_for_owner_in_channel_def by (rule upd) simp
  qed
qed

subsection \<open>Disabled workflows\<close>

definition off :: "wdb \<Rightarrow> CommunityId \<times> uuid \<Rightarrow> bool" where
  "off d k \<longleftrightarrow> (\<exists>w \<in> set (db_workflows d). wf_key w = k \<and> \<not> wr_enabled w)"

lemma off_update:
  assumes "update_workflows d sel f = (r, d')" "off d k" "\<And>w. sel w \<Longrightarrow> wf_key (f w) = wf_key w"
    "\<And>w. sel w \<Longrightarrow> wf_key w = k \<Longrightarrow> \<not> wr_enabled w \<Longrightarrow> \<not> wr_enabled (f w)"
  shows "off d' k"
proof -
  obtain w where w: "w \<in> set (db_workflows d)" "wf_key w = k" "\<not> wr_enabled w" using assms(2) unfolding off_def by blast
  have "off (d\<lparr>db_workflows := update_rows sel f (db_workflows d)\<rparr>) k"
  proof (cases "sel w")
    case True
    then have "f w \<in> set (update_rows sel f (db_workflows d))" "wf_key (f w) = k" "\<not> wr_enabled (f w)"
      using update_rows_hit [OF w(1)] assms(3,4) w by auto
    then show ?thesis unfolding off_def by auto
  next
    case False
    then have "w \<in> set (update_rows sel f (db_workflows d))" by (rule update_rows_miss [OF w(1)])
    then show ?thesis using w unfolding off_def by auto
  qed
  then show ?thesis using update_workflows_result [OF assms(1)] assms(2) by auto
qed

lemma off_same: "db_workflows d' = db_workflows d \<Longrightarrow> off d k \<Longrightarrow> off d' k"
  by (simp add: off_def)

lemma off_insert: "insert_workflow d v = (r, d') \<Longrightarrow> off d k \<Longrightarrow> off d' k"
  by (drule insert_workflow_result) (auto simp: off_def)

lemma off_delete:
  assumes "delete_workflows d sel = (r, d')" "\<And>w. sel w \<Longrightarrow> wf_key w \<noteq> k" "off d k"
  shows "off d' k"
proof -
  obtain w where w: "w \<in> set (db_workflows d)" "wf_key w = k" "\<not> wr_enabled w" using assms(3) unfolding off_def by blast
  then have "w \<in> set (db_workflows d')"
    using delete_workflows_result [OF assms(1)] assms(2) [of w] by (elim disjE conjE) (auto simp: without_workflows_tables)
  then show ?thesis using w unfolding off_def by blast
qed

lemma off_one:
  assumes "update_one d c i f = (r, d')" "off d k" "\<And>w. wf_key (f w) = wf_key w" "\<And>w. (c, i) = k \<Longrightarrow> \<not> wr_enabled w \<Longrightarrow> \<not> wr_enabled (f w)"
  shows "off d' k"
proof -
  obtain q where "update_workflows d (\<lambda>r. wf_key r = (c, i)) f = (q, d')"
    using assms(1) by (auto simp: update_one_def split: prod.splits sum.splits if_splits)
  then show ?thesis by (rule off_update [OF _ assms(2)]) (use assms(3,4) in auto)
qed

lemma off_step:
  assumes st: "wdb_step X d l d'" and k: "off d k" "l \<noteq> LEnable (fst k) (snd k)" "l \<noteq> LDelete (fst k) (snd k)"
  shows "off d' k"
  using st
proof (cases rule: wdb_step.cases)
  case (st_create now fresh c ch owner n j h r)
  then show ?thesis using k(1)
    by (auto simp: create_workflow_def violation_def split: option.splits prod.splits sum.splits intro: off_insert)
next
  case (st_upsert now c i ch owner n j h r)
  then show ?thesis using k(1)
    by (auto simp: upsert_workflow_def violation_def split: option.splits prod.splits sum.splits if_splits
        intro: off_insert elim!: off_update)
next
  case (st_update c i n j h r)
  then show ?thesis using k(1)
    by (auto simp: update_workflow_def violation_def split: option.splits if_splits elim!: off_one)
next
  case (st_status c i st r)
  then show ?thesis using k(1) unfolding update_workflow_status_def by (auto elim!: off_one)
next
  case (st_enabled c i b r)
  then have "(c, i) = k \<Longrightarrow> \<not> b" using k(2) by auto
  with st_enabled(2) show ?thesis using k(1) unfolding set_workflow_enabled_def by (auto elim!: off_one)
next
  case (st_disable c x owner r)
  then show ?thesis using k(1) unfolding disable_workflows_for_owner_in_channel_def by (auto elim!: off_update)
next
  case (st_delete c i r)
  then obtain q where "delete_workflows d (\<lambda>r. wf_key r = (c, i)) = (q, d')" using delete_result(1) by blast
  then show ?thesis by (rule off_delete) (use k st_delete(1) in auto)
next
  case (st_delete_owner c i owner r)
  then obtain q where "delete_workflows d (\<lambda>r. wf_key r = (c, i) \<and> wr_owner_pubkey r = owner) = (q, d')" using delete_result(2) by blast
  then show ?thesis by (rule off_delete) (use k st_delete_owner(1) in auto)
qed (use k(1) in \<open>auto simp: claim_scheduled_workflow_fire_def attach_scheduled_workflow_run_def prune_scheduled_workflow_fires_before_def
      create_workflow_run_def update_workflow_run_def create_approval_def update_approval_by_stored_hash_def violation_def Let_def
      split: if_splits intro: off_same [rotated]\<close>)

lemma off_run:
  "wdb_run X d ls d' \<Longrightarrow> db_ok d \<Longrightarrow> off d k \<Longrightarrow> LEnable (fst k) (snd k) \<notin> set ls \<Longrightarrow> LDelete (fst k) (snd k) \<notin> set ls \<Longrightarrow>
     db_ok d' \<and> off d' k"
proof (induction rule: wdb_run.induct)
  case (run_more d l d1 ls d2)
  have "off d1 k" using off_step [OF run_more(1) run_more(5)] run_more(6,7) by auto
  then show ?case using run_more(3) db_ok_step [OF run_more(1,4)] run_more(6,7) by simp
qed simp

text \<open>
  Disabling lasts: when an owner leaves the channel, none of the owner's workflows there is offered to
  the event path or to the scheduler again, under every history of statements that does not enable
  or delete it; saving it again does not enable it.
\<close>

theorem disabling_lasts:
  assumes "db_ok d" "disable_workflows_for_owner_in_channel d c x owner = (Inr n, d1)" "wdb_run X d1 ls d2"
    "w \<in> set (db_workflows d)" "wr_community_id w = c" "wr_channel_id w = Some x" "wr_owner_pubkey w = owner"
    "LEnable c (wr_id w) \<notin> set ls" "LDelete c (wr_id w) \<notin> set ls"
    "v \<in> set (list_enabled_channel_workflows d2 c' x') \<union> set (list_all_enabled_workflows d2)"
  shows "wf_key v \<noteq> (c, wr_id w)"
proof -
  let ?k = "(c, wr_id w)"
  have "off d1 ?k"
  proof (cases "wr_enabled w")
    case True
    let ?sel = "\<lambda>r. wr_community_id r = c \<and> wr_channel_id r = Some x \<and> wr_owner_pubkey r = owner \<and> wr_enabled r"
    have "d1 = d\<lparr>db_workflows := update_rows ?sel (\<lambda>r. r\<lparr>wr_enabled := False\<rparr>) (db_workflows d)\<rparr>"
      using assms(2) by (auto simp: disable_workflows_for_owner_in_channel_def update_workflows_def violation_def Let_def split: if_splits)
    moreover have "w\<lparr>wr_enabled := False\<rparr> \<in> set (update_rows ?sel (\<lambda>r. r\<lparr>wr_enabled := False\<rparr>) (db_workflows d))"
      using True assms(5-7) by (intro update_rows_hit [OF assms(4)]) auto
    ultimately show ?thesis using assms(5) unfolding off_def by (intro bexI [of _ "w\<lparr>wr_enabled := False\<rparr>"]) simp_all
  next
    case False
    then have "off d ?k" using assms(4,5) unfolding off_def by auto
    then show ?thesis using assms(2) unfolding disable_workflows_for_owner_in_channel_def by (auto elim!: off_update)
  qed
  moreover have "db_ok d1" using db_ok_disable [OF assms(1,2)] .
  ultimately have k: "db_ok d2 \<and> off d2 ?k" using off_run [OF assms(3)] assms(8,9) by simp
  have v: "v \<in> set (db_workflows d2)" "wr_enabled v"
    using assms(10) by (auto simp: list_enabled_channel_workflows_def list_all_enabled_workflows_def dest!: in_set_takeD)
  show "wf_key v \<noteq> ?k"
  proof
    assume e: "wf_key v = ?k"
    obtain u where u: "u \<in> set (db_workflows d2)" "wf_key u = ?k" "\<not> wr_enabled u" using k unfolding off_def by blast
    have "u = v" using key_unique [of wf_key, OF _ u(1) v(1)] k u(2) e unfolding db_ok_def by auto
    then show False using u(3) v(2) by simp
  qed
qed

subsection \<open>Sample tables\<close>

definition wfs_dx :: db_env where
  "wfs_dx = \<lparr>dx_jsonb = (\<lambda>_. Some JNull), dx_sha256 = (\<lambda>s. bytes_of s)\<rparr>"

definition wfs_empty :: wdb where
  "wfs_empty = \<lparr>db_communities = [\<lparr>cm_id = ''c'', cm_archived_at = None, cm_write_allowed = True\<rparr>], db_users = [(''c'', [1])],
     db_channels = [\<lparr>cn_community_id = ''c'', cn_id = ''x'', cn_deleted_at = None\<rparr>],
     db_members = [\<lparr>mb_community_id = ''c'', mb_channel_id = ''x'', mb_pubkey = [1], mb_role = ''member'', mb_removed_at = None\<rparr>],
     db_workflows = [], db_runs = [], db_fires = [], db_approvals = []\<rparr>"

definition wfs_wf :: WorkflowRecord where
  "wfs_wf = new_workflow 0 ''c'' ''w'' (Some ''x'') [1] ''n'' JNull []"

definition wfs_db :: wdb where
  "wfs_db = wfs_empty\<lparr>db_workflows := [wfs_wf]\<rparr>"

lemma wfs_allowed [simp]: "community_write_allowed wfs_empty ''c''" "community_write_allowed (wfs_db\<lparr>db_fires := fs\<rparr>) ''c''"
  "has_workflow wfs_db ''c'' ''w''"
  by (simp_all add: community_write_allowed_def wfs_db_def wfs_empty_def has_workflow_def wfs_wf_def new_workflow_def)

lemma wfs_db_ok: "db_ok wfs_db" "db_ok wfs_empty"
  by (simp_all add: db_ok_def wfs_db_def wfs_empty_def)

theorem tables_consistent_witness: "db_ok wfs_empty"
  by (rule tables_consistent [of wfs_dx], rule reach_init) (simp add: wfs_empty_def)

definition wfs_fire :: "datetime \<Rightarrow> fire_row" where
  "wfs_fire at = \<lparr>fc_community_id = ''c'', fc_workflow_id = ''w'', fc_scheduled_for = 5, fc_claimed_at = at, fr_workflow_run_id = None\<rparr>"

lemma wfs_claim: "\<exists>cl. claim_scheduled_workflow_fire (wfs_db\<lparr>db_fires := []\<rparr>) at ''c'' ''w'' 5 = (Inr (Some cl), wfs_db\<lparr>db_fires := [wfs_fire at]\<rparr>)"
  by (simp add: claim_scheduled_workflow_fire_def wfs_fire_def)

theorem claim_once_witness:
  "(\<exists>d'. wdb_run wfs_dx (wfs_db\<lparr>db_fires := []\<rparr>) ([] @ LClaim ''c'' ''w'' 5 10 # [LPrune 20] @ LClaim ''c'' ''w'' 5 30 # []) d') \<and>
   (LDelete ''c'' ''w'' \<in> set [LPrune 20] \<or> (\<exists>old. LPrune old \<in> set [LPrune 20] \<and> 10 < old))"
proof -
  have "prune_scheduled_workflow_fires_before (wfs_db\<lparr>db_fires := [wfs_fire 10]\<rparr>) 20 = (1, wfs_db\<lparr>db_fires := []\<rparr>)"
    by (simp add: prune_scheduled_workflow_fires_before_def wfs_fire_def)
  then have r: "wdb_run wfs_dx (wfs_db\<lparr>db_fires := []\<rparr>) ([] @ LClaim ''c'' ''w'' 5 10 # [LPrune 20] @ LClaim ''c'' ''w'' 5 30 # [])
      (wfs_db\<lparr>db_fires := [wfs_fire 30]\<rparr>)"
    using wfs_claim [of 10] wfs_claim [of 30] by (auto intro!: run_more run_none st_claim st_prune)
  then show ?thesis using claim_once [OF r] by blast
qed

theorem foreign_workflows_untouched_witness:
  "wfs_wf \<in> set (db_workflows (snd (upsert_workflow wfs_dx wfs_db 9 ''c'' ''w'' (Some ''x'') [2] ''m'' [] [])))"
  by (rule foreign_workflows_untouched [where w = wfs_wf and owner = "[2]", OF _ _ disjI1 [OF prod.collapse [symmetric]]])
    (simp_all add: wfs_db_def wfs_wf_def new_workflow_def)

theorem disabling_lasts_witness:
  "\<exists>n d1. disable_workflows_for_owner_in_channel wfs_db ''c'' ''x'' [1] = (Inr n, d1) \<and>
     (\<forall>v. v \<in> set (list_enabled_channel_workflows d1 ''c'' ''x'') \<union> set (list_all_enabled_workflows d1) \<longrightarrow> wf_key v \<noteq> (''c'', ''w''))"
proof -
  obtain n d1 where d: "disable_workflows_for_owner_in_channel wfs_db ''c'' ''x'' [1] = (Inr n, d1)"
    by (simp add: disable_workflows_for_owner_in_channel_def update_workflows_def wfs_db_def wfs_wf_def new_workflow_def wfs_empty_def
        community_write_allowed_def Let_def)
  have w: "wfs_wf \<in> set (db_workflows wfs_db)" "wr_community_id wfs_wf = ''c''" "wr_channel_id wfs_wf = Some ''x''"
      "wr_owner_pubkey wfs_wf = [1]" "wr_id wfs_wf = ''w''"
    by (simp_all add: wfs_db_def wfs_wf_def new_workflow_def)
  show ?thesis using d disabling_lasts [OF wfs_db_ok(1) d run_none w(1-4)] w(5) by fastforce
qed

end
