(* ===== verification/Net_Guard.thy ===== *)
theory Net_Guard
  imports Buzz_Prelude
begin

text \<open>
  The classification of addresses that outgoing requests must not reach:
  \<open>crates/buzz-core/src/network.rs\<close>. An address is its octets in network order; the predicates of
  the standard library that the source uses are written out.
\<close>

unbundle bit_operations_syntax

datatype IpAddr =
    V4 u8 u8 u8 u8
  | V6 u8 u8 u8 u8 u8 u8 u8 u8 u8 u8 u8 u8 u8 u8 u8 u8

fun octets :: "IpAddr \<Rightarrow> u8 list" where
  "octets (V4 a b c d) = [a, b, c, d]"
| "octets (V6 a b c d e f g h i j k l m n p q) = [a, b, c, d, e, f, g, h, i, j, k, l, m, n, p, q]"

definition NAT64_WELL_KNOWN_PREFIX :: "u8 list" where
  "NAT64_WELL_KNOWN_PREFIX = [0x00, 0x64, 0xff, 0x9b, 0, 0, 0, 0, 0, 0, 0, 0]"

definition IPV4_TRANSLATED_PREFIX :: "u8 list" where
  "IPV4_TRANSLATED_PREFIX = [0, 0, 0, 0, 0, 0, 0, 0, 0xff, 0xff, 0, 0]"

text \<open>The last four octets as an IPv4 address, under a prefix of twelve octets.\<close>

definition last_four :: "IpAddr \<Rightarrow> IpAddr" where
  "last_four ip = (let o4 = octets ip in V4 (o4 ! 12) (o4 ! 13) (o4 ! 14) (o4 ! 15))"

definition embedded_ipv4 :: "IpAddr \<Rightarrow> u8 list \<Rightarrow> IpAddr option" where
  "embedded_ipv4 v6 prefix = (if take 12 (octets v6) = prefix then Some (last_four v6) else None)"

text \<open>\<open>Ipv6Addr::to_ipv4\<close>: the compatible and the mapped addresses; \<open>Ipv6Addr::segments\<close>.\<close>

definition to_ipv4 :: "IpAddr \<Rightarrow> IpAddr option" where
  "to_ipv4 v6 =
     (if take 12 (octets v6) = replicate 12 0 \<or> take 12 (octets v6) = replicate 10 0 @ [0xff, 0xff]
      then Some (last_four v6) else None)"

definition segment_at :: "IpAddr \<Rightarrow> nat \<Rightarrow> u16" where
  "segment_at v6 i = push_bit 8 (ucast (octets v6 ! (2 * i))) OR ucast (octets v6 ! (2 * i + 1))"

text \<open>\<open>is_loopback\<close>, \<open>is_private\<close>, \<open>is_link_local\<close>, \<open>is_broadcast\<close> of an IPv4 address with the local additions.\<close>

definition private_v4 :: "u8 \<Rightarrow> u8 \<Rightarrow> u8 \<Rightarrow> u8 \<Rightarrow> bool" where
  "private_v4 a b c d \<longleftrightarrow>
     a = 127
     \<or> (a = 10 \<or> a = 172 \<and> 16 \<le> b \<and> b \<le> 31 \<or> a = 192 \<and> b = 168)
     \<or> a = 169 \<and> b = 254
     \<or> a = 0
     \<or> (a = 255 \<and> b = 255 \<and> c = 255 \<and> d = 255)
     \<or> (a = 100 \<and> b AND 0xC0 = 64)
     \<or> (a = 198 \<and> b AND 0xFE = 18)"

fun is_private_v4 :: "IpAddr \<Rightarrow> bool" where
  "is_private_v4 (V4 a b c d) = private_v4 a b c d"
| "is_private_v4 _ = False"

definition private_v6 :: "IpAddr \<Rightarrow> bool" where
  "private_v6 v6 =
     (case to_ipv4 v6 of
        Some v4 \<Rightarrow> is_private_v4 v4
      | None \<Rightarrow>
         (case embedded_ipv4 v6 NAT64_WELL_KNOWN_PREFIX of
            Some v4 \<Rightarrow> is_private_v4 v4
          | None \<Rightarrow>
             (case embedded_ipv4 v6 IPV4_TRANSLATED_PREFIX of
                Some v4 \<Rightarrow> is_private_v4 v4
              | None \<Rightarrow>
                  octets v6 = replicate 15 0 @ [1]
                  \<or> octets v6 = replicate 16 0
                  \<or> segment_at v6 0 AND 0xfe00 = 0xfc00
                  \<or> segment_at v6 0 AND 0xffc0 = 0xfe80
                  \<or> segment_at v6 0 AND 0xff00 = 0xff00
                  \<or> (segment_at v6 0 = 0x0064 \<and> segment_at v6 1 = 0xff9b \<and> segment_at v6 2 = 1)
                  \<or> (segment_at v6 0 = 0x2001 \<and> segment_at v6 1 = 0)
                  \<or> segment_at v6 0 = 0x2002
                  \<or> (segment_at v6 0 = 0x2001 \<and> segment_at v6 1 = 0x0db8))))"

definition is_private_ip :: "IpAddr \<Rightarrow> bool" where
  "is_private_ip ip =
     (case ip of V4 a b c d \<Rightarrow> private_v4 a b c d | _ \<Rightarrow> private_v6 ip)"

subsection \<open>The ranges the documentation names\<close>

text \<open>An address is in a range when the first \<open>len\<close> bits agree with the base.\<close>

fun in_net :: "u8 list \<Rightarrow> u8 list \<times> nat \<Rightarrow> bool" where
  "in_net (a # as) (p # ps, len) \<longleftrightarrow>
     (if 8 \<le> len then a = p \<and> in_net as (ps, len - 8) else drop_bit (8 - len) a = drop_bit (8 - len) p)"
| "in_net _ _ \<longleftrightarrow> True"

definition blocked_v4 :: "(u8 list \<times> nat) list" where
  "blocked_v4 =
     [([127, 0, 0, 0], 8), ([10, 0, 0, 0], 8), ([172, 16, 0, 0], 12), ([192, 168, 0, 0], 16), ([169, 254, 0, 0], 16),
      ([0, 0, 0, 0], 8), ([255, 255, 255, 255], 32), ([100, 64, 0, 0], 10), ([198, 18, 0, 0], 15)]"

definition v6_base :: "u8 list \<Rightarrow> u8 list" where
  "v6_base p = p @ replicate (16 - length p) 0"

definition blocked_v6 :: "(u8 list \<times> nat) list" where
  "blocked_v6 =
     [(replicate 15 0 @ [1], 128), (v6_base [], 128), (v6_base [0xfc], 7), (v6_base [0xfe, 0x80], 10), (v6_base [0xff], 8),
      (v6_base [0x20, 0x01, 0x0d, 0xb8], 32), (v6_base [0x00, 0x64, 0xff, 0x9b, 0x00, 0x01], 48), (v6_base [0x20, 0x01], 32),
      (v6_base [0x20, 0x02], 16)]"

text \<open>The prefixes of 96 bits under which an IPv6 address stands for the IPv4 address in its last octets.\<close>

definition v4_carriers :: "u8 list list" where
  "v4_carriers = [replicate 12 0, replicate 10 0 @ [0xff, 0xff], IPV4_TRANSLATED_PREFIX, NAT64_WELL_KNOWN_PREFIX]"

fun documented_block :: "IpAddr \<Rightarrow> bool" where
  "documented_block (V4 a b c d) = list_ex (in_net [a, b, c, d]) blocked_v4"
| "documented_block v6 =
     (list_ex (in_net (octets v6)) blocked_v6 \<or>
      take 12 (octets v6) \<in> set v4_carriers \<and> list_ex (in_net (drop 12 (octets v6))) blocked_v4)"

subsection \<open>Bits and octets\<close>

lemma hi_bits_eq: "(x :: 'a::len word) AND NOT (mask n) = y AND NOT (mask n) \<longleftrightarrow> drop_bit n x = drop_bit n y"
proof
  assume e: "x AND NOT (mask n) = y AND NOT (mask n)"
  show "drop_bit n x = drop_bit n y"
  proof (rule bit_word_eqI)
    fix i assume "i < LENGTH('a)"
    have "bit (x AND NOT (mask n)) (n + i) \<longleftrightarrow> bit (y AND NOT (mask n)) (n + i)" by (simp add: e)
    then show "bit (drop_bit n x) i \<longleftrightarrow> bit (drop_bit n y) i"
      by (auto simp: bit_simps dest: bit_imp_le_length)
  qed
next
  assume e: "drop_bit n x = drop_bit n y"
  show "x AND NOT (mask n) = y AND NOT (mask n)"
  proof (rule bit_word_eqI)
    fix i assume "i < LENGTH('a)"
    have "bit (drop_bit n x) (i - n) \<longleftrightarrow> bit (drop_bit n y) (i - n)" by (simp add: e)
    then show "bit (x AND NOT (mask n)) i \<longleftrightarrow> bit (y AND NOT (mask n)) i"
      by (auto simp: bit_simps)
  qed
qed

lemma masks8: "(0xC0::u8) = NOT (mask 6)" "(0xFE::u8) = NOT (mask 1)"
  by code_simp+

lemma masks16: "(0xfe00::u16) = NOT (mask 9)" "(0xffc0::u16) = NOT (mask 6)" "(0xff00::u16) = NOT (mask 8)"
  by code_simp+

lemma and8: "b AND 0xC0 = 64 \<longleftrightarrow> drop_bit 6 b = drop_bit 6 (64::u8)" "b AND 0xFE = 18 \<longleftrightarrow> drop_bit 1 b = drop_bit 1 (18::u8)"
proof -
  have "(64::u8) AND NOT (mask 6) = 64" "(18::u8) AND NOT (mask 1) = 18" by code_simp+
  then show "b AND 0xC0 = 64 \<longleftrightarrow> drop_bit 6 b = drop_bit 6 (64::u8)" "b AND 0xFE = 18 \<longleftrightarrow> drop_bit 1 b = drop_bit 1 (18::u8)"
    unfolding masks8 by (metis hi_bits_eq)+
qed

lemma rng: "16 \<le> b \<and> b \<le> 31 \<longleftrightarrow> drop_bit 4 b = drop_bit 4 (16::u8)"
proof -
  have "drop_bit 4 b = drop_bit 4 (16::u8) \<longleftrightarrow> unat b div 16 = 1"
    by (simp add: word_unat_eq_iff drop_bit_eq_div unat_div_distrib)
  moreover have "16 \<le> b \<and> b \<le> 31 \<longleftrightarrow> 16 \<le> unat b \<and> unat b \<le> 31" by (simp add: word_le_nat_alt)
  ultimately show ?thesis by linarith
qed
text \<open>A segment of two octets.\<close>

definition seg :: "u8 \<Rightarrow> u8 \<Rightarrow> u16" where "seg a b = push_bit 8 (ucast a) OR ucast b"

lemma bit_seg: "bit (seg a b) i \<longleftrightarrow> (if i < 8 then bit b i else bit a (i - 8))"
  by (auto simp: seg_def bit_simps dest: bit_imp_le_length)

lemma seg_drop: "drop_bit n (seg a b) = drop_bit n (seg c d) \<longleftrightarrow>
    (if 8 \<le> n then drop_bit (n - 8) a = drop_bit (n - 8) c else a = c \<and> drop_bit n b = drop_bit n d)" (is "?l \<longleftrightarrow> ?r")
proof
  assume e: ?l
  have bits: "bit (seg a b) i \<longleftrightarrow> bit (seg c d) i" if "n \<le> i" for i
  proof -
    have "bit (drop_bit n (seg a b)) (i - n) \<longleftrightarrow> bit (drop_bit n (seg c d)) (i - n)" by (simp add: e)
    then show ?thesis using that by (simp add: bit_drop_bit_eq)
  qed
  show ?r
  proof (cases "8 \<le> n")
    case True
    have "drop_bit (n - 8) a = drop_bit (n - 8) c"
    proof (rule bit_word_eqI)
      fix i
      show "bit (drop_bit (n - 8) a) i \<longleftrightarrow> bit (drop_bit (n - 8) c) i"
        using bits [of "n + i"] True by (simp add: bit_seg bit_drop_bit_eq)
    qed
    then show ?thesis using True by simp
  next
    case False
    have "a = c"
    proof (rule bit_word_eqI)
      fix i show "bit a i \<longleftrightarrow> bit c i" using bits [of "i + 8"] False by (simp add: bit_seg)
    qed
    moreover have "drop_bit n b = drop_bit n d"
    proof (rule bit_word_eqI)
      fix i show "bit (drop_bit n b) i \<longleftrightarrow> bit (drop_bit n d) i"
        using bits [of "n + i"] bit_imp_le_length [of b "n + i"] bit_imp_le_length [of d "n + i"]
        by (auto simp: bit_seg bit_drop_bit_eq split: if_splits)
    qed
    ultimately show ?thesis using False by simp
  qed
next
  assume r: ?r
  show ?l
  proof (rule bit_word_eqI)
    fix i
    have "bit a (n - 8 + i) \<longleftrightarrow> bit c (n - 8 + i)" if "8 \<le> n"
    proof -
      have "bit (drop_bit (n - 8) a) i \<longleftrightarrow> bit (drop_bit (n - 8) c) i" using r that by simp
      then show ?thesis by (simp add: bit_drop_bit_eq)
    qed
    moreover have "bit b (n + i) \<longleftrightarrow> bit d (n + i)" "a = c" if "\<not> 8 \<le> n"
    proof -
      have "bit (drop_bit n b) i \<longleftrightarrow> bit (drop_bit n d) i" "a = c" using r that by simp_all
      then show "bit b (n + i) \<longleftrightarrow> bit d (n + i)" "a = c" by (simp_all add: bit_drop_bit_eq)
    qed
    ultimately show "bit (drop_bit n (seg a b)) i \<longleftrightarrow> bit (drop_bit n (seg c d)) i"
      by (cases "8 \<le> n") (auto simp: bit_seg bit_drop_bit_eq)
  qed
qed

lemma seg_eq: "seg a b = seg c d \<longleftrightarrow> a = c \<and> b = d"
  using seg_drop [of 0 a b c d] by simp

lemma seg_lits: "(0xfc00::u16) = seg 0xfc 0" "(0xfe80::u16) = seg 0xfe 0x80" "(0xff00::u16) = seg 0xff 0" "(0x0064::u16) = seg 0 0x64"
  "(0xff9b::u16) = seg 0xff 0x9b" "(1::u16) = seg 0 1" "(0x2001::u16) = seg 0x20 1" "(0::u16) = seg 0 0" "(0x2002::u16) = seg 0x20 2" "(0x0db8::u16) = seg 0x0d 0xb8"
  by code_simp+

lemma seg_mask:
  assumes "m = NOT (mask n)" "seg c d AND NOT (mask n) = seg c d"
  shows "seg a b AND m = seg c d \<longleftrightarrow> (if 8 \<le> n then drop_bit (n - 8) a = drop_bit (n - 8) c else a = c \<and> drop_bit n b = drop_bit n d)"
  unfolding assms(1) by (subst assms(2) [symmetric], subst hi_bits_eq, rule seg_drop)

lemma seg_masks: "seg a b AND 0xfe00 = 0xfc00 \<longleftrightarrow> drop_bit 1 a = drop_bit 1 0xfc"
  "seg a b AND 0xffc0 = 0xfe80 \<longleftrightarrow> a = 0xfe \<and> drop_bit 6 b = drop_bit 6 0x80"
  "seg a b AND 0xff00 = 0xff00 \<longleftrightarrow> a = 0xff"
proof -
  have k: "seg 0xfc 0 AND NOT (mask 9) = seg 0xfc 0" "seg 0xfe 0x80 AND NOT (mask 6) = seg 0xfe 0x80" "seg 0xff 0 AND NOT (mask 8) = seg 0xff 0"
    by code_simp+
  show "seg a b AND 0xfe00 = 0xfc00 \<longleftrightarrow> drop_bit 1 a = drop_bit 1 0xfc"
    using seg_mask [OF masks16(1) k(1), of a b] by (simp only: seg_lits(1) [symmetric]) simp
  show "seg a b AND 0xffc0 = 0xfe80 \<longleftrightarrow> a = 0xfe \<and> drop_bit 6 b = drop_bit 6 0x80"
    using seg_mask [OF masks16(2) k(2), of a b] by (simp only: seg_lits(2) [symmetric]) simp
  show "seg a b AND 0xff00 = 0xff00 \<longleftrightarrow> a = 0xff"
    using seg_mask [OF masks16(3) k(3), of a b] by (simp only: seg_lits(3) [symmetric]) simp
qed

lemma drop_8 [simp]: "drop_bit 8 (b::u8) = 0"
  by (rule bit_word_eqI) (auto simp: bit_simps dest: bit_imp_le_length)

lemma in_net_0 [simp]: "in_net xs (ps, 0)"
  by (cases xs; cases ps) auto

lemma zeros: "replicate 10 (0::u8) = [0, 0, 0, 0, 0, 0, 0, 0, 0, 0]" "replicate 12 (0::u8) = [0, 0, 0, 0, 0, 0, 0, 0, 0, 0, 0, 0]" "replicate 14 (0::u8) = [0, 0, 0, 0, 0, 0, 0, 0, 0, 0, 0, 0, 0, 0]" "replicate 15 (0::u8) = [0, 0, 0, 0, 0, 0, 0, 0, 0, 0, 0, 0, 0, 0, 0]" "replicate 16 (0::u8) = [0, 0, 0, 0, 0, 0, 0, 0, 0, 0, 0, 0, 0, 0, 0, 0]"
  by (simp_all add: numeral_eq_Suc)

lemma seg_eqs:
  "seg a b = 0x0064 \<longleftrightarrow> a = 0 \<and> b = 0x64" "seg a b = 0xff9b \<longleftrightarrow> a = 0xff \<and> b = 0x9b" "seg a b = 1 \<longleftrightarrow> a = 0 \<and> b = 1"
  "seg a b = 0x2001 \<longleftrightarrow> a = 0x20 \<and> b = 1" "seg a b = 0 \<longleftrightarrow> a = 0 \<and> b = 0" "seg a b = 0x2002 \<longleftrightarrow> a = 0x20 \<and> b = 2"
  "seg a b = 0x0db8 \<longleftrightarrow> a = 0x0d \<and> b = 0xb8"
  unfolding seg_lits seg_eq by simp_all

lemma private_v4_ranges: "private_v4 a b c d \<longleftrightarrow> list_ex (in_net [a, b, c, d]) blocked_v4"
  using rng [of b] and8 [of b]
  by (auto simp: private_v4_def blocked_v4_def)

text \<open>
  The guard blocks exactly the documented ranges: the bit tests of the code and the table of networks
  in its documentation agree on every address, of both families, with the addresses that carry an
  IPv4 address judged by that address.
\<close>

theorem blocked_exactly: "is_private_ip ip \<longleftrightarrow> documented_block ip"
proof (cases ip)
  case (V4 a b c d)
  then show ?thesis by (simp add: is_private_ip_def private_v4_ranges)
next
  case (V6 a b c d e f g h i j k l m n p q)
  have s: "segment_at ip 0 = seg a b" "segment_at ip 1 = seg c d" "segment_at ip 2 = seg e f"
    by (simp_all add: V6 segment_at_def seg_def)
  let ?v4 = "list_ex (in_net [m, n, p, q]) blocked_v4"
  have l: "is_private_v4 (last_four ip) \<longleftrightarrow> ?v4" by (simp add: V6 last_four_def private_v4_ranges)
  have doc: "documented_block ip \<longleftrightarrow> list_ex (in_net (octets ip)) blocked_v6 \<or> take 12 (octets ip) \<in> set v4_carriers \<and> ?v4"
    by (simp add: V6)
  let ?own = "octets ip = replicate 15 0 @ [1] \<or> octets ip = replicate 16 0 \<or> drop_bit 1 a = drop_bit 1 0xfc \<or>
      (a = 0xfe \<and> drop_bit 6 b = drop_bit 6 0x80) \<or> a = 0xff \<or> (a = 0 \<and> b = 0x64 \<and> c = 0xff \<and> d = 0x9b \<and> e = 0 \<and> f = 1) \<or>
      (a = 0x20 \<and> b = 1 \<and> c = 0 \<and> d = 0) \<or> (a = 0x20 \<and> b = 2) \<or> (a = 0x20 \<and> b = 1 \<and> c = 0x0d \<and> d = 0xb8)"
  have own: "octets ip = replicate 15 0 @ [1] \<or> octets ip = replicate 16 0 \<or> segment_at ip 0 AND 0xfe00 = 0xfc00 \<or>
      segment_at ip 0 AND 0xffc0 = 0xfe80 \<or> segment_at ip 0 AND 0xff00 = 0xff00 \<or>
      (segment_at ip 0 = 0x0064 \<and> segment_at ip 1 = 0xff9b \<and> segment_at ip 2 = 1) \<or>
      (segment_at ip 0 = 0x2001 \<and> segment_at ip 1 = 0) \<or> segment_at ip 0 = 0x2002 \<or>
      (segment_at ip 0 = 0x2001 \<and> segment_at ip 1 = 0x0db8) \<longleftrightarrow> ?own"
    unfolding s seg_masks seg_eqs by blast
  have "is_private_ip ip \<longleftrightarrow> private_v6 ip" by (simp add: is_private_ip_def V6)
  then have code: "is_private_ip ip \<longleftrightarrow> (if take 12 (octets ip) \<in> set v4_carriers then ?v4 else ?own)"
    unfolding private_v6_def to_ipv4_def embedded_ipv4_def own by (simp add: v4_carriers_def l)
  have n: "in_net (octets ip) (replicate 15 0 @ [1], 128) \<longleftrightarrow> octets ip = replicate 15 0 @ [1]"
      "in_net (octets ip) (v6_base [], 128) \<longleftrightarrow> octets ip = replicate 16 0"
      "in_net (octets ip) (v6_base [0xfc], 7) \<longleftrightarrow> drop_bit 1 a = drop_bit 1 0xfc"
      "in_net (octets ip) (v6_base [0xfe, 0x80], 10) \<longleftrightarrow> a = 0xfe \<and> drop_bit 6 b = drop_bit 6 0x80"
      "in_net (octets ip) (v6_base [0xff], 8) \<longleftrightarrow> a = 0xff"
      "in_net (octets ip) (v6_base [0x20, 0x01, 0x0d, 0xb8], 32) \<longleftrightarrow> a = 0x20 \<and> b = 1 \<and> c = 0x0d \<and> d = 0xb8"
      "in_net (octets ip) (v6_base [0x00, 0x64, 0xff, 0x9b, 0x00, 0x01], 48) \<longleftrightarrow> a = 0 \<and> b = 0x64 \<and> c = 0xff \<and> d = 0x9b \<and> e = 0 \<and> f = 1"
      "in_net (octets ip) (v6_base [0x20, 0x01], 32) \<longleftrightarrow> a = 0x20 \<and> b = 1 \<and> c = 0 \<and> d = 0"
      "in_net (octets ip) (v6_base [0x20, 0x02], 16) \<longleftrightarrow> a = 0x20 \<and> b = 2"
    by (simp_all add: V6 v6_base_def zeros)
  have nets: "list_ex (in_net (octets ip)) blocked_v6 \<longleftrightarrow> ?own"
    by (simp only: blocked_v6_def list_ex_iff set_simps bex_simps n) blast
  have "?own \<longrightarrow> ?v4" if "take 12 (octets ip) \<in> set v4_carriers"
  proof -
    have z: "a = 0" using that by (auto simp: V6 v4_carriers_def IPV4_TRANSLATED_PREFIX_def NAT64_WELL_KNOWN_PREFIX_def zeros)
    have "e = 0 \<and> f = 0" using that by (auto simp: V6 v4_carriers_def IPV4_TRANSLATED_PREFIX_def NAT64_WELL_KNOWN_PREFIX_def zeros)
    then show ?thesis using z by (auto simp: V6 blocked_v4_def zeros)
  qed
  then show ?thesis unfolding doc code nets by auto
qed

end
