(* ===== verification/Workflow_Prog.thy ===== *)
theory Workflow_Prog
  imports Workflow_Db Net_Guard
begin

text \<open>
  Asynchronous code as programs: a task of the workflow engine is a tree of requests to the outside
  (the database, the community fence, the message sink, the network, timers), each with a
  continuation for every reply. What one task does between two requests cannot be interrupted,
  everything else can happen in between. The replies of one request are those the source handles; a
  reply of another kind counts as an error of the database or as a refusal.
  \<open>QClient\<close> builds the HTTP client pinned to the checked address and \<open>QHttp\<close> sends with it; that this client uses
  no proxy, follows no redirect and gives up after ten seconds is fixed in the code and stands behind
  the two requests without being part of them.
\<close>

subsection \<open>Requests and replies\<close>

datatype ActionSinkError =
    InvalidInput string
  | SinkChannelNotFound string
  | SinkChannelArchived string
  | EventBuild string
  | SinkDatabase string
  | EmptyContent

primrec ActionSinkError_text :: "ActionSinkError \<Rightarrow> string" where
  "ActionSinkError_text (InvalidInput e) = ''invalid input: '' @ e"
| "ActionSinkError_text (SinkChannelNotFound e) = ''channel not found: '' @ e"
| "ActionSinkError_text (SinkChannelArchived e) = ''channel is archived: '' @ e"
| "ActionSinkError_text (EventBuild e) = ''event construction failed: '' @ e"
| "ActionSinkError_text (SinkDatabase e) = ''database error: '' @ e"
| "ActionSinkError_text EmptyContent = ''empty message content''"

datatype fence_op = Acquire | Verify | Finish

record http_response =
  hr_status :: nat
  hr_chunk :: "nat \<Rightarrow> (string option, string) rust_result"

datatype request =
    QListAll
  | QLatestFire CommunityId uuid
  | QMemberRole CommunityId uuid bytes
  | QClaim CommunityId uuid datetime
  | QCreateRun CommunityId uuid "hex option" "json option"
  | QAttach CommunityId uuid datetime uuid
  | QSpawn CommunityId uuid WorkflowDef TriggerContext
  | QCacheGet CommunityId uuid
  | QCachePut CommunityId uuid "WorkflowRecord list"
  | QListEnabled CommunityId uuid
  | QPermit
  | QDropPermit
  | QUpdateRun CommunityId uuid RunStatus int json "WorkflowRunFailure option"
  | QGetRun CommunityId uuid
  | QGetWorkflow CommunityId uuid
  | QFence fence_op CommunityId
  | QLost
  | QExpired
  | QSend CommunityId string string string
  | QResolve string nat
  | QClient string IpAddr nat
  | QHttp string IpAddr nat string string "(string, string) hmap" "string option"
  | QReact string "(string \<times> string) option" string
  | QSleep nat
  | QToken
  | QPersist CommunityId hex "uuid option"
  | QCommit

datatype reply =
    RDbError DbError
  | RUnit
  | RBool bool
  | RText string
  | RError string
  | RSinkError ActionSinkError
  | RTaskFailed string
  | RWorkflows "WorkflowRecord list"
  | RCached "WorkflowRecord list option"
  | RWorkflow WorkflowRecord
  | RRun WorkflowRunRecord
  | RTime "datetime option"
  | RRole "string option"
  | RClaim "ScheduledWorkflowFireClaim option"
  | RAddrs "IpAddr list"
  | RResponse http_response

datatype 'a prog = Ret 'a | Ask request "reply \<Rightarrow> 'a prog"

primrec bind_prog :: "'a prog \<Rightarrow> ('a \<Rightarrow> 'b prog) \<Rightarrow> 'b prog" where
  "bind_prog (Ret x) f = f x"
| "bind_prog (Ask q k) f = Ask q (\<lambda>r. bind_prog (k r) f)"

definition ask :: "request \<Rightarrow> reply prog" where
  "ask q = Ask q Ret"

text \<open>The results of database calls, of calls with a text as error, and of yes-or-no questions.\<close>

definition bad_reply :: DbError where "bad_reply = Sqlx ''protocol error''"

definition db_unit :: "reply \<Rightarrow> (unit, DbError) rust_result" where
  "db_unit r = (case r of RUnit \<Rightarrow> Inr () | RDbError e \<Rightarrow> Inl e | _ \<Rightarrow> Inl bad_reply)"

definition db_bool :: "reply \<Rightarrow> (bool, DbError) rust_result" where
  "db_bool r = (case r of RBool b \<Rightarrow> Inr b | RDbError e \<Rightarrow> Inl e | _ \<Rightarrow> Inl bad_reply)"

definition db_id :: "reply \<Rightarrow> (uuid, DbError) rust_result" where
  "db_id r = (case r of RText i \<Rightarrow> Inr i | RDbError e \<Rightarrow> Inl e | _ \<Rightarrow> Inl bad_reply)"

definition db_workflow_list :: "reply \<Rightarrow> (WorkflowRecord list, DbError) rust_result" where
  "db_workflow_list r = (case r of RWorkflows ws \<Rightarrow> Inr ws | RDbError e \<Rightarrow> Inl e | _ \<Rightarrow> Inl bad_reply)"

definition db_workflow :: "reply \<Rightarrow> (WorkflowRecord, DbError) rust_result" where
  "db_workflow r = (case r of RWorkflow w \<Rightarrow> Inr w | RDbError e \<Rightarrow> Inl e | _ \<Rightarrow> Inl bad_reply)"

definition db_run :: "reply \<Rightarrow> (WorkflowRunRecord, DbError) rust_result" where
  "db_run r = (case r of RRun w \<Rightarrow> Inr w | RDbError e \<Rightarrow> Inl e | _ \<Rightarrow> Inl bad_reply)"

definition db_time :: "reply \<Rightarrow> (datetime option, DbError) rust_result" where
  "db_time r = (case r of RTime t \<Rightarrow> Inr t | RDbError e \<Rightarrow> Inl e | _ \<Rightarrow> Inl bad_reply)"

definition db_role :: "reply \<Rightarrow> (string option, DbError) rust_result" where
  "db_role r = (case r of RRole x \<Rightarrow> Inr x | RDbError e \<Rightarrow> Inl e | _ \<Rightarrow> Inl bad_reply)"

definition db_claim :: "reply \<Rightarrow> (ScheduledWorkflowFireClaim option, DbError) rust_result" where
  "db_claim r = (case r of RClaim c \<Rightarrow> Inr c | RDbError e \<Rightarrow> Inl e | _ \<Rightarrow> Inl bad_reply)"

definition ok_unit :: "reply \<Rightarrow> (unit, string) rust_result" where
  "ok_unit r = (case r of RUnit \<Rightarrow> Inr () | RError e \<Rightarrow> Inl e | _ \<Rightarrow> Inl [])"

definition sink_id :: "reply \<Rightarrow> (string, ActionSinkError) rust_result" where
  "sink_id r = (case r of RText t \<Rightarrow> Inr t | RSinkError e \<Rightarrow> Inl e | _ \<Rightarrow> Inl (SinkDatabase []))"

definition ok_response :: "reply \<Rightarrow> (http_response, string) rust_result" where
  "ok_response r = (case r of RResponse h \<Rightarrow> Inr h | RError e \<Rightarrow> Inl e | _ \<Rightarrow> Inl [])"

definition is_yes :: "reply \<Rightarrow> bool" where
  "is_yes r \<longleftrightarrow> r = RBool True"

definition the_token :: "reply \<Rightarrow> string" where
  "the_token r = (case r of RText t \<Rightarrow> t | _ \<Rightarrow> [])"

text \<open>
  A future that is dropped when an event occurs (\<open>tokio::time::timeout\<close>, \<open>tokio::select!\<close>): the event
  is asked about before and after every request, so a request may have been served when the future is
  dropped. \<open>None\<close> means dropped.
\<close>

primrec interruptible :: "request \<Rightarrow> 'a prog \<Rightarrow> 'a option prog" where
  "interruptible ev (Ret x) = Ret (Some x)"
| "interruptible ev (Ask q k) =
     Ask ev (\<lambda>b. if is_yes b then Ret None
       else Ask q (\<lambda>r. Ask ev (\<lambda>b. if is_yes b then Ret None else interruptible ev (k r))))"

text \<open>
  \<open>ServingWriteGuard::protect\<close>: the operation runs between two checks of the lease and is dropped when
  its heartbeat is lost. An operation that does not return (\<open>None\<close>) keeps waiting for that.
\<close>

definition LEASE_LOST :: string where "LEASE_LOST = ''serving write lease heartbeat was lost''"

definition protect :: "CommunityId \<Rightarrow> 'a option prog \<Rightarrow> ('a option, string) rust_result prog" where
  "protect c operation =
     bind_prog (ask (QFence Verify c)) (\<lambda>v. case ok_unit v of Inl e \<Rightarrow> Ret (Inl e) | Inr _ \<Rightarrow>
     bind_prog (interruptible QLost operation) (\<lambda>r. case r of
       None \<Rightarrow> Ret (Inl LEASE_LOST)
     | Some None \<Rightarrow> bind_prog (ask QLost) (\<lambda>b. Ret (if is_yes b then Inl LEASE_LOST else Inr None))
     | Some (Some output) \<Rightarrow>
         bind_prog (ask (QFence Verify c)) (\<lambda>v. case ok_unit v of Inl e \<Rightarrow> Ret (Inl e) | Inr _ \<Rightarrow> Ret (Inr (Some output)))))"

subsection \<open>Paths and monitors\<close>

inductive path :: "'a prog \<Rightarrow> (request \<times> reply) list \<Rightarrow> 'a prog \<Rightarrow> bool" where
  path_nil: "path p [] p"
| path_ask: "path (k r) tr p \<Longrightarrow> path (Ask q k) ((q, r) # tr) p"

inductive_cases path_AskE: "path (Ask q k) tr p"
inductive_cases path_RetE: "path (Ret x) tr p"

text \<open>
  A monitor watches the requests of a task and their replies, with a state of its own; \<open>ok\<close> says which
  requests are allowed in a state. \<open>wp\<close> is the weakest condition under which a program makes only
  allowed requests, on every path, and ends in \<open>Q\<close>.
\<close>

primrec wp :: "('m \<Rightarrow> request \<Rightarrow> bool) \<Rightarrow> ('m \<Rightarrow> request \<Rightarrow> reply \<Rightarrow> 'm) \<Rightarrow> 'a prog \<Rightarrow> ('m \<Rightarrow> 'a \<Rightarrow> bool) \<Rightarrow> 'm \<Rightarrow> bool" where
  "wp ok upd (Ret x) Q m = Q m x"
| "wp ok upd (Ask q k) Q m = (ok m q \<and> (\<forall>r. wp ok upd (k r) Q (upd m q r)))"

lemma wp_bind [simp]: "wp ok upd (bind_prog p f) Q m = wp ok upd p (\<lambda>m x. wp ok upd (f x) Q m) m"
  by (induction p arbitrary: m) auto

lemma wp_ask [simp]: "wp ok upd (ask q) Q m = (ok m q \<and> (\<forall>r. Q (upd m q r) r))"
  by (simp add: ask_def)

lemma wp_mono: "wp ok upd p Q m \<Longrightarrow> (\<And>m x. Q m x \<Longrightarrow> R m x) \<Longrightarrow> wp ok upd p R m"
  by (induction p arbitrary: m) auto

lemma wp_if [simp]: "wp ok upd (if b then p else q) Q m = (if b then wp ok upd p Q m else wp ok upd q Q m)"
  by simp

definition seen :: "('m \<Rightarrow> request \<Rightarrow> reply \<Rightarrow> 'm) \<Rightarrow> 'm \<Rightarrow> (request \<times> reply) list \<Rightarrow> 'm" where
  "seen upd m tr = foldl (\<lambda>m (q, r). upd m q r) m tr"

lemma seen_simps [simp]: "seen upd m [] = m" "seen upd m ((q, r) # tr) = seen upd (upd m q r) tr"
  "seen upd m (tr @ us) = seen upd (seen upd m tr) us"
  by (simp_all add: seen_def)

lemma wp_path: "path p tr p' \<Longrightarrow> wp ok upd p Q m \<Longrightarrow> wp ok upd p' Q (seen upd m tr)"
  by (induction arbitrary: m rule: path.induct) auto

lemma path_append: "path p (tr @ us) p' \<longleftrightarrow> (\<exists>p1. path p tr p1 \<and> path p1 us p')"
proof (induction tr arbitrary: p)
  case Nil
  show ?case by (auto intro: path_nil elim: path.cases)
next
  case (Cons x tr)
  show ?case
  proof (cases p)
    case (Ret y)
    then show ?thesis by (auto elim: path_RetE)
  next
    case (Ask q k)
    then show ?thesis using Cons by (auto elim!: path_AskE intro: path_ask)
  qed
qed

text \<open>Every request on a path is allowed in the state of the monitor when it is made.\<close>

lemma monitor_path:
  assumes "wp ok upd p Q m" "path p (tr @ (q, r) # us) p'"
  shows "ok (seen upd m tr) q"
proof -
  obtain p1 where p1: "path p tr p1" "path p1 ((q, r) # us) p'" using assms(2) unfolding path_append by blast
  then obtain k where "p1 = Ask q k" by (cases p1) (auto elim: path_AskE path_RetE)
  then show ?thesis using wp_path [OF p1(1) assms(1)] by simp
qed

lemma monitor_result:
  assumes "wp ok upd p Q m" "path p tr (Ret x)"
  shows "Q (seen upd m tr) x"
  using wp_path [OF assms(2,1)] by simp

lemma wp_interruptible:
  assumes "\<And>m r. upd m ev r = m" "\<And>m. ok m ev" "wp ok upd p (\<lambda>m x. Q m (Some x)) m" "\<And>m. Q m None"
  shows "wp ok upd (interruptible ev p) Q m"
  using assms(3) by (induction p arbitrary: m) (auto simp: assms)

text \<open>What a program can return, whatever the replies.\<close>

primrec returns :: "'a prog \<Rightarrow> ('a \<Rightarrow> bool) \<Rightarrow> bool" where
  "returns (Ret x) Q = Q x"
| "returns (Ask q k) Q = (\<forall>r. returns (k r) Q)"

lemma returns_bind [simp]: "returns (bind_prog p f) Q = returns p (\<lambda>x. returns (f x) Q)"
  by (induction p) auto

lemma returns_ask [simp]: "returns (ask q) Q = (\<forall>r. Q r)"
  by (simp add: ask_def)

lemma returns_any: "(\<And>x. Q x) \<Longrightarrow> returns p Q"
  by (induction p) auto

lemma returns_path: "path p tr (Ret x) \<Longrightarrow> returns p Q \<Longrightarrow> Q x"
  by (induction p tr "Ret x" rule: path.induct) auto

text \<open>The path of a program when every request is answered by a given function, and where it leads.\<close>

fun follow :: "(request \<Rightarrow> reply) \<Rightarrow> nat \<Rightarrow> 'a prog \<Rightarrow> (request \<times> reply) list" where
  "follow answer (Suc n) (Ask q k) = (q, answer q) # follow answer n (k (answer q))"
| "follow answer _ _ = []"

fun follow_end :: "(request \<Rightarrow> reply) \<Rightarrow> nat \<Rightarrow> 'a prog \<Rightarrow> 'a prog" where
  "follow_end answer (Suc n) (Ask q k) = follow_end answer n (k (answer q))"
| "follow_end answer _ p = p"

lemma path_follow: "path p (follow answer n p) (follow_end answer n p)"
  by (induction answer n p rule: follow.induct) (auto intro: path.intros)

lemma path_follow_mem:
  assumes "(q, r) \<in> set (follow answer n p)"
  shows "\<exists>tr us p'. path p (tr @ (q, r) # us) p'"
  using split_list [OF assms] path_follow [of p answer n] by metis

end
