(* ===== verification/Workflow_Actions.thy ===== *)
theory Workflow_Actions
  imports Workflow_Prog
begin

text \<open>
  Execution of workflow runs: the second half of \<open>crates/buzz-workflow/src/executor.rs\<close> and
  \<open>action_sink.rs\<close>, as programs. The parsers of URLs, methods, UUIDs and JSON, the decoding of bytes and
  the process environment are fields of the record \<open>exec_env\<close>; whether the crate is built with its
  HTTP client is a field too. The release of a lease whose guard was dropped happens in the background
  and is not part of the programs.
\<close>

subsection \<open>Environment and results\<close>

record parsed_url =
  pu_host_str :: "string option"
  pu_port_or_known_default :: "nat option"

record 'x exec_env =
  xe_text :: text_env
  xe_eval :: "'x eval_env"
  xe_parse_uuid :: "string \<Rightarrow> (uuid, string) rust_result"
  xe_parse_url :: "string \<Rightarrow> (parsed_url, string) rust_result"
  xe_parse_method :: "string \<Rightarrow> (string, string) rust_result"
  xe_utf8_lossy :: "string \<Rightarrow> string"
  xe_parse_json :: "string \<Rightarrow> json option"
  xe_ip_text :: "IpAddr \<Rightarrow> string"
  xe_status_text :: "nat \<Rightarrow> string"
  xe_relay_base_url :: "string option"
  xe_api_token :: "string option"
  xe_relay_pubkey :: "string option"
  xe_reqwest :: bool
  xe_sink_ready :: bool
  xe_default_timeout_secs :: nat

datatype StepResult = StepCompleted json | StepSuspended string | StepSkipped

record PartialProgress =
  pp_step_index :: nat
  pp_trace :: "json list"

record ExecutionResult =
  er_approval_token :: "string option"
  er_step_index :: nat
  er_step_outputs :: step_outputs
  er_trace :: "json list"

type_synonym 'a wf_result = "('a, WorkflowError) rust_result"

subsection \<open>Messages\<close>

definition filter_blank :: "string option \<Rightarrow> string option" where
  "filter_blank x = (case map_option trim x of None \<Rightarrow> None | Some s \<Rightarrow> if s = [] then None else Some s)"

definition resolve_send_message_channel :: "'x exec_env \<Rightarrow> string option \<Rightarrow> string \<Rightarrow> uuid option \<Rightarrow> string wf_result" where
  "resolve_send_message_channel X explicit trigger_channel workflow_channel_id =
     (let parse = (\<lambda>s. case xe_parse_uuid X s of
            Inl e \<Rightarrow> Inl (InvalidDefinition (''SendMessage: invalid channel override UUID: '' @ e))
          | Inr u \<Rightarrow> Inr u)
      in case workflow_channel_id of
           Some wc \<Rightarrow>
             (case filter_blank explicit of
                None \<Rightarrow> Inr wc
              | Some s \<Rightarrow>
                 (case parse s of
                    Inl e \<Rightarrow> Inl e
                  | Inr u \<Rightarrow>
                      if u \<noteq> wc
                      then Inl (InvalidDefinition (''SendMessage: channel override must match the workflow channel ('' @ wc @ '')''))
                      else Inr wc))
         | None \<Rightarrow>
             (case filter_blank explicit of
                Some s \<Rightarrow> parse s
              | None \<Rightarrow>
                  if trim trigger_channel = []
                  then Inl (InvalidDefinition ''SendMessage: no channel_id available (trigger has no channel context and no channel override was specified)'')
                  else Inr (trim trigger_channel)))"

subsection \<open>Webhooks\<close>

definition check_ssrf :: "'x exec_env \<Rightarrow> string \<Rightarrow> nat \<Rightarrow> IpAddr wf_result prog" where
  "check_ssrf X host port =
     bind_prog (ask (QResolve host port)) (\<lambda>r.
       case r of
         RAddrs addrs \<Rightarrow>
           if addrs = [] then Ret (Inl (WebhookError ''DNS resolution returned no addresses''))
           else (case find is_private_ip addrs of
               Some ip \<Rightarrow> Ret (Inl (WebhookError (''SSRF blocked: '' @ quoted host @
                   '' resolved to private/reserved address '' @ xe_ip_text X ip)))
             | None \<Rightarrow> Ret (Inr (hd addrs)))
       | RTaskFailed e \<Rightarrow> Ret (Inl (WebhookError (''SSRF check task failed: '' @ e)))
       | RError e \<Rightarrow> Ret (Inl (WebhookError (''DNS resolution failed: '' @ e)))
       | _ \<Rightarrow> Ret (Inl (WebhookError ''DNS resolution failed: '')))"

definition WEBHOOK_MAX_RESPONSE_BYTES :: nat where
  "WEBHOOK_MAX_RESPONSE_BYTES = 1024 * 1024"

text \<open>The loop that reads the body, from the \<open>i\<close>-th chunk on. \<open>None\<close>: it never ends.\<close>

partial_function (option) read_body ::
    "(nat \<Rightarrow> (string option, string) rust_result) \<Rightarrow> nat \<Rightarrow> string \<Rightarrow> string wf_result option" where
  "read_body chunk i body_bytes =
     (case chunk i of
        Inl e \<Rightarrow> Some (Inl (WebhookError (''reading response body: '' @ e)))
      | Inr None \<Rightarrow> Some (Inr body_bytes)
      | Inr (Some bytes) \<Rightarrow>
          if length (body_bytes @ bytes) > WEBHOOK_MAX_RESPONSE_BYTES
          then Some (Inl (WebhookError (''response body exceeds '' @ show_nat WEBHOOK_MAX_RESPONSE_BYTES @ '' byte limit'')))
          else read_body chunk (Suc i) (body_bytes @ bytes))"

text \<open>A call that may not return: \<open>None\<close>.\<close>

definition call_webhook_impl ::
    "'x exec_env \<Rightarrow> string \<Rightarrow> string \<Rightarrow> (string, string) hmap option \<Rightarrow> string option \<Rightarrow> json wf_result option prog" where
  "call_webhook_impl X url meth headers body =
     (case xe_parse_url X url of
        Inl e \<Rightarrow> Ret (Some (Inl (WebhookError (''invalid URL: '' @ e))))
      | Inr parsed \<Rightarrow>
         (case pu_host_str parsed of
            None \<Rightarrow> Ret (Some (Inl (WebhookError ''URL has no host'')))
          | Some host \<Rightarrow>
              let port = (case pu_port_or_known_default parsed of Some p \<Rightarrow> p | None \<Rightarrow> 80) in
              bind_prog (check_ssrf X host port) (\<lambda>ip. case ip of Inl e \<Rightarrow> Ret (Some (Inl e)) | Inr safe_ip \<Rightarrow>
              bind_prog (ask (QClient host safe_ip port)) (\<lambda>b. case ok_unit b of Inl e \<Rightarrow> Ret (Some (Inl (WebhookError e))) | Inr _ \<Rightarrow>
              (case xe_parse_method X meth of
                 Inl e \<Rightarrow> Ret (Some (Inl (WebhookError e)))
               | Inr meth' \<Rightarrow>
                   bind_prog (ask (QHttp host safe_ip port url meth' (case headers of Some h \<Rightarrow> h | None \<Rightarrow> []) body)) (\<lambda>r.
                     case ok_response r of
                       Inl e \<Rightarrow> Ret (Some (Inl (WebhookError e)))
                     | Inr resp \<Rightarrow> Ret (map_option (\<lambda>b. case b of
                           Inl e \<Rightarrow> Inl e
                         | Inr bytes \<Rightarrow> Inr (JObject [(''status'', JNumber (show_nat (hr_status resp))),
                                                   (''body'', JString (xe_utf8_lossy X bytes))]))
                         (read_body (hr_chunk resp) 0 []))))))))"

definition reaction_auth :: "'x exec_env \<Rightarrow> (string \<times> string) option" where
  "reaction_auth X =
     (case xe_api_token X of
        Some token \<Rightarrow> Some (''Authorization'', ''Bearer '' @ token)
      | None \<Rightarrow> (case xe_relay_pubkey X of Some pubkey \<Rightarrow> Some (''X-Pubkey'', pubkey) | None \<Rightarrow> None))"

text \<open>\<open>Response::text\<close>: all chunks; an unreadable body is replaced.\<close>

partial_function (option) read_all :: "(nat \<Rightarrow> (string option, string) rust_result) \<Rightarrow> nat \<Rightarrow> string \<Rightarrow> string option option" where
  "read_all chunk i acc =
     (case chunk i of
        Inl e \<Rightarrow> Some None
      | Inr None \<Rightarrow> Some (Some acc)
      | Inr (Some bytes) \<Rightarrow> read_all chunk (Suc i) (acc @ bytes))"

definition add_reaction_impl :: "'x exec_env \<Rightarrow> string \<Rightarrow> string \<Rightarrow> json wf_result option prog" where
  "add_reaction_impl X message_id emoji =
     (let base_url = (case xe_relay_base_url X of Some u \<Rightarrow> u | None \<Rightarrow> ''http://localhost:3000'');
          url = base_url @ ''/api/messages/'' @ message_id @ ''/reactions''
      in bind_prog (ask (QReact url (reaction_auth X) emoji)) (\<lambda>r.
           case ok_response r of
             Inl e \<Rightarrow> Ret (Some (Inl (WebhookError (''AddReaction HTTP error: '' @ e))))
           | Inr resp \<Rightarrow> Ret (map_option (\<lambda>t.
               if \<not> (200 \<le> hr_status resp \<and> hr_status resp < 300)
               then Inl (WebhookError (''AddReaction: relay returned '' @ xe_status_text X (hr_status resp) @ '' for message '' @ message_id
                          @ '': '' @ (case t of Some b \<Rightarrow> xe_utf8_lossy X b | None \<Rightarrow> ''<unreadable>'')))
               else (let body_text = (case t of Some b \<Rightarrow> xe_utf8_lossy X b | None \<Rightarrow> []);
                         body_json = (case xe_parse_json X body_text of Some j \<Rightarrow> j | None \<Rightarrow> JObject [(''raw'', JString body_text)])
                     in Inr (JObject [(''added'', JBool True), (''status'', JNumber (show_nat (hr_status resp))), (''response'', body_json)])))
               (read_all (hr_chunk resp) 0 []))))"

subsection \<open>Actions\<close>

definition MAX_DELAY_SECS :: nat where "MAX_DELAY_SECS = 270"

definition send_message ::
    "'x exec_env \<Rightarrow> string option \<Rightarrow> string \<Rightarrow> CommunityId \<Rightarrow> uuid \<Rightarrow> TriggerContext \<Rightarrow> StepResult wf_result prog" where
  "send_message X channel text community_id run_id trigger_ctx =
     bind_prog (ask (QGetRun community_id run_id)) (\<lambda>r. case db_run r of
       Inl e \<Rightarrow> Ret (Inl (WebhookError (''SendMessage: failed to load workflow run '' @ run_id @ '': '' @ DbError_text e)))
     | Inr wf_run \<Rightarrow>
     bind_prog (ask (QGetWorkflow community_id (rr_workflow_id wf_run))) (\<lambda>r. case db_workflow r of
       Inl e \<Rightarrow> Ret (Inl (WebhookError (''SendMessage: failed to load workflow '' @ rr_workflow_id wf_run @ '': '' @ DbError_text e)))
     | Inr workflow \<Rightarrow>
       (case resolve_send_message_channel X channel (tg_channel_id trigger_ctx) (wr_channel_id workflow) of
          Inl e \<Rightarrow> Ret (Inl e)
        | Inr channel_id \<Rightarrow>
            if \<not> xe_sink_ready X
            then Ret (Inl (InvalidDefinition (''action_sink not initialized '' @ [CHR 0xE2, CHR 0x80, CHR 0x94] @
                   '' call set_action_sink() before executing workflows'')))
            else bind_prog (ask (QSend community_id channel_id text (hex_write (wr_owner_pubkey workflow)))) (\<lambda>r. case sink_id r of
                Inl e \<Rightarrow> Ret (Inl (WebhookError (ActionSinkError_text e)))
              | Inr event_id \<Rightarrow> Ret (Inr (StepCompleted (JObject [(''sent'', JBool True), (''event_id'', JString event_id)])))))))"

definition perform ::
    "'x exec_env \<Rightarrow> ActionDef \<Rightarrow> CommunityId \<Rightarrow> uuid \<Rightarrow> TriggerContext \<Rightarrow> StepResult wf_result option prog" where
  "perform X action community_id run_id trigger_ctx =
     (case action of
        SendMessage text channel \<Rightarrow>
          bind_prog (send_message X channel text community_id run_id trigger_ctx) (\<lambda>r. Ret (Some r))
      | SendDm to text \<Rightarrow> Ret (Some (Inl (NotImplemented ''SendDm'')))
      | SetChannelTopic topic \<Rightarrow> Ret (Some (Inl (NotImplemented ''SetChannelTopic'')))
      | AddReaction emoji \<Rightarrow>
          if tg_message_id trigger_ctx = [] then Ret (Some (Inl (InvalidDefinition ''AddReaction: no trigger.message_id available'')))
          else if xe_reqwest X
          then bind_prog (add_reaction_impl X (tg_message_id trigger_ctx) emoji) (\<lambda>r. Ret (map_option (\<lambda>x. and_then x (\<lambda>j. Inr (StepCompleted j))) r))
          else Ret (Some (Inr (StepCompleted (JObject [(''added'', JBool False), (''skipped'', JBool True)]))))
      | CallWebhook url meth headers body \<Rightarrow>
          if xe_reqwest X
          then bind_prog (call_webhook_impl X url (case meth of Some m \<Rightarrow> m | None \<Rightarrow> ''POST'') headers body)
                 (\<lambda>r. Ret (map_option (\<lambda>x. and_then x (\<lambda>j. Inr (StepCompleted j))) r))
          else Ret (Some (Inr (StepCompleted (JObject [(''status'', JNumber ''0''), (''body'', JNull), (''skipped'', JBool True)]))))
      | RequestApproval from message timeout \<Rightarrow>
          bind_prog (ask QToken) (\<lambda>t. Ret (Some (Inr (StepSuspended (the_token t)))))
      | Delay duration \<Rightarrow>
          (case parse_duration_secs duration of
             Inl e \<Rightarrow> Ret (Some (Inl e))
           | Inr secs \<Rightarrow>
               if secs > MAX_DELAY_SECS
               then Ret (Some (Inl (InvalidDefinition (''delay exceeds maximum of '' @ show_nat MAX_DELAY_SECS @ '' seconds (got '' @ show_nat secs
                      @ ''s); use the scheduled resume pattern for long delays''))))
               else bind_prog (ask (QSleep secs)) (\<lambda>_. Ret (Some (Inr (StepCompleted (JObject [(''slept_secs'', JNumber (show_nat secs))]))))))
     )"

definition dispatch_action ::
    "'x exec_env \<Rightarrow> ActionDef \<Rightarrow> CommunityId \<Rightarrow> uuid \<Rightarrow> TriggerContext \<Rightarrow> StepResult wf_result option prog" where
  "dispatch_action X action community_id run_id trigger_ctx =
     bind_prog (ask (QFence Acquire community_id)) (\<lambda>r. case ok_unit r of
       Inl e \<Rightarrow> Ret (Some (Inl (WebhookError (''community write fence rejected workflow side effect: '' @ e))))
     | Inr _ \<Rightarrow>
     bind_prog (ask (QFence Verify community_id)) (\<lambda>r. case ok_unit r of
       Inl e \<Rightarrow> Ret (Some (Inl (WebhookError (''community write lease lost: '' @ e))))
     | Inr _ \<Rightarrow>
     bind_prog (protect community_id (perform X action community_id run_id trigger_ctx)) (\<lambda>r. case r of
       Inl e \<Rightarrow> Ret (Some (Inl (WebhookError (''community write lease lost: '' @ e))))
     | Inr None \<Rightarrow> Ret None
     | Inr (Some result) \<Rightarrow>
     bind_prog (ask (QFence Finish community_id)) (\<lambda>r.
       let release = (case ok_unit r of Inl e \<Rightarrow> Inl (WebhookError (''community write lease release failed: '' @ e)) | Inr _ \<Rightarrow> Inr ())
       in case result of
            Inr v \<Rightarrow> Ret (Some (and_then release (\<lambda>_. Inr v)))
          | Inl e \<Rightarrow> Ret (Some (Inl e))))))"

subsection \<open>Steps\<close>

definition skipped_entry :: "string \<Rightarrow> json" where
  "skipped_entry sid = JObject [(''step_id'', JString sid), (''status'', JString ''skipped'')]"

definition completed_entry :: "string \<Rightarrow> json \<Rightarrow> json" where
  "completed_entry sid out = JObject [(''step_id'', JString sid), (''status'', JString ''completed''), (''output'', out)]"

type_synonym exec_result = "(ExecutionResult, WorkflowError \<times> PartialProgress) rust_result"

fun execute_loop ::
    "'x exec_env \<Rightarrow> CommunityId \<Rightarrow> uuid \<Rightarrow> TriggerContext \<Rightarrow> nat \<Rightarrow> nat \<Rightarrow> Step list \<Rightarrow> step_outputs \<Rightarrow> json list \<Rightarrow> exec_result prog" where
  "execute_loop X c run_id ctx start i [] outs trace =
     Ret (Inr \<lparr>er_approval_token = None, er_step_index = i, er_step_outputs = outs, er_trace = trace\<rparr>)"
| "execute_loop X c run_id ctx start i (step # steps) outs trace =
     (if i < start then execute_loop X c run_id ctx start (Suc i) steps outs trace
      else
       (let failed = (\<lambda>e. Ret (Inl (e, \<lparr>pp_step_index = i, pp_trace = trace\<rparr>)));
            go = (case resolve_step_templates (xe_text X) step ctx outs of
               Inl e \<Rightarrow> failed e
             | Inr action \<Rightarrow>
                 let timeout_secs = (case step_timeout step of Some t \<Rightarrow> t | None \<Rightarrow> xe_default_timeout_secs X) in
                 bind_prog (interruptible QExpired (dispatch_action X action c run_id ctx)) (\<lambda>r.
                   case r of
                     Some (Some (Inr res)) \<Rightarrow>
                       (case res of
                          StepCompleted out \<Rightarrow>
                            execute_loop X c run_id ctx start (Suc i) steps (hm_insert (step_id step) out outs)
                              (trace @ [completed_entry (step_id step) out])
                        | StepSuspended token \<Rightarrow>
                            Ret (Inr \<lparr>er_approval_token = Some token, er_step_index = i, er_step_outputs = outs, er_trace = trace\<rparr>)
                        | StepSkipped \<Rightarrow>
                            execute_loop X c run_id ctx start (Suc i) steps outs (trace @ [skipped_entry (step_id step)]))
                   | Some (Some (Inl e)) \<Rightarrow> failed e
                   | _ \<Rightarrow> failed (StepTimeout (step_id step) timeout_secs)))
        in case step_if step of
             None \<Rightarrow> go
           | Some expr \<Rightarrow>
              (case evaluate_condition (xe_text X) (xe_eval X) expr ctx outs of
                 Inr True \<Rightarrow> go
               | Inr False \<Rightarrow> execute_loop X c run_id ctx start (Suc i) steps outs (trace @ [skipped_entry (step_id step)])
               | Inl e \<Rightarrow> failed e)))"

definition execute_steps ::
    "'x exec_env \<Rightarrow> CommunityId \<Rightarrow> uuid \<Rightarrow> WorkflowDef \<Rightarrow> TriggerContext \<Rightarrow> nat \<Rightarrow> step_outputs option \<Rightarrow> exec_result prog" where
  "execute_steps X c run_id def ctx start_index initial_outputs =
     execute_loop X c run_id ctx start_index 0 (wd_steps def) (case initial_outputs of Some m \<Rightarrow> m | None \<Rightarrow> []) []"

definition no_progress :: PartialProgress where
  "no_progress = \<lparr>pp_step_index = 0, pp_trace = []\<rparr>"

text \<open>\<open>as i32\<close>.\<close>

definition as_i32 :: "nat \<Rightarrow> int" where
  "as_i32 n = (int n + 2 ^ 31) mod 2 ^ 32 - 2 ^ 31"

text \<open>The permit is given back when the function returns.\<close>

definition with_permit :: "exec_result prog \<Rightarrow> exec_result prog" where
  "with_permit body =
     bind_prog (ask QPermit) (\<lambda>r.
       if \<not> is_yes r then Ret (Inl (CapacityExceeded, no_progress))
       else bind_prog body (\<lambda>x. bind_prog (ask QDropPermit) (\<lambda>_. Ret x)))"

definition execute_run ::
    "'x exec_env \<Rightarrow> CommunityId \<Rightarrow> uuid \<Rightarrow> WorkflowDef \<Rightarrow> TriggerContext \<Rightarrow> exec_result prog" where
  "execute_run X c run_id def ctx =
     with_permit (bind_prog (ask (QUpdateRun c run_id RunRunning 0 (JArray []) None)) (\<lambda>r. case db_unit r of
         Inl e \<Rightarrow> Ret (Inl (DatabaseError (DbError_text e), no_progress))
       | Inr _ \<Rightarrow> execute_steps X c run_id def ctx 0 None))"

definition execute_from_step ::
    "'x exec_env \<Rightarrow> CommunityId \<Rightarrow> uuid \<Rightarrow> WorkflowDef \<Rightarrow> TriggerContext \<Rightarrow> nat \<Rightarrow> step_outputs option \<Rightarrow> exec_result prog" where
  "execute_from_step X c run_id def ctx start_index initial_outputs =
     with_permit (bind_prog (ask (QGetRun c run_id)) (\<lambda>r.
       let existing_trace = (case db_run r of Inr run \<Rightarrow> rr_execution_trace run | Inl _ \<Rightarrow> JArray []) in
       bind_prog (ask (QUpdateRun c run_id RunRunning (as_i32 start_index) existing_trace None)) (\<lambda>r. case db_unit r of
         Inl e \<Rightarrow> Ret (Inl (DatabaseError (DbError_text e), no_progress))
       | Inr _ \<Rightarrow> execute_steps X c run_id def ctx start_index initial_outputs)))"

subsection \<open>The body of a response\<close>

lemma read_body_grows:
  assumes "chunk i = Inr (Some b)" "length (acc @ b) \<le> WEBHOOK_MAX_RESPONSE_BYTES"
  shows "read_body chunk i acc = read_body chunk (Suc i) (acc @ b)"
  using assms by (subst read_body.simps) simp

lemma read_body_skip:
  assumes "\<And>k. i \<le> k \<Longrightarrow> k < j \<Longrightarrow> chunk k = Inr (Some [])" "i \<le> j" "length acc \<le> WEBHOOK_MAX_RESPONSE_BYTES"
  shows "read_body chunk i acc = read_body chunk j acc"
  using assms
proof (induction "j - i" arbitrary: i)
  case (Suc n)
  then have "read_body chunk i acc = read_body chunk (Suc i) (acc @ [])" by (intro read_body_grows) auto
  also have "\<dots> = read_body chunk j acc" using Suc(2,3,4,5) Suc(1) [of "Suc i"] by simp
  finally show ?case .
qed simp

lemma read_body_returns:
  assumes "\<And>i. \<exists>j \<ge> i. chunk j \<noteq> Inr (Some [])" "length acc \<le> WEBHOOK_MAX_RESPONSE_BYTES"
  shows "\<exists>r. read_body chunk i acc = Some r"
  using assms(2)
proof (induction "WEBHOOK_MAX_RESPONSE_BYTES - length acc" arbitrary: acc i rule: less_induct)
  case less
  define j where "j = (LEAST j. i \<le> j \<and> chunk j \<noteq> Inr (Some []))"
  have j: "i \<le> j" "chunk j \<noteq> Inr (Some [])" using LeastI_ex [of "\<lambda>j. i \<le> j \<and> chunk j \<noteq> Inr (Some [])"] assms(1) [of i]
    by (auto simp: j_def)
  have "chunk k = Inr (Some [])" if "i \<le> k" "k < j" for k using not_less_Least [of k] that by (auto simp: j_def)
  then have eq: "read_body chunk i acc = read_body chunk j acc" using read_body_skip j(1) less(2) by blast
  show ?case
  proof (cases "chunk j")
    case (Inr x)
    then show ?thesis
    proof (cases x)
      case (Some b)
      show ?thesis
      proof (cases "length (acc @ b) \<le> WEBHOOK_MAX_RESPONSE_BYTES")
        case True
        have "\<exists>r. read_body chunk (Suc j) (acc @ b) = Some r"
          using less(1) [of "acc @ b" "Suc j"] True j(2) Inr Some by (cases b) auto
        then show ?thesis using eq read_body_grows [of chunk j b acc] True Inr Some by simp
      qed (simp add: eq read_body.simps [of chunk j] Inr Some)
    qed (simp add: eq read_body.simps [of chunk j] Inr)
  qed (simp add: eq read_body.simps [of chunk j])
qed

definition collected :: "(nat \<Rightarrow> (string option, string) rust_result) \<Rightarrow> nat \<Rightarrow> nat \<Rightarrow> string" where
  "collected chunk i n = concat (map (\<lambda>k. case chunk k of Inr (Some b) \<Rightarrow> b | _ \<Rightarrow> []) [i..<n])"

definition body_of :: "(nat \<Rightarrow> (string option, string) rust_result) \<Rightarrow> nat \<Rightarrow> string \<Rightarrow> string wf_result \<Rightarrow> bool" where
  "body_of chunk i acc r \<longleftrightarrow> (\<forall>body. r = Inr body \<longrightarrow>
     (\<exists>n \<ge> i. chunk n = Inr None \<and> (\<forall>k. i \<le> k \<and> k < n \<longrightarrow> (\<exists>b. chunk k = Inr (Some b))) \<and> body = acc @ collected chunk i n) \<and>
     (length acc \<le> WEBHOOK_MAX_RESPONSE_BYTES \<longrightarrow> length body \<le> WEBHOOK_MAX_RESPONSE_BYTES))"

lemma body_of_step:
  assumes "chunk i = Inr (Some b)" "length (acc @ b) \<le> WEBHOOK_MAX_RESPONSE_BYTES" "body_of chunk (Suc i) (acc @ b) r"
  shows "body_of chunk i acc r"
  unfolding body_of_def
proof (intro allI impI)
  fix body assume "r = Inr body"
  then obtain n where n: "Suc i \<le> n" "chunk n = Inr None" "\<forall>k. Suc i \<le> k \<and> k < n \<longrightarrow> (\<exists>b. chunk k = Inr (Some b))"
      "body = (acc @ b) @ collected chunk (Suc i) n" "length body \<le> WEBHOOK_MAX_RESPONSE_BYTES"
    using assms(2,3) unfolding body_of_def by blast
  have "collected chunk i n = b @ collected chunk (Suc i) n" using n(1) assms(1) by (simp add: collected_def upt_conv_Cons)
  moreover have "\<exists>b. chunk k = Inr (Some b)" if "i \<le> k" "k < n" for k using n(3) assms(1) that by (cases "k = i") auto
  ultimately show "(\<exists>n \<ge> i. chunk n = Inr None \<and> (\<forall>k. i \<le> k \<and> k < n \<longrightarrow> (\<exists>b. chunk k = Inr (Some b))) \<and> body = acc @ collected chunk i n) \<and>
     (length acc \<le> WEBHOOK_MAX_RESPONSE_BYTES \<longrightarrow> length body \<le> WEBHOOK_MAX_RESPONSE_BYTES)"
    using n by (intro conjI exI [of _ n]) auto
qed

lemma read_body_sound: "read_body chunk i acc = Some r \<Longrightarrow> body_of chunk i acc r"
proof (erule read_body.raw_induct [rotated])
  fix f chunk i acc r
  assume IH: "\<And>chunk i acc r. f chunk i acc = Some r \<Longrightarrow> body_of chunk i acc r"
    and eq: "(case chunk i of
        Inl e \<Rightarrow> Some (Inl (WebhookError (''reading response body: '' @ e)))
      | Inr None \<Rightarrow> Some (Inr acc)
      | Inr (Some bytes) \<Rightarrow>
          if length (acc @ bytes) > WEBHOOK_MAX_RESPONSE_BYTES
          then Some (Inl (WebhookError (''response body exceeds '' @ show_nat WEBHOOK_MAX_RESPONSE_BYTES @ '' byte limit'')))
          else f chunk (Suc i) (acc @ bytes)) = Some r"
  show "body_of chunk i acc r"
  proof (cases "chunk i")
    case (Inr x)
    show ?thesis
    proof (cases x)
      case None
      then have "r = Inr acc" using eq Inr by simp
      then show ?thesis using Inr None by (auto simp: body_of_def collected_def intro!: exI [of _ i])
    next
      case (Some b)
      show ?thesis
      proof (cases "length (acc @ b) \<le> WEBHOOK_MAX_RESPONSE_BYTES")
        case True
        then have "f chunk (Suc i) (acc @ b) = Some r" using eq Inr Some by (simp add: not_less)
        from body_of_step [OF Inr [unfolded Some] True IH [OF this]] show ?thesis .
      next
        case False
        then show ?thesis using eq Inr Some by (auto simp: body_of_def)
      qed
    qed
  qed (use eq in \<open>auto simp: body_of_def\<close>)
qed

text \<open>
  C25. Reading a response ends: if the body does not consist of empty chunks from some point on (the
  client gives up after ten seconds), the loop returns, however the server cuts its chunks and however
  much it sends; what it returns is an error or the chunks up to the end, at most one mebibyte.
\<close>

theorem webhook_body_read:
  assumes "\<And>i. \<exists>j \<ge> i. chunk j \<noteq> Inr (Some [])"
  shows "\<exists>r. read_body chunk 0 [] = Some r \<and> (\<forall>body. r = Inr body \<longrightarrow> length body \<le> WEBHOOK_MAX_RESPONSE_BYTES \<and>
     (\<exists>n. chunk n = Inr None \<and> body = concat (map (\<lambda>k. case chunk k of Inr (Some b) \<Rightarrow> b | _ \<Rightarrow> []) [0..<n])))"
proof -
  obtain r where r: "read_body chunk 0 [] = Some r" using read_body_returns [OF assms, of "[]"] by auto
  then show ?thesis using read_body_sound [OF r] by (auto simp: body_of_def collected_def)
qed

theorem webhook_body_read_witness:
  "\<exists>r. read_body (\<lambda>i. if i = 0 then Inr (Some ''ok'') else Inr None) 0 [] = Some r \<and>
     (\<forall>body. r = Inr body \<longrightarrow> length body \<le> WEBHOOK_MAX_RESPONSE_BYTES \<and>
     (\<exists>n. (if n = 0 then Inr (Some ''ok'') else Inr None) = (Inr None :: (string option, string) rust_result) \<and>
        body = concat (map (\<lambda>k. case (if k = 0 then Inr (Some ''ok'') else Inr None :: (string option, string) rust_result) of Inr (Some b) \<Rightarrow> b | _ \<Rightarrow> []) [0..<n])))"
  by (rule webhook_body_read) (metis Inr_inject le_add1 nat.simps(3) option.distinct(1) plus_1_eq_Suc add_is_0)

subsection \<open>What a run asks for\<close>

text \<open>
  Requests of execution outside the actions: the monitors below ignore them. The rule reduces a
  statement about a whole run to the action of one step.
\<close>

definition bookkeeping :: "request \<Rightarrow> bool" where
  "bookkeeping q \<longleftrightarrow> (case q of QPermit \<Rightarrow> True | QDropPermit \<Rightarrow> True | QExpired \<Rightarrow> True | QLost \<Rightarrow> True | QToken \<Rightarrow> True
     | QUpdateRun _ _ _ _ _ _ \<Rightarrow> True | QGetRun _ _ \<Rightarrow> True | _ \<Rightarrow> False)"

lemma bookkeeping_simps [simp]: "bookkeeping QPermit" "bookkeeping QDropPermit" "bookkeeping QExpired" "bookkeeping QLost"
  "bookkeeping QToken" "bookkeeping (QUpdateRun c i st k tr f)" "bookkeeping (QGetRun c i)"
  by (simp_all add: bookkeeping_def)

locale run_monitor =
  fixes ok :: "'m \<Rightarrow> request \<Rightarrow> bool" and upd :: "'m \<Rightarrow> request \<Rightarrow> reply \<Rightarrow> 'm" and inv :: "'m \<Rightarrow> bool"
    and X :: "'x exec_env" and c :: CommunityId and run_id :: uuid and ctx :: TriggerContext
  assumes ok_book: "bookkeeping q \<Longrightarrow> ok m q"
    and upd_timer: "upd m QExpired r = m"
    and inv_book: "bookkeeping q \<Longrightarrow> inv m \<Longrightarrow> inv (upd m q r)"
    and step: "inv m \<Longrightarrow> wp ok upd (dispatch_action X action c run_id ctx) (\<lambda>m r. \<forall>v. r = Some (Inr v) \<longrightarrow> inv m) m"
begin

lemma loop: "inv m \<Longrightarrow> wp ok upd (execute_loop X c run_id ctx start i steps outs trace) (\<lambda>_ _. True) m"
proof (induction steps arbitrary: i outs trace m)
  case (Cons s steps)
  have d: "wp ok upd (interruptible QExpired (dispatch_action X action c run_id ctx)) (\<lambda>m r. \<forall>v. r = Some (Some (Inr v)) \<longrightarrow> inv m) m" for action
    by (rule wp_interruptible) (use step [OF Cons(2)] in \<open>auto simp: ok_book upd_timer elim: wp_mono\<close>)
  show ?case using Cons
    by (auto simp: Let_def split: option.split sum.split bool.split StepResult.split intro!: wp_mono [OF d])
qed simp

lemma runs: "inv m \<Longrightarrow> wp ok upd (execute_run X c run_id def ctx) (\<lambda>_ _. True) m"
  "inv m \<Longrightarrow> wp ok upd (execute_from_step X c run_id def ctx k outs) (\<lambda>_ _. True) m"
proof -
  have w: "wp ok upd (with_permit body) (\<lambda>_ _. True) m" if "inv m" "\<And>m. inv m \<Longrightarrow> wp ok upd body (\<lambda>_ _. True) m" for body m
    using that inv_book by (auto simp: with_permit_def ok_book intro: wp_mono)
  show "inv m \<Longrightarrow> wp ok upd (execute_run X c run_id def ctx) (\<lambda>_ _. True) m"
    unfolding execute_run_def
    by (rule w) (auto simp: ok_book execute_steps_def inv_book split: sum.split intro!: loop inv_book)
  show "inv m \<Longrightarrow> wp ok upd (execute_from_step X c run_id def ctx k outs) (\<lambda>_ _. True) m"
    unfolding execute_from_step_def
    by (rule w) (auto simp: ok_book execute_steps_def inv_book Let_def split: sum.split option.split intro!: loop inv_book)
qed

end


lemma ok_unit_Inr [simp]: "ok_unit r = Inr u \<longleftrightarrow> r = RUnit"
  by (auto simp: ok_unit_def split: reply.split)

lemma wp_dispatch:
  assumes f: "\<And>m op. ok m (QFence op c)" "\<And>m r. upd m QLost r = m" "\<And>m. ok m QLost"
    and fin: "\<And>m r. J (upd m (QFence Finish c) r)"
    and p: "wp ok upd (perform X action c run_id ctx) (\<lambda>_ _. True)
      (upd (upd (upd m (QFence Acquire c) RUnit) (QFence Verify c) RUnit) (QFence Verify c) RUnit)"
  shows "wp ok upd (dispatch_action X action c run_id ctx) (\<lambda>m r. \<forall>v. r = Some (Inr v) \<longrightarrow> J m) m"
proof -
  have "wp ok upd (interruptible QLost (perform X action c run_id ctx)) (\<lambda>_ _. True)
      (upd (upd (upd m (QFence Acquire c) RUnit) (QFence Verify c) RUnit) (QFence Verify c) RUnit)"
    by (rule wp_interruptible) (use f(2,3) p in auto)
  then show ?thesis
    unfolding dispatch_action_def protect_def
    by (auto simp: f fin Let_def split: sum.split option.split elim!: wp_mono)
qed

text \<open>The address check: the addresses of the last lookup are remembered; connections go to the first, and none may be private.\<close>

type_synonym lookup = "(string \<times> nat \<times> IpAddr list) option"

definition lookup_upd :: "lookup \<Rightarrow> request \<Rightarrow> reply \<Rightarrow> lookup" where
  "lookup_upd m q r = (case q of QResolve h p \<Rightarrow> (case r of RAddrs as \<Rightarrow> Some (h, p, as) | _ \<Rightarrow> None) | _ \<Rightarrow> m)"

definition public_target :: "lookup \<Rightarrow> string \<Rightarrow> IpAddr \<Rightarrow> nat \<Rightarrow> bool" where
  "public_target m host ip port \<longleftrightarrow> (\<exists>as. m = Some (host, port, as) \<and> as \<noteq> [] \<and> ip = hd as \<and> list_all (\<lambda>a. \<not> is_private_ip a) as)"

definition lookup_ok :: "lookup \<Rightarrow> request \<Rightarrow> bool" where
  "lookup_ok m q = (case q of QHttp host ip port _ _ _ _ \<Rightarrow> public_target m host ip port
     | QClient host ip port \<Rightarrow> public_target m host ip port | _ \<Rightarrow> True)"

lemma lookup_ok_book: "bookkeeping q \<Longrightarrow> lookup_ok m q"
  by (simp add: lookup_ok_def bookkeeping_def split: request.splits)

lemma find_None_all: "find P xs = None \<longleftrightarrow> list_all (\<lambda>x. \<not> P x) xs"
  by (induction xs) auto

lemma perform_public: "wp lookup_ok lookup_upd (perform X action c run_id ctx) (\<lambda>_ _. True) m"
proof -
  have [simp]: "lookup_ok m (QResolve h p)" "lookup_ok m (QGetRun a b)" "lookup_ok m (QGetWorkflow a b)" "lookup_ok m (QSend a t u v)"
    "lookup_ok m (QReact t au u)" "lookup_ok m (QSleep n)" "lookup_ok m QToken" for m h p a b t u v au n
    by (simp_all add: lookup_ok_def)
  have "wp lookup_ok lookup_upd (call_webhook_impl X url meth h b) (\<lambda>_ _. True) m" for url meth h b
    by (auto simp: call_webhook_impl_def check_ssrf_def Let_def lookup_upd_def lookup_ok_def public_target_def find_None_all
        split: sum.split option.split reply.split)
  moreover have "wp lookup_ok lookup_upd (send_message X ch t c run_id ctx) (\<lambda>_ _. True) m" for ch t
    by (auto simp: send_message_def split: sum.split)
  moreover have "wp lookup_ok lookup_upd (add_reaction_impl X mid e) (\<lambda>_ _. True) m" for mid e
    by (auto simp: add_reaction_impl_def Let_def split: sum.split)
  ultimately show ?thesis
    by (cases action) (auto simp: perform_def split: sum.split)
qed

interpretation address_check: run_monitor lookup_ok lookup_upd "\<lambda>_. True" X c run_id ctx for X c run_id ctx
proof
  show "wp lookup_ok lookup_upd (dispatch_action X action c run_id ctx) (\<lambda>m r. \<forall>v. r = Some (Inr v) \<longrightarrow> True) m" for m action
    by (rule wp_dispatch) (auto simp: lookup_ok_def lookup_upd_def perform_public)
qed (auto simp: lookup_ok_book lookup_upd_def)

text \<open>
  C26. No request to an internal address: on every path of a run, started or resumed, whatever steps it
  has, whatever is answered and wherever it is interrupted, an HTTP request of a webhook connects to the
  first address of the last lookup of its host and port, and no address of that lookup is private.
\<close>

theorem webhook_targets_public:
  assumes "p = execute_run X c run_id def ctx \<or> p = execute_from_step X c run_id def ctx k outs"
    "path p (tr @ (QHttp host ip port url meth headers body, r) # us) p'"
  shows "\<exists>as. seen lookup_upd None tr = Some (host, port, as) \<and> as \<noteq> [] \<and> ip = hd as \<and> list_all (\<lambda>a. \<not> is_private_ip a) as"
proof -
  have "wp lookup_ok lookup_upd p (\<lambda>_ _. True) None" using assms(1) address_check.runs by auto
  from monitor_path [OF this assms(2)] show ?thesis by (simp add: lookup_ok_def public_target_def)
qed

text \<open>The lease: acquired, checked, given back.\<close>

datatype lease_state = NoLease | Held CommunityId | Verified CommunityId

definition lease_upd :: "lease_state \<Rightarrow> request \<Rightarrow> reply \<Rightarrow> lease_state" where
  "lease_upd m q r =
     (case q of
        QFence Acquire c \<Rightarrow> if r = RUnit then Held c else NoLease
      | QFence Verify c \<Rightarrow> if r = RUnit \<and> (m = Held c \<or> m = Verified c) then Verified c else NoLease
      | QFence Finish c \<Rightarrow> NoLease
      | _ \<Rightarrow> m)"

definition lease_ok :: "CommunityId \<Rightarrow> lease_state \<Rightarrow> request \<Rightarrow> bool" where
  "lease_ok c m q =
     (case q of QSend _ _ _ _ \<Rightarrow> m = Verified c | QHttp _ _ _ _ _ _ _ \<Rightarrow> m = Verified c | QReact _ _ _ \<Rightarrow> m = Verified c
      | QSleep _ \<Rightarrow> m = Verified c | _ \<Rightarrow> True)"

lemma perform_fenced: "wp (lease_ok c) lease_upd (perform X action c run_id ctx) (\<lambda>_ _. True) (Verified c)"
proof -
  have "wp (lease_ok c) lease_upd (call_webhook_impl X url meth h b) (\<lambda>_ _. True) (Verified c)" for url meth h b
    by (auto simp: call_webhook_impl_def check_ssrf_def Let_def lease_ok_def lease_upd_def split: sum.split option.split reply.split)
  moreover have "wp (lease_ok c) lease_upd (send_message X ch t c run_id ctx) (\<lambda>_ _. True) (Verified c)" for ch t
    by (auto simp: send_message_def lease_ok_def lease_upd_def split: sum.split)
  moreover have "wp (lease_ok c) lease_upd (add_reaction_impl X mid e) (\<lambda>_ _. True) (Verified c)" for mid e
    by (auto simp: add_reaction_impl_def Let_def lease_ok_def lease_upd_def split: sum.split)
  ultimately show ?thesis
    by (cases action) (auto simp: perform_def lease_ok_def lease_upd_def split: sum.split)
qed

interpretation lease_check: run_monitor "lease_ok c" lease_upd "\<lambda>_. True" X c run_id ctx for X c run_id ctx
proof
  show "wp (lease_ok c) lease_upd (dispatch_action X action c run_id ctx) (\<lambda>m r. \<forall>v. r = Some (Inr v) \<longrightarrow> True) m" for m action
    by (rule wp_dispatch) (auto simp: lease_ok_def lease_upd_def perform_fenced)
qed (auto simp: lease_ok_def lease_upd_def bookkeeping_def split: request.splits)

text \<open>
  C27. Effects only under the fence: on every path of a run, every message, webhook call, reaction and
  delay happens while a lease of the run's own community is held that was acquired for this step
  and found valid after that.
\<close>

theorem effects_fenced:
  assumes "p = execute_run X c run_id def ctx \<or> p = execute_from_step X c run_id def ctx k outs"
    "path p (tr @ (q, r) # us) p'"
    "(\<exists>a ch t ow. q = QSend a ch t ow) \<or> (\<exists>h ip pt u me hs b. q = QHttp h ip pt u me hs b) \<or> (\<exists>u a e. q = QReact u a e) \<or> (\<exists>n. q = QSleep n)"
  shows "seen lease_upd NoLease tr = Verified c"
proof -
  have "wp (lease_ok c) lease_upd p (\<lambda>_ _. True) NoLease" using assms(1) lease_check.runs by auto
  from monitor_path [OF this assms(2)] show ?thesis using assms(3) by (auto simp: lease_ok_def)
qed

text \<open>Where messages go: the run and the workflow that were looked up last.\<close>

type_synonym sender = "WorkflowRunRecord option \<times> WorkflowRecord option"

definition sender_upd :: "CommunityId \<Rightarrow> uuid \<Rightarrow> sender \<Rightarrow> request \<Rightarrow> reply \<Rightarrow> sender" where
  "sender_upd c run_id m q r =
     (case q of
        QGetRun a i \<Rightarrow> ((case r of RRun x \<Rightarrow> if a = c \<and> i = run_id then Some x else None | _ \<Rightarrow> None), None)
      | QGetWorkflow a i \<Rightarrow>
          (fst m, (case (fst m, r) of (Some x, RWorkflow w) \<Rightarrow> if a = c \<and> i = rr_workflow_id x then Some w else None | _ \<Rightarrow> None))
      | _ \<Rightarrow> m)"

definition sender_ok :: "CommunityId \<Rightarrow> sender \<Rightarrow> request \<Rightarrow> bool" where
  "sender_ok c m q =
     (case q of QSend a ch t ow \<Rightarrow>
        a = c \<and> (\<exists>w. snd m = Some w \<and> ow = hex_write (wr_owner_pubkey w) \<and> (\<forall>x. wr_channel_id w = Some x \<longrightarrow> ch = x))
      | _ \<Rightarrow> True)"

lemma own_channel: "resolve_send_message_channel X ch tc (Some x) = Inr y \<Longrightarrow> y = x"
  by (auto simp: resolve_send_message_channel_def Let_def split: option.splits sum.splits if_splits)

lemma db_reads: "db_run r = Inr x \<longleftrightarrow> r = RRun x" "db_workflow r = Inr w \<longleftrightarrow> r = RWorkflow w"
  by (auto simp: db_run_def db_workflow_def split: reply.split)

lemma perform_home: "wp (sender_ok c) (sender_upd c run_id) (perform X action c run_id ctx) (\<lambda>_ _. True) m"
proof -
  have "wp (sender_ok c) (sender_upd c run_id) (call_webhook_impl X url meth h b) (\<lambda>_ _. True) m" for url meth h b
    by (auto simp: call_webhook_impl_def check_ssrf_def Let_def sender_ok_def split: sum.split option.split reply.split)
  moreover have "wp (sender_ok c) (sender_upd c run_id) (send_message X ch t c run_id ctx) (\<lambda>_ _. True) m" for ch t
    by (auto simp: send_message_def sender_ok_def sender_upd_def db_reads own_channel split: sum.split)
  moreover have "wp (sender_ok c) (sender_upd c run_id) (add_reaction_impl X mid e) (\<lambda>_ _. True) m" for mid e
    by (auto simp: add_reaction_impl_def Let_def sender_ok_def split: sum.split)
  ultimately show ?thesis
    by (cases action) (auto simp: perform_def sender_ok_def split: sum.split)
qed

interpretation sender_check: run_monitor "sender_ok c" "sender_upd c run_id" "\<lambda>_. True" X c run_id ctx for X c run_id ctx
proof
  show "wp (sender_ok c) (sender_upd c run_id) (dispatch_action X action c run_id ctx) (\<lambda>m r. \<forall>v. r = Some (Inr v) \<longrightarrow> True) m" for m action
    by (rule wp_dispatch) (auto simp: sender_ok_def sender_upd_def perform_home)
qed (auto simp: sender_ok_def sender_upd_def bookkeeping_def split: request.splits)

text \<open>
  Messages stay home: a message of a run is published in the community of the run, attributed to the
  owner of the run's workflow as it was read just before, and in the workflow's channel if it has one,
  whatever channel the definition, the trigger or a webhook names.
\<close>

theorem messages_stay_home:
  assumes "p = execute_run X c run_id def ctx \<or> p = execute_from_step X c run_id def ctx k outs"
    "path p (tr @ (QSend a ch t ow, r) # us) p'"
  shows "a = c \<and> (\<exists>w. snd (seen (sender_upd c run_id) (None, None) tr) = Some w \<and> ow = hex_write (wr_owner_pubkey w) \<and>
    (\<forall>x. wr_channel_id w = Some x \<longrightarrow> ch = x))"
proof -
  have "wp (sender_ok c) (sender_upd c run_id) p (\<lambda>_ _. True) (None, None)" using assms(1) sender_check.runs by auto
  from monitor_path [OF this assms(2)] show ?thesis by (simp add: sender_ok_def)
qed


subsection \<open>Traces\<close>

text \<open>The outputs that a resumed run restores from a stored trace (\<open>resume_workflow_after_approval\<close>).\<close>

definition json_get :: "json \<Rightarrow> string \<Rightarrow> json option" where
  "json_get v key = (case v of JObject m \<Rightarrow> map_of m key | _ \<Rightarrow> None)"

definition restore_entry :: "json \<Rightarrow> step_outputs \<Rightarrow> step_outputs" where
  "restore_entry entry outs =
     (case (json_get entry ''step_id'', json_get entry ''output'') of
        (Some (JString sid), Some out) \<Rightarrow> hm_insert sid out outs
      | _ \<Rightarrow> outs)"

definition restore_outputs :: "json \<Rightarrow> step_outputs" where
  "restore_outputs trace = (case trace of JArray entries \<Rightarrow> fold restore_entry entries [] | _ \<Rightarrow> [])"

definition entry_step :: "json \<Rightarrow> string option" where
  "entry_step entry = (case json_get entry ''step_id'' of Some (JString sid) \<Rightarrow> Some sid | _ \<Rightarrow> None)"

lemma entries [simp]: "entry_step (skipped_entry sid) = Some sid" "entry_step (completed_entry sid out) = Some sid"
  "restore_entry (skipped_entry sid) outs = outs" "restore_entry (completed_entry sid out) outs = hm_insert sid out outs"
  by (simp_all add: entry_step_def skipped_entry_def completed_entry_def json_get_def restore_entry_def)

text \<open>Where a run stopped, and its trace.\<close>

definition stopped_at :: "exec_result \<Rightarrow> nat" where
  "stopped_at r = (case r of Inr e \<Rightarrow> er_step_index e | Inl (_, pp) \<Rightarrow> pp_step_index pp)"

definition trace_of :: "exec_result \<Rightarrow> json list" where
  "trace_of r = (case r of Inr e \<Rightarrow> er_trace e | Inl (_, pp) \<Rightarrow> pp_trace pp)"

definition accounts :: "nat \<Rightarrow> Step list \<Rightarrow> step_outputs \<Rightarrow> exec_result \<Rightarrow> bool" where
  "accounts start steps outs0 r \<longleftrightarrow>
     stopped_at r \<le> length steps \<and>
     map entry_step (trace_of r) = map (\<lambda>s. Some (step_id s)) (drop start (take (stopped_at r) steps)) \<and>
     (\<forall>e. r = Inr e \<longrightarrow> er_step_outputs e = fold restore_entry (er_trace e) outs0 \<and>
        (er_approval_token e = None \<longrightarrow> er_step_index e = length steps))"

lemma accounts_stop:
  assumes "start \<le> length done" "map entry_step trace = map (\<lambda>s. Some (step_id s)) (drop start done)"
  shows "accounts start (done @ s # steps) outs0 (Inl (e, \<lparr>pp_step_index = length done, pp_trace = trace\<rparr>))"
    "outs = fold restore_entry trace outs0 \<Longrightarrow>
     accounts start (done @ s # steps) outs0 (Inr \<lparr>er_approval_token = Some t, er_step_index = length done, er_step_outputs = outs, er_trace = trace\<rparr>)"
  using assms by (simp_all add: accounts_def stopped_at_def trace_of_def)

lemma loop_accounts:
  assumes "outs = fold restore_entry trace outs0" "map entry_step trace = map (\<lambda>s. Some (step_id s)) (drop start done)"
  shows "returns (execute_loop X c run_id ctx start (length done) steps outs trace) (accounts start (done @ steps) outs0)"
  using assms
proof (induction steps arbitrary: "done" outs trace)
  case Nil
  then show ?case by (simp add: accounts_def stopped_at_def trace_of_def)
next
  case (Cons s steps)
  have next_step: "returns (execute_loop X c run_id ctx start (Suc (length done)) steps outs' trace') (accounts start (done @ s # steps) outs0)"
    if "outs' = fold restore_entry trace' outs0" "map entry_step trace' = map (\<lambda>s. Some (step_id s)) (drop start (done @ [s]))"
    for outs' trace'
    using Cons(1) [of outs' trace' "done @ [s]"] that by simp
  show ?case
  proof (cases "length done < start")
    case True
    then show ?thesis using next_step [of outs trace] Cons(2,3) by simp
  next
    case False
    note stop = accounts_stop [where ?start = start and ?done = "done" and ?trace = trace and ?s = s and ?steps = steps and ?outs0.0 = outs0, OF _ Cons(3)]
    have any: "(\<And>x. Q x) \<Longrightarrow> returns (interruptible QExpired (dispatch_action X a c run_id ctx)) Q" for a Q
      by (rule returns_any)
    show ?thesis using False Cons(2,3)
      by (auto simp: Let_def split: option.split sum.split bool.split StepResult.split intro!: any next_step stop)
  qed
qed

text \<open>
  A run accounts for its steps: it stops at a step, or past the last one if it completes; its trace has
  one entry for every step from the start to there, in order; and the outputs it passes on are the
  initial ones updated with the outputs in the trace, so that a trace restores them.
\<close>

theorem run_accounts_for_steps:
  assumes "path (execute_steps X c run_id def ctx start outs) tr (Ret r)"
  shows "stopped_at r \<le> length (wd_steps def) \<and>
     map entry_step (trace_of r) = map (\<lambda>s. Some (step_id s)) (drop start (take (stopped_at r) (wd_steps def))) \<and>
     (\<forall>e. r = Inr e \<longrightarrow> (outs = None \<longrightarrow> restore_outputs (JArray (er_trace e)) = er_step_outputs e) \<and>
        (er_approval_token e = None \<longrightarrow> er_step_index e = length (wd_steps def)))"
proof -
  have "returns (execute_steps X c run_id def ctx start outs) (accounts start (wd_steps def) (case outs of Some m \<Rightarrow> m | None \<Rightarrow> []))"
    using loop_accounts [of _ "[]" _ start "[]" X c run_id ctx "wd_steps def"] by (simp add: execute_steps_def)
  from returns_path [OF assms this] show ?thesis by (auto simp: accounts_def restore_outputs_def)
qed


subsection \<open>A sample run\<close>

definition sample_xe :: "(string \<Rightarrow> eval_value option) exec_env" where
  "sample_xe = \<lparr>xe_text = sample_text, xe_eval = sample_eval, xe_parse_uuid = (\<lambda>s. Inr s),
     xe_parse_url = (\<lambda>u. Inr \<lparr>pu_host_str = Some u, pu_port_or_known_default = Some 443\<rparr>), xe_parse_method = (\<lambda>m. Inr m),
     xe_utf8_lossy = (\<lambda>b. b), xe_parse_json = (\<lambda>_. None), xe_ip_text = (\<lambda>_. []), xe_status_text = (\<lambda>_. []), xe_relay_base_url = None,
     xe_api_token = None, xe_relay_pubkey = None, xe_reqwest = True, xe_sink_ready = True, xe_default_timeout_secs = 300\<rparr>"

definition sample_def :: WorkflowDef where
  "sample_def = \<lparr>wd_name = ''n'', wd_description = None, wd_trigger = Webhook, wd_steps =
     [\<lparr>step_id = ''a'', step_name = None, step_if = None, step_timeout = None, step_action = SendMessage ''t'' None\<rparr>,
      \<lparr>step_id = ''b'', step_name = None, step_if = None, step_timeout = None, step_action = CallWebhook ''u'' None None None\<rparr>],
     wd_enabled = True\<rparr>"

definition sample_run_row :: WorkflowRunRecord where
  "sample_run_row = \<lparr>rr_id = ''r'', rr_community_id = ''c'', rr_workflow_id = ''w'', rr_status = RunRunning, rr_trigger_event_id = None,
     rr_current_step = 0, rr_execution_trace = JArray [], rr_trigger_context = None, rr_started_at = None, rr_completed_at = None,
     rr_error_message = None, rr_error_code = None, rr_created_at = 0\<rparr>"

definition sample_answer :: "request \<Rightarrow> reply" where
  "sample_answer q =
     (case q of QPermit \<Rightarrow> RBool True | QExpired \<Rightarrow> RBool False | QLost \<Rightarrow> RBool False | QGetRun _ _ \<Rightarrow> RRun sample_run_row
      | QGetWorkflow _ _ \<Rightarrow> RWorkflow wfs_wf | QSend _ _ _ _ \<Rightarrow> RText ''e'' | QResolve _ _ \<Rightarrow> RAddrs [V4 8 8 8 8]
      | QHttp _ _ _ _ _ _ _ \<Rightarrow> RResponse \<lparr>hr_status = 200, hr_chunk = (\<lambda>_. Inr None)\<rparr> | _ \<Rightarrow> RUnit)"

lemma sample_plain: "resolve_template T C O' ''t'' = Inr ''t''" "resolve_template T C O' ''u'' = Inr ''u''"
  by (simp_all add: resolve_template_def starts_with_def)

lemmas sample_run_defs = execute_run_def with_permit_def execute_steps_def dispatch_action_def protect_def perform_def
  send_message_def call_webhook_impl_def check_ssrf_def resolve_step_templates_def t_opt_def sample_plain
  resolve_send_message_channel_def filter_blank_def ask_def is_yes_def ok_unit_def db_unit_def db_run_def db_workflow_def sink_id_def
  ok_response_def sample_xe_def sample_def_def sample_answer_def sample_run_row_def wfs_wf_def new_workflow_def Let_def numeral_eq_Suc

lemma sample_public: "\<not> is_private_ip (V4 8 8 8 8)"
  by code_simp

lemma sample_sends:
  "(QSend ''c'' ''x'' ''t'' (hex_write [1]), RText ''e'') \<in> set (follow sample_answer 60 (execute_run sample_xe ''c'' ''r'' sample_def sample_trigger))"
  by (simp add: sample_run_defs)

lemma sample_calls:
  "(QHttp ''u'' (V4 8 8 8 8) 443 ''u'' ''POST'' [] None, RResponse \<lparr>hr_status = 200, hr_chunk = (\<lambda>_. Inr None)\<rparr>)
     \<in> set (follow sample_answer 120 (execute_run sample_xe ''c'' ''r'' sample_def sample_trigger))"
  using sample_public by (simp add: sample_run_defs)

theorem webhook_targets_public_witness:
  "\<exists>tr r us p'. path (execute_run sample_xe ''c'' ''r'' sample_def sample_trigger) (tr @ (QHttp ''u'' (V4 8 8 8 8) 443 ''u'' ''POST'' [] None, r) # us) p' \<and>
     (\<exists>as. seen lookup_upd None tr = Some (''u'', 443, as) \<and> as \<noteq> [] \<and> V4 8 8 8 8 = hd as \<and> list_all (\<lambda>a. \<not> is_private_ip a) as)"
  using path_follow_mem [OF sample_calls] webhook_targets_public [OF disjI1 [OF refl]] by metis

theorem effects_fenced_witness:
  "\<exists>tr r us p'. path (execute_run sample_xe ''c'' ''r'' sample_def sample_trigger) (tr @ (QSend ''c'' ''x'' ''t'' (hex_write [1]), r) # us) p' \<and>
     seen lease_upd NoLease tr = Verified ''c''"
  using path_follow_mem [OF sample_sends] effects_fenced [OF disjI1 [OF refl] _ disjI1] by metis

theorem messages_stay_home_witness:
  "\<exists>tr r us p'. path (execute_run sample_xe ''c'' ''r'' sample_def sample_trigger) (tr @ (QSend ''c'' ''x'' ''t'' (hex_write [1]), r) # us) p' \<and>
     (\<exists>w. snd (seen (sender_upd ''c'' ''r'') (None, None) tr) = Some w \<and> hex_write [1] = hex_write (wr_owner_pubkey w) \<and>
       (\<forall>x. wr_channel_id w = Some x \<longrightarrow> ''x'' = x))"
  using path_follow_mem [OF sample_sends] messages_stay_home [OF disjI1 [OF refl]] by metis

lemma sample_completes: "\<exists>e. follow_end sample_answer 80 (execute_steps sample_xe ''c'' ''r'' (sample_def\<lparr>wd_steps := [hd (wd_steps sample_def)]\<rparr>) sample_trigger 0 None) = Ret (Inr e)
    \<and> er_approval_token e = None"
  by (simp add: sample_run_defs)

theorem run_accounts_for_steps_witness:
  "\<exists>tr e. path (execute_steps sample_xe ''c'' ''r'' (sample_def\<lparr>wd_steps := [hd (wd_steps sample_def)]\<rparr>) sample_trigger 0 None) tr (Ret (Inr e)) \<and>
     map entry_step (er_trace e) = [Some ''a''] \<and> restore_outputs (JArray (er_trace e)) = er_step_outputs e"
proof -
  let ?p = "execute_steps sample_xe ''c'' ''r'' (sample_def\<lparr>wd_steps := [hd (wd_steps sample_def)]\<rparr>) sample_trigger 0 None"
  obtain e where e: "path ?p (follow sample_answer 80 ?p) (Ret (Inr e))" "er_approval_token e = None"
    using sample_completes path_follow [of ?p sample_answer 80] by metis
  show ?thesis using e run_accounts_for_steps [OF e(1)]
    by (intro exI [of _ "follow sample_answer 80 ?p"] exI [of _ e]) (auto simp: stopped_at_def trace_of_def sample_def_def)
qed

end
