(* ===== verification/Workflow_Engine.thy ===== *)
theory Workflow_Engine
  imports Workflow_Actions Nostr_Filter
begin

text \<open>
  The workflow engine: \<open>crates/buzz-workflow/src/lib.rs\<close> and the resumption of a run in
  \<open>crates/buzz-relay/src/handlers/command_executor.rs\<close>. The handler of stored events, one turn of the
  scheduler loop and the end of a run are programs over the requests of \<open>Workflow_Prog\<close>; the map of last
  fires of a pod is passed along. The reading and writing of JSON are fields of the record \<open>engine_env\<close>. A monitor
  follows what a pod has been told when it creates a run.
\<close>

subsection \<open>Environment\<close>

record ('x, 'c) engine_env =
  en_exec :: "'x exec_env"
  en_cron :: "'c wf_env"
  en_read_def :: "json \<Rightarrow> (WorkflowDef, string) rust_result"
  en_write_ctx :: "TriggerContext \<Rightarrow> (json, string) rust_result"
  en_read_ctx :: "json \<Rightarrow> TriggerContext option"

record WorkflowConfig =
  wc_max_concurrent :: nat
  wc_default_timeout_secs :: nat

definition WorkflowConfig_default :: WorkflowConfig where
  "WorkflowConfig_default = \<lparr>wc_max_concurrent = 100, wc_default_timeout_secs = 300\<rparr>"

definition permits :: "WorkflowConfig \<Rightarrow> nat" where
  "permits config = max (wc_max_concurrent config) 1"

subsection \<open>Authority\<close>

definition owner_authority_allows :: "string option \<Rightarrow> bool \<Rightarrow> bool" where
  "owner_authority_allows role needs_elevated =
     (case role of None \<Rightarrow> False | Some r \<Rightarrow> if needs_elevated then r = ''owner'' \<or> r = ''admin'' else True)"

definition check_owner_authority :: "CommunityId \<Rightarrow> uuid \<Rightarrow> bytes \<Rightarrow> WorkflowDef \<Rightarrow> unit wf_result prog" where
  "check_owner_authority community_id channel_id owner_pubkey def =
     bind_prog (ask (QMemberRole community_id channel_id owner_pubkey)) (\<lambda>r. case db_role r of
       Inl e \<Rightarrow> Ret (Inl (Unauthorized (''owner authority lookup failed (fail-closed): '' @ DbError_text e)))
     | Inr role \<Rightarrow>
         if owner_authority_allows role (requires_elevated_authority def) then Ret (Inr ())
         else Ret (Inl (Unauthorized ''workflow owner lacks current channel authority'')))"

subsection \<open>The end of a run\<close>

definition APPROVAL_FAILURE :: WorkflowRunFailure where
  "APPROVAL_FAILURE = \<lparr>rf_code = ''approval_not_supported'',
     rf_message = ''approval gates not yet implemented '' @ [CHR 0xE2, CHR 0x80, CHR 0x94] @ '' see WF-08''\<rparr>"

definition finalize_run :: "CommunityId \<Rightarrow> uuid \<Rightarrow> exec_result \<Rightarrow> json list option \<Rightarrow> unit prog" where
  "finalize_run community_id run_id result existing_trace =
     (let prefix = (case existing_trace of Some t \<Rightarrow> t | None \<Rightarrow> []) in
      bind_prog (ask (case result of
          Inr e \<Rightarrow>
            (if er_approval_token e \<noteq> None
             then QUpdateRun community_id run_id RunFailed (as_i32 (er_step_index e)) (JArray (prefix @ er_trace e)) (Some APPROVAL_FAILURE)
             else QUpdateRun community_id run_id RunCompleted (as_i32 (er_step_index e)) (JArray (prefix @ er_trace e)) None)
        | Inl (e, progress) \<Rightarrow>
            QUpdateRun community_id run_id RunFailed (as_i32 (pp_step_index progress)) (JArray (prefix @ pp_trace progress))
              (Some \<lparr>rf_code = WorkflowError_code e, rf_message = WorkflowError_text e\<rparr>))) (\<lambda>_. Ret ()))"

text \<open>The task that is spawned for a run.\<close>

definition run_task :: "('x, 'c) engine_env \<Rightarrow> CommunityId \<Rightarrow> uuid \<Rightarrow> WorkflowDef \<Rightarrow> TriggerContext \<Rightarrow> unit prog" where
  "run_task N community_id run_id def ctx =
     bind_prog (execute_run (en_exec N) community_id run_id def ctx) (\<lambda>result. finalize_run community_id run_id result None)"

definition empty_trigger :: TriggerContext where
  "empty_trigger = \<lparr>tg_text = [], tg_author = [], tg_channel_id = [], tg_timestamp = [], tg_emoji = [], tg_message_id = [], tg_webhook_fields = []\<rparr>"

definition resume_workflow_after_approval ::
    "('x, 'c) engine_env \<Rightarrow> CommunityId \<Rightarrow> uuid \<Rightarrow> uuid \<Rightarrow> nat \<Rightarrow> unit prog" where
  "resume_workflow_after_approval N community_id run_id workflow_id resume_index =
     bind_prog (ask (QGetRun community_id run_id)) (\<lambda>r. case db_run r of
       Inl e \<Rightarrow> Ret ()
     | Inr run \<Rightarrow>
       if rr_status run \<noteq> RunWaitingApproval then Ret ()
       else
       bind_prog (ask (QGetWorkflow community_id workflow_id)) (\<lambda>r. case db_workflow r of
         Inl e \<Rightarrow> Ret ()
       | Inr workflow \<Rightarrow>
         (case en_read_def N (wr_definition workflow) of
            Inl e \<Rightarrow>
              bind_prog (ask (QUpdateRun community_id run_id RunFailed (rr_current_step run) (rr_execution_trace run)
                (Some \<lparr>rf_code = ''invalid_definition'', rf_message = ''definition parse error: '' @ e\<rparr>))) (\<lambda>_. Ret ())
          | Inr def \<Rightarrow>
              let trigger_ctx = (case rr_trigger_context run of None \<Rightarrow> empty_trigger
                    | Some v \<Rightarrow> (case en_read_ctx N v of Some t \<Rightarrow> t | None \<Rightarrow> empty_trigger));
                  existing_trace = (case rr_execution_trace run of JArray es \<Rightarrow> Some es | _ \<Rightarrow> None)
              in bind_prog (execute_from_step (en_exec N) community_id run_id def trigger_ctx resume_index
                     (Some (restore_outputs (rr_execution_trace run))))
                   (\<lambda>result. finalize_run community_id run_id result existing_trace))))"

subsection \<open>Events\<close>

definition trigger_matches_event :: "TriggerDef \<Rightarrow> u32 \<Rightarrow> bool" where
  "trigger_matches_event trigger kind_u32 =
     (case trigger of
        MessagePosted _ \<Rightarrow> kind_u32 = KIND_STREAM_MESSAGE
      | ReactionAdded _ _ \<Rightarrow> kind_u32 = KIND_REACTION
      | DiffPosted _ \<Rightarrow> kind_u32 = KIND_STREAM_MESSAGE_DIFF
      | Schedule _ _ \<Rightarrow> False
      | Webhook \<Rightarrow> False)"

text \<open>\<open>char::is_ascii_hexdigit\<close>, and the last tag that names an event.\<close>

definition ascii_hexdigit :: "char \<Rightarrow> bool" where
  "ascii_hexdigit c \<longleftrightarrow> is_digit c \<or> 65 \<le> (of_char c :: nat) \<and> (of_char c :: nat) \<le> 70 \<or> 97 \<le> (of_char c :: nat) \<and> (of_char c :: nat) \<le> 102"

definition reaction_target :: "nostr_event \<Rightarrow> hex option" where
  "reaction_target e =
     (case find (\<lambda>t. tag_kind t = ''e'' \<and> (case tag_content t of None \<Rightarrow> False
                    | Some v \<Rightarrow> length v = 64 \<and> list_all ascii_hexdigit v)) (rev (ev_tags e)) of
        None \<Rightarrow> None
      | Some t \<Rightarrow> tag_content t)"

definition build_trigger_context :: "StoredEvent \<Rightarrow> TriggerContext" where
  "build_trigger_context event =
     (let e = se_event event; kind_u32 = event_kind_u32 e in
      \<lparr>tg_text = ev_content e,
       tg_author = ev_pubkey e,
       tg_channel_id = (case se_channel_id event of Some c \<Rightarrow> c | None \<Rightarrow> []),
       tg_timestamp = show_nat (ev_created_at e),
       tg_emoji = (if kind_u32 = KIND_REACTION then ev_content e else []),
       tg_message_id = (if kind_u32 = KIND_REACTION
                        then (case reaction_target e of Some i \<Rightarrow> i | None \<Rightarrow> ev_id e) else ev_id e),
       tg_webhook_fields = []\<rparr>)"

definition should_fire_workflow :: "'x exec_env \<Rightarrow> WorkflowDef \<Rightarrow> TriggerContext \<Rightarrow> bool" where
  "should_fire_workflow X def trigger_ctx =
     (let filter' = (case wd_trigger def of
            MessagePosted f \<Rightarrow> f | ReactionAdded _ f \<Rightarrow> f | DiffPosted f \<Rightarrow> f | Schedule _ _ \<Rightarrow> None | Webhook \<Rightarrow> None);
          emoji_ok = (case wd_trigger def of ReactionAdded (Some expected) _ \<Rightarrow> tg_emoji trigger_ctx = expected | _ \<Rightarrow> True)
      in emoji_ok \<and> (case filter' of None \<Rightarrow> True
           | Some expr \<Rightarrow> evaluate_condition (xe_text X) (xe_eval X) expr trigger_ctx [] = Inr True))"

text \<open>One turn of the loop over the workflows of a channel.\<close>

definition fire_on_event ::
    "('x, 'c) engine_env \<Rightarrow> CommunityId \<Rightarrow> uuid \<Rightarrow> StoredEvent \<Rightarrow> TriggerContext \<Rightarrow> json \<Rightarrow> WorkflowRecord \<Rightarrow> unit prog" where
  "fire_on_event N community_id channel_id event trigger_ctx ctx_json workflow =
     (case en_read_def N (wr_definition workflow) of
        Inl e \<Rightarrow> Ret ()
      | Inr def \<Rightarrow>
          if \<not> wd_enabled def \<or> \<not> trigger_matches_event (wd_trigger def) (event_kind_u32 (se_event event)) then Ret ()
          else if \<not> should_fire_workflow (en_exec N) def trigger_ctx then Ret ()
          else
          bind_prog (check_owner_authority community_id channel_id (wr_owner_pubkey workflow) def) (\<lambda>a. case a of Inl e \<Rightarrow> Ret () | Inr _ \<Rightarrow>
          bind_prog (ask (QCreateRun community_id (wr_id workflow) (Some (ev_id (se_event event))) (Some ctx_json))) (\<lambda>r. case db_id r of
            Inl e \<Rightarrow> Ret ()
          | Inr run_id \<Rightarrow> bind_prog (ask (QSpawn community_id run_id def trigger_ctx)) (\<lambda>_. Ret ()))))"

fun for_each :: "'a list \<Rightarrow> ('s \<Rightarrow> 'a \<Rightarrow> 's prog) \<Rightarrow> 's \<Rightarrow> 's prog" where
  "for_each [] f s = Ret s"
| "for_each (x # xs) f s = bind_prog (f s x) (for_each xs f)"

definition on_event :: "('x, 'c) engine_env \<Rightarrow> CommunityId \<Rightarrow> StoredEvent \<Rightarrow> unit wf_result prog" where
  "on_event N community_id event =
     (case se_channel_id event of
        None \<Rightarrow> Ret (Inr ())
      | Some channel_id \<Rightarrow>
          if is_workflow_execution_kind (event_kind_u32 (se_event event)) then Ret (Inr ())
          else
          bind_prog (ask (QCacheGet community_id channel_id)) (\<lambda>r.
          bind_prog (case r of
              RCached (Some cached) \<Rightarrow> Ret (Inr cached)
            | _ \<Rightarrow> bind_prog (ask (QListEnabled community_id channel_id)) (\<lambda>r. case db_workflow_list r of
                  Inl e \<Rightarrow> Ret (Inl (DatabaseError (DbError_text e)))
                | Inr fresh \<Rightarrow> bind_prog (ask (QCachePut community_id channel_id fresh)) (\<lambda>_. Ret (Inr fresh)))) (\<lambda>ws. case ws of
              Inl e \<Rightarrow> Ret (Inl e)
            | Inr workflows \<Rightarrow>
                if workflows = [] then Ret (Inr ())
                else (case en_write_ctx N (build_trigger_context event) of
                    Inl e \<Rightarrow> Ret (Inr ())
                  | Inr ctx_json \<Rightarrow>
                      bind_prog (for_each workflows (\<lambda>_. fire_on_event N community_id channel_id event (build_trigger_context event) ctx_json) ())
                        (\<lambda>_. Ret (Inr ()))))))"

subsection \<open>Schedules\<close>

definition NANOS :: int where "NANOS = 1000000000"

definition timestamp :: "datetime \<Rightarrow> int" where
  "timestamp t = t div NANOS"

definition cron_fire_instant :: "'c wf_env \<Rightarrow> string \<Rightarrow> datetime \<Rightarrow> int \<Rightarrow> datetime option" where
  "cron_fire_instant C expr now window_secs =
     (case wx_cron_parse C (normalize_cron expr) of
        Inl e \<Rightarrow> None
      | Inr sched \<Rightarrow>
         (case wx_cron_next C sched (now - window_secs * NANOS) of
            None \<Rightarrow> None
          | Some t \<Rightarrow> if t \<le> now then Some t else None))"

text \<open>\<open>as i64\<close>, \<open>DateTime::from_timestamp\<close> in the range of \<open>chrono\<close>, and \<open>i64::div_euclid\<close>.\<close>

definition as_i64_secs :: "nat \<Rightarrow> int" where
  "as_i64_secs n = (int n + 2 ^ 63) mod 2 ^ 64 - 2 ^ 63"

definition from_timestamp :: "int \<Rightarrow> datetime option" where
  "from_timestamp s = (if -8334601228800 \<le> s \<and> s \<le> 8210266876799 then Some (s * NANOS) else None)"

definition div_euclid :: "int \<Rightarrow> int \<Rightarrow> int" where
  "div_euclid a b = (if 0 < b then a div b else - (a div (- b)))"

definition interval_fire_instant :: "string \<Rightarrow> datetime \<Rightarrow> datetime option" where
  "interval_fire_instant dur now =
     (case parse_duration_secs dur of
        Inl e \<Rightarrow> None
      | Inr interval_secs \<Rightarrow>
          if interval_secs > 0
          then (let secs = as_i64_secs interval_secs; bucket = div_euclid (timestamp now) secs * secs in from_timestamp bucket)
          else None)"

definition interval_should_fire :: "string \<Rightarrow> datetime option \<Rightarrow> datetime \<Rightarrow> bool" where
  "interval_should_fire dur last_fired now =
     (case parse_duration_secs dur of
        Inl e \<Rightarrow> False
      | Inr interval_secs \<Rightarrow>
          let lst = (case last_fired of Some t \<Rightarrow> t | None \<Rightarrow> now); elapsed = nat (\<bar>now - lst\<bar> div NANOS)
          in interval_secs \<le> elapsed)"

type_synonym fired_map = "(CommunityId \<times> uuid, datetime) hmap"

definition interval_prefilter_should_fire ::
    "fired_map \<Rightarrow> CommunityId \<Rightarrow> uuid \<Rightarrow> string \<Rightarrow> datetime option \<Rightarrow> datetime \<Rightarrow> bool \<times> fired_map" where
  "interval_prefilter_should_fire last_fired community_id workflow_id dur lst now =
     (if interval_should_fire dur lst now then (True, last_fired)
      else (False, if lst = None then hm_insert (community_id, workflow_id) now last_fired else last_fired))"

definition interval_anchor :: "fired_map \<Rightarrow> CommunityId \<Rightarrow> uuid \<Rightarrow> datetime option prog" where
  "interval_anchor last_fired c w =
     (case hm_get last_fired (c, w) of
        Some t \<Rightarrow> Ret (Some t)
      | None \<Rightarrow> bind_prog (ask (QLatestFire c w)) (\<lambda>r. case db_time r of Inr anchor \<Rightarrow> Ret anchor | Inl e \<Rightarrow> Ret None))"

text \<open>From the authority check to the spawned run, for an instant of a workflow.\<close>

definition scheduled_trigger :: "uuid \<Rightarrow> datetime \<Rightarrow> TriggerContext" where
  "scheduled_trigger channel_id now = empty_trigger\<lparr>tg_channel_id := channel_id, tg_timestamp := show_int (timestamp now)\<rparr>"

definition fire_scheduled ::
    "('x, 'c) engine_env \<Rightarrow> datetime \<Rightarrow> WorkflowRecord \<Rightarrow> uuid \<Rightarrow> WorkflowDef \<Rightarrow> datetime \<Rightarrow> bool \<Rightarrow> fired_map \<Rightarrow> fired_map prog" where
  "fire_scheduled N now workflow channel_id def scheduled_for is_interval lf =
     (let c = wr_community_id workflow; w = wr_id workflow;
          advanced = (if is_interval then hm_insert (c, w) now lf else lf);
          trigger_ctx = scheduled_trigger channel_id now
      in bind_prog (check_owner_authority c channel_id (wr_owner_pubkey workflow) def) (\<lambda>a. case a of Inl e \<Rightarrow> Ret lf | Inr _ \<Rightarrow>
         bind_prog (ask (QClaim c w scheduled_for)) (\<lambda>r. case db_claim r of
           Inl e \<Rightarrow> Ret lf
         | Inr None \<Rightarrow> Ret advanced
         | Inr (Some _) \<Rightarrow>
            (case en_write_ctx N trigger_ctx of
               Inl e \<Rightarrow> Ret lf
             | Inr j \<Rightarrow>
                bind_prog (ask (QCreateRun c w None (Some j))) (\<lambda>r. case db_id r of
                  Inl e \<Rightarrow> Ret lf
                | Inr run_id \<Rightarrow>
                    bind_prog (ask (QAttach c w scheduled_for run_id)) (\<lambda>_.
                    bind_prog (ask (QSpawn c run_id def trigger_ctx)) (\<lambda>_. Ret advanced)))))))"

definition tick_workflow :: "('x, 'c) engine_env \<Rightarrow> datetime \<Rightarrow> fired_map \<Rightarrow> WorkflowRecord \<Rightarrow> fired_map prog" where
  "tick_workflow N now lf workflow =
     (let c = wr_community_id workflow; w = wr_id workflow in
      case en_read_def N (wr_definition workflow) of
        Inl e \<Rightarrow> Ret lf
      | Inr def \<Rightarrow>
          if \<not> wd_enabled def then Ret lf
          else (case wr_channel_id workflow of
              None \<Rightarrow> Ret lf
            | Some channel_id \<Rightarrow>
               (case wd_trigger def of
                  Schedule (Some expr) None \<Rightarrow>
                    (case cron_fire_instant (en_cron N) expr now 60 of
                       None \<Rightarrow> Ret lf
                     | Some t \<Rightarrow> fire_scheduled N now workflow channel_id def t False lf)
                | Schedule None (Some dur) \<Rightarrow>
                    bind_prog (interval_anchor lf c w) (\<lambda>lst.
                      let (go, lf') = interval_prefilter_should_fire lf c w dur lst now in
                      if \<not> go then Ret lf'
                      else (case interval_fire_instant dur now of
                          None \<Rightarrow> Ret lf'
                        | Some t \<Rightarrow> fire_scheduled N now workflow channel_id def t True lf'))
                | _ \<Rightarrow> Ret lf)))"

text \<open>One turn of the scheduler loop after its sleep, at the time \<open>now\<close> of the pod.\<close>

definition run_tick :: "('x, 'c) engine_env \<Rightarrow> datetime \<Rightarrow> fired_map \<Rightarrow> fired_map prog" where
  "run_tick N now lf =
     bind_prog (ask QListAll) (\<lambda>r. case db_workflow_list r of
       Inl e \<Rightarrow> Ret lf
     | Inr workflows \<Rightarrow>
         bind_prog (for_each workflows (tick_workflow N now) lf) (\<lambda>lf'.
           Ret (filter (\<lambda>(key, _). key \<in> set (map (\<lambda>w. (wr_community_id w, wr_id w)) workflows)) lf')))"


subsection \<open>Runs need authority\<close>

text \<open>
  What a pod has been told: the workflows it listed with the place they were listed for, the one it
  looked up by its id last, the role it was told last, and the run it created.
\<close>

type_synonym told_role = "CommunityId \<times> uuid \<times> bytes \<times> string option"

record authority =
  au_listed :: "(WorkflowRecord \<times> CommunityId \<times> uuid option) list"
  au_fetched :: "(WorkflowRecord \<times> CommunityId \<times> uuid) option"
  au_role :: "told_role option"
  au_run :: "(CommunityId \<times> uuid \<times> uuid \<times> told_role option) option"

definition no_authority :: authority where
  "no_authority = \<lparr>au_listed = [], au_fetched = None, au_role = None, au_run = None\<rparr>"

definition auth_upd :: "authority \<Rightarrow> request \<Rightarrow> reply \<Rightarrow> authority" where
  "auth_upd m q r =
     (case q of
        QListAll \<Rightarrow> m\<lparr>au_listed := (case db_workflow_list r of Inr ws \<Rightarrow> map (\<lambda>w. (w, wr_community_id w, wr_channel_id w)) ws | Inl _ \<Rightarrow> [])\<rparr>
      | QListEnabled c ch \<Rightarrow> m\<lparr>au_listed := (case db_workflow_list r of Inr ws \<Rightarrow> map (\<lambda>w. (w, c, Some ch)) ws | Inl _ \<Rightarrow> [])\<rparr>
      | QCacheGet c ch \<Rightarrow> m\<lparr>au_listed := (case r of RCached (Some ws) \<Rightarrow> map (\<lambda>w. (w, c, Some ch)) ws | _ \<Rightarrow> [])\<rparr>
      | QGetWorkflow c i \<Rightarrow> m\<lparr>au_fetched := (case db_workflow r of Inr w \<Rightarrow> Some (w, c, i) | Inl _ \<Rightarrow> None)\<rparr>
      | QMemberRole c ch o' \<Rightarrow> m\<lparr>au_role := (case db_role r of Inr role \<Rightarrow> Some (c, ch, o', role) | Inl _ \<Rightarrow> None)\<rparr>
      | QCreateRun c w e j \<Rightarrow>
          m\<lparr>au_role := None, au_run := (case db_id r of Inr i \<Rightarrow> Some (c, w, i, au_role m) | Inl _ \<Rightarrow> None)\<rparr>
      | _ \<Rightarrow> m)"

text \<open>
  What entitles a pod to a run of workflow \<open>w\<close>: a row it was shown, either in a list for its
  community and channel and enabled by its definition, or by a lookup under this community and id,
  enabled, active and open to the \<open>caller\<close>; a definition it could read there; and a role of the
  owner in the workflow's channel, told for this run, that suffices for the definition.
\<close>

definition shown ::
    "(WorkflowRecord \<Rightarrow> WorkflowDef \<Rightarrow> bool) \<Rightarrow> authority \<Rightarrow> CommunityId \<Rightarrow> uuid \<Rightarrow> WorkflowRecord \<Rightarrow> uuid \<Rightarrow> WorkflowDef \<Rightarrow> bool" where
  "shown caller m c w row ch def \<longleftrightarrow>
     (row, c, Some ch) \<in> set (au_listed m) \<and> wr_id row = w \<and> wd_enabled def \<or>
     au_fetched m = Some (row, c, w) \<and> wr_channel_id row = Some ch \<and> wr_enabled row \<and> wr_status row = WfActive \<and> caller row def"

definition entitled ::
    "('x, 'c) engine_env \<Rightarrow> (WorkflowRecord \<Rightarrow> WorkflowDef \<Rightarrow> bool) \<Rightarrow> authority \<Rightarrow> told_role option \<Rightarrow> CommunityId \<Rightarrow> uuid \<Rightarrow> WorkflowDef \<Rightarrow> bool" where
  "entitled N caller m told c w def \<longleftrightarrow>
     (\<exists>row ch role. shown caller m c w row ch def \<and> en_read_def N (wr_definition row) = Inr def \<and>
        told = Some (c, ch, wr_owner_pubkey row, role) \<and> owner_authority_allows role (requires_elevated_authority def))"

definition auth_ok :: "('x, 'c) engine_env \<Rightarrow> (WorkflowRecord \<Rightarrow> WorkflowDef \<Rightarrow> bool) \<Rightarrow> authority \<Rightarrow> request \<Rightarrow> bool" where
  "auth_ok N caller m q =
     (case q of
        QCreateRun c w e j \<Rightarrow> (\<exists>def. entitled N caller m (au_role m) c w def)
      | QSpawn c i def ctx \<Rightarrow> (\<exists>w told. au_run m = Some (c, w, i, told) \<and> entitled N caller m told c w def)
      | _ \<Rightarrow> True)"

lemma entitled_upd [simp]:
  "entitled N A (m\<lparr>au_role := a\<rparr>) = entitled N A m" "entitled N A (m\<lparr>au_run := b\<rparr>) = entitled N A m"
  "entitled N A (m\<lparr>au_role := a, au_run := b\<rparr>) = entitled N A m"
  by (simp_all add: entitled_def shown_def fun_eq_iff)

lemma wp_for_each:
  assumes "\<And>s x m. x \<in> set xs \<Longrightarrow> I m \<Longrightarrow> wp ok upd (f s x) (\<lambda>m _. I m) m" "I m"
  shows "wp ok upd (for_each xs f s) (\<lambda>m _. I m) m"
  using assms
proof (induction xs arbitrary: s m)
  case (Cons x xs)
  then show ?case by (auto intro!: wp_mono [OF Cons.prems(1) [of x m s]])
qed simp

lemma auth_check:
  assumes "shown A m c w row ch def" "en_read_def N (wr_definition row) = Inr def"
  assumes "\<And>m'. au_listed m' = au_listed m \<Longrightarrow> au_fetched m' = au_fetched m \<Longrightarrow> entitled N A m' (au_role m') c w def \<Longrightarrow> Q m' (Inr ())"
    "\<And>m' e. au_listed m' = au_listed m \<Longrightarrow> au_fetched m' = au_fetched m \<Longrightarrow> Q m' (Inl e)"
  shows "wp (auth_ok N A) auth_upd (check_owner_authority c ch (wr_owner_pubkey row) def) Q m"
  unfolding check_owner_authority_def
  using assms(1,2)
  by (auto simp: auth_ok_def auth_upd_def entitled_def shown_def split: sum.split intro!: assms(3,4))

lemma shown_listed: "(row, c, Some ch) \<in> set (au_listed m) \<Longrightarrow> wd_enabled def \<Longrightarrow> shown A m c (wr_id row) row ch def"
  by (simp add: shown_def)


lemma listed_upd: "(\<And>c ch. q \<noteq> QListEnabled c ch) \<Longrightarrow> (\<And>c ch. q \<noteq> QCacheGet c ch) \<Longrightarrow> q \<noteq> QListAll \<Longrightarrow> au_listed (auth_upd m q r) = au_listed m"
  by (simp add: auth_upd_def split: request.split)

lemma wp_fire_on_event:
  assumes "(row, c, Some ch) \<in> set L" "au_listed m = L"
  shows "wp (auth_ok N A) auth_upd (fire_on_event N c ch event ctx j row) (\<lambda>m _. au_listed m = L) m"
  using assms
  by (auto simp: fire_on_event_def auth_ok_def auth_upd_def db_id_def split: sum.split reply.split intro!: auth_check [OF shown_listed])

lemma wp_fire_scheduled:
  assumes "(row, wr_community_id row, Some ch) \<in> set L" "au_listed m = L" "en_read_def N (wr_definition row) = Inr def" "wd_enabled def"
  shows "wp (auth_ok N A) auth_upd (fire_scheduled N now row ch def t b lf) (\<lambda>m _. au_listed m = L) m"
  using assms
  by (auto simp: fire_scheduled_def Let_def auth_ok_def auth_upd_def db_id_def split: sum.split reply.split option.split intro!: auth_check [OF shown_listed])

lemma wp_tick_workflow:
  assumes "(row, wr_community_id row, wr_channel_id row) \<in> set L" "au_listed m = L"
  shows "wp (auth_ok N A) auth_upd (tick_workflow N now lf row) (\<lambda>m _. au_listed m = L) m"
  using assms
  by (auto simp: tick_workflow_def Let_def interval_anchor_def auth_ok_def auth_upd_def split: sum.split option.split TriggerDef.split prod.split
      intro!: wp_fire_scheduled)

lemma wp_run_tick: "wp (auth_ok N A) auth_upd (run_tick N now lf) (\<lambda>_ _. True) m"
proof -
  have l: "wp (auth_ok N A) auth_upd (for_each ws (tick_workflow N now) lf) (\<lambda>m' _. au_listed m' = au_listed m) m"
    if "au_listed m = map (\<lambda>w. (w, wr_community_id w, wr_channel_id w)) ws" for ws m lf
    by (rule wp_for_each) (auto intro!: wp_tick_workflow simp: that)
  show ?thesis by (auto simp: run_tick_def auth_ok_def auth_upd_def split: sum.split intro!: wp_mono [OF l])
qed

lemma wp_on_event: "wp (auth_ok N A) auth_upd (on_event N c event) (\<lambda>_ _. True) m"
proof -
  have l: "wp (auth_ok N A) auth_upd (for_each ws (\<lambda>_. fire_on_event N c ch event ctx j) ()) (\<lambda>m' _. au_listed m' = au_listed m) m"
    if "au_listed m = map (\<lambda>w. (w, c, Some ch)) ws" for ws m ctx j ch
    by (rule wp_for_each) (auto intro!: wp_fire_on_event simp: that)
  show ?thesis
    by (auto simp: on_event_def auth_ok_def auth_upd_def split: sum.split option.split reply.split intro!: wp_mono [OF l])
qed

subsection \<open>Runs are closed\<close>

lemma path_bind:
  "path (bind_prog p f) tr (Ret y) \<Longrightarrow> \<exists>us vs x. tr = us @ vs \<and> path p us (Ret x) \<and> path (f x) vs (Ret y)"
proof (induction p arbitrary: tr)
  case (Ret x)
  then show ?case by (auto intro: path_nil)
next
  case (Ask q k)
  from Ask(2) obtain r vs where "tr = (q, r) # vs" "path (bind_prog (k r) f) vs (Ret y)" by (auto elim: path_AskE)
  then show ?case using Ask(1) [of "k r" vs] by (metis append_Cons path_ask rangeI)
qed

lemma no_progress_accounts [simp]: "accounts 0 steps [] (Inl (e, no_progress))"
  by (simp add: accounts_def stopped_at_def trace_of_def no_progress_def)

lemma execute_run_accounts: "returns (execute_run X c run_id def ctx) (accounts 0 (wd_steps def) [])"
  using loop_accounts [of "[]" "[]" "[]" 0 "[]" X c run_id ctx "wd_steps def"]
  by (auto simp: execute_run_def with_permit_def execute_steps_def returns_bind split: sum.split)

text \<open>
  Runs are closed: a task that ends has ended its run. Its last request sets the run to completed, with
  an entry for every step, or to failed, with the reason and the entries of the steps before the
  failure; a run that waits for an approval is failed too.
\<close>

theorem runs_are_closed:
  assumes "path (run_task N c run_id def ctx) tr (Ret ())"
  shows "\<exists>us st k trace f r. tr = us @ [(QUpdateRun c run_id st k (JArray trace) f, r)] \<and>
    (st = RunCompleted \<and> f = None \<and> k = as_i32 (length (wd_steps def)) \<and> map entry_step trace = map (\<lambda>s. Some (step_id s)) (wd_steps def) \<or>
     st = RunFailed \<and> f \<noteq> None \<and> (\<exists>n \<le> length (wd_steps def). k = as_i32 n \<and> map entry_step trace = map (\<lambda>s. Some (step_id s)) (take n (wd_steps def))))"
proof -
  obtain us vs x where p: "tr = us @ vs" "path (execute_run (en_exec N) c run_id def ctx) us (Ret x)" "path (finalize_run c run_id x None) vs (Ret ())"
    using path_bind [OF assms [unfolded run_task_def]] by blast
  have a: "accounts 0 (wd_steps def) [] x" using returns_path [OF p(2) execute_run_accounts] .
  show ?thesis
  proof (cases x)
    case (Inl y)
    then obtain e pp where x: "x = Inl (e, pp)" by (cases y) auto
    then obtain r where "vs = [(QUpdateRun c run_id RunFailed (as_i32 (pp_step_index pp)) (JArray (pp_trace pp)) (Some \<lparr>rf_code = WorkflowError_code e, rf_message = WorkflowError_text e\<rparr>), r)]"
      using p(3) by (auto simp: finalize_run_def ask_def elim!: path_AskE path_RetE)
    then show ?thesis using a p(1) x by (auto simp: accounts_def stopped_at_def trace_of_def)
  next
    case (Inr e)
    show ?thesis
    proof (cases "er_approval_token e")
      case None
      then obtain r where "vs = [(QUpdateRun c run_id RunCompleted (as_i32 (er_step_index e)) (JArray (er_trace e)) None, r)]"
        using p(3) Inr by (auto simp: finalize_run_def ask_def elim!: path_AskE path_RetE)
      then show ?thesis using a p(1) Inr None by (auto simp: accounts_def stopped_at_def trace_of_def)
    next
      case (Some t)
      then obtain r where "vs = [(QUpdateRun c run_id RunFailed (as_i32 (er_step_index e)) (JArray (er_trace e)) (Some APPROVAL_FAILURE), r)]"
        using p(3) Inr by (auto simp: finalize_run_def ask_def elim!: path_AskE path_RetE)
      then show ?thesis using a p(1) Inr Some by (auto simp: accounts_def stopped_at_def trace_of_def)
    qed
  qed
qed

subsection \<open>A sample engine\<close>

definition sched_def :: WorkflowDef where
  "sched_def = sample_def\<lparr>wd_trigger := Schedule (Some ''e'') None, wd_steps := []\<rparr>"

definition sample_cron :: "unit wf_env" where
  "sample_cron = \<lparr>wx_yaml = (\<lambda>_. Inl []), wx_json = (\<lambda>_. Inl []), wx_cron_parse = (\<lambda>_. Inr ()), wx_cron_next = (\<lambda>_ t. Some (t + 60 * NANOS))\<rparr>"

definition sample_en :: "(string \<Rightarrow> eval_value option, unit) engine_env" where
  "sample_en = \<lparr>en_exec = sample_xe, en_cron = sample_cron, en_read_def = (\<lambda>_. Inr sched_def), en_write_ctx = (\<lambda>_. Inr JNull),
     en_read_ctx = (\<lambda>_. None)\<rparr>"

definition wfs_answer :: "datetime \<Rightarrow> request \<Rightarrow> reply" where
  "wfs_answer t q =
     (case q of QListAll \<Rightarrow> RWorkflows [wfs_wf] | QMemberRole _ _ _ \<Rightarrow> RRole (Some ''member'') | QCreateRun _ _ _ _ \<Rightarrow> RText ''r''
      | QClaim _ _ _ \<Rightarrow> RClaim (Some \<lparr>fc_community_id = ''c'', fc_workflow_id = ''w'', fc_scheduled_for = t, fc_claimed_at = t\<rparr>) | _ \<Rightarrow> RUnit)"

lemmas wfs_tick_defs = run_tick_def ask_def db_workflow_list_def tick_workflow_def sample_en_def sched_def_def sample_def_def sample_cron_def
  cron_fire_instant_def fire_scheduled_def check_owner_authority_def Let_def wfs_wf_def new_workflow_def wfs_answer_def db_role_def
  owner_authority_allows_def requires_elevated_authority_def db_claim_def db_id_def

lemma sample_task_ends:
  "follow_end sample_answer 90 (run_task sample_en ''c'' ''r'' (sample_def\<lparr>wd_steps := [hd (wd_steps sample_def)]\<rparr>) sample_trigger) = Ret ()"
  by (simp add: run_task_def finalize_run_def sample_en_def sample_run_defs)

theorem runs_are_closed_witness:
  "\<exists>tr us st k trace f r. path (run_task sample_en ''c'' ''r'' (sample_def\<lparr>wd_steps := [hd (wd_steps sample_def)]\<rparr>) sample_trigger) tr (Ret ()) \<and>
     tr = us @ [(QUpdateRun ''c'' ''r'' st k (JArray trace) f, r)] \<and> st \<in> {RunCompleted, RunFailed}"
proof -
  let ?p = "run_task sample_en ''c'' ''r'' (sample_def\<lparr>wd_steps := [hd (wd_steps sample_def)]\<rparr>) sample_trigger"
  have "path ?p (follow sample_answer 90 ?p) (Ret ())" using path_follow [of ?p sample_answer 90] sample_task_ends by simp
  from runs_are_closed [OF this] this show ?thesis by blast
qed

end
