(* ===== verification/Workflow_Schedule.thy ===== *)
theory Workflow_Schedule
  imports Workflow_Engine
begin

text \<open>
  The scheduler of \<open>crates/buzz-workflow/src/lib.rs\<close> on many pods over one database. A cluster is any number
  of pods, each somewhere in a turn of its loop, over the tables of \<open>Workflow_Db\<close>; every pod has its own clock,
  may crash at any time and lose its memory, any request may fail, and other statements run in between.
  Which claim a pod holds and which run was started on it is recorded beside the state. The second
  half is about time: which instants a loop with slow ticks serves, and when intervals are due.
\<close>

subsection \<open>Runs are started on claims\<close>

type_synonym instant_key = "CommunityId \<times> uuid \<times> datetime"

text \<open>The claim a pod holds: won by its last claim, spent when the run starts.\<close>

definition claim_upd :: "instant_key option \<Rightarrow> request \<Rightarrow> reply \<Rightarrow> instant_key option" where
  "claim_upd m q r =
     (case q of
        QClaim c w t \<Rightarrow> (case r of RClaim (Some _) \<Rightarrow> Some (c, w, t) | _ \<Rightarrow> None)
      | QSpawn _ _ _ _ \<Rightarrow> None
      | _ \<Rightarrow> m)"

definition claim_ok :: "instant_key option \<Rightarrow> request \<Rightarrow> bool" where
  "claim_ok m q =
     (case q of
        QCreateRun c w _ _ \<Rightarrow> (\<exists>t. m = Some (c, w, t))
      | QSpawn c _ _ _ \<Rightarrow> (\<exists>w t. m = Some (c, w, t))
      | _ \<Rightarrow> True)"

lemma claim_tick: "wp claim_ok claim_upd (run_tick N now lf) (\<lambda>_ _. True) m"
proof -
  have f: "wp claim_ok claim_upd (fire_scheduled N now row ch def t b lf) (\<lambda>_ _. True) m" for row ch def t b lf m
    by (auto simp: fire_scheduled_def check_owner_authority_def Let_def claim_ok_def claim_upd_def db_claim_def split: sum.split option.split reply.split)
  have "wp claim_ok claim_upd (tick_workflow N now lf row) (\<lambda>_ _. True) m" for lf row m
    by (auto simp: tick_workflow_def interval_anchor_def Let_def claim_ok_def f split: sum.split option.split TriggerDef.split prod.split)
  then have "wp claim_ok claim_upd (for_each ws (tick_workflow N now) lf) (\<lambda>_ _. True) m" for ws lf m
    by (intro wp_for_each) auto
  then show ?thesis by (auto simp: run_tick_def claim_ok_def split: sum.split elim: wp_mono)
qed

subsection \<open>The cluster\<close>

record pod =
  pd_prog :: "fired_map prog"
  pd_won :: "(instant_key \<times> nat) option"

record cluster =
  cl_db :: wdb
  cl_pods :: "nat \<Rightarrow> pod"
  cl_log :: "db_label list"
  cl_started :: "(CommunityId \<times> uuid \<times> (instant_key \<times> nat) option) list"

definition cluster_init :: "cluster \<Rightarrow> bool" where
  "cluster_init s \<longleftrightarrow> cl_pods s = (\<lambda>_. \<lparr>pd_prog = Ret [], pd_won = None\<rparr>) \<and> cl_log s = [] \<and> cl_started s = []"

inductive cluster_step :: "db_env \<Rightarrow> ('x, 'c) engine_env \<Rightarrow> cluster \<Rightarrow> cluster \<Rightarrow> bool" for X N where
  cs_statement: "wdb_step X (cl_db s) l d \<Longrightarrow> cluster_step X N s (s\<lparr>cl_db := d, cl_log := cl_log s @ [l]\<rparr>)"
| cs_tick: "pd_prog (cl_pods s i) = Ret lf \<Longrightarrow>
    cluster_step X N s (s\<lparr>cl_pods := (cl_pods s)(i := \<lparr>pd_prog = run_tick N now lf, pd_won = None\<rparr>)\<rparr>)"
| cs_restart: "cluster_step X N s (s\<lparr>cl_pods := (cl_pods s)(i := \<lparr>pd_prog = Ret [], pd_won = None\<rparr>)\<rparr>)"
| cs_claim: "pd_prog (cl_pods s i) = Ask (QClaim c w t) k \<Longrightarrow>
    claim_scheduled_workflow_fire (cl_db s) now c w t = (Inr (Some cl), d) \<Longrightarrow>
    cluster_step X N s (s\<lparr>cl_db := d, cl_log := cl_log s @ [LClaim c w t now],
      cl_pods := (cl_pods s)(i := \<lparr>pd_prog = k (RClaim (Some cl)), pd_won = Some ((c, w, t), length (cl_log s))\<rparr>)\<rparr>)"
| cs_no_claim: "pd_prog (cl_pods s i) = Ask (QClaim c w t) k \<Longrightarrow> (\<And>cl. r \<noteq> RClaim (Some cl)) \<Longrightarrow>
    cluster_step X N s (s\<lparr>cl_pods := (cl_pods s)(i := \<lparr>pd_prog = k r, pd_won = None\<rparr>)\<rparr>)"
| cs_start: "pd_prog (cl_pods s i) = Ask (QSpawn c run_id def ctx) k \<Longrightarrow>
    cluster_step X N s (s\<lparr>cl_pods := (cl_pods s)(i := \<lparr>pd_prog = k r, pd_won = None\<rparr>),
      cl_started := cl_started s @ [(c, run_id, pd_won (cl_pods s i))]\<rparr>)"
| cs_other: "pd_prog (cl_pods s i) = Ask q k \<Longrightarrow> (\<And>c w t. q \<noteq> QClaim c w t) \<Longrightarrow> (\<And>c j def ctx. q \<noteq> QSpawn c j def ctx) \<Longrightarrow>
    cluster_step X N s (s\<lparr>cl_pods := (cl_pods s)(i := \<lparr>pd_prog = k r, pd_won = pd_won (cl_pods s i)\<rparr>)\<rparr>)"


definition claim_at :: "db_label list \<Rightarrow> instant_key \<Rightarrow> nat \<Rightarrow> bool" where
  "claim_at ls key n \<longleftrightarrow> n < length ls \<and> (case key of (c, w, t) \<Rightarrow> \<exists>at. ls ! n = LClaim c w t at)"

abbreviation claim_of :: "CommunityId \<times> uuid \<times> (instant_key \<times> nat) option \<Rightarrow> (instant_key \<times> nat) option" where
  "claim_of e \<equiv> snd (snd e)"

definition pods_ok :: "(nat \<Rightarrow> pod) \<Rightarrow> db_label list \<Rightarrow> (instant_key \<times> nat) option list \<Rightarrow> bool" where
  "pods_ok ps ls started \<longleftrightarrow>
     (\<forall>i. wp claim_ok claim_upd (pd_prog (ps i)) (\<lambda>_ _. True) (map_option fst (pd_won (ps i)))) \<and>
     (\<forall>i key n. pd_won (ps i) = Some (key, n) \<longrightarrow> claim_at ls key n \<and> Some (key, n) \<notin> set started) \<and>
     (\<forall>i j g. pd_won (ps i) = Some g \<longrightarrow> pd_won (ps j) = Some g \<longrightarrow> i = j) \<and>
     (\<forall>e \<in> set started. \<exists>key n. e = Some (key, n) \<and> claim_at ls key n) \<and> distinct started"

definition cluster_inv :: "db_env \<Rightarrow> cluster \<Rightarrow> bool" where
  "cluster_inv X s \<longleftrightarrow> (\<exists>d0. wdb_run X d0 (cl_log s) (cl_db s)) \<and> pods_ok (cl_pods s) (cl_log s) (map claim_of (cl_started s))"

lemma run_snoc: "wdb_run X d ls d1 \<Longrightarrow> wdb_step X d1 l d2 \<Longrightarrow> wdb_run X d (ls @ [l]) d2"
  by (induction rule: wdb_run.induct) (auto intro: run_more run_none)

lemma claim_at_more: "claim_at ls key n \<Longrightarrow> claim_at (ls @ [l]) key n"
  by (auto simp: claim_at_def nth_append split: prod.splits)

lemma pods_more: "pods_ok ps ls started \<Longrightarrow> pods_ok ps (ls @ [l]) started"
  unfolding pods_ok_def by (blast intro: claim_at_more)

text \<open>A pod goes on with what it held, without it, or with a claim that nobody holds.\<close>

lemma pods_one:
  assumes "pods_ok ps ls started" "wp claim_ok claim_upd p (\<lambda>_ _. True) (map_option fst g)" "g = None \<or> g = pd_won (ps i)"
  shows "pods_ok (ps(i := \<lparr>pd_prog = p, pd_won = g\<rparr>)) ls started"
  using assms unfolding pods_ok_def by (auto split: if_splits)

lemma pods_spend:
  assumes "pods_ok ps ls started" "wp claim_ok claim_upd p (\<lambda>_ _. True) None" "pd_won (ps i) = Some g"
  shows "pods_ok (ps(i := \<lparr>pd_prog = p, pd_won = None\<rparr>)) ls (started @ [Some g])"
  using assms unfolding pods_ok_def by (cases g) (auto split: if_splits)

lemma pods_win:
  assumes "pods_ok ps ls started" "wp claim_ok claim_upd p (\<lambda>_ _. True) (Some (c, w, t))"
  shows "pods_ok (ps(i := \<lparr>pd_prog = p, pd_won = Some ((c, w, t), length ls)\<rparr>)) (ls @ [LClaim c w t at]) started"
proof -
  let ?ps = "ps(i := \<lparr>pd_prog = p, pd_won = Some ((c, w, t), length ls)\<rparr>)" and ?ls = "ls @ [LClaim c w t at]"
  have old: "claim_at ls key n" "Some (key, n) \<notin> set started" if "pd_won (ps j) = Some (key, n)" for j key n
    using assms(1) that unfolding pods_ok_def by blast+
  have st: "\<exists>key n. e = Some (key, n) \<and> claim_at ls key n" if "e \<in> set started" for e using assms(1) that unfolding pods_ok_def by blast
  have none: "\<not> claim_at ls key (length ls)" for key by (simp add: claim_at_def split: prod.split)
  have held: "pd_won (ps j) \<noteq> Some (key, length ls)" for j key using old(1) none by blast
  have spent: "Some (key, length ls) \<notin> set started" for key using st none by blast
  have new: "claim_at ?ls (c, w, t) (length ls)" by (simp add: claim_at_def)
  have "\<forall>j. wp claim_ok claim_upd (pd_prog (?ps j)) (\<lambda>_ _. True) (map_option fst (pd_won (?ps j)))"
    using assms unfolding pods_ok_def by simp
  moreover have "\<forall>j key n. pd_won (?ps j) = Some (key, n) \<longrightarrow> claim_at ?ls key n \<and> Some (key, n) \<notin> set started"
    using old claim_at_more new spent by simp
  moreover have "\<forall>j k g. pd_won (?ps j) = Some g \<longrightarrow> pd_won (?ps k) = Some g \<longrightarrow> j = k"
  proof (intro allI impI)
    fix j k g assume a: "pd_won (?ps j) = Some g" "pd_won (?ps k) = Some g"
    have "j' \<noteq> i \<Longrightarrow> k' \<noteq> i \<Longrightarrow> pd_won (ps j') = Some g \<Longrightarrow> pd_won (ps k') = Some g \<Longrightarrow> j' = k'" for j' k'
      using assms(1) unfolding pods_ok_def by blast
    then show "j = k" using a held by (cases "j = i"; cases "k = i") auto
  qed
  moreover have "\<forall>e \<in> set started. \<exists>key n. e = Some (key, n) \<and> claim_at ?ls key n" using st claim_at_more by blast
  moreover have "distinct started" using assms(1) unfolding pods_ok_def by blast
  ultimately show ?thesis unfolding pods_ok_def by blast
qed

lemma pod_next:
  assumes "cluster_inv X s" "pd_prog (cl_pods s i) = Ask q k"
  shows "claim_ok (map_option fst (pd_won (cl_pods s i))) q"
    "wp claim_ok claim_upd (k r) (\<lambda>_ _. True) (claim_upd (map_option fst (pd_won (cl_pods s i))) q r)"
proof -
  have "wp claim_ok claim_upd (pd_prog (cl_pods s i)) (\<lambda>_ _. True) (map_option fst (pd_won (cl_pods s i)))"
    using assms(1) unfolding cluster_inv_def pods_ok_def by blast
  then show "claim_ok (map_option fst (pd_won (cl_pods s i))) q"
    "wp claim_ok claim_upd (k r) (\<lambda>_ _. True) (claim_upd (map_option fst (pd_won (cl_pods s i))) q r)"
    unfolding assms(2) by simp_all
qed

lemma cluster_inv_step:
  assumes "cluster_step X N s t" "cluster_inv X s"
  shows "cluster_inv X t"
  using assms(1)
proof (cases rule: cluster_step.cases)
  case (cs_statement l d)
  then show ?thesis using assms(2) by (auto simp: cluster_inv_def pods_more intro: run_snoc)
next
  case (cs_tick i lf now)
  then show ?thesis using assms(2) by (auto simp: cluster_inv_def intro!: pods_one claim_tick)
next
  case (cs_restart i)
  then show ?thesis using assms(2) by (auto simp: cluster_inv_def intro!: pods_one)
next
  case (cs_claim i c w t k now cl d)
  then have "wp claim_ok claim_upd (k (RClaim (Some cl))) (\<lambda>_ _. True) (Some (c, w, t))"
    using pod_next(2) [OF assms(2) cs_claim(2), of "RClaim (Some cl)"] by (simp add: claim_upd_def)
  then show ?thesis using cs_claim assms(2) by (auto simp: cluster_inv_def intro: run_snoc st_claim pods_win)
next
  case (cs_no_claim i c w t k r)
  then have "claim_upd m (QClaim c w t) r = None" for m by (auto simp: claim_upd_def split: reply.splits option.splits)
  then show ?thesis using cs_no_claim(1) pod_next(2) [OF assms(2) cs_no_claim(2), of r] assms(2)
    by (auto simp: cluster_inv_def intro!: pods_one)
next
  case (cs_start i c run_id def ctx k r)
  obtain g where g: "pd_won (cl_pods s i) = Some g"
    using pod_next(1) [OF assms(2) cs_start(2)] by (auto simp: claim_ok_def)
  have "wp claim_ok claim_upd (k r) (\<lambda>_ _. True) None"
    using pod_next(2) [OF assms(2) cs_start(2), of r] by (simp add: claim_upd_def)
  then show ?thesis using cs_start(1) g assms(2) by (auto simp: cluster_inv_def intro: pods_spend)
next
  case (cs_other i q k r)
  have "claim_upd m q r = m" for m using cs_other(3,4) by (auto simp: claim_upd_def split: request.split)
  then have "pods_ok ((cl_pods s)(i := \<lparr>pd_prog = k r, pd_won = pd_won (cl_pods s i)\<rparr>)) (cl_log s) (map claim_of (cl_started s))"
    using pod_next(2) [OF assms(2) cs_other(2), of r] assms(2) by (auto simp: cluster_inv_def intro!: pods_one)
  then show ?thesis using cs_other(1) assms(2) by (simp add: cluster_inv_def)
qed

interpretation cluster: invariant_system cluster_init "cluster_step X N" "cluster_inv X" for X N
proof
  show "cluster_inv X s" if "cluster_init s" for s
    using that by (auto simp: cluster_inv_def cluster_init_def pods_ok_def intro: run_none)
qed (rule cluster_inv_step)

lemma split_two:
  assumes "i < j" "j < length xs"
  shows "xs = take i xs @ xs ! i # drop (Suc i) (take j xs) @ xs ! j # drop (Suc j) xs"
proof -
  have "take j xs = take i xs @ xs ! i # drop (Suc i) (take j xs)"
    using assms id_take_nth_drop [of i "take j xs"] by simp
  then show ?thesis using id_take_nth_drop [OF assms(2)] by (metis append.assoc append_Cons)
qed

text \<open>
  C21. At most one run per instant: however many pods run the scheduler, with whatever clocks, restarts,
  failures and interleaving, every scheduled run is started on a claim of its own instant, and a second
  run for the same instant of the same workflow is started only if between the two claims the workflow
  was deleted or the claims were pruned with a cutoff after the first claim.
\<close>

theorem scheduled_once:
  assumes "reach cluster_init (cluster_step X N) s" "i < j" "j < length (cl_started s)"
  shows "\<exists>c w t m. claim_of (cl_started s ! i) = Some ((c, w, t), m) \<and>
    (\<forall>n. claim_of (cl_started s ! j) = Some ((c, w, t), n) \<longrightarrow>
      (\<exists>as at bs at' cs. cl_log s = as @ LClaim c w t at # bs @ LClaim c w t at' # cs \<and>
        (LDelete c w \<in> set bs \<or> (\<exists>old. LPrune old \<in> set bs \<and> at < old))))"
proof -
  let ?g = "\<lambda>i. claim_of (cl_started s ! i)"
  obtain d0 where d0: "wdb_run X d0 (cl_log s) (cl_db s)" and ok: "pods_ok (cl_pods s) (cl_log s) (map claim_of (cl_started s))"
    using cluster.reach_inv [OF assms(1)] unfolding cluster_inv_def by blast
  have claim: "\<exists>key n. ?g k = Some (key, n) \<and> claim_at (cl_log s) key n" if "k < length (cl_started s)" for k
  proof -
    have "?g k \<in> set (map claim_of (cl_started s))" using that by force
    then show ?thesis using ok unfolding pods_ok_def by blast
  qed
  have "distinct (map claim_of (cl_started s))" using ok unfolding pods_ok_def by blast
  then have ne: "?g i \<noteq> ?g j" using nth_eq_iff_index_eq [of "map claim_of (cl_started s)" i j] assms(2,3) by simp
  obtain c w t m where i: "?g i = Some ((c, w, t), m)" "claim_at (cl_log s) (c, w, t) m"
    using claim [of i] assms(2,3) by auto
  have "\<exists>as at bs at' cs. cl_log s = as @ LClaim c w t at # bs @ LClaim c w t at' # cs" if "?g j = Some ((c, w, t), n)" for n
  proof -
    have n: "claim_at (cl_log s) (c, w, t) n" "m \<noteq> n" using claim [OF assms(3)] that ne i by auto
    then obtain at at' where a: "cl_log s ! m = LClaim c w t at" "cl_log s ! n = LClaim c w t at'" "m < length (cl_log s)" "n < length (cl_log s)"
      using i(2) by (auto simp: claim_at_def)
    from n(2) consider "m < n" | "n < m" by linarith
    then show ?thesis
    proof cases
      case 1
      then show ?thesis using split_two [OF 1 a(4)] unfolding a(1,2) by blast
    next
      case 2
      then show ?thesis using split_two [OF 2 a(3)] unfolding a(1,2) by blast
    qed
  qed
  then have "\<exists>as at bs at' cs. cl_log s = as @ LClaim c w t at # bs @ LClaim c w t at' # cs \<and>
      (LDelete c w \<in> set bs \<or> (\<exists>old. LPrune old \<in> set bs \<and> at < old))" if "?g j = Some ((c, w, t), n)" for n
    using that claimed_apart d0 by metis
  then show ?thesis using i(1) by blast
qed


subsection \<open>A sample cluster\<close>

definition wfs_state :: "fire_row list \<Rightarrow> db_label list \<Rightarrow> (CommunityId \<times> uuid \<times> (instant_key \<times> nat) option) list \<Rightarrow> fired_map prog \<Rightarrow>
    (instant_key \<times> nat) option \<Rightarrow> cluster" where
  "wfs_state fs ls st p g = \<lparr>cl_db = wfs_db\<lparr>db_fires := fs\<rparr>, cl_pods = (\<lambda>_. \<lparr>pd_prog = Ret [], pd_won = None\<rparr>)(0 := \<lparr>pd_prog = p, pd_won = g\<rparr>),
     cl_log = ls, cl_started = st\<rparr>"

abbreviation wfs_step :: "cluster \<Rightarrow> cluster \<Rightarrow> bool" where
  "wfs_step \<equiv> cluster_step wfs_dx sample_en"

lemma wfs_tick: "wfs_step (wfs_state fs ls st (Ret []) None) (wfs_state fs ls st (run_tick sample_en now []) None)"
  using cs_tick [of "wfs_state fs ls st (Ret []) None" 0 "[]" wfs_dx sample_en now] by (simp add: wfs_state_def)

definition wfs_row :: "datetime \<Rightarrow> fire_row" where
  "wfs_row t = \<lparr>fc_community_id = ''c'', fc_workflow_id = ''w'', fc_scheduled_for = t, fc_claimed_at = t, fr_workflow_run_id = None\<rparr>"

lemma follow_end_Suc: "follow_end a n p = Ask q k \<Longrightarrow> follow_end a (Suc n) p = k (a q)"
  by (induction a n p rule: follow_end.induct) auto

lemma wfs_wins:
  assumes "t \<notin> set ts" "follow_end (wfs_answer t) n p = Ask (QClaim ''c'' ''w'' t) k"
  shows "wfs_step (wfs_state (map wfs_row ts) ls st (follow_end (wfs_answer t) n p) None)
    (wfs_state (map wfs_row (ts @ [t])) (ls @ [LClaim ''c'' ''w'' t t]) st (follow_end (wfs_answer t) (Suc n) p) (Some ((''c'', ''w'', t), length ls)))"
proof -
  have h: "has_workflow (wfs_db\<lparr>db_fires := fs\<rparr>) ''c'' ''w''" for fs by (simp add: has_workflow_def wfs_db_def wfs_wf_def new_workflow_def wfs_empty_def)
  have "\<not> list_ex (\<lambda>f. fire_key f = (''c'', ''w'', t)) (map wfs_row ts)" using assms by (auto simp: list_ex_iff wfs_row_def)
  then have "claim_scheduled_workflow_fire (wfs_db\<lparr>db_fires := map wfs_row ts\<rparr>) t ''c'' ''w'' t =
      (Inr (Some \<lparr>fc_community_id = ''c'', fc_workflow_id = ''w'', fc_scheduled_for = t, fc_claimed_at = t\<rparr>), wfs_db\<lparr>db_fires := map wfs_row (ts @ [t])\<rparr>)"
    by (simp add: claim_scheduled_workflow_fire_def h wfs_row_def)
  then show ?thesis using cs_claim [of "wfs_state (map wfs_row ts) ls st (Ask (QClaim ''c'' ''w'' t) k) None" 0 "''c''" "''w''" t k t _ _ wfs_dx sample_en]
    unfolding follow_end_Suc [OF assms(2)] assms(2) by (simp add: wfs_state_def wfs_answer_def)
qed

lemma wfs_starts:
  assumes "follow_end (wfs_answer t) n p = Ask (QSpawn c i def ctx) k"
  shows "wfs_step (wfs_state fs ls st (follow_end (wfs_answer t) n p) g) (wfs_state fs ls (st @ [(c, i, g)]) (follow_end (wfs_answer t) (Suc n) p) None)"
  unfolding follow_end_Suc [OF assms] unfolding assms
  using cs_start [of "wfs_state fs ls st (Ask (QSpawn c i def ctx) k) g" 0 c i def ctx k wfs_dx sample_en] by (simp add: wfs_state_def)

lemma wfs_other:
  assumes "follow_end (wfs_answer t) n p = Ask q k" "\<And>c w t. q \<noteq> QClaim c w t" "\<And>c j def ctx. q \<noteq> QSpawn c j def ctx"
  shows "wfs_step (wfs_state fs ls st (follow_end (wfs_answer t) n p) g) (wfs_state fs ls st (follow_end (wfs_answer t) (Suc n) p) g)"
  unfolding follow_end_Suc [OF assms(1)] unfolding assms(1)
  using cs_other [OF _ assms(2,3), of "wfs_state fs ls st (Ask q k) g" 0 k wfs_dx sample_en] by (simp add: wfs_state_def)

lemma wfs_requests:
  defines "p \<equiv> \<lambda>t. run_tick sample_en t []"
  shows "\<exists>k. follow_end (wfs_answer t) 0 (p t) = Ask QListAll k"
    "\<exists>k. follow_end (wfs_answer t) (Suc 0) (p t) = Ask (QMemberRole ''c'' ''x'' [1]) k"
    "\<exists>k. follow_end (wfs_answer t) (Suc (Suc 0)) (p t) = Ask (QClaim ''c'' ''w'' t) k"
    "\<exists>k. follow_end (wfs_answer t) (Suc (Suc (Suc 0))) (p t) = Ask (QCreateRun ''c'' ''w'' None (Some JNull)) k"
    "\<exists>k. follow_end (wfs_answer t) (Suc (Suc (Suc (Suc 0)))) (p t) = Ask (QAttach ''c'' ''w'' t ''r'') k"
    "\<exists>k def ctx. follow_end (wfs_answer t) (Suc (Suc (Suc (Suc (Suc 0))))) (p t) = Ask (QSpawn ''c'' ''r'' def ctx) k"
    "follow_end (wfs_answer t) (Suc (Suc (Suc (Suc (Suc (Suc 0)))))) (p t) = Ret []"
  unfolding p_def by (simp_all add: wfs_tick_defs)

lemma wfs_round:
  assumes "t \<notin> set ts"
  shows "wfs_step\<^sup>*\<^sup>* (wfs_state (map wfs_row ts) ls st (Ret []) None)
    (wfs_state (map wfs_row (ts @ [t])) (ls @ [LClaim ''c'' ''w'' t t]) (st @ [(''c'', ''r'', Some ((''c'', ''w'', t), length ls))]) (Ret []) None)"
    (is "wfs_step\<^sup>*\<^sup>* ?s ?t")
proof -
  let ?p = "\<lambda>n. follow_end (wfs_answer t) n (run_tick sample_en t [])"
  let ?a = "\<lambda>n. wfs_state (map wfs_row ts) ls st (?p n) None"
  let ?b = "\<lambda>n. wfs_state (map wfs_row (ts @ [t])) (ls @ [LClaim ''c'' ''w'' t t]) st (?p n) (Some ((''c'', ''w'', t), length ls))"
  note r = wfs_requests [of t]
  have "wfs_step ?s (?a 0)" using wfs_tick by simp
  also have "wfs_step\<^sup>+\<^sup>+ (?a 0) (?a (Suc 0))" using r(1) wfs_other by (blast intro: tranclp.r_into_trancl)
  finally have "wfs_step\<^sup>+\<^sup>+ ?s (?a (Suc 0))" .
  also have "wfs_step (?a (Suc 0)) (?a (Suc (Suc 0)))" using r(2) wfs_other by blast
  also have "wfs_step (?a (Suc (Suc 0))) (?b (Suc (Suc (Suc 0))))" using r(3) wfs_wins [OF assms] by blast
  also have "wfs_step (?b (Suc (Suc (Suc 0)))) (?b (Suc (Suc (Suc (Suc 0)))))" using r(4) wfs_other by blast
  also have "wfs_step (?b (Suc (Suc (Suc (Suc 0))))) (?b (Suc (Suc (Suc (Suc (Suc 0))))))" using r(5) wfs_other by blast
  also have "wfs_step (?b (Suc (Suc (Suc (Suc (Suc 0)))))) ?t" using r(6) r(7) wfs_starts by metis
  finally show ?thesis by simp
qed


lemma reach_steps: "step\<^sup>*\<^sup>* s t \<Longrightarrow> reach init step s \<Longrightarrow> reach init step t"
  by (induction rule: rtranclp_induct) (auto intro: reach_step)

lemma wfs_two_rounds:
  "reach cluster_init wfs_step (wfs_state (map wfs_row [5, 6]) [LClaim ''c'' ''w'' 5 5, LClaim ''c'' ''w'' 6 6]
     [(''c'', ''r'', Some ((''c'', ''w'', 5), 0)), (''c'', ''r'', Some ((''c'', ''w'', 6), 1))] (Ret []) None)"
proof -
  have "reach cluster_init wfs_step (wfs_state (map wfs_row []) [] [] (Ret []) None)"
    by (rule reach_init) (simp add: cluster_init_def wfs_state_def fun_eq_iff)
  then show ?thesis using wfs_round [of 5 "[]" "[]" "[]"] wfs_round [of 6 "[5]" "[LClaim ''c'' ''w'' 5 5]" "[(''c'', ''r'', Some ((''c'', ''w'', 5), 0))]"]
    by (auto elim!: reach_steps)
qed

theorem scheduled_once_witness:
  "\<exists>s. reach cluster_init wfs_step s \<and> length (cl_started s) = 2 \<and>
     (\<exists>c w t m. claim_of (cl_started s ! 0) = Some ((c, w, t), m) \<and>
      (\<forall>n. claim_of (cl_started s ! 1) = Some ((c, w, t), n) \<longrightarrow>
        (\<exists>as at bs at' cs. cl_log s = as @ LClaim c w t at # bs @ LClaim c w t at' # cs \<and>
          (LDelete c w \<in> set bs \<or> (\<exists>old. LPrune old \<in> set bs \<and> at < old)))))"
  using wfs_two_rounds scheduled_once [OF wfs_two_rounds, of 0 1]
  by (intro exI [of _ "wfs_state (map wfs_row [5, 6]) [LClaim ''c'' ''w'' 5 5, LClaim ''c'' ''w'' 6 6]
     [(''c'', ''r'', Some ((''c'', ''w'', 5), 0)), (''c'', ''r'', Some ((''c'', ''w'', 6), 1))] (Ret []) None"]) (simp add: wfs_state_def)

subsection \<open>Cron ticks\<close>

text \<open>What \<open>cron::Schedule::after(t).next()\<close> promises: the first instant of the schedule after \<open>t\<close>.\<close>

definition next_instant :: "'c wf_env \<Rightarrow> ('c \<Rightarrow> datetime \<Rightarrow> bool) \<Rightarrow> bool" where
  "next_instant C due \<longleftrightarrow>
     (\<forall>s t u. wx_cron_next C s t = Some u \<longleftrightarrow> t < u \<and> due s u \<and> (\<forall>v. t < v \<and> v < u \<longrightarrow> \<not> due s v))"

lemma div_bounds:
  fixes m x :: int
  assumes "0 < m"
  shows "x div m * m \<le> x" "x < x div m * m + m"
  using div_mult_mod_eq [of x m] pos_mod_bound [OF assms, of x] pos_mod_sign [OF assms, of x] by linarith+

lemma cron_instant_exact:
  assumes "next_instant C due" "wx_cron_parse C (normalize_cron expr) = Inr s"
  shows "cron_fire_instant C expr n 60 = Some t \<longleftrightarrow>
    due s t \<and> t \<le> n \<and> n < t + 60 * NANOS \<and> (\<forall>v. n - 60 * NANOS < v \<and> v < t \<longrightarrow> \<not> due s v)"
proof -
  have e: "wx_cron_next C s (n - 60 * NANOS) = Some t \<longleftrightarrow> n - 60 * NANOS < t \<and> due s t \<and> (\<forall>v. n - 60 * NANOS < v \<and> v < t \<longrightarrow> \<not> due s v)"
    using assms(1) unfolding next_instant_def by blast
  have "cron_fire_instant C expr n 60 = Some t \<longleftrightarrow> wx_cron_next C s (n - 60 * NANOS) = Some t \<and> t \<le> n"
    by (auto simp: cron_fire_instant_def assms(2) split: option.split)
  then show ?thesis unfolding e by auto
qed

text \<open>
  C28. Slow ticks skip instants: an instant of a cron schedule that comes after one tick and at least
  sixty seconds before the next, with no tick in between, is served by no tick at all.
\<close>

theorem slow_tick_misses:
  assumes "next_instant C due" "wx_cron_parse C (normalize_cron expr) = Inr s" "due s t"
    "\<forall>n \<in> set ticks. n \<le> n1 \<or> n2 \<le> n" "n1 < t" "t \<le> n2 - 60 * NANOS"
  shows "\<forall>n \<in> set ticks. cron_fire_instant C expr n 60 \<noteq> Some t"
  using assms(4-6) unfolding cron_instant_exact [OF assms(1,2)] by auto

lemma prompt_tick_serves:
  assumes "next_instant C due" "wx_cron_parse C (normalize_cron expr) = Inr s" "due s t" "t \<le> n" "n < t + 60 * NANOS"
    "\<And>v. due s v \<Longrightarrow> v < t \<Longrightarrow> v \<le> t - 60 * NANOS"
  shows "cron_fire_instant C expr n 60 = Some t"
  unfolding cron_instant_exact [OF assms(1,2)] using assms(3-6) by force

definition minute_cron :: "unit wf_env" where
  "minute_cron = sample_cron\<lparr>wx_cron_next := (\<lambda>_ t. Some ((t div (60 * NANOS) + 1) * (60 * NANOS)))\<rparr>"

lemma minute_next: "next_instant minute_cron (\<lambda>_ u. u mod (60 * NANOS) = 0)"
proof -
  have "((t div m + 1) * m = u) \<longleftrightarrow> t < u \<and> u mod m = 0 \<and> (\<forall>v. t < v \<and> v < u \<longrightarrow> v mod m \<noteq> 0)" if m: "(0::int) < m" for t u m
  proof -
    have a: "t < (t div m + 1) * m" using div_bounds(2) [OF m, of t] by (simp add: distrib_right)
    have b: "((t div m + 1) * m) mod m = 0" by simp
    have c: "v mod m \<noteq> 0" if "t < v" "v < (t div m + 1) * m" for v
    proof
      assume "v mod m = 0"
      then obtain k where k: "v = m * k" by (metis mod_0_imp_dvd dvdE)
      then have "k < t div m + 1" using that(2) m by (simp add: mult.commute)
      moreover have "t div m < k"
      proof (rule ccontr)
        assume "\<not> t div m < k"
        then have "m * k \<le> m * (t div m)" using m by simp
        then show False using that(1) k mult_div_mod_eq [of m t] pos_mod_sign [OF m, of t] by linarith
      qed
      ultimately show False by simp
    qed
    show ?thesis using a b c by (metis linorder_neqE_linordered_idom)
  qed
  from this [of "60 * NANOS"] show ?thesis by (simp add: next_instant_def minute_cron_def NANOS_def)
qed


theorem slow_tick_misses_witness:
  "cron_fire_instant minute_cron ''e'' (59 * NANOS) 60 = Some 0 \<and> cron_fire_instant minute_cron ''e'' (120 * NANOS) 60 = Some (120 * NANOS) \<and>
   Some (60 * NANOS) \<notin> {cron_fire_instant minute_cron ''e'' (59 * NANOS) 60, cron_fire_instant minute_cron ''e'' (120 * NANOS) 60}"
proof -
  have "cron_fire_instant minute_cron ''e'' (59 * NANOS) 60 = Some 0" "cron_fire_instant minute_cron ''e'' (120 * NANOS) 60 = Some (120 * NANOS)"
    by (simp_all add: cron_fire_instant_def minute_cron_def sample_cron_def NANOS_def)
  moreover have "\<forall>n \<in> set [59 * NANOS, 120 * NANOS]. cron_fire_instant minute_cron ''e'' n 60 \<noteq> Some (60 * NANOS)"
    by (rule slow_tick_misses [OF minute_next, of "''e''" "()" "60 * NANOS" _ "59 * NANOS" "120 * NANOS"])
      (simp_all add: minute_cron_def sample_cron_def NANOS_def)
  ultimately show ?thesis by auto
qed

subsection \<open>Intervals\<close>

lemma as_i64_secs_small: "k < 2 ^ 63 \<Longrightarrow> as_i64_secs k = int k"
proof -
  assume "k < 2 ^ 63"
  then have "int k < 2 ^ 63" by (simp flip: of_nat_less_iff)
  then show ?thesis by (simp add: as_i64_secs_def)
qed

lemma interval_bucket:
  assumes "parse_duration_secs dur = Inr k" "0 < k" "k < 2 ^ 63" "interval_fire_instant dur n = Some b"
  shows "b = (timestamp n div int k) * int k * NANOS" "b \<le> n" "n < b + int k * NANOS"
proof -
  let ?q = "timestamp n div int k"
  show b: "b = ?q * int k * NANOS"
    using assms by (auto simp: interval_fire_instant_def as_i64_secs_small div_euclid_def from_timestamp_def Let_def split: if_splits)
  have t: "timestamp n * NANOS \<le> n" "n < timestamp n * NANOS + NANOS"
    using div_bounds [of NANOS n] by (simp_all add: timestamp_def NANOS_def)
  have q: "?q * int k \<le> timestamp n" "timestamp n < ?q * int k + int k"
    using div_bounds [of "int k" "timestamp n"] assms(2) by simp_all
  show "b \<le> n" using b q(1) t(1) mult_right_mono [OF q(1), of NANOS] by (simp add: NANOS_def)
  have "timestamp n + 1 \<le> ?q * int k + int k" using q(2) by simp
  from mult_right_mono [OF this, of NANOS] show "n < b + int k * NANOS" using b t(2) by (simp add: NANOS_def algebra_simps)
qed

lemma should_fire_iff:
  assumes "parse_duration_secs dur = Inr k" "lst \<le> n"
  shows "interval_should_fire dur (Some lst) n \<longleftrightarrow> lst + int k * NANOS \<le> n"
proof -
  have "int k \<le> (n - lst) div NANOS \<longleftrightarrow> int k * NANOS \<le> n - lst"
    using zdiv_mono1 [of "int k * NANOS" "n - lst" NANOS] mult_div_mod_eq [of NANOS "n - lst"] pos_mod_sign [of NANOS "n - lst"]
      mult_right_mono [of "int k" "(n - lst) div NANOS" NANOS]
    by (auto simp: NANOS_def)
  moreover have "k \<le> nat ((n - lst) div NANOS) \<longleftrightarrow> int k \<le> (n - lst) div NANOS" using assms(2) by (auto simp: le_nat_iff NANOS_def pos_imp_zdiv_nonneg_iff)
  ultimately show ?thesis using assms by (auto simp: interval_should_fire_def Let_def)
qed


text \<open>
  A restart shortens the interval: an interval workflow that ran at \<open>n1\<close> is due again for the same pod one
  interval later, but after a restart the anchor is the boundary of the bucket it was claimed for, so it
  runs again at the next boundary, for an instant of its own, less than one interval after \<open>n1\<close>.
\<close>

theorem restart_shortens_interval:
  assumes "parse_duration_secs dur = Inr k" "0 < k" "k < 2 ^ 63" "interval_fire_instant dur n1 = Some b"
    "b + int k * NANOS \<le> n2" "n2 < n1 + int k * NANOS" "interval_fire_instant dur n2 = Some b2"
  shows "\<not> fst (interval_prefilter_should_fire [((c, w), n1)] c w dur (Some n1) n2) \<and>
    fst (interval_prefilter_should_fire [] c w dur (Some b) n2) \<and> b2 \<noteq> b"
proof -
  note 1 = interval_bucket [OF assms(1-4)] and 2 = interval_bucket [OF assms(1-3,7)]
  have le: "n1 \<le> n2" "b \<le> n2" using 1 assms(5,6) by auto
  have "b2 \<noteq> b" using 2(3) assms(5) by auto
  then show ?thesis using assms(5,6) should_fire_iff [OF assms(1) le(1)] should_fire_iff [OF assms(1) le(2)]
    by (simp add: interval_prefilter_should_fire_def)
qed

lemma one_hour: "parse_duration_secs ''1h'' = Inr 3600"
proof -
  have "trim ''1h'' = ''1h''" "strip_suffix ''h'' ''1h'' = Some ''1''" "show_nat 1 = ''1''" by code_simp+
  then show ?thesis using parse_u64_show [of 1] by (simp add: parse_duration_secs_def checked_mul_def)
qed

theorem restart_shortens_interval_witness:
  "\<not> fst (interval_prefilter_should_fire [((''c'', ''w''), 5400 * NANOS)] ''c'' ''w'' ''1h'' (Some (5400 * NANOS)) (7200 * NANOS)) \<and>
   fst (interval_prefilter_should_fire [] ''c'' ''w'' ''1h'' (Some (3600 * NANOS)) (7200 * NANOS)) \<and> 7200 * NANOS \<noteq> 3600 * NANOS"
proof (rule restart_shortens_interval [OF one_hour])
  have "from_timestamp 3600 = Some (3600 * NANOS)" "from_timestamp 7200 = Some (7200 * NANOS)" by (simp_all add: from_timestamp_def)
  then show "interval_fire_instant ''1h'' (5400 * NANOS) = Some (3600 * NANOS)" "interval_fire_instant ''1h'' (7200 * NANOS) = Some (7200 * NANOS)"
    by (simp_all add: interval_fire_instant_def one_hour as_i64_secs_def timestamp_def div_euclid_def NANOS_def)
qed (simp_all add: NANOS_def)

text \<open>
  A new interval workflow starts: a pod that knows no earlier fire of it waits at its first tick and
  remembers that, and at the first tick one interval later it starts a run, when the owner has the
  authority, the claim is won and the run can be created.
\<close>

theorem interval_starts:
  assumes d: "en_read_def N (wr_definition row) = Inr def" "wd_enabled def" "wd_trigger def = Schedule None (Some dur)" "wr_channel_id row = Some ch"
    and k: "parse_duration_secs dur = Inr k" "0 < k" "n1 + int k * NANOS \<le> n2" "interval_fire_instant dur n2 = Some b"
    and fresh: "hm_get lf (wr_community_id row, wr_id row) = None"
    and ans: "answer (QLatestFire (wr_community_id row) (wr_id row)) = RTime None"
      "answer (QMemberRole (wr_community_id row) ch (wr_owner_pubkey row)) = RRole (Some role)"
      "owner_authority_allows (Some role) (requires_elevated_authority def)"
      "answer (QClaim (wr_community_id row) (wr_id row) b) = RClaim (Some cl)"
      "en_write_ctx N (scheduled_trigger ch n2) = Inr j" "answer (QCreateRun (wr_community_id row) (wr_id row) None (Some j)) = RText run_id"
  shows "\<exists>lf'. follow_end answer 1 (tick_workflow N n1 lf row) = Ret lf' \<and>
    (QSpawn (wr_community_id row) run_id def (scheduled_trigger ch n2), answer (QSpawn (wr_community_id row) run_id def (scheduled_trigger ch n2)))
      \<in> set (follow answer 5 (tick_workflow N n2 lf' row))"
proof -
  let ?c = "wr_community_id row" and ?w = "wr_id row"
  have n: "\<not> interval_should_fire dur None n1" using k(1,2) by (simp add: interval_should_fire_def)
  have y: "interval_should_fire dur (Some n1) n2" using should_fire_iff [OF k(1), of n1 n2] k(3) mult_nonneg_nonneg [of "int k" NANOS] by (simp add: NANOS_def)
  have "follow_end answer 1 (tick_workflow N n1 lf row) = Ret (hm_insert (?c, ?w) n1 lf)"
    using d fresh ans(1) n by (simp add: tick_workflow_def Let_def interval_anchor_def ask_def db_time_def interval_prefilter_should_fire_def)
  moreover have "hm_get (hm_insert (?c, ?w) n1 lf) (?c, ?w) = Some n1" by (simp add: update_Some_unfold)
  ultimately show ?thesis using d y k(4) ans
    by (auto simp: tick_workflow_def interval_anchor_def ask_def interval_prefilter_should_fire_def fire_scheduled_def Let_def
        check_owner_authority_def db_role_def db_claim_def db_id_def numeral_eq_Suc)
qed


definition hourly_en :: "(string \<Rightarrow> eval_value option, unit) engine_env" where
  "hourly_en = sample_en\<lparr>en_read_def := (\<lambda>_. Inr (sched_def\<lparr>wd_trigger := Schedule None (Some ''1h'')\<rparr>))\<rparr>"

definition hourly_answer :: "request \<Rightarrow> reply" where
  "hourly_answer q = (case q of QLatestFire _ _ \<Rightarrow> RTime None | _ \<Rightarrow> wfs_answer 0 q)"

theorem interval_starts_witness:
  "\<exists>lf'. follow_end hourly_answer 1 (tick_workflow hourly_en 0 [] wfs_wf) = Ret lf' \<and>
    (\<exists>def. (QSpawn ''c'' ''r'' def (scheduled_trigger ''x'' (3600 * NANOS)), RUnit) \<in> set (follow hourly_answer 5 (tick_workflow hourly_en (3600 * NANOS) lf' wfs_wf)))"
proof -
  let ?def = "sched_def\<lparr>wd_trigger := Schedule None (Some ''1h'')\<rparr>"
  have i: "interval_fire_instant ''1h'' (3600 * NANOS) = Some (3600 * NANOS)"
    by (simp add: interval_fire_instant_def one_hour as_i64_secs_def timestamp_def div_euclid_def from_timestamp_def NANOS_def)
  have w: "wr_community_id wfs_wf = ''c''" "wr_id wfs_wf = ''w''" "wr_channel_id wfs_wf = Some ''x''" by (simp_all add: wfs_wf_def new_workflow_def)
  have "\<exists>lf'. follow_end hourly_answer 1 (tick_workflow hourly_en 0 [] wfs_wf) = Ret lf' \<and>
    (QSpawn (wr_community_id wfs_wf) ''r'' ?def (scheduled_trigger ''x'' (3600 * NANOS)),
      hourly_answer (QSpawn (wr_community_id wfs_wf) ''r'' ?def (scheduled_trigger ''x'' (3600 * NANOS))))
      \<in> set (follow hourly_answer 5 (tick_workflow hourly_en (3600 * NANOS) lf' wfs_wf))"
    by (rule interval_starts [OF _ _ _ w(3) one_hour _ _ i])
      (simp_all add: hourly_en_def hourly_answer_def wfs_answer_def sample_en_def sched_def_def sample_def_def w NANOS_def
        owner_authority_allows_def requires_elevated_authority_def)
  then show ?thesis by (auto simp: w hourly_answer_def wfs_answer_def)
qed

text \<open>A read of the anchor that fails is not repeated: the pod counts from the failure on.\<close>

lemma failed_anchor_lasts:
  assumes "en_read_def N (wr_definition row) = Inr def" "wd_enabled def" "wd_trigger def = Schedule None (Some dur)" "wr_channel_id row = Some ch"
    "parse_duration_secs dur = Inr k" "0 < k" "hm_get lf (wr_community_id row, wr_id row) = None"
    "answer (QLatestFire (wr_community_id row) (wr_id row)) = RDbError e" "n1 \<le> n2" "n2 < n1 + int k * NANOS"
  shows "\<exists>lf'. follow_end answer 1 (tick_workflow N n1 lf row) = Ret lf' \<and> tick_workflow N n2 lf' row = Ret lf'"
proof -
  have n: "\<not> interval_should_fire dur None n1" using assms(5,6) by (simp add: interval_should_fire_def)
  have "follow_end answer 1 (tick_workflow N n1 lf row) = Ret (hm_insert (wr_community_id row, wr_id row) n1 lf)"
    using assms n by (simp add: tick_workflow_def Let_def interval_anchor_def ask_def db_time_def interval_prefilter_should_fire_def)
  moreover have "\<not> interval_should_fire dur (Some n1) n2" using should_fire_iff [OF assms(5,9)] assms(10) by simp
  ultimately show ?thesis using assms
    by (simp add: tick_workflow_def interval_anchor_def interval_prefilter_should_fire_def update_Some_unfold)
qed

end
