(* ===== verification/Workflow_Doors.thy ===== *)
theory Workflow_Doors
  imports Workflow_Engine
begin

text \<open>
  The two other ways a run comes about: the owner's manual trigger
  (\<open>handle_workflow_trigger\<close> in \<open>crates/buzz-relay/src/handlers/command_executor.rs\<close>) and the webhook
  endpoint (\<open>workflow_webhook\<close> in \<open>crates/buzz-relay/src/api/bridge.rs\<close>, with
  \<open>crates/buzz-relay/src/webhook_secret.rs\<close>), as programs over the requests of \<open>Workflow_Prog\<close>.
  Both look the workflow up by its id in the caller's community and check the row's lifecycle state
  and the owner's present authority; the definition's own \<open>enabled\<close> flag, which the event handler and
  the scheduler ask for, is not looked at. The theory ends with the property of all four ways.
\<close>

subsection \<open>Environment\<close>

text \<open>The \<open>uuid\<close> and \<open>serde_json\<close> crates: reading a UUID, reading JSON, and the text of a JSON value.\<close>

record door_env =
  dx_parse_uuid :: "string \<Rightarrow> uuid option"
  dx_read_json :: "string \<Rightarrow> (json, string) rust_result"
  dx_json_text :: "json \<Rightarrow> string"

datatype IngestError = Rejected string | AuthFailed string | IngestInternal string

record IngestResult =
  ig_event_id :: hex
  ig_accepted :: bool
  ig_message :: string

subsection \<open>Webhook secrets\<close>

definition SECRET_KEY :: string where "SECRET_KEY = ''_webhook_secret''"

definition inject_secret :: "json \<Rightarrow> string \<Rightarrow> json" where
  "inject_secret def secret =
     (case def of JObject ms \<Rightarrow> JObject (hm_insert SECRET_KEY (JString secret) ms) | _ \<Rightarrow> def)"

definition extract_secret :: "json \<Rightarrow> string option" where
  "extract_secret def =
     (case def of
        JObject ms \<Rightarrow> (case hm_get ms SECRET_KEY of Some (JString s) \<Rightarrow> Some s | _ \<Rightarrow> None)
      | _ \<Rightarrow> None)"

definition strip_secret :: "json \<Rightarrow> json" where
  "strip_secret def =
     (case def of JObject ms \<Rightarrow> JObject (filter (\<lambda>(k, v). k \<noteq> SECRET_KEY) ms) | _ \<Rightarrow> def)"

definition verify_secret :: "string \<Rightarrow> string \<Rightarrow> bool" where
  "verify_secret provided stored =
     (if length provided \<noteq> length stored then False
      else fold (\<lambda>(a, b) result. or result (xor a b)) (zip (bytes_of provided) (bytes_of stored)) (0 :: u8) = 0)"

subsection \<open>The trigger context\<close>

definition extract_tag :: "string \<Rightarrow> nostr_event \<Rightarrow> string option" where
  "extract_tag name event =
     (case List.map_filter (\<lambda>t. if tag_kind t = name then tag_content t else None) (ev_tags event) of
        [] \<Rightarrow> None
      | v # _ \<Rightarrow> Some v)"

definition field_text :: "door_env \<Rightarrow> json \<Rightarrow> string" where
  "field_text D v = (case v of JString s \<Rightarrow> s | other \<Rightarrow> dx_json_text D other)"

definition insert_fields :: "door_env \<Rightarrow> (string \<times> json) list \<Rightarrow> TriggerContext \<Rightarrow> TriggerContext" where
  "insert_fields D ms ctx =
     ctx\<lparr>tg_webhook_fields := fold (\<lambda>(k, v). hm_insert k (field_text D v)) ms (tg_webhook_fields ctx)\<rparr>"

definition channel_text :: "uuid option \<Rightarrow> string" where
  "channel_text ch = (case ch of Some c \<Rightarrow> c | None \<Rightarrow> [])"

definition to_value_ok :: "('x, 'c) engine_env \<Rightarrow> TriggerContext \<Rightarrow> json option" where
  "to_value_ok N ctx = (case en_write_ctx N ctx of Inr j \<Rightarrow> Some j | Inl _ \<Rightarrow> None)"

text \<open>The task both handlers spawn; the definition it reads again is the one that was read.\<close>

definition door_task :: "('x, 'c) engine_env \<Rightarrow> CommunityId \<Rightarrow> uuid \<Rightarrow> WorkflowDef \<Rightarrow> TriggerContext \<Rightarrow> unit prog" where
  "door_task N community_id run_id def ctx =
     bind_prog (execute_from_step (en_exec N) community_id run_id def ctx 0 None)
       (\<lambda>result. finalize_run community_id run_id result None)"

subsection \<open>The manual trigger\<close>

text \<open>\<open>persist_command_event\<close>: the event was inserted, was there, or could not be stored.\<close>

definition persisted :: "reply \<Rightarrow> (bool, IngestError) rust_result" where
  "persisted r = (case r of RBool b \<Rightarrow> Inr b | RError e \<Rightarrow> Inl (Rejected e) | RDbError e \<Rightarrow> Inl (IngestInternal (DbError_text e))
     | _ \<Rightarrow> Inl (IngestInternal []))"

definition manual_context :: "door_env \<Rightarrow> WorkflowRecord \<Rightarrow> bytes \<Rightarrow> string \<Rightarrow> TriggerContext" where
  "manual_context D workflow self_bytes content =
     (let trigger_ctx = empty_trigger\<lparr>tg_channel_id := channel_text (wr_channel_id workflow), tg_author := hex_write self_bytes\<rparr>
      in if content = [] then trigger_ctx
         else (case dx_read_json D content of Inr (JObject ms) \<Rightarrow> insert_fields D ms trigger_ctx | _ \<Rightarrow> trigger_ctx))"

definition handle_workflow_trigger ::
    "('x, 'c) engine_env \<Rightarrow> door_env \<Rightarrow> CommunityId \<Rightarrow> nostr_event \<Rightarrow> bytes \<Rightarrow> (IngestResult, IngestError) rust_result prog" where
  "handle_workflow_trigger N D community_id event self_bytes =
     (case (case extract_tag ''d'' event of Some v \<Rightarrow> Some v | None \<Rightarrow> extract_tag ''e'' event) of
        None \<Rightarrow> Ret (Inl (Rejected ''invalid: missing workflow reference (d or e tag)''))
      | Some workflow_id_str \<Rightarrow>
     (case dx_parse_uuid D workflow_id_str of
        None \<Rightarrow> Ret (Inl (Rejected ''invalid: bad workflow_id format''))
      | Some workflow_id \<Rightarrow>
     bind_prog (ask (QGetWorkflow community_id workflow_id)) (\<lambda>r. case db_workflow r of
        Inl _ \<Rightarrow> Ret (Inl (Rejected ''invalid: workflow not found''))
      | Inr workflow \<Rightarrow>
        if wr_owner_pubkey workflow \<noteq> self_bytes
        then Ret (Inl (Rejected ''forbidden: not authorized to trigger this workflow''))
        else if \<not> wr_enabled workflow \<or> wr_status workflow \<noteq> WfActive
        then Ret (Inl (Rejected ''forbidden: workflow is disabled or inactive''))
        else (case en_read_def N (wr_definition workflow) of
           Inl e \<Rightarrow> Ret (Inl (IngestInternal (''error: corrupt workflow definition: '' @ e)))
         | Inr def \<Rightarrow>
        (case wr_channel_id workflow of
           None \<Rightarrow> Ret (Inl (Rejected ''forbidden: workflow has no channel scope''))
         | Some wf_channel_id \<Rightarrow>
        bind_prog (check_owner_authority community_id wf_channel_id (wr_owner_pubkey workflow) def) (\<lambda>a. case a of
           Inl _ \<Rightarrow> Ret (Inl (Rejected ''forbidden: not authorized to trigger this workflow''))
         | Inr _ \<Rightarrow>
        bind_prog (ask (QPersist community_id (ev_id event) (wr_channel_id workflow))) (\<lambda>r. case persisted r of
           Inl e \<Rightarrow> Ret (Inl e)
         | Inr False \<Rightarrow> Ret (Inr \<lparr>ig_event_id = ev_id event, ig_accepted = True, ig_message = ''duplicate: already processed''\<rparr>)
         | Inr True \<Rightarrow>
        (let trigger_ctx = manual_context D workflow self_bytes (ev_content event) in
        bind_prog (ask (QCreateRun community_id workflow_id (Some (ev_id event)) (to_value_ok N trigger_ctx))) (\<lambda>r. case db_id r of
           Inl e \<Rightarrow> Ret (Inl (IngestInternal (''error: db create_workflow_run: '' @ DbError_text e)))
         | Inr run_id \<Rightarrow>
        bind_prog (ask QCommit) (\<lambda>r. case db_unit r of
           Inl e \<Rightarrow> Ret (Inl (IngestInternal (''error: commit transaction: '' @ DbError_text e)))
         | Inr _ \<Rightarrow>
        bind_prog (ask (QSpawn community_id run_id def trigger_ctx)) (\<lambda>_.
          Ret (Inr \<lparr>ig_event_id = ev_id event, ig_accepted = True,
            ig_message = ''response:'' @ dx_json_text D (JObject [(''run_id'', JString run_id)])\<rparr>))))))))))))"

subsection \<open>The webhook\<close>

record hook_request =
  hk_id :: string
  hk_query_secret :: "string option"
  hk_headers :: "string \<Rightarrow> string option"
  hk_body :: string

definition provided_secret :: "hook_request \<Rightarrow> string" where
  "provided_secret q =
     (case hk_headers q ''x-webhook-secret'' of
        Some s \<Rightarrow> s
      | None \<Rightarrow> (case hk_query_secret q of Some s \<Rightarrow> s | None \<Rightarrow> []))"

definition hook_context :: "door_env \<Rightarrow> WorkflowRecord \<Rightarrow> json option \<Rightarrow> TriggerContext" where
  "hook_context D workflow body_json =
     (let trigger_ctx = empty_trigger\<lparr>tg_channel_id := channel_text (wr_channel_id workflow)\<rparr>
      in case body_json of Some (JObject ms) \<Rightarrow> insert_fields D ms trigger_ctx | _ \<Rightarrow> trigger_ctx)"

text \<open>The body of the handler once the community is bound, and the handler.\<close>

definition webhook_in ::
    "('x, 'c) engine_env \<Rightarrow> door_env \<Rightarrow> CommunityId \<Rightarrow> uuid \<Rightarrow> hook_request \<Rightarrow> (nat \<times> json, nat \<times> string) rust_result prog" where
  "webhook_in N D community_id wid q =
     bind_prog (ask (QGetWorkflow community_id wid)) (\<lambda>r. case db_workflow r of
        Inl _ \<Rightarrow> Ret (Inl (404, ''workflow not found''))
      | Inr workflow \<Rightarrow>
     (case en_read_def N (wr_definition workflow) of
        Inl e \<Rightarrow> Ret (Inl (500, ''internal server error''))
      | Inr def \<Rightarrow>
        if wd_trigger def \<noteq> Webhook then Ret (Inl (400, ''workflow does not have a webhook trigger''))
        else (case extract_secret (wr_definition workflow) of
           None \<Rightarrow> Ret (Inl (401, ''webhook secret required but not configured '' @ [CHR 0xE2, CHR 0x80, CHR 0x94] @ '' re-save the workflow to generate one''))
         | Some secret \<Rightarrow>
        if \<not> verify_secret (provided_secret q) secret then Ret (Inl (401, ''authentication failed''))
        else (case (if hk_body q = [] then Inr None else map_sum id Some (dx_read_json D (hk_body q))) of
           Inl e \<Rightarrow> Ret (Inl (400, ''invalid JSON body: '' @ e))
         | Inr body_json \<Rightarrow>
        (let trigger_ctx = hook_context D workflow body_json in
        if \<not> wr_enabled workflow \<or> wr_status workflow \<noteq> WfActive then Ret (Inl (404, ''workflow not found''))
        else (case wr_channel_id workflow of
           None \<Rightarrow> Ret (Inl (404, ''workflow not found''))
         | Some wf_channel_id \<Rightarrow>
        bind_prog (check_owner_authority community_id wf_channel_id (wr_owner_pubkey workflow) def) (\<lambda>a. case a of
           Inl _ \<Rightarrow> Ret (Inl (404, ''workflow not found''))
         | Inr _ \<Rightarrow>
        bind_prog (ask (QCreateRun community_id wid None (to_value_ok N trigger_ctx))) (\<lambda>r. case db_id r of
           Inl e \<Rightarrow> Ret (Inl (500, ''internal server error''))
         | Inr run_id \<Rightarrow>
        bind_prog (ask (QSpawn community_id run_id def trigger_ctx)) (\<lambda>_.
          Ret (Inr (202, JObject [(''run_id'', JString run_id), (''workflow_id'', JString wid), (''status'', JString ''pending'')])))))))))))"

definition workflow_webhook ::
    "('x, 'c) engine_env \<Rightarrow> door_env \<Rightarrow> 'e resolver \<Rightarrow> hook_request \<Rightarrow> (nat \<times> json, nat \<times> string) rust_result prog" where
  "workflow_webhook N D resolve_host q =
     (case dx_parse_uuid D (hk_id q) of
        None \<Rightarrow> Ret (Inl (400, ''invalid workflow UUID''))
      | Some wid \<Rightarrow>
         (case bind_community resolve_host (case hk_headers q ''host'' of Some h \<Rightarrow> h | None \<Rightarrow> []) of
            Inl _ \<Rightarrow> Ret (Inl (404, ''workflow not found''))
          | Inr tenant \<Rightarrow> webhook_in N D (tc_community tenant) wid q))"

subsection \<open>Secrets\<close>

lemma xor_zero_iff: "xor a b = 0 \<longleftrightarrow> a = (b :: u8)"
  by (metis bit.xor_self xor.assoc xor.left_neutral xor.right_neutral)

lemma xor_fold:
  "fold (\<lambda>(a, b) result. or result (xor a b)) zs acc = 0 \<longleftrightarrow> acc = 0 \<and> (\<forall>(a, b) \<in> set zs. a = (b :: u8))"
  by (induction zs arbitrary: acc) (auto simp: or_eq_0_iff xor_zero_iff)

lemma zip_all_eq: "length xs = length ys \<Longrightarrow> (\<forall>(a, b) \<in> set (zip xs ys). a = b) \<longleftrightarrow> xs = ys"
  by (induction xs ys rule: list_induct2) auto

lemma verify_secret_iff: "verify_secret provided stored \<longleftrightarrow> provided = stored"
proof -
  have "inj (\<lambda>c :: char. of_nat (of_char c) :: u8)"
  proof (rule injI)
    fix c d :: char
    assume "(of_nat (of_char c) :: u8) = of_nat (of_char d)"
    then have "unat (of_nat (of_char c) :: u8) = unat (of_nat (of_char d) :: u8)" by simp
    then have "(of_char c :: nat) = of_char d"
      using nat_of_char_less_256 [of c] nat_of_char_less_256 [of d] by (simp add: unat_of_nat)
    then show "c = d" by simp
  qed
  then show ?thesis by (auto simp: verify_secret_def xor_fold zip_all_eq bytes_of_def inj_map_eq_map)
qed

text \<open>
  A webhook secret that was injected is found again, compared as text, and is gone from what is shown.
\<close>

lemma secret_roundtrip:
  "extract_secret (inject_secret (JObject ms) s) = Some s \<and> extract_secret (strip_secret (JObject ms)) = None"
  by (simp add: extract_secret_def inject_secret_def strip_secret_def hm_get_None_iff
      split: option.split json.split) (auto dest: map_of_SomeD)

subsection \<open>All four ways to a run\<close>

datatype 'e door =
    OnEvent CommunityId StoredEvent
  | Tick datetime fired_map
  | Manual door_env CommunityId nostr_event bytes
  | Hook door_env "'e resolver" hook_request

primrec door_prog :: "('x, 'c) engine_env \<Rightarrow> 'e door \<Rightarrow> unit prog" where
  "door_prog N (OnEvent c event) = bind_prog (on_event N c event) (\<lambda>_. Ret ())"
| "door_prog N (Tick now lf) = bind_prog (run_tick N now lf) (\<lambda>_. Ret ())"
| "door_prog N (Manual D c event pk) = bind_prog (handle_workflow_trigger N D c event pk) (\<lambda>_. Ret ())"
| "door_prog N (Hook D resolve_host q) = bind_prog (workflow_webhook N D resolve_host q) (\<lambda>_. Ret ())"

text \<open>Whom a workflow that was looked up is open to.\<close>

primrec caller_ok :: "'e door \<Rightarrow> WorkflowRecord \<Rightarrow> WorkflowDef \<Rightarrow> bool" where
  "caller_ok (OnEvent c event) = (\<lambda>row def. False)"
| "caller_ok (Tick now lf) = (\<lambda>row def. False)"
| "caller_ok (Manual D c event pk) = (\<lambda>row def. wr_owner_pubkey row = pk)"
| "caller_ok (Hook D resolve_host q) =
     (\<lambda>row def. wd_trigger def = Webhook \<and> extract_secret (wr_definition row) = Some (provided_secret q))"

lemma wp_webhook_in:
  "wp (auth_ok N (caller_ok (Hook D res q))) auth_upd (webhook_in N D c wid q) (\<lambda>_ _. True) m"
  by (auto simp: webhook_in_def ask_def auth_ok_def auth_upd_def shown_def verify_secret_iff Let_def db_id_def
      split: sum.split option.split reply.split intro!: auth_check)

lemma wp_workflow_webhook:
  "wp (auth_ok N (caller_ok (Hook D res q))) auth_upd (workflow_webhook N D res q) (\<lambda>_ _. True) m"
  by (auto simp: workflow_webhook_def wp_webhook_in simp del: caller_ok.simps split: option.split sum.split)

lemma wp_manual:
  "wp (auth_ok N (caller_ok (Manual D c event pk))) auth_upd (handle_workflow_trigger N D c event pk) (\<lambda>_ _. True) m"
  by (auto simp: handle_workflow_trigger_def ask_def auth_ok_def auth_upd_def shown_def Let_def db_id_def
      split: sum.split option.split reply.split bool.split intro!: auth_check)

lemma wp_door: "wp (auth_ok N (caller_ok d)) auth_upd (door_prog N d) (\<lambda>_ _. True) m"
proof (cases d)
  case (OnEvent c event)
  then show ?thesis by (simp add: wp_on_event del: caller_ok.simps)
next
  case (Tick now lf)
  then show ?thesis by (simp add: wp_run_tick del: caller_ok.simps)
next
  case (Manual D c event pk)
  then show ?thesis by (simp add: wp_manual del: caller_ok.simps)
next
  case (Hook D res q)
  then show ?thesis by (simp add: wp_workflow_webhook del: caller_ok.simps)
qed

text \<open>
  C22. No run without present authority, through any of the four ways a run is created: the handler of
  stored events, the scheduler, the manual trigger and the webhook. On every path of them a run is
  created only for a workflow that the pod was shown for this community, with a definition it could
  read, after it was told for this run that the owner now is a member of the workflow's channel, as
  owner or administrator if the definition calls webhooks. The event handler and the scheduler take
  the workflow from a list and only if its definition is enabled; the manual trigger and the webhook
  look it up by its id and only if its row is enabled and active, and the manual trigger only for
  its owner, the webhook only for a webhook workflow and a caller that presents its secret. The
  task that is started executes exactly that definition in the run that was created for it. A role
  that cannot be read allows nothing.
\<close>

theorem runs_need_authority:
  assumes "path (door_prog N d) (tr @ (q, r) # us) p"
  shows "case q of
      QCreateRun c w e j \<Rightarrow> (\<exists>def. entitled N (caller_ok d) (seen auth_upd no_authority tr) (au_role (seen auth_upd no_authority tr)) c w def)
    | QSpawn c i def ctx \<Rightarrow> (\<exists>w told. au_run (seen auth_upd no_authority tr) = Some (c, w, i, told) \<and>
        entitled N (caller_ok d) (seen auth_upd no_authority tr) told c w def)
    | _ \<Rightarrow> True"
proof -
  have "auth_ok N (caller_ok d) (seen auth_upd no_authority tr) q"
    using assms monitor_path [OF wp_door] by blast
  then show ?thesis by (simp add: auth_ok_def)
qed

subsection \<open>A sample door\<close>

definition sample_door :: door_env where
  "sample_door = \<lparr>dx_parse_uuid = Some, dx_read_json = (\<lambda>_. Inl []), dx_json_text = (\<lambda>_. [])\<rparr>"

definition trigger_event :: nostr_event where
  "trigger_event = \<lparr>ev_id = ''e1'', ev_pubkey = ''p'', ev_created_at = 1, ev_kind = 0, ev_tags = [mk_tag ''d'' [''w'']], ev_content = []\<rparr>"

definition door_answer :: "request \<Rightarrow> reply" where
  "door_answer q =
     (case q of QGetWorkflow _ _ \<Rightarrow> RWorkflow wfs_wf | QMemberRole _ _ _ \<Rightarrow> RRole (Some ''member'') | QCreateRun _ _ _ _ \<Rightarrow> RText ''r''
      | QPersist _ _ _ \<Rightarrow> RBool True | _ \<Rightarrow> RUnit)"

definition sample_manual :: "unit door" where
  "sample_manual = Manual sample_door ''c'' trigger_event (wr_owner_pubkey wfs_wf)"

theorem runs_need_authority_witness:
  "\<exists>tr r us p' e j. path (door_prog sample_en sample_manual) (tr @ (QCreateRun ''c'' ''w'' e j, r) # us) p' \<and>
     (\<exists>def. entitled sample_en (caller_ok sample_manual) (seen auth_upd no_authority tr) (au_role (seen auth_upd no_authority tr)) ''c'' ''w'' def)"
proof -
  let ?q = "QCreateRun ''c'' ''w'' (Some ''e1'') (Some JNull)"
  have "(?q, RText ''r'') \<in> set (follow door_answer (Suc (Suc (Suc (Suc 0)))) (door_prog sample_en sample_manual))"
    by (simp add: sample_manual_def handle_workflow_trigger_def extract_tag_def trigger_event_def sample_door_def door_answer_def
        persisted_def to_value_ok_def List.map_filter_def mk_tag_def wfs_tick_defs db_workflow_def)
  from path_follow_mem [OF this] obtain tr us p' where
    p: "path (door_prog sample_en sample_manual) (tr @ (?q, RText ''r'') # us) p'" by blast
  then show ?thesis using runs_need_authority [OF p] by fastforce
qed

end
