(* ===== verification/Pair_Relay.thy ===== *)
theory Pair_Relay
  imports Pairing_Run Auth_Events Workflow_Template
begin

text \<open>
  The relay that carries the messages of device pairing (\<open>crates/buzz-pair-relay/src/lib.rs\<close>). The shared
  state, the channels to the writers and the connections are explicit. A frame is handled in the
  pieces between which other connections can run: everything up to the reservation of an event id, the
  delivery, and the release of the id. Time is nanoseconds of the monotonic clock; JSON, SHA-256 and
  the signature scheme are fields of the record \<open>pair_env\<close>.
\<close>

subsection \<open>Constants and shared state\<close>

definition CONN_TIMEOUT :: duration where "CONN_TIMEOUT = 120 * 10 ^ 9"
definition MAX_CONNS :: nat where "MAX_CONNS = 128"
definition CHANNEL_CAP :: nat where "CHANNEL_CAP = 4"
definition KIND_PAIR :: nat where "KIND_PAIR = 24134"
definition MAX_FRAME :: nat where "MAX_FRAME = 4096"
definition RATE_WINDOW :: duration where "RATE_WINDOW = 10 * 10 ^ 9"
definition RATE_MSG_MAX :: nat where "RATE_MSG_MAX = 20"
definition RATE_EVENT_MAX :: nat where "RATE_EVENT_MAX = 10"
definition SUB_ID_MAX :: nat where "SUB_ID_MAX = 64"
definition MAX_EVENTS_PER_CONN :: nat where "MAX_EVENTS_PER_CONN = 6"
definition MAX_DELIVERED_PER_P :: nat where "MAX_DELIVERED_PER_P = 12"
definition DEDUP_CAP :: nat where "DEDUP_CAP = 1024"
definition DELIVERED_MAP_CAP :: nat where "DELIVERED_MAP_CAP = 4096"
definition ENTRY_TTL :: duration where "ENTRY_TTL = 300 * 10 ^ 9"
definition FRESHNESS_SECS :: int where "FRESHNESS_SECS = 120"

datatype OutMsg = OutText string | OutPong string | OutClose

record Sub =
  sb_conn_id :: nat
  sb_sub_id :: string
  sb_p_value :: bytes

record Relay =
  rl_subs :: "Sub list"
  rl_conn_count :: nat
  rl_next_conn_id :: nat
  rl_seen_ids :: "(bytes \<times> instant) list"
  rl_delivered :: "(bytes, nat \<times> instant) hmap"

definition Relay_new :: Relay where
  "Relay_new = \<lparr>rl_subs = [], rl_conn_count = 0, rl_next_conn_id = 0, rl_seen_ids = [], rl_delivered = []\<rparr>"

record pair_env =
  px_parse :: "string \<Rightarrow> json option"
  px_show :: "json \<Rightarrow> string"
  px_to_string :: "json \<Rightarrow> string option"
  px_sha256 :: "string \<Rightarrow> bytes"
  px_xonly :: "bytes \<Rightarrow> bool"
  px_schnorr :: "bytes \<Rightarrow> bytes \<Rightarrow> bytes \<Rightarrow> bool"

text \<open>The channel to the writer of a connection: what is queued, and whether the writer still reads.\<close>

record chan =
  ch_queue :: "OutMsg list"
  ch_open :: bool

type_synonym chans = "nat \<Rightarrow> chan"

definition try_send :: "chans \<Rightarrow> nat \<Rightarrow> OutMsg \<Rightarrow> bool \<times> chans" where
  "try_send cs i msg =
     (if ch_open (cs i) \<and> length (ch_queue (cs i)) < CHANNEL_CAP
      then (True, cs(i := (cs i)\<lparr>ch_queue := ch_queue (cs i) @ [msg]\<rparr>))
      else (False, cs))"

subsection \<open>Operations of the relay\<close>

definition fresh_entries :: "instant \<Rightarrow> (bytes \<times> instant) list \<Rightarrow> (bytes \<times> instant) list" where
  "fresh_entries now es = filter (\<lambda>(_, ts). now - ts < ENTRY_TTL) es"

definition reserve_id :: "instant \<Rightarrow> Relay \<Rightarrow> bytes \<Rightarrow> (bool, unit) rust_result \<times> Relay" where
  "reserve_id now self i =
     (let vec = fresh_entries now (rl_seen_ids self) in
      if list_ex (\<lambda>(eid, _). eid = i) vec then (Inr True, self\<lparr>rl_seen_ids := vec\<rparr>)
      else if length vec \<ge> DEDUP_CAP then (Inl (), self\<lparr>rl_seen_ids := vec\<rparr>)
      else (Inr False, self\<lparr>rl_seen_ids := vec @ [(i, now)]\<rparr>))"

fun position :: "('a \<Rightarrow> bool) \<Rightarrow> 'a list \<Rightarrow> nat option" where
  "position P [] = None"
| "position P (x # xs) = (if P x then Some 0 else map_option Suc (position P xs))"

definition swap_remove :: "'a list \<Rightarrow> nat \<Rightarrow> 'a list" where
  "swap_remove xs pos = butlast (xs[pos := last xs])"

definition unreserve_id :: "Relay \<Rightarrow> bytes \<Rightarrow> Relay" where
  "unreserve_id self i =
     (case position (\<lambda>(eid, _). eid = i) (rl_seen_ids self) of
        Some pos \<Rightarrow> self\<lparr>rl_seen_ids := swap_remove (rl_seen_ids self) pos\<rparr>
      | None \<Rightarrow> self)"

definition fresh_counts :: "instant \<Rightarrow> (bytes, nat \<times> instant) hmap \<Rightarrow> (bytes, nat \<times> instant) hmap" where
  "fresh_counts now m = filter (\<lambda>(_, (_, ts)). now - ts < ENTRY_TTL) m"

definition deliver_single ::
    "pair_env \<Rightarrow> instant \<Rightarrow> Relay \<Rightarrow> chans \<Rightarrow> bytes \<Rightarrow> json \<Rightarrow> (bool, string) rust_result \<times> Relay \<times> chans" where
  "deliver_single X now self cs p_value event =
     (case filter (\<lambda>s. sb_p_value s = p_value) (rl_subs self) of
        [] \<Rightarrow> (Inl ''no live subscriber'', self, cs)
      | _ # _ # _ \<Rightarrow> (Inl ''ambiguous recipient'', self, cs)
      | [sub] \<Rightarrow>
          let delivered = fresh_counts now (rl_delivered self);
              count = (case hm_get delivered p_value of Some (c, _) \<Rightarrow> c | None \<Rightarrow> 0);
              self' = self\<lparr>rl_delivered := delivered\<rparr>
          in if count \<ge> MAX_DELIVERED_PER_P then (Inl ''recipient session budget exhausted'', self', cs)
             else if length delivered \<ge> DELIVERED_MAP_CAP \<and> hm_get delivered p_value = None
             then (Inl ''relay at capacity'', self', cs)
             else (case px_to_string X (JArray [JString ''EVENT'', JString (sb_sub_id sub), event]) of
                 None \<Rightarrow> (Inr False, self', cs)
               | Some text \<Rightarrow>
                  (case try_send cs (sb_conn_id sub) (OutText text) of
                     (True, cs') \<Rightarrow> (Inr True, self'\<lparr>rl_delivered := hm_insert p_value (count + 1, now) delivered\<rparr>, cs')
                   | (False, _) \<Rightarrow> (Inr False, self', cs))))"

definition remove_sub :: "Relay \<Rightarrow> nat \<Rightarrow> Relay" where
  "remove_sub self conn_id = self\<lparr>rl_subs := filter (\<lambda>s. sb_conn_id s \<noteq> conn_id) (rl_subs self)\<rparr>"

record RateWindow =
  rw_count :: nat
  rw_window_start :: instant

definition RateWindow_new :: "instant \<Rightarrow> RateWindow" where
  "RateWindow_new now = \<lparr>rw_count = 0, rw_window_start = now\<rparr>"

definition RateWindow_tick :: "instant \<Rightarrow> RateWindow \<Rightarrow> nat \<times> RateWindow" where
  "RateWindow_tick now self =
     (let w = (if now - rw_window_start self \<ge> RATE_WINDOW then \<lparr>rw_count = 0, rw_window_start = now\<rparr> else self)
      in (rw_count w + 1, w\<lparr>rw_count := rw_count w + 1\<rparr>))"

subsection \<open>Messages\<close>

definition jarr :: "pair_env \<Rightarrow> json list \<Rightarrow> string" where
  "jarr X v = px_show X (JArray v)"

definition make_ok :: "pair_env \<Rightarrow> string \<Rightarrow> bool \<Rightarrow> string \<Rightarrow> string" where
  "make_ok X i ok msg = jarr X [JString ''OK'', JString i, JBool ok, JString msg]"

definition make_closed :: "pair_env \<Rightarrow> string \<Rightarrow> string \<Rightarrow> string" where
  "make_closed X sub_id msg = jarr X [JString ''CLOSED'', JString sub_id, JString msg]"

definition make_eose :: "pair_env \<Rightarrow> string \<Rightarrow> string" where
  "make_eose X sub_id = jarr X [JString ''EOSE'', JString sub_id]"

definition make_notice :: "pair_env \<Rightarrow> string \<Rightarrow> string" where
  "make_notice X msg = jarr X [JString ''NOTICE'', JString msg]"

text \<open>\<open>as_str\<close>, \<open>as_array\<close>, \<open>as_object\<close>, \<open>as_u64\<close> and \<open>as_i64\<close> of a JSON value.\<close>

definition as_str :: "json \<Rightarrow> string option" where
  "as_str v = (case v of JString s \<Rightarrow> Some s | _ \<Rightarrow> None)"

definition as_array :: "json \<Rightarrow> json list option" where
  "as_array v = (case v of JArray a \<Rightarrow> Some a | _ \<Rightarrow> None)"

definition as_object :: "json \<Rightarrow> (string, json) hmap option" where
  "as_object v = (case v of JObject m \<Rightarrow> Some m | _ \<Rightarrow> None)"

definition as_u64 :: "json \<Rightarrow> nat option" where
  "as_u64 v = (case v of JNumber n \<Rightarrow> parse_uint (2 ^ 64) n | _ \<Rightarrow> None)"

definition as_i64 :: "json \<Rightarrow> int option" where
  "as_i64 v =
     (case v of
        JNumber (c # n) \<Rightarrow>
          if c = CHR ''-'' then (case parse_uint (2 ^ 63 + 1) n of Some m \<Rightarrow> if m = 0 then None else Some (- int m) | None \<Rightarrow> None)
          else map_option int (parse_uint (2 ^ 63) (c # n))
      | _ \<Rightarrow> None)"

definition is_lower_hex :: "string \<Rightarrow> nat \<Rightarrow> bool" where
  "is_lower_hex s len \<longleftrightarrow> length s = len \<and> list_all is_lowercase_hex s"

definition decode_hex32 :: "string \<Rightarrow> bytes option" where
  "decode_hex32 s = (if \<not> is_lower_hex s 64 then None else Some (hex_read s))"

definition decode_hex64 :: "string \<Rightarrow> bytes option" where
  "decode_hex64 s = (if \<not> is_lower_hex s 128 then None else Some (hex_read s))"

definition validate_filter :: "json \<Rightarrow> (bytes, string) rust_result" where
  "validate_filter v =
     and_then (ok_or ''filter must be an object'' (as_object v)) (\<lambda>obj.
     if \<not> list_all (\<lambda>(key, _). key = ''kinds'' \<or> key = ''#p'') obj then Inl ''unsupported filter field''
     else
     and_then (case hm_get obj ''kinds'' of
         None \<Rightarrow> Inr ()
       | Some kinds \<Rightarrow> and_then (ok_or ''kinds must be an array'' (as_array kinds)) (\<lambda>arr.
           if length arr \<noteq> 1 \<or> as_u64 (arr ! 0) \<noteq> Some KIND_PAIR then Inl ''kinds must be [24134]'' else Inr ())) (\<lambda>_.
     and_then (ok_or ''#p filter required'' (case hm_get obj ''#p'' of None \<Rightarrow> None | Some v \<Rightarrow> as_array v)) (\<lambda>p_arr.
     if length p_arr \<noteq> 1 then Inl ''#p must have exactly one value''
     else
     and_then (ok_or ''#p value must be a string'' (as_str (p_arr ! 0))) (\<lambda>p_str.
     ok_or ''#p value must be 64 lowercase hex chars'' (decode_hex32 p_str)))))"

text \<open>The scan of the base64 alphabet, and the value of a letter.\<close>

definition between :: "char \<Rightarrow> char \<Rightarrow> char \<Rightarrow> bool" where
  "between a c b \<longleftrightarrow> (of_char a :: nat) \<le> of_char c \<and> (of_char c :: nat) \<le> of_char b"

definition b64_val :: "char \<Rightarrow> u8 option" where
  "b64_val c =
     (if between CHR ''A'' c CHR ''Z'' then Some (of_nat (of_char c - 65))
      else if between CHR ''a'' c CHR ''z'' then Some (of_nat (of_char c - 97 + 26))
      else if between CHR ''0'' c CHR ''9'' then Some (of_nat (of_char c - 48 + 52))
      else if c = CHR ''+'' then Some 62
      else if c = CHR ''/'' then Some 63
      else None)"

fun scan_base64 :: "nat \<Rightarrow> nat \<Rightarrow> nat \<Rightarrow> string \<Rightarrow> (nat, string) rust_result" where
  "scan_base64 len i pad_count [] = Inr pad_count"
| "scan_base64 len i pad_count (b # bs) =
     (if between CHR ''A'' b CHR ''Z'' \<or> between CHR ''a'' b CHR ''z'' \<or> between CHR ''0'' b CHR ''9'' \<or> b = CHR ''+'' \<or> b = CHR ''/''
      then (if pad_count > 0 then Inl ''content is not valid base64'' else scan_base64 len (Suc i) pad_count bs)
      else if b = CHR ''=''
      then (if i < len - 2 then Inl ''content is not valid base64''
            else if pad_count + 1 > 2 then Inl ''content is not valid base64''
            else scan_base64 len (Suc i) (pad_count + 1) bs)
      else Inl ''content is not valid base64'')"

definition validate_nip44_content :: "string \<Rightarrow> (unit, string) rust_result" where
  "validate_nip44_content content =
     (let len = length content in
      if content = [] then Inl ''content must not be empty''
      else if len mod 4 \<noteq> 0 then Inl ''content is not valid base64''
      else
      and_then (scan_base64 len 0 0 content) (\<lambda>pad_count.
      if len div 4 * 3 - pad_count < 99 then Inl ''content too short for NIP-44 v2''
      else
      and_then (ok_or ''content is not valid base64'' (b64_val (content ! 0))) (\<lambda>v0.
      and_then (ok_or ''content is not valid base64'' (b64_val (content ! 1))) (\<lambda>v1.
      if or (push_bit 2 v0) (drop_bit 4 v1) \<noteq> 2 then Inl ''content is not NIP-44 v2 (expected 0x02 prefix)''
      else Inr ()))))"

definition ALLOWED_KEYS :: "string list" where
  "ALLOWED_KEYS = [''id'', ''pubkey'', ''created_at'', ''kind'', ''tags'', ''content'', ''sig'']"

definition get_str :: "(string, json) hmap \<Rightarrow> string \<Rightarrow> string option" where
  "get_str obj key = (case hm_get obj key of None \<Rightarrow> None | Some v \<Rightarrow> as_str v)"

definition validate_event :: "int \<Rightarrow> json \<Rightarrow> (string \<times> bytes \<times> bytes, string) rust_result" where
  "validate_event wall ev =
     and_then (ok_or ''event must be an object'' (as_object ev)) (\<lambda>obj.
     if \<not> list_all (\<lambda>(key, _). key \<in> set ALLOWED_KEYS) obj then Inl ''unknown top-level field''
     else
     and_then (ok_or ''missing id'' (get_str obj ''id'')) (\<lambda>i.
     if \<not> is_lower_hex i 64 then Inl ''id must be 64 lowercase hex chars''
     else
     and_then (ok_or ''id must be 64 lowercase hex chars'' (decode_hex32 i)) (\<lambda>id_bytes.
     and_then (ok_or ''missing pubkey'' (get_str obj ''pubkey'')) (\<lambda>pubkey.
     if \<not> is_lower_hex pubkey 64 then Inl ''pubkey must be 64 lowercase hex chars''
     else if (case hm_get obj ''kind'' of None \<Rightarrow> None | Some v \<Rightarrow> as_u64 v) \<noteq> Some KIND_PAIR then Inl ''kind must be 24134''
     else
     and_then (ok_or ''missing created_at'' (case hm_get obj ''created_at'' of None \<Rightarrow> None | Some v \<Rightarrow> as_i64 v)) (\<lambda>created_at.
     if \<bar>created_at - wall\<bar> > FRESHNESS_SECS then Inl ''created_at outside freshness window''
     else
     and_then (ok_or ''missing content'' (get_str obj ''content'')) (\<lambda>content.
     and_then (validate_nip44_content content) (\<lambda>_.
     and_then (ok_or ''missing sig'' (get_str obj ''sig'')) (\<lambda>sig.
     if \<not> is_lower_hex sig 128 then Inl ''sig must be 128 lowercase hex chars''
     else
     and_then (ok_or ''missing tags'' (case hm_get obj ''tags'' of None \<Rightarrow> None | Some v \<Rightarrow> as_array v)) (\<lambda>tags.
     if length tags \<noteq> 1 then Inl ''event must have exactly one p tag''
     else
     and_then (ok_or ''tag must be an array'' (as_array (tags ! 0))) (\<lambda>tag.
     if length tag \<noteq> 2 then Inl ''p tag must have exactly 2 elements''
     else if as_str (tag ! 0) \<noteq> Some ''p'' then Inl ''event must have exactly one p tag''
     else
     and_then (ok_or ''p tag value must be a string'' (as_str (tag ! 1))) (\<lambda>p_str.
     and_then (ok_or ''p tag value must be 64 lowercase hex chars'' (decode_hex32 p_str)) (\<lambda>p_bytes.
     Inr (i, id_bytes, p_bytes)))))))))))))"

definition safe_event_id :: "json \<Rightarrow> string" where
  "safe_event_id ev =
     (case as_object ev of
        None \<Rightarrow> []
      | Some obj \<Rightarrow> (case get_str obj ''id'' of Some s \<Rightarrow> if is_lower_hex s 64 then s else [] | None \<Rightarrow> []))"

text \<open>Decimal text of an \<open>i64\<close>.\<close>

definition show_i64 :: "int \<Rightarrow> string" where
  "show_i64 n = (if n < 0 then CHR ''-'' # show_nat (nat (- n)) else show_nat (nat n))"

definition verify_event_sig :: "pair_env \<Rightarrow> json \<Rightarrow> (unit, string) rust_result" where
  "verify_event_sig X ev =
     and_then (ok_or ''event must be an object'' (as_object ev)) (\<lambda>obj.
     and_then (ok_or ''missing pubkey'' (get_str obj ''pubkey'')) (\<lambda>pubkey_str.
     and_then (ok_or ''missing created_at'' (case hm_get obj ''created_at'' of None \<Rightarrow> None | Some v \<Rightarrow> as_i64 v)) (\<lambda>created_at.
     and_then (ok_or ''missing kind'' (case hm_get obj ''kind'' of None \<Rightarrow> None | Some v \<Rightarrow> as_u64 v)) (\<lambda>kind.
     and_then (ok_or ''missing tags'' (hm_get obj ''tags'')) (\<lambda>tags.
     and_then (ok_or ''missing content'' (get_str obj ''content'')) (\<lambda>content.
     and_then (ok_or ''missing id'' (get_str obj ''id'')) (\<lambda>id_str.
     and_then (ok_or ''missing sig'' (get_str obj ''sig'')) (\<lambda>sig_str.
     and_then (ok_or ''failed to serialize commitment'' (px_to_string X
       (JArray [JNumber ''0'', JString pubkey_str, JNumber (show_i64 created_at), JNumber (show_nat kind), tags, JString content]))) (\<lambda>commitment_json.
     and_then (ok_or ''id must be 64 lowercase hex chars'' (decode_hex32 id_str)) (\<lambda>id_bytes.
     if px_sha256 X commitment_json \<noteq> id_bytes then Inl ''invalid: event id mismatch''
     else
     and_then (ok_or ''pubkey must be 64 lowercase hex chars'' (decode_hex32 pubkey_str)) (\<lambda>pubkey_bytes.
     if \<not> px_xonly X pubkey_bytes then Inl ''invalid: bad pubkey''
     else
     and_then (ok_or ''sig must be 128 lowercase hex chars'' (decode_hex64 sig_str)) (\<lambda>sig_bytes.
     if \<not> px_schnorr X sig_bytes (px_sha256 X commitment_json) pubkey_bytes then Inl ''invalid: signature verification failed''
     else Inr ()))))))))))))"

subsection \<open>Connections\<close>

text \<open>
  Where the task of a connection is: before the upgrade, waiting for a frame, between the locks of an
  \<open>EVENT\<close> (with what it has reserved), past its loop, or past the removal of its subscription.
\<close>

datatype phase =
    Upgrading
  | Ready
  | Reserved string bytes bytes json
  | Releasing string bytes string
  | Breaking
  | Draining

record conn =
  cx_phase :: phase
  cx_msg_rate :: RateWindow
  cx_event_rate :: RateWindow
  cx_sub_id :: "string option"
  cx_events_attempted :: nat
  cx_deadline :: instant

definition conn_new :: "instant \<Rightarrow> conn" where
  "conn_new now = \<lparr>cx_phase = Ready, cx_msg_rate = RateWindow_new now, cx_event_rate = RateWindow_new now, cx_sub_id = None,
     cx_events_attempted = 0, cx_deadline = now + CONN_TIMEOUT\<rparr>"

datatype frame = FrBinary | FrPing string | FrPong | FrClose | FrText string | FrError

type_synonym conn_state = "Relay \<times> chans \<times> conn"

text \<open>\<open>let _ = tx.try_send(..)\<close>.\<close>

definition say :: "chans \<Rightarrow> nat \<Rightarrow> string \<Rightarrow> chans" where
  "say cs i text = snd (try_send cs i (OutText text))"

definition on_req :: "pair_env \<Rightarrow> nat \<Rightarrow> json list \<Rightarrow> conn_state \<Rightarrow> conn_state" where
  "on_req X i arr st =
     (case st of (r, cs, cn) \<Rightarrow>
      if length arr < 3 \<or> as_str (arr ! 1) = None then (r, say cs i (make_notice X ''error: invalid REQ''), cn)
      else let client_sub_id = the (as_str (arr ! 1)) in
      if length client_sub_id > SUB_ID_MAX then (r, say cs i (make_closed X [] ''error: sub_id too long''), cn)
      else if length arr > 3 then (r, say cs i (make_closed X client_sub_id ''error: multiple filters not supported''), cn)
      else if as_object (arr ! 2) = None then (r, say cs i (make_closed X client_sub_id ''error: invalid filter''), cn)
      else if cx_sub_id cn \<noteq> None then (r, say cs i (make_closed X client_sub_id ''error: already subscribed, send CLOSE first''), cn)
      else (case validate_filter (arr ! 2) of
          Inl reason \<Rightarrow> (r, say cs i (make_closed X client_sub_id (''error: '' @ reason)), cn)
        | Inr p_value \<Rightarrow>
            if list_ex (\<lambda>s. sb_p_value s = p_value) (rl_subs r)
            then (r, say cs i (make_closed X client_sub_id ''error: #p already has a live subscriber''), cn)
            else (case try_send cs i (OutText (make_eose X client_sub_id)) of
                (False, _) \<Rightarrow> (r, cs, cn\<lparr>cx_phase := Breaking\<rparr>)
              | (True, cs') \<Rightarrow>
                  (r\<lparr>rl_subs := rl_subs r @ [\<lparr>sb_conn_id = i, sb_sub_id = client_sub_id, sb_p_value = p_value\<rparr>]\<rparr>, cs',
                   cn\<lparr>cx_sub_id := Some client_sub_id\<rparr>))))"

text \<open>An \<open>EVENT\<close> up to the reservation of its id.\<close>

definition on_event_frame :: "pair_env \<Rightarrow> instant \<Rightarrow> int \<Rightarrow> nat \<Rightarrow> json list \<Rightarrow> conn_state \<Rightarrow> conn_state" where
  "on_event_frame X now wall i arr st =
     (case st of (r, cs, cn) \<Rightarrow>
      if length arr \<noteq> 2 then (r, say cs i (make_notice X ''error: invalid EVENT''), cn)
      else let (n, er) = RateWindow_tick now (cx_event_rate cn); cn1 = cn\<lparr>cx_event_rate := er\<rparr>; ev = arr ! 1 in
      if n > RATE_EVENT_MAX then (r, say cs i (make_ok X (safe_event_id ev) False ''rate-limited''), cn1)
      else if cx_events_attempted cn1 \<ge> MAX_EVENTS_PER_CONN
      then (r, say cs i (make_ok X (safe_event_id ev) False ''error: session event limit reached''), cn1)
      else if as_object ev = None then (r, say cs i (make_ok X [] False ''invalid: malformed event''), cn1)
      else (case validate_event wall ev of
          Inl reason \<Rightarrow> (r, say cs i (make_ok X (safe_event_id ev) False (''invalid: '' @ reason)), cn1)
        | Inr (event_id, id_bytes, p_value) \<Rightarrow>
           (case verify_event_sig X ev of
              Inl reason \<Rightarrow> (r, say cs i (make_ok X event_id False reason), cn1)
            | Inr _ \<Rightarrow>
                let cn2 = cn1\<lparr>cx_events_attempted := cx_events_attempted cn1 + 1\<rparr> in
                (case reserve_id now r id_bytes of
                   (Inr True, r') \<Rightarrow> (r', say cs i (make_ok X event_id False ''duplicate: already seen''), cn2)
                 | (Inl _, r') \<Rightarrow> (r', say cs i (make_ok X event_id False ''relay at capacity''), cn2)
                 | (Inr False, r') \<Rightarrow> (r', cs, cn2\<lparr>cx_phase := Reserved event_id id_bytes p_value ev\<rparr>)))))"

definition on_close :: "pair_env \<Rightarrow> nat \<Rightarrow> json list \<Rightarrow> conn_state \<Rightarrow> conn_state" where
  "on_close X i arr st =
     (case st of (r, cs, cn) \<Rightarrow>
      if length arr \<noteq> 2 then (r, say cs i (make_notice X ''error: invalid CLOSE''), cn)
      else (case as_str (arr ! 1) of
          None \<Rightarrow> (r, say cs i (make_notice X ''error: invalid CLOSE''), cn)
        | Some sid \<Rightarrow> if cx_sub_id cn = Some sid then (remove_sub r i, cs, cn\<lparr>cx_sub_id := None\<rparr>) else (r, cs, cn)))"

definition on_text :: "pair_env \<Rightarrow> instant \<Rightarrow> int \<Rightarrow> nat \<Rightarrow> string \<Rightarrow> conn_state \<Rightarrow> conn_state" where
  "on_text X now wall i text st =
     (case st of (r, cs, cn) \<Rightarrow>
      case px_parse X text of
        Some (JArray (v # vs)) \<Rightarrow>
          (case as_str v of
             None \<Rightarrow> (r, say cs i (make_notice X ''error: invalid message''), cn)
           | Some verb \<Rightarrow>
               if verb = ''REQ'' then on_req X i (v # vs) st
               else if verb = ''EVENT'' then on_event_frame X now wall i (v # vs) st
               else if verb = ''CLOSE'' then on_close X i (v # vs) st
               else (r, say cs i (make_notice X ''error: unsupported message''), cn))
      | _ \<Rightarrow> (r, say cs i (make_notice X ''error: invalid message''), cn))"

text \<open>One turn of the loop of \<open>handle_conn\<close> for a frame.\<close>

definition handle_frame :: "pair_env \<Rightarrow> instant \<Rightarrow> int \<Rightarrow> nat \<Rightarrow> frame \<Rightarrow> conn_state \<Rightarrow> conn_state" where
  "handle_frame X now wall i f st =
     (case st of (r, cs, cn) \<Rightarrow>
      let (n, mr) = RateWindow_tick now (cx_msg_rate cn); cn1 = cn\<lparr>cx_msg_rate := mr\<rparr>; leave = cn1\<lparr>cx_phase := Breaking\<rparr> in
      if n > RATE_MSG_MAX then (r, cs, leave)
      else (case f of
          FrError \<Rightarrow> (r, cs, leave)
        | FrBinary \<Rightarrow> (r, cs, leave)
        | FrPing d \<Rightarrow> (case try_send cs i (OutPong d) of (True, cs') \<Rightarrow> (r, cs', cn1) | (False, _) \<Rightarrow> (r, cs, leave))
        | FrPong \<Rightarrow> (r, cs, cn1)
        | FrClose \<Rightarrow> (r, snd (try_send cs i OutClose), leave)
        | FrText text \<Rightarrow> on_text X now wall i text (r, cs, cn1)))"

text \<open>The delivery of a reserved event, and the release of its id where that fails.\<close>

definition deliver_reserved :: "pair_env \<Rightarrow> instant \<Rightarrow> nat \<Rightarrow> string \<Rightarrow> bytes \<Rightarrow> bytes \<Rightarrow> json \<Rightarrow> conn_state \<Rightarrow> conn_state" where
  "deliver_reserved X now i event_id id_bytes p_value ev st =
     (case st of (r, cs, cn) \<Rightarrow>
      case deliver_single X now r cs p_value ev of
        (Inr True, r', cs') \<Rightarrow> (r', say cs' i (make_ok X event_id True []), cn\<lparr>cx_phase := Ready\<rparr>)
      | (Inr False, r', cs') \<Rightarrow> (r', cs', cn\<lparr>cx_phase := Releasing event_id id_bytes ''delivery failed''\<rparr>)
      | (Inl reason, r', cs') \<Rightarrow> (r', cs', cn\<lparr>cx_phase := Releasing event_id id_bytes reason\<rparr>))"

definition release_id :: "pair_env \<Rightarrow> nat \<Rightarrow> string \<Rightarrow> bytes \<Rightarrow> string \<Rightarrow> conn_state \<Rightarrow> conn_state" where
  "release_id X i event_id id_bytes reason st =
     (case st of (r, cs, cn) \<Rightarrow>
      (unreserve_id r id_bytes, say cs i (make_ok X event_id False reason), cn\<lparr>cx_phase := Ready\<rparr>))"

text \<open>After the loop: the subscription goes, then the guard.\<close>

definition leave_loop :: "nat \<Rightarrow> conn_state \<Rightarrow> conn_state" where
  "leave_loop i st = (case st of (r, cs, cn) \<Rightarrow> (remove_sub r i, snd (try_send cs i OutClose), cn\<lparr>cx_phase := Draining\<rparr>))"

definition ConnGuard_drop :: "Relay \<Rightarrow> nat \<Rightarrow> Relay" where
  "ConnGuard_drop self i = (remove_sub self i)\<lparr>rl_conn_count := rl_conn_count self - 1\<rparr>"

subsection \<open>Accepting connections\<close>

record http_request =
  hq_get :: bool
  hq_http11 :: bool
  hq_connection :: "string option"
  hq_upgrade :: "string option"
  hq_version :: "string option"
  hq_key :: "string option"

fun split_any :: "char list \<Rightarrow> string \<Rightarrow> string list" where
  "split_any seps [] = [[]]"
| "split_any seps (c # cs) =
     (if c \<in> set seps then [] # split_any seps cs
      else (case split_any seps cs of p # ps \<Rightarrow> (c # p) # ps | [] \<Rightarrow> [[c]]))"

definition is_ws :: "http_request \<Rightarrow> bool" where
  "is_ws q \<longleftrightarrow> hq_get q \<and> hq_http11 q \<and>
     (case hq_connection q of Some h \<Rightarrow> list_ex (\<lambda>p. eq_ignore_ascii_case p ''upgrade'') (split_any '' ,'' h) | None \<Rightarrow> False) \<and>
     (case hq_upgrade q of Some h \<Rightarrow> eq_ignore_ascii_case h ''websocket'' | None \<Rightarrow> False) \<and>
     hq_version q = Some ''13'' \<and>
     (case hq_key q of Some k \<Rightarrow> length k = 24 \<and> list_all (\<lambda>c. (of_char c :: nat) < 128) k | None \<Rightarrow> False)"

text \<open>The slot a request asks for: the answer, the relay, and the new connection if there is one.\<close>

datatype admission = BadRequest | Full | Admitted nat

definition http_service :: "Relay \<Rightarrow> http_request \<Rightarrow> admission \<times> Relay" where
  "http_service r q =
     (if \<not> is_ws q then (BadRequest, r)
      else let old = rl_conn_count r; r1 = r\<lparr>rl_conn_count := old + 1\<rparr> in
      if old \<ge> MAX_CONNS then (Full, r1)
      else (Admitted (rl_next_conn_id r1), r1\<lparr>rl_next_conn_id := rl_next_conn_id r1 + 1\<rparr>))"

definition give_back_slot :: "Relay \<Rightarrow> Relay" where
  "give_back_slot r = r\<lparr>rl_conn_count := rl_conn_count r - 1\<rparr>"

text \<open>The writer takes the next message; it may also stop, and then the channel is closed.\<close>

definition writer_take :: "chans \<Rightarrow> nat \<Rightarrow> chans" where
  "writer_take cs i = cs(i := (cs i)\<lparr>ch_queue := tl (ch_queue (cs i))\<rparr>)"

definition writer_stop :: "chans \<Rightarrow> nat \<Rightarrow> chans" where
  "writer_stop cs i = cs(i := (cs i)\<lparr>ch_open := False\<rparr>)"

end
