(* ===== verification/Pair_Relay_Run.thy ===== *)
theory Pair_Relay_Run
  imports Pair_Relay "HOL-Library.Multiset"
begin

text \<open>
  The pairing relay in operation: any number of connections, each handled by its own task. A step of
  the system is what one task does under one lock, the passing of time, or something the network does.
  The only assumption on scheduling is that a task is not held up for \<open>ENTRY_TTL\<close> between the reservation of
  an id and its release. Deliveries are logged beside the state, with the time of the reservation.
\<close>

subsection \<open>What a frame does\<close>

inductive frame_effect :: "pair_env \<Rightarrow> instant \<Rightarrow> int \<Rightarrow> nat \<Rightarrow> Relay \<Rightarrow> conn \<Rightarrow> Relay \<Rightarrow> conn \<Rightarrow> bool"
  for X now wall i r cn where
  fe_same: "cx_phase cn' = Ready \<or> cx_phase cn' = Breaking \<Longrightarrow> cx_sub_id cn' = cx_sub_id cn \<Longrightarrow>
    cx_events_attempted cn' = cx_events_attempted cn \<Longrightarrow> frame_effect X now wall i r cn r cn'"
| fe_sub: "cx_phase cn' = Ready \<Longrightarrow> cx_sub_id cn = None \<Longrightarrow> cx_sub_id cn' = Some sid \<Longrightarrow> p \<notin> sb_p_value ` set (rl_subs r) \<Longrightarrow>
    cx_events_attempted cn' = cx_events_attempted cn \<Longrightarrow>
    frame_effect X now wall i r cn (r\<lparr>rl_subs := rl_subs r @ [\<lparr>sb_conn_id = i, sb_sub_id = sid, sb_p_value = p\<rparr>]\<rparr>) cn'"
| fe_unsub: "cx_phase cn' = Ready \<Longrightarrow> cx_sub_id cn' = None \<Longrightarrow> cx_events_attempted cn' = cx_events_attempted cn \<Longrightarrow>
    frame_effect X now wall i r cn (remove_sub r i) cn'"
| fe_refused: "cx_phase cn' = Ready \<Longrightarrow> cx_sub_id cn' = cx_sub_id cn \<Longrightarrow>
    cx_events_attempted cn' = Suc (cx_events_attempted cn) \<Longrightarrow> cx_events_attempted cn < MAX_EVENTS_PER_CONN \<Longrightarrow>
    frame_effect X now wall i r cn (r\<lparr>rl_seen_ids := fresh_entries now (rl_seen_ids r)\<rparr>) cn'"
| fe_reserved: "cx_phase cn' = Reserved eid idb p ev \<Longrightarrow> cx_sub_id cn' = cx_sub_id cn \<Longrightarrow>
    cx_events_attempted cn' = Suc (cx_events_attempted cn) \<Longrightarrow> cx_events_attempted cn < MAX_EVENTS_PER_CONN \<Longrightarrow>
    validate_event wall ev = Inr (eid, idb, p) \<Longrightarrow> verify_event_sig X ev = Inr () \<Longrightarrow>
    idb \<notin> fst ` set (fresh_entries now (rl_seen_ids r)) \<Longrightarrow> length (fresh_entries now (rl_seen_ids r)) < DEDUP_CAP \<Longrightarrow>
    frame_effect X now wall i r cn (r\<lparr>rl_seen_ids := fresh_entries now (rl_seen_ids r) @ [(idb, now)]\<rparr>) cn'"

lemma reserve_id_cases:
  "reserve_id now r idb = (res, r') \<Longrightarrow>
     res = Inr False \<and> idb \<notin> fst ` set (fresh_entries now (rl_seen_ids r)) \<and> length (fresh_entries now (rl_seen_ids r)) < DEDUP_CAP \<and>
       r' = r\<lparr>rl_seen_ids := fresh_entries now (rl_seen_ids r) @ [(idb, now)]\<rparr> \<or>
     res \<noteq> Inr False \<and> r' = r\<lparr>rl_seen_ids := fresh_entries now (rl_seen_ids r)\<rparr>"
  by (force simp: reserve_id_def Let_def list_ex_iff split: if_splits)

lemma on_req_effect: "cx_phase cn = Ready \<Longrightarrow> on_req X i arr (r, cs, cn) = (r', cs', cn') \<Longrightarrow> frame_effect X now wall i r cn r' cn'"
  by (auto simp: on_req_def Let_def list_ex_iff split: if_splits sum.splits prod.splits bool.splits intro!: fe_same fe_sub)

lemma on_close_effect: "cx_phase cn = Ready \<Longrightarrow> on_close X i arr (r, cs, cn) = (r', cs', cn') \<Longrightarrow> frame_effect X now wall i r cn r' cn'"
  by (auto simp: on_close_def split: if_splits option.splits intro: fe_same fe_unsub)

lemma on_event_effect:
  assumes "cx_phase cn = Ready" "on_event_frame X now wall i arr (r, cs, cn) = (r', cs', cn')"
  shows "frame_effect X now wall i r cn r' cn'"
  using assms
  by (auto simp: on_event_frame_def Let_def split: if_splits sum.splits prod.splits bool.splits
      intro!: fe_same dest!: reserve_id_cases intro: fe_refused fe_reserved)

lemma frame_effect_msg_rate: "frame_effect X now wall i r (cn\<lparr>cx_msg_rate := mr\<rparr>) r' cn' \<Longrightarrow> frame_effect X now wall i r cn r' cn'"
  by (erule frame_effect.cases) (auto intro: frame_effect.intros)

lemma handle_frame_effect:
  assumes "cx_phase cn = Ready" "handle_frame X now wall i f (r, cs, cn) = (r', cs', cn')"
  shows "frame_effect X now wall i r cn r' cn'"
proof -
  have t: "frame_effect X now wall i r cn r' cn'" if "on_text X now wall i msg (r, cs, cn\<lparr>cx_msg_rate := mr\<rparr>) = (r', cs', cn')" for msg mr
  proof (rule frame_effect_msg_rate [where ?cn = cn and ?mr = mr])
    have p: "cx_phase (cn\<lparr>cx_msg_rate := mr\<rparr>) = Ready" using assms(1) by simp
    show "frame_effect X now wall i r (cn\<lparr>cx_msg_rate := mr\<rparr>) r' cn'"
      using that p on_req_effect [OF p] on_close_effect [OF p] on_event_effect [OF p]
      by (auto simp: on_text_def split: option.splits json.splits list.splits if_splits intro: fe_same)
  qed
  show ?thesis using assms t
    by (auto simp: handle_frame_def Let_def split: prod.splits if_splits frame.splits bool.splits intro: fe_same)
qed

subsection \<open>The system\<close>

record delivery =
  dv_from :: nat
  dv_sub :: Sub
  dv_id :: bytes
  dv_event :: json
  dv_reserved :: instant
  dv_at :: instant

record pair_world =
  pw_relay :: Relay
  pw_chans :: chans
  pw_conns :: "nat \<Rightarrow> conn option"
  pw_now :: instant
  pw_rejecting :: nat
  pw_since :: "nat \<Rightarrow> instant"
  pw_log :: "delivery list"

definition pair_init :: "pair_world \<Rightarrow> bool" where
  "pair_init w \<longleftrightarrow> pw_relay w = Relay_new \<and> pw_conns w = (\<lambda>_. None) \<and> pw_rejecting w = 0 \<and> pw_log w = []"

definition put :: "pair_world \<Rightarrow> nat \<Rightarrow> conn_state \<Rightarrow> pair_world" where
  "put w i st = (case st of (r, cs, cn) \<Rightarrow> w\<lparr>pw_relay := r, pw_chans := cs, pw_conns := (pw_conns w)(i \<mapsto> cn)\<rparr>)"

fun holds_id :: "phase \<Rightarrow> bytes option" where
  "holds_id (Reserved _ idb _ _) = Some idb"
| "holds_id (Releasing _ idb _) = Some idb"
| "holds_id _ = None"

inductive pair_step :: "pair_env \<Rightarrow> (instant \<Rightarrow> int) \<Rightarrow> pair_world \<Rightarrow> pair_world \<Rightarrow> bool" for X wall where
  ps_time: "pw_now w \<le> t \<Longrightarrow> (\<And>i cn. pw_conns w i = Some cn \<Longrightarrow> holds_id (cx_phase cn) \<noteq> None \<Longrightarrow> t - pw_since w i < ENTRY_TTL) \<Longrightarrow>
    pair_step X wall w (w\<lparr>pw_now := t\<rparr>)"
| ps_accept: "http_service (pw_relay w) q = (Admitted i, r) \<Longrightarrow> cx_phase cn = Upgrading \<Longrightarrow> cx_sub_id cn = None \<Longrightarrow> cx_events_attempted cn = 0 \<Longrightarrow>
    pair_step X wall w (put w i (r, (pw_chans w)(i := \<lparr>ch_queue = [], ch_open = True\<rparr>), cn))"
| ps_full: "http_service (pw_relay w) q = (Full, r) \<Longrightarrow> pair_step X wall w (w\<lparr>pw_relay := r, pw_rejecting := Suc (pw_rejecting w)\<rparr>)"
| ps_reject: "pw_rejecting w = Suc n \<Longrightarrow> pair_step X wall w (w\<lparr>pw_relay := give_back_slot (pw_relay w), pw_rejecting := n\<rparr>)"
| ps_upgraded: "pw_conns w i = Some cn \<Longrightarrow> cx_phase cn = Upgrading \<Longrightarrow>
    pair_step X wall w (put w i (pw_relay w, pw_chans w, conn_new (pw_now w)))"
| ps_not_upgraded: "pw_conns w i = Some cn \<Longrightarrow> cx_phase cn = Upgrading \<Longrightarrow>
    pair_step X wall w (w\<lparr>pw_relay := give_back_slot (pw_relay w), pw_conns := (pw_conns w)(i := None)\<rparr>)"
| ps_frame: "pw_conns w i = Some cn \<Longrightarrow> cx_phase cn = Ready \<Longrightarrow>
    pair_step X wall w ((put w i (handle_frame X (pw_now w) (wall (pw_now w)) i f (pw_relay w, pw_chans w, cn)))
      \<lparr>pw_since := (pw_since w)(i := pw_now w)\<rparr>)"
| ps_end: "pw_conns w i = Some cn \<Longrightarrow> cx_phase cn = Ready \<Longrightarrow>
    pair_step X wall w (put w i (pw_relay w, pw_chans w, cn\<lparr>cx_phase := Breaking\<rparr>))"
| ps_deliver: "pw_conns w i = Some cn \<Longrightarrow> cx_phase cn = Reserved eid idb p ev \<Longrightarrow>
    filter (\<lambda>s. sb_p_value s = p) (rl_subs (pw_relay w)) = subs \<Longrightarrow>
    pair_step X wall w ((put w i (deliver_reserved X (pw_now w) i eid idb p ev (pw_relay w, pw_chans w, cn)))
      \<lparr>pw_log := pw_log w @ (if fst (deliver_single X (pw_now w) (pw_relay w) (pw_chans w) p ev) = Inr True
         then [\<lparr>dv_from = i, dv_sub = hd subs, dv_id = idb, dv_event = ev, dv_reserved = pw_since w i, dv_at = pw_now w\<rparr>] else [])\<rparr>)"
| ps_release: "pw_conns w i = Some cn \<Longrightarrow> cx_phase cn = Releasing eid idb reason \<Longrightarrow>
    pair_step X wall w (put w i (release_id X i eid idb reason (pw_relay w, pw_chans w, cn)))"
| ps_leave: "pw_conns w i = Some cn \<Longrightarrow> cx_phase cn = Breaking \<Longrightarrow>
    pair_step X wall w (put w i (leave_loop i (pw_relay w, pw_chans w, cn)))"
| ps_drop: "pw_conns w i = Some cn \<Longrightarrow> cx_phase cn = Draining \<Longrightarrow>
    pair_step X wall w (w\<lparr>pw_relay := ConnGuard_drop (pw_relay w) i, pw_conns := (pw_conns w)(i := None)\<rparr>)"
| ps_write: "pair_step X wall w (w\<lparr>pw_chans := writer_take (pw_chans w) i\<rparr>)"
| ps_writer_stop: "pair_step X wall w (w\<lparr>pw_chans := writer_stop (pw_chans w) i\<rparr>)"

text \<open>A delivery changes only the counts of the relay.\<close>

lemma deliver_single_cases:
  assumes "deliver_single X now r cs p ev = (res, r', cs')"
  shows "r' = r\<lparr>rl_delivered := rl_delivered r'\<rparr>"
    "res \<noteq> Inr True \<Longrightarrow> rl_delivered r' = rl_delivered r \<or> rl_delivered r' = fresh_counts now (rl_delivered r)"
    "res = Inr True \<Longrightarrow> \<exists>sub c. filter (\<lambda>s. sb_p_value s = p) (rl_subs r) = [sub] \<and>
       c = (case hm_get (fresh_counts now (rl_delivered r)) p of Some (c, _) \<Rightarrow> c | None \<Rightarrow> 0) \<and> c < MAX_DELIVERED_PER_P \<and>
       (hm_get (fresh_counts now (rl_delivered r)) p = None \<longrightarrow> length (fresh_counts now (rl_delivered r)) < DELIVERED_MAP_CAP) \<and>
       rl_delivered r' = hm_insert p (c + 1, now) (fresh_counts now (rl_delivered r))"
  using assms by (auto simp: deliver_single_def Let_def split: list.splits if_splits option.splits prod.splits bool.splits)

lemma deliver_reserved_cases:
  assumes "deliver_reserved X now i eid idb p ev (r, cs, cn) = (r', cs', cn')"
  shows "\<exists>res csd. deliver_single X now r cs p ev = (res, r', csd) \<and> cx_sub_id cn' = cx_sub_id cn \<and>
    cx_events_attempted cn' = cx_events_attempted cn \<and>
    (if res = Inr True then cx_phase cn' = Ready else \<exists>reason. cx_phase cn' = Releasing eid idb reason)"
proof -
  obtain res r1 cs1 where d: "deliver_single X now r cs p ev = (res, r1, cs1)" by (metis prod_cases3)
  show ?thesis
  proof (cases res)
    case (Inl reason)
    then show ?thesis using assms d by (auto simp: deliver_reserved_def)
  next
    case (Inr b)
    then show ?thesis using assms d by (cases b) (auto simp: deliver_reserved_def)
  qed
qed

lemma put_simps [simp]:
  "pw_relay (put w i (r, cs, cn)) = r" "pw_conns (put w i (r, cs, cn)) = (pw_conns w)(i \<mapsto> cn)" "pw_now (put w i (r, cs, cn)) = pw_now w"
  "pw_rejecting (put w i (r, cs, cn)) = pw_rejecting w" "pw_since (put w i (r, cs, cn)) = pw_since w" "pw_log (put w i (r, cs, cn)) = pw_log w"
  by (simp_all add: put_def)

lemma remove_sub_simps [simp]:
  "rl_subs (remove_sub r i) = filter (\<lambda>s. sb_conn_id s \<noteq> i) (rl_subs r)" "rl_conn_count (remove_sub r i) = rl_conn_count r"
  "rl_next_conn_id (remove_sub r i) = rl_next_conn_id r" "rl_seen_ids (remove_sub r i) = rl_seen_ids r"
  "rl_delivered (remove_sub r i) = rl_delivered r"
  by (simp_all add: remove_sub_def)

lemma unreserve_simps [simp]:
  "rl_subs (unreserve_id r i) = rl_subs r" "rl_conn_count (unreserve_id r i) = rl_conn_count r"
  "rl_next_conn_id (unreserve_id r i) = rl_next_conn_id r" "rl_delivered (unreserve_id r i) = rl_delivered r"
  by (simp_all add: unreserve_id_def split: option.split)

subsection \<open>Subscriptions\<close>

definition subs_ok :: "pair_world \<Rightarrow> bool" where
  "subs_ok w \<longleftrightarrow> distinct (map sb_p_value (rl_subs (pw_relay w))) \<and> distinct (map sb_conn_id (rl_subs (pw_relay w))) \<and>
     (\<forall>s \<in> set (rl_subs (pw_relay w)). \<exists>cn. pw_conns w (sb_conn_id s) = Some cn \<and> cx_sub_id cn = Some (sb_sub_id s) \<and>
        cx_phase cn \<noteq> Upgrading \<and> cx_phase cn \<noteq> Draining) \<and>
     (\<forall>i. pw_conns w i \<noteq> None \<longrightarrow> i < rl_next_conn_id (pw_relay w))"

lemma subs_ok_same:
  assumes "subs_ok w" "pw_conns w i = Some cn" "rl_subs r = rl_subs (pw_relay w)" "rl_next_conn_id r = rl_next_conn_id (pw_relay w)"
    "cx_sub_id cn' = cx_sub_id cn" "cx_phase cn' \<noteq> Upgrading" "cx_phase cn' \<noteq> Draining"
  shows "subs_ok (put w i (r, cs, cn'))"
  using assms unfolding subs_ok_def by (auto split: if_splits)

lemma subs_ok_filter:
  assumes "subs_ok w" "pw_conns w i = Some cn"
  shows "subs_ok (put w i (remove_sub (pw_relay w) i, cs, cn'))"
  using assms unfolding subs_ok_def by (auto simp: distinct_map_filter)

lemma subs_ok_frame:
  assumes "subs_ok w" "pw_conns w i = Some cn" "cx_phase cn = Ready" "frame_effect X now wl i (pw_relay w) cn r cn'"
  shows "subs_ok (put w i (r, cs, cn'))"
  using assms(4)
proof (cases rule: frame_effect.cases)
  case (fe_sub sid p)
  have "i \<notin> sb_conn_id ` set (rl_subs (pw_relay w))" using assms(1,2) fe_sub(3) unfolding subs_ok_def by fastforce
  then show ?thesis using assms(1,2) fe_sub unfolding subs_ok_def by (auto split: if_splits)
next
  case fe_unsub
  then show ?thesis using subs_ok_filter [OF assms(1,2)] by simp
qed (use assms in \<open>auto intro!: subs_ok_same\<close>)

lemma subs_ok_gone:
  assumes "subs_ok w" "\<And>s. s \<in> set (rl_subs r) \<Longrightarrow> s \<in> set (rl_subs (pw_relay w)) \<and> sb_conn_id s \<noteq> i"
    "distinct (map sb_p_value (rl_subs r))" "distinct (map sb_conn_id (rl_subs r))" "rl_next_conn_id r = rl_next_conn_id (pw_relay w)"
  shows "subs_ok (w\<lparr>pw_relay := r, pw_conns := (pw_conns w)(i := None)\<rparr>)"
  using assms unfolding subs_ok_def by (auto split: if_splits)

lemma subs_ok_step:
  assumes "pair_step X wall w v" "subs_ok w"
  shows "subs_ok v"
  using assms(1)
proof (cases rule: pair_step.cases)
  case (ps_accept q i r cn)
  then have "i = rl_next_conn_id (pw_relay w)" "rl_subs r = rl_subs (pw_relay w)" "rl_next_conn_id r = Suc i"
    by (auto simp: http_service_def Let_def split: if_splits)
  then show ?thesis using assms(2) ps_accept unfolding subs_ok_def by (fastforce split: if_splits)
next
  case (ps_frame i cn f)
  obtain r cs cn' where h: "handle_frame X (pw_now w) (wall (pw_now w)) i f (pw_relay w, pw_chans w, cn) = (r, cs, cn')" by (cases "handle_frame X (pw_now w) (wall (pw_now w)) i f (pw_relay w, pw_chans w, cn)") auto
  show ?thesis using subs_ok_frame [OF assms(2) ps_frame(2,3) handle_frame_effect [OF ps_frame(3) h]] ps_frame(1) h
    by (simp add: subs_ok_def)
next
  case (ps_deliver i cn eid idb p ev subs)
  obtain r cs cn' where h: "deliver_reserved X (pw_now w) i eid idb p ev (pw_relay w, pw_chans w, cn) = (r, cs, cn')" by (cases "deliver_reserved X (pw_now w) i eid idb p ev (pw_relay w, pw_chans w, cn)") auto
  obtain res csd where d: "deliver_single X (pw_now w) (pw_relay w) (pw_chans w) p ev = (res, r, csd)" "cx_sub_id cn' = cx_sub_id cn"
      "if res = Inr True then cx_phase cn' = Ready else \<exists>reason. cx_phase cn' = Releasing eid idb reason"
    using deliver_reserved_cases [OF h] by blast
  have r: "rl_subs r = rl_subs (pw_relay w)" "rl_next_conn_id r = rl_next_conn_id (pw_relay w)"
    using deliver_single_cases(1) [OF d(1)] by (metis Relay.select_convs(1,3) Relay.surjective Relay.update_convs(5))+
  have "subs_ok (put w i (r, cs, cn'))" using subs_ok_same [OF assms(2) ps_deliver(2) r d(2)] d(3) by (auto split: if_splits)
  then show ?thesis using ps_deliver(1) h by (simp add: subs_ok_def)
next
  case (ps_leave i cn)
  then show ?thesis using subs_ok_filter [OF assms(2) ps_leave(2)] by (simp add: leave_loop_def)
next
  case (ps_drop i cn)
  then show ?thesis using assms(2)
    by (auto simp: ConnGuard_drop_def subs_ok_def distinct_map_filter intro!: subs_ok_gone)
next
  case (ps_not_upgraded i cn)
  then have "\<forall>s \<in> set (rl_subs (pw_relay w)). sb_conn_id s \<noteq> i" using assms(2) unfolding subs_ok_def by fastforce
  then show ?thesis using assms(2) ps_not_upgraded by (auto simp: give_back_slot_def subs_ok_def intro!: subs_ok_gone)
next
  case (ps_upgraded i cn)
  then have "\<forall>s \<in> set (rl_subs (pw_relay w)). sb_conn_id s \<noteq> i" using assms(2) unfolding subs_ok_def by fastforce
  then show ?thesis using assms(2) ps_upgraded unfolding subs_ok_def by (auto split: if_splits)
qed (use assms(2) in \<open>auto simp: subs_ok_def give_back_slot_def http_service_def release_id_def Let_def split: if_splits\<close>)

subsection \<open>Bounds\<close>

definition caps_ok :: "pair_world \<Rightarrow> bool" where
  "caps_ok w \<longleftrightarrow> length (rl_seen_ids (pw_relay w)) \<le> DEDUP_CAP \<and> length (rl_delivered (pw_relay w)) \<le> DELIVERED_MAP_CAP \<and>
     finite (dom (pw_conns w)) \<and> rl_conn_count (pw_relay w) = card (dom (pw_conns w)) + pw_rejecting w \<and>
     card (dom (pw_conns w)) \<le> MAX_CONNS \<and> (\<forall>i. pw_conns w i \<noteq> None \<longrightarrow> i < rl_next_conn_id (pw_relay w))"

lemma fresh_entries_le: "length (fresh_entries now es) \<le> length es" "set (fresh_entries now es) \<subseteq> set es"
  by (auto simp: fresh_entries_def)

lemma fresh_counts_le: "length (fresh_counts now m) \<le> length m"
  by (simp add: fresh_counts_def)

lemma hm_insert_length: "length (hm_insert k v m) = (if hm_get m k = None then Suc (length m) else length m)"
  by (induction m) auto

lemma position_less: "position P xs = Some n \<Longrightarrow> n < length xs \<and> P (xs ! n)"
  by (induction xs arbitrary: n) (auto split: if_splits)

lemma unreserve_length: "length (rl_seen_ids (unreserve_id r i)) \<le> length (rl_seen_ids r)"
  by (auto simp: unreserve_id_def swap_remove_def split: option.split)

lemma deliver_reserved_relay:
  assumes "deliver_reserved X now i eid idb p ev (r, cs, cn) = (r', cs', cn')"
  shows "rl_subs r' = rl_subs r" "rl_conn_count r' = rl_conn_count r" "rl_next_conn_id r' = rl_next_conn_id r" "rl_seen_ids r' = rl_seen_ids r"
proof -
  obtain d where "r' = r\<lparr>rl_delivered := d\<rparr>"
    using deliver_reserved_cases [OF assms] deliver_single_cases(1) by metis
  then show "rl_subs r' = rl_subs r" "rl_conn_count r' = rl_conn_count r" "rl_next_conn_id r' = rl_next_conn_id r" "rl_seen_ids r' = rl_seen_ids r"
    by simp_all
qed

lemma deliver_reserved_bound:
  assumes "deliver_reserved X now i eid idb p ev (r, cs, cn) = (r', cs', cn')" "length (rl_delivered r) \<le> DELIVERED_MAP_CAP"
  shows "length (rl_delivered r') \<le> DELIVERED_MAP_CAP"
proof -
  obtain res csd where d: "deliver_single X now r cs p ev = (res, r', csd)" using deliver_reserved_cases [OF assms(1)] by blast
  note f = fresh_counts_le [of now "rl_delivered r"]
  show ?thesis
  proof (cases "res = Inr True")
    case True
    then show ?thesis using deliver_single_cases(3) [OF d True] f assms(2) by (auto simp: hm_insert_length)
  next
    case False
    then show ?thesis using deliver_single_cases(2) [OF d False] f assms(2) by auto
  qed
qed

lemma caps_ok_conn:
  assumes "caps_ok w" "pw_conns w i = Some cn" "length (rl_seen_ids r) \<le> DEDUP_CAP" "length (rl_delivered r) \<le> DELIVERED_MAP_CAP"
    "rl_conn_count r = rl_conn_count (pw_relay w)" "rl_next_conn_id r = rl_next_conn_id (pw_relay w)"
  shows "caps_ok (put w i (r, cs, cn'))"
proof -
  have d: "dom ((pw_conns w)(i \<mapsto> cn')) = dom (pw_conns w)" using assms(2) by auto
  show ?thesis using assms unfolding caps_ok_def put_simps d by auto
qed

lemma caps_ok_frame:
  assumes "caps_ok w" "pw_conns w i = Some cn" "frame_effect X now wl i (pw_relay w) cn r cn'"
  shows "caps_ok (put w i (r, cs, cn'))"
proof -
  have b: "length (rl_seen_ids (pw_relay w)) \<le> DEDUP_CAP" "length (rl_delivered (pw_relay w)) \<le> DELIVERED_MAP_CAP"
    using assms(1) unfolding caps_ok_def by auto
  note f = fresh_entries_le(1) [of now "rl_seen_ids (pw_relay w)"]
  show ?thesis
    using assms(3) by (cases rule: frame_effect.cases) (use b f in \<open>auto intro!: caps_ok_conn [OF assms(1,2)]\<close>)
qed

lemma caps_ok_gone:
  assumes "caps_ok w" "pw_conns w i = Some cn" "rl_seen_ids r = rl_seen_ids (pw_relay w)" "rl_delivered r = rl_delivered (pw_relay w)"
    "rl_next_conn_id r = rl_next_conn_id (pw_relay w)" "rl_conn_count r = rl_conn_count (pw_relay w) - 1"
  shows "caps_ok (w\<lparr>pw_relay := r, pw_conns := (pw_conns w)(i := None)\<rparr>)"
proof -
  have d: "dom ((pw_conns w)(i := None)) = dom (pw_conns w) - {i}" "i \<in> dom (pw_conns w)" "finite (dom (pw_conns w))"
    using assms(1,2) unfolding caps_ok_def by auto
  then have "card (dom (pw_conns w)) = Suc (card (dom (pw_conns w) - {i}))" by (metis card.remove)
  then show ?thesis using assms unfolding caps_ok_def by (auto simp: d(1) split: if_splits)
qed

lemma caps_ok_ghost [simp]: "caps_ok (w\<lparr>pw_since := f\<rparr>) = caps_ok w" "caps_ok (w\<lparr>pw_log := ds\<rparr>) = caps_ok w"
  "caps_ok (w\<lparr>pw_now := t\<rparr>) = caps_ok w" "caps_ok (w\<lparr>pw_chans := cs\<rparr>) = caps_ok w"
  by (simp_all add: caps_ok_def)

lemma caps_ok_step:
  assumes "pair_step X wall w v" "caps_ok w"
  shows "caps_ok v"
proof -
  have b: "length (rl_seen_ids (pw_relay w)) \<le> DEDUP_CAP" "length (rl_delivered (pw_relay w)) \<le> DELIVERED_MAP_CAP"
    using assms(2) unfolding caps_ok_def by auto
  from assms(1) show ?thesis
proof (cases rule: pair_step.cases)
  case (ps_accept q i r cn)
  then have r: "i = rl_next_conn_id (pw_relay w)" "rl_seen_ids r = rl_seen_ids (pw_relay w)" "rl_delivered r = rl_delivered (pw_relay w)"
      "rl_next_conn_id r = Suc i" "rl_conn_count r = Suc (rl_conn_count (pw_relay w))" "rl_conn_count (pw_relay w) < MAX_CONNS"
    by (auto simp: http_service_def Let_def split: if_splits)
  then have "i \<notin> dom (pw_conns w)" using assms(2) unfolding caps_ok_def by auto
  then show ?thesis using assms(2) ps_accept(1) r unfolding caps_ok_def by (auto simp: less_Suc_eq)
next
  case (ps_full q r)
  then show ?thesis using assms(2) by (auto simp: http_service_def caps_ok_def Let_def split: if_splits)
next
  case (ps_reject n)
  then show ?thesis using assms(2) by (simp add: caps_ok_def give_back_slot_def)
next
  case (ps_frame i cn f)
  obtain r cs cn' where h: "handle_frame X (pw_now w) (wall (pw_now w)) i f (pw_relay w, pw_chans w, cn) = (r, cs, cn')" by (metis prod_cases3)
  show ?thesis using caps_ok_frame [OF assms(2) ps_frame(2) handle_frame_effect [OF ps_frame(3) h]] ps_frame(1) h by simp
next
  case (ps_deliver i cn eid idb p ev subs)
  obtain r cs cn' where h: "deliver_reserved X (pw_now w) i eid idb p ev (pw_relay w, pw_chans w, cn) = (r, cs, cn')" by (metis prod_cases3)
  have "caps_ok (put w i (r, cs, cn'))"
    by (rule caps_ok_conn [OF assms(2) ps_deliver(2)]) (use b deliver_reserved_relay [OF h] deliver_reserved_bound [OF h] in simp_all)
  then show ?thesis using ps_deliver(1) h by simp
next
  case (ps_release i cn eid idb reason)
  then show ?thesis using b unreserve_length [of "pw_relay w" idb]
    by (auto simp: release_id_def intro!: caps_ok_conn [OF assms(2) ps_release(2)])
next
  case (ps_leave i cn)
  then show ?thesis using b by (auto simp: leave_loop_def intro!: caps_ok_conn [OF assms(2) ps_leave(2)])
next
  case (ps_drop i cn)
  then show ?thesis using assms(2) by (auto simp: ConnGuard_drop_def intro!: caps_ok_gone)
next
  case (ps_not_upgraded i cn)
  then show ?thesis using assms(2) by (auto simp: give_back_slot_def intro!: caps_ok_gone)
next
  case (ps_upgraded i cn)
  then show ?thesis using b by (auto intro!: caps_ok_conn [OF assms(2) ps_upgraded(2)])
next
  case (ps_end i cn)
  then show ?thesis using b by (auto intro!: caps_ok_conn [OF assms(2) ps_end(2)])
qed (use assms(2) in simp_all)
qed


subsection \<open>Sessions\<close>

definition sent_by :: "delivery list \<Rightarrow> nat \<Rightarrow> nat" where
  "sent_by ds i = length (filter (\<lambda>d. dv_from d = i) ds)"

lemma sent_by_append [simp]: "sent_by (ds @ es) i = sent_by ds i + sent_by es i" "sent_by [] i = 0"
  "sent_by [d] i = (if dv_from d = i then 1 else 0)"
  by (simp_all add: sent_by_def)

definition in_delivery :: "phase \<Rightarrow> nat" where
  "in_delivery ph = (case ph of Reserved _ _ _ _ \<Rightarrow> 1 | _ \<Rightarrow> 0)"

definition session_ok :: "pair_world \<Rightarrow> bool" where
  "session_ok w \<longleftrightarrow>
     (\<forall>i cn. pw_conns w i = Some cn \<longrightarrow> i < rl_next_conn_id (pw_relay w) \<and> cx_events_attempted cn \<le> MAX_EVENTS_PER_CONN \<and>
        sent_by (pw_log w) i + in_delivery (cx_phase cn) \<le> cx_events_attempted cn \<and> (cx_phase cn = Upgrading \<longrightarrow> cx_events_attempted cn = 0)) \<and>
     (\<forall>i. sent_by (pw_log w) i \<le> MAX_EVENTS_PER_CONN) \<and> (\<forall>i \<ge> rl_next_conn_id (pw_relay w). sent_by (pw_log w) i = 0)"

lemma session_ok_conn:
  assumes "session_ok w" "pw_conns w i = Some cn" "rl_next_conn_id r = rl_next_conn_id (pw_relay w)" "cx_phase cn' \<noteq> Upgrading"
    "cx_events_attempted cn' \<le> MAX_EVENTS_PER_CONN" "\<And>j. j \<noteq> i \<Longrightarrow> sent_by ds j = 0"
    "sent_by (pw_log w) i + sent_by ds i + in_delivery (cx_phase cn') \<le> cx_events_attempted cn'"
  shows "session_ok ((put w i (r, cs, cn'))\<lparr>pw_log := pw_log w @ ds\<rparr>)"
proof -
  have i: "i < rl_next_conn_id (pw_relay w)" using assms(1,2) unfolding session_ok_def by blast
  have s: "sent_by (pw_log w @ ds) j = sent_by (pw_log w) j + (if j = i then sent_by ds i else 0)" for j using assms(6) by simp
  have "sent_by (pw_log w @ ds) j \<le> MAX_EVENTS_PER_CONN" for j
    using s [of j] assms(1,5,7) unfolding session_ok_def by (cases "j = i") auto
  moreover have "sent_by (pw_log w @ ds) j = 0" if "j \<ge> rl_next_conn_id (pw_relay w)" for j
    using s [of j] that i assms(1) unfolding session_ok_def by (cases "j = i") auto
  moreover have "\<forall>j cj. ((pw_conns w)(i \<mapsto> cn')) j = Some cj \<longrightarrow> j < rl_next_conn_id (pw_relay w) \<and> cx_events_attempted cj \<le> MAX_EVENTS_PER_CONN \<and>
      sent_by (pw_log w @ ds) j + in_delivery (cx_phase cj) \<le> cx_events_attempted cj \<and> (cx_phase cj = Upgrading \<longrightarrow> cx_events_attempted cj = 0)"
  proof (intro allI impI)
    fix j cj assume j: "((pw_conns w)(i \<mapsto> cn')) j = Some cj"
    show "j < rl_next_conn_id (pw_relay w) \<and> cx_events_attempted cj \<le> MAX_EVENTS_PER_CONN \<and>
      sent_by (pw_log w @ ds) j + in_delivery (cx_phase cj) \<le> cx_events_attempted cj \<and> (cx_phase cj = Upgrading \<longrightarrow> cx_events_attempted cj = 0)"
    proof (cases "j = i")
      case True
      then show ?thesis using j s [of j] i assms(4,5,7) by simp
    next
      case False
      then show ?thesis using j s [of j] assms(1) unfolding session_ok_def by simp
    qed
  qed
  ultimately show ?thesis using assms(3) unfolding session_ok_def by simp
qed

lemma put_log_same: "(put w i st)\<lparr>pw_log := pw_log w @ []\<rparr> = put w i st"
  by (simp add: put_def split: prod.split)

lemmas session_ok_quiet = session_ok_conn [where ds = "[]", unfolded put_log_same, simplified]

lemma session_ok_ghost [simp]: "session_ok (w\<lparr>pw_since := f\<rparr>) = session_ok w"
  "session_ok (w\<lparr>pw_now := t\<rparr>) = session_ok w" "session_ok (w\<lparr>pw_chans := cs\<rparr>) = session_ok w"
  by (simp_all add: session_ok_def)

lemma session_live:
  assumes "session_ok w" "pw_conns w i = Some cn"
  shows "cx_events_attempted cn \<le> MAX_EVENTS_PER_CONN" "sent_by (pw_log w) i + in_delivery (cx_phase cn) \<le> cx_events_attempted cn"
  using assms unfolding session_ok_def by auto

lemma session_ok_step:
  assumes "pair_step X wall w v" "session_ok w"
  shows "session_ok v"
  using assms(1)
proof (cases rule: pair_step.cases)
  case (ps_accept q i r cn)
  then have r: "i = rl_next_conn_id (pw_relay w)" "rl_next_conn_id r = Suc i"
    by (auto simp: http_service_def Let_def split: if_splits)
  then show ?thesis using assms(2) ps_accept unfolding session_ok_def by (auto simp: in_delivery_def less_Suc_eq split: if_splits)
next
  case (ps_frame i cn f)
  obtain r cs cn' where h: "handle_frame X (pw_now w) (wall (pw_now w)) i f (pw_relay w, pw_chans w, cn) = (r, cs, cn')" by (metis prod_cases3)
  note l = session_live [OF assms(2) ps_frame(2)]
  have "session_ok (put w i (r, cs, cn'))"
    using handle_frame_effect [OF ps_frame(3) h]
    by (cases rule: frame_effect.cases) (use l in \<open>auto simp: in_delivery_def intro!: session_ok_quiet [OF assms(2) ps_frame(2)]\<close>)
  then show ?thesis using ps_frame(1) h by simp
next
  case (ps_deliver i cn eid idb p ev subs)
  obtain r cs cn' where h: "deliver_reserved X (pw_now w) i eid idb p ev (pw_relay w, pw_chans w, cn) = (r, cs, cn')" by (metis prod_cases3)
  obtain res csd where d: "deliver_single X (pw_now w) (pw_relay w) (pw_chans w) p ev = (res, r, csd)" "cx_events_attempted cn' = cx_events_attempted cn"
      "if res = Inr True then cx_phase cn' = Ready else \<exists>reason. cx_phase cn' = Releasing eid idb reason"
    using deliver_reserved_cases [OF h] by blast
  note l = session_live [OF assms(2) ps_deliver(2)]
  let ?ds = "if res = Inr True then [\<lparr>dv_from = i, dv_sub = hd subs, dv_id = idb, dv_event = ev, dv_reserved = pw_since w i, dv_at = pw_now w\<rparr>] else []"
  have "session_ok ((put w i (r, cs, cn'))\<lparr>pw_log := pw_log w @ ?ds\<rparr>)"
    using d(2,3) l ps_deliver(3) deliver_reserved_relay(3) [OF h]
    by (intro session_ok_conn [OF assms(2) ps_deliver(2)]) (auto simp: in_delivery_def split: if_splits)
  then show ?thesis using ps_deliver(1) h d(1) by simp
next
  case (ps_drop i cn)
  then show ?thesis using assms(2) by (auto simp: ConnGuard_drop_def session_ok_def split: if_splits)
next
  case (ps_not_upgraded i cn)
  then show ?thesis using assms(2) by (auto simp: give_back_slot_def session_ok_def split: if_splits)
next
  case (ps_upgraded i cn)
  then have "sent_by (pw_log w) i = 0" using assms(2) unfolding session_ok_def by fastforce
  then show ?thesis using ps_upgraded by (auto simp: conn_new_def in_delivery_def intro!: session_ok_quiet [OF assms(2) ps_upgraded(2)])
next
  case (ps_release i cn eid idb reason)
  then show ?thesis using session_live [OF assms(2) ps_release(2)]
    by (auto simp: release_id_def in_delivery_def intro!: session_ok_quiet [OF assms(2) ps_release(2)])
next
  case (ps_leave i cn)
  then show ?thesis using session_live [OF assms(2) ps_leave(2)]
    by (auto simp: leave_loop_def in_delivery_def intro!: session_ok_quiet [OF assms(2) ps_leave(2)])
next
  case (ps_end i cn)
  then show ?thesis using session_live [OF assms(2) ps_end(2)]
    by (auto simp: in_delivery_def intro!: session_ok_quiet [OF assms(2) ps_end(2)])
qed (use assms(2) in \<open>auto simp: session_ok_def give_back_slot_def http_service_def Let_def split: if_splits\<close>)


subsection \<open>The budget of a recipient\<close>

abbreviation dv_p :: "delivery \<Rightarrow> bytes" where
  "dv_p d \<equiv> sb_p_value (dv_sub d)"

definition recent :: "instant \<Rightarrow> bytes \<Rightarrow> delivery list \<Rightarrow> nat" where
  "recent now p ds = length (filter (\<lambda>d. dv_p d = p \<and> now - dv_at d < ENTRY_TTL) ds)"

definition in_window :: "instant \<Rightarrow> bytes \<Rightarrow> delivery list \<Rightarrow> nat" where
  "in_window t p ds = length (filter (\<lambda>d. dv_p d = p \<and> t \<le> dv_at d \<and> dv_at d < t + ENTRY_TTL) ds)"

definition count_ok :: "instant \<Rightarrow> delivery list \<Rightarrow> bytes \<Rightarrow> (nat \<times> instant) option \<Rightarrow> bool" where
  "count_ok now ds p x \<longleftrightarrow>
     (case x of None \<Rightarrow> recent now p ds = 0 | Some (c, ts) \<Rightarrow> recent now p ds \<le> c \<and> (\<forall>d \<in> set ds. dv_p d = p \<longrightarrow> dv_at d \<le> ts))"

definition counts_ok :: "instant \<Rightarrow> (bytes, nat \<times> instant) hmap \<Rightarrow> delivery list \<Rightarrow> bool" where
  "counts_ok now m ds \<longleftrightarrow> hm_wf m \<and> (\<forall>d \<in> set ds. dv_at d \<le> now) \<and> (\<forall>p. count_ok now ds p (hm_get m p))"

lemma filter_length_mono: "(\<And>x. x \<in> set xs \<Longrightarrow> P x \<Longrightarrow> Q x) \<Longrightarrow> length (filter P xs) \<le> length (filter Q xs)"
  by (induction xs) auto

lemma recent_later: "now \<le> t \<Longrightarrow> recent t p ds \<le> recent now p ds"
  unfolding recent_def by (rule filter_length_mono) auto

lemma recent_append [simp]: "recent now p (ds @ es) = recent now p ds + recent now p es"
  by (simp add: recent_def)

lemma count_ok_time: "count_ok now ds p x \<Longrightarrow> now \<le> t \<Longrightarrow> count_ok t ds p x"
  using recent_later [of now t p ds] by (auto simp: count_ok_def split: option.splits)

lemma counts_ok_time: "counts_ok now m ds \<Longrightarrow> now \<le> t \<Longrightarrow> counts_ok t m ds"
  unfolding counts_ok_def using count_ok_time by (meson order_trans)

lemma count_ok_evict:
  assumes "count_ok now ds p (Some (c, ts))" "\<not> now - ts < ENTRY_TTL"
  shows "count_ok now ds p None"
proof -
  have "\<not> now - dv_at d < ENTRY_TTL" if "d \<in> set ds" "dv_p d = p" for d
    using assms that by (fastforce simp: count_ok_def)
  then show ?thesis by (auto simp: count_ok_def recent_def filter_empty_conv)
qed

lemma counts_ok_fresh:
  assumes "counts_ok now m ds"
  shows "counts_ok now (fresh_counts now m) ds"
proof -
  have m: "hm_wf m" "count_ok now ds p (hm_get m p)" for p using assms unfolding counts_ok_def by auto
  have g: "hm_get (fresh_counts now m) p = (case hm_get m p of None \<Rightarrow> None | Some x \<Rightarrow> if now - snd x < ENTRY_TTL then Some x else None)" for p
    unfolding fresh_counts_def hm_get_filter [OF m(1)] by (auto split: option.split)
  have "count_ok now ds p (hm_get (fresh_counts now m) p)" for p
    unfolding g using m(2) [of p] count_ok_evict [of now ds p] by (cases "hm_get m p") auto
  moreover have "hm_wf (fresh_counts now m)" unfolding fresh_counts_def by (rule hm_wf_filter [OF m(1)])
  ultimately show ?thesis using assms unfolding counts_ok_def by blast
qed

lemma counts_ok_deliver:
  assumes "counts_ok now m ds" "dv_p d = p" "dv_at d = now" "c = (case hm_get m p of Some (c, _) \<Rightarrow> c | None \<Rightarrow> 0)"
  shows "counts_ok now (hm_insert p (c + 1, now) m) (ds @ [d])" "recent now p ds \<le> c"
proof -
  have m: "hm_wf m" "\<And>d. d \<in> set ds \<Longrightarrow> dv_at d \<le> now" "\<And>p. count_ok now ds p (hm_get m p)" using assms(1) unfolding counts_ok_def by auto
  show c: "recent now p ds \<le> c" using m(3) [of p] assms(4) by (cases "hm_get m p") (auto simp: count_ok_def)
  have r: "recent now q [d] = (if q = p then 1 else 0)" for q using assms(2,3) by (simp add: recent_def ENTRY_TTL_def)
  have "count_ok now (ds @ [d]) q (hm_get (hm_insert p (c + 1, now) m) q)" for q
  proof (cases "q = p")
    case True
    then show ?thesis using c r [of q] m(2) assms(3) by (auto simp: update_Some_unfold count_ok_def)
  next
    case False
    then have "hm_get (hm_insert p (c + 1, now) m) q = hm_get m q" by (simp add: update_conv)
    moreover have "count_ok now (ds @ [d]) q x = count_ok now ds q x" for x using False r [of q] assms(2) by (auto simp: count_ok_def split: option.split)
    ultimately show ?thesis using m(3) [of q] by simp
  qed
  moreover have "\<forall>e \<in> set (ds @ [d]). dv_at e \<le> now" using m(2) assms(3) by auto
  moreover have "hm_wf (hm_insert p (c + 1, now) m)" by (rule hm_wf_insert [OF m(1)])
  ultimately show "counts_ok now (hm_insert p (c + 1, now) m) (ds @ [d])" unfolding counts_ok_def by blast
qed

definition budget_ok :: "pair_world \<Rightarrow> bool" where
  "budget_ok w \<longleftrightarrow> counts_ok (pw_now w) (rl_delivered (pw_relay w)) (pw_log w) \<and> (\<forall>t p. in_window t p (pw_log w) \<le> MAX_DELIVERED_PER_P)"

lemma budget_ok_same: "budget_ok w \<Longrightarrow> rl_delivered (pw_relay v) = rl_delivered (pw_relay w) \<Longrightarrow> pw_log v = pw_log w \<Longrightarrow> pw_now v = pw_now w \<Longrightarrow> budget_ok v"
  by (simp add: budget_ok_def)

lemma frame_effect_delivered: "frame_effect X now wl i r cn r' cn' \<Longrightarrow> rl_delivered r' = rl_delivered r"
  by (auto elim!: frame_effect.cases)

lemma window_deliver:
  assumes "recent now p ds < MAX_DELIVERED_PER_P" "\<forall>d \<in> set ds. dv_at d \<le> now" "dv_p d = p" "dv_at d = now"
    "\<forall>t q. in_window t q ds \<le> MAX_DELIVERED_PER_P"
  shows "in_window t q (ds @ [d]) \<le> MAX_DELIVERED_PER_P"
proof (cases "q = p \<and> t \<le> now \<and> now < t + ENTRY_TTL")
  case True
  have "in_window t q ds \<le> recent now p ds"
    unfolding in_window_def recent_def by (rule filter_length_mono) (use True in auto)
  then show ?thesis using assms(1,3,4) True by (simp add: in_window_def)
next
  case False
  then show ?thesis using assms(3-5) by (auto simp: in_window_def)
qed

lemma budget_ok_step:
  assumes "pair_step X wall w v" "budget_ok w"
  shows "budget_ok v"
  using assms(1)
proof (cases rule: pair_step.cases)
  case (ps_time t)
  then show ?thesis using assms(2) counts_ok_time unfolding budget_ok_def by auto
next
  case (ps_frame i cn f)
  obtain r cs cn' where h: "handle_frame X (pw_now w) (wall (pw_now w)) i f (pw_relay w, pw_chans w, cn) = (r, cs, cn')" by (metis prod_cases3)
  show ?thesis using ps_frame(1) h frame_effect_delivered [OF handle_frame_effect [OF ps_frame(3) h]] by (intro budget_ok_same [OF assms(2)]) simp_all
next
  case (ps_deliver i cn eid idb p ev subs)
  obtain r cs cn' where h: "deliver_reserved X (pw_now w) i eid idb p ev (pw_relay w, pw_chans w, cn) = (r, cs, cn')" by (metis prod_cases3)
  obtain res csd where d: "deliver_single X (pw_now w) (pw_relay w) (pw_chans w) p ev = (res, r, csd)" using deliver_reserved_cases [OF h] by blast
  have ok: "counts_ok (pw_now w) (rl_delivered (pw_relay w)) (pw_log w)" "\<forall>t p. in_window t p (pw_log w) \<le> MAX_DELIVERED_PER_P"
    using assms(2) unfolding budget_ok_def by auto
  note f = counts_ok_fresh [OF ok(1)]
  show ?thesis
  proof (cases "res = Inr True")
    case True
    obtain sub c where s: "subs = [sub]" "c = (case hm_get (fresh_counts (pw_now w) (rl_delivered (pw_relay w))) p of Some (c, _) \<Rightarrow> c | None \<Rightarrow> 0)"
        "c < MAX_DELIVERED_PER_P" "rl_delivered r = hm_insert p (c + 1, pw_now w) (fresh_counts (pw_now w) (rl_delivered (pw_relay w)))"
      using deliver_single_cases(3) [OF d True] ps_deliver(4) by auto
    have "sub \<in> set (filter (\<lambda>s. sb_p_value s = p) (rl_subs (pw_relay w)))" using s(1) ps_deliver(4) by simp
    then have p: "sb_p_value sub = p" by simp
    let ?d = "\<lparr>dv_from = i, dv_sub = sub, dv_id = idb, dv_event = ev, dv_reserved = pw_since w i, dv_at = pw_now w\<rparr>"
    have c: "counts_ok (pw_now w) (rl_delivered r) (pw_log w @ [?d])" "recent (pw_now w) p (pw_log w) \<le> c"
      using counts_ok_deliver [OF f _ _ s(2), of ?d] p s(4) by simp_all
    have "in_window t q (pw_log w @ [?d]) \<le> MAX_DELIVERED_PER_P" for t q
      by (rule window_deliver [OF _ _ _ _ ok(2)]) (use c(2) s(3) p ok(1) in \<open>auto simp: counts_ok_def\<close>)
    then show ?thesis using c(1) ps_deliver(1) h d True s(1) by (simp add: budget_ok_def)
  next
    case False
    then have "rl_delivered r = rl_delivered (pw_relay w) \<or> rl_delivered r = fresh_counts (pw_now w) (rl_delivered (pw_relay w))"
      using deliver_single_cases(2) [OF d] by blast
    then show ?thesis using ps_deliver(1) h d False f ok by (auto simp: budget_ok_def)
  qed
qed (use assms(2) in \<open>auto simp: give_back_slot_def http_service_def ConnGuard_drop_def release_id_def leave_loop_def Let_def split: if_splits
      intro!: budget_ok_same [OF assms(2)]\<close>)


subsection \<open>Events are delivered once\<close>

definition created_of :: "json \<Rightarrow> int option" where
  "created_of ev =
     (case as_object ev of None \<Rightarrow> None | Some obj \<Rightarrow> (case hm_get obj ''created_at'' of None \<Rightarrow> None | Some v \<Rightarrow> as_i64 v))"

lemma and_then_Inr: "and_then r f = Inr y \<longleftrightarrow> (\<exists>x. r = Inr x \<and> f x = Inr y)"
  by (cases r) auto

lemma validate_event_created:
  assumes "validate_event wl ev = Inr (eid, idb, p)"
  shows "\<exists>c. created_of ev = Some c \<and> \<bar>c - wl\<bar> \<le> FRESHNESS_SECS"
  using assms by (auto simp: validate_event_def and_then_Inr ok_or_Inr created_of_def split: if_splits)

text \<open>The wall clock keeps pace with the monotonic clock but for less than a minute.\<close>

definition steady :: "(instant \<Rightarrow> int) \<Rightarrow> bool" where
  "steady wall \<longleftrightarrow> (\<forall>a b. a \<le> b \<longrightarrow> int ((b - a) div 10 ^ 9) - 59 < wall b - wall a)"

lemma expired_not_fresh:
  assumes "steady wall" "ENTRY_TTL \<le> b - a" "created_of ev = created_of ev'"
    "validate_event (wall a) ev = Inr (eid, idb, p)" "validate_event (wall b) ev' = Inr (eid', idb', p')"
  shows False
proof -
  obtain c where c: "\<bar>c - wall a\<bar> \<le> FRESHNESS_SECS" "\<bar>c - wall b\<bar> \<le> FRESHNESS_SECS"
    using validate_event_created [OF assms(4)] validate_event_created [OF assms(5)] assms(3) by auto
  have "300 \<le> (b - a) div 10 ^ 9" using div_le_mono [OF assms(2), of "10 ^ 9"] by (simp add: ENTRY_TTL_def)
  moreover have "int ((b - a) div 10 ^ 9) - 59 < wall b - wall a"
    using assms(1,2) unfolding steady_def by (simp add: ENTRY_TTL_def)
  ultimately show False using c by (simp add: FRESHNESS_SECS_def)
qed

text \<open>The ids that are remembered, held by tasks and delivered.\<close>

definition held :: "pair_world \<Rightarrow> nat \<Rightarrow> bytes option" where
  "held w i = (case pw_conns w i of None \<Rightarrow> None | Some cn \<Rightarrow> holds_id (cx_phase cn))"

definition holders_ok :: "instant \<Rightarrow> (bytes \<times> instant) list \<Rightarrow> (nat \<Rightarrow> bytes option) \<Rightarrow> (nat \<Rightarrow> instant) \<Rightarrow> bool" where
  "holders_ok now seen hs since \<longleftrightarrow>
     distinct (map fst seen) \<and> (\<forall>i idb. hs i = Some idb \<longrightarrow> (idb, since i) \<in> set seen \<and> now - since i < ENTRY_TTL) \<and>
     (\<forall>i j idb. hs i = Some idb \<longrightarrow> hs j = Some idb \<longrightarrow> i = j)"

definition log_ok :: "instant \<Rightarrow> (bytes \<times> instant) list \<Rightarrow> (nat \<Rightarrow> bytes option) \<Rightarrow> delivery list \<Rightarrow> bool" where
  "log_ok now seen hs ds \<longleftrightarrow>
     (\<forall>d \<in> set ds. now - dv_reserved d < ENTRY_TTL \<longrightarrow> (dv_id d, dv_reserved d) \<in> set seen \<and> (\<forall>i. hs i \<noteq> Some (dv_id d)))"

definition event_key :: "bytes \<Rightarrow> json \<Rightarrow> bytes \<times> int option" where
  "event_key idb ev = (idb, created_of ev)"

definition once_ok :: "pair_env \<Rightarrow> (instant \<Rightarrow> int) \<Rightarrow> pair_world \<Rightarrow> bool" where
  "once_ok X wall w \<longleftrightarrow>
     holders_ok (pw_now w) (rl_seen_ids (pw_relay w)) (held w) (pw_since w) \<and>
     log_ok (pw_now w) (rl_seen_ids (pw_relay w)) (held w) (pw_log w) \<and>
     (\<forall>i cn eid idb p ev. pw_conns w i = Some cn \<longrightarrow> cx_phase cn = Reserved eid idb p ev \<longrightarrow>
        validate_event (wall (pw_since w i)) ev = Inr (eid, idb, p) \<and> verify_event_sig X ev = Inr () \<and>
        (steady wall \<longrightarrow> event_key idb ev \<notin> set (map (\<lambda>d. event_key (dv_id d) (dv_event d)) (pw_log w)))) \<and>
     (\<forall>d \<in> set (pw_log w). \<exists>eid. validate_event (wall (dv_reserved d)) (dv_event d) = Inr (eid, dv_id d, dv_p d) \<and>
        verify_event_sig X (dv_event d) = Inr ()) \<and>
     (steady wall \<longrightarrow> distinct (map (\<lambda>d. event_key (dv_id d) (dv_event d)) (pw_log w)))"

lemma fresh_entries_mem: "(idb, ts) \<in> set (fresh_entries now es) \<longleftrightarrow> (idb, ts) \<in> set es \<and> now - ts < ENTRY_TTL"
  by (auto simp: fresh_entries_def)

lemma fresh_distinct: "distinct (map fst es) \<Longrightarrow> distinct (map fst (fresh_entries now es))"
  by (simp add: fresh_entries_def distinct_map_filter)

lemma holders_fresh: "holders_ok now seen hs since \<Longrightarrow> holders_ok now (fresh_entries now seen) hs since"
  unfolding holders_ok_def by (auto simp: fresh_entries_mem fresh_distinct)

lemma log_fresh: "log_ok now seen hs ds \<Longrightarrow> log_ok now (fresh_entries now seen) hs ds"
  unfolding log_ok_def by (auto simp: fresh_entries_mem)

lemma holders_reserve:
  assumes "holders_ok now seen hs since" "idb \<notin> fst ` set (fresh_entries now seen)" "hs i = None"
  shows "holders_ok now (fresh_entries now seen @ [(idb, now)]) (hs(i := Some idb)) (since(i := now))"
proof -
  note f = holders_fresh [OF assms(1)]
  have "hs j \<noteq> Some idb" for j using f assms(2) unfolding holders_ok_def by force
  then show ?thesis using f assms(2,3) unfolding holders_ok_def by (auto simp: ENTRY_TTL_def split: if_splits)
qed

lemma log_reserve:
  assumes "log_ok now seen hs ds" "idb \<notin> fst ` set (fresh_entries now seen)"
  shows "log_ok now (fresh_entries now seen @ [(idb, now)]) (hs(i := Some idb)) ds"
proof -
  note f = log_fresh [OF assms(1)]
  have "dv_id d \<noteq> idb" if "d \<in> set ds" "now - dv_reserved d < ENTRY_TTL" for d
    using f that assms(2) unfolding log_ok_def by force
  then show ?thesis using f unfolding log_ok_def by auto
qed

lemma position_first: "position P xs = Some n \<Longrightarrow> \<exists>as bs. xs = as @ xs ! n # bs \<and> length as = n"
  using position_less [of P xs n] id_take_nth_drop [of n xs] by (intro exI [of _ "take n xs"] exI [of _ "drop (Suc n) xs"]) auto

lemma swap_remove_mset: "n < length xs \<Longrightarrow> mset (swap_remove xs n) = mset xs - {#xs ! n#}"
proof -
  assume n: "n < length xs"
  then have ne: "xs \<noteq> []" by auto
  obtain ys y where xs: "xs = ys @ [y]" using ne by (metis append_butlast_last_id)
  show ?thesis
  proof (cases "n = length ys")
    case True
    then show ?thesis using xs by (simp add: swap_remove_def)
  next
    case False
    then have l: "n < length ys" using n xs by simp
    then have "swap_remove xs n = ys[n := y]" using xs by (simp add: swap_remove_def list_update_append)
    moreover have "xs ! n = ys ! n" using xs l by (simp add: nth_append)
    ultimately show ?thesis using xs l by (simp add: mset_update)
  qed
qed

lemma position_None: "position P xs = None \<longleftrightarrow> (\<forall>x \<in> set xs. \<not> P x)"
  by (induction xs) auto

lemma unreserve_seen:
  assumes "distinct (map fst (rl_seen_ids r))" "(idb, ts) \<in> set (rl_seen_ids r)"
  shows "set (rl_seen_ids (unreserve_id r idb)) = set (rl_seen_ids r) - {(idb, ts)}" "distinct (map fst (rl_seen_ids (unreserve_id r idb)))"
proof -
  let ?xs = "rl_seen_ids r"
  have ne: "position (\<lambda>(eid, _). eid = idb) ?xs \<noteq> None" using assms(2) unfolding position_None by auto
  then obtain n where n: "position (\<lambda>(eid, _). eid = idb) ?xs = Some n" by blast
  have e: "n < length ?xs" "fst (?xs ! n) = idb" using position_less [OF n] by auto
  have d: "distinct ?xs" using assms(1) by (simp add: distinct_map)
  have x: "?xs ! n = (idb, ts)" using e assms by (metis eq_key_imp_eq_value nth_mem prod.collapse)
  have m: "mset (swap_remove ?xs n) = mset ?xs - {#(idb, ts)#}" using swap_remove_mset [OF e(1)] x by simp
  have u: "rl_seen_ids (unreserve_id r idb) = swap_remove ?xs n" using n by (simp add: unreserve_id_def)
  have "mset (swap_remove ?xs n) = mset (remove1 (idb, ts) ?xs)" using m by simp
  then show "set (rl_seen_ids (unreserve_id r idb)) = set ?xs - {(idb, ts)}"
    using d u by (metis mset_eq_setD set_remove1_eq)
  have "mset (map fst (swap_remove ?xs n)) = mset (map fst (remove1 (idb, ts) ?xs))" using m by simp
  moreover have "distinct (map fst (remove1 (idb, ts) ?xs))" using assms(1) by (metis distinct_map distinct_remove1 inj_on_subset set_remove1_subset)
  ultimately show "distinct (map fst (rl_seen_ids (unreserve_id r idb)))" using u by (metis mset_eq_imp_distinct_iff)
qed

lemma held_put [simp]: "held (put w i (r, cs, cn)) = (held w)(i := holds_id (cx_phase cn))"
  by (auto simp: held_def fun_eq_iff)

lemma holders_drop: "holders_ok now seen hs since \<Longrightarrow> holders_ok now seen (hs(i := None)) since"
  "log_ok now seen hs ds \<Longrightarrow> log_ok now seen (hs(i := None)) ds"
  by (auto simp: holders_ok_def log_ok_def split: if_splits)

lemma holders_since: "holders_ok now seen hs since \<Longrightarrow> hs i = None \<Longrightarrow> holders_ok now seen hs (since(i := t))"
  by (auto simp: holders_ok_def)

lemma once_ok_keep:
  assumes "once_ok X wall w" "pw_log v = pw_log w"
    "holders_ok (pw_now v) (rl_seen_ids (pw_relay v)) (held v) (pw_since v)" "log_ok (pw_now v) (rl_seen_ids (pw_relay v)) (held v) (pw_log w)"
    "\<And>i cn eid idb p ev. pw_conns v i = Some cn \<Longrightarrow> cx_phase cn = Reserved eid idb p ev \<Longrightarrow>
       \<exists>cn0. pw_conns w i = Some cn0 \<and> cx_phase cn0 = Reserved eid idb p ev \<and> pw_since v i = pw_since w i"
  shows "once_ok X wall v"
proof -
  have "validate_event (wall (pw_since v i)) ev = Inr (eid, idb, p) \<and> verify_event_sig X ev = Inr () \<and>
      (steady wall \<longrightarrow> event_key idb ev \<notin> set (map (\<lambda>d. event_key (dv_id d) (dv_event d)) (pw_log w)))"
    if c: "pw_conns v i = Some cn" "cx_phase cn = Reserved eid idb p ev" for i cn eid idb p ev
  proof -
    obtain cn0 where "pw_conns w i = Some cn0" "cx_phase cn0 = Reserved eid idb p ev" "pw_since v i = pw_since w i" using assms(5) [OF c] by blast
    then show ?thesis using assms(1) unfolding once_ok_def by simp
  qed
  then show ?thesis using assms(1,3,4) unfolding once_ok_def assms(2) by simp
qed

lemma once_facts:
  assumes "once_ok X wall w"
  shows "holders_ok (pw_now w) (rl_seen_ids (pw_relay w)) (held w) (pw_since w)" "log_ok (pw_now w) (rl_seen_ids (pw_relay w)) (held w) (pw_log w)"
  using assms unfolding once_ok_def by auto

text \<open>A connection that ends up without an id, and leaves the ids that are remembered as they are.\<close>

lemma once_ok_quiet:
  assumes "once_ok X wall w" "rl_seen_ids r = rl_seen_ids (pw_relay w) \<or> rl_seen_ids r = fresh_entries (pw_now w) (rl_seen_ids (pw_relay w))"
    "holds_id (cx_phase cn') = None"
  shows "once_ok X wall ((put w i (r, cs, cn'))\<lparr>pw_since := (pw_since w)(i := t)\<rparr>)" "once_ok X wall (put w i (r, cs, cn'))"
proof -
  let ?v = "(put w i (r, cs, cn'))\<lparr>pw_since := (pw_since w)(i := t)\<rparr>"
  note f = once_facts [OF assms(1)]
  have h: "held ?v = (held w)(i := None)" using assms(3) by (auto simp: held_def fun_eq_iff)
  have seen: "holders_ok (pw_now w) (rl_seen_ids r) (held w) (pw_since w)" "log_ok (pw_now w) (rl_seen_ids r) (held w) (pw_log w)"
    using assms(2) f holders_fresh [OF f(1)] log_fresh [OF f(2)] by auto
  note d = holders_drop(1) [OF seen(1)] holders_drop(2) [OF seen(2)]
  show "once_ok X wall ?v"
    by (rule once_ok_keep [OF assms(1)]) (use d holders_since [OF d(1), of i i t] assms(3) in \<open>auto simp: h split: if_splits\<close>)
  show "once_ok X wall (put w i (r, cs, cn'))"
    by (rule once_ok_keep [OF assms(1)]) (use d assms(3) in \<open>auto simp: held_put split: if_splits\<close>)
qed

lemma once_ok_gone:
  assumes "once_ok X wall w" "rl_seen_ids r = rl_seen_ids (pw_relay w)"
  shows "once_ok X wall (w\<lparr>pw_relay := r, pw_conns := (pw_conns w)(i := None)\<rparr>)"
proof -
  have h: "held (w\<lparr>pw_relay := r, pw_conns := (pw_conns w)(i := None)\<rparr>) = (held w)(i := None)" by (auto simp: held_def fun_eq_iff)
  note f = once_facts [OF assms(1)]
  show ?thesis by (rule once_ok_keep [OF assms(1)]) (use holders_drop(1) [OF f(1)] holders_drop(2) [OF f(2)] assms(2) in \<open>auto simp: h split: if_splits\<close>)
qed

lemma once_ok_reserve:
  assumes "once_ok X wall w" "pw_conns w i = Some cn" "cx_phase cn = Ready"
    "cx_phase cn' = Reserved eid idb p ev" "validate_event (wall (pw_now w)) ev = Inr (eid, idb, p)" "verify_event_sig X ev = Inr ()"
    "idb \<notin> fst ` set (fresh_entries (pw_now w) (rl_seen_ids (pw_relay w)))"
    "rl_seen_ids r = fresh_entries (pw_now w) (rl_seen_ids (pw_relay w)) @ [(idb, pw_now w)]"
  shows "once_ok X wall ((put w i (r, cs, cn'))\<lparr>pw_since := (pw_since w)(i := pw_now w)\<rparr>)" (is "once_ok X wall ?v")
proof -
  note f = once_facts [OF assms(1)]
  have n: "held w i = None" using assms(2,3) by (simp add: held_def)
  have h: "held ?v = (held w)(i := Some idb)" using assms(4) by (auto simp: held_def fun_eq_iff)
  have new: "event_key idb ev \<notin> set (map (\<lambda>d. event_key (dv_id d) (dv_event d)) (pw_log w))" if "steady wall"
  proof
    assume "event_key idb ev \<in> set (map (\<lambda>d. event_key (dv_id d) (dv_event d)) (pw_log w))"
    then obtain d where d: "d \<in> set (pw_log w)" "dv_id d = idb" "created_of (dv_event d) = created_of ev" by (auto simp: event_key_def)
    have "\<not> pw_now w - dv_reserved d < ENTRY_TTL"
      using log_fresh [OF f(2)] d(1,2) assms(7) unfolding log_ok_def by force
    moreover obtain eid' where "validate_event (wall (dv_reserved d)) (dv_event d) = Inr (eid', dv_id d, dv_p d)"
      using assms(1) d(1) unfolding once_ok_def by blast
    ultimately show False using expired_not_fresh [OF that _ d(3)] assms(5) by (metis not_le)
  qed
  have res: "validate_event (wall (pw_since ?v j)) ev' = Inr (eid', idb', p') \<and> verify_event_sig X ev' = Inr () \<and>
      (steady wall \<longrightarrow> event_key idb' ev' \<notin> set (map (\<lambda>d. event_key (dv_id d) (dv_event d)) (pw_log w)))"
    if "pw_conns ?v j = Some cj" "cx_phase cj = Reserved eid' idb' p' ev'" for j cj eid' idb' p' ev'
  proof (cases "j = i")
    case True
    then show ?thesis using that assms(4-6) new by simp
  next
    case False
    then show ?thesis using that assms(1) unfolding once_ok_def by simp
  qed
  show ?thesis using assms(1) res holders_reserve [OF f(1) assms(7) n] log_reserve [OF f(2) assms(7)]
    unfolding once_ok_def h by (simp add: assms(8))
qed

lemma once_ok_log:
  assumes "once_ok X wall w" "pw_conns w i = Some cn" "cx_phase cn = Reserved eid idb p ev" "rl_seen_ids r = rl_seen_ids (pw_relay w)"
    "cx_phase cn' = Ready" "sb_p_value sub = p"
  shows "once_ok X wall ((put w i (r, cs, cn'))\<lparr>pw_log := pw_log w @ [\<lparr>dv_from = i, dv_sub = sub, dv_id = idb, dv_event = ev, dv_reserved = pw_since w i, dv_at = pw_now w\<rparr>]\<rparr>)"
    (is "once_ok X wall ?v")
proof -
  note f = once_facts [OF assms(1)]
  have i: "held w i = Some idb" using assms(2,3) by (simp add: held_def)
  have h: "held ?v = (held w)(i := None)" using assms(5) by (auto simp: held_def fun_eq_iff)
  have me: "validate_event (wall (pw_since w i)) ev = Inr (eid, idb, p)" "verify_event_sig X ev = Inr ()"
      "steady wall \<Longrightarrow> event_key idb ev \<notin> set (map (\<lambda>d. event_key (dv_id d) (dv_event d)) (pw_log w))"
    using assms(1-3) unfolding once_ok_def by blast+
  have other: "held w j \<noteq> Some idb" if "j \<noteq> i" for j using f(1) i that unfolding holders_ok_def by blast
  have "log_ok (pw_now w) (rl_seen_ids (pw_relay w)) ((held w)(i := None)) (pw_log ?v)"
    using holders_drop(2) [OF f(2), of i] f(1) i other unfolding log_ok_def holders_ok_def by auto
  moreover have "validate_event (wall (pw_since w j)) ev' = Inr (eid', idb', p') \<and> verify_event_sig X ev' = Inr () \<and>
      (steady wall \<longrightarrow> event_key idb' ev' \<notin> set (map (\<lambda>d. event_key (dv_id d) (dv_event d)) (pw_log ?v)))"
    if c: "pw_conns ?v j = Some cj" "cx_phase cj = Reserved eid' idb' p' ev'" for j cj eid' idb' p' ev'
  proof -
    have j: "j \<noteq> i" "pw_conns w j = Some cj" using c assms(5) by (auto split: if_splits)
    then have "held w j = Some idb'" using c(2) by (simp add: held_def)
    then have "idb' \<noteq> idb" using other [OF j(1)] by auto
    then show ?thesis using j c(2) assms(1) unfolding once_ok_def by (auto simp: event_key_def)
  qed
  ultimately show ?thesis using assms(1,4,6) me holders_drop(1) [OF f(1), of i] unfolding once_ok_def h by simp
qed

lemma once_ok_release:
  assumes "once_ok X wall w" "pw_conns w i = Some cn" "cx_phase cn = Releasing eid idb reason" "cx_phase cn' = Ready"
  shows "once_ok X wall (put w i (unreserve_id (pw_relay w) idb, cs, cn'))"
proof -
  note f = once_facts [OF assms(1)]
  have i: "held w i = Some idb" using assms(2,3) by (simp add: held_def)
  have m: "(idb, pw_since w i) \<in> set (rl_seen_ids (pw_relay w))" "distinct (map fst (rl_seen_ids (pw_relay w)))"
    using f(1) i unfolding holders_ok_def by auto
  note u = unreserve_seen [OF m(2,1)]
  have other: "held w j \<noteq> Some idb" if "j \<noteq> i" for j using f(1) i that unfolding holders_ok_def by blast
  have "holders_ok (pw_now w) (rl_seen_ids (unreserve_id (pw_relay w) idb)) ((held w)(i := None)) (pw_since w)"
    using f(1) u other unfolding holders_ok_def by auto
  moreover have "log_ok (pw_now w) (rl_seen_ids (unreserve_id (pw_relay w) idb)) ((held w)(i := None)) (pw_log w)"
    using f(2) u(1) i unfolding log_ok_def by (auto split: if_splits)
  ultimately show ?thesis
    by (intro once_ok_keep [OF assms(1)]) (use assms(4) in \<open>auto simp: held_put split: if_splits\<close>)
qed

lemma once_ok_same:
  assumes "once_ok X wall w" "rl_seen_ids (pw_relay v) = rl_seen_ids (pw_relay w)" "pw_conns v = pw_conns w" "pw_log v = pw_log w"
    "pw_now v = pw_now w" "pw_since v = pw_since w"
  shows "once_ok X wall v"
proof -
  have "held v = held w" using assms(3) by (simp add: held_def fun_eq_iff)
  then show ?thesis using assms unfolding once_ok_def by simp
qed

lemma once_ok_frame:
  assumes "once_ok X wall w" "pw_conns w i = Some cn" "cx_phase cn = Ready"
    "frame_effect X (pw_now w) (wall (pw_now w)) i (pw_relay w) cn r cn'"
  shows "once_ok X wall ((put w i (r, cs, cn'))\<lparr>pw_since := (pw_since w)(i := pw_now w)\<rparr>)"
  using assms(4)
proof (cases rule: frame_effect.cases)
  case (fe_reserved eid idb p ev)
  show ?thesis by (rule once_ok_reserve [OF assms(1-3) fe_reserved(2)]) (use fe_reserved in simp_all)
qed (auto intro!: once_ok_quiet(1) [OF assms(1)])

lemma once_ok_step:
  assumes "pair_step X wall w v" "once_ok X wall w"
  shows "once_ok X wall v"
  using assms(1)
proof (cases rule: pair_step.cases)
  case (ps_time t)
  note f = once_facts [OF assms(2)]
  have "held v = held w" using ps_time(1) by (simp add: held_def fun_eq_iff)
  moreover have "holders_ok t (rl_seen_ids (pw_relay w)) (held w) (pw_since w)"
    using f(1) ps_time(3) unfolding holders_ok_def by (auto simp: held_def split: option.splits)
  moreover have "log_ok t (rl_seen_ids (pw_relay w)) (held w) (pw_log w)"
    using f(2) ps_time(2) unfolding log_ok_def by (metis diff_le_mono order_le_less_trans)
  ultimately show ?thesis using ps_time(1) by (intro once_ok_keep [OF assms(2)]) auto
next
  case (ps_accept q i r cn)
  then show ?thesis by (auto simp: http_service_def Let_def split: if_splits intro!: once_ok_quiet(2) [OF assms(2)])
next
  case (ps_upgraded i cn)
  then show ?thesis by (auto simp: conn_new_def intro!: once_ok_quiet(2) [OF assms(2)])
next
  case (ps_frame i cn f)
  obtain r cs cn' where h: "handle_frame X (pw_now w) (wall (pw_now w)) i f (pw_relay w, pw_chans w, cn) = (r, cs, cn')" by (metis prod_cases3)
  show ?thesis using once_ok_frame [OF assms(2) ps_frame(2,3) handle_frame_effect [OF ps_frame(3) h]] ps_frame(1) h by simp
next
  case (ps_end i cn)
  then show ?thesis by (auto intro!: once_ok_quiet(2) [OF assms(2)])
next
  case (ps_deliver i cn eid idb p ev subs)
  obtain r cs cn' where h: "deliver_reserved X (pw_now w) i eid idb p ev (pw_relay w, pw_chans w, cn) = (r, cs, cn')" by (metis prod_cases3)
  obtain res csd where d: "deliver_single X (pw_now w) (pw_relay w) (pw_chans w) p ev = (res, r, csd)"
      "if res = Inr True then cx_phase cn' = Ready else \<exists>reason. cx_phase cn' = Releasing eid idb reason"
    using deliver_reserved_cases [OF h] by blast
  note r = deliver_reserved_relay [OF h]
  show ?thesis
  proof (cases "res = Inr True")
    case True
    obtain sub where s: "subs = [sub]" using deliver_single_cases(3) [OF d(1) True] ps_deliver(4) by auto
    have "sub \<in> set (filter (\<lambda>s. sb_p_value s = p) (rl_subs (pw_relay w)))" using s ps_deliver(4) by simp
    then have "sb_p_value sub = p" by simp
    then show ?thesis using once_ok_log [OF assms(2) ps_deliver(2,3) r(4)] d True s ps_deliver(1) h by simp
  next
    case False
    then obtain reason where c: "cx_phase cn' = Releasing eid idb reason" using d(2) by auto
    have hd: "held (put w i (r, cs, cn')) = held w" using c ps_deliver(2,3) by (auto simp: held_def fun_eq_iff)
    have "once_ok X wall (put w i (r, cs, cn'))"
      by (rule once_ok_keep [OF assms(2)]) (use once_facts [OF assms(2)] c r(4) hd in \<open>auto simp del: held_put split: if_splits\<close>)
    then show ?thesis using ps_deliver(1) h d(1) False by (simp add: put_def)
  qed
next
  case (ps_release i cn eid idb reason)
  then show ?thesis using once_ok_release [OF assms(2) ps_release(2,3)] by (simp add: release_id_def)
next
  case (ps_leave i cn)
  then show ?thesis by (auto simp: leave_loop_def intro!: once_ok_quiet(2) [OF assms(2)])
next
  case (ps_drop i cn)
  then show ?thesis by (auto simp: ConnGuard_drop_def intro!: once_ok_gone [OF assms(2)])
next
  case (ps_not_upgraded i cn)
  then show ?thesis by (auto simp: give_back_slot_def intro!: once_ok_gone [OF assms(2)])
next
  case (ps_full q r)
  then have "rl_seen_ids r = rl_seen_ids (pw_relay w)" by (auto simp: http_service_def Let_def split: if_splits)
  then show ?thesis using ps_full(1) by (intro once_ok_same [OF assms(2)]) simp_all
qed (auto simp: give_back_slot_def intro!: once_ok_same [OF assms(2)])


subsection \<open>What the relay guarantees\<close>

definition pair_inv :: "pair_env \<Rightarrow> (instant \<Rightarrow> int) \<Rightarrow> pair_world \<Rightarrow> bool" where
  "pair_inv X wall w \<longleftrightarrow> subs_ok w \<and> caps_ok w \<and> session_ok w \<and> budget_ok w \<and> once_ok X wall w"

interpretation pair_relay: invariant_system pair_init "pair_step X wall" "pair_inv X wall" for X wall
proof
  show "pair_inv X wall w" if "pair_init w" for w
  proof -
    have "held w = (\<lambda>_. None)" using that by (simp add: pair_init_def held_def fun_eq_iff)
    then have "once_ok X wall w" using that by (simp add: once_ok_def pair_init_def Relay_new_def holders_ok_def log_ok_def)
    then show ?thesis using that
      by (simp add: pair_inv_def pair_init_def subs_ok_def caps_ok_def session_ok_def budget_ok_def counts_ok_def count_ok_def recent_def in_window_def
          sent_by_def Relay_new_def dom_def)
  qed
  show "pair_inv X wall v" if "pair_step X wall w v" "pair_inv X wall w" for w v
    using that subs_ok_step caps_ok_step session_ok_step budget_ok_step once_ok_step unfolding pair_inv_def by blast
qed

lemmas pair_reached = pair_relay.reach_inv [unfolded pair_inv_def]

text \<open>
  A pairing message is delivered once: with a wall clock that keeps pace, no event (an id and its time
  of creation) is handed to a subscriber twice, in every interleaving of connections, whatever
  is sent, refused, released and sent again.
\<close>

theorem pairing_event_once:
  assumes "steady wall" "reach pair_init (pair_step X wall) w" "i < j" "j < length (pw_log w)"
  shows "(dv_id (pw_log w ! i), created_of (dv_event (pw_log w ! i))) \<noteq> (dv_id (pw_log w ! j), created_of (dv_event (pw_log w ! j)))"
proof -
  have "distinct (map (\<lambda>d. event_key (dv_id d) (dv_event d)) (pw_log w))"
    using pair_reached [OF assms(2)] assms(1) unfolding once_ok_def by blast
  then show ?thesis
    using nth_eq_iff_index_eq [of "map (\<lambda>d. event_key (dv_id d) (dv_event d)) (pw_log w)" i j] assms(3,4) by (simp add: event_key_def)
qed

text \<open>
  A recipient is not flooded: in every span of \<open>ENTRY_TTL\<close> at most \<open>MAX_DELIVERED_PER_P\<close> messages are delivered
  for one recipient key, however many connections send them.
\<close>

theorem recipient_budget:
  assumes "reach pair_init (pair_step X wall) w"
  shows "length (filter (\<lambda>d. dv_p d = p \<and> t \<le> dv_at d \<and> dv_at d < t + ENTRY_TTL) (pw_log w)) \<le> MAX_DELIVERED_PER_P"
  using pair_reached [OF assms] unfolding budget_ok_def in_window_def by blast

text \<open>
  The relay stays small: its tables, its connections and what one connection can have delivered are
  bounded by the constants of the code, whatever clients do.
\<close>

theorem pairing_relay_bounded:
  assumes "reach pair_init (pair_step X wall) w"
  shows "card (dom (pw_conns w)) \<le> MAX_CONNS \<and> length (rl_seen_ids (pw_relay w)) \<le> DEDUP_CAP \<and>
    length (rl_delivered (pw_relay w)) \<le> DELIVERED_MAP_CAP \<and> length (rl_subs (pw_relay w)) \<le> MAX_CONNS \<and>
    length (filter (\<lambda>d. dv_from d = i) (pw_log w)) \<le> MAX_EVENTS_PER_CONN"
proof -
  note inv = pair_reached [OF assms]
  have "set (map sb_conn_id (rl_subs (pw_relay w))) \<subseteq> dom (pw_conns w)" using inv unfolding subs_ok_def by auto
  then have "card (set (map sb_conn_id (rl_subs (pw_relay w)))) \<le> card (dom (pw_conns w))"
    using inv unfolding caps_ok_def by (intro card_mono) auto
  moreover have "card (set (map sb_conn_id (rl_subs (pw_relay w)))) = length (rl_subs (pw_relay w))"
    using inv distinct_card [of "map sb_conn_id (rl_subs (pw_relay w))"] unfolding subs_ok_def by simp
  ultimately show ?thesis using inv unfolding caps_ok_def session_ok_def sent_by_def by auto
qed

lemma say_keeps: "m \<in> set (ch_queue (cs j)) \<Longrightarrow> m \<in> set (ch_queue (say cs i t j))"
  by (auto simp: say_def try_send_def)

lemma deliver_single_sent:
  assumes "deliver_single X now r cs p ev = (Inr True, r', cs')"
  shows "\<exists>sub msg. filter (\<lambda>s. sb_p_value s = p) (rl_subs r) = [sub] \<and>
    px_to_string X (JArray [JString ''EVENT'', JString (sb_sub_id sub), ev]) = Some msg \<and> OutText msg \<in> set (ch_queue (cs' (sb_conn_id sub)))"
proof -
  obtain sub where sub: "filter (\<lambda>s. sb_p_value s = p) (rl_subs r) = [sub]" using deliver_single_cases(3) [OF assms] by blast
  then show ?thesis using assms
    by (auto simp: deliver_single_def try_send_def Let_def split: if_splits option.splits)
qed

lemma step_logs:
  assumes "pair_step X wall w v" "pw_log v = pw_log w @ [d]"
  shows "\<exists>i cn eid r cs. pw_conns w i = Some cn \<and> cx_phase cn = Reserved eid (dv_id d) (dv_p d) (dv_event d) \<and> dv_reserved d = pw_since w i \<and>
    deliver_single X (pw_now w) (pw_relay w) (pw_chans w) (dv_p d) (dv_event d) = (Inr True, r, cs) \<and>
    filter (\<lambda>s. sb_p_value s = dv_p d) (rl_subs (pw_relay w)) = [dv_sub d] \<and> pw_chans v = say cs i (make_ok X eid True [])"
  using assms(1)
proof (cases rule: pair_step.cases)
  case (ps_frame i cn f)
  then show ?thesis using assms(2) by (simp add: put_def split: prod.splits)
next
  case (ps_deliver i cn eid idb p ev subs)
  obtain res r cs where d: "deliver_single X (pw_now w) (pw_relay w) (pw_chans w) p ev = (res, r, cs)" by (metis prod_cases3)
  have res: "res = Inr True" and dd: "d = \<lparr>dv_from = i, dv_sub = hd subs, dv_id = idb, dv_event = ev, dv_reserved = pw_since w i, dv_at = pw_now w\<rparr>"
    using assms(2) ps_deliver(1) d by (auto split: if_splits)
  obtain sub where sub: "subs = [sub]" using deliver_single_cases(3) [OF d res] ps_deliver(4) by auto
  have "sub \<in> set (filter (\<lambda>s. sb_p_value s = p) (rl_subs (pw_relay w)))" using sub ps_deliver(4) by simp
  then have p: "sb_p_value sub = p" by simp
  have "pw_chans v = say cs i (make_ok X eid True [])" using ps_deliver(1) d res by (simp add: put_def deliver_reserved_def)
  then show ?thesis using ps_deliver(2-4) d res dd sub p by auto
qed (use assms(2) in \<open>auto simp: put_def release_id_def leave_loop_def\<close>)

text \<open>
  A message goes where it is addressed: what is delivered was valid and signed by its author when its id
  was reserved, and it is queued, unchanged, for the one connection that subscribed to its recipient
  key and holds that subscription.
\<close>

theorem delivered_authentic:
  assumes "reach pair_init (pair_step X wall) w" "pair_step X wall w v" "pw_log v = pw_log w @ [d]"
  shows "\<exists>eid cn msg. validate_event (wall (dv_reserved d)) (dv_event d) = Inr (eid, dv_id d, dv_p d) \<and> verify_event_sig X (dv_event d) = Inr () \<and>
    filter (\<lambda>s. sb_p_value s = dv_p d) (rl_subs (pw_relay w)) = [dv_sub d] \<and>
    pw_conns w (sb_conn_id (dv_sub d)) = Some cn \<and> cx_sub_id cn = Some (sb_sub_id (dv_sub d)) \<and>
    px_to_string X (JArray [JString ''EVENT'', JString (sb_sub_id (dv_sub d)), dv_event d]) = Some msg \<and>
    OutText msg \<in> set (ch_queue (pw_chans v (sb_conn_id (dv_sub d))))"
proof -
  obtain i cn eid r cs where s: "pw_conns w i = Some cn" "cx_phase cn = Reserved eid (dv_id d) (dv_p d) (dv_event d)" "dv_reserved d = pw_since w i"
      "deliver_single X (pw_now w) (pw_relay w) (pw_chans w) (dv_p d) (dv_event d) = (Inr True, r, cs)"
      "filter (\<lambda>s. sb_p_value s = dv_p d) (rl_subs (pw_relay w)) = [dv_sub d]" "pw_chans v = say cs i (make_ok X eid True [])"
    using step_logs [OF assms(2,3)] by blast
  note inv = pair_reached [OF assms(1)]
  have e: "validate_event (wall (dv_reserved d)) (dv_event d) = Inr (eid, dv_id d, dv_p d)" "verify_event_sig X (dv_event d) = Inr ()"
    using inv s(1-3) unfolding once_ok_def by auto
  have "dv_sub d \<in> set (filter (\<lambda>s. sb_p_value s = dv_p d) (rl_subs (pw_relay w)))" unfolding s(5) by simp
  then obtain cn' where c: "pw_conns w (sb_conn_id (dv_sub d)) = Some cn'" "cx_sub_id cn' = Some (sb_sub_id (dv_sub d))"
    using inv unfolding subs_ok_def by auto
  obtain msg where "px_to_string X (JArray [JString ''EVENT'', JString (sb_sub_id (dv_sub d)), dv_event d]) = Some msg"
      "OutText msg \<in> set (ch_queue (pw_chans v (sb_conn_id (dv_sub d))))"
    using deliver_single_sent [OF s(4)] s(5,6) say_keeps by fastforce
  then show ?thesis using e c s(5) by blast
qed

subsection \<open>A concrete run\<close>

definition pr_p :: string where "pr_p = replicate 64 CHR ''e''"

definition pr_id :: "string \<Rightarrow> string" where
  "pr_id c = replicate 64 (if c = ''1'' then CHR ''a'' else CHR ''b'')"

definition pr_content :: string where "pr_content = ''Ag'' @ replicate 130 CHR ''A''"

definition pr_event :: "string \<Rightarrow> json" where
  "pr_event c = JObject [(''id'', JString (pr_id c)), (''pubkey'', JString (replicate 64 CHR ''c'')), (''created_at'', JNumber c),
     (''kind'', JNumber ''24134''), (''tags'', JArray [JArray [JString ''p'', JString pr_p]]), (''content'', JString pr_content),
     (''sig'', JString (replicate 128 CHR ''d''))]"

definition pr_X :: pair_env where
  "pr_X = \<lparr>px_parse = (\<lambda>t. if t = ''0'' then Some (JArray [JString ''REQ'', JString ''s'', JObject [(''#p'', JArray [JString pr_p])]])
       else Some (JArray [JString ''EVENT'', pr_event t])),
     px_show = (\<lambda>_. []), px_to_string = (\<lambda>j. case j of JArray [_, _, JNumber c, _, _, _] \<Rightarrow> Some c | _ \<Rightarrow> Some []),
     px_sha256 = (\<lambda>c. hex_read (pr_id c)), px_xonly = (\<lambda>_. True), px_schnorr = (\<lambda>_ _ _. True)\<rparr>"

lemma pr_content_ok: "validate_nip44_content pr_content = Inr ()"
  by code_simp

lemma pr_hex: "is_lower_hex (replicate 64 CHR ''a'') 64" "is_lower_hex (replicate 64 CHR ''b'') 64" "is_lower_hex (replicate 64 CHR ''c'') 64"
  "is_lower_hex (replicate 64 CHR ''e'') 64" "is_lower_hex (replicate 128 CHR ''d'') 128"
  by code_simp+

lemma pr_numbers: "as_i64 (JNumber ''1'') = Some 1" "as_i64 (JNumber ''2'') = Some 2" "as_u64 (JNumber ''24134'') = Some KIND_PAIR"
  by (simp_all add: as_i64_def as_u64_def parse_uint_def is_digit_def digits_value_def KIND_PAIR_def)

lemma pr_valid:
  assumes "c = ''1'' \<or> c = ''2''"
  shows "validate_event 0 (pr_event c) = Inr (pr_id c, hex_read (pr_id c), hex_read pr_p)" "verify_event_sig pr_X (pr_event c) = Inr ()"
proof -
  have h: "is_lower_hex (pr_id c) 64" "is_lower_hex pr_p 64" using pr_hex by (simp_all add: pr_id_def pr_p_def)
  have "show_i64 1 = ''1''" "show_i64 2 = ''2''" by code_simp+
  then have n: "\<exists>k. as_i64 (JNumber c) = Some k \<and> \<bar>k\<bar> \<le> 120 \<and> show_i64 k = c"
    using assms pr_numbers(1,2) by auto
  show "validate_event 0 (pr_event c) = Inr (pr_id c, hex_read (pr_id c), hex_read pr_p)"
    using n h pr_hex pr_content_ok pr_numbers
    by (auto simp: validate_event_def pr_event_def as_object_def ALLOWED_KEYS_def get_str_def as_str_def decode_hex32_def ok_or_def as_array_def FRESHNESS_SECS_def)
  show "verify_event_sig pr_X (pr_event c) = Inr ()"
    using n h pr_hex pr_numbers
    by (auto simp: verify_event_sig_def pr_event_def as_object_def get_str_def as_str_def decode_hex32_def decode_hex64_def ok_or_def pr_X_def)
qed


definition pr_wall :: "instant \<Rightarrow> int" where "pr_wall t = int (t div 10 ^ 9)"

lemma pr_steady: "steady pr_wall"
proof -
  have "(b - a) div 10 ^ 9 + a div 10 ^ 9 \<le> b div 10 ^ 9" if "a \<le> b" for a b :: nat
    using div_add1_eq [of "b - a" a "10 ^ 9"] that by simp
  then show ?thesis unfolding steady_def pr_wall_def by (smt (verit, best) of_nat_add of_nat_le_iff)
qed

definition pr_world :: "Relay \<Rightarrow> chans \<Rightarrow> (nat \<Rightarrow> conn option) \<Rightarrow> delivery list \<Rightarrow> pair_world" where
  "pr_world r cs conns ds = \<lparr>pw_relay = r, pw_chans = cs, pw_conns = conns, pw_now = 0, pw_rejecting = 0, pw_since = (\<lambda>_. 0), pw_log = ds\<rparr>"

abbreviation pr_reach :: "pair_world \<Rightarrow> bool" where
  "pr_reach \<equiv> reach pair_init (pair_step pr_X pr_wall)"

definition pr_request :: http_request where
  "pr_request = \<lparr>hq_get = True, hq_http11 = True, hq_connection = Some ''Upgrade'', hq_upgrade = Some ''websocket'', hq_version = Some ''13'',
     hq_key = Some (replicate 24 CHR ''k'')\<rparr>"

lemma pr_ws: "is_ws pr_request"
  by code_simp

lemma pr_connect:
  assumes "pr_reach (pr_world r cs conns ds)" "rl_conn_count r < MAX_CONNS" "n = rl_next_conn_id r"
  shows "pr_reach (pr_world (r\<lparr>rl_conn_count := Suc (rl_conn_count r), rl_next_conn_id := Suc n\<rparr>) (cs(n := \<lparr>ch_queue = [], ch_open = True\<rparr>))
    (conns(n \<mapsto> conn_new 0)) ds)"
proof -
  let ?r = "r\<lparr>rl_conn_count := Suc (rl_conn_count r), rl_next_conn_id := Suc n\<rparr>" and ?cs = "cs(n := \<lparr>ch_queue = [], ch_open = True\<rparr>)"
    and ?u = "(conn_new 0)\<lparr>cx_phase := Upgrading\<rparr>"
  have h: "http_service r pr_request = (Admitted n, ?r)" using assms(2,3) pr_ws by (simp add: http_service_def)
  have "pair_step pr_X pr_wall (pr_world r cs conns ds) (put (pr_world r cs conns ds) n (?r, ?cs, ?u))"
    using ps_accept [of "pr_world r cs conns ds" pr_request n ?r ?u pr_X pr_wall] h by (simp add: pr_world_def conn_new_def)
  moreover have "put (pr_world r cs conns ds) n (?r, ?cs, ?u) = pr_world ?r ?cs (conns(n \<mapsto> ?u)) ds" by (simp add: put_def pr_world_def)
  ultimately have 1: "pr_reach (pr_world ?r ?cs (conns(n \<mapsto> ?u)) ds)" using assms(1) by (metis reach_step)
  have "pair_step pr_X pr_wall (pr_world ?r ?cs (conns(n \<mapsto> ?u)) ds) (pr_world ?r ?cs (conns(n \<mapsto> conn_new 0)) ds)"
    using ps_upgraded [of "pr_world ?r ?cs (conns(n \<mapsto> ?u)) ds" n ?u pr_X pr_wall] by (simp add: put_def pr_world_def)
  then show ?thesis using 1 by (rule reach_step [rotated])
qed

lemma pr_frame:
  assumes "pr_reach (pr_world r cs conns ds)" "conns i = Some cn" "cx_phase cn = Ready"
    "handle_frame pr_X 0 0 i f (r, cs, cn) = (r', cs', cn')"
  shows "pr_reach (pr_world r' cs' (conns(i \<mapsto> cn')) ds)"
proof -
  have "pair_step pr_X pr_wall (pr_world r cs conns ds) (pr_world r' cs' (conns(i \<mapsto> cn')) ds)"
    using ps_frame [of "pr_world r cs conns ds" i cn pr_X pr_wall f] assms(2-4) by (simp add: put_def pr_world_def pr_wall_def fun_upd_idem)
  then show ?thesis using assms(1) by (rule reach_step [rotated])
qed

lemma pr_delivers:
  assumes "conns i = Some cn" "cx_phase cn = Reserved eid idb p ev" "rl_subs r = [sub]" "sb_p_value sub = p"
    "deliver_single pr_X 0 r cs p ev = (Inr True, r', cs')"
  shows "pair_step pr_X pr_wall (pr_world r cs conns ds) (pr_world r' (say cs' i (make_ok pr_X eid True [])) (conns(i \<mapsto> cn\<lparr>cx_phase := Ready\<rparr>))
    (ds @ [\<lparr>dv_from = i, dv_sub = sub, dv_id = idb, dv_event = ev, dv_reserved = 0, dv_at = 0\<rparr>]))"
  using ps_deliver [of "pr_world r cs conns ds" i cn eid idb p ev "[sub]" pr_X pr_wall] assms
  by (simp add: put_def pr_world_def deliver_reserved_def)

definition pr_sub :: Sub where "pr_sub = \<lparr>sb_conn_id = 0, sb_sub_id = ''s'', sb_p_value = hex_read pr_p\<rparr>"

lemma pr_subscribed:
  "\<exists>c0. pr_reach (pr_world \<lparr>rl_subs = [pr_sub], rl_conn_count = 2, rl_next_conn_id = 2, rl_seen_ids = [], rl_delivered = []\<rparr>
     ((\<lambda>_. \<lparr>ch_queue = [], ch_open = False\<rparr>)(1 := \<lparr>ch_queue = [], ch_open = True\<rparr>, 0 := \<lparr>ch_queue = [OutText []], ch_open = True\<rparr>))
     (Map.empty(1 \<mapsto> conn_new 0, 0 \<mapsto> c0)) [])"
proof -
  have 0: "pr_reach (pr_world Relay_new (\<lambda>_. \<lparr>ch_queue = [], ch_open = False\<rparr>) Map.empty [])"
    by (rule reach_init) (simp add: pair_init_def pr_world_def)
  have 1: "pr_reach (pr_world (Relay_new\<lparr>rl_conn_count := 1, rl_next_conn_id := 1\<rparr>) ((\<lambda>_. \<lparr>ch_queue = [], ch_open = False\<rparr>)(0 := \<lparr>ch_queue = [], ch_open = True\<rparr>))
      (Map.empty(0 \<mapsto> conn_new 0)) [])"
    using pr_connect [OF 0, of 0] by (simp add: Relay_new_def MAX_CONNS_def)
  have 2: "pr_reach (pr_world (Relay_new\<lparr>rl_conn_count := 2, rl_next_conn_id := 2\<rparr>)
      ((\<lambda>_. \<lparr>ch_queue = [], ch_open = False\<rparr>)(0 := \<lparr>ch_queue = [], ch_open = True\<rparr>, 1 := \<lparr>ch_queue = [], ch_open = True\<rparr>))
      (Map.empty(0 \<mapsto> conn_new 0, 1 \<mapsto> conn_new 0)) [])"
    using pr_connect [OF 1, of 1] by (simp add: Relay_new_def MAX_CONNS_def numeral_2_eq_2)
  have v: "validate_filter (JObject [(''#p'', JArray [JString pr_p])]) = Inr (hex_read pr_p)"
    using pr_hex by (simp add: validate_filter_def as_object_def as_array_def as_str_def ok_or_def decode_hex32_def pr_p_def)
  obtain c0 where "handle_frame pr_X 0 0 0 (FrText ''0'') (Relay_new\<lparr>rl_conn_count := 2, rl_next_conn_id := 2\<rparr>,
      (\<lambda>_. \<lparr>ch_queue = [], ch_open = False\<rparr>)(0 := \<lparr>ch_queue = [], ch_open = True\<rparr>, 1 := \<lparr>ch_queue = [], ch_open = True\<rparr>), conn_new 0) =
    (\<lparr>rl_subs = [pr_sub], rl_conn_count = 2, rl_next_conn_id = 2, rl_seen_ids = [], rl_delivered = []\<rparr>,
     (\<lambda>_. \<lparr>ch_queue = [], ch_open = False\<rparr>)(1 := \<lparr>ch_queue = [], ch_open = True\<rparr>, 0 := \<lparr>ch_queue = [OutText []], ch_open = True\<rparr>), c0)"
    using v by (auto simp: handle_frame_def RateWindow_tick_def conn_new_def RateWindow_new_def RATE_WINDOW_def RATE_MSG_MAX_def on_text_def pr_X_def
      as_str_def on_req_def SUB_ID_MAX_def as_object_def Relay_new_def try_send_def CHANNEL_CAP_def pr_sub_def make_eose_def jarr_def Let_def)
  from pr_frame [OF 2 _ _ this] show ?thesis by (auto simp: conn_new_def)
qed


definition pr_relay :: "string list \<Rightarrow> Relay" where
  "pr_relay es = \<lparr>rl_subs = [pr_sub], rl_conn_count = 2, rl_next_conn_id = 2, rl_seen_ids = map (\<lambda>c. (hex_read (pr_id c), 0)) es,
     rl_delivered = (if es = [] then [] else [(hex_read pr_p, (length es, 0))])\<rparr>"

definition pr_chans :: "nat \<Rightarrow> chans" where
  "pr_chans n = (\<lambda>_. \<lparr>ch_queue = [], ch_open = False\<rparr>)(1 := \<lparr>ch_queue = replicate n (OutText []), ch_open = True\<rparr>,
     0 := \<lparr>ch_queue = replicate (Suc n) (OutText []), ch_open = True\<rparr>)"

definition pr_delivery :: "string \<Rightarrow> delivery" where
  "pr_delivery c = \<lparr>dv_from = 1, dv_sub = pr_sub, dv_id = hex_read (pr_id c), dv_event = pr_event c, dv_reserved = 0, dv_at = 0\<rparr>"

definition pr_sender :: "nat \<Rightarrow> conn" where
  "pr_sender n = (conn_new 0)\<lparr>cx_msg_rate := \<lparr>rw_count = n, rw_window_start = 0\<rparr>, cx_event_rate := \<lparr>rw_count = n, rw_window_start = 0\<rparr>,
     cx_events_attempted := n\<rparr>"

definition pr_at :: "conn \<Rightarrow> string list \<Rightarrow> pair_world" where
  "pr_at c0 es = pr_world (pr_relay es) (pr_chans (length es)) (Map.empty(1 \<mapsto> pr_sender (length es), 0 \<mapsto> c0)) (map pr_delivery es)"

lemma pr_ids_differ: "hex_read (pr_id ''1'') \<noteq> hex_read (pr_id ''2'')"
  by code_simp

lemma pr_round:
  assumes "pr_reach (pr_at c0 es)" "(es, c) = ([], ''1'') \<or> (es, c) = ([''1''], ''2'')"
  shows "\<exists>w. pr_reach w \<and> pair_step pr_X pr_wall w (pr_at c0 (es @ [c])) \<and> pw_log w = map pr_delivery es"
proof -
  let ?n = "length es" and ?ev = "pr_event c" and ?i = "hex_read (pr_id c)" and ?p = "hex_read pr_p"
  let ?r = "pr_relay es\<lparr>rl_seen_ids := rl_seen_ids (pr_relay es) @ [(?i, 0)]\<rparr>"
  let ?cn = "(pr_sender (Suc ?n))\<lparr>cx_phase := Reserved (pr_id c) ?i ?p ?ev\<rparr>"
  have c: "c = ''1'' \<or> c = ''2''" "c \<noteq> ''0''" using assms(2) by auto
  have new: "reserve_id 0 (pr_relay es) ?i = (Inr False, ?r)"
    using assms(2) pr_ids_differ by (auto simp: reserve_id_def fresh_entries_def pr_relay_def ENTRY_TTL_def DEDUP_CAP_def Let_def)
  have "handle_frame pr_X 0 0 1 (FrText c) (pr_relay es, pr_chans ?n, pr_sender ?n) = (?r, pr_chans ?n, ?cn)"
    using pr_valid [OF c(1)] new c(2) assms(2)
    by (auto simp: handle_frame_def RateWindow_tick_def pr_sender_def conn_new_def RATE_WINDOW_def RATE_MSG_MAX_def RATE_EVENT_MAX_def on_text_def pr_X_def
      as_str_def on_event_frame_def MAX_EVENTS_PER_CONN_def as_object_def pr_event_def Let_def)
  from pr_frame [OF assms(1) [unfolded pr_at_def] _ _ this]
  have w: "pr_reach (pr_world ?r (pr_chans ?n) (Map.empty(1 \<mapsto> ?cn, 0 \<mapsto> c0)) (map pr_delivery es))" (is "pr_reach ?w")
    by (simp add: pr_sender_def conn_new_def fun_upd_twist)
  have t: "px_to_string pr_X (JArray [JString ''EVENT'', JString ''s'', ?ev]) = Some []" by (simp add: pr_X_def pr_event_def)
  have d: "deliver_single pr_X 0 ?r (pr_chans ?n) ?p ?ev = (Inr True, pr_relay (es @ [c]), (pr_chans ?n)(0 := \<lparr>ch_queue = replicate (Suc (Suc ?n)) (OutText []), ch_open = True\<rparr>))"
    using assms(2) t by (auto simp: deliver_single_def pr_relay_def pr_sub_def fresh_counts_def ENTRY_TTL_def MAX_DELIVERED_PER_P_def DELIVERED_MAP_CAP_def
        try_send_def pr_chans_def CHANNEL_CAP_def Let_def)
  have "pair_step pr_X pr_wall ?w (pr_at c0 (es @ [c]))"
    using pr_delivers [of "Map.empty(1 \<mapsto> ?cn, 0 \<mapsto> c0)" 1 ?cn "pr_id c" ?i ?p ?ev ?r pr_sub "pr_chans ?n" _ _ "map pr_delivery es", OF _ _ _ _ d] assms(2)
    by (auto simp: pr_at_def pr_relay_def pr_sub_def pr_sender_def conn_new_def pr_delivery_def say_def try_send_def pr_chans_def CHANNEL_CAP_def make_ok_def
        jarr_def pr_X_def fun_upd_twist)
  then show ?thesis using w by (auto simp: pr_world_def)
qed


lemma pr_two: "\<exists>c0 w. pr_reach (pr_at c0 [''1'', ''2'']) \<and> pr_reach w \<and> pair_step pr_X pr_wall w (pr_at c0 [''1'', ''2'']) \<and> pw_log w = [pr_delivery ''1'']"
proof -
  have s0: "pr_sender 0 = conn_new 0" by (simp add: pr_sender_def conn_new_def RateWindow_new_def)
  obtain c0 where "pr_reach (pr_at c0 [])" using pr_subscribed by (auto simp: pr_at_def pr_relay_def pr_chans_def s0)
  then have "pr_reach (pr_at c0 [''1''])" using pr_round [of c0 "[]" "''1''"] by (auto intro: reach_step)
  then show ?thesis using pr_round [of c0 "[''1'']" "''2''"] by (auto intro: reach_step)
qed

lemma pr_at_log: "pw_log (pr_at c0 es) = map pr_delivery es"
  by (simp add: pr_at_def pr_world_def)

theorem pairing_event_once_witness:
  "\<exists>w. pr_reach w \<and> length (pw_log w) = 2 \<and>
     (dv_id (pw_log w ! 0), created_of (dv_event (pw_log w ! 0))) \<noteq> (dv_id (pw_log w ! 1), created_of (dv_event (pw_log w ! 1)))"
proof -
  obtain c0 where w: "pr_reach (pr_at c0 [''1'', ''2''])" using pr_two by blast
  then show ?thesis using pairing_event_once [OF pr_steady w, of 0 1] by (intro exI [of _ "pr_at c0 [''1'', ''2'']"]) (simp add: pr_at_log)
qed

theorem recipient_budget_witness:
  "\<exists>w. pr_reach w \<and> pw_log w = [pr_delivery ''1'', pr_delivery ''2''] \<and>
     length (filter (\<lambda>d. dv_p d = hex_read pr_p \<and> 0 \<le> dv_at d \<and> dv_at d < 0 + ENTRY_TTL) (pw_log w)) \<le> MAX_DELIVERED_PER_P"
proof -
  obtain c0 where w: "pr_reach (pr_at c0 [''1'', ''2''])" using pr_two by blast
  show ?thesis using w recipient_budget [OF w, of "hex_read pr_p" 0] by (intro exI [of _ "pr_at c0 [''1'', ''2'']"]) (simp add: pr_at_log)
qed

theorem pairing_relay_bounded_witness:
  "\<exists>w. pr_reach w \<and> pw_log w = [pr_delivery ''1'', pr_delivery ''2''] \<and> card (dom (pw_conns w)) \<le> MAX_CONNS \<and>
     length (filter (\<lambda>d. dv_from d = 1) (pw_log w)) \<le> MAX_EVENTS_PER_CONN"
proof -
  obtain c0 where w: "pr_reach (pr_at c0 [''1'', ''2''])" using pr_two by blast
  show ?thesis using w pairing_relay_bounded [OF w, of 1] by (intro exI [of _ "pr_at c0 [''1'', ''2'']"]) (simp add: pr_at_log)
qed

theorem delivered_authentic_witness:
  "\<exists>eid. validate_event (pr_wall 0) (pr_event ''2'') = Inr (eid, hex_read (pr_id ''2''), hex_read pr_p) \<and> verify_event_sig pr_X (pr_event ''2'') = Inr ()"
proof -
  obtain c0 w where w: "pr_reach w" "pair_step pr_X pr_wall w (pr_at c0 [''1'', ''2''])" "pw_log w = [pr_delivery ''1'']" using pr_two by blast
  have "pw_log (pr_at c0 [''1'', ''2'']) = pw_log w @ [pr_delivery ''2'']" using w(3) by (simp add: pr_at_log)
  from delivered_authentic [OF w(1,2) this] show ?thesis by (auto simp: pr_delivery_def pr_sub_def)
qed

end
