(* ===== verification/Spec2Isabelle.thy ===== *)
theory Spec2Isabelle
  imports Registry_Calls Git_Perms Event_Queue Audio_Room Pairing_Run Tunnel_Fence Mesh_Admission Audit_Log Auth_Store Workflow_Schedule Workflow_Doors Pair_Relay_Run
begin

text \<open>
  \<^bold>\<open>What this is.\<close> Buzz is a Nostr relay with agents. Clients hold subscriptions over a socket, events
  are fanned out to them, agents work on queued events, users meet in audio huddles, devices are
  paired by a QR code, git repositories live behind ref protection rules, and several relays of
  one deployment form a mesh. This development models the parts of the Rust code under
  \<open>src/crates\<close> that decide who sees what, in which order things happen and who owns what, and
  proves what makes them correct. Definitions keep the names of the code; every definition that
  models code is in the manifest with the lines it translates.

  \<^bold>\<open>The parts and their theories.\<close>

  \<^item> \<open>Buzz_Prelude\<close>: fixed-width integers, hash maps as lists of entries in iteration order (so that
    statements hold for every order), results, decimal and hexadecimal text, reachable states and
    the locale \<open>invariant_system\<close> that lifts an inductive invariant to reachable states.
  \<^item> \<open>Nostr_Types\<close>, \<open>Buzz_Kind\<close>, \<open>Nostr_Filter\<close> (\<open>buzz-core/src/event.rs\<close>, \<open>kind.rs\<close>, \<open>filter.rs\<close>): events,
    the registry of kind numbers and its predicates, filter matching and the read gates.
  \<^item> \<open>Subscription_Registry\<close>, \<open>Registry_Calls\<close> (\<open>buzz-relay/src/subscription.rs\<close>): the concurrent indexes by
    channel, kind and wildcard. The first theory has each call as one function: fan-out never crosses
    communities and the table part refines a table of subscriptions. The second takes the calls apart into
    their lock-protected steps and interleaves them: under two stated provisos on the order of steps,
    fan-out equals a scan of all subscriptions and respects revocation; without overlap the indexes
    agree exactly with the table; and an overlap that loses a posting is exhibited.
  \<^item> \<open>Channel_Roles\<close>, \<open>Git_Perms\<close> (\<open>buzz-core/src/channel.rs\<close>, \<open>git_perms.rs\<close>): names, roles, ref patterns, the
    push decision in closed form, its monotonicity in the role, atomicity of a push.
  \<^item> \<open>Event_Queue\<close> (\<open>buzz-acp/src/queue.rs\<close>): batches for agents. At most one batch of a channel is in
    flight, nothing is lost or invented, service is fair, retries back off and end.
  \<^item> \<open>Audio_Room\<close> (\<open>buzz-relay/src/audio/room.rs\<close>): huddle rooms, peer indices, admission, rosters.
  \<^item> \<open>Pairing_Crypto\<close>, \<open>Pairing_Qr\<close>, \<open>Pairing_Session\<close>, \<open>Pairing_Run\<close> (\<open>buzz-core/src/pairing\<close>): device
    pairing. Honest devices complete; a side moves the payload only after its own user approved the
    digits, and once;
    an accepted confirmation binds both transcripts; no event is accepted twice.
  \<^item> \<open>Mesh_Wire\<close>, \<open>Tunnel_Directory\<close>, \<open>Tunnel_Fence\<close> (\<open>buzz-relay-mesh/src/wire.rs\<close>,
    \<open>buzz-relay/src/tunnel/directory.rs\<close>): leases on sessions kept in Redis. A former owner is fenced off
    for good, accepted fences never go back, the present owner is protected until expiry.
  \<^item> \<open>Mesh_Gossip\<close>, \<open>Mesh_Registry\<close>, \<open>Mesh_Membership\<close>, \<open>Mesh_Runtime\<close>, \<open>Mesh_Convergence\<close>,
    \<open>Mesh_Admission\<close> (\<open>buzz-relay-mesh/src\<close>): gossip converges, simultaneous dials end with one
    connection, draining relays are not dialed, who is admitted and what gossip adds to that.
  \<^item> \<open>Audit_Log\<close> (\<open>buzz-audit/src\<close>): one hash chain per community. Every chain that was written verifies,
    the last hash pins the hashed bytes of the whole chain, appends leave other chains alone; and
    what the hashed bytes do not determine.
  \<^item> \<open>Tenant_Host\<close> (\<open>buzz-core/src/tenant.rs\<close>, \<open>buzz-relay/src/tenant.rs\<close>): which community a host
    selects. Spellings of one host select one community; binding fails closed.
  \<^item> \<open>Auth_Events\<close> (\<open>buzz-auth/src\<close>, \<open>buzz-relay/src/api/bridge.rs\<close>): scopes, channel access and the
    verification of NIP-42 and NIP-98 events. Acceptance is characterized exactly, tokens are bound to
    the host of their tenant, and a bare payload tag does not bind the body.
  \<^item> \<open>Auth_Store\<close> (\<open>buzz-auth\<close>, \<open>buzz-pubsub\<close> and their users in \<open>buzz-relay\<close>): the markers of used events and the
    rate counters in Redis, over arbitrary runs with failures. An event passes twice only if it was
    dated ahead, and then it can; a limit admits at most twice its bound per window; quotas are
    independent; errors admit nothing.
  \<^item> \<open>Workflow_Schema\<close>, \<open>Workflow_Template\<close> (\<open>buzz-workflow/src/schema.rs\<close> and the first half of \<open>executor.rs\<close>):
    definitions and their validation, durations, template substitution, conditions. Validation is exact,
    substitution never expands inserted text, and what a condition can see.
  \<^item> \<open>Net_Guard\<close> (\<open>buzz-core/src/network.rs\<close>): the addresses outgoing requests must not reach; the bit tests
    agree with the documented table.
  \<^item> \<open>Workflow_Db\<close> (\<open>buzz-db/src/workflow.rs\<close>): the workflow tables under every history of statements. Keys and
    references hold; a fire is claimed once and an approval decided once in every interleaving;
    statements for one owner leave other owners alone; disabling lasts.
  \<^item> \<open>Workflow_Prog\<close>: asynchronous code as trees of requests and replies, with cancellation, the write
    lease of \<open>buzz-deletion\<close>, and monitors that watch every path of a program.
  \<^item> \<open>Workflow_Actions\<close> (the second half of \<open>executor.rs\<close>): actions, steps and runs. Reading a response ends;
    webhooks go to public addresses only; effects happen under a verified lease; messages stay in
    the channel of the workflow; the trace accounts for the steps.
  \<^item> \<open>Workflow_Engine\<close> (\<open>buzz-workflow/src/lib.rs\<close>, \<open>resume_workflow_after_approval\<close>): the handler of stored events,
    a turn of the scheduler, the authority check and the end of a run. Every task that ends has closed its
    run.
  \<^item> \<open>Workflow_Doors\<close> (\<open>buzz-relay/src/handlers/command_executor.rs\<close>, \<open>api/bridge.rs\<close>, \<open>webhook_secret.rs\<close>): the
    manual trigger and the webhook. With them a run is created through four doors, and each of them
    needs the authority of the owner of the workflow.
  \<^item> \<open>Workflow_Schedule\<close>: any number of pods over one database. An instant is run once; slow ticks skip
    instants; a restart shortens an interval; a new interval workflow starts.
  \<^item> \<open>Pair_Relay\<close>, \<open>Pair_Relay_Run\<close> (\<open>buzz-pair-relay/src/lib.rs\<close>): the relay that carries the messages of a
    pairing. Over all interleavings of its connections an event is delivered at most once, to the one
    subscriber it names and after its signature was checked; a recipient has a budget per span of
    time; tables, connections and sessions stay within their limits.
  \<^bold>\<open>How the code is modelled.\<close> A struct is a record, an enum a datatype, an integer a word of its
  width where it can wrap, a fallible function returns a sum whose left values are the errors.
  Stateful code takes and returns its state. Where the code holds one lock, or sends one script to
  Redis, for a whole call, the call is one transition and a concurrent run is any sequence of calls.
  Where it does not, calls are taken apart: the registry in \<open>Registry_Calls\<close>, the connections of
  \<open>Pair_Relay_Run\<close>, and the workflow code as programs of single requests. Clocks, random values, the results
  of input and output and the points at which a remote call can fail are arguments. Code outside
  the repository (cryptography, serialization, hexadecimal and URL codecs, Redis, QUIC, floating
  point) is a field of a parameter record; what the code relies on is a named predicate such as
  \<open>redis_ok\<close>, \<open>texts_ok\<close>, \<open>crates_ok\<close> or \<open>f64_ok\<close>, and every statement that assumes one has a
  witness with a concrete instance. All functions are total; no definition needs fuel. The only
  numeric bound is on the generation counter of a tunnel session, below ten to the fourteenth,
  where Lua starts to print numbers in exponent form.

  \<^bold>\<open>Idealisations.\<close> Redis counters are unbounded in the model, while Redis refuses to increment
  beyond 63 bits, and an expiry of zero milliseconds is accepted. The settings of the HTTP client of a
  webhook (no proxy, no redirects, ten seconds) are part of the request that sends it and not of the
  model. PostgreSQL prints the numbers of stored JSON in its own way: the audit theorems assume the
  canonical text to be kept only for the details at hand. Collisions of hashes are excluded only
  where a statement says so, and then only for the values it names.

  \<^bold>\<open>Not modelled.\<close> Sockets, HTTP handlers, SQL and the database crate, the agent and its language
  model clients, media processing, telemetry, the command line tools, the desktop, mobile and web
  front ends, deployment files: they are input and output, glue, or code of other languages. The
  manifest lists them one by one. Within the modelled files, logging, metrics, accessors that only
  return a field and test code are left out.
\<close>

end
